(* ===== verification/Ns3_Prelude.thy ===== *)
theory Ns3_Prelude
  imports Main "HOL-Library.Word" "HOL-Library.Multiset"
begin

text \<open>
  Shared vocabulary of the development: the result type of operations that can hit an
  assertion or undefined behaviour, the widths of the C++ integer types, and the generic
  lemmas on lists, multisets and words that the component theories use.
\<close>

section \<open>Faults and results\<close>

text \<open>
  A C++ operation that can hit an \<open>NS_ASSERT\<close>, call \<open>NS_FATAL_ERROR\<close>, read out of
  range (or otherwise leave the defined part of the language), or whose loop is bounded in
  the model by a fuel parameter, returns a value of \<open>'a res\<close>: \<open>Inl\<close> of the fault or
  \<open>Inr\<close> of the result.
\<close>

datatype fault = Assert | Fatal | Undefined | NoFuel

type_synonym 'a res = "fault + 'a"

fun bind_res :: "'a res \<Rightarrow> ('a \<Rightarrow> 'b res) \<Rightarrow> 'b res" where
  "bind_res (Inl e) f = Inl e"
| "bind_res (Inr x) f = f x"

definition ns_assert :: "bool \<Rightarrow> 'a res \<Rightarrow> 'a res" where
  "ns_assert b k = (if b then k else Inl Assert)"

definition defined_if :: "bool \<Rightarrow> 'a res \<Rightarrow> 'a res" where
  "defined_if b k = (if b then k else Inl Undefined)"

named_theorems res_simps "evaluation of results"

lemma bind_res_cong [fundef_cong]:
  "m = m' \<Longrightarrow> (\<And>x. m' = Inr x \<Longrightarrow> f x = g x) \<Longrightarrow> bind_res m f = bind_res m' g"
  by (cases m') auto

lemma bind_res_Inr_iff [res_simps]:
  "bind_res m f = Inr y \<longleftrightarrow> (\<exists>x. m = Inr x \<and> f x = Inr y)"
  by (cases m) auto

lemma ns_assert_True [simp]: "ns_assert True k = k"
  and ns_assert_False [simp]: "ns_assert False k = Inl Assert"
  by (simp_all add: ns_assert_def)

lemma defined_if_True [simp]: "defined_if True k = k"
  and defined_if_False [simp]: "defined_if False k = Inl Undefined"
  by (simp_all add: defined_if_def)

lemma ns_assert_Inr_iff [res_simps]: "ns_assert b k = Inr y \<longleftrightarrow> b \<and> k = Inr y"
  by (simp add: ns_assert_def)

lemma defined_if_Inr_iff [res_simps]: "defined_if b k = Inr y \<longleftrightarrow> b \<and> k = Inr y"
  by (simp add: defined_if_def)

lemma ns_assert_cong [fundef_cong]:
  "b = b' \<Longrightarrow> (b' \<Longrightarrow> k = k') \<Longrightarrow> ns_assert b k = ns_assert b' k'"
  by (simp add: ns_assert_def)

lemma defined_if_cong [fundef_cong]:
  "b = b' \<Longrightarrow> (b' \<Longrightarrow> k = k') \<Longrightarrow> defined_if b k = defined_if b' k'"
  by (simp add: defined_if_def)

text \<open>Folding a fallible step over a list stops at the first fault, as the abort would.\<close>

fun fold_res :: "('a \<Rightarrow> 's \<Rightarrow> 's res) \<Rightarrow> 'a list \<Rightarrow> 's \<Rightarrow> 's res" where
  "fold_res f [] s = Inr s"
| "fold_res f (x # xs) s = bind_res (f x s) (fold_res f xs)"

lemma fold_res_append: "fold_res f (xs @ ys) s = bind_res (fold_res f xs s) (fold_res f ys)"
proof (induction xs arbitrary: s)
  case (Cons x xs)
  then show ?case by (cases "f x s") simp_all
qed simp

lemma fold_res_map: "fold_res f (map g xs) s = fold_res (\<lambda>x. f (g x)) xs s"
proof (induction xs arbitrary: s)
  case (Cons x xs)
  then show ?case by (cases "f (g x) s") simp_all
qed simp

lemma fold_res_concat: "fold_res (\<lambda>x. fold_res f (g x)) xs s = fold_res f (concat (map g xs)) s"
proof (induction xs arbitrary: s)
  case (Cons x xs)
  then show ?case by (cases "fold_res f (g x) s") (simp_all add: fold_res_append)
qed simp

lemma fold_res_cong: "(\<And>x t. x \<in> set xs \<Longrightarrow> f x t = g x t) \<Longrightarrow> fold_res f xs s = fold_res g xs s"
proof (induction xs arbitrary: s)
  case (Cons x xs)
  then show ?case by (cases "g x s") simp_all
qed simp

lemma fold_res_invariant:
  assumes "fold_res f xs s = Inr t" and "P s"
    and "\<And>x u v. x \<in> set xs \<Longrightarrow> P u \<Longrightarrow> f x u = Inr v \<Longrightarrow> P v"
  shows "P t"
  using assms by (induction xs arbitrary: s) (auto simp: res_simps)

section \<open>Integer types\<close>

type_synonym u8 = "8 word"
type_synonym u16 = "16 word"
type_synonym u32 = "32 word"
type_synonym u64 = "64 word"

lemma unat_u32_lt [simp]: "unat (x :: u32) < 4294967296"
  using unsigned_less [of x] by simp

lemma unat_u64_lt [simp]: "unat (x :: u64) < 18446744073709551616"
  using unsigned_less [of x] by simp

lemma unat_inc_nowrap: "unat x + 1 < 2 ^ LENGTH('a) \<Longrightarrow> unat (x + 1) = unat x + 1"
  for x :: "'a::len word"
  by (simp add: unat_word_ariths unsigned_1)

text \<open>Signed and unsigned reading of a non-negative 64-bit value.\<close>

lemma uint_less_unat: "uint (x :: u64) < 2 ^ 63 \<longleftrightarrow> unat x < 2 ^ 63"
proof -
  have "uint x = int (unat x)" by simp
  also have "int (unat x) < 2 ^ 63 \<longleftrightarrow> unat x < 2 ^ 63"
    by (metis of_nat_less_iff of_nat_numeral of_nat_power)
  finally show ?thesis .
qed

lemma sint_small:
  assumes "unat (x :: u64) < 2 ^ 63"
  shows "sint x = int (unat x)"
proof -
  have "uint x < 2 ^ 63" using assms by (simp only: uint_less_unat)
  moreover have "- (2 ^ 63) \<le> uint x" by (rule order_trans [OF _ uint_ge_0]) simp
  ultimately have "signed_take_bit 63 (uint x) = uint x"
    by (intro signed_take_bit_int_eq_self)
  then show ?thesis by (simp add: sint_uint)
qed

lemma sint_nonneg:
  assumes "0 \<le> sint (x :: u64)"
  shows "unat x < 2 ^ 63"
proof -
  have "uint x = take_bit 64 (sint x)" using uint_sint [of x] by simp
  also have "\<dots> = sint x" using assms sint_lt [of x] by (simp add: take_bit_int_eq_self)
  finally have "uint x < 2 ^ 63" using sint_lt [of x] by simp
  then show ?thesis by (simp only: uint_less_unat)
qed

lemma unat_add_nowrap:
  "unat x + unat y < 2 ^ LENGTH('a) \<Longrightarrow> unat (x + y) = unat x + unat y"
  for x :: "'a::len word"
  by (simp add: unat_word_ariths)

section \<open>Lists\<close>

definition swap_at :: "nat \<Rightarrow> nat \<Rightarrow> 'a list \<Rightarrow> 'a list" where
  "swap_at i j xs = xs[i := xs ! j, j := xs ! i]"

lemma length_swap_at [simp]: "length (swap_at i j xs) = length xs"
  by (simp add: swap_at_def)

lemma mset_swap_at [simp]:
  "i < length xs \<Longrightarrow> j < length xs \<Longrightarrow> mset (swap_at i j xs) = mset xs"
  by (simp add: swap_at_def mset_swap)

lemma nth_swap_at:
  "i < length xs \<Longrightarrow> j < length xs \<Longrightarrow> k < length xs \<Longrightarrow>
   swap_at i j xs ! k = (if k = j then xs ! i else if k = i then xs ! j else xs ! k)"
  by (auto simp: swap_at_def nth_list_update)

lemma sum_list_le_member: "x \<in> set xs \<Longrightarrow> f x \<le> sum_list (map f xs)" for f :: "'a \<Rightarrow> nat"
  by (induction xs) auto

end
