(* ===== verification/Event_Scheduler.thy ===== *)
theory Event_Scheduler
  imports Ns3_Prelude
begin

text \<open>
  The scheduler interface of \<open>src/core/model/scheduler.h\<close>: event keys, events, their
  comparison operators, the table of virtual operations a scheduler provides, and the
  contract every scheduler is held to, as a locale. The simulator theory proves its lemmas
  against the contract; the scheduler theories discharge it.
\<close>

section \<open>Keys and events\<close>

text \<open>\<open>Scheduler::EventKey\<close> and \<open>Scheduler::Event\<close>. An \<open>EventImpl *\<close> is an address.\<close>

datatype event_key = EventKey (m_ts: u64) (m_uid: u32) (m_context: u32)

type_synonym impl_ptr = nat

record event =
  impl :: impl_ptr
  key :: event_key

definition key_eq :: "event_key \<Rightarrow> event_key \<Rightarrow> bool" where
  "key_eq a b \<longleftrightarrow> m_uid a = m_uid b"

definition key_neq :: "event_key \<Rightarrow> event_key \<Rightarrow> bool" where
  "key_neq a b \<longleftrightarrow> m_uid a \<noteq> m_uid b"

definition key_less :: "event_key \<Rightarrow> event_key \<Rightarrow> bool" where
  "key_less a b =
     (if m_ts a < m_ts b then True
      else if m_ts a = m_ts b \<and> m_uid a < m_uid b then True
      else False)"

definition key_greater :: "event_key \<Rightarrow> event_key \<Rightarrow> bool" where
  "key_greater a b =
     (if m_ts a > m_ts b then True
      else if m_ts a = m_ts b \<and> m_uid a > m_uid b then True
      else False)"

definition ev_eq :: "event \<Rightarrow> event \<Rightarrow> bool" where
  "ev_eq a b \<longleftrightarrow> key_eq (key a) (key b)"

definition ev_neq :: "event \<Rightarrow> event \<Rightarrow> bool" where
  "ev_neq a b \<longleftrightarrow> key_neq (key a) (key b)"

definition ev_less :: "event \<Rightarrow> event \<Rightarrow> bool" where
  "ev_less a b \<longleftrightarrow> key_less (key a) (key b)"

definition ev_greater :: "event \<Rightarrow> event \<Rightarrow> bool" where
  "ev_greater a b \<longleftrightarrow> key_greater (key a) (key b)"

text \<open>
  The comparison operators order keys by time stamp and then by unique id. The same order
  read as a number, which turns the reasoning about schedulers into arithmetic.
\<close>

definition key_rank :: "event_key \<Rightarrow> nat" where
  "key_rank k = unat (m_ts k) * 2 ^ 32 + unat (m_uid k)"

definition rank :: "event \<Rightarrow> nat" where
  "rank e = key_rank (key e)"

lemma rank_pair_less:
  "(a :: nat) * 2 ^ 32 + b < c * 2 ^ 32 + d \<longleftrightarrow> a < c \<or> a = c \<and> b < d"
  if "b < 2 ^ 32" "d < 2 ^ 32"
  using that by (cases a c rule: linorder_cases) auto

lemma rank_pair_less_words:
  "unat (a :: u64) * 2 ^ 32 + unat (b :: u32) < unat c * 2 ^ 32 + unat d
   \<longleftrightarrow> a < c \<or> a = c \<and> b < d"
proof -
  have "unat b < 2 ^ 32" "unat d < 2 ^ 32" by simp_all
  then show ?thesis
    by (simp only: rank_pair_less word_less_nat_alt word_unat_eq_iff)
qed

lemma key_less_rank: "key_less a b \<longleftrightarrow> key_rank a < key_rank b"
  unfolding key_less_def key_rank_def rank_pair_less_words by auto

lemma key_greater_rank: "key_greater a b \<longleftrightarrow> key_rank b < key_rank a"
  unfolding key_greater_def key_rank_def rank_pair_less_words by auto

lemma key_less_trans: "key_less a b \<Longrightarrow> key_less b c \<Longrightarrow> key_less a c"
  by (simp add: key_less_rank)

lemma ev_less_rank: "ev_less a b \<longleftrightarrow> rank a < rank b"
  by (simp add: ev_less_def rank_def key_less_rank)

lemma key_rank_inject: "key_rank a = key_rank b \<longleftrightarrow> m_ts a = m_ts b \<and> m_uid a = m_uid b"
proof -
  have "key_rank a = key_rank b \<longleftrightarrow> \<not> key_rank a < key_rank b \<and> \<not> key_rank b < key_rank a"
    by linarith
  also have "\<dots> \<longleftrightarrow> m_ts a = m_ts b \<and> m_uid a = m_uid b"
    by (auto simp flip: key_less_rank simp: key_less_def split: if_splits)
  finally show ?thesis .
qed

lemma rank_ts_mono: "rank a \<le> rank b \<Longrightarrow> m_ts (key a) \<le> m_ts (key b)"
  using key_less_rank [of "key b" "key a"] by (auto simp: rank_def key_less_def split: if_splits)

section \<open>Pending events\<close>

text \<open>
  What a scheduler holds is a multiset of events. Unique ids are pairwise different there:
  the simulator draws them from a counter.
\<close>

abbreviation ev_uid :: "event \<Rightarrow> u32" where
  "ev_uid e \<equiv> m_uid (key e)"

abbreviation ev_ts :: "event \<Rightarrow> u64" where
  "ev_ts e \<equiv> m_ts (key e)"

definition uniq_uids :: "event multiset \<Rightarrow> bool" where
  "uniq_uids M \<longleftrightarrow> (\<forall>u. count (image_mset ev_uid M) u \<le> 1)"

definition is_next :: "event \<Rightarrow> event multiset \<Rightarrow> bool" where
  "is_next e M \<longleftrightarrow> e \<in># M \<and> (\<forall>x \<in># M. rank e \<le> rank x)"

lemma uniq_uids_empty [simp]: "uniq_uids {#}"
  by (simp add: uniq_uids_def)

lemma uniq_uids_add:
  "uniq_uids (add_mset e M) \<longleftrightarrow> ev_uid e \<notin> ev_uid ` set_mset M \<and> uniq_uids M"
proof -
  define c where "c = count (image_mset ev_uid M)"
  have fresh: "ev_uid e \<notin> ev_uid ` set_mset M \<longleftrightarrow> c (ev_uid e) = 0"
    unfolding c_def by (metis count_eq_zero_iff set_image_mset)
  have "uniq_uids (add_mset e M) \<longleftrightarrow> (\<forall>u. (if ev_uid e = u then Suc (c u) else c u) \<le> 1)"
    by (simp add: uniq_uids_def c_def)
  also have "\<dots> \<longleftrightarrow> c (ev_uid e) = 0 \<and> (\<forall>u. c u \<le> 1)" (is "?l = ?r")
  proof
    assume l: ?l
    have "c u \<le> 1" for u using spec [OF l, of u] by (simp split: if_splits)
    with spec [OF l, of "ev_uid e"] show ?r by simp
  qed simp
  finally show ?thesis by (simp add: fresh uniq_uids_def c_def)
qed

lemma uniq_uids_mset: "uniq_uids (mset xs) \<longleftrightarrow> distinct (map ev_uid xs)"
  by (induction xs) (auto simp: uniq_uids_add)

lemma uniq_uids_eqD:
  "uniq_uids M \<Longrightarrow> a \<in># M \<Longrightarrow> b \<in># M \<Longrightarrow> ev_uid a = ev_uid b \<Longrightarrow> a = b"
proof (induction M)
  case (add x M)
  then have "ev_uid x \<noteq> ev_uid y" if "y \<in># M" for y
    using that by (auto simp: uniq_uids_add)
  with add show ?case by (auto simp: uniq_uids_add) (metis)+
qed simp

lemma is_next_unique:
  assumes "uniq_uids M" "is_next a M" "is_next b M"
  shows "a = b"
proof -
  from assms have "rank a = rank b" by (auto simp: is_next_def intro: order_antisym)
  then have "ev_uid a = ev_uid b" by (simp add: rank_def key_rank_inject)
  with assms show ?thesis by (auto simp: is_next_def intro: uniq_uids_eqD)
qed

lemma is_next_ts: "is_next e M \<Longrightarrow> x \<in># M \<Longrightarrow> ev_ts e \<le> ev_ts x"
  by (auto simp: is_next_def intro: rank_ts_mono)

lemma drain_unique:
  assumes "distinct (map ev_uid xs)" "mset xs = mset ys" "sorted (map rank xs)" "sorted (map rank ys)"
  shows "xs = ys"
proof (rule map_sorted_distinct_set_unique [where f = rank])
  have "distinct (map ev_uid ys)" using assms(1,2) by (simp flip: uniq_uids_mset)
  moreover have inj: "inj_on rank (set zs) \<and> distinct (map rank zs)" if "distinct (map ev_uid zs)" for zs
    using that by (auto simp: distinct_map inj_on_def rank_def key_rank_inject)
  ultimately show "distinct (map rank xs)" "distinct (map rank ys)" using assms(1) by blast+
  show "set xs = set ys" using assms(2) by (rule mset_eq_setD)
  then show "inj_on rank (set xs \<union> set ys)" using inj [OF assms(1)] by simp
qed (use assms in simp_all)

section \<open>The virtual operations and their contract\<close>

text \<open>
  The pure virtual operations of class \<open>Scheduler\<close>, as the table a concrete scheduler
  fills in. \<open>op_new\<close> is the state its constructor leaves.
\<close>

record 's scheduler_ops =
  op_new :: 's
  op_Insert :: "event \<Rightarrow> 's \<Rightarrow> 's res"
  op_IsEmpty :: "'s \<Rightarrow> bool"
  op_PeekNext :: "'s \<Rightarrow> event res"
  op_RemoveNext :: "'s \<Rightarrow> (event \<times> 's) res"
  op_Remove :: "event \<Rightarrow> 's \<Rightarrow> 's res"

text \<open>
  Draining: removing the next event until the queue is empty, the loop of
  \<open>DefaultSimulatorImpl::DoDispose\<close> and \<open>SetScheduler\<close>, with fuel for the number of events.
\<close>

fun drain :: "'s scheduler_ops \<Rightarrow> nat \<Rightarrow> 's \<Rightarrow> event list res" where
  "drain ops 0 s = (if op_IsEmpty ops s then Inr [] else Inl NoFuel)"
| "drain ops (Suc n) s =
     (if op_IsEmpty ops s then Inr []
      else bind_res (op_RemoveNext ops s)
             (\<lambda>(e, s'). bind_res (drain ops n s') (\<lambda>es. Inr (e # es))))"

text \<open>
  The contract without \<open>Remove\<close>. \<open>valid\<close> is the representation invariant and
  \<open>evs\<close> the pending events. The class comment's \<open>This method cannot be invoked if the
  list is empty\<close> is the premise \<open>evs s \<noteq> {#}\<close>; every total operation returns.
\<close>

locale event_queue =
  fixes ops :: "'s scheduler_ops"
    and valid :: "'s \<Rightarrow> bool"
    and evs :: "'s \<Rightarrow> event multiset"
  assumes new_valid: "valid (op_new ops)"
    and new_evs: "evs (op_new ops) = {#}"
    and valid_uniq: "valid s \<Longrightarrow> uniq_uids (evs s)"
    and insert_law: "valid s \<Longrightarrow> ev_uid e \<notin> ev_uid ` set_mset (evs s) \<Longrightarrow>
      \<exists>s'. op_Insert ops e s = Inr s' \<and> valid s' \<and> evs s' = add_mset e (evs s)"
    and is_empty_law: "valid s \<Longrightarrow> op_IsEmpty ops s \<longleftrightarrow> evs s = {#}"
    and peek_law: "valid s \<Longrightarrow> evs s \<noteq> {#} \<Longrightarrow>
      \<exists>e. op_PeekNext ops s = Inr e \<and> is_next e (evs s)"
    and remove_next_law: "valid s \<Longrightarrow> evs s \<noteq> {#} \<Longrightarrow>
      \<exists>e s'. op_RemoveNext ops s = Inr (e, s') \<and> is_next e (evs s) \<and>
        valid s' \<and> evs s = add_mset e (evs s')"
begin

lemma insert_Inr:
  assumes "valid s" "ev_uid e \<notin> ev_uid ` set_mset (evs s)" "op_Insert ops e s = Inr s'"
  shows "valid s'" and "evs s' = add_mset e (evs s)"
  using insert_law [OF assms(1,2)] assms(3) by auto

lemma remove_next_Inr:
  assumes "valid s" "evs s \<noteq> {#}" "op_RemoveNext ops s = Inr (e, s')"
  shows "is_next e (evs s)" and "valid s'" and "evs s = add_mset e (evs s')"
  using remove_next_law [OF assms(1,2)] assms(3) by auto

lemma peek_is_removed:
  assumes "valid s" "evs s \<noteq> {#}"
  shows "\<exists>e s'. op_PeekNext ops s = Inr e \<and> op_RemoveNext ops s = Inr (e, s')"
  using peek_law [OF assms] remove_next_law [OF assms] valid_uniq [OF assms(1)] is_next_unique
  by fastforce

text \<open>
  \<open>drain_order\<close> is the point of a scheduler: whatever was inserted comes out once, in the
  order of time stamps and, among equal time stamps, of unique ids.
\<close>

lemma drain_order:
  assumes "valid s" "size (evs s) \<le> n"
  shows "\<exists>es. drain ops n s = Inr es \<and> mset es = evs s \<and> sorted (map rank es)"
  using assms
proof (induction n arbitrary: s)
  case 0
  then show ?case by (simp add: is_empty_law)
next
  case (Suc n)
  show ?case
  proof (cases "evs s = {#}")
    case True
    with Suc.prems show ?thesis by (simp add: is_empty_law)
  next
    case False
    from remove_next_law [OF Suc.prems(1) False] obtain e s' where
      r: "op_RemoveNext ops s = Inr (e, s')" and nx: "is_next e (evs s)" and
      s': "valid s'" "evs s = add_mset e (evs s')" by blast
    from Suc.prems(2) s'(2) have "size (evs s') \<le> n" by simp
    from Suc.IH [OF s'(1) this] obtain es where
      es: "drain ops n s' = Inr es" "mset es = evs s'" "sorted (map rank es)" by blast
    from es(2) have "set es = set_mset (evs s')" by (metis set_mset_mset)
    with nx s'(2) es(3) have "sorted (map rank (e # es))" by (auto simp: is_next_def)
    with False Suc.prems r es s'(2) show ?thesis by (simp add: is_empty_law)
  qed
qed

lemma insert_all:
  assumes "valid s" "uniq_uids (evs s + mset es)"
  shows "\<exists>s'. fold_res (op_Insert ops) es s = Inr s' \<and> valid s' \<and> evs s' = evs s + mset es"
  using assms
proof (induction es arbitrary: s)
  case (Cons e es)
  then have "ev_uid e \<notin> ev_uid ` set_mset (evs s)" by (auto simp: uniq_uids_add)
  from insert_law [OF Cons.prems(1) this] obtain s1 where
    s1: "op_Insert ops e s = Inr s1" "valid s1" "evs s1 = add_mset e (evs s)" by blast
  with Cons.prems(2) have "uniq_uids (evs s1 + mset es)" by simp
  from Cons.IH [OF s1(2) this] s1 show ?case by auto
qed simp

lemma insert_all_drain:
  assumes "distinct (map ev_uid es)"
  shows "\<exists>s out. fold_res (op_Insert ops) es (op_new ops) = Inr s \<and>
    drain ops (length es) s = Inr out \<and> mset out = mset es \<and> sorted (map rank out)"
proof -
  from assms have "uniq_uids (evs (op_new ops) + mset es)" by (simp add: new_evs uniq_uids_mset)
  from insert_all [OF new_valid this] obtain s where
    s: "fold_res (op_Insert ops) es (op_new ops) = Inr s" "valid s" "evs s = mset es"
    by (auto simp: new_evs)
  from drain_order [OF s(2), of "length es"] s show ?thesis by auto
qed

end

text \<open>The full contract adds the removal of a given pending event.\<close>

locale event_scheduler = event_queue ops valid evs
  for ops :: "'s scheduler_ops" and valid :: "'s \<Rightarrow> bool" and evs :: "'s \<Rightarrow> event multiset" +
  assumes remove_law: "valid s \<Longrightarrow> e \<in># evs s \<Longrightarrow>
      \<exists>s'. op_Remove ops e s = Inr s' \<and> valid s' \<and> evs s = add_mset e (evs s')"
begin

lemma remove_Inr:
  assumes "valid s" "e \<in># evs s" "op_Remove ops e s = Inr s'"
  shows "valid s'" and "evs s' = evs s - {#e#}"
  using remove_law [OF assms(1,2)] assms(3) by auto

lemma insert_remove:
  assumes "valid s" "ev_uid e \<notin> ev_uid ` set_mset (evs s)"
  shows "\<exists>s' s''. op_Insert ops e s = Inr s' \<and> op_Remove ops e s' = Inr s'' \<and>
    valid s'' \<and> evs s'' = evs s"
proof -
  from insert_law [OF assms] obtain s' where
    s': "op_Insert ops e s = Inr s'" "valid s'" "evs s' = add_mset e (evs s)" by blast
  then have "e \<in># evs s'" by simp
  from remove_law [OF s'(2) this] s' show ?thesis by auto
qed

end

end
