(* ===== verification/List_Scheduler.thy ===== *)
theory List_Scheduler
  imports Event_Scheduler
begin

text \<open>
  \<open>src/core/model/list-scheduler.cc\<close>: the scheduler that keeps its events in a
  \<open>std::list\<close> sorted by key.
\<close>

section \<open>Operations\<close>

type_synonym list_scheduler = "event list"

definition ListScheduler_new :: list_scheduler where
  "ListScheduler_new = []"

fun ListScheduler_Insert :: "event \<Rightarrow> list_scheduler \<Rightarrow> list_scheduler" where
  "ListScheduler_Insert ev [] = [ev]"
| "ListScheduler_Insert ev (x # xs) =
     (if key_less (key ev) (key x) then ev # x # xs else x # ListScheduler_Insert ev xs)"

definition ListScheduler_IsEmpty :: "list_scheduler \<Rightarrow> bool" where
  "ListScheduler_IsEmpty s \<longleftrightarrow> s = []"

definition ListScheduler_PeekNext :: "list_scheduler \<Rightarrow> event res" where
  "ListScheduler_PeekNext s = defined_if (s \<noteq> []) (Inr (hd s))"

definition ListScheduler_RemoveNext :: "list_scheduler \<Rightarrow> (event \<times> list_scheduler) res" where
  "ListScheduler_RemoveNext s = defined_if (s \<noteq> []) (Inr (hd s, tl s))"

fun ListScheduler_Remove :: "event \<Rightarrow> list_scheduler \<Rightarrow> list_scheduler res" where
  "ListScheduler_Remove ev [] = Inl Assert"
| "ListScheduler_Remove ev (x # xs) =
     (if ev_uid x = ev_uid ev then ns_assert (impl ev = impl x) (Inr xs)
      else bind_res (ListScheduler_Remove ev xs) (\<lambda>ys. Inr (x # ys)))"

definition ListScheduler_ops :: "list_scheduler scheduler_ops" where
  "ListScheduler_ops =
     \<lparr>op_new = ListScheduler_new,
      op_Insert = (\<lambda>e s. Inr (ListScheduler_Insert e s)),
      op_IsEmpty = ListScheduler_IsEmpty,
      op_PeekNext = ListScheduler_PeekNext,
      op_RemoveNext = ListScheduler_RemoveNext,
      op_Remove = ListScheduler_Remove\<rparr>"

section \<open>Correctness\<close>

definition ListScheduler_valid :: "list_scheduler \<Rightarrow> bool" where
  "ListScheduler_valid s \<longleftrightarrow> sorted (map rank s) \<and> distinct (map ev_uid s)"

lemma distinct_of_valid: "ListScheduler_valid s \<Longrightarrow> distinct (map ev_uid s)"
  by (simp add: ListScheduler_valid_def)

lemma mset_ListScheduler_Insert [simp]:
  "mset (ListScheduler_Insert e s) = add_mset e (mset s)"
  by (induction s) auto

lemma set_ListScheduler_Insert [simp]: "set (ListScheduler_Insert e s) = insert e (set s)"
  by (metis mset_ListScheduler_Insert set_mset_add_mset_insert set_mset_mset)

lemma sorted_ListScheduler_Insert:
  "sorted (map rank s) \<Longrightarrow> sorted (map rank (ListScheduler_Insert e s))"
  by (induction s) (auto simp: key_less_rank rank_def)

lemma ListScheduler_Remove_mem:
  assumes "distinct (map ev_uid s)" "e \<in> set s"
  shows "ListScheduler_Remove e s = Inr (remove1 e s)"
  using assms
proof (induction s)
  case (Cons x xs)
  show ?case
  proof (cases "x = e")
    case False
    with Cons.prems have "e \<in> set xs" "ev_uid x \<noteq> ev_uid e" by force+
    with Cons False show ?thesis by simp
  qed simp
qed simp

lemma ListScheduler_valid_remove1:
  "ListScheduler_valid s \<Longrightarrow> ListScheduler_valid (remove1 e s)"
  unfolding ListScheduler_valid_def
  by (induction s) (auto simp: image_iff dest: notin_set_remove1 set_remove1_subset [THEN subsetD])

interpretation list_sched: event_scheduler ListScheduler_ops ListScheduler_valid mset
proof unfold_locales
  fix s e
  assume s: "ListScheduler_valid s"
  then show "uniq_uids (mset s)" by (simp add: uniq_uids_mset ListScheduler_valid_def)
  show "op_IsEmpty ListScheduler_ops s \<longleftrightarrow> mset s = {#}"
    by (simp add: ListScheduler_ops_def ListScheduler_IsEmpty_def)
  { assume "ev_uid e \<notin> ev_uid ` set_mset (mset s)"
    with s have "ListScheduler_valid (ListScheduler_Insert e s)"
      using uniq_uids_mset [of "ListScheduler_Insert e s"]
      by (auto simp: ListScheduler_valid_def sorted_ListScheduler_Insert uniq_uids_add uniq_uids_mset)
    then show "\<exists>s'. op_Insert ListScheduler_ops e s = Inr s' \<and> ListScheduler_valid s' \<and>
        mset s' = add_mset e (mset s)"
      by (simp add: ListScheduler_ops_def) }
  { assume "mset s \<noteq> {#}"
    with s show "\<exists>e. op_PeekNext ListScheduler_ops s = Inr e \<and> is_next e (mset s)"
      by (cases s) (auto simp: ListScheduler_ops_def ListScheduler_PeekNext_def is_next_def
          ListScheduler_valid_def)
    from \<open>mset s \<noteq> {#}\<close> s show "\<exists>e s'. op_RemoveNext ListScheduler_ops s = Inr (e, s') \<and>
        is_next e (mset s) \<and> ListScheduler_valid s' \<and> mset s = add_mset e (mset s')"
      by (cases s) (auto simp: ListScheduler_ops_def ListScheduler_RemoveNext_def is_next_def
          ListScheduler_valid_def) }
  { assume "e \<in># mset s"
    with s show "\<exists>s'. op_Remove ListScheduler_ops e s = Inr s' \<and> ListScheduler_valid s' \<and>
        mset s = add_mset e (mset s')"
      using ListScheduler_valid_remove1 [OF s]
      by (simp add: ListScheduler_ops_def ListScheduler_Remove_mem [OF distinct_of_valid [OF s]]) }
qed (simp_all add: ListScheduler_ops_def ListScheduler_new_def ListScheduler_valid_def)

end
