(* ===== verification/Map_Scheduler.thy ===== *)
theory Map_Scheduler
  imports List_Scheduler
begin

text \<open>
  \<open>src/core/model/map-scheduler.cc\<close>: the default scheduler, a \<open>std::map\<close> from event
  keys to event implementations. It is shown to refine the list scheduler operation by
  operation, and inherits its contract.
\<close>

section \<open>\<open>std::map\<close>\<close>

text \<open>
  A \<open>std::map\<close> is its in-order sequence of pairs. Keys are compared with the map's
  strict order only; two keys are equivalent when neither is below the other. \<open>insert\<close>
  returns whether it inserted; \<open>find\<close> returns \<open>None\<close> for \<open>end ()\<close>.
\<close>

type_synonym ('k, 'v) std_map = "('k \<times> 'v) list"

fun std_map_insert :: "('k \<Rightarrow> 'k \<Rightarrow> bool) \<Rightarrow> 'k \<Rightarrow> 'v \<Rightarrow> ('k, 'v) std_map \<Rightarrow> ('k, 'v) std_map \<times> bool" where
  "std_map_insert lt k v [] = ([(k, v)], True)"
| "std_map_insert lt k v ((k', v') # m) =
     (if lt k k' then ((k, v) # (k', v') # m, True)
      else if lt k' k then (let (m', b) = std_map_insert lt k v m in ((k', v') # m', b))
      else ((k', v') # m, False))"

fun std_map_find :: "('k \<Rightarrow> 'k \<Rightarrow> bool) \<Rightarrow> 'k \<Rightarrow> ('k, 'v) std_map \<Rightarrow> ('k \<times> 'v) option" where
  "std_map_find lt k [] = None"
| "std_map_find lt k ((k', v') # m) =
     (if lt k' k then std_map_find lt k m
      else if lt k k' then None
      else Some (k', v'))"

fun std_map_erase :: "('k \<Rightarrow> 'k \<Rightarrow> bool) \<Rightarrow> 'k \<Rightarrow> ('k, 'v) std_map \<Rightarrow> ('k, 'v) std_map" where
  "std_map_erase lt k [] = []"
| "std_map_erase lt k ((k', v') # m) =
     (if lt k' k then (k', v') # std_map_erase lt k m
      else if lt k k' then (k', v') # m
      else m)"

section \<open>Operations\<close>

type_synonym map_scheduler = "(event_key, impl_ptr) std_map"

definition MapScheduler_new :: map_scheduler where
  "MapScheduler_new = []"

definition MapScheduler_Insert :: "event \<Rightarrow> map_scheduler \<Rightarrow> map_scheduler res" where
  "MapScheduler_Insert ev m =
     (let (m', inserted) = std_map_insert key_less (key ev) (impl ev) m
      in ns_assert inserted (Inr m'))"

definition MapScheduler_IsEmpty :: "map_scheduler \<Rightarrow> bool" where
  "MapScheduler_IsEmpty m \<longleftrightarrow> m = []"

definition MapScheduler_PeekNext :: "map_scheduler \<Rightarrow> event res" where
  "MapScheduler_PeekNext m =
     ns_assert (m \<noteq> []) (Inr \<lparr>impl = snd (hd m), key = fst (hd m)\<rparr>)"

definition MapScheduler_RemoveNext :: "map_scheduler \<Rightarrow> (event \<times> map_scheduler) res" where
  "MapScheduler_RemoveNext m =
     ns_assert (m \<noteq> []) (Inr (\<lparr>impl = snd (hd m), key = fst (hd m)\<rparr>, tl m))"

definition MapScheduler_Remove :: "event \<Rightarrow> map_scheduler \<Rightarrow> map_scheduler res" where
  "MapScheduler_Remove ev m =
     (case std_map_find key_less (key ev) m of
        None \<Rightarrow> Inl Undefined
      | Some (k, v) \<Rightarrow> ns_assert (v = impl ev) (Inr (std_map_erase key_less k m)))"

definition MapScheduler_ops :: "map_scheduler scheduler_ops" where
  "MapScheduler_ops =
     \<lparr>op_new = MapScheduler_new,
      op_Insert = MapScheduler_Insert,
      op_IsEmpty = MapScheduler_IsEmpty,
      op_PeekNext = MapScheduler_PeekNext,
      op_RemoveNext = MapScheduler_RemoveNext,
      op_Remove = MapScheduler_Remove\<rparr>"

section \<open>Refinement of the list scheduler\<close>

definition map_events :: "map_scheduler \<Rightarrow> list_scheduler" where
  "map_events m = map (\<lambda>(k, v). \<lparr>impl = v, key = k\<rparr>) m"

abbreviation key_sorted :: "map_scheduler \<Rightarrow> bool" where
  "key_sorted m \<equiv> sorted_wrt (\<lambda>p q. key_less (fst p) (fst q)) m"

definition MapScheduler_valid :: "map_scheduler \<Rightarrow> bool" where
  "MapScheduler_valid m \<longleftrightarrow> key_sorted m \<and> distinct (map ev_uid (map_events m))"

lemma map_events_simps [simp]:
  "map_events [] = []"
  "map_events ((k, v) # m) = \<lparr>impl = v, key = k\<rparr> # map_events m"
  by (simp_all add: map_events_def)

lemma map_events_eq_Nil [simp]: "map_events m = [] \<longleftrightarrow> m = []"
  by (simp add: map_events_def)

lemma rank_event [simp]: "rank \<lparr>impl = v, key = k\<rparr> = key_rank k"
  by (simp add: rank_def)

lemma MapScheduler_valid_list: "MapScheduler_valid m \<Longrightarrow> ListScheduler_valid (map_events m)"
  unfolding MapScheduler_valid_def ListScheduler_valid_def
  by (induction m) (auto simp: key_less_rank map_events_def)

lemma std_map_insert_fresh:
  assumes "m_uid k \<notin> ev_uid ` set (map_events m)"
  shows "snd (std_map_insert key_less k v m)"
    and "map_events (fst (std_map_insert key_less k v m)) =
      ListScheduler_Insert \<lparr>impl = v, key = k\<rparr> (map_events m)"
  using assms by (induction m) (auto simp: split_def Let_def key_less_def)

lemma set_std_map_insert:
  "set (fst (std_map_insert lt k v m)) \<subseteq> insert (k, v) (set m)"
  by (induction m) (auto simp: Let_def split: prod.splits if_splits)

lemma sorted_std_map_insert:
  "key_sorted m \<Longrightarrow> key_sorted (fst (std_map_insert key_less k v m))"
proof (induction m)
  case (Cons p m)
  then have "key_less (fst p) (fst q)" if "q \<in> set m" for q using that by simp
  then have "\<forall>q \<in> set (fst (std_map_insert key_less k v m)). key_less (fst p) (fst q)"
    if "key_less (fst p) k" using that set_std_map_insert [of key_less k v m] by fastforce
  with Cons show ?case
    by (cases p) (auto simp: split_def Let_def intro: key_less_trans)
qed simp

lemma MapScheduler_Insert_refines:
  assumes "ev_uid e \<notin> ev_uid ` set (map_events m)"
  shows "\<exists>m'. MapScheduler_Insert e m = Inr m' \<and>
    map_events m' = ListScheduler_Insert e (map_events m) \<and>
    (MapScheduler_valid m \<longrightarrow> MapScheduler_valid m')"
proof -
  let ?r = "std_map_insert key_less (key e) (impl e) m"
  note ins = std_map_insert_fresh [OF assms, of "impl e"]
  have e: "\<lparr>impl = impl e, key = key e\<rparr> = e" by simp
  have "MapScheduler_valid (fst ?r)" if "MapScheduler_valid m"
  proof -
    from that have "uniq_uids (mset (map_events m))"
      by (simp add: MapScheduler_valid_def uniq_uids_mset)
    with assms have "uniq_uids (mset (map_events (fst ?r)))"
      by (simp add: ins(2) e uniq_uids_add)
    with that show ?thesis
      by (simp add: MapScheduler_valid_def uniq_uids_mset sorted_std_map_insert)
  qed
  with ins show ?thesis by (auto simp: MapScheduler_Insert_def split_def Let_def e)
qed

lemma std_map_mem:
  assumes "key_sorted m" "(k, v) \<in> set m"
  shows "std_map_find key_less k m = Some (k, v) \<and>
    map_events (std_map_erase key_less k m) = remove1 \<lparr>impl = v, key = k\<rparr> (map_events m) \<and>
    key_sorted (std_map_erase key_less k m) \<and> set (std_map_erase key_less k m) \<subseteq> set m"
  using assms
proof (induction m)
  case (Cons p m)
  show ?case
  proof (cases "p = (k, v)")
    case True
    with Cons.prems show ?thesis by (auto simp: key_less_rank)
  next
    case False
    with Cons.prems have "(k, v) \<in> set m" "key_less (fst p) k" by auto
    with Cons show ?thesis by (cases p) (auto simp: key_less_rank)
  qed
qed simp

lemma MapScheduler_Remove_refines:
  assumes "MapScheduler_valid m" "e \<in> set (map_events m)"
  shows "\<exists>m'. MapScheduler_Remove e m = Inr m' \<and> MapScheduler_valid m' \<and>
    map_events m' = remove1 e (map_events m)"
proof -
  from assms(2) have e: "(key e, impl e) \<in> set m" by (auto simp: map_events_def)
  from assms(1) have srt: "key_sorted m"
    by (simp add: MapScheduler_valid_def)
  have eta: "\<lparr>impl = impl e, key = key e\<rparr> = e" by simp
  note r = std_map_mem [OF srt e, unfolded eta]
  then have "map_events (std_map_erase key_less (key e) m) = remove1 e (map_events m)"
    by simp
  moreover have "distinct (map ev_uid (remove1 e (map_events m)))"
    using ListScheduler_valid_remove1 [OF MapScheduler_valid_list [OF assms(1)]]
    by (rule distinct_of_valid)
  ultimately show ?thesis
    using r by (simp add: MapScheduler_Remove_def MapScheduler_valid_def)
qed

lemma MapScheduler_valid_tl:
  "MapScheduler_valid m \<Longrightarrow> MapScheduler_valid (tl m)"
  by (cases m) (auto simp: MapScheduler_valid_def)

interpretation map_sched: event_scheduler MapScheduler_ops MapScheduler_valid
  "\<lambda>m. mset (map_events m)"
proof unfold_locales
  fix s e
  assume s: "MapScheduler_valid s"
  note ls = MapScheduler_valid_list [OF s]
  from ls show "uniq_uids (mset (map_events s))" by (rule list_sched.valid_uniq)
  show "op_IsEmpty MapScheduler_ops s \<longleftrightarrow> mset (map_events s) = {#}"
    by (simp add: MapScheduler_ops_def MapScheduler_IsEmpty_def)
  { assume "ev_uid e \<notin> ev_uid ` set_mset (mset (map_events s))"
    with MapScheduler_Insert_refines [of e s] s
    show "\<exists>s'. op_Insert MapScheduler_ops e s = Inr s' \<and> MapScheduler_valid s' \<and>
        mset (map_events s') = add_mset e (mset (map_events s))"
      by (auto simp: MapScheduler_ops_def) }
  { assume ne: "mset (map_events s) \<noteq> {#}"
    from list_sched.peek_law [OF ls ne] ne
    show "\<exists>e. op_PeekNext MapScheduler_ops s = Inr e \<and> is_next e (mset (map_events s))"
      by (cases s) (auto simp: MapScheduler_ops_def MapScheduler_PeekNext_def
          ListScheduler_ops_def ListScheduler_PeekNext_def)
    from list_sched.remove_next_law [OF ls ne] ne MapScheduler_valid_tl [OF s]
    show "\<exists>e s'. op_RemoveNext MapScheduler_ops s = Inr (e, s') \<and> is_next e (mset (map_events s)) \<and>
        MapScheduler_valid s' \<and> mset (map_events s) = add_mset e (mset (map_events s'))"
      by (cases s) (auto simp: MapScheduler_ops_def MapScheduler_RemoveNext_def
          ListScheduler_ops_def ListScheduler_RemoveNext_def) }
  { assume "e \<in># mset (map_events s)"
    with MapScheduler_Remove_refines [OF s, of e]
    show "\<exists>s'. op_Remove MapScheduler_ops e s = Inr s' \<and> MapScheduler_valid s' \<and>
        mset (map_events s) = add_mset e (mset (map_events s'))"
      by (auto simp: MapScheduler_ops_def) }
qed (simp_all add: MapScheduler_ops_def MapScheduler_new_def MapScheduler_valid_def)

end
