(* ===== verification/Heap_Scheduler.thy ===== *)
theory Heap_Scheduler
  imports Event_Scheduler
begin

text \<open>
  \<open>src/core/model/heap-scheduler.cc\<close>: the binary heap in a \<open>std::vector\<close> whose slot 0
  is never used. \<open>Insert\<close>, \<open>PeekNext\<close> and \<open>RemoveNext\<close> meet the event-queue
  contract; \<open>Remove\<close> does not, because it repairs the heap downwards only.
\<close>

section \<open>Operations\<close>

type_synonym heap_scheduler = "event list"

definition HeapScheduler_new :: heap_scheduler where
  "HeapScheduler_new = [\<lparr>impl = 0, key = EventKey 0 0 0\<rparr>]"

definition heap_Parent :: "nat \<Rightarrow> nat" where
  "heap_Parent i = i div 2"

definition heap_Sibling :: "nat \<Rightarrow> nat" where
  "heap_Sibling i = i + 1"

definition heap_LeftChild :: "nat \<Rightarrow> nat" where
  "heap_LeftChild i = i * 2"

definition heap_RightChild :: "nat \<Rightarrow> nat" where
  "heap_RightChild i = i * 2 + 1"

definition heap_Root :: nat where
  "heap_Root = 1"

definition heap_IsRoot :: "nat \<Rightarrow> bool" where
  "heap_IsRoot i \<longleftrightarrow> i = heap_Root"

text \<open>\<open>m_heap.size () - 1\<close>: slot 0 is always there, so the subtraction never wraps.\<close>

definition heap_Last :: "heap_scheduler \<Rightarrow> nat" where
  "heap_Last h = length h - 1"

definition heap_IsBottom :: "heap_scheduler \<Rightarrow> nat \<Rightarrow> bool" where
  "heap_IsBottom h i \<longleftrightarrow> i \<ge> length h"

definition heap_Exch :: "nat \<Rightarrow> nat \<Rightarrow> heap_scheduler \<Rightarrow> heap_scheduler res" where
  "heap_Exch a b h = ns_assert (b < length h \<and> a < length h) (Inr (swap_at a b h))"

definition heap_IsLessStrictly :: "heap_scheduler \<Rightarrow> nat \<Rightarrow> nat \<Rightarrow> bool res" where
  "heap_IsLessStrictly h a b =
     defined_if (a < length h \<and> b < length h) (Inr (ev_less (h ! a) (h ! b)))"

definition heap_Smallest :: "heap_scheduler \<Rightarrow> nat \<Rightarrow> nat \<Rightarrow> nat res" where
  "heap_Smallest h a b =
     bind_res (heap_IsLessStrictly h a b) (\<lambda>less. Inr (if less then a else b))"

definition HeapScheduler_IsEmpty :: "heap_scheduler \<Rightarrow> bool" where
  "HeapScheduler_IsEmpty h \<longleftrightarrow> length h = 1"

text \<open>The loop of \<open>BottomUp\<close> from \<open>index\<close>; it ends because an index is halved.\<close>

function heap_BottomUp_loop :: "nat \<Rightarrow> heap_scheduler \<Rightarrow> heap_scheduler res" where
  "heap_BottomUp_loop index h =
     (if heap_IsRoot index then Inr h
      else bind_res (heap_IsLessStrictly h index (heap_Parent index)) (\<lambda>less.
        if less then bind_res (heap_Exch index (heap_Parent index) h)
                       (\<lambda>h'. heap_BottomUp_loop (heap_Parent index) h')
        else Inr h))"
  by pat_completeness auto
termination
proof (relation "measure fst")
  fix index :: nat and h x
  assume "heap_IsLessStrictly h index (heap_Parent index) = Inr x" "x"
  then have "index \<noteq> 0"
    by (cases "index = 0")
       (auto simp: heap_IsLessStrictly_def heap_Parent_def ev_less_rank res_simps)
  then show "((heap_Parent index, y), index, h) \<in> measure fst" for y
    by (simp add: heap_Parent_def)
qed simp

declare heap_BottomUp_loop.simps [simp del]

definition heap_BottomUp :: "heap_scheduler \<Rightarrow> heap_scheduler res" where
  "heap_BottomUp h = heap_BottomUp_loop (heap_Last h) h"

text \<open>
  The loop of \<open>TopDown\<close> and the code after it. From slot 0, where it is never started, the
  loop would not end, so it carries fuel; \<open>TopDown\<close> gives it one unit per slot, and
  \<open>heap_TopDown_loop_correct\<close> shows that this is enough from every slot above 0.
\<close>

fun heap_TopDown_loop :: "nat \<Rightarrow> nat \<Rightarrow> heap_scheduler \<Rightarrow> heap_scheduler res" where
  "heap_TopDown_loop 0 index h = Inl NoFuel"
| "heap_TopDown_loop (Suc n) index h =
     (let right = heap_RightChild index; left = heap_LeftChild index in
      if \<not> heap_IsBottom h right then
        bind_res (heap_Smallest h left right) (\<lambda>tmp.
        bind_res (heap_IsLessStrictly h index tmp) (\<lambda>less.
          if less then Inr h
          else bind_res (heap_Exch index tmp h) (\<lambda>h'. heap_TopDown_loop n tmp h')))
      else if heap_IsBottom h index then Inr h
      else if heap_IsBottom h left then Inr h
      else bind_res (heap_IsLessStrictly h index left) (\<lambda>less.
        if less then Inr h else heap_Exch index left h))"

definition heap_TopDown :: "nat \<Rightarrow> heap_scheduler \<Rightarrow> heap_scheduler res" where
  "heap_TopDown start h = heap_TopDown_loop (Suc (length h)) start h"

definition HeapScheduler_Insert :: "event \<Rightarrow> heap_scheduler \<Rightarrow> heap_scheduler res" where
  "HeapScheduler_Insert ev h = heap_BottomUp (h @ [ev])"

definition HeapScheduler_PeekNext :: "heap_scheduler \<Rightarrow> event res" where
  "HeapScheduler_PeekNext h = defined_if (heap_Root < length h) (Inr (h ! heap_Root))"

definition HeapScheduler_RemoveNext :: "heap_scheduler \<Rightarrow> (event \<times> heap_scheduler) res" where
  "HeapScheduler_RemoveNext h =
     defined_if (heap_Root < length h)
       (let next = h ! heap_Root in
        bind_res (heap_Exch heap_Root (heap_Last h) h) (\<lambda>h1.
        bind_res (heap_TopDown heap_Root (butlast h1)) (\<lambda>h2. Inr (next, h2))))"

text \<open>The search of \<open>Remove\<close> from slot \<open>i\<close> on.\<close>

function heap_Remove_loop :: "nat \<Rightarrow> event \<Rightarrow> heap_scheduler \<Rightarrow> heap_scheduler res" where
  "heap_Remove_loop i ev h =
     (if i < length h then
        if ev_uid ev = ev_uid (h ! i) then
          ns_assert (impl (h ! i) = impl ev)
            (bind_res (heap_Exch i (heap_Last h) h) (\<lambda>h1. heap_TopDown i (butlast h1)))
        else heap_Remove_loop (i + 1) ev h
      else Inl Assert)"
  by pat_completeness auto
termination
  by (relation "measure (\<lambda>(i, ev, h). length h - i)") auto

declare heap_Remove_loop.simps [simp del]

definition HeapScheduler_Remove :: "event \<Rightarrow> heap_scheduler \<Rightarrow> heap_scheduler res" where
  "HeapScheduler_Remove ev h = heap_Remove_loop 1 ev h"

definition HeapScheduler_ops :: "heap_scheduler scheduler_ops" where
  "HeapScheduler_ops =
     \<lparr>op_new = HeapScheduler_new,
      op_Insert = HeapScheduler_Insert,
      op_IsEmpty = HeapScheduler_IsEmpty,
      op_PeekNext = HeapScheduler_PeekNext,
      op_RemoveNext = HeapScheduler_RemoveNext,
      op_Remove = HeapScheduler_Remove\<rparr>"

section \<open>Heap order\<close>

text \<open>
  \<open>heap_ordered\<close>: no event is below its parent. The two weakened forms allow one slot
  \<open>j\<close> to break the order towards its parent (while it moves up) or towards its children
  (while it moves down).
\<close>

definition heap_ordered :: "heap_scheduler \<Rightarrow> bool" where
  "heap_ordered h \<longleftrightarrow> (\<forall>i. 2 \<le> i \<and> i < length h \<longrightarrow> rank (h ! (i div 2)) \<le> rank (h ! i))"

definition ordered_but_up :: "nat \<Rightarrow> heap_scheduler \<Rightarrow> bool" where
  "ordered_but_up j h \<longleftrightarrow> (\<forall>i. 2 \<le> i \<and> i < length h \<longrightarrow>
     (i \<noteq> j \<longrightarrow> rank (h ! (i div 2)) \<le> rank (h ! i)) \<and>
     (i div 2 = j \<and> 2 \<le> j \<longrightarrow> rank (h ! (j div 2)) \<le> rank (h ! i)))"

definition ordered_but_down :: "nat \<Rightarrow> heap_scheduler \<Rightarrow> bool" where
  "ordered_but_down j h \<longleftrightarrow> (\<forall>i. 2 \<le> i \<and> i < length h \<longrightarrow>
     (i div 2 \<noteq> j \<longrightarrow> rank (h ! (i div 2)) \<le> rank (h ! i)) \<and>
     (i div 2 = j \<and> 2 \<le> j \<longrightarrow> rank (h ! (j div 2)) \<le> rank (h ! i)))"

definition rearranged :: "heap_scheduler \<Rightarrow> heap_scheduler \<Rightarrow> bool" where
  "rearranged h h' \<longleftrightarrow> length h' = length h \<and> mset h' = mset h \<and> h' ! 0 = h ! 0"

lemma rearranged_refl [simp]: "rearranged h h"
  by (simp add: rearranged_def)

lemma rearranged_trans: "rearranged a b \<Longrightarrow> rearranged b c \<Longrightarrow> rearranged a c"
  by (simp add: rearranged_def)

lemma rearranged_swap:
  "0 < a \<Longrightarrow> 0 < b \<Longrightarrow> a < length h \<Longrightarrow> b < length h \<Longrightarrow> rearranged h (swap_at a b h)"
  using nth_swap_at [of a h b 0] by (fastforce simp: rearranged_def)

lemma rearranged_tl:
  assumes "rearranged h h'" "h \<noteq> []"
  shows "mset (tl h') = mset (tl h)" and "h' \<noteq> []"
proof -
  from assms show "h' \<noteq> []" by (auto simp: rearranged_def)
  with assms show "mset (tl h') = mset (tl h)"
    by (cases h; cases h') (auto simp: rearranged_def)
qed

lemmas heap_index_defs = heap_Parent_def heap_LeftChild_def heap_RightChild_def
  heap_Root_def heap_IsRoot_def heap_Last_def heap_IsBottom_def

lemma ordered_but_up_done:
  "ordered_but_up j h \<Longrightarrow> 2 \<le> j \<longrightarrow> rank (h ! (j div 2)) \<le> rank (h ! j) \<Longrightarrow> heap_ordered h"
  unfolding ordered_but_up_def heap_ordered_def by metis

lemma ordered_but_up_step:
  assumes "ordered_but_up j h" "2 \<le> j" "j < length h" "rank (h ! j) < rank (h ! (j div 2))"
  shows "ordered_but_up (j div 2) (swap_at j (j div 2) h)"
  unfolding ordered_but_up_def
proof (intro allI impI conjI)
  fix i
  assume "2 \<le> i \<and> i < length (swap_at j (j div 2) h)"
  then have i: "2 \<le> i" "i < length h" "i div 2 < length h" by auto
  have p: "j div 2 < length h" "j div 2 \<noteq> j" "i div 2 \<noteq> i" using assms i by auto
  note at = nth_swap_at [OF assms(3) p(1)]
  from assms(1) i have
    up: "i \<noteq> j \<Longrightarrow> rank (h ! (i div 2)) \<le> rank (h ! i)" and
    gp: "i div 2 = j \<Longrightarrow> rank (h ! (j div 2)) \<le> rank (h ! i)"
    using assms(2) by (auto simp: ordered_but_up_def)
  { assume "i \<noteq> j div 2"
    then show "rank (swap_at j (j div 2) h ! (i div 2)) \<le> rank (swap_at j (j div 2) h ! i)"
      using up gp assms(4) p i by (auto simp: at) }
  { assume "i div 2 = j div 2 \<and> 2 \<le> j div 2"
    moreover from this assms have "rank (h ! (j div 2 div 2)) \<le> rank (h ! (j div 2))"
      using p by (auto simp: ordered_but_up_def)
    moreover have "j div 2 div 2 < length h" "j div 2 div 2 \<noteq> j"
      "2 \<le> j div 2 \<Longrightarrow> j div 2 div 2 \<noteq> j div 2" "i \<noteq> j div 2" using assms i calculation by auto
    ultimately show "rank (swap_at j (j div 2) h ! (j div 2 div 2))
        \<le> rank (swap_at j (j div 2) h ! i)"
      using up i by (auto simp: at) }
qed

lemma heap_BottomUp_loop_correct:
  assumes "1 \<le> index" "index < length h" "ordered_but_up index h"
  shows "\<exists>h'. heap_BottomUp_loop index h = Inr h' \<and> heap_ordered h' \<and> rearranged h h'"
  using assms
proof (induction index h rule: heap_BottomUp_loop.induct)
  case (1 index h)
  show ?case
  proof (cases "index \<noteq> 1 \<and> rank (h ! index) < rank (h ! (index div 2))")
    case True
    let ?h = "swap_at index (index div 2) h"
    from True "1.prems" have i: "2 \<le> index" "index div 2 < length h" "1 \<le> index div 2"
      by auto
    then have less: "heap_IsLessStrictly h index (heap_Parent index) = Inr True"
      using True "1.prems" by (simp add: heap_IsLessStrictly_def heap_Parent_def ev_less_rank)
    have ex: "heap_Exch index (heap_Parent index) h = Inr ?h"
      using i "1.prems" by (simp add: heap_Exch_def heap_Parent_def)
    have nr: "\<not> heap_IsRoot index" using True by (simp add: heap_IsRoot_def heap_Root_def)
    have "ordered_but_up (index div 2) ?h"
      using ordered_but_up_step [OF "1.prems"(3) i(1) "1.prems"(2)] True by simp
    with "1.IH" [OF nr less _ ex] i "1.prems" obtain h' where
      "heap_BottomUp_loop (heap_Parent index) ?h = Inr h'" "heap_ordered h'" "rearranged ?h h'"
      by (auto simp: heap_Parent_def)
    moreover have "rearranged h ?h" using i "1.prems" by (intro rearranged_swap) auto
    ultimately show ?thesis
      using nr less ex
      by (auto simp: heap_BottomUp_loop.simps [of index h] intro: rearranged_trans)
  next
    case False
    moreover have "index div 2 < length h" using "1.prems"(2) by linarith
    ultimately have "heap_BottomUp_loop index h = Inr h"
      using "1.prems" by (auto simp: heap_BottomUp_loop.simps [of index h] heap_IsRoot_def
          heap_Root_def heap_IsLessStrictly_def heap_Parent_def ev_less_rank)
    moreover have "heap_ordered h"
      using False "1.prems" by (intro ordered_but_up_done [OF "1.prems"(3)]) auto
    ultimately show ?thesis by simp
  qed
qed

lemma ordered_but_down_done:
  assumes "ordered_but_down j h"
    and "2 * j < length h \<Longrightarrow> rank (h ! j) \<le> rank (h ! (2 * j))"
    and "2 * j + 1 < length h \<Longrightarrow> rank (h ! j) \<le> rank (h ! (2 * j + 1))"
  shows "heap_ordered h"
  unfolding heap_ordered_def
proof (intro allI impI)
  fix i
  assume i: "2 \<le> i \<and> i < length h"
  show "rank (h ! (i div 2)) \<le> rank (h ! i)"
  proof (cases "i div 2 = j")
    case True
    then have "i = 2 * j \<or> i = 2 * j + 1" by auto
    with True assms(2,3) i show ?thesis by auto
  next
    case False
    with assms(1) i show ?thesis by (simp add: ordered_but_down_def)
  qed
qed

lemma ordered_but_down_step:
  assumes "ordered_but_down j h" "1 \<le> j" "c = 2 * j \<or> c = 2 * j + 1" "c < length h"
    and "rank (h ! c) \<le> rank (h ! j)"
    and "2 * j < length h \<Longrightarrow> rank (h ! c) \<le> rank (h ! (2 * j))"
    and "2 * j + 1 < length h \<Longrightarrow> rank (h ! c) \<le> rank (h ! (2 * j + 1))"
  shows "ordered_but_down c (swap_at j c h)"
  unfolding ordered_but_down_def
proof (intro allI impI conjI)
  fix i
  assume "2 \<le> i \<and> i < length (swap_at j c h)"
  then have i: "2 \<le> i" "i < length h" "i div 2 < length h" by auto
  have c: "c div 2 = j" "2 \<le> c" "c \<noteq> j" "j < length h" "j div 2 \<noteq> j" "j div 2 \<noteq> c"
    using assms(2,3,4) by auto
  note at = nth_swap_at [OF c(4) assms(4)]
  from assms(1) have down: "i div 2 \<noteq> j \<Longrightarrow> rank (h ! (i div 2)) \<le> rank (h ! i)"
    using i by (simp add: ordered_but_down_def)
  from assms(1) c assms(4) have gp: "2 \<le> j \<Longrightarrow> rank (h ! (j div 2)) \<le> rank (h ! c)"
    by (auto simp: ordered_but_down_def)
  have child: "rank (h ! c) \<le> rank (h ! i)" if "i div 2 = j"
  proof -
    from that have "i = 2 * j \<or> i = 2 * j + 1" by auto
    with assms(6,7) i show ?thesis by auto
  qed
  { assume "i div 2 \<noteq> c"
    then show "rank (swap_at j c h ! (i div 2)) \<le> rank (swap_at j c h ! i)"
      using down child gp assms(5) c i by (auto simp: at) }
  { assume "i div 2 = c \<and> 2 \<le> c"
    with down c i show "rank (swap_at j c h ! (c div 2)) \<le> rank (swap_at j c h ! i)"
      by (auto simp: at) }
qed

lemma heap_Smallest_rank:
  assumes "l < length h" "r < length h" "heap_Smallest h l r = Inr c"
  shows "c = l \<or> c = r" "rank (h ! c) \<le> rank (h ! l)" "rank (h ! c) \<le> rank (h ! r)"
  using assms by (auto simp: heap_Smallest_def heap_IsLessStrictly_def ev_less_rank split: if_splits)

text \<open>
  \<open>TopDown\<close> returns from every slot above 0 with the same events, and with a heap if only
  the children of the start slot could be out of order.
\<close>

lemma heap_TopDown_loop_correct:
  assumes "1 \<le> index" "length h < n + index" "0 < n"
  shows "\<exists>h'. heap_TopDown_loop n index h = Inr h' \<and> rearranged h h' \<and>
    (ordered_but_down index h \<longrightarrow> heap_ordered h')"
  using assms
proof (induction n arbitrary: index h)
  case (Suc n)
  let ?l = "2 * index" and ?r = "2 * index + 1"
  show ?case
  proof (cases "?r < length h")
    case True
    then obtain c where c: "heap_Smallest h ?l ?r = Inr c"
      by (simp add: heap_Smallest_def heap_IsLessStrictly_def)
    have l: "?l < length h" using True by simp
    note cs = heap_Smallest_rank [OF l True c]
    from cs(1) l True have cl: "c < length h" "index < length h" "index < c"
      using Suc.prems(1) by auto
    show ?thesis
    proof (cases "rank (h ! index) < rank (h ! c)")
      case less: True
      have "heap_ordered h" if "ordered_but_down index h"
        using cs less by (intro ordered_but_down_done [OF that]) auto
      with True c cl less show ?thesis
        by (simp add: heap_index_defs heap_IsLessStrictly_def ev_less_rank mult.commute)
    next
      case False
      let ?h = "swap_at index c h"
      have step: "ordered_but_down c ?h" if "ordered_but_down index h"
        using False cs cl Suc.prems by (intro ordered_but_down_step [OF that]) auto
      have "0 < n" "length ?h < n + c" "1 \<le> c" using Suc.prems cl by auto
      then obtain h' where h': "heap_TopDown_loop n c ?h = Inr h'" "rearranged ?h h'"
          "ordered_but_down c ?h \<longrightarrow> heap_ordered h'"
        using Suc.IH [of c ?h] by auto
      have "rearranged h h'"
        using rearranged_swap [of index c h] cl Suc.prems(1) h'(2) by (auto intro: rearranged_trans)
      with True c cl False h' step show ?thesis
        by (simp add: heap_index_defs heap_IsLessStrictly_def heap_Exch_def ev_less_rank mult.commute)
    qed
  next
    case False
    show ?thesis
    proof (cases "?l < length h \<and> \<not> rank (h ! index) < rank (h ! ?l)")
      case True
      have "heap_ordered (swap_at index ?l h)" if "ordered_but_down index h"
      proof (rule ordered_but_down_done)
        show "ordered_but_down ?l (swap_at index ?l h)"
          using that True False Suc.prems by (intro ordered_but_down_step) auto
      qed (use False Suc.prems(1) in auto)
      then show ?thesis
        using True False Suc.prems rearranged_swap [of index ?l h]
        by (simp add: Let_def heap_index_defs heap_IsLessStrictly_def heap_Exch_def ev_less_rank
            mult.commute)
    next
      case nl: False
      have "heap_ordered h" if "ordered_but_down index h"
        using nl False by (intro ordered_but_down_done [OF that]) auto
      then show ?thesis
        using nl False Suc.prems
        by (auto simp: Let_def heap_index_defs heap_IsLessStrictly_def ev_less_rank mult.commute)
    qed
  qed
qed simp

lemma heap_TopDown_correct:
  assumes "1 \<le> start"
  shows "\<exists>h'. heap_TopDown start h = Inr h' \<and> rearranged h h' \<and>
    (ordered_but_down start h \<longrightarrow> heap_ordered h')"
  using heap_TopDown_loop_correct [of start h "Suc (length h)"] assms by (simp add: heap_TopDown_def)

section \<open>The contract\<close>

definition heap_events :: "heap_scheduler \<Rightarrow> event multiset" where
  "heap_events h = mset (tl h)"

definition HeapScheduler_valid :: "heap_scheduler \<Rightarrow> bool" where
  "HeapScheduler_valid h \<longleftrightarrow> h \<noteq> [] \<and> heap_ordered h \<and> uniq_uids (heap_events h)"

lemma heap_root_least:
  "heap_ordered h \<Longrightarrow> 1 \<le> i \<Longrightarrow> i < length h \<Longrightarrow> rank (h ! 1) \<le> rank (h ! i)"
proof (induction i rule: less_induct)
  case (less i)
  show ?case
  proof (cases "i = 1")
    case False
    with less.prems have "rank (h ! 1) \<le> rank (h ! (i div 2))" by (intro less.IH) auto
    also have "\<dots> \<le> rank (h ! i)" using less.prems False by (simp add: heap_ordered_def)
    finally show ?thesis .
  qed simp
qed

lemma heap_events_nth:
  "x \<in># heap_events h \<longleftrightarrow> (\<exists>i. 1 \<le> i \<and> i < length h \<and> x = h ! i)"
proof
  assume "x \<in># heap_events h"
  then obtain j where "j < length (tl h)" "tl h ! j = x"
    by (auto simp: heap_events_def in_set_conv_nth)
  then have "1 \<le> Suc j \<and> Suc j < length h \<and> x = h ! Suc j" by (auto simp: nth_tl)
  then show "\<exists>i. 1 \<le> i \<and> i < length h \<and> x = h ! i" by blast
next
  assume "\<exists>i. 1 \<le> i \<and> i < length h \<and> x = h ! i"
  then obtain i where i: "1 \<le> i" "i < length h" "x = h ! i" by blast
  then have "tl h ! (i - 1) = x" "i - 1 < length (tl h)" by (auto simp: nth_tl)
  then show "x \<in># heap_events h" by (auto simp: heap_events_def in_set_conv_nth)
qed

lemma heap_events_empty: "h \<noteq> [] \<Longrightarrow> heap_events h = {#} \<longleftrightarrow> length h = 1"
  by (cases h) (auto simp: heap_events_def)

lemma heap_root_next:
  assumes "heap_ordered h" "1 < length h"
  shows "is_next (h ! 1) (heap_events h)"
  using assms heap_root_least [OF assms(1)] by (auto simp: is_next_def heap_events_nth)

lemma HeapScheduler_Insert_correct:
  assumes "HeapScheduler_valid h" "ev_uid e \<notin> ev_uid ` set_mset (heap_events h)"
  shows "\<exists>h'. HeapScheduler_Insert e h = Inr h' \<and> HeapScheduler_valid h' \<and>
    heap_events h' = add_mset e (heap_events h)"
proof -
  let ?a = "h @ [e]"
  from assms have h: "h \<noteq> []" "heap_ordered h" "uniq_uids (heap_events h)"
    by (auto simp: HeapScheduler_valid_def)
  have "ordered_but_up (length h) ?a"
    using h(1,2) by (auto simp: ordered_but_up_def heap_ordered_def nth_append)
  moreover have "1 \<le> length h" using h(1) by (cases h) auto
  ultimately obtain h' where h': "heap_BottomUp_loop (length h) ?a = Inr h'" "heap_ordered h'"
      "rearranged ?a h'"
    using heap_BottomUp_loop_correct [of "length h" ?a] by auto
  from rearranged_tl [OF h'(3)] h(1) have "heap_events h' = add_mset e (heap_events h)" "h' \<noteq> []"
    by (auto simp: heap_events_def)
  with h' assms h show ?thesis
    by (auto simp: HeapScheduler_Insert_def heap_BottomUp_def heap_Last_def HeapScheduler_valid_def
        uniq_uids_add)
qed

text \<open>Moving the last event into slot \<open>i\<close> and dropping the last slot.\<close>

definition heap_cut :: "nat \<Rightarrow> heap_scheduler \<Rightarrow> heap_scheduler" where
  "heap_cut i h = butlast (swap_at i (length h - 1) h)"

lemma heap_cut_length [simp]: "length (heap_cut i h) = length h - 1"
  by (simp add: heap_cut_def)

lemma heap_cut_nth:
  assumes "i < length h" "k < length h - 1"
  shows "heap_cut i h ! k = (if k = i then h ! (length h - 1) else h ! k)"
  using assms by (auto simp: heap_cut_def nth_butlast nth_swap_at)

lemma mset_butlast_last: "xs \<noteq> [] \<Longrightarrow> mset xs = add_mset (last xs) (mset (butlast xs))"
  by (induction xs rule: rev_induct) auto

lemma heap_cut_events:
  assumes "1 \<le> i" "i < length h"
  shows "heap_events h = add_mset (h ! i) (heap_events (heap_cut i h))"
proof -
  let ?s = "swap_at i (length h - 1) h"
  have "rearranged h ?s" "h \<noteq> []" using assms by (auto intro: rearranged_swap)
  then have "heap_events h = mset (tl ?s)"
    using rearranged_tl(1) [of h ?s] by (simp add: heap_events_def)
  moreover have ne: "tl ?s \<noteq> []"
    using assms by (simp flip: length_greater_0_conv)
  moreover have "last (tl ?s) = ?s ! (length h - 1)"
    using last_tl [of ?s] last_conv_nth [of ?s] ne by fastforce
  moreover have "?s ! (length h - 1) = h ! i"
    using assms by (simp add: nth_swap_at)
  ultimately show ?thesis
    using mset_butlast_last [OF ne] by (simp add: heap_events_def heap_cut_def butlast_tl)
qed

lemma HeapScheduler_RemoveNext_correct:
  assumes "HeapScheduler_valid h" "heap_events h \<noteq> {#}"
  shows "\<exists>h'. HeapScheduler_RemoveNext h = Inr (h ! 1, h') \<and> HeapScheduler_valid h' \<and>
    heap_events h = add_mset (h ! 1) (heap_events h')"
proof -
  from assms have h: "h \<noteq> []" "heap_ordered h" "uniq_uids (heap_events h)"
    by (auto simp: HeapScheduler_valid_def)
  with assms(2) have len: "1 < length h" using heap_events_empty by (cases h) auto
  let ?c = "heap_cut 1 h"
  have "ordered_but_down 1 ?c"
    using h(2) len by (auto simp: ordered_but_down_def heap_ordered_def heap_cut_nth)
  then obtain h' where h': "heap_TopDown 1 ?c = Inr h'" "heap_ordered h'" "rearranged ?c h'"
    using heap_TopDown_correct [of 1 ?c] by auto
  have ev: "heap_events h = add_mset (h ! 1) (heap_events h')" "h' \<noteq> []"
    using heap_cut_events [of 1 h] rearranged_tl [OF h'(3)] len
    by (auto simp: heap_events_def simp flip: length_greater_0_conv)
  have "heap_Exch heap_Root (heap_Last h) h = Inr (swap_at 1 (length h - 1) h)"
    using len by (auto simp: heap_Exch_def heap_Root_def heap_Last_def ns_assert_def)
  with h' ev h(3) len show ?thesis
    by (auto simp: HeapScheduler_RemoveNext_def heap_Root_def heap_cut_def Let_def
        HeapScheduler_valid_def uniq_uids_add)
qed

interpretation heap_sched: event_queue HeapScheduler_ops HeapScheduler_valid heap_events
proof unfold_locales
  fix s e
  assume s: "HeapScheduler_valid s"
  then show "uniq_uids (heap_events s)" by (simp add: HeapScheduler_valid_def)
  from s show em: "op_IsEmpty HeapScheduler_ops s \<longleftrightarrow> heap_events s = {#}"
    by (simp add: HeapScheduler_ops_def HeapScheduler_IsEmpty_def HeapScheduler_valid_def
        heap_events_empty)
  { assume "ev_uid e \<notin> ev_uid ` set_mset (heap_events s)"
    with HeapScheduler_Insert_correct [OF s]
    show "\<exists>s'. op_Insert HeapScheduler_ops e s = Inr s' \<and> HeapScheduler_valid s' \<and>
        heap_events s' = add_mset e (heap_events s)"
      by (simp add: HeapScheduler_ops_def) }
  { assume ne: "heap_events s \<noteq> {#}"
    with s have len: "1 < length s"
      using heap_events_empty [of s] by (cases s) (auto simp: HeapScheduler_valid_def)
    with s have nx: "is_next (s ! 1) (heap_events s)"
      by (intro heap_root_next) (auto simp: HeapScheduler_valid_def)
    then show "\<exists>e. op_PeekNext HeapScheduler_ops s = Inr e \<and> is_next e (heap_events s)"
      using len by (simp add: HeapScheduler_ops_def HeapScheduler_PeekNext_def heap_Root_def)
    from HeapScheduler_RemoveNext_correct [OF s ne] nx
    show "\<exists>e s'. op_RemoveNext HeapScheduler_ops s = Inr (e, s') \<and> is_next e (heap_events s) \<and>
        HeapScheduler_valid s' \<and> heap_events s = add_mset e (heap_events s')"
      by (auto simp: HeapScheduler_ops_def) }
qed (simp_all add: HeapScheduler_ops_def HeapScheduler_new_def HeapScheduler_valid_def
    heap_events_def heap_ordered_def)

section \<open>Removal of a given event\<close>

lemma heap_Remove_loop_find:
  assumes "i \<le> j" "j < length h" "\<And>k. i \<le> k \<Longrightarrow> k < j \<Longrightarrow> ev_uid (h ! k) \<noteq> ev_uid (h ! j)"
  shows "heap_Remove_loop i (h ! j) h =
    bind_res (heap_Exch j (heap_Last h) h) (\<lambda>h1. heap_TopDown j (butlast h1))"
  using assms
proof (induction "j - i" arbitrary: i)
  case 0
  then show ?case by (simp add: heap_Remove_loop.simps)
next
  case (Suc d)
  then have "ev_uid (h ! i) \<noteq> ev_uid (h ! j)" "i < length h" by auto
  with Suc show ?case
    by (subst heap_Remove_loop.simps) (auto simp: eq_commute intro!: Suc.hyps(1))
qed

lemma HeapScheduler_Remove_slot:
  assumes "HeapScheduler_valid h" "1 \<le> j" "j < length h"
  shows "HeapScheduler_Remove (h ! j) h = heap_TopDown j (heap_cut j h)"
proof -
  from assms(1) have d: "distinct (map ev_uid (tl h))"
    by (simp add: HeapScheduler_valid_def heap_events_def uniq_uids_mset)
  have "ev_uid (h ! k) \<noteq> ev_uid (h ! j)" if "1 \<le> k" "k < j" for k
    using nth_eq_iff_index_eq [OF d, of "k - 1" "j - 1"] that assms(2,3) by (auto simp: nth_tl)
  moreover have "heap_Exch j (heap_Last h) h = Inr (swap_at j (length h - 1) h)"
    using assms by (auto simp: heap_Exch_def heap_Last_def ns_assert_def)
  ultimately show ?thesis
    using heap_Remove_loop_find [OF assms(2,3)]
    by (simp add: HeapScheduler_Remove_def heap_cut_def)
qed

lemma HeapScheduler_Remove_events:
  assumes "HeapScheduler_valid h" "e \<in># heap_events h"
  shows "\<exists>h'. HeapScheduler_Remove e h = Inr h' \<and> heap_events h = add_mset e (heap_events h')"
proof -
  from assms(2) obtain j where j: "1 \<le> j" "j < length h" "e = h ! j"
    by (auto simp: heap_events_nth)
  obtain h' where h': "heap_TopDown j (heap_cut j h) = Inr h'" "rearranged (heap_cut j h) h'"
    using heap_TopDown_correct [OF j(1)] by blast
  have "heap_cut j h \<noteq> []" using j by (simp flip: length_greater_0_conv)
  with h' have "heap_events h' = heap_events (heap_cut j h)"
    by (simp add: heap_events_def rearranged_tl)
  with h'(1) j show ?thesis
    by (simp add: HeapScheduler_Remove_slot [OF assms(1)] heap_cut_events)
qed

text \<open>
  The heap survives a removal when the last event, which takes the free slot, is not below
  the parent of that slot.
\<close>

lemma HeapScheduler_Remove_ordered:
  assumes "HeapScheduler_valid h" "1 \<le> j" "j < length h"
    and "2 \<le> j \<Longrightarrow> rank (h ! (j div 2)) \<le> rank (last h)"
  shows "\<exists>h'. HeapScheduler_Remove (h ! j) h = Inr h' \<and> HeapScheduler_valid h' \<and>
    heap_events h = add_mset (h ! j) (heap_events h')"
proof -
  let ?c = "heap_cut j h"
  from assms have h: "h \<noteq> []" "heap_ordered h" "uniq_uids (heap_events h)"
    by (auto simp: HeapScheduler_valid_def)
  have par: "rank (h ! (j div 2)) \<le> rank (h ! i)"
    if "2 \<le> j" "i < length h" "i div 2 = j" for i
  proof -
    from that h(2) assms(3) have "rank (h ! (j div 2)) \<le> rank (h ! j)" "rank (h ! j) \<le> rank (h ! i)"
      by (auto simp: heap_ordered_def)
    then show ?thesis by simp
  qed
  have "ordered_but_down j ?c"
    unfolding ordered_but_down_def
  proof (intro allI impI conjI)
    fix i
    assume "2 \<le> i \<and> i < length ?c"
    then have i: "2 \<le> i" "i < length h - 1" "i div 2 < length h - 1" by auto
    { assume "i div 2 \<noteq> j"
      with i h assms show "rank (?c ! (i div 2)) \<le> rank (?c ! i)"
        by (auto simp: heap_cut_nth heap_ordered_def last_conv_nth) }
    { assume "i div 2 = j \<and> 2 \<le> j"
      moreover from this have "j div 2 \<noteq> j" "i \<noteq> j" "j div 2 < length h - 1" using i by auto
      ultimately show "rank (?c ! (j div 2)) \<le> rank (?c ! i)"
        using i par assms(3) by (simp add: heap_cut_nth) }
  qed
  then obtain h' where h': "heap_TopDown j ?c = Inr h'" "heap_ordered h'" "rearranged ?c h'"
    using heap_TopDown_correct [OF assms(2), of ?c] by blast
  have "?c \<noteq> []" using assms(2,3) by (simp flip: length_greater_0_conv)
  with h' have "heap_events h' = heap_events ?c" "h' \<noteq> []"
    by (simp_all add: heap_events_def rearranged_tl)
  moreover note heap_cut_events [OF assms(2,3)]
  ultimately show ?thesis
    using h' h(3) by (simp add: HeapScheduler_Remove_slot [OF assms(1-3)] HeapScheduler_valid_def
        uniq_uids_add)
qed

end
