(* ===== verification/Simulator.thy ===== *)
theory Simulator
  imports Event_Scheduler
begin

text \<open>
  \<open>src/core/model/default-simulator-impl.cc\<close>, with \<open>event-impl.cc\<close> and \<open>event-id.cc\<close>:
  the event loop. The scheduler is reached through its table of virtual operations, so every
  definition takes the table as its first argument. What an event does when it is invoked is
  code outside the simulator: a parameter \<open>cb\<close> that maps the bound function and the
  simulator's state to the new state of the outside world and the calls it makes to the
  simulator, in order.
\<close>

section \<open>Data\<close>

text \<open>
  \<open>EventImpl\<close>: the cancel flag and the bound function, which is \<open>Simulator::Stop\<close> or a
  function of the simulation. Implementations live in a store indexed by address; address 0
  is the null pointer. Reference counts are not kept: an address is never reused.
\<close>

datatype 'c callee = Simulator_Stop | User 'c

record 'c event_impl =
  m_cancel :: bool
  bound :: "'c callee"

record event_id =
  id_eventImpl :: impl_ptr
  id_ts :: u64
  id_context :: u32
  id_uid :: u32

definition UID_INVALID :: u32 where "UID_INVALID = 0"
definition UID_DESTROY :: u32 where "UID_DESTROY = 2"
definition UID_VALID :: u32 where "UID_VALID = 4"
definition NO_CONTEXT :: u32 where "NO_CONTEXT = 0xffffffff"

record event_with_context =
  ewc_context :: u32
  ewc_timestamp :: u64
  ewc_event :: impl_ptr

text \<open>
  The fields of \<open>DefaultSimulatorImpl\<close>, the store of implementations with its next free
  address, and the state of the world outside. \<open>m_unscheduledEvents\<close> is a C \<open>int\<close>, kept
  here at its 32 bits.
\<close>

record ('s, 'c, 'w) simulator =
  sim_eventsWithContext :: "event_with_context list"
  sim_eventsWithContextEmpty :: bool
  sim_destroyEvents :: "event_id list"
  sim_stop :: bool
  sim_events :: 's
  sim_uid :: u32
  sim_currentUid :: u32
  sim_currentTs :: u64
  sim_currentContext :: u32
  sim_eventCount :: u64
  sim_unscheduledEvents :: "32 word"
  sim_impls :: "impl_ptr \<rightharpoonup> 'c event_impl"
  sim_brk :: nat
  sim_world :: 'w

text \<open>The constructor, followed by the \<open>SetScheduler\<close> that \<open>Simulator::GetImpl\<close> makes.\<close>

definition Simulator_new :: "'s scheduler_ops \<Rightarrow> 'w \<Rightarrow> ('s, 'c, 'w) simulator" where
  "Simulator_new ops w =
     \<lparr>sim_eventsWithContext = [], sim_eventsWithContextEmpty = True, sim_destroyEvents = [],
      sim_stop = False, sim_events = op_new ops, sim_uid = UID_VALID,
      sim_currentUid = UID_INVALID, sim_currentTs = 0, sim_currentContext = NO_CONTEXT,
      sim_eventCount = 0, sim_unscheduledEvents = 0, sim_impls = Map.empty, sim_brk = 1,
      sim_world = w\<rparr>"

section \<open>Event implementations and event ids\<close>

text \<open>\<open>MakeEvent\<close>: a new implementation, not cancelled.\<close>

definition EventImpl_new :: "'c callee \<Rightarrow> ('s, 'c, 'w) simulator \<Rightarrow> impl_ptr \<times> ('s, 'c, 'w) simulator" where
  "EventImpl_new c st =
     (sim_brk st, st\<lparr>sim_impls := (sim_impls st)(sim_brk st \<mapsto> \<lparr>m_cancel = False, bound = c\<rparr>),
                     sim_brk := sim_brk st + 1\<rparr>)"

definition EventImpl_Cancel :: "impl_ptr \<Rightarrow> ('s, 'c, 'w) simulator \<Rightarrow> ('s, 'c, 'w) simulator res" where
  "EventImpl_Cancel p st =
     (case sim_impls st p of
        None \<Rightarrow> Inl Undefined
      | Some i \<Rightarrow> Inr (st\<lparr>sim_impls := (sim_impls st)(p \<mapsto> i\<lparr>m_cancel := True\<rparr>)\<rparr>))"

definition EventImpl_IsCancelled :: "('s, 'c, 'w) simulator \<Rightarrow> impl_ptr \<Rightarrow> bool" where
  "EventImpl_IsCancelled st p = (case sim_impls st p of None \<Rightarrow> False | Some i \<Rightarrow> m_cancel i)"

definition EventId_eq :: "event_id \<Rightarrow> event_id \<Rightarrow> bool" where
  "EventId_eq a b \<longleftrightarrow>
     id_uid a = id_uid b \<and> id_context a = id_context b \<and> id_ts a = id_ts b \<and>
     id_eventImpl a = id_eventImpl b"

section \<open>Time\<close>

text \<open>\<open>Time\<close> is a signed 64-bit count of time steps; its overflow is undefined.\<close>

definition Time_IsPositive :: "u64 \<Rightarrow> bool" where
  "Time_IsPositive t \<longleftrightarrow> 0 \<le> sint t"

definition Time_add :: "u64 \<Rightarrow> u64 \<Rightarrow> u64 res" where
  "Time_add a b =
     defined_if (- (2 ^ 63) \<le> sint a + sint b \<and> sint a + sint b < 2 ^ 63) (Inr (a + b))"

section \<open>Operations\<close>

definition Simulator_IsExpired :: "('s, 'c, 'w) simulator \<Rightarrow> event_id \<Rightarrow> bool" where
  "Simulator_IsExpired st i =
     (if id_uid i = UID_DESTROY then
        if id_eventImpl i = 0 \<or> EventImpl_IsCancelled st (id_eventImpl i) then True
        else if \<exists>j \<in> set (sim_destroyEvents st). EventId_eq j i then False
        else True
      else if id_eventImpl i = 0
           \<or> id_ts i < sim_currentTs st
           \<or> (id_ts i = sim_currentTs st \<and> id_uid i \<le> sim_currentUid st)
           \<or> EventImpl_IsCancelled st (id_eventImpl i)
      then True else False)"

definition Simulator_IsFinished :: "'s scheduler_ops \<Rightarrow> ('s, 'c, 'w) simulator \<Rightarrow> bool" where
  "Simulator_IsFinished ops st \<longleftrightarrow> op_IsEmpty ops (sim_events st) \<or> sim_stop st"

text \<open>What \<open>Schedule\<close> and \<open>ScheduleWithContext\<close> do once the time stamp is known.\<close>

definition insert_event ::
  "'s scheduler_ops \<Rightarrow> impl_ptr \<Rightarrow> u64 \<Rightarrow> u32 \<Rightarrow> ('s, 'c, 'w) simulator \<Rightarrow> ('s, 'c, 'w) simulator res" where
  "insert_event ops p ts ctx st =
     bind_res (op_Insert ops \<lparr>impl = p, key = EventKey ts (sim_uid st) ctx\<rparr> (sim_events st)) (\<lambda>s'.
       Inr (st\<lparr>sim_uid := sim_uid st + 1,
               sim_unscheduledEvents := sim_unscheduledEvents st + 1,
               sim_events := s'\<rparr>))"

definition Simulator_Schedule ::
  "'s scheduler_ops \<Rightarrow> bool \<Rightarrow> u64 \<Rightarrow> impl_ptr \<Rightarrow> ('s, 'c, 'w) simulator \<Rightarrow>
   (event_id \<times> ('s, 'c, 'w) simulator) res" where
  "Simulator_Schedule ops main delay p st =
     ns_assert main (ns_assert (Time_IsPositive delay) (
       bind_res (Time_add delay (sim_currentTs st)) (\<lambda>ts.
       bind_res (insert_event ops p ts (sim_currentContext st) st) (\<lambda>st'.
         Inr (\<lparr>id_eventImpl = p, id_ts = ts, id_context = sim_currentContext st,
               id_uid = sim_uid st\<rparr>, st')))))"

definition Simulator_ScheduleWithContext ::
  "'s scheduler_ops \<Rightarrow> bool \<Rightarrow> u32 \<Rightarrow> u64 \<Rightarrow> impl_ptr \<Rightarrow> ('s, 'c, 'w) simulator \<Rightarrow>
   ('s, 'c, 'w) simulator res" where
  "Simulator_ScheduleWithContext ops main ctx delay p st =
     (if main then
        bind_res (Time_add delay (sim_currentTs st)) (\<lambda>ts. insert_event ops p ts ctx st)
      else
        Inr (st\<lparr>sim_eventsWithContext := sim_eventsWithContext st @
                  [\<lparr>ewc_context = ctx, ewc_timestamp = delay, ewc_event = p\<rparr>],
                sim_eventsWithContextEmpty := False\<rparr>))"

definition Simulator_ScheduleNow ::
  "'s scheduler_ops \<Rightarrow> bool \<Rightarrow> impl_ptr \<Rightarrow> ('s, 'c, 'w) simulator \<Rightarrow>
   (event_id \<times> ('s, 'c, 'w) simulator) res" where
  "Simulator_ScheduleNow ops main p st = ns_assert main (Simulator_Schedule ops main 0 p st)"

definition Simulator_ScheduleDestroy ::
  "bool \<Rightarrow> impl_ptr \<Rightarrow> ('s, 'c, 'w) simulator \<Rightarrow> (event_id \<times> ('s, 'c, 'w) simulator) res" where
  "Simulator_ScheduleDestroy main p st =
     ns_assert main
       (let i = \<lparr>id_eventImpl = p, id_ts = sim_currentTs st, id_context = 0xffffffff, id_uid = 2\<rparr>
        in Inr (i, st\<lparr>sim_destroyEvents := sim_destroyEvents st @ [i],
                      sim_uid := sim_uid st + 1\<rparr>))"

definition Simulator_Stop_now :: "('s, 'c, 'w) simulator \<Rightarrow> ('s, 'c, 'w) simulator" where
  "Simulator_Stop_now st = st\<lparr>sim_stop := True\<rparr>"

definition Simulator_Stop_in ::
  "'s scheduler_ops \<Rightarrow> bool \<Rightarrow> u64 \<Rightarrow> ('s, 'c, 'w) simulator \<Rightarrow> ('s, 'c, 'w) simulator res" where
  "Simulator_Stop_in ops main delay st =
     (let (p, st1) = EventImpl_new Simulator_Stop st
      in bind_res (Simulator_Schedule ops main delay p st1) (\<lambda>(i, st2). Inr st2))"

definition Simulator_Now :: "('s, 'c, 'w) simulator \<Rightarrow> u64" where
  "Simulator_Now st = sim_currentTs st"

definition Simulator_GetContext :: "('s, 'c, 'w) simulator \<Rightarrow> u32" where
  "Simulator_GetContext st = sim_currentContext st"

definition Simulator_GetEventCount :: "('s, 'c, 'w) simulator \<Rightarrow> u64" where
  "Simulator_GetEventCount st = sim_eventCount st"

definition Simulator_GetDelayLeft :: "('s, 'c, 'w) simulator \<Rightarrow> event_id \<Rightarrow> u64" where
  "Simulator_GetDelayLeft st i =
     (if Simulator_IsExpired st i then 0 else id_ts i - sim_currentTs st)"

fun erase_first :: "('a \<Rightarrow> bool) \<Rightarrow> 'a list \<Rightarrow> 'a list" where
  "erase_first P [] = []"
| "erase_first P (x # xs) = (if P x then xs else x # erase_first P xs)"

definition Simulator_Remove ::
  "'s scheduler_ops \<Rightarrow> event_id \<Rightarrow> ('s, 'c, 'w) simulator \<Rightarrow> ('s, 'c, 'w) simulator res" where
  "Simulator_Remove ops i st =
     (if id_uid i = UID_DESTROY then
        Inr (st\<lparr>sim_destroyEvents := erase_first (\<lambda>j. EventId_eq j i) (sim_destroyEvents st)\<rparr>)
      else if Simulator_IsExpired st i then Inr st
      else
        bind_res (op_Remove ops
            \<lparr>impl = id_eventImpl i, key = EventKey (id_ts i) (id_uid i) (id_context i)\<rparr>
            (sim_events st)) (\<lambda>s'.
        bind_res (EventImpl_Cancel (id_eventImpl i) (st\<lparr>sim_events := s'\<rparr>)) (\<lambda>st1.
          Inr (st1\<lparr>sim_unscheduledEvents := sim_unscheduledEvents st1 - 1\<rparr>))))"

definition Simulator_Cancel :: "event_id \<Rightarrow> ('s, 'c, 'w) simulator \<Rightarrow> ('s, 'c, 'w) simulator res" where
  "Simulator_Cancel i st =
     (if \<not> Simulator_IsExpired st i then EventImpl_Cancel (id_eventImpl i) st else Inr st)"

text \<open>The loop body of \<open>ProcessEventsWithContext\<close> over the swapped-out list.\<close>

definition insert_with_context ::
  "'s scheduler_ops \<Rightarrow> event_with_context \<Rightarrow> ('s, 'c, 'w) simulator \<Rightarrow> ('s, 'c, 'w) simulator res" where
  "insert_with_context ops x st =
     insert_event ops (ewc_event x) (sim_currentTs st + ewc_timestamp x) (ewc_context x) st"

definition Simulator_ProcessEventsWithContext ::
  "'s scheduler_ops \<Rightarrow> ('s, 'c, 'w) simulator \<Rightarrow> ('s, 'c, 'w) simulator res" where
  "Simulator_ProcessEventsWithContext ops st =
     (if sim_eventsWithContextEmpty st then Inr st
      else fold_res (insert_with_context ops) (sim_eventsWithContext st)
             (st\<lparr>sim_eventsWithContext := [], sim_eventsWithContextEmpty := True\<rparr>))"

text \<open>
  \<open>DoDispose\<close> empties the queue; the result is the list of events whose reference is released, and
  \<open>n\<close> bounds the number of iterations.
\<close>

definition Simulator_DoDispose :: "'s scheduler_ops \<Rightarrow> nat \<Rightarrow> ('s, 'c, 'w) simulator \<Rightarrow> event list res" where
  "Simulator_DoDispose ops n st =
     bind_res (Simulator_ProcessEventsWithContext ops st) (\<lambda>st1. drain ops n (sim_events st1))"

section \<open>Invoking events\<close>

text \<open>The calls a bound function can make, all from the main thread.\<close>

datatype 'c api_call =
    CallSchedule u64 'c
  | CallScheduleWithContext u32 u64 'c
  | CallScheduleDestroy 'c
  | CallStop
  | CallStopIn u64
  | CallCancel event_id
  | CallRemove event_id

fun api_step :: "'s scheduler_ops \<Rightarrow> 'c api_call \<Rightarrow> ('s, 'c, 'w) simulator \<Rightarrow> ('s, 'c, 'w) simulator res" where
  "api_step ops (CallSchedule delay c) st =
     (let (p, st1) = EventImpl_new (User c) st
      in bind_res (Simulator_Schedule ops True delay p st1) (\<lambda>(i, st2). Inr st2))"
| "api_step ops (CallScheduleWithContext ctx delay c) st =
     (let (p, st1) = EventImpl_new (User c) st
      in Simulator_ScheduleWithContext ops True ctx delay p st1)"
| "api_step ops (CallScheduleDestroy c) st =
     (let (p, st1) = EventImpl_new (User c) st
      in bind_res (Simulator_ScheduleDestroy True p st1) (\<lambda>(i, st2). Inr st2))"
| "api_step ops CallStop st = Inr (Simulator_Stop_now st)"
| "api_step ops (CallStopIn delay) st = Simulator_Stop_in ops True delay st"
| "api_step ops (CallCancel i) st = Simulator_Cancel i st"
| "api_step ops (CallRemove i) st = Simulator_Remove ops i st"

type_synonym ('s, 'c, 'w) callback = "'c \<Rightarrow> ('s, 'c, 'w) simulator \<Rightarrow> 'w \<times> 'c api_call list"

definition EventImpl_Notify ::
  "('s, 'c, 'w) callback \<Rightarrow> 's scheduler_ops \<Rightarrow> 'c callee \<Rightarrow> ('s, 'c, 'w) simulator \<Rightarrow>
   ('s, 'c, 'w) simulator res" where
  "EventImpl_Notify cb ops f st =
     (case f of
        Simulator_Stop \<Rightarrow> Inr (Simulator_Stop_now st)
      | User c \<Rightarrow> (let (w, calls) = cb c st in fold_res (api_step ops) calls (st\<lparr>sim_world := w\<rparr>)))"

definition EventImpl_Invoke ::
  "('s, 'c, 'w) callback \<Rightarrow> 's scheduler_ops \<Rightarrow> impl_ptr \<Rightarrow> ('s, 'c, 'w) simulator \<Rightarrow>
   ('s, 'c, 'w) simulator res" where
  "EventImpl_Invoke cb ops p st =
     (case sim_impls st p of
        None \<Rightarrow> Inl Undefined
      | Some i \<Rightarrow> if \<not> m_cancel i then EventImpl_Notify cb ops (bound i) st else Inr st)"

section \<open>The event loop\<close>

text \<open>The bookkeeping between taking an event off the queue and invoking it.\<close>

definition begin_event :: "event \<Rightarrow> 's \<Rightarrow> ('s, 'c, 'w) simulator \<Rightarrow> ('s, 'c, 'w) simulator" where
  "begin_event next s' st =
     st\<lparr>sim_events := s',
        sim_unscheduledEvents := sim_unscheduledEvents st - 1,
        sim_eventCount := sim_eventCount st + 1,
        sim_currentTs := ev_ts next,
        sim_currentContext := m_context (key next),
        sim_currentUid := ev_uid next\<rparr>"

definition Simulator_ProcessOneEvent ::
  "('s, 'c, 'w) callback \<Rightarrow> 's scheduler_ops \<Rightarrow> ('s, 'c, 'w) simulator \<Rightarrow> ('s, 'c, 'w) simulator res" where
  "Simulator_ProcessOneEvent cb ops st =
     bind_res (op_RemoveNext ops (sim_events st)) (\<lambda>(next, s').
       ns_assert (ev_ts next \<ge> sim_currentTs st)
         (bind_res (EventImpl_Invoke cb ops (impl next) (begin_event next s' st))
            (Simulator_ProcessEventsWithContext ops)))"

text \<open>The loop of \<open>Run\<close>, bounded by the number of events it may process.\<close>

fun Simulator_Run_loop ::
  "('s, 'c, 'w) callback \<Rightarrow> 's scheduler_ops \<Rightarrow> nat \<Rightarrow> ('s, 'c, 'w) simulator \<Rightarrow>
   ('s, 'c, 'w) simulator res" where
  "Simulator_Run_loop cb ops 0 st =
     (if Simulator_IsFinished ops st then Inr st else Inl NoFuel)"
| "Simulator_Run_loop cb ops (Suc n) st =
     (if Simulator_IsFinished ops st then Inr st
      else bind_res (Simulator_ProcessOneEvent cb ops st) (Simulator_Run_loop cb ops n))"

definition Simulator_Run ::
  "('s, 'c, 'w) callback \<Rightarrow> 's scheduler_ops \<Rightarrow> nat \<Rightarrow> ('s, 'c, 'w) simulator \<Rightarrow>
   ('s, 'c, 'w) simulator res" where
  "Simulator_Run cb ops n st =
     bind_res (Simulator_ProcessEventsWithContext ops st) (\<lambda>st1.
     bind_res (Simulator_Run_loop cb ops n (st1\<lparr>sim_stop := False\<rparr>)) (\<lambda>st2.
       ns_assert (\<not> op_IsEmpty ops (sim_events st2) \<or> sim_unscheduledEvents st2 = 0) (Inr st2)))"

text \<open>\<open>Destroy\<close>: the destroy events in order, with fuel, since one may register more.\<close>

fun Simulator_Destroy ::
  "('s, 'c, 'w) callback \<Rightarrow> 's scheduler_ops \<Rightarrow> nat \<Rightarrow> ('s, 'c, 'w) simulator \<Rightarrow>
   ('s, 'c, 'w) simulator res" where
  "Simulator_Destroy cb ops 0 st = (if sim_destroyEvents st = [] then Inr st else Inl NoFuel)"
| "Simulator_Destroy cb ops (Suc n) st =
     (case sim_destroyEvents st of
        [] \<Rightarrow> Inr st
      | i # rest \<Rightarrow>
          let st1 = st\<lparr>sim_destroyEvents := rest\<rparr> in
          if \<not> EventImpl_IsCancelled st1 (id_eventImpl i)
          then bind_res (EventImpl_Invoke cb ops (id_eventImpl i) st1) (Simulator_Destroy cb ops n)
          else Simulator_Destroy cb ops n st1)"

text \<open>
  The transfer \<open>SetScheduler\<close> makes from the old scheduler to the new one, and the state
  \<open>DoDispose\<close> leaves the old one in.
\<close>

fun Simulator_SetScheduler ::
  "'s scheduler_ops \<Rightarrow> 't scheduler_ops \<Rightarrow> nat \<Rightarrow> 's \<Rightarrow> 't \<Rightarrow> 't res" where
  "Simulator_SetScheduler ops ops' 0 s t = (if op_IsEmpty ops s then Inr t else Inl NoFuel)"
| "Simulator_SetScheduler ops ops' (Suc n) s t =
     (if op_IsEmpty ops s then Inr t
      else bind_res (op_RemoveNext ops s) (\<lambda>(next, s').
             bind_res (op_Insert ops' next t) (\<lambda>t'. Simulator_SetScheduler ops ops' n s' t')))"

section \<open>The invariant\<close>

definition current_rank :: "('s, 'c, 'w) simulator \<Rightarrow> nat" where
  "current_rank st = key_rank (EventKey (sim_currentTs st) (sim_currentUid st) 0)"

text \<open>What holds of a pending event, and of the whole state between two events.\<close>

definition pending_ok :: "('s, 'c, 'w) simulator \<Rightarrow> event \<Rightarrow> bool" where
  "pending_ok st e \<longleftrightarrow>
     ev_uid e < sim_uid st \<and> UID_VALID \<le> ev_uid e \<and> unat (ev_ts e) < 2 ^ 63 \<and>
     current_rank st < rank e \<and> sim_impls st (impl e) \<noteq> None"

definition sim_inv :: "('s \<Rightarrow> bool) \<Rightarrow> ('s \<Rightarrow> event multiset) \<Rightarrow> ('s, 'c, 'w) simulator \<Rightarrow> bool" where
  "sim_inv valid evs st \<longleftrightarrow>
     valid (sim_events st) \<and>
     UID_VALID \<le> sim_uid st \<and> sim_currentUid st < sim_uid st \<and>
     unat (sim_currentTs st) < 2 ^ 63 \<and>
     sim_unscheduledEvents st = of_nat (size (evs (sim_events st))) \<and>
     (sim_eventsWithContextEmpty st \<longleftrightarrow> sim_eventsWithContext st = []) \<and>
     (\<forall>x \<in> set (sim_eventsWithContext st). sim_impls st (ewc_event x) \<noteq> None) \<and>
     (\<forall>i \<in> set (sim_destroyEvents st). sim_impls st (id_eventImpl i) \<noteq> None) \<and>
     0 < sim_brk st \<and> (\<forall>p. sim_impls st p \<noteq> None \<longrightarrow> 0 < p \<and> p < sim_brk st) \<and>
     (\<forall>e \<in># evs (sim_events st). pending_ok st e)"

text \<open>
  An event id is genuine when its implementation exists and it is a destroy event, expired,
  or pending. Ids returned by the simulator are genuine and stay so.
\<close>

definition event_of :: "event_id \<Rightarrow> event" where
  "event_of i = \<lparr>impl = id_eventImpl i, key = EventKey (id_ts i) (id_uid i) (id_context i)\<rparr>"

definition genuine :: "('s \<Rightarrow> event multiset) \<Rightarrow> ('s, 'c, 'w) simulator \<Rightarrow> event_id \<Rightarrow> bool" where
  "genuine evs st i \<longleftrightarrow> sim_impls st (id_eventImpl i) \<noteq> None \<and>
     (id_uid i = UID_DESTROY \<or> Simulator_IsExpired st i \<or> event_of i \<in># evs (sim_events st))"

text \<open>
  What the simulator asks of its callers: delays are not negative and do not run past the
  last representable time, ids are genuine, and the 32-bit counter of ids has room.
\<close>

definition delay_ok :: "('s, 'c, 'w) simulator \<Rightarrow> u64 \<Rightarrow> bool" where
  "delay_ok st d \<longleftrightarrow> unat (sim_currentTs st) + unat d < 2 ^ 63"

fun call_ok :: "('s \<Rightarrow> event multiset) \<Rightarrow> ('s, 'c, 'w) simulator \<Rightarrow> 'c api_call \<Rightarrow> bool" where
  "call_ok evs st (CallSchedule d c) = delay_ok st d"
| "call_ok evs st (CallScheduleWithContext ctx d c) = delay_ok st d"
| "call_ok evs st (CallStopIn d) = delay_ok st d"
| "call_ok evs st (CallCancel i) = genuine evs st i"
| "call_ok evs st (CallRemove i) = genuine evs st i"
| "call_ok evs st _ = True"

fun calls_ok ::
  "'s scheduler_ops \<Rightarrow> ('s \<Rightarrow> event multiset) \<Rightarrow> nat \<Rightarrow> 'c api_call list \<Rightarrow> ('s, 'c, 'w) simulator \<Rightarrow> bool" where
  "calls_ok ops evs room [] st \<longleftrightarrow> unat (sim_uid st) + room < 2 ^ 32"
| "calls_ok ops evs room (c # cs) st \<longleftrightarrow>
     unat (sim_uid st) + 1 < 2 ^ 32 \<and> call_ok evs st c \<and>
     (case api_step ops c st of Inl e \<Rightarrow> True | Inr st' \<Rightarrow> calls_ok ops evs room cs st')"

text \<open>
  \<open>keeps\<close>: what every operation a bound function calls leaves alone.
\<close>

definition keeps ::
  "('s \<Rightarrow> event multiset) \<Rightarrow> ('s, 'c, 'w) simulator \<Rightarrow> ('s, 'c, 'w) simulator \<Rightarrow> bool" where
  "keeps evs st st' \<longleftrightarrow>
     sim_currentTs st' = sim_currentTs st \<and> sim_currentUid st' = sim_currentUid st \<and>
     sim_eventCount st' = sim_eventCount st \<and>
     sim_eventsWithContext st' = sim_eventsWithContext st \<and>
     (\<forall>i. genuine evs st i \<longrightarrow> genuine evs st' i) \<and>
     (\<forall>p. EventImpl_IsCancelled st p \<longrightarrow> EventImpl_IsCancelled st' p)"

text \<open>
  The calls the next event will make, and the condition on them: \<open>admissible\<close> asks of the
  event about to be processed what \<open>calls_ok\<close> asks of its calls, with room left for the
  events that other threads have queued.
\<close>

definition notify_calls ::
  "('s, 'c, 'w) callback \<Rightarrow> impl_ptr \<Rightarrow> ('s, 'c, 'w) simulator \<Rightarrow> 'w \<times> 'c api_call list" where
  "notify_calls cb p st =
     (case sim_impls st p of
        None \<Rightarrow> (sim_world st, [])
      | Some i \<Rightarrow>
          if m_cancel i then (sim_world st, [])
          else case bound i of Simulator_Stop \<Rightarrow> (sim_world st, []) | User c \<Rightarrow> cb c st)"

definition admissible ::
  "('s, 'c, 'w) callback \<Rightarrow> 's scheduler_ops \<Rightarrow> ('s \<Rightarrow> event multiset) \<Rightarrow> ('s, 'c, 'w) simulator \<Rightarrow> bool" where
  "admissible cb ops evs st =
     (case op_RemoveNext ops (sim_events st) of
        Inl _ \<Rightarrow> True
      | Inr (e, s') \<Rightarrow>
          let st1 = begin_event e s' st; (w, calls) = notify_calls cb (impl e) st1 in
          (\<forall>x \<in> set (sim_eventsWithContext st). delay_ok st1 (ewc_timestamp x)) \<and>
          calls_ok ops evs (length (sim_eventsWithContext st)) calls (st1\<lparr>sim_world := w\<rparr>))"

lemma keeps_refl [simp]: "keeps evs st st"
  by (simp add: keeps_def)

lemma keeps_trans: "keeps evs a b \<Longrightarrow> keeps evs b c \<Longrightarrow> keeps evs a c"
  by (auto simp: keeps_def)

lemma Time_add_ok:
  assumes "unat d + unat t < 2 ^ 63"
  shows "Time_IsPositive d" and "Time_add d t = Inr (d + t)" and "unat (d + t) = unat d + unat t"
proof -
  from assms have lt: "unat d < 2 ^ 63" "unat t < 2 ^ 63" by linarith+
  note s = sint_small [OF lt(1)] sint_small [OF lt(2)]
  show "Time_IsPositive d" by (simp add: Time_IsPositive_def s)
  have "int (unat d) + int (unat t) < 2 ^ 63"
    using assms by (metis of_nat_add of_nat_less_iff of_nat_numeral of_nat_power)
  moreover have "- (2 ^ 63) \<le> int (unat d) + int (unat t)"
    by (rule order_trans [of _ 0]) simp_all
  ultimately show "Time_add d t = Inr (d + t)"
    by (simp only: Time_add_def s defined_if_def simp_thms if_True)
  show "unat (d + t) = unat d + unat t"
    using assms by (intro unat_add_nowrap) simp
qed

lemma current_rank_cong:
  "sim_currentTs st' = sim_currentTs st \<Longrightarrow> sim_currentUid st' = sim_currentUid st \<Longrightarrow>
   current_rank st' = current_rank st"
  by (simp add: current_rank_def)

lemma uid_step:
  assumes "unat (u :: u32) + 1 < 2 ^ 32"
  shows "u < u + 1" and "unat (u + 1) = unat u + 1"
proof -
  show "unat (u + 1) = unat u + 1" using assms by (intro unat_inc_nowrap) simp
  then show "u < u + 1" by (simp add: word_less_nat_alt)
qed

lemma IsExpired_iff:
  "Simulator_IsExpired st i \<longleftrightarrow>
     id_eventImpl i = 0 \<or> EventImpl_IsCancelled st (id_eventImpl i) \<or>
     (if id_uid i = UID_DESTROY then \<forall>j \<in> set (sim_destroyEvents st). \<not> EventId_eq j i
      else id_ts i < sim_currentTs st \<or>
           id_ts i = sim_currentTs st \<and> id_uid i \<le> sim_currentUid st)"
  by (auto simp: Simulator_IsExpired_def)

lemma IsExpired_cong:
  assumes "sim_currentTs st' = sim_currentTs st" "sim_currentUid st' = sim_currentUid st"
    and "sim_destroyEvents st' = sim_destroyEvents st"
    and "\<And>p. EventImpl_IsCancelled st' p = EventImpl_IsCancelled st p"
  shows "Simulator_IsExpired st' i = Simulator_IsExpired st i"
  unfolding Simulator_IsExpired_def assms ..

lemma EventImpl_IsCancelled_cong:
  "sim_impls st' = sim_impls st \<Longrightarrow> EventImpl_IsCancelled st' p = EventImpl_IsCancelled st p"
  by (simp add: EventImpl_IsCancelled_def)

lemma sim_inv_pending: "sim_inv valid evs st \<Longrightarrow> e \<in># evs (sim_events st) \<Longrightarrow> pending_ok st e"
  unfolding sim_inv_def by blast

lemma EventImpl_new_inv:
  assumes "sim_inv valid evs st" "EventImpl_new c st = (p, st1)"
  shows "sim_inv valid evs st1" and "sim_impls st1 p \<noteq> None" and "keeps evs st st1"
    and "sim_uid st1 = sim_uid st" and "sim_currentTs st1 = sim_currentTs st"
proof -
  have free: "sim_impls st (sim_brk st) = None"
    using assms(1) unfolding sim_inv_def by (meson less_irrefl)
  have st1: "p = sim_brk st" "st1 = st\<lparr>sim_impls := (sim_impls st)(sim_brk st \<mapsto> \<lparr>m_cancel = False, bound = c\<rparr>),
      sim_brk := sim_brk st + 1\<rparr>" using assms(2) by (auto simp: EventImpl_new_def)
  then show "sim_impls st1 p \<noteq> None" "sim_uid st1 = sim_uid st"
    "sim_currentTs st1 = sim_currentTs st" by simp_all
  have canc: "EventImpl_IsCancelled st1 q = EventImpl_IsCancelled st q" for q
    using free by (simp add: st1 EventImpl_IsCancelled_def)
  from assms(1) show "sim_inv valid evs st1"
    by (auto simp: sim_inv_def st1 pending_ok_def current_rank_def)
  have "Simulator_IsExpired st1 i = Simulator_IsExpired st i" for i
    by (rule IsExpired_cong) (simp_all add: canc, simp_all add: st1)
  moreover have "sim_impls st i \<noteq> None \<Longrightarrow> sim_impls st1 i \<noteq> None" for i by (simp add: st1)
  moreover have "sim_events st1 = sim_events st" by (simp add: st1)
  ultimately have "genuine evs st i \<Longrightarrow> genuine evs st1 i" for i unfolding genuine_def by metis
  with canc show "keeps evs st st1" by (simp add: keeps_def) (simp add: st1)
qed

text \<open>The simulator over a scheduler that meets the contract.\<close>

locale simulator_on = event_scheduler ops valid evs
  for ops :: "'s scheduler_ops" and valid :: "'s \<Rightarrow> bool" and evs :: "'s \<Rightarrow> event multiset"
begin

abbreviation sinv :: "('s, 'c, 'w) simulator \<Rightarrow> bool" where
  "sinv \<equiv> sim_inv valid evs"

lemma pending_uid: "sinv st \<Longrightarrow> e \<in># evs (sim_events st) \<Longrightarrow> ev_uid e < sim_uid st"
  by (drule (1) sim_inv_pending) (simp add: pending_ok_def)

lemma insert_event_inv:
  assumes inv: "sinv st" and room: "unat (sim_uid st) + 1 < 2 ^ 32"
    and p: "sim_impls st p \<noteq> None" and ts: "unat ts < 2 ^ 63" "sim_currentTs st \<le> ts"
  shows "\<exists>st'. insert_event ops p ts ctx st = Inr st' \<and> sinv st' \<and> keeps evs st st' \<and>
    sim_uid st' = sim_uid st + 1 \<and> sim_impls st' = sim_impls st \<and>
    sim_destroyEvents st' = sim_destroyEvents st \<and> sim_brk st' = sim_brk st \<and>
    evs (sim_events st') =
      add_mset \<lparr>impl = p, key = EventKey ts (sim_uid st) ctx\<rparr> (evs (sim_events st))"
proof -
  let ?e = "\<lparr>impl = p, key = EventKey ts (sim_uid st) ctx\<rparr>"
  have "ev_uid ?e \<notin> ev_uid ` set_mset (evs (sim_events st))"
    using pending_uid [OF inv] by force
  moreover have "valid (sim_events st)" using inv by (simp add: sim_inv_def)
  ultimately obtain s' where s': "op_Insert ops ?e (sim_events st) = Inr s'" "valid s'"
      "evs s' = add_mset ?e (evs (sim_events st))"
    using insert_law by blast
  let ?st = "st\<lparr>sim_uid := sim_uid st + 1,
      sim_unscheduledEvents := sim_unscheduledEvents st + 1, sim_events := s'\<rparr>"
  have r: "insert_event ops p ts ctx st = Inr ?st" by (simp add: insert_event_def s'(1))
  from inv have st: "sim_currentUid st < sim_uid st" "UID_VALID \<le> sim_uid st"
    by (simp_all add: sim_inv_def)
  note u = uid_step(1) [OF room]
  have "key_less (EventKey (sim_currentTs st) (sim_currentUid st) 0) (key ?e)"
    using ts(2) st(1) by (auto simp: key_less_def)
  then have "current_rank st < rank ?e" by (simp add: key_less_rank current_rank_def rank_def)
  then have new: "pending_ok ?st ?e"
    using p ts(1) st(2) u by (simp add: pending_ok_def current_rank_def)
  have old: "pending_ok ?st e" if "pending_ok st e" for e
    using that less_trans [OF _ u] by (simp add: pending_ok_def current_rank_def)
  have "sinv ?st"
    using inv s' new old u less_trans [OF _ u] order.trans [OF _ less_imp_le [OF u]]
    by (simp add: sim_inv_def)
  moreover have "keeps evs st ?st"
    using s'(3) IsExpired_cong [of ?st st] EventImpl_IsCancelled_cong [of ?st st]
    by (auto simp: keeps_def genuine_def)
  ultimately show ?thesis using r s'(3) by auto
qed


lemma schedule_inv:
  assumes "sinv st" "unat (sim_uid st) + 1 < 2 ^ 32" "sim_impls st p \<noteq> None" "delay_ok st d"
  shows "\<exists>st'. Simulator_Schedule ops True d p st =
      Inr (\<lparr>id_eventImpl = p, id_ts = d + sim_currentTs st, id_context = sim_currentContext st,
            id_uid = sim_uid st\<rparr>, st') \<and>
    insert_event ops p (d + sim_currentTs st) (sim_currentContext st) st = Inr st' \<and>
    sinv st' \<and> keeps evs st st' \<and> sim_uid st' = sim_uid st + 1"
proof -
  have d: "unat d + unat (sim_currentTs st) < 2 ^ 63"
    using assms(4) by (simp add: delay_ok_def add.commute)
  note t = Time_add_ok [OF d]
  have "unat (d + sim_currentTs st) < 2 ^ 63" using t(3) d by simp
  moreover have "sim_currentTs st \<le> d + sim_currentTs st" using t(3) by (simp add: word_le_nat_alt)
  ultimately show ?thesis
    using insert_event_inv [OF assms(1-3), of "d + sim_currentTs st" "sim_currentContext st"] t(1,2)
    by (auto simp: Simulator_Schedule_def)
qed

lemma schedule_with_context_inv:
  assumes "sinv st" "unat (sim_uid st) + 1 < 2 ^ 32" "sim_impls st p \<noteq> None" "delay_ok st d"
  shows "\<exists>st'. Simulator_ScheduleWithContext ops True ctx d p st = Inr st' \<and>
    sinv st' \<and> keeps evs st st'"
proof -
  have d: "unat d + unat (sim_currentTs st) < 2 ^ 63"
    using assms(4) by (simp add: delay_ok_def add.commute)
  note t = Time_add_ok [OF d]
  have "unat (d + sim_currentTs st) < 2 ^ 63" using t(3) d by simp
  moreover have "sim_currentTs st \<le> d + sim_currentTs st" using t(3) by (simp add: word_le_nat_alt)
  ultimately show ?thesis
    using insert_event_inv [OF assms(1-3), of "d + sim_currentTs st" ctx] t(2)
    by (auto simp: Simulator_ScheduleWithContext_def)
qed

lemma cancel_impl_inv:
  assumes "sinv st" "sim_impls st p \<noteq> None"
  shows "\<exists>st'. EventImpl_Cancel p st = Inr st' \<and> sinv st' \<and> keeps evs st st' \<and>
    EventImpl_IsCancelled st' p \<and> sim_uid st' = sim_uid st \<and> sim_events st' = sim_events st"
proof -
  from assms(2) obtain i where i: "sim_impls st p = Some i" by blast
  let ?st = "st\<lparr>sim_impls := (sim_impls st)(p \<mapsto> i\<lparr>m_cancel := True\<rparr>)\<rparr>"
  have c: "EventImpl_IsCancelled ?st q \<longleftrightarrow> q = p \<or> EventImpl_IsCancelled st q" for q
    by (simp add: EventImpl_IsCancelled_def)
  have "Simulator_IsExpired st j \<Longrightarrow> Simulator_IsExpired ?st j" for j
    unfolding IsExpired_iff c by auto
  then have "keeps evs st ?st" using c by (auto simp: keeps_def genuine_def)
  moreover have "sinv ?st"
    using assms(1) i by (auto simp: sim_inv_def pending_ok_def current_rank_def)
  ultimately show ?thesis using i c by (simp add: EventImpl_Cancel_def)
qed


lemma remove_inv:
  assumes inv: "sinv st" and g: "genuine evs st i"
  shows "\<exists>st'. Simulator_Remove ops i st = Inr st' \<and> sinv st' \<and> keeps evs st st' \<and>
    (id_uid i \<noteq> UID_DESTROY \<longrightarrow> Simulator_IsExpired st' i \<and>
      evs (sim_events st') = (if Simulator_IsExpired st i then evs (sim_events st)
                              else evs (sim_events st) - {#event_of i#}))"
proof (cases "id_uid i = UID_DESTROY \<or> Simulator_IsExpired st i")
  case True
  let ?st = "st\<lparr>sim_destroyEvents := erase_first (\<lambda>j. EventId_eq j i) (sim_destroyEvents st)\<rparr>"
  have sub: "set (erase_first P xs) \<subseteq> set xs" for P and xs :: "event_id list"
    by (induction xs) auto
  have "sinv ?st"
    using inv sub [of "\<lambda>j. EventId_eq j i" "sim_destroyEvents st"]
    by (auto simp: sim_inv_def pending_ok_def current_rank_def)
  moreover have "EventImpl_IsCancelled ?st p = EventImpl_IsCancelled st p" for p
    by (rule EventImpl_IsCancelled_cong) simp
  then have "keeps evs st ?st" by (auto simp: keeps_def genuine_def IsExpired_iff)
  ultimately show ?thesis using True inv by (auto simp: Simulator_Remove_def)
next
  case False
  with g have e: "event_of i \<in># evs (sim_events st)" "sim_impls st (id_eventImpl i) \<noteq> None"
    by (auto simp: genuine_def)
  from inv have v: "valid (sim_events st)" by (simp add: sim_inv_def)
  from remove_law [OF v e(1)] obtain s' where s': "op_Remove ops (event_of i) (sim_events st) = Inr s'"
      "valid s'" "evs (sim_events st) = add_mset (event_of i) (evs s')" by blast
  let ?st = "st\<lparr>sim_events := s', sim_unscheduledEvents := sim_unscheduledEvents st - 1\<rparr>"
  have sinv: "sinv ?st"
    using inv s' by (auto simp: sim_inv_def pending_ok_def current_rank_def)
  from cancel_impl_inv [OF this, of "id_eventImpl i"] e(2) obtain st' where
    st': "EventImpl_Cancel (id_eventImpl i) ?st = Inr st'" "sinv st'" "keeps evs ?st st'"
      "EventImpl_IsCancelled st' (id_eventImpl i)" "sim_events st' = s'" by auto
  have r: "Simulator_Remove ops i st = Inr st'"
    using False s'(1) st'(1) e(2)
    by (auto simp: Simulator_Remove_def EventImpl_Cancel_def event_of_def split: option.splits)
  have "genuine evs st' j" if "genuine evs st j" for j
  proof (cases "event_of j = event_of i")
    case True
    then have "id_eventImpl j = id_eventImpl i" by (simp add: event_of_def)
    with st'(4) have "Simulator_IsExpired st' j" by (simp add: IsExpired_iff)
    moreover have "sim_impls st' (id_eventImpl j) \<noteq> None"
      using st'(3) e(2) \<open>id_eventImpl j = id_eventImpl i\<close> st'(1)
      by (auto simp: EventImpl_Cancel_def split: option.splits)
    ultimately show ?thesis by (simp add: genuine_def)
  next
    case False
    have "EventImpl_IsCancelled ?st p = EventImpl_IsCancelled st p" for p
      by (rule EventImpl_IsCancelled_cong) simp
    with that False s'(3) have "genuine evs ?st j" by (auto simp: genuine_def IsExpired_iff)
    with st'(3) show ?thesis by (simp add: keeps_def)
  qed
  moreover have "EventImpl_IsCancelled ?st p = EventImpl_IsCancelled st p" for p
    by (rule EventImpl_IsCancelled_cong) simp
  ultimately have "keeps evs st st'" using st'(3) by (auto simp: keeps_def)
  with r st' s'(3) False show ?thesis by (auto simp: IsExpired_iff)
qed

lemma sim_inv_update [simp]:
  "sinv (st\<lparr>sim_world := w\<rparr>) = sinv st" "sinv (st\<lparr>sim_stop := b\<rparr>) = sinv st"
  by (simp_all add: sim_inv_def pending_ok_def current_rank_def)

lemma keeps_update [simp]:
  "keeps evs st (st\<lparr>sim_world := w\<rparr>)" "keeps evs st (st\<lparr>sim_stop := b\<rparr>)"
proof -
  have c: "EventImpl_IsCancelled (st\<lparr>sim_world := w\<rparr>) p = EventImpl_IsCancelled st p"
      "EventImpl_IsCancelled (st\<lparr>sim_stop := b\<rparr>) p = EventImpl_IsCancelled st p" for p
    by (simp_all add: EventImpl_IsCancelled_def)
  show "keeps evs st (st\<lparr>sim_world := w\<rparr>)" "keeps evs st (st\<lparr>sim_stop := b\<rparr>)"
    by (auto simp: keeps_def genuine_def IsExpired_iff c)
qed

lemma schedule_destroy_inv:
  assumes "sinv st" "unat (sim_uid st) + 1 < 2 ^ 32" "sim_impls st p \<noteq> None"
  shows "\<exists>i st'. Simulator_ScheduleDestroy True p st = Inr (i, st') \<and> sinv st' \<and> keeps evs st st'"
proof -
  let ?i = "\<lparr>id_eventImpl = p, id_ts = sim_currentTs st, id_context = 0xffffffff, id_uid = 2\<rparr>"
  let ?st = "st\<lparr>sim_destroyEvents := sim_destroyEvents st @ [?i], sim_uid := sim_uid st + 1\<rparr>"
  note u = uid_step(1) [OF assms(2)]
  have "pending_ok ?st e" if "pending_ok st e" for e
    using that less_trans [OF _ u] by (simp add: pending_ok_def current_rank_def)
  then have "sinv ?st"
    using assms(1,3) less_trans [OF _ u] order.trans [OF _ less_imp_le [OF u]]
    by (simp add: sim_inv_def)
  moreover have "EventImpl_IsCancelled ?st p = EventImpl_IsCancelled st p" for p
    by (rule EventImpl_IsCancelled_cong) simp
  then have "keeps evs st ?st" by (auto simp: keeps_def genuine_def IsExpired_iff)
  ultimately show ?thesis by (simp add: Simulator_ScheduleDestroy_def Let_def)
qed


lemma cancel_inv:
  assumes "sinv st" "genuine evs st i"
  shows "\<exists>st'. Simulator_Cancel i st = Inr st' \<and> sinv st' \<and> keeps evs st st' \<and>
    Simulator_IsExpired st' i \<and> sim_events st' = sim_events st"
proof (cases "Simulator_IsExpired st i")
  case False
  with assms(2) have "sim_impls st (id_eventImpl i) \<noteq> None" by (simp add: genuine_def)
  from cancel_impl_inv [OF assms(1) this] False show ?thesis
    by (auto simp: Simulator_Cancel_def IsExpired_iff)
qed (use assms in \<open>simp add: Simulator_Cancel_def\<close>)

lemma api_step_inv:
  assumes inv: "sinv st" and room: "unat (sim_uid st) + 1 < 2 ^ 32" and ok: "call_ok evs st c"
  shows "\<exists>st'. api_step ops c st = Inr st' \<and> sinv st' \<and> keeps evs st st'"
proof -
  have new: "sinv st1 \<and> unat (sim_uid st1) + 1 < 2 ^ 32 \<and> sim_impls st1 p \<noteq> None \<and>
      keeps evs st st1 \<and> (delay_ok st d \<longrightarrow> delay_ok st1 d)"
    if "EventImpl_new f st = (p, st1)" for f p st1 d
    using EventImpl_new_inv [OF inv that] room by (simp add: delay_ok_def)
  show ?thesis
  proof (cases c)
    case (CallSchedule d f)
    obtain p st1 where n: "EventImpl_new (User f) st = (p, st1)" by fastforce
    with CallSchedule ok new [OF n, of d] schedule_inv [of st1 p d] show ?thesis
      by (auto intro: keeps_trans)
  next
    case (CallScheduleWithContext ctx d f)
    obtain p st1 where n: "EventImpl_new (User f) st = (p, st1)" by fastforce
    with CallScheduleWithContext ok new [OF n, of d] schedule_with_context_inv [of st1 p d ctx]
    show ?thesis by (auto intro: keeps_trans)
  next
    case (CallScheduleDestroy f)
    obtain p st1 where n: "EventImpl_new (User f) st = (p, st1)" by fastforce
    with CallScheduleDestroy new [OF n, of 0] schedule_destroy_inv [of st1 p] show ?thesis
      by (auto intro: keeps_trans)
  next
    case CallStop
    with inv show ?thesis by (simp add: Simulator_Stop_now_def)
  next
    case (CallStopIn d)
    obtain p st1 where n: "EventImpl_new Simulator_Stop st = (p, st1)" by fastforce
    with CallStopIn ok new [OF n, of d] schedule_inv [of st1 p d] show ?thesis
      by (auto simp: Simulator_Stop_in_def intro: keeps_trans)
  next
    case (CallCancel i)
    with ok cancel_inv [OF inv, of i] show ?thesis by auto
  next
    case (CallRemove i)
    with ok remove_inv [OF inv, of i] show ?thesis by auto
  qed
qed

lemma api_calls_inv:
  assumes "sinv st" "calls_ok ops evs room cs st"
  shows "\<exists>st'. fold_res (api_step ops) cs st = Inr st' \<and> sinv st' \<and> keeps evs st st' \<and>
    unat (sim_uid st') + room < 2 ^ 32"
  using assms
proof (induction cs arbitrary: st)
  case (Cons c cs)
  then obtain st1 where st1: "api_step ops c st = Inr st1" "sinv st1" "keeps evs st st1"
    using api_step_inv [of st c] by auto
  with Cons.prems(2) have "calls_ok ops evs room cs st1" by simp
  from Cons.IH [OF st1(2) this] st1 show ?case by (auto intro: keeps_trans)
qed simp

lemma insert_all_with_context_inv:
  assumes "sinv st" "unat (sim_uid st) + length xs < 2 ^ 32"
    and "\<And>x. x \<in> set xs \<Longrightarrow> sim_impls st (ewc_event x) \<noteq> None \<and> delay_ok st (ewc_timestamp x)"
  shows "\<exists>st'. fold_res (insert_with_context ops) xs st = Inr st' \<and> sinv st' \<and> keeps evs st st'"
  using assms
proof (induction xs arbitrary: st)
  case (Cons x xs)
  let ?ts = "sim_currentTs st + ewc_timestamp x"
  have d: "unat (sim_currentTs st) + unat (ewc_timestamp x) < 2 ^ 63"
    using Cons.prems(3) [of x] by (simp add: delay_ok_def)
  then have u: "unat ?ts = unat (sim_currentTs st) + unat (ewc_timestamp x)"
    by (intro unat_add_nowrap) simp
  have room: "unat (sim_uid st) + 1 < 2 ^ 32" using Cons.prems(2) by simp
  have "unat ?ts < 2 ^ 63" "sim_currentTs st \<le> ?ts" using d u by (simp_all add: word_le_nat_alt)
  from insert_event_inv [OF Cons.prems(1) room _ this] Cons.prems(3) obtain st1 where
    st1: "insert_with_context ops x st = Inr st1" "sinv st1" "keeps evs st st1"
      "sim_uid st1 = sim_uid st + 1" "sim_impls st1 = sim_impls st"
    by (fastforce simp: insert_with_context_def)
  have "unat (sim_uid st1) + length xs < 2 ^ 32"
    using Cons.prems(2) uid_step(2) [OF room] st1(4) by simp
  moreover have "sim_impls st1 (ewc_event y) \<noteq> None \<and> delay_ok st1 (ewc_timestamp y)"
    if "y \<in> set xs" for y
    using Cons.prems(3) [of y] that st1(3,5) by (simp add: delay_ok_def keeps_def)
  ultimately obtain st' where
    "fold_res (insert_with_context ops) xs st1 = Inr st'" "sinv st'" "keeps evs st1 st'"
    using Cons.IH [OF st1(2)] by blast
  with st1 show ?case by (auto intro: keeps_trans)
qed simp

lemma process_events_with_context_inv:
  assumes "sinv st" "unat (sim_uid st) + length (sim_eventsWithContext st) < 2 ^ 32"
    and "\<forall>x \<in> set (sim_eventsWithContext st). delay_ok st (ewc_timestamp x)"
  shows "\<exists>st'. Simulator_ProcessEventsWithContext ops st = Inr st' \<and> sinv st' \<and>
    sim_currentTs st' = sim_currentTs st \<and> sim_currentUid st' = sim_currentUid st \<and>
    sim_eventCount st' = sim_eventCount st \<and> sim_eventsWithContext st' = [] \<and>
    (\<forall>i. genuine evs st i \<longrightarrow> genuine evs st' i)"
proof (cases "sim_eventsWithContextEmpty st")
  case True
  with assms(1) show ?thesis
    by (auto simp: Simulator_ProcessEventsWithContext_def sim_inv_def)
next
  case False
  let ?st = "st\<lparr>sim_eventsWithContext := [], sim_eventsWithContextEmpty := True\<rparr>"
  have sinv: "sinv ?st"
    using assms(1) by (simp add: sim_inv_def pending_ok_def current_rank_def)
  have ok: "sim_impls ?st (ewc_event x) \<noteq> None \<and> delay_ok ?st (ewc_timestamp x)"
    if "x \<in> set (sim_eventsWithContext st)" for x
    using assms(1,3) that by (auto simp: sim_inv_def delay_ok_def)
  have "EventImpl_IsCancelled ?st p = EventImpl_IsCancelled st p" for p
    by (rule EventImpl_IsCancelled_cong) simp
  then have "genuine evs st i \<longrightarrow> genuine evs ?st i" for i
    by (auto simp: genuine_def IsExpired_iff)
  with insert_all_with_context_inv [OF sinv _ ok] assms(2) False show ?thesis
    by (force simp: Simulator_ProcessEventsWithContext_def keeps_def)
qed


lemma begin_event_inv:
  assumes inv: "sinv st" and ne: "evs (sim_events st) \<noteq> {#}"
    and r: "op_RemoveNext ops (sim_events st) = Inr (e, s')"
  shows "sinv (begin_event e s' st)" and "sim_impls st (impl e) \<noteq> None"
    and "current_rank st < current_rank (begin_event e s' st)"
    and "sim_currentTs st \<le> ev_ts e"
    and "\<And>i. genuine evs st i \<Longrightarrow> genuine evs (begin_event e s' st) i"
proof -
  let ?st = "begin_event e s' st"
  from inv have v: "valid (sim_events st)" by (simp add: sim_inv_def)
  note rn = remove_next_Inr [OF v ne r]
  have pe: "pending_ok st e" using sim_inv_pending [OF inv] rn(3) by simp
  have cr: "current_rank ?st = rank e" by (simp add: begin_event_def current_rank_def rank_def key_rank_def)
  with pe show lt: "current_rank st < current_rank ?st" by (simp add: pending_ok_def)
  from lt [unfolded cr] show "sim_currentTs st \<le> ev_ts e"
    using rank_ts_mono [of "\<lparr>impl = 0, key = EventKey (sim_currentTs st) (sim_currentUid st) 0\<rparr>" e]
    by (simp add: current_rank_def rank_def)
  from pe show "sim_impls st (impl e) \<noteq> None" by (simp add: pending_ok_def)
  have "rank e < rank x" if "x \<in># evs s'" for x
  proof -
    have "rank e \<le> rank x" using rn(1,3) that by (simp add: is_next_def)
    moreover have "ev_uid e \<noteq> ev_uid x"
      using valid_uniq [OF v] rn(3) that by (auto simp: uniq_uids_add)
    then have "rank e \<noteq> rank x" by (simp add: rank_def key_rank_inject)
    ultimately show ?thesis by simp
  qed
  then have "pending_ok ?st x" if "x \<in># evs s'" for x
    using sim_inv_pending [OF inv, of x] that rn(3) cr
    by (simp add: pending_ok_def) (simp add: begin_event_def)
  moreover have "ev_uid e < sim_uid st" "unat (ev_ts e) < 2 ^ 63"
    using pe by (simp_all add: pending_ok_def)
  ultimately show "sinv ?st"
    using inv rn(2,3) by (simp add: sim_inv_def) (simp add: begin_event_def)
  have canc: "EventImpl_IsCancelled ?st p = EventImpl_IsCancelled st p" for p
    by (rule EventImpl_IsCancelled_cong) (simp add: begin_event_def)
  fix i
  assume g: "genuine evs st i"
  have ex: "Simulator_IsExpired ?st i" if "Simulator_IsExpired st i" "id_uid i \<noteq> UID_DESTROY"
  proof -
    have "id_ts i < ev_ts e \<or> id_ts i = ev_ts e \<and> id_uid i \<le> ev_uid e"
      if "id_ts i < sim_currentTs st \<or> id_ts i = sim_currentTs st \<and> id_uid i \<le> sim_currentUid st"
    proof -
      have "key_less (EventKey (sim_currentTs st) (sim_currentUid st) 0) (key e)"
        using lt [unfolded cr] by (simp add: key_less_rank current_rank_def rank_def)
      with that show ?thesis by (auto simp: key_less_def split: if_splits)
    qed
    with that show ?thesis by (auto simp: IsExpired_iff canc) (auto simp: begin_event_def)
  qed
  have "Simulator_IsExpired ?st i" if "event_of i = e" "id_uid i \<noteq> UID_DESTROY"
    using that by (auto simp: IsExpired_iff begin_event_def event_of_def)
  with g ex rn(3) show "genuine evs ?st i"
    by (auto simp: genuine_def) (auto simp: begin_event_def)
qed

lemma process_one_event_inv:
  assumes inv: "sinv st" and ne: "\<not> op_IsEmpty ops (sim_events st)"
    and ok: "admissible cb ops evs st"
  shows "\<exists>e s' st'. op_RemoveNext ops (sim_events st) = Inr (e, s') \<and>
    is_next e (evs (sim_events st)) \<and>
    Simulator_ProcessOneEvent cb ops st = Inr st' \<and> sinv st' \<and>
    current_rank st' = rank e \<and> current_rank st < rank e \<and>
    sim_currentTs st \<le> sim_currentTs st' \<and> sim_currentTs st' = ev_ts e \<and>
    sim_eventCount st' = sim_eventCount st + 1 \<and>
    (\<forall>i. genuine evs st i \<longrightarrow> genuine evs st' i)"
proof -
  from inv have v: "valid (sim_events st)" by (simp add: sim_inv_def)
  with ne have ne': "evs (sim_events st) \<noteq> {#}" by (simp add: is_empty_law)
  from remove_next_law [OF v ne'] obtain e s' where
    r: "op_RemoveNext ops (sim_events st) = Inr (e, s')" "is_next e (evs (sim_events st))" by blast
  note b = begin_event_inv [OF inv ne' r(1)]
  let ?st1 = "begin_event e s' st"
  obtain w calls where nc: "notify_calls cb (impl e) ?st1 = (w, calls)" by fastforce
  from ok r nc have ewc: "\<forall>x \<in> set (sim_eventsWithContext st). delay_ok ?st1 (ewc_timestamp x)"
    and co: "calls_ok ops evs (length (sim_eventsWithContext st)) calls (?st1\<lparr>sim_world := w\<rparr>)"
    by (auto simp: admissible_def Let_def)
  have "sinv (?st1\<lparr>sim_world := w\<rparr>)" using b(1) by simp
  from api_calls_inv [OF this co] obtain st2 where
    st2: "fold_res (api_step ops) calls (?st1\<lparr>sim_world := w\<rparr>) = Inr st2" "sinv st2"
      "keeps evs (?st1\<lparr>sim_world := w\<rparr>) st2"
      "unat (sim_uid st2) + length (sim_eventsWithContext st) < 2 ^ 32" by blast
  obtain st3 where st3: "EventImpl_Invoke cb ops (impl e) ?st1 = Inr st3" "sinv st3"
      "keeps evs ?st1 st3" "unat (sim_uid st3) + length (sim_eventsWithContext st) < 2 ^ 32"
  proof -
    from b(2) obtain i where i: "sim_impls ?st1 (impl e) = Some i" by (auto simp: begin_event_def)
    have k: "keeps evs ?st1 st2" using keeps_update(1) st2(3) by (rule keeps_trans)
    show thesis
    proof (cases "m_cancel i \<or> bound i = Simulator_Stop")
      case True
      then have "calls = []" using nc i
        by (cases i) (auto simp: notify_calls_def split: callee.splits bool.splits)
      with st2 True i b(1) show thesis
        by (intro that [of "if m_cancel i then ?st1 else ?st1\<lparr>sim_stop := True\<rparr>"])
           (auto simp: EventImpl_Invoke_def EventImpl_Notify_def Simulator_Stop_now_def)
    next
      case False
      then obtain c where "bound i = User c" "\<not> m_cancel i" by (cases "bound i") auto
      with st2 k i nc show thesis
        by (intro that [of st2]) (cases i, auto simp: EventImpl_Invoke_def EventImpl_Notify_def notify_calls_def)
    qed
  qed
  have e3: "sim_eventsWithContext st3 = sim_eventsWithContext st"
    using st3(3) by (simp add: keeps_def) (simp add: begin_event_def)
  have "\<forall>x \<in> set (sim_eventsWithContext st3). delay_ok st3 (ewc_timestamp x)"
    using ewc st3(3) e3 by (simp add: delay_ok_def keeps_def)
  with process_events_with_context_inv [OF st3(2)] st3(4) e3 obtain st' where
    st': "Simulator_ProcessEventsWithContext ops st3 = Inr st'" "sinv st'"
      "sim_currentTs st' = sim_currentTs st3" "sim_currentUid st' = sim_currentUid st3"
      "sim_eventCount st' = sim_eventCount st3"
      "\<forall>i. genuine evs st3 i \<longrightarrow> genuine evs st' i" by auto
  have fin: "Simulator_ProcessOneEvent cb ops st = Inr st'"
    using r(1) b(4) st3(1) st'(1) by (simp add: Simulator_ProcessOneEvent_def)
  have cur: "sim_currentTs st' = ev_ts e" "sim_currentUid st' = ev_uid e"
      "sim_eventCount st' = sim_eventCount st + 1"
    using st'(3-5) st3(3) by (simp_all add: keeps_def) (simp_all add: begin_event_def)
  have "current_rank st' = rank e" "current_rank st < rank e"
    using cur b(3) by (simp_all add: current_rank_def rank_def key_rank_def begin_event_def)
  moreover have "\<forall>i. genuine evs st i \<longrightarrow> genuine evs st' i"
    using b(5) st3(3) st'(6) by (simp add: keeps_def)
  ultimately show ?thesis using r fin st'(2) cur b(4) by auto
qed


lemma sim_new_inv: "sinv (Simulator_new ops w :: ('s, 'c, 'w) simulator)"
  by (simp add: sim_inv_def Simulator_new_def new_valid new_evs UID_VALID_def UID_INVALID_def)

end

section \<open>Executions\<close>

text \<open>
  An execution of the simulator: processing the next event, or a call of
  \<open>ScheduleWithContext\<close> from another thread between two events. \<open>es\<close> lists the events
  processed, in order.
\<close>

inductive sim_trace ::
  "('s, 'c, 'w) callback \<Rightarrow> 's scheduler_ops \<Rightarrow> ('s \<Rightarrow> event multiset) \<Rightarrow>
   ('s, 'c, 'w) simulator \<Rightarrow> event list \<Rightarrow> ('s, 'c, 'w) simulator \<Rightarrow> bool"
  for cb ops evs where
  trace_end: "sim_trace cb ops evs st [] st"
| trace_event: "\<not> op_IsEmpty ops (sim_events st) \<Longrightarrow> admissible cb ops evs st \<Longrightarrow>
    op_RemoveNext ops (sim_events st) = Inr (e, s') \<Longrightarrow>
    Simulator_ProcessOneEvent cb ops st = Inr st1 \<Longrightarrow>
    sim_trace cb ops evs st1 es st2 \<Longrightarrow> sim_trace cb ops evs st (e # es) st2"
| trace_other_thread: "sim_impls st p \<noteq> None \<Longrightarrow>
    Simulator_ScheduleWithContext ops False ctx d p st = Inr st1 \<Longrightarrow>
    sim_trace cb ops evs st1 es st2 \<Longrightarrow> sim_trace cb ops evs st es st2"

text \<open>Every event a bounded run processes is admissible.\<close>

fun admissible_run ::
  "('s, 'c, 'w) callback \<Rightarrow> 's scheduler_ops \<Rightarrow> ('s \<Rightarrow> event multiset) \<Rightarrow> nat \<Rightarrow>
   ('s, 'c, 'w) simulator \<Rightarrow> bool" where
  "admissible_run cb ops evs 0 st \<longleftrightarrow> True"
| "admissible_run cb ops evs (Suc n) st \<longleftrightarrow>
     Simulator_IsFinished ops st \<or>
     admissible cb ops evs st \<and>
     (case Simulator_ProcessOneEvent cb ops st of
        Inl e \<Rightarrow> True | Inr st' \<Rightarrow> admissible_run cb ops evs n st')"

definition silent :: "('s, 'c, 'w) callback \<Rightarrow> bool" where
  "silent cb \<longleftrightarrow> (\<forall>c st. snd (cb c st) = [])"

inductive_cases sim_trace_ConsE: "sim_trace cb ops evs st (e # es) st'"
inductive_simps sim_trace_Nil: "sim_trace cb ops evs st [] st'"

context simulator_on
begin

lemma other_thread_inv:
  assumes "sinv st" "sim_impls st p \<noteq> None" "Simulator_ScheduleWithContext ops False ctx d p st = Inr st1"
  shows "sinv st1" and "current_rank st1 = current_rank st" and "sim_currentTs st1 = sim_currentTs st"
    and "\<And>i. genuine evs st i \<Longrightarrow> genuine evs st1 i"
proof -
  from assms(3) have st1: "st1 = st\<lparr>sim_eventsWithContext := sim_eventsWithContext st @
      [\<lparr>ewc_context = ctx, ewc_timestamp = d, ewc_event = p\<rparr>], sim_eventsWithContextEmpty := False\<rparr>"
    by (simp add: Simulator_ScheduleWithContext_def)
  show "sinv st1" using assms(1,2) by (simp add: st1 sim_inv_def pending_ok_def current_rank_def)
  show "current_rank st1 = current_rank st" "sim_currentTs st1 = sim_currentTs st"
    by (simp_all add: st1 current_rank_def)
  have "EventImpl_IsCancelled st1 q = EventImpl_IsCancelled st q" for q
    by (rule EventImpl_IsCancelled_cong) (simp add: st1)
  then show "genuine evs st i \<Longrightarrow> genuine evs st1 i" for i
    by (simp add: genuine_def IsExpired_iff) (auto simp: st1)
qed

lemma trace_inv:
  assumes "sim_trace cb ops evs st es st'" "sinv st"
  shows "sinv st' \<and> sorted_wrt (<) (current_rank st # map rank es) \<and>
    sim_currentTs st \<le> sim_currentTs st' \<and> (\<forall>i. genuine evs st i \<longrightarrow> genuine evs st' i)"
  using assms
proof (induction rule: sim_trace.induct)
  case (trace_event st e s' st1 es st2)
  from process_one_event_inv [OF trace_event.prems trace_event.hyps(1,2)] trace_event.hyps(3,4)
  have st1: "sinv st1" "current_rank st1 = rank e" "current_rank st < rank e"
      "sim_currentTs st \<le> sim_currentTs st1" "\<forall>i. genuine evs st i \<longrightarrow> genuine evs st1 i" by auto
  from trace_event.IH [OF st1(1)] st1 show ?case by (auto dest: order.strict_trans)
next
  case (trace_other_thread st p ctx d st1 es st2)
  note o = other_thread_inv [OF trace_other_thread.prems trace_other_thread.hyps(1,2)]
  from trace_other_thread.IH [OF o(1)] o show ?case by auto
qed auto


lemma run_loop_inv:
  assumes "sinv st" "admissible_run cb ops evs n st"
  shows "Simulator_Run_loop cb ops n st = Inl NoFuel \<or>
    (\<exists>es st'. Simulator_Run_loop cb ops n st = Inr st' \<and> sim_trace cb ops evs st es st' \<and>
       sinv st' \<and> Simulator_IsFinished ops st')"
  using assms
proof (induction n arbitrary: st)
  case 0
  then show ?case by (auto intro: sim_trace.trace_end)
next
  case (Suc n)
  show ?case
  proof (cases "Simulator_IsFinished ops st")
    case True
    with Suc.prems(1) show ?thesis by (auto intro: sim_trace.trace_end)
  next
    case False
    then have ne: "\<not> op_IsEmpty ops (sim_events st)" by (simp add: Simulator_IsFinished_def)
    from False Suc.prems(2) have ok: "admissible cb ops evs st" by simp
    from process_one_event_inv [OF Suc.prems(1) ne ok] obtain e s' st1 where
      st1: "op_RemoveNext ops (sim_events st) = Inr (e, s')"
        "Simulator_ProcessOneEvent cb ops st = Inr st1" "sinv st1" by blast
    with False Suc.prems(2) have "admissible_run cb ops evs n st1" by simp
    from Suc.IH [OF st1(3) this] False st1 ne ok show ?thesis
      by (auto intro: sim_trace.trace_event)
  qed
qed

text \<open>
  \<open>Run\<close> never trips an assertion: neither the check of time order in
  \<open>ProcessOneEvent\<close> nor the final check that no event was lost.
\<close>

lemma run_inv:
  assumes inv: "sinv st" and ewc: "sim_eventsWithContext st = []"
    and ok: "admissible_run cb ops evs n (st\<lparr>sim_stop := False\<rparr>)"
  shows "Simulator_Run cb ops n st = Inl NoFuel \<or>
    (\<exists>es st'. Simulator_Run cb ops n st = Inr st' \<and>
       sim_trace cb ops evs (st\<lparr>sim_stop := False\<rparr>) es st' \<and>
       sinv st' \<and> Simulator_IsFinished ops st' \<and> sorted_wrt (<) (map rank es))"
proof -
  have p: "Simulator_ProcessEventsWithContext ops st = Inr st"
    using inv ewc by (simp add: Simulator_ProcessEventsWithContext_def sim_inv_def)
  have i: "sinv (st\<lparr>sim_stop := False\<rparr>)" using inv by simp
  from run_loop_inv [OF i ok] show ?thesis
  proof
    assume "\<exists>es st'. Simulator_Run_loop cb ops n (st\<lparr>sim_stop := False\<rparr>) = Inr st' \<and>
      sim_trace cb ops evs (st\<lparr>sim_stop := False\<rparr>) es st' \<and> sinv st' \<and> Simulator_IsFinished ops st'"
    then obtain es st' where
      r: "Simulator_Run_loop cb ops n (st\<lparr>sim_stop := False\<rparr>) = Inr st'" "sinv st'"
        "sim_trace cb ops evs (st\<lparr>sim_stop := False\<rparr>) es st'" "Simulator_IsFinished ops st'" by blast
    have "\<not> op_IsEmpty ops (sim_events st') \<or> sim_unscheduledEvents st' = 0"
      using r(2) is_empty_law [of "sim_events st'"] by (auto simp: sim_inv_def)
    with p r trace_inv [OF r(3) i] show ?thesis
      by (auto simp: Simulator_Run_def)
  qed (simp add: Simulator_Run_def p)
qed

text \<open>
  Bound functions that schedule nothing: the queue shrinks with every event, so as much fuel
  as there are events is enough.
\<close>

lemma quiet_admissible:
  fixes st :: "('s, 'c, 'w) simulator"
  assumes "silent cb" "sim_eventsWithContext st = []"
  shows "admissible cb ops evs st"
proof -
  have "snd (notify_calls cb p st1) = []" for p st1
    using assms(1) by (auto simp: silent_def notify_calls_def split: option.splits callee.splits)
  then have "calls = []" if "notify_calls cb p st1 = (w, calls)" for p st1 w calls
    by (metis that snd_conv)
  moreover have "calls_ok ops evs 0 [] st1" for st1 :: "('s, 'c, 'w) simulator"
    using unat_u32_lt by simp
  ultimately show ?thesis
    using assms(2) by (fastforce simp: admissible_def Let_def split: sum.splits)
qed

lemma quiet_step:
  assumes inv: "sinv st" and ne: "\<not> op_IsEmpty ops (sim_events st)"
    and q: "silent cb" and ewc: "sim_eventsWithContext st = []"
  shows "\<exists>st'. Simulator_ProcessOneEvent cb ops st = Inr st' \<and> sinv st' \<and>
    sim_eventsWithContext st' = [] \<and>
    size (evs (sim_events st)) = Suc (size (evs (sim_events st')))"
proof -
  from inv have v: "valid (sim_events st)" by (simp add: sim_inv_def)
  from process_one_event_inv [OF inv ne quiet_admissible [OF q ewc]] obtain e s' st' where
    r: "op_RemoveNext ops (sim_events st) = Inr (e, s')"
    and st': "Simulator_ProcessOneEvent cb ops st = Inr st'" "sinv st'"
    and ge: "sim_currentTs st \<le> ev_ts e" by auto
  have em: "sim_eventsWithContextEmpty st" using inv ewc by (simp add: sim_inv_def)
  let ?b = "begin_event e s' st"
  have bq: "sim_events ?b = s'" "sim_eventsWithContext ?b = []" "sim_eventsWithContextEmpty ?b"
    by (simp_all add: begin_event_def ewc em)
  have step: "sim_events st1 = s' \<and> sim_eventsWithContext st1 = [] \<and> sim_eventsWithContextEmpty st1"
    if "EventImpl_Invoke cb ops (impl e) ?b = Inr st1" for st1
  proof -
    have cb: "fst (cb c x) = w \<and> calls = []" if "cb c x = (w, calls)" for c x w calls
      using q that by (metis silent_def fst_conv snd_conv)
    show ?thesis
      using that bq by (auto simp: EventImpl_Invoke_def EventImpl_Notify_def Simulator_Stop_now_def
          split: option.splits if_splits callee.splits prod.splits dest!: cb)
  qed
  from st'(1) r ge obtain st1 where
    st1: "EventImpl_Invoke cb ops (impl e) ?b = Inr st1" "Simulator_ProcessEventsWithContext ops st1 = Inr st'"
    by (cases "EventImpl_Invoke cb ops (impl e) ?b") (auto simp: Simulator_ProcessOneEvent_def)
  with step [OF st1(1)] have "sim_events st' = s'" "sim_eventsWithContext st' = []"
    by (auto simp: Simulator_ProcessEventsWithContext_def)
  moreover have "evs (sim_events st) \<noteq> {#}" using ne v by (simp add: is_empty_law)
  with remove_next_Inr [OF v _ r] have "evs (sim_events st) = add_mset e (evs s')" by blast
  ultimately show ?thesis using st' by auto
qed

lemma quiet_run_loop:
  assumes "sinv st" "sim_eventsWithContext st = []" "silent cb"
    and "size (evs (sim_events st)) \<le> n"
  shows "\<exists>st'. Simulator_Run_loop cb ops n st = Inr st' \<and> sinv st' \<and> Simulator_IsFinished ops st'"
  using assms
proof (induction n arbitrary: st)
  case 0
  then have "op_IsEmpty ops (sim_events st)" by (simp add: is_empty_law sim_inv_def)
  with 0 show ?case by (simp add: Simulator_IsFinished_def)
next
  case (Suc n)
  show ?case
  proof (cases "Simulator_IsFinished ops st")
    case False
    then have "\<not> op_IsEmpty ops (sim_events st)" by (simp add: Simulator_IsFinished_def)
    from quiet_step [OF Suc.prems(1) this Suc.prems(3,2)] obtain st1 where
      st1: "Simulator_ProcessOneEvent cb ops st = Inr st1" "sinv st1" "sim_eventsWithContext st1 = []"
        "size (evs (sim_events st)) = Suc (size (evs (sim_events st1)))" by blast
    with Suc.prems(4) have "size (evs (sim_events st1)) \<le> n" by simp
    from Suc.IH [OF st1(2,3) Suc.prems(3) this] False st1(1) show ?thesis by simp
  qed (use Suc.prems in simp)
qed

lemma quiet_run:
  assumes "sinv st" "sim_eventsWithContext st = []" "silent cb"
    and "size (evs (sim_events st)) \<le> n"
  shows "\<exists>st'. Simulator_Run cb ops n st = Inr st' \<and> sinv st' \<and> Simulator_IsFinished ops st'"
proof -
  have "sinv (st\<lparr>sim_stop := False\<rparr>)" using assms(1) by simp
  from quiet_run_loop [OF this _ assms(3)] assms(2,4) obtain st' where
    st': "Simulator_Run_loop cb ops n (st\<lparr>sim_stop := False\<rparr>) = Inr st'" "sinv st'"
      "Simulator_IsFinished ops st'" by fastforce
  moreover from assms(1,2) have "Simulator_ProcessEventsWithContext ops st = Inr st"
    by (simp add: Simulator_ProcessEventsWithContext_def sim_inv_def)
  moreover have "\<not> op_IsEmpty ops (sim_events st') \<or> sim_unscheduledEvents st' = 0"
    using st'(2) is_empty_law [of "sim_events st'"] by (auto simp: sim_inv_def)
  ultimately show ?thesis by (simp add: Simulator_Run_def)
qed

text \<open>What \<open>Schedule\<close> promises of the id it returns.\<close>

lemma schedule_live:
  assumes inv: "sinv st" and room: "unat (sim_uid st) + 1 < 2 ^ 32"
    and p: "sim_impls st p = Some f" "\<not> m_cancel f" and d: "delay_ok st d"
  shows "\<exists>i st'. Simulator_Schedule ops True d p st = Inr (i, st') \<and> sinv st' \<and>
    \<not> Simulator_IsExpired st' i \<and> Simulator_GetDelayLeft st' i = d \<and> genuine evs st' i \<and>
    evs (sim_events st') = add_mset (event_of i) (evs (sim_events st))"
proof -
  have p': "sim_impls st p \<noteq> None" using p by simp
  from schedule_inv [OF inv room p' d] obtain st' where
    s: "Simulator_Schedule ops True d p st =
      Inr (\<lparr>id_eventImpl = p, id_ts = d + sim_currentTs st, id_context = sim_currentContext st,
            id_uid = sim_uid st\<rparr>, st')" (is "_ = Inr (?i, _)")
    and ins: "insert_event ops p (d + sim_currentTs st) (sim_currentContext st) st = Inr st'"
    and st': "sinv st'" "keeps evs st st'" by blast
  have dd: "unat d + unat (sim_currentTs st) < 2 ^ 63" using d by (simp add: delay_ok_def add.commute)
  note t = Time_add_ok [OF dd]
  have ts: "sim_currentTs st \<le> d + sim_currentTs st" using t(3) by (simp add: word_le_nat_alt)
  from insert_event_inv [OF inv room p' _ ts, of "sim_currentContext st"] ins t(3) dd have
    e: "sim_impls st' = sim_impls st" "evs (sim_events st') = add_mset (event_of ?i) (evs (sim_events st))"
    by (auto simp: event_of_def)
  have u: "sim_currentUid st < sim_uid st" "UID_VALID \<le> sim_uid st" using inv by (simp_all add: sim_inv_def)
  have "0 < p" using inv p' by (auto simp: sim_inv_def)
  moreover have "sim_uid st \<noteq> UID_DESTROY" using u(2) by (auto simp: UID_VALID_def UID_DESTROY_def)
  moreover have "\<not> EventImpl_IsCancelled st' p" using p e by (simp add: EventImpl_IsCancelled_def)
  moreover have "sim_currentTs st' = sim_currentTs st" "sim_currentUid st' = sim_currentUid st"
    using st'(2) by (simp_all add: keeps_def)
  ultimately have x: "\<not> Simulator_IsExpired st' ?i" "Simulator_GetDelayLeft st' ?i = d"
    using ts u(1) by (auto simp: IsExpired_iff Simulator_GetDelayLeft_def)
  have "genuine evs st' ?i" using e p by (simp add: genuine_def)
  with s st'(1) x e(2) show ?thesis by blast
qed

end

section \<open>Changing the scheduler\<close>

text \<open>\<open>SetScheduler\<close> moves every pending event from one scheduler to another.\<close>

locale scheduler_pair =
  src: event_queue ops valid evs + dst: event_queue ops' valid' evs'
  for ops :: "'s scheduler_ops" and valid evs and ops' :: "'t scheduler_ops" and valid' evs'
begin

lemma set_scheduler:
  assumes "valid s" "valid' t" "uniq_uids (evs s + evs' t)" "size (evs s) \<le> n"
  shows "\<exists>t'. Simulator_SetScheduler ops ops' n s t = Inr t' \<and> valid' t' \<and>
    evs' t' = evs s + evs' t"
  using assms
proof (induction n arbitrary: s t)
  case 0
  then show ?case by (simp add: src.is_empty_law)
next
  case (Suc n)
  show ?case
  proof (cases "evs s = {#}")
    case True
    with Suc.prems show ?thesis by (simp add: src.is_empty_law)
  next
    case False
    from src.remove_next_law [OF Suc.prems(1) False] obtain e s' where
      r: "op_RemoveNext ops s = Inr (e, s')" "valid s'" "evs s = add_mset e (evs s')" by blast
    from Suc.prems(3) r(3) have fresh: "ev_uid e \<notin> ev_uid ` set_mset (evs' t)"
      by (auto simp: uniq_uids_add)
    from dst.insert_law [OF Suc.prems(2) fresh] obtain t' where
      i: "op_Insert ops' e t = Inr t'" "valid' t'" "evs' t' = add_mset e (evs' t)" by blast
    have "uniq_uids (evs s' + evs' t')" "size (evs s') \<le> n" using Suc.prems(3,4) r(3) i(3) by simp_all
    from Suc.IH [OF r(2) i(2) this] Suc.prems(1) False r i show ?thesis
      by (auto simp: src.is_empty_law)
  qed
qed

text \<open>Two schedulers given the same events deliver them in the same order.\<close>

lemma same_delivery:
  assumes "distinct (map ev_uid es)"
  shows "\<exists>s t. fold_res (op_Insert ops) es (op_new ops) = Inr s \<and>
    fold_res (op_Insert ops') es (op_new ops') = Inr t \<and>
    drain ops (length es) s = drain ops' (length es) t"
proof -
  from src.insert_all_drain [OF assms] dst.insert_all_drain [OF assms] obtain s t xs ys where
    i: "fold_res (op_Insert ops) es (op_new ops) = Inr s" "fold_res (op_Insert ops') es (op_new ops') = Inr t"
    and d: "drain ops (length es) s = Inr xs" "drain ops' (length es) t = Inr ys"
    and m: "mset xs = mset es" "mset ys = mset es" "sorted (map rank xs)" "sorted (map rank ys)"
    by blast
  have "distinct (map ev_uid xs)" using assms m(1) by (simp flip: uniq_uids_mset)
  then have "xs = ys" using m by (intro drain_unique) simp_all
  with i d show ?thesis by auto
qed

end

end
