(* ===== verification/Event_Core.thy ===== *)
theory Event_Core
  imports Map_Scheduler Heap_Scheduler Simulator
begin

text \<open>
  The event core assembled: the simulator over the map scheduler (the default) and the list
  scheduler, the transfer between schedulers, and the properties of the event core.
\<close>

section \<open>The simulator over the schedulers\<close>

abbreviation map_evs :: "map_scheduler \<Rightarrow> event multiset" where
  "map_evs m \<equiv> mset (map_events m)"

abbreviation map_inv :: "(map_scheduler, 'c, 'w) simulator \<Rightarrow> bool" where
  "map_inv \<equiv> sim_inv MapScheduler_valid map_evs"

interpretation map_sim: simulator_on MapScheduler_ops MapScheduler_valid map_evs
  by unfold_locales

interpretation list_sim: simulator_on ListScheduler_ops ListScheduler_valid mset
  by unfold_locales

interpretation heap_to_map: scheduler_pair HeapScheduler_ops HeapScheduler_valid heap_events
  MapScheduler_ops MapScheduler_valid map_evs
  by unfold_locales

section \<open>A concrete simulation\<close>

text \<open>
  The state after one \<open>Simulator::Schedule (5, f)\<close> on a new simulator, and the state after
  the event has run, for the witnesses below. The callback makes no calls.
\<close>

definition quiet :: "(map_scheduler, unit, unit) callback" where
  "quiet = (\<lambda>c st. ((), []))"

definition demo_event :: event where
  "demo_event = \<lparr>impl = 1, key = EventKey 5 4 NO_CONTEXT\<rparr>"

definition demo_state :: "(map_scheduler, unit, unit) simulator" where
  "demo_state = (Simulator_new MapScheduler_ops ())
     \<lparr>sim_events := [(EventKey 5 4 NO_CONTEXT, 1)], sim_uid := 5, sim_unscheduledEvents := 1,
      sim_impls := [1 \<mapsto> \<lparr>m_cancel = False, bound = User ()\<rparr>], sim_brk := 2\<rparr>"

definition demo_after :: "(map_scheduler, unit, unit) simulator" where
  "demo_after = demo_state
     \<lparr>sim_events := [], sim_unscheduledEvents := 0, sim_eventCount := 1, sim_currentTs := 5,
      sim_currentUid := 4\<rparr>"

lemmas demo_defs = demo_state_def demo_after_def demo_event_def quiet_def Simulator_new_def
  MapScheduler_ops_def MapScheduler_RemoveNext_def MapScheduler_IsEmpty_def MapScheduler_Insert_def
  MapScheduler_new_def UID_VALID_def UID_INVALID_def NO_CONTEXT_def

lemma demo_schedule:
  "api_step MapScheduler_ops (CallSchedule 5 ()) (Simulator_new MapScheduler_ops ()) = Inr demo_state"
  by (simp add: demo_defs EventImpl_new_def Simulator_Schedule_def Time_IsPositive_def Time_add_def
      insert_event_def)

lemma demo_inv: "map_inv demo_state"
proof -
  have "map_inv (Simulator_new MapScheduler_ops () :: (map_scheduler, unit, unit) simulator)"
    by (rule map_sim.sim_new_inv)
  from map_sim.api_step_inv [OF this, of "CallSchedule 5 ()"] demo_schedule show ?thesis
    by (simp add: delay_ok_def) (simp add: demo_defs)
qed

lemma demo_admissible: "admissible quiet MapScheduler_ops map_evs demo_state"
  by (simp add: admissible_def demo_defs notify_calls_def begin_event_def)

lemma demo_step: "Simulator_ProcessOneEvent quiet MapScheduler_ops demo_state = Inr demo_after"
  by (simp add: Simulator_ProcessOneEvent_def demo_defs EventImpl_Invoke_def EventImpl_Notify_def
      begin_event_def Simulator_ProcessEventsWithContext_def)

lemma demo_trace: "sim_trace quiet MapScheduler_ops map_evs demo_state [demo_event] demo_after"
proof (rule sim_trace.trace_event [OF _ demo_admissible _ demo_step sim_trace.trace_end])
  show "\<not> op_IsEmpty MapScheduler_ops (sim_events demo_state)" by (simp add: demo_defs)
  show "op_RemoveNext MapScheduler_ops (sim_events demo_state) = Inr (demo_event, [])"
    by (simp add: demo_defs)
qed

section \<open>Properties\<close>

text \<open>
  C1. Causal order. In every execution of the simulator on its default scheduler, from a
  state that satisfies the invariant, the events are processed in strictly increasing order
  of time stamp and, at equal time stamps, of unique id; the clock never goes back; and the
  invariant still holds at the end.
\<close>

theorem sim_causal_order:
  assumes "map_inv st" and "sim_trace cb MapScheduler_ops map_evs st es st'"
  shows "sorted_wrt (<) (map rank es) \<and> sim_currentTs st \<le> sim_currentTs st' \<and> map_inv st'"
  using map_sim.trace_inv [OF assms(2,1)] by simp

theorem sim_causal_order_witness:
  "sorted_wrt (<) (map rank [demo_event]) \<and>
   sim_currentTs demo_state \<le> sim_currentTs demo_after \<and> map_inv demo_after"
  using sim_causal_order [OF demo_inv demo_trace] .

text \<open>
  C2. Progress of the event loop. When events are pending and the next one's calls are
  admissible, \<open>ProcessOneEvent\<close> returns without tripping an assertion, the event it takes is
  the earliest pending one, the clock is set to its time stamp, the event count grows by
  one, and the invariant is kept.
\<close>

theorem process_one_event_progress:
  assumes "map_inv st" and "\<not> MapScheduler_IsEmpty (sim_events st)"
    and "admissible cb MapScheduler_ops map_evs st"
  shows "\<exists>e st'. is_next e (map_evs (sim_events st)) \<and>
    Simulator_ProcessOneEvent cb MapScheduler_ops st = Inr st' \<and> map_inv st' \<and>
    sim_currentTs st' = ev_ts e \<and> sim_currentTs st \<le> ev_ts e \<and>
    sim_eventCount st' = sim_eventCount st + 1"
proof -
  have "\<not> op_IsEmpty MapScheduler_ops (sim_events st)"
    using assms(2) by (simp add: MapScheduler_ops_def)
  from map_sim.process_one_event_inv [OF assms(1) this assms(3)] show ?thesis by fastforce
qed

theorem process_one_event_progress_witness:
  "\<exists>e st'. is_next e (map_evs (sim_events demo_state)) \<and>
    Simulator_ProcessOneEvent quiet MapScheduler_ops demo_state = Inr st' \<and> map_inv st' \<and>
    sim_currentTs st' = ev_ts e \<and> sim_currentTs demo_state \<le> ev_ts e \<and>
    sim_eventCount st' = sim_eventCount demo_state + 1"
  by (rule process_one_event_progress [OF demo_inv _ demo_admissible]) (simp add: demo_defs)

text \<open>
  C3. Safety of \<open>Run\<close>. When the calls of every event processed are admissible, \<open>Run\<close> on the
  default scheduler either uses up its fuel or returns: it never trips an assertion (the time
  order check of \<open>ProcessOneEvent\<close>, the final check that no event was lost) and never
  dereferences a missing implementation. A run that returns is an execution whose events were
  processed in strict order, and it stopped because it was finished.
\<close>

theorem run_safe:
  assumes "map_inv st" and "sim_eventsWithContext st = []"
    and "admissible_run cb MapScheduler_ops map_evs n (st\<lparr>sim_stop := False\<rparr>)"
  shows "Simulator_Run cb MapScheduler_ops n st = Inl NoFuel \<or>
    (\<exists>es st'. Simulator_Run cb MapScheduler_ops n st = Inr st' \<and>
       sim_trace cb MapScheduler_ops map_evs (st\<lparr>sim_stop := False\<rparr>) es st' \<and>
       map_inv st' \<and> Simulator_IsFinished MapScheduler_ops st' \<and> sorted_wrt (<) (map rank es))"
  using map_sim.run_inv [OF assms] .

theorem run_safe_witness:
  "Simulator_Run quiet MapScheduler_ops 1 demo_state = Inl NoFuel \<or>
    (\<exists>es st'. Simulator_Run quiet MapScheduler_ops 1 demo_state = Inr st' \<and>
       sim_trace quiet MapScheduler_ops map_evs (demo_state\<lparr>sim_stop := False\<rparr>) es st' \<and>
       map_inv st' \<and> Simulator_IsFinished MapScheduler_ops st' \<and> sorted_wrt (<) (map rank es))"
proof (rule run_safe [OF demo_inv])
  have "demo_state\<lparr>sim_stop := False\<rparr> = demo_state" by (simp add: demo_defs)
  then show "admissible_run quiet MapScheduler_ops map_evs 1 (demo_state\<lparr>sim_stop := False\<rparr>)"
    using demo_admissible demo_step by simp
qed (simp add: demo_defs)

text \<open>
  C4. Termination of \<open>Run\<close>. When the bound functions make no call of the simulator, as much fuel as
  there are pending events is enough: \<open>Run\<close> returns, the simulation is finished and the
  invariant holds.
\<close>

theorem run_terminates:
  assumes "map_inv st" and "sim_eventsWithContext st = []" and "silent cb"
    and "length (map_events (sim_events st)) \<le> n"
  shows "\<exists>st'. Simulator_Run cb MapScheduler_ops n st = Inr st' \<and> map_inv st' \<and>
    Simulator_IsFinished MapScheduler_ops st'"
  using map_sim.quiet_run [OF assms(1-3)] assms(4) by simp

theorem run_terminates_witness:
  "\<exists>st'. Simulator_Run quiet MapScheduler_ops 1 demo_state = Inr st' \<and> map_inv st' \<and>
    Simulator_IsFinished MapScheduler_ops st'"
  by (rule run_terminates [OF demo_inv]) (simp_all add: demo_defs silent_def map_events_def)

text \<open>
  What \<open>Schedule\<close> promises. For a delay that stays within the representable times,
  \<open>Schedule\<close> returns the id of an event that is pending: it is not expired, the delay left is
  the delay asked for, the queue holds exactly one event more, which is the event of that id,
  and the invariant is kept.
\<close>

theorem schedule_returns_live_id:
  assumes "map_inv st" and "unat (sim_uid st) + 1 < 2 ^ 32"
    and "sim_impls st p = Some f" and "\<not> m_cancel f" and "delay_ok st d"
  shows "\<exists>i st'. Simulator_Schedule MapScheduler_ops True d p st = Inr (i, st') \<and> map_inv st' \<and>
    \<not> Simulator_IsExpired st' i \<and> Simulator_GetDelayLeft st' i = d \<and> genuine map_evs st' i \<and>
    map_evs (sim_events st') = add_mset (event_of i) (map_evs (sim_events st))"
  using map_sim.schedule_live [OF assms] .

theorem schedule_returns_live_id_witness:
  "\<exists>i st'. Simulator_Schedule MapScheduler_ops True 7 1 demo_state = Inr (i, st') \<and> map_inv st' \<and>
    \<not> Simulator_IsExpired st' i \<and> Simulator_GetDelayLeft st' i = 7 \<and> genuine map_evs st' i \<and>
    map_evs (sim_events st') = add_mset (event_of i) (map_evs (sim_events demo_state))"
  by (rule schedule_returns_live_id [OF demo_inv, of _ "\<lparr>m_cancel = False, bound = User ()\<rparr>"])
     (simp_all add: demo_defs delay_ok_def)

text \<open>
  C5. What \<open>Remove\<close> promises. Removing an id the simulator handed out always returns; the id is
  expired afterwards; the event of that id and no other leaves the queue, and nothing leaves it
  when the id had already expired; ids handed out before stay usable.
\<close>

theorem remove_expires_and_erases:
  assumes "map_inv st" and "genuine map_evs st i" and "id_uid i \<noteq> UID_DESTROY"
  shows "\<exists>st'. Simulator_Remove MapScheduler_ops i st = Inr st' \<and> map_inv st' \<and>
    Simulator_IsExpired st' i \<and> (\<forall>j. genuine map_evs st j \<longrightarrow> genuine map_evs st' j) \<and>
    map_evs (sim_events st') =
      (if Simulator_IsExpired st i then map_evs (sim_events st)
       else map_evs (sim_events st) - {#event_of i#})"
  using map_sim.remove_inv [OF assms(1,2)] assms(3) unfolding keeps_def by blast

definition demo_id :: event_id where
  "demo_id = \<lparr>id_eventImpl = 1, id_ts = 5, id_context = NO_CONTEXT, id_uid = 4\<rparr>"

lemma demo_genuine: "genuine map_evs demo_state demo_id"
  by (simp add: genuine_def demo_id_def demo_defs event_of_def map_events_def)

theorem remove_expires_and_erases_witness:
  "\<exists>st'. Simulator_Remove MapScheduler_ops demo_id demo_state = Inr st' \<and> map_inv st' \<and>
    Simulator_IsExpired st' demo_id \<and>
    (\<forall>j. genuine map_evs demo_state j \<longrightarrow> genuine map_evs st' j) \<and>
    map_evs (sim_events st') =
      (if Simulator_IsExpired demo_state demo_id then map_evs (sim_events demo_state)
       else map_evs (sim_events demo_state) - {#event_of demo_id#})"
  by (rule remove_expires_and_erases [OF demo_inv demo_genuine])
     (simp add: demo_id_def UID_DESTROY_def)

text \<open>
  What \<open>Cancel\<close> promises. Cancelling an id the simulator handed out always returns; the id is
  expired afterwards, but the queue is untouched: the event is still taken at its time, and
  then does nothing.
\<close>

theorem cancel_expires_and_keeps_queue:
  assumes "map_inv st" and "genuine map_evs st i"
  shows "\<exists>st'. Simulator_Cancel i st = Inr st' \<and> map_inv st' \<and> Simulator_IsExpired st' i \<and>
    sim_events st' = sim_events st \<and>
    (\<not> Simulator_IsExpired st i \<longrightarrow>
      (\<forall>cb. EventImpl_Invoke cb MapScheduler_ops (id_eventImpl i) st' = Inr st'))"
proof -
  from map_sim.cancel_inv [OF assms] obtain st' where
    st': "Simulator_Cancel i st = Inr st'" "map_inv st'" "Simulator_IsExpired st' i"
      "sim_events st' = sim_events st" by blast
  moreover have "EventImpl_Invoke cb MapScheduler_ops (id_eventImpl i) st' = Inr st'"
    if "\<not> Simulator_IsExpired st i" for cb
    using that st'(1) by (auto simp: Simulator_Cancel_def EventImpl_Cancel_def EventImpl_Invoke_def
        split: option.splits)
  ultimately show ?thesis by blast
qed

theorem cancel_expires_and_keeps_queue_witness:
  "\<exists>st'. Simulator_Cancel demo_id demo_state = Inr st' \<and> map_inv st' \<and>
    Simulator_IsExpired st' demo_id \<and> sim_events st' = sim_events demo_state \<and>
    (\<not> Simulator_IsExpired demo_state demo_id \<longrightarrow>
      (\<forall>cb. EventImpl_Invoke cb MapScheduler_ops (id_eventImpl demo_id) st' = Inr st'))"
  by (rule cancel_expires_and_keeps_queue [OF demo_inv demo_genuine])

text \<open>
  C6. Schedulers agree. Whatever events with distinct ids are inserted, in whatever order, the
  binary heap and the ordered map deliver the same sequence: all of them, sorted by time stamp
  and then by id.
\<close>

theorem heap_and_map_deliver_the_same:
  assumes "distinct (map ev_uid es)"
  shows "\<exists>h m out. fold_res HeapScheduler_Insert es HeapScheduler_new = Inr h \<and>
    fold_res MapScheduler_Insert es MapScheduler_new = Inr m \<and>
    drain HeapScheduler_ops (length es) h = Inr out \<and>
    drain MapScheduler_ops (length es) m = Inr out \<and>
    mset out = mset es \<and> sorted (map rank out)"
proof -
  from heap_to_map.same_delivery [OF assms] map_sched.insert_all_drain [OF assms]
  show ?thesis unfolding HeapScheduler_ops_def MapScheduler_ops_def by auto
qed

definition demo_events :: "event list" where
  "demo_events = map (\<lambda>t. \<lparr>impl = 1, key = EventKey (of_nat t) (of_nat t + 4) 0\<rparr>) [4, 6, 5, 7, 1, 2, 3]"

lemma demo_events_distinct: "distinct (map ev_uid demo_events)"
  by (simp add: demo_events_def)

theorem heap_and_map_deliver_the_same_witness:
  "\<exists>h m out. fold_res HeapScheduler_Insert demo_events HeapScheduler_new = Inr h \<and>
    fold_res MapScheduler_Insert demo_events MapScheduler_new = Inr m \<and>
    drain HeapScheduler_ops (length demo_events) h = Inr out \<and>
    drain MapScheduler_ops (length demo_events) m = Inr out \<and>
    mset out = mset demo_events \<and> sorted (map rank out)"
  by (rule heap_and_map_deliver_the_same [OF demo_events_distinct])

text \<open>
  Changing the scheduler loses nothing: the loop of \<open>SetScheduler\<close> from a heap to a map
  returns with as much fuel as there are events and the new scheduler holds exactly the events
  of both.
\<close>

theorem set_scheduler_keeps_events:
  assumes "HeapScheduler_valid h" and "MapScheduler_valid m"
    and "uniq_uids (heap_events h + map_evs m)" and "size (heap_events h) \<le> n"
  shows "\<exists>m'. Simulator_SetScheduler HeapScheduler_ops MapScheduler_ops n h m = Inr m' \<and>
    MapScheduler_valid m' \<and> map_evs m' = heap_events h + map_evs m"
  using heap_to_map.set_scheduler [OF assms] .

theorem set_scheduler_keeps_events_witness:
  "\<exists>h. fold_res HeapScheduler_Insert demo_events HeapScheduler_new = Inr h \<and>
    (\<exists>m'. Simulator_SetScheduler HeapScheduler_ops MapScheduler_ops 7 h MapScheduler_new = Inr m' \<and>
      MapScheduler_valid m' \<and> map_evs m' = heap_events h + map_evs MapScheduler_new)"
proof -
  have u: "uniq_uids (heap_events (op_new HeapScheduler_ops) + mset demo_events)"
    using demo_events_distinct by (simp add: heap_sched.new_evs uniq_uids_mset)
  from heap_sched.insert_all [OF heap_sched.new_valid u] obtain h where
    h: "fold_res HeapScheduler_Insert demo_events HeapScheduler_new = Inr h"
      "HeapScheduler_valid h" "heap_events h = mset demo_events"
    unfolding HeapScheduler_ops_def by (auto simp: heap_events_def HeapScheduler_new_def)
  have n: "MapScheduler_valid MapScheduler_new" "map_evs MapScheduler_new = {#}"
    using map_sched.new_valid map_sched.new_evs by (simp_all add: MapScheduler_ops_def)
  have "uniq_uids (heap_events h + map_evs MapScheduler_new)"
    unfolding h(3) n(2) using demo_events_distinct by (simp add: uniq_uids_mset)
  moreover have "size (heap_events h) \<le> 7" unfolding h(3) by (simp add: demo_events_def)
  ultimately show ?thesis using set_scheduler_keeps_events [OF h(2) n(1)] h(1) by blast
qed

text \<open>
  A defect of the binary heap. \<open>HeapScheduler::Remove\<close> puts the last event in the freed slot
  and only moves it down. When that event is earlier than the parent of the slot the heap is
  out of order: after inserting time stamps 4, 6, 5, 7, 1, 2, 3 and removing the event of time 7,
  the event of time 4 is delivered before the event of time 3.
\<close>

theorem heap_remove_breaks_order:
  "bind_res (fold_res HeapScheduler_Insert demo_events HeapScheduler_new) (\<lambda>h.
   bind_res (HeapScheduler_Remove (demo_events ! 3) h) (\<lambda>h'.
   bind_res (drain HeapScheduler_ops 6 h') (\<lambda>out. Inr (map ev_ts out)))) = Inr [1, 2, 4, 3, 5, 6]"
  by code_simp

text \<open>
  What \<open>HeapScheduler::Remove\<close> does guarantee. It removes exactly the event asked for,
  whatever the heap; and the heap stays in order when the last event is not earlier than the
  parent of the freed slot.
\<close>

theorem heap_remove_guarantee:
  assumes "HeapScheduler_valid h" and "1 \<le> j" and "j < length h"
  shows "\<exists>h'. HeapScheduler_Remove (h ! j) h = Inr h' \<and>
    heap_events h = add_mset (h ! j) (heap_events h') \<and>
    ((2 \<le> j \<longrightarrow> rank (h ! (j div 2)) \<le> rank (last h)) \<longrightarrow> HeapScheduler_valid h')"
proof (cases "2 \<le> j \<longrightarrow> rank (h ! (j div 2)) \<le> rank (last h)")
  case True
  with HeapScheduler_Remove_ordered [OF assms] show ?thesis by auto
next
  case False
  have "h ! j \<in># heap_events h" using assms(2,3) by (auto simp: heap_events_nth)
  from HeapScheduler_Remove_events [OF assms(1) this] False show ?thesis by auto
qed

definition demo_heap :: "event list" where
  "demo_heap = HeapScheduler_new @ [demo_event]"

theorem heap_remove_guarantee_witness:
  "\<exists>h'. HeapScheduler_Remove (demo_heap ! 1) demo_heap = Inr h' \<and>
    heap_events demo_heap = add_mset (demo_heap ! 1) (heap_events h') \<and>
    ((2 \<le> (1 :: nat) \<longrightarrow> rank (demo_heap ! (1 div 2)) \<le> rank (last demo_heap)) \<longrightarrow> HeapScheduler_valid h')"
  by (rule heap_remove_guarantee)
     (simp_all add: demo_heap_def HeapScheduler_new_def HeapScheduler_valid_def heap_ordered_def
       heap_events_def uniq_uids_def)

end
