(* ===== verification/Packet_Queue.thy ===== *)
theory Packet_Queue
  imports Ns3_Prelude
begin

text \<open>
  \<open>src/network/utils/queue-size.{h,cc}\<close>, \<open>queue.{h,cc}\<close> and \<open>drop-tail-queue.h\<close>: the transmit
  queue of a device, its limit and its statistics. The item type of the template is the type
  variable \<open>'i\<close> and its \<open>GetSize\<close> the first argument of the operations that use it. The
  contract a device relies on is the locale \<open>fifo_queue\<close>, interpreted on the drop-tail queue.
\<close>

section \<open>Queue sizes\<close>

datatype QueueSizeUnit = PACKETS | BYTES

record queue_size =
  qs_unit :: QueueSizeUnit
  qs_value :: u32

definition QueueSize_new :: "QueueSizeUnit \<Rightarrow> u32 \<Rightarrow> queue_size" where
  "QueueSize_new u v = \<lparr>qs_unit = u, qs_value = v\<rparr>"

text \<open>Comparing sizes of different units aborts the program.\<close>

definition same_unit :: "queue_size \<Rightarrow> queue_size \<Rightarrow> 'a \<Rightarrow> 'a res" where
  "same_unit a b r = (if qs_unit a \<noteq> qs_unit b then Inl Fatal else Inr r)"

definition QueueSize_less :: "queue_size \<Rightarrow> queue_size \<Rightarrow> bool res" where
  "QueueSize_less a b = same_unit a b (qs_value a < qs_value b)"

definition QueueSize_le :: "queue_size \<Rightarrow> queue_size \<Rightarrow> bool res" where
  "QueueSize_le a b = same_unit a b (qs_value a \<le> qs_value b)"

definition QueueSize_greater :: "queue_size \<Rightarrow> queue_size \<Rightarrow> bool res" where
  "QueueSize_greater a b = same_unit a b (qs_value a > qs_value b)"

definition QueueSize_ge :: "queue_size \<Rightarrow> queue_size \<Rightarrow> bool res" where
  "QueueSize_ge a b = same_unit a b (qs_value a \<ge> qs_value b)"

definition QueueSize_eq :: "queue_size \<Rightarrow> queue_size \<Rightarrow> bool res" where
  "QueueSize_eq a b = same_unit a b (qs_value a = qs_value b)"

definition QueueSize_neq :: "queue_size \<Rightarrow> queue_size \<Rightarrow> bool res" where
  "QueueSize_neq a b = same_unit a b (qs_value a \<noteq> qs_value b)"

text \<open>\<open>operator +\<close>: the size increased by an item of \<open>n\<close> bytes; 32-bit addition wraps.\<close>

definition QueueSize_plus :: "queue_size \<Rightarrow> u32 \<Rightarrow> queue_size" where
  "QueueSize_plus s n =
     (case qs_unit s of
        PACKETS \<Rightarrow> QueueSize_new PACKETS (qs_value s + 1)
      | BYTES \<Rightarrow> QueueSize_new BYTES (qs_value s + n))"

section \<open>The queue\<close>

text \<open>
  The fields of \<open>QueueBase\<close> and \<open>Queue\<close>. \<open>q_trace\<close> records the trace sources fired, in order.
  Items are not null: \<open>DoEnqueue\<close> dereferences the item, so a stored pointer never is.
\<close>

datatype 'i queue_trace =
    TraceEnqueue 'i
  | TraceDequeue 'i
  | TraceDrop 'i
  | TraceDropBeforeEnqueue 'i
  | TraceDropAfterDequeue 'i

record 'i queue =
  m_packets :: "'i list"
  m_nBytes :: u32
  m_nTotalReceivedBytes :: u32
  m_nPackets :: u32
  m_nTotalReceivedPackets :: u32
  m_nTotalDroppedBytes :: u32
  m_nTotalDroppedBytesBeforeEnqueue :: u32
  m_nTotalDroppedBytesAfterDequeue :: u32
  m_nTotalDroppedPackets :: u32
  m_nTotalDroppedPacketsBeforeEnqueue :: u32
  m_nTotalDroppedPacketsAfterDequeue :: u32
  m_maxSize :: queue_size
  q_trace :: "'i queue_trace list"

definition QueueBase_new :: "'i queue" where
  "QueueBase_new =
     \<lparr>m_packets = [], m_nBytes = 0, m_nTotalReceivedBytes = 0, m_nPackets = 0,
      m_nTotalReceivedPackets = 0, m_nTotalDroppedBytes = 0, m_nTotalDroppedBytesBeforeEnqueue = 0,
      m_nTotalDroppedBytesAfterDequeue = 0, m_nTotalDroppedPackets = 0,
      m_nTotalDroppedPacketsBeforeEnqueue = 0, m_nTotalDroppedPacketsAfterDequeue = 0,
      m_maxSize = QueueSize_new PACKETS 0xffffffff, q_trace = []\<rparr>"

definition QueueBase_IsEmpty :: "'i queue \<Rightarrow> bool" where
  "QueueBase_IsEmpty q \<longleftrightarrow> m_nPackets q = 0"

definition QueueBase_GetNPackets :: "'i queue \<Rightarrow> u32" where
  "QueueBase_GetNPackets q = m_nPackets q"

definition QueueBase_GetNBytes :: "'i queue \<Rightarrow> u32" where
  "QueueBase_GetNBytes q = m_nBytes q"

definition QueueBase_GetCurrentSize :: "'i queue \<Rightarrow> queue_size" where
  "QueueBase_GetCurrentSize q =
     (case qs_unit (m_maxSize q) of
        PACKETS \<Rightarrow> QueueSize_new PACKETS (m_nPackets q)
      | BYTES \<Rightarrow> QueueSize_new BYTES (m_nBytes q))"

definition QueueBase_GetTotalDroppedBytes :: "'i queue \<Rightarrow> u32" where
  "QueueBase_GetTotalDroppedBytes q = m_nTotalDroppedBytes q"

definition QueueBase_GetTotalDroppedBytesBeforeEnqueue :: "'i queue \<Rightarrow> u32" where
  "QueueBase_GetTotalDroppedBytesBeforeEnqueue q = m_nTotalDroppedBytesBeforeEnqueue q"

definition QueueBase_GetTotalDroppedBytesAfterDequeue :: "'i queue \<Rightarrow> u32" where
  "QueueBase_GetTotalDroppedBytesAfterDequeue q = m_nTotalDroppedBytesAfterDequeue q"

definition QueueBase_GetTotalReceivedBytes :: "'i queue \<Rightarrow> u32" where
  "QueueBase_GetTotalReceivedBytes q = m_nTotalReceivedBytes q"

definition QueueBase_GetTotalReceivedPackets :: "'i queue \<Rightarrow> u32" where
  "QueueBase_GetTotalReceivedPackets q = m_nTotalReceivedPackets q"

definition QueueBase_GetTotalDroppedPackets :: "'i queue \<Rightarrow> u32" where
  "QueueBase_GetTotalDroppedPackets q = m_nTotalDroppedPackets q"

definition QueueBase_GetTotalDroppedPacketsBeforeEnqueue :: "'i queue \<Rightarrow> u32" where
  "QueueBase_GetTotalDroppedPacketsBeforeEnqueue q = m_nTotalDroppedPacketsBeforeEnqueue q"

definition QueueBase_GetTotalDroppedPacketsAfterDequeue :: "'i queue \<Rightarrow> u32" where
  "QueueBase_GetTotalDroppedPacketsAfterDequeue q = m_nTotalDroppedPacketsAfterDequeue q"

text \<open>\<open>back ()\<close> of an empty string is undefined.\<close>

definition QueueBase_AppendItemTypeIfNotPresent :: "string \<Rightarrow> string \<Rightarrow> string res" where
  "QueueBase_AppendItemTypeIfNotPresent typeId itemType =
     defined_if (typeId \<noteq> [])
       (Inr (if last typeId \<noteq> CHR ''>'' then typeId @ ''<'' @ itemType @ ''>'' else typeId))"

definition QueueBase_ResetStatistics :: "'i queue \<Rightarrow> 'i queue" where
  "QueueBase_ResetStatistics q =
     q\<lparr>m_nTotalReceivedBytes := 0, m_nTotalReceivedPackets := 0, m_nTotalDroppedBytes := 0,
       m_nTotalDroppedBytesBeforeEnqueue := 0, m_nTotalDroppedBytesAfterDequeue := 0,
       m_nTotalDroppedPackets := 0, m_nTotalDroppedPacketsBeforeEnqueue := 0,
       m_nTotalDroppedPacketsAfterDequeue := 0\<rparr>"

text \<open>The reset the load balancer uses between two of its steps.\<close>

definition QueueBase_resetStats :: "'i queue \<Rightarrow> 'i queue" where
  "QueueBase_resetStats q = q\<lparr>m_nTotalDroppedBytesBeforeEnqueue := 0\<rparr>"

definition QueueBase_SetMaxSize :: "queue_size \<Rightarrow> 'i queue \<Rightarrow> 'i queue res" where
  "QueueBase_SetMaxSize mx q =
     (if qs_value mx = 0 then Inr q
      else let q1 = q\<lparr>m_maxSize := mx\<rparr> in
           bind_res (QueueSize_less mx (QueueBase_GetCurrentSize q1)) (\<lambda>less.
             if less then Inl Fatal else Inr q1))"

definition QueueBase_GetMaxSize :: "'i queue \<Rightarrow> queue_size" where
  "QueueBase_GetMaxSize q = m_maxSize q"

definition QueueBase_WouldOverflow :: "u32 \<Rightarrow> u32 \<Rightarrow> 'i queue \<Rightarrow> bool" where
  "QueueBase_WouldOverflow nPackets nBytes q =
     (if qs_unit (m_maxSize q) = PACKETS then m_nPackets q + nPackets > qs_value (m_maxSize q)
      else m_nBytes q + nBytes > qs_value (m_maxSize q))"

definition Queue_DropBeforeEnqueue :: "('i \<Rightarrow> u32) \<Rightarrow> 'i \<Rightarrow> 'i queue \<Rightarrow> 'i queue" where
  "Queue_DropBeforeEnqueue sz item q =
     q\<lparr>m_nTotalDroppedPackets := m_nTotalDroppedPackets q + 1,
       m_nTotalDroppedPacketsBeforeEnqueue := m_nTotalDroppedPacketsBeforeEnqueue q + 1,
       m_nTotalDroppedBytes := m_nTotalDroppedBytes q + sz item,
       m_nTotalDroppedBytesBeforeEnqueue := m_nTotalDroppedBytesBeforeEnqueue q + sz item,
       q_trace := q_trace q @ [TraceDrop item, TraceDropBeforeEnqueue item]\<rparr>"

definition Queue_DropAfterDequeue :: "('i \<Rightarrow> u32) \<Rightarrow> 'i \<Rightarrow> 'i queue \<Rightarrow> 'i queue" where
  "Queue_DropAfterDequeue sz item q =
     q\<lparr>m_nTotalDroppedPackets := m_nTotalDroppedPackets q + 1,
       m_nTotalDroppedPacketsAfterDequeue := m_nTotalDroppedPacketsAfterDequeue q + 1,
       m_nTotalDroppedBytes := m_nTotalDroppedBytes q + sz item,
       m_nTotalDroppedBytesAfterDequeue := m_nTotalDroppedBytesAfterDequeue q + sz item,
       q_trace := q_trace q @ [TraceDrop item, TraceDropAfterDequeue item]\<rparr>"

text \<open>
  Iterators are positions; inserting past the end, or reading at the end, is undefined.
\<close>

definition Queue_DoEnqueue :: "('i \<Rightarrow> u32) \<Rightarrow> nat \<Rightarrow> 'i \<Rightarrow> 'i queue \<Rightarrow> (bool \<times> 'i queue) res" where
  "Queue_DoEnqueue sz pos item q =
     bind_res (QueueSize_greater (QueueSize_plus (QueueBase_GetCurrentSize q) (sz item))
                 (QueueBase_GetMaxSize q)) (\<lambda>full.
       if full then Inr (False, Queue_DropBeforeEnqueue sz item q)
       else defined_if (pos \<le> length (m_packets q))
         (Inr (True,
            q\<lparr>m_packets := take pos (m_packets q) @ [item] @ drop pos (m_packets q),
              m_nBytes := m_nBytes q + sz item,
              m_nTotalReceivedBytes := m_nTotalReceivedBytes q + sz item,
              m_nPackets := m_nPackets q + 1,
              m_nTotalReceivedPackets := m_nTotalReceivedPackets q + 1,
              q_trace := q_trace q @ [TraceEnqueue item]\<rparr>)))"

text \<open>What \<open>DoDequeue\<close> and \<open>DoRemove\<close> have in common: taking the item at a position.\<close>

definition Queue_take :: "('i \<Rightarrow> u32) \<Rightarrow> nat \<Rightarrow> 'i queue \<Rightarrow> ('i \<times> 'i queue) res" where
  "Queue_take sz pos q =
     defined_if (pos < length (m_packets q))
       (let item = m_packets q ! pos in
        ns_assert (m_nBytes q \<ge> sz item)
          (ns_assert (m_nPackets q > 0)
            (Inr (item,
               q\<lparr>m_packets := take pos (m_packets q) @ drop (Suc pos) (m_packets q),
                 m_nBytes := m_nBytes q - sz item,
                 m_nPackets := m_nPackets q - 1,
                 q_trace := q_trace q @ [TraceDequeue item]\<rparr>))))"

definition Queue_DoDequeue :: "('i \<Rightarrow> u32) \<Rightarrow> nat \<Rightarrow> 'i queue \<Rightarrow> ('i option \<times> 'i queue) res" where
  "Queue_DoDequeue sz pos q =
     (if m_nPackets q = 0 then Inr (None, q)
      else bind_res (Queue_take sz pos q) (\<lambda>(item, q1). Inr (Some item, q1)))"

definition Queue_DoRemove :: "('i \<Rightarrow> u32) \<Rightarrow> nat \<Rightarrow> 'i queue \<Rightarrow> ('i option \<times> 'i queue) res" where
  "Queue_DoRemove sz pos q =
     (if m_nPackets q = 0 then Inr (None, q)
      else bind_res (Queue_take sz pos q) (\<lambda>(item, q1).
             Inr (Some item, Queue_DropAfterDequeue sz item q1)))"

definition Queue_DoPeek :: "nat \<Rightarrow> 'i queue \<Rightarrow> 'i option res" where
  "Queue_DoPeek pos q =
     (if m_nPackets q = 0 then Inr None
      else defined_if (pos < length (m_packets q)) (Inr (Some (m_packets q ! pos))))"

definition Queue_DoDispose :: "'i queue \<Rightarrow> 'i queue" where
  "Queue_DoDispose q = q\<lparr>m_packets := []\<rparr>"

section \<open>The drop-tail queue\<close>

text \<open>\<open>begin ()\<close> is position 0 and \<open>end ()\<close> the length of the list.\<close>

definition DropTailQueue_Enqueue :: "('i \<Rightarrow> u32) \<Rightarrow> 'i \<Rightarrow> 'i queue \<Rightarrow> (bool \<times> 'i queue) res" where
  "DropTailQueue_Enqueue sz item q = Queue_DoEnqueue sz (length (m_packets q)) item q"

definition DropTailQueue_Dequeue :: "('i \<Rightarrow> u32) \<Rightarrow> 'i queue \<Rightarrow> ('i option \<times> 'i queue) res" where
  "DropTailQueue_Dequeue sz q = Queue_DoDequeue sz 0 q"

definition DropTailQueue_Remove :: "('i \<Rightarrow> u32) \<Rightarrow> 'i queue \<Rightarrow> ('i option \<times> 'i queue) res" where
  "DropTailQueue_Remove sz q = Queue_DoRemove sz 0 q"

definition DropTailQueue_Peek :: "'i queue \<Rightarrow> 'i option res" where
  "DropTailQueue_Peek q = Queue_DoPeek 0 q"

text \<open>The attribute \<open>MaxSize\<close> starts at 100 packets.\<close>

definition DropTailQueue_new :: "'i queue" where
  "DropTailQueue_new = QueueBase_new\<lparr>m_maxSize := QueueSize_new PACKETS 100\<rparr>"

text \<open>\<open>Flush\<close>, with fuel for the number of packets; \<open>Remove\<close> is the drop-tail queue's.\<close>

fun Queue_Flush :: "('i \<Rightarrow> u32) \<Rightarrow> nat \<Rightarrow> 'i queue \<Rightarrow> 'i queue res" where
  "Queue_Flush sz 0 q = (if QueueBase_IsEmpty q then Inr q else Inl NoFuel)"
| "Queue_Flush sz (Suc n) q =
     (if QueueBase_IsEmpty q then Inr q
      else bind_res (DropTailQueue_Remove sz q) (\<lambda>(item, q1). Queue_Flush sz n q1))"

section \<open>Invariants\<close>

text \<open>The counters describe the list.\<close>

definition total_bytes :: "('i \<Rightarrow> u32) \<Rightarrow> 'i list \<Rightarrow> nat" where
  "total_bytes sz ps = sum_list (map (\<lambda>p. unat (sz p)) ps)"

definition queue_counts :: "('i \<Rightarrow> u32) \<Rightarrow> 'i queue \<Rightarrow> bool" where
  "queue_counts sz q \<longleftrightarrow>
     unat (m_nPackets q) = length (m_packets q) \<and> unat (m_nBytes q) = total_bytes sz (m_packets q)"

text \<open>The limit is respected.\<close>

definition queue_within :: "'i queue \<Rightarrow> bool" where
  "queue_within q \<longleftrightarrow> QueueSize_le (QueueBase_GetCurrentSize q) (m_maxSize q) = Inr True"

text \<open>Drops are accounted for by their cause, in wrapping 32-bit arithmetic.\<close>

definition drops_add_up :: "'i queue \<Rightarrow> bool" where
  "drops_add_up q \<longleftrightarrow>
     m_nTotalDroppedBytes q = m_nTotalDroppedBytesBeforeEnqueue q + m_nTotalDroppedBytesAfterDequeue q \<and>
     m_nTotalDroppedPackets q =
       m_nTotalDroppedPacketsBeforeEnqueue q + m_nTotalDroppedPacketsAfterDequeue q"

text \<open>An item fits when the 32-bit counters have room for it.\<close>

definition room_for :: "('i \<Rightarrow> u32) \<Rightarrow> 'i \<Rightarrow> 'i queue \<Rightarrow> bool" where
  "room_for sz item q \<longleftrightarrow>
     unat (m_nPackets q) + 1 < 2 ^ 32 \<and> unat (m_nBytes q) + unat (sz item) < 2 ^ 32"

text \<open>The admission test as arithmetic on the contents.\<close>

definition admits :: "('i \<Rightarrow> u32) \<Rightarrow> 'i \<Rightarrow> 'i queue \<Rightarrow> bool" where
  "admits sz item q =
     (case qs_unit (m_maxSize q) of
        PACKETS \<Rightarrow> length (m_packets q) < unat (qs_value (m_maxSize q))
      | BYTES \<Rightarrow> total_bytes sz (m_packets q) + unat (sz item) \<le> unat (qs_value (m_maxSize q)))"

text \<open>
  What the statistics say of an item that was offered: it is received, or it is one more packet, with its
  bytes, that was dropped before it was enqueued; and the trace sources that tell the world so.
\<close>

definition enqueue_counted :: "bool \<Rightarrow> ('i \<Rightarrow> u32) \<Rightarrow> 'i \<Rightarrow> 'i queue \<Rightarrow> 'i queue \<Rightarrow> bool" where
  "enqueue_counted accepted sz item q q' \<longleftrightarrow>
     m_nTotalReceivedPackets q' = m_nTotalReceivedPackets q + (if accepted then 1 else 0) \<and>
     m_nTotalReceivedBytes q' = m_nTotalReceivedBytes q + (if accepted then sz item else 0) \<and>
     m_nTotalDroppedPackets q' = m_nTotalDroppedPackets q + (if accepted then 0 else 1) \<and>
     m_nTotalDroppedPacketsBeforeEnqueue q' = m_nTotalDroppedPacketsBeforeEnqueue q + (if accepted then 0 else 1) \<and>
     m_nTotalDroppedPacketsAfterDequeue q' = m_nTotalDroppedPacketsAfterDequeue q \<and>
     m_nTotalDroppedBytes q' = m_nTotalDroppedBytes q + (if accepted then 0 else sz item) \<and>
     m_nTotalDroppedBytesBeforeEnqueue q' = m_nTotalDroppedBytesBeforeEnqueue q + (if accepted then 0 else sz item) \<and>
     m_nTotalDroppedBytesAfterDequeue q' = m_nTotalDroppedBytesAfterDequeue q \<and>
     q_trace q' = q_trace q @ (if accepted then [TraceEnqueue item] else [TraceDrop item, TraceDropBeforeEnqueue item])"

lemmas queue_size_defs = QueueSize_plus_def QueueSize_new_def QueueSize_less_def QueueSize_le_def
  QueueSize_greater_def same_unit_def QueueBase_GetCurrentSize_def QueueBase_GetMaxSize_def

lemma total_bytes_simps [simp]:
  "total_bytes sz [] = 0" "total_bytes sz (p # ps) = unat (sz p) + total_bytes sz ps"
  "total_bytes sz (ps @ qs) = total_bytes sz ps + total_bytes sz qs"
  by (simp_all add: total_bytes_def)

lemma enqueue_admitted:
  assumes c: "queue_counts sz q" and r: "room_for sz item q"
  shows "QueueSize_greater (QueueSize_plus (QueueBase_GetCurrentSize q) (sz item))
           (QueueBase_GetMaxSize q) = Inr (\<not> admits sz item q)"
proof -
  have p: "unat (m_nPackets q + 1) = unat (m_nPackets q) + 1"
    using r by (intro unat_inc_nowrap) (simp add: room_for_def)
  have b: "unat (m_nBytes q + sz item) = unat (m_nBytes q) + unat (sz item)"
    using r by (intro unat_add_nowrap) (simp add: room_for_def)
  show ?thesis
    using c p b
    by (cases "qs_unit (m_maxSize q)")
       (auto simp: queue_size_defs admits_def queue_counts_def word_less_nat_alt)
qed

text \<open>A drop changes only the statistics.\<close>

lemma drop_before_keeps [simp]:
  "m_packets (Queue_DropBeforeEnqueue sz p q) = m_packets q"
  "m_maxSize (Queue_DropBeforeEnqueue sz p q) = m_maxSize q"
  "queue_counts sz' (Queue_DropBeforeEnqueue sz p q) = queue_counts sz' q"
  "queue_within (Queue_DropBeforeEnqueue sz p q) = queue_within q"
  "drops_add_up q \<Longrightarrow> drops_add_up (Queue_DropBeforeEnqueue sz p q)"
  by (simp_all add: Queue_DropBeforeEnqueue_def queue_counts_def drops_add_up_def
      queue_within_def QueueBase_GetCurrentSize_def cong: QueueSizeUnit.case_cong)

text \<open>Enqueuing, on both branches.\<close>

lemma DropTailQueue_Enqueue_correct:
  assumes c: "queue_counts sz q" and r: "room_for sz item q"
  shows "\<exists>q'. DropTailQueue_Enqueue sz item q = Inr (admits sz item q, q') \<and> queue_counts sz q' \<and>
    m_packets q' = (if admits sz item q then m_packets q @ [item] else m_packets q) \<and>
    m_maxSize q' = m_maxSize q \<and> (queue_within q \<longrightarrow> queue_within q') \<and>
    (drops_add_up q \<longrightarrow> drops_add_up q') \<and> enqueue_counted (admits sz item q) sz item q q'"
proof -
  have p: "unat (m_nPackets q + 1) = unat (m_nPackets q) + 1"
    using r by (intro unat_inc_nowrap) (simp add: room_for_def)
  have b: "unat (m_nBytes q + sz item) = unat (m_nBytes q) + unat (sz item)"
    using r by (intro unat_add_nowrap) (simp add: room_for_def)
  have w: "m_nPackets q + 1 \<le> qs_value (m_maxSize q)" if "qs_unit (m_maxSize q) = PACKETS" "admits sz item q"
    using that c p by (simp add: admits_def queue_counts_def word_le_nat_alt)
  have w': "m_nBytes q + sz item \<le> qs_value (m_maxSize q)" if "qs_unit (m_maxSize q) = BYTES" "admits sz item q"
    using that c b by (simp add: admits_def queue_counts_def word_le_nat_alt)
  show ?thesis
  proof (cases "admits sz item q")
    case True
    let ?q = "q\<lparr>m_packets := m_packets q @ [item], m_nBytes := m_nBytes q + sz item,
      m_nTotalReceivedBytes := m_nTotalReceivedBytes q + sz item, m_nPackets := m_nPackets q + 1,
      m_nTotalReceivedPackets := m_nTotalReceivedPackets q + 1,
      q_trace := q_trace q @ [TraceEnqueue item]\<rparr>"
    have "DropTailQueue_Enqueue sz item q = Inr (True, ?q)"
      using True by (simp add: DropTailQueue_Enqueue_def Queue_DoEnqueue_def enqueue_admitted [OF c r]
          defined_if_def)
    moreover have "queue_within ?q"
      using w [OF _ True] w' [OF _ True]
      by (cases "qs_unit (m_maxSize q)") (simp_all add: queue_within_def queue_size_defs)
    moreover have "queue_counts sz ?q" using c p b by (simp add: queue_counts_def)
    ultimately show ?thesis using True by (simp add: drops_add_up_def enqueue_counted_def)
  next
    case False
    let ?q = "Queue_DropBeforeEnqueue sz item q"
    have "DropTailQueue_Enqueue sz item q = Inr (False, ?q)"
      using False by (simp add: DropTailQueue_Enqueue_def Queue_DoEnqueue_def enqueue_admitted [OF c r])
    moreover have "enqueue_counted False sz item q ?q" by (simp add: enqueue_counted_def Queue_DropBeforeEnqueue_def)
    ultimately show ?thesis using False c by simp
  qed
qed

text \<open>Taking the first item; neither assertion of \<open>DoDequeue\<close> can fail.\<close>

lemma Queue_take_first:
  assumes c: "queue_counts sz q" and ps: "m_packets q = p # ps"
  shows "\<exists>q'. Queue_take sz 0 q = Inr (p, q') \<and> queue_counts sz q' \<and> m_packets q' = ps \<and>
    m_maxSize q' = m_maxSize q \<and> (queue_within q \<longrightarrow> queue_within q') \<and>
    (drops_add_up q \<longrightarrow> drops_add_up q')"
proof -
  have n: "unat (m_nPackets q) = Suc (length ps)" "unat (m_nBytes q) = unat (sz p) + total_bytes sz ps"
    using c ps by (simp_all add: queue_counts_def)
  have g: "sz p \<le> m_nBytes q" "0 < m_nPackets q" "1 \<le> m_nPackets q"
    using n by (simp_all add: word_le_nat_alt word_less_nat_alt)
  have d: "unat (m_nPackets q - 1) = length ps" "unat (m_nBytes q - sz p) = total_bytes sz ps"
    using n g by (simp_all add: unat_sub)
  have le: "m_nPackets q - 1 \<le> m_nPackets q" "m_nBytes q - sz p \<le> m_nBytes q"
    using n d by (simp_all add: word_le_nat_alt)
  show ?thesis
    using ps g d le
    by (cases "qs_unit (m_maxSize q)")
       (auto simp: Queue_take_def defined_if_def ns_assert_def queue_counts_def drops_add_up_def
         queue_within_def queue_size_defs Let_def)
qed

lemma counts_empty: "queue_counts sz q \<Longrightarrow> m_nPackets q = 0 \<longleftrightarrow> m_packets q = []"
  by (auto simp: queue_counts_def unat_eq_zero dest: sym)

lemma DropTailQueue_Dequeue_correct:
  assumes c: "queue_counts sz q"
  shows "\<exists>q'. DropTailQueue_Dequeue sz q =
      Inr (case m_packets q of [] \<Rightarrow> None | p # _ \<Rightarrow> Some p, q') \<and>
    queue_counts sz q' \<and> m_packets q' = tl (m_packets q) \<and> m_maxSize q' = m_maxSize q \<and>
    (queue_within q \<longrightarrow> queue_within q') \<and> (drops_add_up q \<longrightarrow> drops_add_up q')"
proof (cases "m_packets q")
  case Nil
  with c show ?thesis by (simp add: DropTailQueue_Dequeue_def Queue_DoDequeue_def counts_empty)
next
  case (Cons p ps)
  with Queue_take_first [OF c Cons] show ?thesis
    by (auto simp: DropTailQueue_Dequeue_def Queue_DoDequeue_def counts_empty [OF c])
qed

lemma DropTailQueue_Remove_correct:
  assumes c: "queue_counts sz q" and ps: "m_packets q = p # ps"
  shows "\<exists>q'. DropTailQueue_Remove sz q = Inr (Some p, q') \<and> queue_counts sz q' \<and>
    m_packets q' = ps \<and> m_maxSize q' = m_maxSize q \<and> (drops_add_up q \<longrightarrow> drops_add_up q')"
  using Queue_take_first [OF assms] counts_empty [OF c] ps
  by (auto simp: DropTailQueue_Remove_def Queue_DoRemove_def Queue_DropAfterDequeue_def
      queue_counts_def drops_add_up_def)

lemma Queue_Flush_correct:
  assumes "queue_counts sz q" "length (m_packets q) \<le> n"
  shows "\<exists>q'. Queue_Flush sz n q = Inr q' \<and> queue_counts sz q' \<and> m_packets q' = [] \<and>
    m_nPackets q' = 0 \<and> m_nBytes q' = 0 \<and> (drops_add_up q \<longrightarrow> drops_add_up q')"
  using assms
proof (induction n arbitrary: q)
  case 0
  then have "m_nPackets q = 0" by (simp add: counts_empty)
  moreover have "m_nBytes q = 0" using 0 by (simp add: queue_counts_def unat_eq_zero)
  ultimately show ?case using 0 by (simp add: QueueBase_IsEmpty_def)
next
  case (Suc n)
  show ?case
  proof (cases "m_packets q")
    case Nil
    with Suc.prems(1) have "m_nPackets q = 0" "m_nBytes q = 0"
      by (simp_all add: queue_counts_def unat_eq_zero)
    with Nil Suc.prems(1) show ?thesis by (simp add: QueueBase_IsEmpty_def)
  next
    case (Cons p ps)
    from DropTailQueue_Remove_correct [OF Suc.prems(1) Cons] obtain q1 where
      q1: "DropTailQueue_Remove sz q = Inr (Some p, q1)" "queue_counts sz q1" "m_packets q1 = ps"
        "drops_add_up q \<longrightarrow> drops_add_up q1" by blast
    have "\<not> QueueBase_IsEmpty q" using Cons Suc.prems(1) by (simp add: QueueBase_IsEmpty_def counts_empty)
    with q1 Suc.IH [of q1] Suc.prems(2) Cons show ?thesis by auto
  qed
qed

section \<open>The contract of a device queue\<close>

text \<open>The operations a device calls.\<close>

record ('q, 'i) queue_ops =
  op_Enqueue :: "'i \<Rightarrow> 'q \<Rightarrow> (bool \<times> 'q) res"
  op_Dequeue :: "'q \<Rightarrow> ('i option \<times> 'q) res"

text \<open>Offering items to a queue, keeping the accepted ones, and emptying it.\<close>

fun offer :: "('q, 'i) queue_ops \<Rightarrow> 'i list \<Rightarrow> 'q \<Rightarrow> ('i list \<times> 'q) res" where
  "offer ops [] q = Inr ([], q)"
| "offer ops (p # ps) q = bind_res (op_Enqueue ops p q) (\<lambda>(b, q1).
     bind_res (offer ops ps q1) (\<lambda>(acc, q2). Inr (if b then p # acc else acc, q2)))"

fun collect :: "('q, 'i) queue_ops \<Rightarrow> nat \<Rightarrow> 'q \<Rightarrow> ('i list \<times> 'q) res" where
  "collect ops 0 q = Inr ([], q)"
| "collect ops (Suc n) q = bind_res (op_Dequeue ops q) (\<lambda>(r, q1). case r of
     None \<Rightarrow> Inr ([], q1)
   | Some p \<Rightarrow> bind_res (collect ops n q1) (\<lambda>(ps, q2). Inr (p # ps, q2)))"

text \<open>
  First in, first out: an accepted item goes to the end, a refused one changes nothing, and
  the first item leaves. \<open>okitem\<close> says which items may be offered.
\<close>

locale fifo_queue =
  fixes ops :: "('q, 'i) queue_ops"
    and qvalid :: "'q \<Rightarrow> bool"
    and items :: "'q \<Rightarrow> 'i list"
    and okitem :: "'i \<Rightarrow> bool"
  assumes enqueue_law: "qvalid q \<Longrightarrow> okitem p \<Longrightarrow>
      \<exists>b q'. op_Enqueue ops p q = Inr (b, q') \<and> qvalid q' \<and>
        items q' = (if b then items q @ [p] else items q)"
    and dequeue_law: "qvalid q \<Longrightarrow>
      \<exists>q'. op_Dequeue ops q = Inr (case items q of [] \<Rightarrow> None | p # _ \<Rightarrow> Some p, q') \<and>
        qvalid q' \<and> items q' = tl (items q)"
    and accepts_when_empty: "qvalid q \<Longrightarrow> okitem p \<Longrightarrow> items q = [] \<Longrightarrow>
      \<exists>q'. op_Enqueue ops p q = Inr (True, q')"
begin

lemma enqueue_Inr:
  assumes "qvalid q" "okitem p" "op_Enqueue ops p q = Inr (b, q')"
  shows "qvalid q'" and "items q' = (if b then items q @ [p] else items q)"
  using enqueue_law [OF assms(1,2)] assms(3) by auto

lemma dequeue_Inr:
  assumes "qvalid q" "op_Dequeue ops q = Inr (r, q')"
  shows "qvalid q'" and "r = (case items q of [] \<Rightarrow> None | p # _ \<Rightarrow> Some p)" and "items q' = tl (items q)"
  using dequeue_law [OF assms(1)] assms(2) by auto

text \<open>An empty queue passes an item straight through.\<close>

lemma pass_through:
  assumes "qvalid q" "okitem p" "items q = []"
  shows "\<exists>q' q''. op_Enqueue ops p q = Inr (True, q') \<and> op_Dequeue ops q' = Inr (Some p, q'') \<and>
    qvalid q'' \<and> items q'' = []"
proof -
  from accepts_when_empty [OF assms] obtain q' where q': "op_Enqueue ops p q = Inr (True, q')" by blast
  with enqueue_Inr [OF assms(1,2) q'] assms(3) dequeue_law [of q'] show ?thesis by auto
qed

lemma offer_items:
  assumes "qvalid q" "\<forall>p \<in> set ps. okitem p"
  shows "\<exists>acc q'. offer ops ps q = Inr (acc, q') \<and> qvalid q' \<and> items q' = items q @ acc \<and>
    set acc \<subseteq> set ps \<and> length acc \<le> length ps"
  using assms
proof (induction ps arbitrary: q)
  case (Cons p ps)
  from enqueue_law [of q p] Cons.prems obtain b q1 where
    q1: "op_Enqueue ops p q = Inr (b, q1)" "qvalid q1" "items q1 = (if b then items q @ [p] else items q)"
    by auto
  from Cons.IH [OF q1(2)] Cons.prems(2) obtain acc q2 where
    "offer ops ps q1 = Inr (acc, q2)" "qvalid q2" "items q2 = items q1 @ acc" "set acc \<subseteq> set ps"
    "length acc \<le> length ps" by auto
  with q1 show ?case by auto
qed simp

text \<open>Filling a queue and emptying it gives back the accepted items in order.\<close>

lemma collect_items:
  assumes "qvalid q" "length (items q) \<le> n"
  shows "\<exists>q'. collect ops n q = Inr (items q, q') \<and> qvalid q' \<and> items q' = []"
  using assms
proof (induction n arbitrary: q)
  case (Suc n)
  from dequeue_law [OF Suc.prems(1)] obtain q1 where
    q1: "op_Dequeue ops q = Inr (case items q of [] \<Rightarrow> None | p # _ \<Rightarrow> Some p, q1)" "qvalid q1"
      "items q1 = tl (items q)" by blast
  from Suc.IH [OF q1(2)] Suc.prems(2) q1 show ?case by (cases "items q") auto
qed simp

end

text \<open>
  The drop-tail queue of packets of at most 65535 bytes, limited to at most 65536 packets:
  its byte counter cannot wrap.
\<close>

definition DropTailQueue_ops :: "('i \<Rightarrow> u32) \<Rightarrow> ('i queue, 'i) queue_ops" where
  "DropTailQueue_ops sz =
     \<lparr>op_Enqueue = DropTailQueue_Enqueue sz, op_Dequeue = DropTailQueue_Dequeue sz\<rparr>"

definition small_item :: "('i \<Rightarrow> u32) \<Rightarrow> 'i \<Rightarrow> bool" where
  "small_item sz p \<longleftrightarrow> unat (sz p) \<le> 65535"

definition DropTailQueue_valid :: "('i \<Rightarrow> u32) \<Rightarrow> 'i queue \<Rightarrow> bool" where
  "DropTailQueue_valid sz q \<longleftrightarrow>
     queue_counts sz q \<and> queue_within q \<and> qs_unit (m_maxSize q) = PACKETS \<and>
     0 < qs_value (m_maxSize q) \<and> unat (qs_value (m_maxSize q)) \<le> 65536 \<and>
     (\<forall>p \<in> set (m_packets q). small_item sz p)"

lemma valid_room:
  assumes "DropTailQueue_valid sz q" "admits sz p q" "small_item sz p"
  shows "room_for sz p q"
proof -
  have l: "length (m_packets q) < 65536" "\<forall>p \<in> set (m_packets q). unat (sz p) \<le> 65535"
    using assms(1,2) by (auto simp: DropTailQueue_valid_def admits_def small_item_def)
  have "total_bytes sz ps \<le> length ps * 65535" if "\<forall>p \<in> set ps. unat (sz p) \<le> 65535" for ps
    using that by (induction ps) (auto simp: algebra_simps)
  from this [OF l(2)] have "total_bytes sz (m_packets q) + unat (sz p) < 2 ^ 32"
    using l(1) assms(3) by (simp add: small_item_def)
  with l(1) assms(1) show ?thesis by (simp add: room_for_def DropTailQueue_valid_def queue_counts_def)
qed

lemma valid_full:
  assumes "DropTailQueue_valid sz q" "\<not> admits sz p q"
  shows "DropTailQueue_Enqueue sz p q = Inr (False, Queue_DropBeforeEnqueue sz p q)"
proof -
  have v: "queue_counts sz q" "qs_unit (m_maxSize q) = PACKETS" "unat (qs_value (m_maxSize q)) \<le> 65536"
    "queue_within q" using assms(1) by (simp_all add: DropTailQueue_valid_def)
  then have "m_nPackets q \<le> qs_value (m_maxSize q)" by (simp add: queue_within_def queue_size_defs)
  with v assms(2) have n: "unat (m_nPackets q) = unat (qs_value (m_maxSize q))"
    by (simp add: admits_def queue_counts_def word_le_nat_alt)
  with v(3) have "unat (m_nPackets q + 1) = unat (m_nPackets q) + 1" by (intro unat_inc_nowrap) simp
  with n v(2) show ?thesis
    by (simp add: DropTailQueue_Enqueue_def Queue_DoEnqueue_def queue_size_defs word_less_nat_alt)
qed

lemma DropTailQueue_Enqueue_valid:
  assumes v: "DropTailQueue_valid sz q" and s: "small_item sz p"
  shows "\<exists>q'. DropTailQueue_Enqueue sz p q = Inr (admits sz p q, q') \<and> DropTailQueue_valid sz q' \<and>
    m_packets q' = (if admits sz p q then m_packets q @ [p] else m_packets q)"
proof (cases "admits sz p q")
  case True
  have c: "queue_counts sz q" using v by (simp add: DropTailQueue_valid_def)
  from DropTailQueue_Enqueue_correct [OF c valid_room [OF v True s]] True v s show ?thesis
    by (auto simp: DropTailQueue_valid_def)
next
  case False
  have "DropTailQueue_valid sz (Queue_DropBeforeEnqueue sz p q)"
    using v by (simp add: DropTailQueue_valid_def)
  with valid_full [OF v False] False show ?thesis by simp
qed

interpretation drop_tail: fifo_queue "DropTailQueue_ops sz" "DropTailQueue_valid sz" m_packets
  "small_item sz" for sz :: "'i \<Rightarrow> u32"
proof
  fix q :: "'i queue" and p
  assume v: "DropTailQueue_valid sz q" and s: "small_item sz p"
  from DropTailQueue_Enqueue_valid [OF this]
  show "\<exists>b q'. op_Enqueue (DropTailQueue_ops sz) p q = Inr (b, q') \<and> DropTailQueue_valid sz q' \<and>
      m_packets q' = (if b then m_packets q @ [p] else m_packets q)"
    by (auto simp: DropTailQueue_ops_def)
  assume "m_packets q = []"
  with v have "admits sz p q" by (auto simp: admits_def DropTailQueue_valid_def word_less_nat_alt)
  with DropTailQueue_Enqueue_valid [OF v s] show "\<exists>q'. op_Enqueue (DropTailQueue_ops sz) p q = Inr (True, q')"
    by (auto simp: DropTailQueue_ops_def)
next
  fix q :: "'i queue"
  assume v: "DropTailQueue_valid sz q"
  then have "queue_counts sz q" by (simp add: DropTailQueue_valid_def)
  from DropTailQueue_Dequeue_correct [OF this] v
  show "\<exists>q'. op_Dequeue (DropTailQueue_ops sz) q = Inr (case m_packets q of [] \<Rightarrow> None | p # _ \<Rightarrow> Some p, q') \<and>
      DropTailQueue_valid sz q' \<and> m_packets q' = tl (m_packets q)"
    by (cases "m_packets q") (auto simp: DropTailQueue_ops_def DropTailQueue_valid_def)
qed

section \<open>Properties\<close>

text \<open>
  C7. \<open>DropTailQueue::Enqueue\<close>, on both branches. While the 32-bit counters have room, the item
  is accepted exactly when it fits under the limit, in packets or in bytes; it then goes to the
  end of the queue and is counted as received, and otherwise the queue is unchanged and the item and its
  bytes are counted as dropped, in the totals and among the drops before enqueueing, and reported to the
  drop trace sources; the counters keep describing the contents, the limit stays respected, and drops
  stay accounted for by cause.
\<close>

theorem drop_tail_enqueue:
  assumes "queue_counts sz q" and "room_for sz item q" and "queue_within q" and "drops_add_up q"
  shows "\<exists>q'. DropTailQueue_Enqueue sz item q = Inr (admits sz item q, q') \<and>
    m_packets q' = (if admits sz item q then m_packets q @ [item] else m_packets q) \<and>
    enqueue_counted (admits sz item q) sz item q q' \<and> queue_counts sz q' \<and> queue_within q' \<and> drops_add_up q'"
  using DropTailQueue_Enqueue_correct [OF assms(1,2)] assms(3,4) by auto

lemma new_queue_ok:
  "queue_counts sz DropTailQueue_new" "queue_within DropTailQueue_new" "drops_add_up DropTailQueue_new"
  "DropTailQueue_valid sz DropTailQueue_new" "m_packets DropTailQueue_new = []"
  by (simp_all add: DropTailQueue_new_def QueueBase_new_def queue_counts_def queue_within_def
      drops_add_up_def queue_size_defs DropTailQueue_valid_def)

definition full_queue :: "u32 queue" where
  "full_queue = QueueBase_new\<lparr>m_packets := [5], m_nPackets := 1, m_nBytes := 5, m_maxSize := QueueSize_new PACKETS 1\<rparr>"

theorem drop_tail_enqueue_witness:
  "\<exists>q'. DropTailQueue_Enqueue (\<lambda>x. x) 7 full_queue = Inr (False, q') \<and> m_packets q' = [5] \<and>
     m_nTotalDroppedPackets q' = 1 \<and> m_nTotalDroppedBytes q' = 7"
proof -
  have f: "queue_counts (\<lambda>x. x) full_queue" "room_for (\<lambda>x. x) 7 full_queue" "queue_within full_queue" "drops_add_up full_queue"
    "\<not> admits (\<lambda>x. x) 7 full_queue" "m_packets full_queue = [5]" "m_nTotalDroppedPackets full_queue = 0"
    "m_nTotalDroppedBytes full_queue = 0"
    by (simp_all add: full_queue_def QueueBase_new_def queue_counts_def room_for_def queue_within_def drops_add_up_def
        admits_def queue_size_defs)
  show ?thesis using drop_tail_enqueue [OF f(1-4)] f(5-8) by (auto simp: enqueue_counted_def)
qed

text \<open>
  C8. First in, first out. Offering any packets of at most 65535 bytes to a drop-tail queue and
  then emptying it returns: the packets that were already there, followed by the accepted ones,
  in the order in which they were offered.
\<close>

theorem drop_tail_fifo:
  assumes "DropTailQueue_valid sz q" and "\<forall>p \<in> set ps. unat (sz p) \<le> 65535"
    and "length (m_packets q) + length ps \<le> n"
  shows "\<exists>acc q' q''. offer (DropTailQueue_ops sz) ps q = Inr (acc, q') \<and> set acc \<subseteq> set ps \<and>
    collect (DropTailQueue_ops sz) n q' = Inr (m_packets q @ acc, q'') \<and> m_packets q'' = []"
proof -
  have "\<forall>p \<in> set ps. small_item sz p" using assms(2) by (simp add: small_item_def)
  from drop_tail.offer_items [OF assms(1) this] obtain acc q' where
    o: "offer (DropTailQueue_ops sz) ps q = Inr (acc, q')" "DropTailQueue_valid sz q'"
      "m_packets q' = m_packets q @ acc" "set acc \<subseteq> set ps" "length acc \<le> length ps" by blast
  from o(3,5) assms(3) have "length (m_packets q') \<le> n" by simp
  from drop_tail.collect_items [OF o(2) this] o show ?thesis by auto
qed

theorem drop_tail_fifo_witness:
  "\<exists>acc q' q''. offer (DropTailQueue_ops (\<lambda>x. x)) [3, 1, 2] DropTailQueue_new = Inr (acc, q') \<and>
    set acc \<subseteq> set [3, 1, 2] \<and>
    collect (DropTailQueue_ops (\<lambda>x. x)) 3 q' = Inr (m_packets DropTailQueue_new @ acc, q'') \<and>
    m_packets q'' = []"
  by (rule drop_tail_fifo) (simp_all add: new_queue_ok)

text \<open>
  \<open>Flush\<close> terminates and empties: with as much fuel as there are packets, it returns a queue
  with no packets and zero counters, and counts every packet as dropped by cause.
\<close>

theorem flush_empties:
  assumes "queue_counts sz q" and "length (m_packets q) \<le> n" and "drops_add_up q"
  shows "\<exists>q'. Queue_Flush sz n q = Inr q' \<and> m_packets q' = [] \<and> m_nPackets q' = 0 \<and>
    m_nBytes q' = 0 \<and> drops_add_up q'"
  using Queue_Flush_correct [OF assms(1,2)] assms(3) by auto

definition demo_queue :: "u32 queue" where
  "demo_queue = DropTailQueue_new\<lparr>m_packets := [5, 6], m_nPackets := 2, m_nBytes := 11\<rparr>"

theorem flush_empties_witness:
  "\<exists>q'. Queue_Flush (\<lambda>x. x) 2 demo_queue = Inr q' \<and> m_packets q' = [] \<and> m_nPackets q' = 0 \<and>
    m_nBytes q' = 0 \<and> drops_add_up q'"
  by (rule flush_empties)
     (simp_all add: demo_queue_def DropTailQueue_new_def QueueBase_new_def queue_counts_def drops_add_up_def)

text \<open>
  The two resets. \<open>ResetStatistics\<close> leaves the drop counters consistent with one another.
  The load balancer's \<open>resetStats\<close> clears only the bytes dropped before enqueue: the counters
  stay consistent only when that counter was already zero, and the total keeps growing.
\<close>

theorem reset_stats_consistency:
  "drops_add_up (QueueBase_ResetStatistics q) \<and>
   (drops_add_up q \<longrightarrow>
     (drops_add_up (QueueBase_resetStats q) \<longleftrightarrow> QueueBase_GetTotalDroppedBytesBeforeEnqueue q = 0)) \<and>
   QueueBase_GetTotalDroppedBytes (QueueBase_resetStats q) = QueueBase_GetTotalDroppedBytes q"
  by (auto simp: drops_add_up_def QueueBase_ResetStatistics_def QueueBase_resetStats_def
      QueueBase_GetTotalDroppedBytesBeforeEnqueue_def QueueBase_GetTotalDroppedBytes_def)

theorem reset_stats_consistency_witness:
  "drops_add_up demo_queue \<and> drops_add_up (QueueBase_resetStats demo_queue)"
  using reset_stats_consistency [of demo_queue]
  by (simp add: demo_queue_def DropTailQueue_new_def QueueBase_new_def drops_add_up_def
      QueueBase_GetTotalDroppedBytesBeforeEnqueue_def)

end
