(* ===== verification/Packet.thy ===== *)
theory Packet
  imports Ns3_Prelude
begin

text \<open>
  Packets as the protocols see them: a unique id, the packet tags and the bytes, the view that
  \<open>src/network/model/packet.{h,cc}\<close> gives of its buffer. The byte-order operations of
  \<open>Buffer::Iterator\<close> are functions on byte lists. Reading a byte past the end is the assertion of
  \<open>Buffer::Iterator::PeekU8\<close>; the wider reads take their bytes straight from the array and are
  undefined there.
\<close>

unbundle bit_operations_syntax

type_synonym bytes = "u8 list"

section \<open>Network byte order\<close>

definition ReadU8 :: "bytes \<Rightarrow> (u8 \<times> bytes) res" where
  "ReadU8 bs = (case bs of [] \<Rightarrow> Inl Assert | b # rest \<Rightarrow> Inr (b, rest))"

definition WriteHtonU16 :: "u16 \<Rightarrow> bytes" where
  "WriteHtonU16 d = [ucast (drop_bit 8 d), ucast d]"

definition ReadNtohU16 :: "bytes \<Rightarrow> (u16 \<times> bytes) res" where
  "ReadNtohU16 bs =
     defined_if (2 \<le> length bs)
       (Inr (push_bit 8 (ucast (bs ! 0)) OR ucast (bs ! 1), drop 2 bs))"

text \<open>\<open>ReadU16\<close> and \<open>WriteU16\<close> are little-endian, byte by byte.\<close>

definition ReadU16 :: "bytes \<Rightarrow> (u16 \<times> bytes) res" where
  "ReadU16 bs =
     bind_res (ReadU8 bs) (\<lambda>(byte0, r0).
     bind_res (ReadU8 r0) (\<lambda>(byte1, r1).
       Inr (push_bit 8 (ucast byte1) OR ucast byte0, r1)))"

definition WriteU16 :: "u16 \<Rightarrow> bytes" where
  "WriteU16 d = [ucast d, ucast (drop_bit 8 d)]"

definition WriteHtonU32 :: "u32 \<Rightarrow> bytes" where
  "WriteHtonU32 d =
     [ucast (drop_bit 24 d), ucast (drop_bit 16 d), ucast (drop_bit 8 d), ucast d]"

definition ReadNtohU32 :: "bytes \<Rightarrow> (u32 \<times> bytes) res" where
  "ReadNtohU32 bs =
     defined_if (4 \<le> length bs)
       (Inr (push_bit 8 (push_bit 8 (push_bit 8 (ucast (bs ! 0)) OR ucast (bs ! 1)) OR ucast (bs ! 2)) OR ucast (bs ! 3),
             drop 4 bs))"

section \<open>Packets\<close>

record packet =
  pk_uid :: u64
  pk_tags :: "(string \<times> bytes) list"
  pk_bytes :: bytes

definition Packet_GetSize :: "packet \<Rightarrow> u32" where
  "Packet_GetSize p = of_nat (length (pk_bytes p))"

text \<open>
  \<open>AddHeader\<close> puts the serialized header in front of the bytes; \<open>RemoveHeader\<close> lets the header
  read from the front and drops the number of bytes it reports.
\<close>

definition Packet_AddHeader :: "bytes \<Rightarrow> packet \<Rightarrow> packet" where
  "Packet_AddHeader h p = p\<lparr>pk_bytes := h @ pk_bytes p\<rparr>"

definition Packet_RemoveHeader :: "(bytes \<Rightarrow> ('h \<times> nat) res) \<Rightarrow> packet \<Rightarrow> ('h \<times> packet) res" where
  "Packet_RemoveHeader deserialize p =
     bind_res (deserialize (pk_bytes p)) (\<lambda>(h, n). Inr (h, p\<lparr>pk_bytes := drop n (pk_bytes p)\<rparr>))"

definition Packet_PeekHeader :: "(bytes \<Rightarrow> ('h \<times> nat) res) \<Rightarrow> packet \<Rightarrow> 'h res" where
  "Packet_PeekHeader deserialize p = bind_res (deserialize (pk_bytes p)) (\<lambda>(h, n). Inr h)"

definition Packet_Copy :: "packet \<Rightarrow> packet" where
  "Packet_Copy p = p"

text \<open>
  Trimming, joining and cutting. \<open>RemoveAtStart\<close> and \<open>RemoveAtEnd\<close> of more bytes than there are leave
  none; \<open>CreateFragment\<close> computes the number of bytes after the fragment in 32 bits.
\<close>

definition Packet_RemoveAtStart :: "u32 \<Rightarrow> packet \<Rightarrow> packet" where
  "Packet_RemoveAtStart n p = p\<lparr>pk_bytes := drop (unat n) (pk_bytes p)\<rparr>"

definition Packet_RemoveAtEnd :: "u32 \<Rightarrow> packet \<Rightarrow> packet" where
  "Packet_RemoveAtEnd n p = p\<lparr>pk_bytes := take (length (pk_bytes p) - unat n) (pk_bytes p)\<rparr>"

definition Packet_AddAtEnd :: "packet \<Rightarrow> packet \<Rightarrow> packet" where
  "Packet_AddAtEnd q p = p\<lparr>pk_bytes := pk_bytes p @ pk_bytes q\<rparr>"

definition Packet_CreateFragment :: "u32 \<Rightarrow> u32 \<Rightarrow> packet \<Rightarrow> packet res" where
  "Packet_CreateFragment start len p =
     (let fragment = Packet_RemoveAtEnd (Packet_GetSize p - (start + len)) (Packet_RemoveAtStart start p)
      in ns_assert (Packet_GetSize p \<ge> start + len) (Inr fragment))"

section \<open>Round trips\<close>

lemma ReadU8_Cons [simp]: "ReadU8 (b # bs) = Inr (b, bs)"
  by (simp add: ReadU8_def)

lemma join_u16: "push_bit 8 (ucast (ucast (drop_bit 8 d) :: u8)) OR ucast (ucast d :: u8) = (d :: u16)"
  by (rule bit_word_eqI) (auto simp: bit_simps)

lemma join_u32:
  "((push_bit 24 (ucast (ucast (drop_bit 24 d) :: u8)) OR push_bit 16 (ucast (ucast (drop_bit 16 d) :: u8))) OR
     push_bit 8 (ucast (ucast (drop_bit 8 d) :: u8))) OR ucast (ucast d :: u8) = (d :: u32)"
proof (rule bit_word_eqI)
  fix n :: nat
  consider "n < 8" | "8 \<le> n" "n < 16" | "16 \<le> n" "n < 24" | "24 \<le> n" by linarith
  then show "n < LENGTH(32) \<Longrightarrow> bit (((push_bit 24 (ucast (ucast (drop_bit 24 d) :: u8)) OR
     push_bit 16 (ucast (ucast (drop_bit 16 d) :: u8))) OR
     push_bit 8 (ucast (ucast (drop_bit 8 d) :: u8))) OR ucast (ucast d :: u8) :: u32) n = bit d n"
    by cases (auto simp: bit_simps)
qed

lemma Read_Write_U16 [simp]: "ReadNtohU16 (WriteHtonU16 d @ bs) = Inr (d, bs)"
  by (simp add: ReadNtohU16_def WriteHtonU16_def join_u16)

lemma Read_Write_U32 [simp]: "ReadNtohU32 (WriteHtonU32 d @ bs) = Inr (d, bs)"
  by (simp add: ReadNtohU32_def WriteHtonU32_def join_u32)

lemma Read_Write_U16_le [simp]: "ReadU16 (WriteU16 d @ bs) = Inr (d, bs)"
  by (simp add: ReadU16_def WriteU16_def join_u16)

lemma length_Write [simp]:
  "length (WriteHtonU16 d) = 2" "length (WriteU16 d) = 2" "length (WriteHtonU32 e) = 4"
  by (simp_all add: WriteHtonU16_def WriteU16_def WriteHtonU32_def)

end
