(* ===== verification/Point_To_Point.thy ===== *)
theory Point_To_Point
  imports Packet_Queue Packet Simulator
begin

text \<open>
  \<open>src/point-to-point/model\<close>: the PPP header, the channel and the net device, with the busy-time
  history the load balancer added to the device. The operations of a device return its new
  state and the effects they have outside it, in order: trace sources fired, events scheduled
  and callbacks made. A device is named by an address; address 0 is null.
\<close>

section \<open>The PPP header\<close>

definition PppHeader_GetSerializedSize :: nat where
  "PppHeader_GetSerializedSize = 2"

definition PppHeader_Serialize :: "u16 \<Rightarrow> bytes" where
  "PppHeader_Serialize protocol = WriteHtonU16 protocol"

definition PppHeader_Deserialize :: "bytes \<Rightarrow> (u16 \<times> nat) res" where
  "PppHeader_Deserialize bs =
     bind_res (ReadNtohU16 bs) (\<lambda>(protocol, rest). Inr (protocol, PppHeader_GetSerializedSize))"

definition PppToEther :: "u16 \<Rightarrow> u16 res" where
  "PppToEther proto =
     (if proto = 0x0021 then Inr 0x0800 else if proto = 0x0057 then Inr 0x86DD else Inl Assert)"

definition EtherToPpp :: "u16 \<Rightarrow> u16 res" where
  "EtherToPpp proto =
     (if proto = 0x0800 then Inr 0x0021 else if proto = 0x86DD then Inr 0x0057 else Inl Assert)"

section \<open>Transmission times\<close>

text \<open>
  \<open>DataRate::CalculateBytesTxTime\<close>: the number of bits is a 32-bit product, the result a number
  of nanoseconds, rounded down.
\<close>

definition CalculateBytesTxTime :: "u64 \<Rightarrow> u32 \<Rightarrow> u64 res" where
  "CalculateBytesTxTime bps bytes =
     defined_if (bps \<noteq> 0) (Inr (of_nat ((unat (bytes * 8) * 10 ^ 9) div unat bps)))"

section \<open>The channel\<close>

datatype WireState = INITIALIZING | IDLE | TRANSMITTING

record p2p_link =
  l_state :: WireState
  l_src :: nat
  l_dst :: nat

record p2p_channel =
  ch_delay :: u64
  ch_nDevices :: nat
  ch_link0 :: p2p_link
  ch_link1 :: p2p_link

definition Link_new :: p2p_link where
  "Link_new = \<lparr>l_state = INITIALIZING, l_src = 0, l_dst = 0\<rparr>"

definition PointToPointChannel_new :: p2p_channel where
  "PointToPointChannel_new =
     \<lparr>ch_delay = 0, ch_nDevices = 0, ch_link0 = Link_new, ch_link1 = Link_new\<rparr>"

definition N_DEVICES :: nat where "N_DEVICES = 2"

definition PointToPointChannel_Attach :: "nat \<Rightarrow> p2p_channel \<Rightarrow> p2p_channel res" where
  "PointToPointChannel_Attach device ch =
     ns_assert (ch_nDevices ch < N_DEVICES) (ns_assert (device \<noteq> 0)
       (let ch1 = (if ch_nDevices ch = 0 then ch\<lparr>ch_link0 := (ch_link0 ch)\<lparr>l_src := device\<rparr>\<rparr>
                   else ch\<lparr>ch_link1 := (ch_link1 ch)\<lparr>l_src := device\<rparr>\<rparr>);
            ch2 = ch1\<lparr>ch_nDevices := ch_nDevices ch + 1\<rparr>
        in Inr (if ch_nDevices ch2 = N_DEVICES
                then ch2\<lparr>ch_link0 := (ch_link0 ch2)\<lparr>l_dst := l_src (ch_link1 ch2), l_state := IDLE\<rparr>,
                         ch_link1 := (ch_link1 ch2)\<lparr>l_dst := l_src (ch_link0 ch2), l_state := IDLE\<rparr>\<rparr>
                else ch2)))"

definition PointToPointChannel_IsInitialized :: "p2p_channel \<Rightarrow> bool res" where
  "PointToPointChannel_IsInitialized ch =
     ns_assert (l_state (ch_link0 ch) \<noteq> INITIALIZING)
       (ns_assert (l_state (ch_link1 ch) \<noteq> INITIALIZING) (Inr True))"

definition PointToPointChannel_GetPointToPointDevice :: "p2p_channel \<Rightarrow> nat \<Rightarrow> nat res" where
  "PointToPointChannel_GetPointToPointDevice ch i =
     ns_assert (i < 2) (Inr (l_src (if i = 0 then ch_link0 ch else ch_link1 ch)))"

text \<open>
  The effects of the channel and of the devices. \<open>ScheduleReceive ctx d dst p\<close> schedules
  \<open>dst->Receive (p)\<close> in \<open>d\<close> with context \<open>ctx\<close>.
\<close>

datatype p2p_trace =
    MacTx | MacTxDrop | MacPromiscRx | MacRx | PhyTxBegin | PhyTxEnd | PhyTxDrop | PhyRxEnd
  | PhyRxDrop | Sniffer | PromiscSniffer

datatype p2p_effect =
    FireTrace p2p_trace packet
  | FireLinkChange
  | FireTxRx packet nat nat u64 u64
  | ScheduleTransmitComplete u64
  | ScheduleReceive u32 u64 nat packet
  | CallRx packet u16 u64
  | CallPromiscRx packet u16 u64 u64

text \<open>\<open>node_id\<close> gives the id of the node that owns a device.\<close>

definition PointToPointChannel_TransmitStart ::
  "(nat \<Rightarrow> u32) \<Rightarrow> packet \<Rightarrow> nat \<Rightarrow> u64 \<Rightarrow> p2p_channel \<Rightarrow> (bool \<times> p2p_effect list) res" where
  "PointToPointChannel_TransmitStart node_id p src txTime ch =
     ns_assert (l_state (ch_link0 ch) \<noteq> INITIALIZING)
       (ns_assert (l_state (ch_link1 ch) \<noteq> INITIALIZING)
         (let wire = (if src = l_src (ch_link0 ch) then ch_link0 ch else ch_link1 ch) in
          bind_res (Time_add txTime (ch_delay ch)) (\<lambda>t.
            Inr (True, [ScheduleReceive (node_id (l_dst wire)) t (l_dst wire) (Packet_Copy p),
                        FireTxRx p src (l_dst wire) txTime t]))))"

section \<open>The device\<close>

datatype TxMachineState = READY | BUSY

record hist_t =
  up_duration :: u64
  h_start_tx :: u64
  was_down :: bool

text \<open>
  The fields of \<open>PointToPointNetDevice\<close>; \<open>d_promisc\<close> says whether a promiscuous callback is set.
  \<open>d_channel\<close> is the address of the channel, 0 when there is none: a channel is shared by two
  devices, so channels live in a store \<open>chs\<close>.
\<close>

record 'q p2p_device =
  d_txMachineState :: TxMachineState
  d_bps :: u64
  d_tInterframeGap :: u64
  d_channel :: nat
  d_linkUp :: bool
  d_currentPkt :: "packet option"
  d_queue :: 'q
  d_history :: hist_t
  d_address :: u64
  d_mtu :: u32
  d_ifIndex :: u32
  d_promisc :: bool

definition PointToPointNetDevice_new :: "'q \<Rightarrow> u64 \<Rightarrow> u64 \<Rightarrow> 'q p2p_device" where
  "PointToPointNetDevice_new q bps address =
     \<lparr>d_txMachineState = READY, d_bps = bps, d_tInterframeGap = 0, d_channel = 0, d_linkUp = False,
      d_currentPkt = None, d_queue = q,
      d_history = \<lparr>up_duration = 0, h_start_tx = 0, was_down = True\<rparr>,
      d_address = address, d_mtu = 1500, d_ifIndex = 0, d_promisc = False\<rparr>"

definition AddHeader :: "u16 \<Rightarrow> packet \<Rightarrow> packet res" where
  "AddHeader protocolNumber p =
     bind_res (EtherToPpp protocolNumber) (\<lambda>proto. Inr (Packet_AddHeader (PppHeader_Serialize proto) p))"

definition ProcessHeader :: "packet \<Rightarrow> (u16 \<times> packet) res" where
  "ProcessHeader p =
     bind_res (Packet_RemoveHeader PppHeader_Deserialize p) (\<lambda>(ppp, p1).
     bind_res (PppToEther ppp) (\<lambda>param. Inr (param, p1)))"

definition SetDataRate :: "u64 \<Rightarrow> 'q p2p_device \<Rightarrow> 'q p2p_device" where
  "SetDataRate bps dev = dev\<lparr>d_bps := bps\<rparr>"

definition SetInterframeGap :: "u64 \<Rightarrow> 'q p2p_device \<Rightarrow> 'q p2p_device" where
  "SetInterframeGap t dev = dev\<lparr>d_tInterframeGap := t\<rparr>"

definition SetQueue :: "'q \<Rightarrow> 'q p2p_device \<Rightarrow> 'q p2p_device" where
  "SetQueue q dev = dev\<lparr>d_queue := q\<rparr>"

definition SetMtu :: "u16 \<Rightarrow> 'q p2p_device \<Rightarrow> bool \<times> 'q p2p_device" where
  "SetMtu mtu dev = (True, dev\<lparr>d_mtu := ucast mtu\<rparr>)"

definition GetMtu :: "'q p2p_device \<Rightarrow> u16" where
  "GetMtu dev = ucast (d_mtu dev)"

definition NotifyLinkUp :: "'q p2p_device \<Rightarrow> 'q p2p_device \<times> p2p_effect list" where
  "NotifyLinkUp dev = (dev\<lparr>d_linkUp := True\<rparr>, [FireLinkChange])"

definition Attach ::
  "nat \<Rightarrow> nat \<Rightarrow> (nat \<rightharpoonup> p2p_channel) \<Rightarrow> 'q p2p_device \<Rightarrow>
   (bool \<times> (nat \<rightharpoonup> p2p_channel) \<times> 'q p2p_device \<times> p2p_effect list) res" where
  "Attach this c chs dev =
     (case chs c of
        None \<Rightarrow> Inl Undefined
      | Some ch \<Rightarrow>
          bind_res (PointToPointChannel_Attach this ch) (\<lambda>ch1.
            Inr (True, chs(c \<mapsto> ch1), NotifyLinkUp (dev\<lparr>d_channel := c\<rparr>))))"

text \<open>The busy-time history.\<close>

definition start_tx :: "u64 \<Rightarrow> 'q p2p_device \<Rightarrow> 'q p2p_device" where
  "start_tx now dev =
     (if was_down (d_history dev)
      then dev\<lparr>d_history := (d_history dev)\<lparr>h_start_tx := now, was_down := False\<rparr>\<rparr>
      else dev)"

definition stopped_tx :: "u64 \<Rightarrow> 'q p2p_device \<Rightarrow> 'q p2p_device" where
  "stopped_tx now dev =
     dev\<lparr>d_history := (d_history dev)
           \<lparr>up_duration := up_duration (d_history dev) + (now - h_start_tx (d_history dev)),
            was_down := True\<rparr>\<rparr>"

definition time_slot :: "u64 \<Rightarrow> 'q p2p_device \<Rightarrow> (u64 \<times> u64) \<times> 'q p2p_device" where
  "time_slot now dev =
     (let h = d_history dev;
          h1 = (if was_down h then h
                else h\<lparr>up_duration := up_duration h + (now - h_start_tx h), h_start_tx := now\<rparr>)
      in ((up_duration h1, d_bps dev), dev\<lparr>d_history := h1\<lparr>up_duration := 0\<rparr>\<rparr>))"

text \<open>
  Transmission. \<open>now\<close> is \<open>Simulator::Now ()\<close>; \<open>this\<close> the device's own address.
\<close>

definition TransmitStart ::
  "(nat \<Rightarrow> u32) \<Rightarrow> (nat \<rightharpoonup> p2p_channel) \<Rightarrow> nat \<Rightarrow> u64 \<Rightarrow> packet \<Rightarrow> 'q p2p_device \<Rightarrow>
   (bool \<times> 'q p2p_device \<times> p2p_effect list) res" where
  "TransmitStart node_id chs this now p dev =
     ns_assert (d_txMachineState dev = READY)
       (let dev1 = dev\<lparr>d_txMachineState := BUSY, d_currentPkt := Some p\<rparr> in
        bind_res (CalculateBytesTxTime (d_bps dev1) (Packet_GetSize p)) (\<lambda>txTime.
        bind_res (Time_add txTime (d_tInterframeGap dev1)) (\<lambda>txCompleteTime.
          case chs (d_channel dev1) of
            None \<Rightarrow> Inl Undefined
          | Some ch \<Rightarrow>
              bind_res (PointToPointChannel_TransmitStart node_id p this txTime ch) (\<lambda>(result, chfx).
                Inr (result, start_tx now dev1,
                     [FireTrace PhyTxBegin p, ScheduleTransmitComplete txCompleteTime] @ chfx @
                     (if result then [] else [FireTrace PhyTxDrop p]))))))"

definition TransmitComplete ::
  "('q, packet) queue_ops \<Rightarrow> (nat \<Rightarrow> u32) \<Rightarrow> (nat \<rightharpoonup> p2p_channel) \<Rightarrow> nat \<Rightarrow> u64 \<Rightarrow> 'q p2p_device \<Rightarrow>
   ('q p2p_device \<times> p2p_effect list) res" where
  "TransmitComplete qops node_id chs this now dev =
     ns_assert (d_txMachineState dev = BUSY)
       (case d_currentPkt dev of
          None \<Rightarrow> Inl Assert
        | Some cur \<Rightarrow>
            bind_res (op_Dequeue qops (d_queue dev)) (\<lambda>(next, q1).
              let dev1 = dev\<lparr>d_txMachineState := READY, d_currentPkt := None, d_queue := q1\<rparr> in
              case next of
                None \<Rightarrow> Inr (stopped_tx now dev1, [FireTrace PhyTxEnd cur])
              | Some p \<Rightarrow>
                  bind_res (TransmitStart node_id chs this now p dev1) (\<lambda>(result, dev2, fx).
                    Inr (dev2, [FireTrace PhyTxEnd cur, FireTrace Sniffer p, FireTrace PromiscSniffer p] @ fx))))"

definition Send ::
  "('q, packet) queue_ops \<Rightarrow> (nat \<Rightarrow> u32) \<Rightarrow> (nat \<rightharpoonup> p2p_channel) \<Rightarrow> nat \<Rightarrow> u64 \<Rightarrow> packet \<Rightarrow> u16 \<Rightarrow> 'q p2p_device \<Rightarrow>
   (bool \<times> 'q p2p_device \<times> p2p_effect list) res" where
  "Send qops node_id chs this now p protocolNumber dev =
     (if \<not> d_linkUp dev then Inr (False, dev, [FireTrace MacTxDrop p])
      else
        bind_res (AddHeader protocolNumber p) (\<lambda>p1.
        bind_res (op_Enqueue qops p1 (d_queue dev)) (\<lambda>(ok, q1).
          let dev1 = dev\<lparr>d_queue := q1\<rparr> in
          if ok then
            if d_txMachineState dev1 = READY then
              bind_res (op_Dequeue qops (d_queue dev1)) (\<lambda>(next, q2).
                case next of
                  None \<Rightarrow> Inl Undefined
                | Some p2 \<Rightarrow>
                    bind_res (TransmitStart node_id chs this now p2 (dev1\<lparr>d_queue := q2\<rparr>)) (\<lambda>(result, dev2, fx).
                      Inr (result, dev2,
                           [FireTrace MacTx p1, FireTrace Sniffer p2, FireTrace PromiscSniffer p2] @ fx)))
            else Inr (True, dev1, [FireTrace MacTx p1])
          else Inr (False, dev1, [FireTrace MacTx p1, FireTrace MacTxDrop p1]))))"

text \<open>Reception. \<open>address_of\<close> gives the address of a device, \<open>corrupt\<close> the receive error model.\<close>

definition GetRemote :: "(nat \<Rightarrow> u64) \<Rightarrow> (nat \<rightharpoonup> p2p_channel) \<Rightarrow> nat \<Rightarrow> 'q p2p_device \<Rightarrow> u64 res" where
  "GetRemote address_of chs this dev =
     (case chs (d_channel dev) of
        None \<Rightarrow> Inl Undefined
      | Some ch \<Rightarrow>
          ns_assert (ch_nDevices ch = 2)
            (if l_src (ch_link0 ch) \<noteq> this then Inr (address_of (l_src (ch_link0 ch)))
             else if l_src (ch_link1 ch) \<noteq> this then Inr (address_of (l_src (ch_link1 ch)))
             else Inl Assert))"

definition Receive ::
  "(packet \<Rightarrow> bool) option \<Rightarrow> (nat \<Rightarrow> u64) \<Rightarrow> (nat \<rightharpoonup> p2p_channel) \<Rightarrow> nat \<Rightarrow> packet \<Rightarrow> 'q p2p_device \<Rightarrow> p2p_effect list res" where
  "Receive errorModel address_of chs this p dev =
     (if (case errorModel of None \<Rightarrow> False | Some corrupt \<Rightarrow> corrupt p)
      then Inr [FireTrace PhyRxDrop p]
      else
        let originalPacket = Packet_Copy p in
        bind_res (ProcessHeader p) (\<lambda>(protocol, p1).
        bind_res (GetRemote address_of chs this dev) (\<lambda>remote.
          Inr ([FireTrace Sniffer p, FireTrace PromiscSniffer p, FireTrace PhyRxEnd p] @
               (if d_promisc dev
                then [FireTrace MacPromiscRx originalPacket, CallPromiscRx p1 protocol remote (d_address dev)]
                else []) @
               [FireTrace MacRx originalPacket, CallRx p1 protocol remote]))))"

section \<open>The device over a queue\<close>

text \<open>
  What holds of a device between two events: it is busy exactly while a packet is on the wire,
  the history says down exactly when it is ready, and packets wait only while it is busy.
\<close>

definition device_inv :: "('q \<Rightarrow> bool) \<Rightarrow> ('q \<Rightarrow> packet list) \<Rightarrow> 'q p2p_device \<Rightarrow> bool" where
  "device_inv qvalid items dev \<longleftrightarrow>
     qvalid (d_queue dev) \<and>
     (d_txMachineState dev = BUSY \<longleftrightarrow> d_currentPkt dev \<noteq> None) \<and>
     (was_down (d_history dev) \<longleftrightarrow> d_txMachineState dev = READY) \<and>
     (d_txMachineState dev = READY \<longrightarrow> items (d_queue dev) = []) \<and>
     (\<forall>p \<in> set (items (d_queue dev)). length (pk_bytes p) \<le> 65535)"

text \<open>A link that is set up: both ends attached, a data rate, and times within range.\<close>

definition link_ready :: "(nat \<rightharpoonup> p2p_channel) \<Rightarrow> 'q p2p_device \<Rightarrow> bool" where
  "link_ready chs dev \<longleftrightarrow>
     d_linkUp dev \<and> d_bps dev \<noteq> 0 \<and> unat (d_tInterframeGap dev) < 2 ^ 62 \<and>
     (\<exists>ch. chs (d_channel dev) = Some ch \<and> l_state (ch_link0 ch) \<noteq> INITIALIZING \<and>
       l_state (ch_link1 ch) \<noteq> INITIALIZING \<and> unat (ch_delay ch) < 2 ^ 62)"

text \<open>The transmissions among a list of effects: completion times, and packets put on the wire.\<close>

fun tx_timers :: "p2p_effect list \<Rightarrow> u64 list" where
  "tx_timers [] = []"
| "tx_timers (ScheduleTransmitComplete d # fx) = d # tx_timers fx"
| "tx_timers (_ # fx) = tx_timers fx"

fun on_wire :: "p2p_effect list \<Rightarrow> (u64 \<times> packet) list" where
  "on_wire [] = []"
| "on_wire (ScheduleReceive ctx d dst p # fx) = (d, p) # on_wire fx"
| "on_wire (_ # fx) = on_wire fx"

lemma tx_timers_append [simp]: "tx_timers (a @ b) = tx_timers a @ tx_timers b"
  by (induction a rule: tx_timers.induct) simp_all

lemma on_wire_append [simp]: "on_wire (a @ b) = on_wire a @ on_wire b"
  by (induction a rule: on_wire.induct) simp_all

text \<open>The deliveries among a list of effects: when, to which device, and of which packet.\<close>

fun deliveries :: "p2p_effect list \<Rightarrow> (u64 \<times> nat \<times> packet) list" where
  "deliveries [] = []"
| "deliveries (ScheduleReceive ctx d dst p # fx) = (d, dst, p) # deliveries fx"
| "deliveries (_ # fx) = deliveries fx"

lemma deliveries_append [simp]: "deliveries (a @ b) = deliveries a @ deliveries b"
  by (induction a rule: deliveries.induct) simp_all

text \<open>A delivery by the channel of a device: to the other end, after transmission and delay.\<close>

definition crosses :: "(nat \<rightharpoonup> p2p_channel) \<Rightarrow> nat \<Rightarrow> 'q p2p_device \<Rightarrow> packet \<Rightarrow> (u64 \<times> nat \<times> packet) list \<Rightarrow> bool" where
  "crosses chs this dev p xs \<longleftrightarrow>
     (\<exists>ch d. chs (d_channel dev) = Some ch \<and>
        xs = [(d, if this = l_src (ch_link0 ch) then l_dst (ch_link0 ch) else l_dst (ch_link1 ch), p)] \<and>
        unat d = length (pk_bytes p) * 8 * 10 ^ 9 div unat (d_bps dev) + unat (ch_delay ch))"

text \<open>Executions of a transmitter\<close>

text \<open>
  A device with its clock, the completion events it has scheduled, and what has happened so
  far: the packets accepted for transmission, the packets put on the wire, and the time spent
  busy since \<open>time_slot\<close> was last called, at time \<open>s_mark\<close>.
\<close>

record 'q tx_system =
  s_dev :: "'q p2p_device"
  s_now :: u64
  s_timers :: "u64 list"
  s_accepted :: "packet list"
  s_wire :: "packet list"
  s_busy :: nat
  s_mark :: u64

definition apply_fx :: "p2p_effect list \<Rightarrow> 'q tx_system \<Rightarrow> 'q tx_system" where
  "apply_fx fx s =
     s\<lparr>s_timers := s_timers s @ map ((+) (s_now s)) (tx_timers fx),
       s_wire := s_wire s @ map snd (on_wire fx)\<rparr>"

text \<open>
  The steps: a packet sent by the layer above, time passing up to the next completion event,
  that event, and a call of \<open>time_slot\<close>.
\<close>

inductive tx_step ::
  "('q, packet) queue_ops \<Rightarrow> (nat \<Rightarrow> u32) \<Rightarrow> (nat \<rightharpoonup> p2p_channel) \<Rightarrow> nat \<Rightarrow>
   'q tx_system \<Rightarrow> 'q tx_system \<Rightarrow> bool"
  for qops node_id chs this where
  tx_send: "length (pk_bytes p) \<le> 65533 \<Longrightarrow>
    Send qops node_id chs this (s_now s) p proto (s_dev s) = Inr (ok, dev, fx) \<Longrightarrow>
    AddHeader proto p = Inr p1 \<Longrightarrow>
    tx_step qops node_id chs this s
      (apply_fx fx (s\<lparr>s_dev := dev, s_accepted := s_accepted s @ (if ok then [p1] else [])\<rparr>))"
| tx_wait: "s_now s < t \<Longrightarrow> unat t < 2 ^ 63 \<Longrightarrow> \<forall>c \<in> set (s_timers s). t \<le> c \<Longrightarrow>
    tx_step qops node_id chs this s
      (s\<lparr>s_now := t,
         s_busy := s_busy s + (if d_txMachineState (s_dev s) = BUSY then unat t - unat (s_now s) else 0)\<rparr>)"
| tx_complete: "s_timers s = s_now s # rest \<Longrightarrow>
    TransmitComplete qops node_id chs this (s_now s) (s_dev s) = Inr (dev, fx) \<Longrightarrow>
    tx_step qops node_id chs this s (apply_fx fx (s\<lparr>s_dev := dev, s_timers := rest\<rparr>))"
| tx_slot: "time_slot (s_now s) (s_dev s) = (r, dev) \<Longrightarrow>
    tx_step qops node_id chs this s (s\<lparr>s_dev := dev, s_busy := 0, s_mark := s_now s\<rparr>)"

inductive_cases tx_stepE: "tx_step qops node_id chs this s s'"

text \<open>The part of the history that \<open>time_slot\<close> would report now.\<close>

definition reported :: "u64 \<Rightarrow> 'q p2p_device \<Rightarrow> u64" where
  "reported now dev = fst (fst (time_slot now dev))"

definition tx_inv ::
  "('q \<Rightarrow> bool) \<Rightarrow> ('q \<Rightarrow> packet list) \<Rightarrow> (nat \<rightharpoonup> p2p_channel) \<Rightarrow> 'q tx_system \<Rightarrow> bool" where
  "tx_inv qvalid items chs s \<longleftrightarrow>
     device_inv qvalid items (s_dev s) \<and> link_ready chs (s_dev s) \<and> unat (s_now s) < 2 ^ 63 \<and>
     (d_txMachineState (s_dev s) = READY \<longrightarrow> s_timers s = []) \<and>
     (d_txMachineState (s_dev s) = BUSY \<longrightarrow> (\<exists>t. s_timers s = [t] \<and> s_now s \<le> t)) \<and>
     s_accepted s = s_wire s @ items (d_queue (s_dev s)) \<and>
     reported (s_now s) (s_dev s) = of_nat (s_busy s) \<and>
     s_mark s \<le> s_now s \<and> s_busy s \<le> unat (s_now s) - unat (s_mark s)"

definition tx_start :: "'q p2p_device \<Rightarrow> 'q tx_system" where
  "tx_start dev =
     \<lparr>s_dev = dev, s_now = 0, s_timers = [], s_accepted = [], s_wire = [], s_busy = 0, s_mark = 0\<rparr>"

section \<open>Correctness of the operations\<close>

lemma tx_time:
  assumes "length (pk_bytes p) \<le> 65535" "bps \<noteq> 0"
  shows "\<exists>t. CalculateBytesTxTime bps (Packet_GetSize p) = Inr t \<and>
    unat t = (length (pk_bytes p) * 8 * 10 ^ 9) div unat bps \<and> unat t < 2 ^ 50"
proof -
  have b: "unat (Packet_GetSize p * 8) = length (pk_bytes p) * 8"
    using assms(1) by (simp add: Packet_GetSize_def unat_word_ariths unat_of_nat)
  have le: "(length (pk_bytes p) * 8 * 10 ^ 9) div unat bps \<le> 65535 * 8 * 10 ^ 9"
    using assms(1) by (intro order_trans [OF div_le_dividend]) simp
  then have "unat (of_nat ((length (pk_bytes p) * 8 * 10 ^ 9) div unat bps) :: u64) =
      (length (pk_bytes p) * 8 * 10 ^ 9) div unat bps"
    by (simp add: unsigned_of_nat take_bit_nat_eq_self)
  with b assms(2) le show ?thesis by (simp add: CalculateBytesTxTime_def defined_if_def)
qed

lemma link_ready_update [simp]:
  "link_ready chs (dev\<lparr>d_queue := q\<rparr>) = link_ready chs dev"
  "link_ready chs (dev\<lparr>d_txMachineState := st\<rparr>) = link_ready chs dev"
  "link_ready chs (dev\<lparr>d_currentPkt := c\<rparr>) = link_ready chs dev"
  "link_ready chs (dev\<lparr>d_history := h\<rparr>) = link_ready chs dev"
  by (simp_all add: link_ready_def)

lemma start_tx_simps [simp]:
  "d_txMachineState (start_tx now dev) = d_txMachineState dev" "d_currentPkt (start_tx now dev) = d_currentPkt dev"
  "d_queue (start_tx now dev) = d_queue dev" "link_ready chs (start_tx now dev) = link_ready chs dev"
  "\<not> was_down (d_history (start_tx now dev))"
  by (simp_all add: start_tx_def)

lemma TransmitStart_ok:
  assumes l: "link_ready chs dev" and r: "d_txMachineState dev = READY" and n: "length (pk_bytes p) \<le> 65535"
  shows "\<exists>d t fx. TransmitStart node_id chs this now p dev =
      Inr (True, start_tx now (dev\<lparr>d_txMachineState := BUSY, d_currentPkt := Some p\<rparr>), fx) \<and>
    tx_timers fx = [d] \<and> on_wire fx = [(t, p)] \<and> unat d < 2 ^ 63 \<and> crosses chs this dev p (deliveries fx)"
proof -
  from l obtain ch where ch: "chs (d_channel dev) = Some ch" "l_state (ch_link0 ch) \<noteq> INITIALIZING"
      "l_state (ch_link1 ch) \<noteq> INITIALIZING" "unat (ch_delay ch) < 2 ^ 62"
    and dv: "d_bps dev \<noteq> 0" "unat (d_tInterframeGap dev) < 2 ^ 62" by (auto simp: link_ready_def)
  from tx_time [OF n dv(1)] obtain tx where
    tx: "CalculateBytesTxTime (d_bps dev) (Packet_GetSize p) = Inr tx" "unat tx < 2 ^ 50"
      "unat tx = length (pk_bytes p) * 8 * 10 ^ 9 div unat (d_bps dev)" by blast
  have a: "unat tx + unat (d_tInterframeGap dev) < 2 ^ 63" using tx(2) dv(2) by simp
  have b: "unat tx + unat (ch_delay ch) < 2 ^ 63" using tx(2) ch(4) by simp
  note ta = Time_add_ok [OF a] and tb = Time_add_ok [OF b]
  show ?thesis
    using ch tx r ta tb a
    by (simp add: TransmitStart_def ns_assert_def PointToPointChannel_TransmitStart_def Packet_Copy_def crosses_def Let_def)
qed

lemma AddHeader_size: "AddHeader proto p = Inr p1 \<Longrightarrow> length (pk_bytes p1) = length (pk_bytes p) + 2"
  by (auto simp: AddHeader_def EtherToPpp_def Packet_AddHeader_def PppHeader_Serialize_def split: if_splits)

lemma reported_alt:
  "reported now dev = up_duration (d_history dev) +
     (if was_down (d_history dev) then 0 else now - h_start_tx (d_history dev))"
  by (simp add: reported_def time_slot_def Let_def)

locale p2p_on = fifo_queue qops qvalid items okitem
  for qops :: "('q, packet) queue_ops" and qvalid items okitem +
  assumes short_ok: "length (pk_bytes p) \<le> 65535 \<Longrightarrow> okitem p"
begin

abbreviation dinv :: "'q p2p_device \<Rightarrow> bool" where
  "dinv \<equiv> device_inv qvalid items"

abbreviation tinv :: "(nat \<rightharpoonup> p2p_channel) \<Rightarrow> 'q tx_system \<Rightarrow> bool" where
  "tinv \<equiv> tx_inv qvalid items"

text \<open>\<open>Send\<close> on a ready and on a busy device.\<close>

lemma send_ready:
  assumes i: "dinv dev" and l: "link_ready chs dev" and r: "d_txMachineState dev = READY"
    and p1: "AddHeader proto p = Inr p1" and n: "length (pk_bytes p) \<le> 65533"
  shows "\<exists>dev' fx d t. Send qops node_id chs this now p proto dev = Inr (True, dev', fx) \<and> dinv dev' \<and>
    link_ready chs dev' \<and> d_txMachineState dev' = BUSY \<and> items (d_queue dev') = [] \<and>
    tx_timers fx = [d] \<and> unat d < 2 ^ 63 \<and> on_wire fx = [(t, p1)] \<and>
    up_duration (d_history dev') = up_duration (d_history dev) \<and> h_start_tx (d_history dev') = now \<and>
    crosses chs this dev p1 (deliveries fx)"
proof -
  have n1: "length (pk_bytes p1) \<le> 65535" using AddHeader_size [OF p1] n by simp
  have q: "qvalid (d_queue dev)" "items (d_queue dev) = []" "was_down (d_history dev)"
    using i r by (simp_all add: device_inv_def)
  from pass_through [OF q(1) short_ok [OF n1] q(2)] obtain q1 q2 where
    q12: "op_Enqueue qops p1 (d_queue dev) = Inr (True, q1)" "op_Dequeue qops q1 = Inr (Some p1, q2)"
      "qvalid q2" "items q2 = []" by blast
  have "link_ready chs (dev\<lparr>d_queue := q2\<rparr>)" using l by simp
  from TransmitStart_ok [OF this _ n1, of node_id this now] r obtain d t fx where
    t: "TransmitStart node_id chs this now p1 (dev\<lparr>d_queue := q2\<rparr>) =
        Inr (True, start_tx now (dev\<lparr>d_queue := q2, d_txMachineState := BUSY, d_currentPkt := Some p1\<rparr>), fx)"
      "tx_timers fx = [d]" "on_wire fx = [(t, p1)]" "unat d < 2 ^ 63" "crosses chs this dev p1 (deliveries fx)"
    by (auto simp: crosses_def)
  have lu: "d_linkUp dev" using l by (simp add: link_ready_def)
  let ?dev = "start_tx now (dev\<lparr>d_queue := q2, d_txMachineState := BUSY, d_currentPkt := Some p1\<rparr>)"
  have s: "Send qops node_id chs this now p proto dev = Inr (True, ?dev,
      [FireTrace MacTx p1, FireTrace Sniffer p1, FireTrace PromiscSniffer p1] @ fx)"
    using lu p1 q12 r t by (simp add: Send_def Let_def)
  have "dinv ?dev" "link_ready chs ?dev" using q12 l by (simp_all add: device_inv_def)
  moreover have "up_duration (d_history ?dev) = up_duration (d_history dev)" "h_start_tx (d_history ?dev) = now"
    using q(3) by (simp_all add: start_tx_def)
  ultimately show ?thesis using s q12 t by simp
qed

lemma send_busy:
  assumes i: "dinv dev" and l: "link_ready chs dev" and b: "d_txMachineState dev = BUSY"
    and p1: "AddHeader proto p = Inr p1" and n: "length (pk_bytes p) \<le> 65533"
  shows "\<exists>ok dev' fx. Send qops node_id chs this now p proto dev = Inr (ok, dev', fx) \<and> dinv dev' \<and>
    link_ready chs dev' \<and> d_txMachineState dev' = BUSY \<and> d_history dev' = d_history dev \<and>
    items (d_queue dev') = items (d_queue dev) @ (if ok then [p1] else []) \<and>
    tx_timers fx = [] \<and> on_wire fx = []"
proof -
  have n1: "length (pk_bytes p1) \<le> 65535" using AddHeader_size [OF p1] n by simp
  have q: "qvalid (d_queue dev)" "\<forall>p \<in> set (items (d_queue dev)). length (pk_bytes p) \<le> 65535"
    "d_currentPkt dev \<noteq> None" "\<not> was_down (d_history dev)"
    using i b by (auto simp: device_inv_def)
  from enqueue_law [OF q(1) short_ok [OF n1]] obtain ok q1 where
    q1: "op_Enqueue qops p1 (d_queue dev) = Inr (ok, q1)" "qvalid q1"
      "items q1 = (if ok then items (d_queue dev) @ [p1] else items (d_queue dev))" by blast
  have s: "Send qops node_id chs this now p proto dev = Inr (ok, dev\<lparr>d_queue := q1\<rparr>,
      if ok then [FireTrace MacTx p1] else [FireTrace MacTx p1, FireTrace MacTxDrop p1])"
    using l p1 q1 b by (simp add: Send_def link_ready_def Let_def)
  have "dinv (dev\<lparr>d_queue := q1\<rparr>)" "link_ready chs (dev\<lparr>d_queue := q1\<rparr>)"
    using q q1 b n1 l by (auto simp: device_inv_def)
  with s q1 b show ?thesis by auto
qed

text \<open>\<open>TransmitComplete\<close> on a busy device: no assertion fails, and the next packet goes out.\<close>

lemma complete_busy:
  assumes i: "dinv dev" and l: "link_ready chs dev" and b: "d_txMachineState dev = BUSY"
  shows "\<exists>dev' fx. TransmitComplete qops node_id chs this now dev = Inr (dev', fx) \<and> dinv dev' \<and>
    link_ready chs dev' \<and>
    (case items (d_queue dev) of
       [] \<Rightarrow> d_txMachineState dev' = READY \<and> tx_timers fx = [] \<and> on_wire fx = [] \<and>
             items (d_queue dev') = [] \<and>
             up_duration (d_history dev') =
               up_duration (d_history dev) + (now - h_start_tx (d_history dev))
     | p # ps \<Rightarrow> d_txMachineState dev' = BUSY \<and> (\<exists>d. tx_timers fx = [d] \<and> unat d < 2 ^ 63) \<and>
             map snd (on_wire fx) = [p] \<and> items (d_queue dev') = ps \<and>
             d_history dev' = d_history dev \<and> crosses chs this dev p (deliveries fx))"
proof -
  from i b obtain cur where c: "d_currentPkt dev = Some cur" "\<not> was_down (d_history dev)"
    and q: "qvalid (d_queue dev)" by (auto simp: device_inv_def)
  from dequeue_law [OF q] obtain q1 where
    q1: "op_Dequeue qops (d_queue dev) = Inr (case items (d_queue dev) of [] \<Rightarrow> None | p # _ \<Rightarrow> Some p, q1)"
      "qvalid q1" "items q1 = tl (items (d_queue dev))" by blast
  let ?d1 = "dev\<lparr>d_txMachineState := READY, d_currentPkt := None, d_queue := q1\<rparr>"
  have l1: "link_ready chs ?d1" using l by simp
  show ?thesis
  proof (cases "items (d_queue dev)")
    case Nil
    then have "TransmitComplete qops node_id chs this now dev = Inr (stopped_tx now ?d1, [FireTrace PhyTxEnd cur])"
      using b c q1 by (simp add: TransmitComplete_def Let_def)
    moreover have "dinv (stopped_tx now ?d1)" "link_ready chs (stopped_tx now ?d1)"
      using q1 Nil l by (simp_all add: device_inv_def stopped_tx_def)
    ultimately show ?thesis using q1 Nil by (simp add: stopped_tx_def)
  next
    case (Cons p ps)
    then have n: "length (pk_bytes p) \<le> 65535" "\<forall>p \<in> set ps. length (pk_bytes p) \<le> 65535"
      using i by (simp_all add: device_inv_def)
    from TransmitStart_ok [OF l1 _ n(1), of node_id this now] obtain d t fx where
      t: "TransmitStart node_id chs this now p ?d1 = Inr (True, start_tx now
          (?d1\<lparr>d_txMachineState := BUSY, d_currentPkt := Some p\<rparr>), fx)"
        "tx_timers fx = [d]" "on_wire fx = [(t, p)]" "unat d < 2 ^ 63" "crosses chs this dev p (deliveries fx)" by (auto simp: crosses_def)
    let ?dev = "start_tx now (?d1\<lparr>d_txMachineState := BUSY, d_currentPkt := Some p\<rparr>)"
    have "TransmitComplete qops node_id chs this now dev = Inr (?dev,
        [FireTrace PhyTxEnd cur, FireTrace Sniffer p, FireTrace PromiscSniffer p] @ fx)"
      using b c q1 Cons t(1) by (simp add: TransmitComplete_def Let_def)
    moreover have "dinv ?dev" using q1 Cons n by (simp add: device_inv_def)
    moreover have "link_ready chs ?dev" using l by simp
    moreover have "d_history ?dev = d_history dev" using c(2) by (simp add: start_tx_def)
    ultimately show ?thesis using t q1 Cons by simp
  qed
qed

text \<open>Every step keeps the invariant of the transmitter.\<close>

lemma timer_ahead: "unat (now :: u64) < 2 ^ 63 \<Longrightarrow> unat (d :: u64) < 2 ^ 63 \<Longrightarrow> now \<le> now + d"
  by (subst word_le_nat_alt, subst unat_add_nowrap) simp_all

lemma send_step:
  assumes inv: "tinv chs s" and n: "length (pk_bytes p) \<le> 65533" and p1: "AddHeader proto p = Inr p1"
    and s: "Send qops node_id chs this (s_now s) p proto (s_dev s) = Inr (ok, dev, fx)"
  shows "tinv chs (apply_fx fx (s\<lparr>s_dev := dev, s_accepted := s_accepted s @ (if ok then [p1] else [])\<rparr>))"
proof (cases "d_txMachineState (s_dev s)")
  case READY
  have i: "dinv (s_dev s)" "link_ready chs (s_dev s)" using inv by (simp_all add: tx_inv_def)
  from send_ready [OF this READY p1 n, of node_id this "s_now s"] s obtain d t where
    r: "ok" "dinv dev" "link_ready chs dev" "d_txMachineState dev = BUSY" "items (d_queue dev) = []"
      "tx_timers fx = [d]" "unat d < 2 ^ 63" "on_wire fx = [(t, p1)]"
      "up_duration (d_history dev) = up_duration (d_history (s_dev s))" "h_start_tx (d_history dev) = s_now s"
    by auto
  moreover have "was_down (d_history (s_dev s))" "items (d_queue (s_dev s)) = []"
    using i(1) READY by (simp_all add: device_inv_def)
  ultimately show ?thesis
    using inv READY timer_ahead [of "s_now s" d] by (simp add: tx_inv_def apply_fx_def reported_alt)
next
  case BUSY
  have i: "dinv (s_dev s)" "link_ready chs (s_dev s)" using inv by (simp_all add: tx_inv_def)
  from send_busy [OF this BUSY p1 n, of node_id this "s_now s"] s have
    "dinv dev" "link_ready chs dev" "d_txMachineState dev = BUSY" "d_history dev = d_history (s_dev s)"
    "items (d_queue dev) = items (d_queue (s_dev s)) @ (if ok then [p1] else [])"
    "tx_timers fx = []" "on_wire fx = []" by auto
  then show ?thesis using inv BUSY by (auto simp: tx_inv_def apply_fx_def reported_alt)
qed

lemma complete_step:
  assumes inv: "tinv chs s" and t: "s_timers s = s_now s # rest"
    and c: "TransmitComplete qops node_id chs this (s_now s) (s_dev s) = Inr (dev, fx)"
  shows "tinv chs (apply_fx fx (s\<lparr>s_dev := dev, s_timers := rest\<rparr>))"
proof -
  have i: "dinv (s_dev s)" "link_ready chs (s_dev s)" using inv by (simp_all add: tx_inv_def)
  have b: "d_txMachineState (s_dev s) = BUSY" using inv t by (cases "d_txMachineState (s_dev s)") (auto simp: tx_inv_def)
  then have nd: "\<not> was_down (d_history (s_dev s))" "rest = []"
    using i(1) inv t by (auto simp: device_inv_def tx_inv_def)
  note cb = complete_busy [OF i b, of node_id this "s_now s"]
  show ?thesis
  proof (cases "items (d_queue (s_dev s))")
    case Nil
    with cb c have r: "dinv dev" "link_ready chs dev" "d_txMachineState dev = READY" "tx_timers fx = []"
      "on_wire fx = []" "items (d_queue dev) = []"
      "up_duration (d_history dev) = up_duration (d_history (s_dev s)) +
         (s_now s - h_start_tx (d_history (s_dev s)))" by auto
    moreover have "was_down (d_history dev)" using r(1,3) by (simp add: device_inv_def)
    ultimately show ?thesis using inv nd Nil by (simp add: tx_inv_def apply_fx_def reported_alt)
  next
    case (Cons p ps)
    with cb c obtain d where "dinv dev" "link_ready chs dev" "d_txMachineState dev = BUSY" "tx_timers fx = [d]"
      "unat d < 2 ^ 63" "map snd (on_wire fx) = [p]" "items (d_queue dev) = ps"
      "d_history dev = d_history (s_dev s)" by auto
    then show ?thesis
      using inv nd Cons timer_ahead [of "s_now s" d] by (simp add: tx_inv_def apply_fx_def reported_alt)
  qed
qed

lemma wait_step:
  assumes inv: "tinv chs s" and t: "s_now s < t" "unat t < 2 ^ 63" "\<forall>c \<in> set (s_timers s). t \<le> c"
  shows "tinv chs (s\<lparr>s_now := t,
    s_busy := s_busy s + (if d_txMachineState (s_dev s) = BUSY then unat t - unat (s_now s) else 0)\<rparr>)"
proof -
  have lt: "unat (s_now s) < unat t" using t(1) by (simp add: word_less_nat_alt)
  have d: "of_nat (unat t - unat (s_now s)) = t - s_now s" using lt by (simp add: of_nat_diff)
  have w: "was_down (d_history (s_dev s)) \<longleftrightarrow> d_txMachineState (s_dev s) = READY"
    using inv by (simp add: tx_inv_def device_inv_def)
  have "s_mark s \<le> s_now s" and b: "s_busy s \<le> unat (s_now s) - unat (s_mark s)"
    using inv by (simp_all add: tx_inv_def)
  with t(1) b have m: "s_mark s \<le> t" "unat (s_mark s) \<le> unat (s_now s)" "s_busy s \<le> unat (s_now s) - unat (s_mark s)"
    by (simp_all add: word_le_nat_alt word_less_nat_alt)
  have "s_busy s + (unat t - unat (s_now s)) \<le> unat t - unat (s_mark s)" using m lt by linarith
  moreover have "s_busy s \<le> unat t - unat (s_mark s)" using m lt by linarith
  moreover have r: "up_duration (d_history (s_dev s)) + (s_now s - h_start_tx (d_history (s_dev s))) =
      of_nat (s_busy s)" if "\<not> was_down (d_history (s_dev s))"
    using that inv by (simp add: tx_inv_def reported_alt)
  ultimately show ?thesis
    using inv t m(1) w d
    by (cases "d_txMachineState (s_dev s)") (auto simp: tx_inv_def reported_alt simp flip: r)
qed

lemma slot_step:
  assumes inv: "tinv chs s" and t: "time_slot (s_now s) (s_dev s) = (r, dev)"
  shows "tinv chs (s\<lparr>s_dev := dev, s_busy := 0, s_mark := s_now s\<rparr>)"
    and "unat (fst r) = s_busy s" and "s_busy s \<le> unat (s_now s) - unat (s_mark s)"
proof -
  from inv show b: "s_busy s \<le> unat (s_now s) - unat (s_mark s)" by (simp add: tx_inv_def)
  moreover have "unat (s_now s) < 2 ^ 63" using inv by (simp add: tx_inv_def)
  ultimately have "s_busy s < 2 ^ 64" by simp
  moreover have "fst r = of_nat (s_busy s)" using inv t by (simp add: tx_inv_def reported_def)
  ultimately show "unat (fst r) = s_busy s" by (simp add: unsigned_of_nat take_bit_nat_eq_self)
  let ?h = "d_history (s_dev s)"
  have "dev = (s_dev s)\<lparr>d_history := (if was_down ?h then ?h else ?h
      \<lparr>up_duration := up_duration ?h + (s_now s - h_start_tx ?h), h_start_tx := s_now s\<rparr>)\<lparr>up_duration := 0\<rparr>\<rparr>"
    using t by (auto simp: time_slot_def Let_def)
  with inv show "tinv chs (s\<lparr>s_dev := dev, s_busy := 0, s_mark := s_now s\<rparr>)"
    by (simp add: tx_inv_def device_inv_def reported_alt)
qed

lemma step_inv:
  assumes "tx_step qops node_id chs this s s'" "tinv chs s"
  shows "tinv chs s'"
  using assms
proof (induction rule: tx_step.induct)
  case (tx_send p s proto ok dev fx p1)
  then show ?case by (intro send_step)
next
  case (tx_wait s t)
  then show ?case by (intro wait_step)
next
  case (tx_complete s rest dev fx)
  then show ?case by (intro complete_step)
next
  case (tx_slot s r dev)
  then show ?case by (intro slot_step(1))
qed

lemma steps_inv: "(tx_step qops node_id chs this)\<^sup>*\<^sup>* s s' \<Longrightarrow> tinv chs s \<Longrightarrow> tinv chs s'"
  by (induction rule: rtranclp_induct) (auto intro: step_inv)

lemma start_inv:
  assumes "dinv dev" "link_ready chs dev" "d_txMachineState dev = READY" "up_duration (d_history dev) = 0"
  shows "tinv chs (tx_start dev)"
  using assms by (simp add: tx_inv_def tx_start_def reported_alt device_inv_def)

text \<open>No reachable state is stuck on an assertion.\<close>

lemma reachable_safe:
  assumes "tinv chs s"
  shows "length (pk_bytes p) \<le> 65533 \<Longrightarrow> proto \<in> {0x0800, 0x86DD} \<Longrightarrow>
      \<exists>r. Send qops node_id chs this (s_now s) p proto (s_dev s) = Inr r"
    and "s_timers s \<noteq> [] \<Longrightarrow> \<exists>r. TransmitComplete qops node_id chs this (s_now s) (s_dev s) = Inr r"
proof -
  have i: "dinv (s_dev s)" "link_ready chs (s_dev s)" using assms by (simp_all add: tx_inv_def)
  { assume n: "length (pk_bytes p) \<le> 65533" and "proto \<in> {0x0800, 0x86DD}"
    then obtain p1 where p1: "AddHeader proto p = Inr p1" by (auto simp: AddHeader_def EtherToPpp_def)
    show "\<exists>r. Send qops node_id chs this (s_now s) p proto (s_dev s) = Inr r"
      using send_ready [OF i _ p1 n] send_busy [OF i _ p1 n] by (cases "d_txMachineState (s_dev s)") blast+ }
  assume "s_timers s \<noteq> []"
  then have "d_txMachineState (s_dev s) = BUSY"
    using assms by (cases "d_txMachineState (s_dev s)") (auto simp: tx_inv_def)
  from complete_busy [OF i this] show "\<exists>r. TransmitComplete qops node_id chs this (s_now s) (s_dev s) = Inr r"
    by blast
qed

end

interpretation drop_tail_device: p2p_on "DropTailQueue_ops Packet_GetSize"
  "DropTailQueue_valid Packet_GetSize" m_packets "small_item Packet_GetSize"
  by unfold_locales (simp add: small_item_def Packet_GetSize_def unsigned_of_nat take_bit_nat_eq_self)

section \<open>A concrete link\<close>

definition demo_channels :: "nat \<rightharpoonup> p2p_channel" where
  "demo_channels = [1 \<mapsto> \<lparr>ch_delay = 2000, ch_nDevices = 2,
     ch_link0 = \<lparr>l_state = IDLE, l_src = 1, l_dst = 2\<rparr>, ch_link1 = \<lparr>l_state = IDLE, l_src = 2, l_dst = 1\<rparr>\<rparr>]"

definition demo_device :: "packet queue p2p_device" where
  "demo_device = (PointToPointNetDevice_new DropTailQueue_new 8000000 5)\<lparr>d_channel := 1, d_linkUp := True\<rparr>"

definition demo_packet :: packet where
  "demo_packet = \<lparr>pk_uid = 1, pk_tags = [], pk_bytes = [1, 2]\<rparr>"

definition demo_sent :: "packet queue tx_system" where
  "demo_sent =
     (case Send (DropTailQueue_ops Packet_GetSize) (\<lambda>d. 0) demo_channels 1 0 demo_packet 0x0800 demo_device of
        Inl _ \<Rightarrow> tx_start demo_device
      | Inr (ok, dev, fx) \<Rightarrow>
          apply_fx fx ((tx_start demo_device)\<lparr>s_dev := dev,
            s_accepted := s_accepted (tx_start demo_device) @
              (if ok then [demo_packet\<lparr>pk_bytes := [0, 0x21, 1, 2]\<rparr>] else [])\<rparr>))"

lemma demo_device_ok:
  "device_inv (DropTailQueue_valid Packet_GetSize) m_packets demo_device"
  "link_ready demo_channels demo_device" "d_txMachineState demo_device = READY"
  "up_duration (d_history demo_device) = 0"
  by (simp_all add: device_inv_def demo_device_def PointToPointNetDevice_new_def new_queue_ok
      link_ready_def demo_channels_def)

lemma demo_header: "AddHeader 0x0800 demo_packet = Inr (demo_packet\<lparr>pk_bytes := [0, 0x21, 1, 2]\<rparr>)"
  by (simp add: AddHeader_def EtherToPpp_def Packet_AddHeader_def PppHeader_Serialize_def WriteHtonU16_def
      demo_packet_def)

lemma demo_run:
  "(tx_step (DropTailQueue_ops Packet_GetSize) (\<lambda>d. 0) demo_channels 1)\<^sup>*\<^sup>* (tx_start demo_device) demo_sent"
proof (rule r_into_rtranclp)
  have n: "length (pk_bytes demo_packet) \<le> 65533" by (simp add: demo_packet_def)
  from drop_tail_device.send_ready [OF demo_device_ok(1-3) demo_header n, of "\<lambda>d. 0" 1 0] obtain dev fx where
    s: "Send (DropTailQueue_ops Packet_GetSize) (\<lambda>d. 0) demo_channels 1 0 demo_packet 0x0800 demo_device =
      Inr (True, dev, fx)" by blast
  have "s_now (tx_start demo_device) = 0" "s_dev (tx_start demo_device) = demo_device"
    by (simp_all add: tx_start_def)
  with tx_send [OF n _ demo_header, of "DropTailQueue_ops Packet_GetSize" "\<lambda>d. 0" demo_channels 1
      "tx_start demo_device"] s
  show "tx_step (DropTailQueue_ops Packet_GetSize) (\<lambda>d. 0) demo_channels 1 (tx_start demo_device) demo_sent"
    by (simp add: demo_sent_def)
qed

lemma demo_sent_busy: "d_txMachineState (s_dev demo_sent) = BUSY"
proof -
  have n: "length (pk_bytes demo_packet) \<le> 65533" by (simp add: demo_packet_def)
  from drop_tail_device.send_ready [OF demo_device_ok(1-3) demo_header n, of "\<lambda>d. 0" 1 0] obtain dev fx where
    "Send (DropTailQueue_ops Packet_GetSize) (\<lambda>d. 0) demo_channels 1 0 demo_packet 0x0800 demo_device =
      Inr (True, dev, fx)" "d_txMachineState dev = BUSY" by blast
  then show ?thesis by (simp add: demo_sent_def apply_fx_def)
qed

section \<open>Properties\<close>

text \<open>
  C9. The transmitter is work-conserving and first in, first out. In every state a device with a
  drop-tail queue can reach, the packets accepted by \<open>Send\<close> are exactly those put on the wire,
  in the same order, followed by those waiting in the queue; packets wait only while the
  device is busy; and a device is busy exactly when one completion event is pending.
\<close>

theorem transmitter_fifo:
  assumes "device_inv (DropTailQueue_valid Packet_GetSize) m_packets dev" and "link_ready chs dev"
    and "d_txMachineState dev = READY" and "up_duration (d_history dev) = 0"
    and "(tx_step (DropTailQueue_ops Packet_GetSize) node_id chs this)\<^sup>*\<^sup>* (tx_start dev) s"
  shows "s_accepted s = s_wire s @ m_packets (d_queue (s_dev s)) \<and>
    (d_txMachineState (s_dev s) = READY \<longrightarrow> s_wire s = s_accepted s \<and> s_timers s = []) \<and>
    (d_txMachineState (s_dev s) = BUSY \<longrightarrow> (\<exists>t. s_timers s = [t] \<and> s_now s \<le> t))"
  using drop_tail_device.steps_inv [OF assms(5) drop_tail_device.start_inv [OF assms(1-4)]]
  by (auto simp: tx_inv_def device_inv_def)

theorem transmitter_fifo_witness:
  "s_accepted demo_sent = s_wire demo_sent @ m_packets (d_queue (s_dev demo_sent)) \<and>
    (\<exists>t. s_timers demo_sent = [t] \<and> s_now demo_sent \<le> t)"
  using transmitter_fifo [OF demo_device_ok demo_run] demo_sent_busy by blast

text \<open>
  C10. The transmitter never trips an assertion. In every reachable state, sending an IPv4 or
  IPv6 packet of at most 65533 bytes returns, and so does the pending completion event: the
  checks \<open>Must be READY to transmit\<close>, \<open>Must be BUSY if transmitting\<close> and \<open>m_currentPkt zero\<close> hold. And
  exactly one completion event is pending, not in the past, while the transmitter is busy, and none while it
  is ready.
\<close>

theorem transmitter_safe:
  assumes "device_inv (DropTailQueue_valid Packet_GetSize) m_packets dev" and "link_ready chs dev"
    and "d_txMachineState dev = READY" and "up_duration (d_history dev) = 0"
    and "(tx_step (DropTailQueue_ops Packet_GetSize) node_id chs this)\<^sup>*\<^sup>* (tx_start dev) s"
    and "length (pk_bytes p) \<le> 65533" and "proto = 0x0800 \<or> proto = 0x86DD"
  shows "(\<exists>ok dev' fx. Send (DropTailQueue_ops Packet_GetSize) node_id chs this (s_now s) p proto (s_dev s) =
      Inr (ok, dev', fx)) \<and>
    (s_timers s \<noteq> [] \<longrightarrow> (\<exists>dev' fx.
      TransmitComplete (DropTailQueue_ops Packet_GetSize) node_id chs this (s_now s) (s_dev s) = Inr (dev', fx))) \<and>
    (case d_txMachineState (s_dev s) of READY \<Rightarrow> s_timers s = [] | BUSY \<Rightarrow> (\<exists>t. s_timers s = [t] \<and> s_now s \<le> t))"
proof -
  note inv = drop_tail_device.steps_inv [OF assms(5) drop_tail_device.start_inv [OF assms(1-4)]]
  then have "case d_txMachineState (s_dev s) of READY \<Rightarrow> s_timers s = [] | BUSY \<Rightarrow> (\<exists>t. s_timers s = [t] \<and> s_now s \<le> t)"
    by (simp add: tx_inv_def split: TxMachineState.split)
  with drop_tail_device.reachable_safe [OF inv] assms(6,7) show ?thesis by fastforce
qed

theorem transmitter_safe_witness:
  "\<exists>dev' fx. TransmitComplete (DropTailQueue_ops Packet_GetSize) (\<lambda>d. 0) demo_channels 1 (s_now demo_sent)
     (s_dev demo_sent) = Inr (dev', fx)"
proof -
  have "s_timers demo_sent \<noteq> []"
    using drop_tail_device.steps_inv [OF demo_run drop_tail_device.start_inv [OF demo_device_ok]] demo_sent_busy
    by (auto simp: tx_inv_def)
  moreover have "length (pk_bytes demo_packet) \<le> 65533" by (simp add: demo_packet_def)
  ultimately show ?thesis
    using transmitter_safe [OF demo_device_ok demo_run, of demo_packet "0x0800"] by blast
qed

text \<open>
  C11. The busy-time history is exact. Whenever the load balancer calls \<open>time_slot\<close> on a device in
  a reachable state, the duration it gets is the time the device was busy since the previous
  call, to the nanosecond, and never more than the time elapsed since that call.
\<close>

theorem time_slot_exact:
  assumes "device_inv (DropTailQueue_valid Packet_GetSize) m_packets dev" and "link_ready chs dev"
    and "d_txMachineState dev = READY" and "up_duration (d_history dev) = 0"
    and "(tx_step (DropTailQueue_ops Packet_GetSize) node_id chs this)\<^sup>*\<^sup>* (tx_start dev) s"
  shows "unat (fst (fst (time_slot (s_now s) (s_dev s)))) = s_busy s \<and>
    s_busy s \<le> unat (s_now s) - unat (s_mark s)"
proof -
  note inv = drop_tail_device.steps_inv [OF assms(5) drop_tail_device.start_inv [OF assms(1-4)]]
  show ?thesis using drop_tail_device.slot_step(2,3) [OF inv prod.collapse [symmetric]] by simp
qed

theorem time_slot_exact_witness:
  "unat (fst (fst (time_slot (s_now demo_sent) (s_dev demo_sent)))) = s_busy demo_sent \<and>
    s_busy demo_sent \<le> unat (s_now demo_sent) - unat (s_mark demo_sent)"
  by (rule time_slot_exact [OF demo_device_ok demo_run])

lemma joined_channel:
  assumes "bind_res (PointToPointChannel_Attach a (PointToPointChannel_new\<lparr>ch_delay := delay\<rparr>)) (PointToPointChannel_Attach b) = Inr ch"
  shows "ch = \<lparr>ch_delay = delay, ch_nDevices = 2, ch_link0 = \<lparr>l_state = IDLE, l_src = a, l_dst = b\<rparr>,
    ch_link1 = \<lparr>l_state = IDLE, l_src = b, l_dst = a\<rparr>\<rparr>"
  using assms
  by (auto simp: PointToPointChannel_Attach_def PointToPointChannel_new_def N_DEVICES_def Link_new_def ns_assert_def Let_def split: if_splits)

lemma header_round_trip: "AddHeader proto p = Inr p1 \<Longrightarrow> ProcessHeader p1 = Inr (proto, p)"
  by (auto simp: AddHeader_def EtherToPpp_def ProcessHeader_def Packet_RemoveHeader_def Packet_AddHeader_def
      PppHeader_Serialize_def PppHeader_Deserialize_def PppHeader_GetSerializedSize_def PppToEther_def split: if_splits)

text \<open>
  C12. Crossing a link gives back the packet. On a channel to which two devices have been attached, either
  device puts a packet on the wire in two ways: \<open>Send\<close> while it is ready, or \<open>TransmitComplete\<close> while it
  is busy and the packet, with its PPP header, is the next in the queue. In both cases the channel schedules one
  delivery: to the other device, after the time to transmit the packet with its header plus the delay
  of the channel, to the nanosecond. That device hands the packet to the layer above with the original
  bytes, tags, id and protocol number, as coming from the address of the sender, unless the error
  model marks it corrupt.
\<close>

theorem link_round_trip:
  assumes "bind_res (PointToPointChannel_Attach a (PointToPointChannel_new\<lparr>ch_delay := delay\<rparr>)) (PointToPointChannel_Attach b) = Inr ch"
    and "a \<noteq> b" and "this = a \<and> peer = b \<or> this = b \<and> peer = a"
    and "chs (d_channel dev) = Some ch" and "d_channel rdev = d_channel dev"
    and "device_inv (DropTailQueue_valid Packet_GetSize) m_packets dev" and "link_ready chs dev"
    and "AddHeader proto p = Inr p1" and "length (pk_bytes p) \<le> 65533"
    and "d_txMachineState dev = READY \<and>
         Send (DropTailQueue_ops Packet_GetSize) node_id chs this now p proto dev = Inr (ok, dev', fx) \<or>
       d_txMachineState dev = BUSY \<and> m_packets (d_queue dev) = p1 # rest \<and>
         TransmitComplete (DropTailQueue_ops Packet_GetSize) node_id chs this now dev = Inr (dev', fx)"
  shows "\<exists>d. deliveries fx = [(d, peer, p1)] \<and>
    unat d = (length (pk_bytes p) + 2) * 8 * 10 ^ 9 div unat (d_bps dev) + unat delay \<and>
    (\<not> corrupt p1 \<longrightarrow> (\<exists>gx. Receive (Some corrupt) address_of chs peer p1 rdev =
       Inr (gx @ [FireTrace MacRx p1, CallRx p proto (address_of this)])))"
proof -
  note ch = joined_channel [OF assms(1)]
  have "crosses chs this dev p1 (deliveries fx)"
    using assms(10) drop_tail_device.send_ready [OF assms(6,7) _ assms(8,9), of node_id this now]
      drop_tail_device.complete_busy [OF assms(6,7), of node_id this now] by auto
  then obtain d where d: "deliveries fx = [(d, peer, p1)]"
    "unat d = (length (pk_bytes p) + 2) * 8 * 10 ^ 9 div unat (d_bps dev) + unat delay"
    using assms(2,3,4) ch AddHeader_size [OF assms(8)] by (auto simp: crosses_def)
  have "Receive (Some corrupt) address_of chs peer p1 rdev =
      Inr (([FireTrace Sniffer p1, FireTrace PromiscSniffer p1, FireTrace PhyRxEnd p1] @
        (if d_promisc rdev then [FireTrace MacPromiscRx p1, CallPromiscRx p proto (address_of this) (d_address rdev)] else [])) @
        [FireTrace MacRx p1, CallRx p proto (address_of this)])" if "\<not> corrupt p1"
    using that header_round_trip [OF assms(8)] assms(2-5) ch
    by (auto simp: Receive_def GetRemote_def Packet_Copy_def ns_assert_def Let_def)
  with d show ?thesis by blast
qed

theorem link_round_trip_witness:
  "\<exists>dev fx d p1. Send (DropTailQueue_ops Packet_GetSize) (\<lambda>d. 0) demo_channels 1 0 demo_packet 0x0800 demo_device = Inr (True, dev, fx) \<and>
     deliveries fx = [(d, 2, p1)] \<and> unat d = 6000 \<and>
     (\<exists>gx. Receive (Some (\<lambda>p. False)) of_nat demo_channels 2 p1 demo_device =
        Inr (gx @ [FireTrace MacRx p1, CallRx demo_packet 0x0800 1]))"
proof -
  have n: "length (pk_bytes demo_packet) \<le> 65533" by (simp add: demo_packet_def)
  from drop_tail_device.send_ready [OF demo_device_ok(1-3) demo_header n, of "\<lambda>d. 0" 1 0] obtain dev fx where
    s: "Send (DropTailQueue_ops Packet_GetSize) (\<lambda>d. 0) demo_channels 1 0 demo_packet 0x0800 demo_device = Inr (True, dev, fx)" by blast
  let ?ch = "\<lparr>ch_delay = 2000, ch_nDevices = 2, ch_link0 = \<lparr>l_state = IDLE, l_src = 1, l_dst = 2\<rparr>,
    ch_link1 = \<lparr>l_state = IDLE, l_src = 2, l_dst = 1\<rparr>\<rparr>"
  have j: "bind_res (PointToPointChannel_Attach 1 (PointToPointChannel_new\<lparr>ch_delay := 2000\<rparr>)) (PointToPointChannel_Attach 2) = Inr ?ch"
    by (simp add: PointToPointChannel_Attach_def PointToPointChannel_new_def N_DEVICES_def Link_new_def Let_def)
  have c: "demo_channels (d_channel demo_device) = Some ?ch" by (simp add: demo_channels_def demo_device_def)
  have "\<exists>d. deliveries fx = [(d, 2, demo_packet\<lparr>pk_bytes := [0, 0x21, 1, 2]\<rparr>)] \<and>
    unat d = (length (pk_bytes demo_packet) + 2) * 8 * 10 ^ 9 div unat (d_bps demo_device) + unat (2000 :: u64) \<and>
    (\<not> False \<longrightarrow> (\<exists>gx. Receive (Some (\<lambda>p. False)) of_nat demo_channels 2 (demo_packet\<lparr>pk_bytes := [0, 0x21, 1, 2]\<rparr>) demo_device =
       Inr (gx @ [FireTrace MacRx (demo_packet\<lparr>pk_bytes := [0, 0x21, 1, 2]\<rparr>), CallRx demo_packet 0x0800 (of_nat 1)])))"
    by (rule link_round_trip [OF j _ _ c refl demo_device_ok(1,2) demo_header n, where corrupt = "\<lambda>p. False"]) (use s demo_device_ok(3) in auto)
  then show ?thesis using s by (auto simp: demo_packet_def demo_device_def PointToPointNetDevice_new_def)
qed

text \<open>
  Setting up a channel. Attaching two distinct devices to a new channel connects each one's
  wire to the other and brings both links up; attaching a third one trips the assertion that
  only two devices are permitted.
\<close>

theorem channel_setup:
  assumes "a \<noteq> 0" and "b \<noteq> 0"
  shows "\<exists>ch. bind_res (PointToPointChannel_Attach a PointToPointChannel_new) (PointToPointChannel_Attach b) = Inr ch \<and>
    PointToPointChannel_IsInitialized ch = Inr True \<and>
    l_src (ch_link0 ch) = a \<and> l_dst (ch_link0 ch) = b \<and> l_src (ch_link1 ch) = b \<and> l_dst (ch_link1 ch) = a \<and>
    (\<forall>c. PointToPointChannel_Attach c ch = Inl Assert)"
  using assms
  by (simp add: PointToPointChannel_Attach_def PointToPointChannel_new_def N_DEVICES_def Link_new_def
      PointToPointChannel_IsInitialized_def ns_assert_def Let_def)

theorem channel_setup_witness:
  "\<exists>ch. bind_res (PointToPointChannel_Attach 1 PointToPointChannel_new) (PointToPointChannel_Attach 2) = Inr ch \<and>
    PointToPointChannel_IsInitialized ch = Inr True \<and>
    l_src (ch_link0 ch) = 1 \<and> l_dst (ch_link0 ch) = 2 \<and> l_src (ch_link1 ch) = 2 \<and> l_dst (ch_link1 ch) = 1 \<and>
    (\<forall>c. PointToPointChannel_Attach c ch = Inl Assert)"
  by (rule channel_setup) simp_all

end
