(* ===== verification/Ipv4_Address.thy ===== *)
theory Ipv4_Address
  imports Packet
begin

text \<open>
  \<open>src/network/utils/ipv4-address.{h,cc}\<close>: IPv4 addresses and masks as 32-bit words in host
  order, their text form and their byte form. The flag \<open>m_initialized\<close> of an address is not
  modelled: only \<open>IsInitialized\<close> reads it.
\<close>

type_synonym ipv4 = u32

section \<open>Text to address\<close>

definition ASCII_DOT :: char where "ASCII_DOT = CHR ''.''"
definition ASCII_SLASH :: char where "ASCII_SLASH = CHR ''/''"

text \<open>
  The loops of \<open>AsciiToIpv4Host\<close>: \<open>prev\<close> is the character before the pointer, the byte under
  construction is 8 bits wide and wraps. A string has no embedded null character.
\<close>

fun AsciiToIpv4Host_loop :: "string \<Rightarrow> char option \<Rightarrow> u8 \<Rightarrow> u32 \<Rightarrow> u8 \<Rightarrow> u32 res" where
  "AsciiToIpv4Host_loop [] prev byte host dots =
     (case prev of
        None \<Rightarrow> Inl Undefined
      | Some c \<Rightarrow> ns_assert (c \<noteq> ASCII_DOT) (ns_assert (dots = 3) (Inr (push_bit 8 host OR ucast byte))))"
| "AsciiToIpv4Host_loop (c # cs) prev byte host dots =
     (if c = ASCII_DOT then
        ns_assert (take 1 cs \<noteq> [ASCII_DOT])
          (AsciiToIpv4Host_loop cs (Some c) 0 (push_bit 8 host OR ucast byte) (dots + 1))
      else AsciiToIpv4Host_loop cs (Some c) (byte * 10 + (of_char c - 48)) host dots)"

definition AsciiToIpv4Host :: "string \<Rightarrow> u32 res" where
  "AsciiToIpv4Host address =
     ns_assert (take 1 address \<noteq> [ASCII_DOT]) (AsciiToIpv4Host_loop address None 0 0 0)"

section \<open>Masks\<close>

text \<open>\<open>std::atoi\<close> on the digits after the slash: the digits up to the first other character.\<close>

definition is_digit :: "char \<Rightarrow> bool" where
  "is_digit c \<longleftrightarrow> (48 :: nat) \<le> of_char c \<and> (of_char c :: nat) \<le> 57"

definition atoi :: "string \<Rightarrow> nat" where
  "atoi s = foldl (\<lambda>n c. n * 10 + (of_char c - 48)) 0 (takeWhile is_digit s)"

definition Ipv4Mask_from_string :: "string \<Rightarrow> u32 res" where
  "Ipv4Mask_from_string msk =
     (case msk of
        [] \<Rightarrow> AsciiToIpv4Host msk
      | c # rest \<Rightarrow>
          if c = ASCII_SLASH then
            let plen = atoi rest in
            ns_assert (plen \<le> 32)
              (Inr (if plen > 0 then push_bit (32 - plen) 0xffffffff else 0))
          else AsciiToIpv4Host msk)"

definition Ipv4Mask_IsMatch :: "u32 \<Rightarrow> ipv4 \<Rightarrow> ipv4 \<Rightarrow> bool" where
  "Ipv4Mask_IsMatch msk a b \<longleftrightarrow> a AND msk = b AND msk"

definition Ipv4Mask_GetInverse :: "u32 \<Rightarrow> u32" where
  "Ipv4Mask_GetInverse msk = NOT msk"

definition Ipv4Mask_GetLoopback :: u32 where "Ipv4Mask_GetLoopback = 0xff000000"
definition Ipv4Mask_GetZero :: u32 where "Ipv4Mask_GetZero = 0"
definition Ipv4Mask_GetOnes :: u32 where "Ipv4Mask_GetOnes = 0xffffffff"

text \<open>The loop of \<open>GetPrefixLength\<close>: it ends when the last bit has been shifted out.\<close>

lemma push_bit_out: "push_bit 32 (m :: u32) = 0"
  by (rule bit_word_eqI) (simp add: bit_simps)

lemma push_bit_pred: "0 < k \<Longrightarrow> push_bit (k - 1) (push_bit 1 (m :: u32)) = push_bit k m"
  by (subst push_bit_push_bit) simp

function GetPrefixLength_loop :: "u32 \<Rightarrow> u16 \<Rightarrow> u16" where
  "GetPrefixLength_loop msk tmp =
     (if msk \<noteq> 0 then GetPrefixLength_loop (push_bit 1 msk) (tmp + 1) else tmp)"
  by auto

termination
proof (relation "measure (\<lambda>(m, tmp). LEAST k. push_bit k m = 0)")
  fix msk :: u32 and tmp :: u16
  assume nz: "msk \<noteq> 0"
  let ?P = "\<lambda>k. push_bit k msk = 0"
  have least: "?P (LEAST k. ?P k)" by (rule LeastI [of _ 32]) (rule push_bit_out)
  moreover have pos: "(LEAST k. ?P k) \<noteq> 0" using least nz by (metis push_bit_0_id id_apply)
  ultimately have "push_bit ((LEAST k. ?P k) - 1) (push_bit 1 msk) = 0"
    by (subst push_bit_pred) simp_all
  from Least_le [of "\<lambda>k. push_bit k (push_bit 1 msk) = 0", OF this] pos
  show "((push_bit 1 msk, tmp + 1), msk, tmp) \<in> measure (\<lambda>(m, tmp). LEAST k. push_bit k m = 0)"
    by simp
qed simp

declare GetPrefixLength_loop.simps [simp del]

definition Ipv4Mask_GetPrefixLength :: "u32 \<Rightarrow> u16" where
  "Ipv4Mask_GetPrefixLength msk = GetPrefixLength_loop msk 0"

section \<open>Addresses\<close>

definition Ipv4Address_CombineMask :: "ipv4 \<Rightarrow> u32 \<Rightarrow> ipv4" where
  "Ipv4Address_CombineMask a msk = a AND msk"

definition Ipv4Address_GetSubnetDirectedBroadcast :: "ipv4 \<Rightarrow> u32 \<Rightarrow> ipv4 res" where
  "Ipv4Address_GetSubnetDirectedBroadcast a msk =
     (if msk = Ipv4Mask_GetOnes then Inl Assert else Inr (a OR Ipv4Mask_GetInverse msk))"

definition Ipv4Address_IsSubnetDirectedBroadcast :: "ipv4 \<Rightarrow> u32 \<Rightarrow> bool" where
  "Ipv4Address_IsSubnetDirectedBroadcast a msk =
     (if msk = Ipv4Mask_GetOnes then False else (a OR Ipv4Mask_GetInverse msk) = a)"

definition Ipv4Address_IsAny :: "ipv4 \<Rightarrow> bool" where
  "Ipv4Address_IsAny a \<longleftrightarrow> a = 0"

definition Ipv4Address_IsLocalhost :: "ipv4 \<Rightarrow> bool" where
  "Ipv4Address_IsLocalhost a \<longleftrightarrow> a = 0x7f000001"

definition Ipv4Address_IsBroadcast :: "ipv4 \<Rightarrow> bool" where
  "Ipv4Address_IsBroadcast a \<longleftrightarrow> a = 0xffffffff"

definition Ipv4Address_IsMulticast :: "ipv4 \<Rightarrow> bool" where
  "Ipv4Address_IsMulticast a \<longleftrightarrow> a \<ge> 0xe0000000 \<and> a \<le> 0xefffffff"

definition Ipv4Address_IsLocalMulticast :: "ipv4 \<Rightarrow> bool" where
  "Ipv4Address_IsLocalMulticast a \<longleftrightarrow> a AND 0xffffff00 = 0xe0000000"

definition Ipv4Address_Serialize :: "ipv4 \<Rightarrow> bytes" where
  "Ipv4Address_Serialize a =
     [ucast (drop_bit 24 a), ucast (drop_bit 16 a), ucast (drop_bit 8 a), ucast a]"

definition Ipv4Address_Deserialize :: "bytes \<Rightarrow> ipv4 res" where
  "Ipv4Address_Deserialize buf =
     defined_if (4 \<le> length buf)
       (Inr (push_bit 8 (push_bit 8 (push_bit 8 (ucast (buf ! 0)) OR ucast (buf ! 1)) OR ucast (buf ! 2))
             OR ucast (buf ! 3)))"

text \<open>\<open>operator <<\<close> on an unsigned number: its decimal digits.\<close>

fun dec_string :: "nat \<Rightarrow> string" where
  "dec_string n = (if n < 10 then [char_of (48 + n)] else dec_string (n div 10) @ [char_of (48 + n mod 10)])"

declare dec_string.simps [simp del]

definition Ipv4Address_Print :: "ipv4 \<Rightarrow> string" where
  "Ipv4Address_Print a =
     dec_string (unat (drop_bit 24 a AND 0xff)) @ [ASCII_DOT] @
     dec_string (unat (drop_bit 16 a AND 0xff)) @ [ASCII_DOT] @
     dec_string (unat (drop_bit 8 a AND 0xff)) @ [ASCII_DOT] @
     dec_string (unat (a AND 0xff))"

section \<open>Prefix masks\<close>

text \<open>The mask of the first \<open>n\<close> bits.\<close>

definition prefix_mask :: "nat \<Rightarrow> u32" where
  "prefix_mask n = push_bit (32 - n) (- 1)"

lemma prefix_mask_eq: "prefix_mask n = push_bit (32 - n) 0xffffffff"
proof -
  have "(- 1 :: u32) = 0xffffffff" by simp
  then show ?thesis unfolding prefix_mask_def by (rule arg_cong)
qed

lemma bit_prefix_mask: "bit (prefix_mask n) i \<longleftrightarrow> 32 - n \<le> i \<and> i < 32"
  by (auto simp: prefix_mask_def bit_simps)

lemma push_ones_nonzero: "s < 32 \<Longrightarrow> push_bit s (- 1 :: u32) \<noteq> 0"
proof
  assume s: "s < 32" and z: "push_bit s (- 1 :: u32) = 0"
  have "bit (push_bit s (- 1 :: u32)) s" using s by (simp add: bit_simps del: push_bit_minus_one)
  with z show False by simp
qed

lemma GetPrefixLength_loop_ones:
  assumes "s \<le> 32"
  shows "GetPrefixLength_loop (push_bit s (- 1)) tmp = tmp + of_nat (32 - s)"
  using assms
proof (induction "32 - s" arbitrary: s tmp)
  case 0
  then have "s = 32" by simp
  moreover have "GetPrefixLength_loop 0 tmp = tmp" by (simp add: GetPrefixLength_loop.simps)
  ultimately show ?case by (simp only: push_bit_out) simp
next
  case (Suc k)
  then have s: "s < 32" "Suc (31 - s) = 32 - s" by simp_all
  have nz: "push_bit s (- 1 :: u32) \<noteq> 0" using s(1) by (rule push_ones_nonzero)
  have "GetPrefixLength_loop (push_bit s (- 1)) tmp = GetPrefixLength_loop (push_bit (Suc s) (- 1)) (tmp + 1)"
    by (subst GetPrefixLength_loop.simps) (simp only: nz push_bit_push_bit plus_1_eq_Suc if_True simp_thms)
  also have "\<dots> = tmp + 1 + of_nat (32 - Suc s)" using Suc s(1) by (intro Suc.hyps(1)) simp_all
  finally show ?case using s by (simp flip: s(2) add: add.assoc)
qed

lemma IsMatch_prefix:
  assumes "n \<le> 32"
  shows "Ipv4Mask_IsMatch (prefix_mask n) a b \<longleftrightarrow> drop_bit (32 - n) a = drop_bit (32 - n) b"
proof -
  have "Ipv4Mask_IsMatch (prefix_mask n) a b \<longleftrightarrow> (\<forall>i < 32. 32 - n \<le> i \<longrightarrow> bit a i = bit b i)"
    by (auto simp: Ipv4Mask_IsMatch_def bit_eq_iff bit_and_iff bit_prefix_mask possible_bit_word)
  also have "\<dots> \<longleftrightarrow> (\<forall>j < n. bit a (32 - n + j) = bit b (32 - n + j))"
  proof
    assume h: "\<forall>j < n. bit a (32 - n + j) = bit b (32 - n + j)"
    show "\<forall>i < 32. 32 - n \<le> i \<longrightarrow> bit a i = bit b i"
    proof (intro allI impI)
      fix i :: nat
      assume "i < 32" "32 - n \<le> i"
      with assms have "i - (32 - n) < n" "32 - n + (i - (32 - n)) = i" by linarith+
      with h show "bit a i = bit b i" by metis
    qed
  qed (use assms in auto)
  also have "\<dots> \<longleftrightarrow> drop_bit (32 - n) a = drop_bit (32 - n) b"
  proof -
    have "bit x (32 - n + j) = False" if "\<not> j < n" for x :: u32 and j
      using that assms bit_imp_le_length [of x "32 - n + j"] by auto
    then show ?thesis using assms by (auto simp: bit_eq_iff bit_drop_bit_eq possible_bit_word)
  qed
  finally show ?thesis .
qed

section \<open>Text round trip\<close>

lemma digit_value: "d < 10 \<Longrightarrow> (of_char (char_of (48 + d)) :: u8) = 48 + of_nat d"
  using of_nat_of_char [of "char_of (48 + d)", where 'a = "8 word"] by simp

lemma digit_not_dot: "d < 10 \<Longrightarrow> char_of (48 + d :: nat) \<noteq> ASCII_DOT"
proof
  assume d: "d < 10" and "char_of (48 + d :: nat) = ASCII_DOT"
  then have "of_char (char_of (48 + d :: nat)) = (of_char ASCII_DOT :: nat)" by simp
  with d show False by (simp add: ASCII_DOT_def)
qed

lemma dec_string_head: "take 1 (dec_string n @ rest) \<noteq> [ASCII_DOT]"
proof (induction n arbitrary: rest rule: dec_string.induct)
  case (1 n)
  show ?case
  proof (cases "n < 10")
    case True
    then show ?thesis using digit_not_dot [of n] by (subst dec_string.simps) simp
  next
    case False
    with 1 show ?thesis by (subst dec_string.simps) simp
  qed
qed

lemma loop_dec_string:
  "\<exists>c. c \<noteq> ASCII_DOT \<and> AsciiToIpv4Host_loop (dec_string n @ rest) prev 0 host dots =
     AsciiToIpv4Host_loop rest (Some c) (of_nat n) host dots"
proof (induction n arbitrary: rest rule: dec_string.induct)
  case (1 n)
  show ?case
  proof (cases "n < 10")
    case True
    then show ?thesis
      using digit_not_dot [of n] digit_value [of n] by (subst dec_string.simps) auto
  next
    case False
    let ?d = "char_of (48 + n mod 10)"
    have d: "?d \<noteq> ASCII_DOT" "(of_char ?d :: u8) = 48 + of_nat (n mod 10)"
      by (simp_all add: digit_not_dot digit_value)
    have v: "of_nat (n div 10) * 10 + of_nat (n mod 10) = (of_nat n :: u8)"
      by (metis div_mult_mod_eq of_nat_add of_nat_mult of_nat_numeral)
    from 1 [OF False, of "?d # rest"] obtain c where
      "AsciiToIpv4Host_loop (dec_string (n div 10) @ ?d # rest) prev 0 host dots =
       AsciiToIpv4Host_loop (?d # rest) (Some c) (of_nat (n div 10)) host dots" by blast
    then have "AsciiToIpv4Host_loop (dec_string n @ rest) prev 0 host dots =
       AsciiToIpv4Host_loop rest (Some ?d) (of_nat n) host dots"
      using False d v by (subst dec_string.simps) simp
    with d(1) show ?thesis by blast
  qed
qed

lemma low_byte: "of_nat (unat ((w :: u32) AND 0xff)) = (ucast w :: u8)"
proof -
  have m: "(0xff :: u32) = mask 8" by (simp add: mask_eq_exp_minus_1)
  have "of_nat (unat (w AND mask 8)) = (ucast (w AND mask 8) :: u8)" by (simp only: of_nat_unat)
  also have "\<dots> = ucast w" by (rule bit_word_eqI) (auto simp: bit_simps)
  finally show ?thesis unfolding m .
qed

lemma loop_field_dot:
  assumes "take 1 rest \<noteq> [ASCII_DOT]"
  shows "AsciiToIpv4Host_loop (dec_string (unat (w AND 0xff)) @ ASCII_DOT # rest) prev 0 host dots =
     AsciiToIpv4Host_loop rest (Some ASCII_DOT) 0 (push_bit 8 host OR ucast (ucast (w :: u32) :: u8)) (dots + 1)"
  using loop_dec_string [of "unat (w AND 0xff)" "ASCII_DOT # rest" prev host dots] assms
  unfolding low_byte by auto

lemma loop_field_end:
  "AsciiToIpv4Host_loop (dec_string (unat (w AND 0xff))) prev 0 host 3 =
     Inr (push_bit 8 host OR ucast (ucast (w :: u32) :: u8))"
  using loop_dec_string [of "unat (w AND 0xff)" "[]" prev host 3] unfolding low_byte by auto

lemma Print_round_trip: "AsciiToIpv4Host (Ipv4Address_Print a) = Inr a"
proof -
  have h: "take 1 (dec_string n @ r) \<noteq> [ASCII_DOT]" "take 1 (dec_string n) \<noteq> [ASCII_DOT]" for n r
    using dec_string_head [of n r] dec_string_head [of n "[]"] by simp_all
  show ?thesis
    unfolding AsciiToIpv4Host_def Ipv4Address_Print_def append.simps
    by (simp only: h loop_field_dot loop_field_end ns_assert_def simp_thms if_True append_assoc append_Cons
        append_Nil) (simp add: loop_field_end join_u32)
qed

end
