(* ===== verification/Ipv4_Allocation.thy ===== *)
theory Ipv4_Allocation
  imports Ipv4_Address
begin

text \<open>
  \<open>src/internet/model/ipv4-address-generator.cc\<close> and \<open>src/internet/helper/ipv4-address-helper.cc\<close>:
  the record of allocated addresses with its duplicate detection, the table of networks, and
  the helper that gives the interfaces of a topology their addresses.
\<close>

section \<open>Data\<close>

definition N_BITS :: nat where "N_BITS = 32"

record network_state =
  ns_mask :: u32
  ns_shift :: nat
  ns_network :: u32
  ns_addr :: u32
  ns_addrMax :: u32

record entry =
  addrLow :: u32
  addrHigh :: u32

record generator =
  m_netTable :: "network_state list"
  m_entries :: "entry list"
  m_test :: bool

text \<open>The loop of \<open>Reset\<close> over the table of networks: one more leading bit at every index.\<close>

fun Generator_Reset_loop :: "nat \<Rightarrow> nat \<Rightarrow> u32 \<Rightarrow> network_state list" where
  "Generator_Reset_loop 0 i msk = []"
| "Generator_Reset_loop (Suc k) i msk =
     \<lparr>ns_mask = msk, ns_shift = N_BITS - i, ns_network = 1, ns_addr = 1, ns_addrMax = NOT msk\<rparr> #
     Generator_Reset_loop k (i + 1) (drop_bit 1 msk OR 0x80000000)"

definition Generator_Reset :: generator where
  "Generator_Reset = \<lparr>m_netTable = Generator_Reset_loop N_BITS 0 0, m_entries = [], m_test = False\<rparr>"

definition Generator_TestMode :: "generator \<Rightarrow> generator" where
  "Generator_TestMode g = g\<lparr>m_test := True\<rparr>"

text \<open>\<open>MaskToIndex\<close>: 32 less the number of trailing zero bits.\<close>

fun MaskToIndex_loop :: "nat \<Rightarrow> nat \<Rightarrow> u32 \<Rightarrow> nat res" where
  "MaskToIndex_loop 0 i maskBits = Inl Assert"
| "MaskToIndex_loop (Suc k) i maskBits =
     (if maskBits AND 1 \<noteq> 0 then
        let index = N_BITS - i in
        if index > 0 \<and> index < N_BITS then Inr index else Inl Fatal
      else MaskToIndex_loop k (i + 1) (drop_bit 1 maskBits))"

definition Generator_MaskToIndex :: "u32 \<Rightarrow> nat res" where
  "Generator_MaskToIndex msk = MaskToIndex_loop N_BITS 0 msk"

section \<open>Allocated addresses\<close>

text \<open>A collision is fatal, except in test mode, where it is only reported.\<close>

definition collision :: "bool \<Rightarrow> 'a \<Rightarrow> 'a res" where
  "collision test r = (if \<not> test then Inl Fatal else Inr r)"

text \<open>
  The loop of \<open>AddAllocated\<close>. Leaving the loop inserts a new block at the iterator, here in
  front of the remaining blocks.
\<close>

fun AddAllocated_loop :: "bool \<Rightarrow> u32 \<Rightarrow> entry list \<Rightarrow> (bool \<times> entry list) res" where
  "AddAllocated_loop test addr [] = Inr (True, [\<lparr>addrLow = addr, addrHigh = addr\<rparr>])"
| "AddAllocated_loop test addr (i # rest) =
     (if addr \<ge> addrLow i \<and> addr \<le> addrHigh i then collision test (False, i # rest)
      else if addr < addrLow i - 1 then Inr (True, \<lparr>addrLow = addr, addrHigh = addr\<rparr> # i # rest)
      else if addr = addrHigh i + 1 then
        (case rest of
           [] \<Rightarrow> Inr (True, i\<lparr>addrHigh := addr\<rparr> # rest)
         | j # _ \<Rightarrow> if addr = addrLow j then collision test (False, i # rest)
                   else Inr (True, i\<lparr>addrHigh := addr\<rparr> # rest))
      else if addr = addrLow i - 1 then Inr (True, i\<lparr>addrLow := addr\<rparr> # rest)
      else bind_res (AddAllocated_loop test addr rest) (\<lambda>(ok, rest'). Inr (ok, i # rest')))"

definition Generator_AddAllocated :: "ipv4 \<Rightarrow> generator \<Rightarrow> (bool \<times> generator) res" where
  "Generator_AddAllocated addr g =
     (if addr = 0 then Inl Fatal
      else bind_res (AddAllocated_loop (m_test g) addr (m_entries g)) (\<lambda>(ok, es).
             Inr (ok, g\<lparr>m_entries := es\<rparr>)))"

definition Generator_IsAddressAllocated :: "ipv4 \<Rightarrow> generator \<Rightarrow> bool res" where
  "Generator_IsAddressAllocated addr g =
     (if addr = 0 then Inl Fatal
      else Inr (\<not> list_ex (\<lambda>i. addr \<ge> addrLow i \<and> addr \<le> addrHigh i) (m_entries g)))"

definition Generator_IsNetworkAllocated :: "ipv4 \<Rightarrow> u32 \<Rightarrow> generator \<Rightarrow> bool res" where
  "Generator_IsNetworkAllocated addr msk g =
     (if addr \<noteq> Ipv4Address_CombineMask addr msk then Inl Fatal
      else Inr (\<not> list_ex (\<lambda>i. addr = Ipv4Address_CombineMask (addrLow i) msk \<or>
                             addr = Ipv4Address_CombineMask (addrHigh i) msk) (m_entries g)))"

section \<open>Networks\<close>

text \<open>The table has 32 entries, and an index is below 32.\<close>

definition Generator_Init :: "ipv4 \<Rightarrow> u32 \<Rightarrow> ipv4 \<Rightarrow> generator \<Rightarrow> generator res" where
  "Generator_Init net msk addr g =
     (if net AND NOT msk \<noteq> 0 then Inl Fatal
      else if addr AND msk \<noteq> 0 then Inl Fatal
      else bind_res (Generator_MaskToIndex msk) (\<lambda>index.
             let n = m_netTable g ! index in
             if \<not> addr \<le> ns_addrMax n then Inl Fatal
             else Inr (g\<lparr>m_netTable := (m_netTable g)[index :=
                    n\<lparr>ns_network := drop_bit (ns_shift n) net, ns_addr := addr\<rparr>]\<rparr>)))"

definition Generator_GetNetwork :: "u32 \<Rightarrow> generator \<Rightarrow> ipv4 res" where
  "Generator_GetNetwork msk g =
     bind_res (Generator_MaskToIndex msk) (\<lambda>index.
       let n = m_netTable g ! index in Inr (push_bit (ns_shift n) (ns_network n)))"

definition Generator_NextNetwork :: "u32 \<Rightarrow> generator \<Rightarrow> (ipv4 \<times> generator) res" where
  "Generator_NextNetwork msk g =
     bind_res (Generator_MaskToIndex msk) (\<lambda>index.
       let n = m_netTable g ! index; n1 = n\<lparr>ns_network := ns_network n + 1\<rparr> in
       Inr (push_bit (ns_shift n1) (ns_network n1), g\<lparr>m_netTable := (m_netTable g)[index := n1]\<rparr>))"

definition Generator_InitAddress :: "ipv4 \<Rightarrow> u32 \<Rightarrow> generator \<Rightarrow> generator res" where
  "Generator_InitAddress addr msk g =
     bind_res (Generator_MaskToIndex msk) (\<lambda>index.
       let n = m_netTable g ! index in
       if \<not> addr \<le> ns_addrMax n then Inl Fatal
       else Inr (g\<lparr>m_netTable := (m_netTable g)[index := n\<lparr>ns_addr := addr\<rparr>]\<rparr>))"

definition Generator_GetAddress :: "u32 \<Rightarrow> generator \<Rightarrow> ipv4 res" where
  "Generator_GetAddress msk g =
     bind_res (Generator_MaskToIndex msk) (\<lambda>index.
       let n = m_netTable g ! index in Inr (push_bit (ns_shift n) (ns_network n) OR ns_addr n))"

definition Generator_NextAddress :: "u32 \<Rightarrow> generator \<Rightarrow> (ipv4 \<times> generator) res" where
  "Generator_NextAddress msk g =
     bind_res (Generator_MaskToIndex msk) (\<lambda>index.
       let n = m_netTable g ! index in
       if \<not> ns_addr n \<le> ns_addrMax n then Inl Fatal
       else
         let addr = push_bit (ns_shift n) (ns_network n) OR ns_addr n;
             g1 = g\<lparr>m_netTable := (m_netTable g)[index := n\<lparr>ns_addr := ns_addr n + 1\<rparr>]\<rparr>
         in bind_res (Generator_AddAllocated addr g1) (\<lambda>(ok, g2). Inr (addr, g2)))"

section \<open>The address helper\<close>

record address_helper =
  h_network :: u32
  h_mask :: u32
  h_address :: u32
  h_base :: u32
  h_shift :: u32
  h_max :: u32

definition AddressHelper_new :: address_helper where
  "AddressHelper_new =
     \<lparr>h_network = 0xffffffff, h_mask = 0, h_address = 0xffffffff, h_base = 0xffffffff,
      h_shift = 0xffffffff, h_max = 0xffffffff\<rparr>"

fun NumAddressBits_loop :: "nat \<Rightarrow> nat \<Rightarrow> u32 \<Rightarrow> u32 res" where
  "NumAddressBits_loop 0 i maskbits = Inl Assert"
| "NumAddressBits_loop (Suc k) i maskbits =
     (if maskbits AND 1 \<noteq> 0 then Inr (of_nat i)
      else NumAddressBits_loop k (i + 1) (drop_bit 1 maskbits))"

definition AddressHelper_NumAddressBits :: "u32 \<Rightarrow> u32 res" where
  "AddressHelper_NumAddressBits maskbits = NumAddressBits_loop N_BITS 0 maskbits"

text \<open>
  \<open>1 << m_shift\<close> is a shift of a signed 32-bit \<open>int\<close>; \<open>NumAddressBits\<close> is at most 31, and the
  shift by 31 is kept at its 32 bits.
\<close>

definition AddressHelper_SetBase :: "ipv4 \<Rightarrow> u32 \<Rightarrow> ipv4 \<Rightarrow> address_helper res" where
  "AddressHelper_SetBase network msk address =
     ns_assert (network AND NOT msk = 0)
       (bind_res (AddressHelper_NumAddressBits msk) (\<lambda>shift.
          let mx = push_bit (unat shift) 1 - 2 in
          ns_assert (shift \<le> 32)
            (Inr \<lparr>h_network = drop_bit (unat shift) network, h_mask = msk, h_address = address,
                  h_base = address, h_shift = shift, h_max = mx\<rparr>)))"

definition AddressHelper_NewAddress ::
  "address_helper \<Rightarrow> generator \<Rightarrow> (ipv4 \<times> address_helper \<times> generator) res" where
  "AddressHelper_NewAddress h g =
     ns_assert (h_address h \<le> h_max h)
       (let addr = push_bit (unat (h_shift h)) (h_network h) OR h_address h;
            h1 = h\<lparr>h_address := h_address h + 1\<rparr>
        in bind_res (Generator_AddAllocated addr g) (\<lambda>(ok, g1). Inr (addr, h1, g1)))"

definition AddressHelper_NewNetwork :: "address_helper \<Rightarrow> ipv4 \<times> address_helper" where
  "AddressHelper_NewNetwork h =
     (let h1 = h\<lparr>h_network := h_network h + 1, h_address := h_base h\<rparr>
      in (push_bit (unat (h_shift h1)) (h_network h1), h1))"

text \<open>The addresses \<open>Assign\<close> gives to \<open>n\<close> devices, in order.\<close>

fun AddressHelper_Assign ::
  "nat \<Rightarrow> address_helper \<Rightarrow> generator \<Rightarrow> (ipv4 list \<times> address_helper \<times> generator) res" where
  "AddressHelper_Assign 0 h g = Inr ([], h, g)"
| "AddressHelper_Assign (Suc n) h g =
     bind_res (AddressHelper_NewAddress h g) (\<lambda>(a, h1, g1).
     bind_res (AddressHelper_Assign n h1 g1) (\<lambda>(as, h2, g2). Inr (a # as, h2, g2)))"

section \<open>The set of allocated addresses\<close>

definition block :: "entry \<Rightarrow> u32 set" where
  "block e = {addrLow e .. addrHigh e}"

definition allocated :: "entry list \<Rightarrow> u32 set" where
  "allocated es = (\<Union>e \<in> set es. block e)"

text \<open>Blocks are not empty, do not start at zero, and are in increasing order.\<close>

fun blocks_ok :: "entry list \<Rightarrow> bool" where
  "blocks_ok [] \<longleftrightarrow> True"
| "blocks_ok [e] \<longleftrightarrow> 0 < addrLow e \<and> addrLow e \<le> addrHigh e"
| "blocks_ok (e # f # es) \<longleftrightarrow>
     0 < addrLow e \<and> addrLow e \<le> addrHigh e \<and> addrHigh e < addrLow f \<and> blocks_ok (f # es)"

lemma allocated_simps [simp]:
  "allocated [] = {}" "allocated (e # es) = {addrLow e .. addrHigh e} \<union> allocated es"
  by (simp_all add: allocated_def block_def)

lemma blocks_ok_Cons:
  "blocks_ok (e # es) \<longleftrightarrow>
     0 < addrLow e \<and> addrLow e \<le> addrHigh e \<and> (\<forall>x \<in> allocated es. addrHigh e < x) \<and> blocks_ok es"
proof (induction es arbitrary: e)
  case (Cons f es)
  have "(\<forall>x \<in> allocated (f # es). addrHigh e < x) \<longleftrightarrow> addrHigh e < addrLow f" if "blocks_ok (f # es)"
  proof -
    from that [unfolded Cons.IH] have f: "addrLow f \<le> addrHigh f" "\<forall>x \<in> allocated es. addrHigh f < x" by simp_all
    show ?thesis
    proof
      assume "addrHigh e < addrLow f"
      with f show "\<forall>x \<in> allocated (f # es). addrHigh e < x" by (auto intro: less_le_trans less_trans)
    qed (use f in auto)
  qed
  then show ?case by auto
qed simp

lemma succ_iff: "a \<noteq> 0 \<Longrightarrow> a = b + 1 \<longleftrightarrow> unat (a :: u32) = unat b + 1"
proof -
  assume a: "a \<noteq> 0"
  have "unat (b + 1) = (if unat b + 1 < 4294967296 then unat b + 1 else 0)"
  proof (cases "unat b + 1 < 4294967296")
    case True
    then show ?thesis using unat_inc_nowrap [of b] by simp
  next
    case False
    then have "unat b + 1 = 4294967296" using unat_u32_lt [of b] by linarith
    then show ?thesis by (simp add: unat_word_ariths)
  qed
  moreover have "unat a \<noteq> 0" using a by (simp add: unat_eq_zero)
  moreover have "unat a < 4294967296" by simp
  ultimately show ?thesis unfolding word_unat_eq_iff by (metis)
qed

lemma pred_nat: "0 < a \<Longrightarrow> unat (a - 1 :: u32) = unat a - 1"
  by (simp add: unat_sub word_le_nat_alt word_less_nat_alt)

text \<open>
  \<open>AddAllocated\<close> adds exactly the new address to the set, and reports a collision exactly when the
  address is in it.
\<close>

lemma AddAllocated_loop_correct:
  assumes "blocks_ok es" "addr \<noteq> 0"
  shows "if addr \<in> allocated es then AddAllocated_loop test addr es = collision test (False, es)
    else \<exists>es'. AddAllocated_loop test addr es = Inr (True, es') \<and> blocks_ok es' \<and>
      allocated es' = insert addr (allocated es)"
  using assms(1)
proof (induction es)
  case Nil
  have "0 < addr" using assms(2) by (simp add: word_gt_0)
  then show ?case by auto
next
  case (Cons i rest)
  have i: "0 < addrLow i" "addrLow i \<le> addrHigh i" "\<forall>x \<in> allocated rest. addrHigh i < x" "blocks_ok rest"
    using Cons.prems by (simp_all add: blocks_ok_Cons)
  let ?A = "unat addr" and ?L = "unat (addrLow i)" and ?H = "unat (addrHigh i)"
  have n: "0 < ?A" "0 < ?L" "?L \<le> ?H" "\<And>x. x \<in> allocated rest \<Longrightarrow> ?H < unat x"
    using i assms(2) by (auto simp: word_le_nat_alt word_less_nat_alt unat_gt_0)
  have c: "addr < addrLow i - 1 \<longleftrightarrow> ?A < ?L - 1" "addr = addrHigh i + 1 \<longleftrightarrow> ?A = ?H + 1"
    "addr = addrLow i - 1 \<longleftrightarrow> ?A = ?L - 1"
    using succ_iff [OF assms(2)] pred_nat [OF i(1)] by (auto simp: word_less_nat_alt word_unat_eq_iff)
  have not_rest: "addr \<notin> allocated rest" if "?A \<le> ?H" using n(4) [of addr] that by auto
  consider (inside) "?L \<le> ?A" "?A \<le> ?H" | (below) "?A < ?L - 1" | (left) "?A = ?L - 1"
    | (above) "?A = ?H + 1" | (beyond) "?H + 1 < ?A" using n by linarith
  then show ?case
  proof cases
    case inside
    then show ?thesis by (simp add: word_le_nat_alt)
  next
    case below
    then have "\<not> ?L \<le> ?A" using n by linarith
    with below have "AddAllocated_loop test addr (i # rest) = Inr (True, \<lparr>addrLow = addr, addrHigh = addr\<rparr> # i # rest)"
      using n c by (simp add: word_le_nat_alt)
    moreover have "blocks_ok (\<lparr>addrLow = addr, addrHigh = addr\<rparr> # i # rest)"
      using Cons.prems n below by (simp add: word_less_nat_alt)
    moreover have "addr \<notin> allocated (i # rest)"
      using \<open>\<not> ?L \<le> ?A\<close> below n(3) not_rest by (simp add: word_le_nat_alt)
    ultimately show ?thesis by simp
  next
    case left
    then have "\<not> ?L \<le> ?A" "\<not> ?A < ?L - 1" "?A \<noteq> ?H + 1" using n by linarith+
    with left have "AddAllocated_loop test addr (i # rest) = Inr (True, i\<lparr>addrLow := addr\<rparr> # rest)"
      using n c by (simp add: word_le_nat_alt)
    moreover have "blocks_ok (i\<lparr>addrLow := addr\<rparr> # rest)"
      using i n left by (auto simp: blocks_ok_Cons word_less_nat_alt word_le_nat_alt)
    moreover have "{addr .. addrHigh i} = insert addr {addrLow i .. addrHigh i}"
      using left n by (auto simp: word_le_nat_alt word_unat_eq_iff)
    moreover have "addr \<notin> allocated (i # rest)" using left n not_rest by (simp add: word_le_nat_alt)
    ultimately show ?thesis by simp
  next
    case above
    then have "\<not> ?A \<le> ?H" "\<not> ?A < ?L - 1" using n by linarith+
    then have q: "\<not> (addrLow i \<le> addr \<and> addr \<le> addrHigh i)" "\<not> addr < addrLow i - 1" "addr = addrHigh i + 1"
      using above c by (simp_all only: word_le_nat_alt) simp_all
    have l: "AddAllocated_loop test addr (i # rest) =
        (case rest of [] \<Rightarrow> Inr (True, i\<lparr>addrHigh := addr\<rparr> # rest)
         | j # _ \<Rightarrow> if addr = addrLow j then collision test (False, i # rest)
                   else Inr (True, i\<lparr>addrHigh := addr\<rparr> # rest))"
      by (simp only: AddAllocated_loop.simps if_not_P [OF q(1)] if_not_P [OF q(2)] if_P [OF q(3)])
    have mem: "addr \<in> allocated rest \<longleftrightarrow> (\<exists>j rs. rest = j # rs \<and> addr = addrLow j)"
    proof (cases rest)
      case (Cons j rs)
      have j: "?H < unat (addrLow j)" "unat (addrLow j) \<le> unat (addrHigh j)" "\<forall>x \<in> allocated rs. addrHigh j < x"
        using n(4) [of "addrLow j"] i(4) Cons by (auto simp: blocks_ok_Cons word_le_nat_alt)
      then show ?thesis using above Cons by (force simp: word_le_nat_alt word_less_nat_alt word_unat_eq_iff)
    qed simp
    have "blocks_ok (i\<lparr>addrHigh := addr\<rparr> # rest)" if "addr \<notin> allocated rest"
    proof -
      have "unat x \<noteq> ?A" if "x \<in> allocated rest" for x
        using that \<open>addr \<notin> allocated rest\<close> by (metis word_unat_eq_iff)
      with n(4) above i show ?thesis
        by (auto simp: blocks_ok_Cons word_less_nat_alt word_le_nat_alt)
           (metis Suc_lessI add.commute plus_1_eq_Suc)
    qed
    moreover have "{addrLow i .. addr} = insert addr {addrLow i .. addrHigh i}"
      using above n by (auto simp: word_le_nat_alt word_unat_eq_iff)
    moreover have "addr \<notin> {addrLow i .. addrHigh i}" using above by (simp add: word_le_nat_alt)
    ultimately show ?thesis using l mem by (cases rest) auto
  next
    case beyond
    then have "\<not> ?A \<le> ?H" "\<not> ?A < ?L - 1" "?A \<noteq> ?L - 1" "?A \<noteq> ?H + 1" using n by linarith+
    with beyond have l: "AddAllocated_loop test addr (i # rest) =
        bind_res (AddAllocated_loop test addr rest) (\<lambda>(ok, rest'). Inr (ok, i # rest'))"
      using n c by (simp add: word_le_nat_alt)
    show ?thesis
    proof (cases "addr \<in> allocated rest")
      case True
      with Cons.IH [OF i(4)] l show ?thesis by (simp add: collision_def)
    next
      case False
      with Cons.IH [OF i(4)] obtain es' where
        e: "AddAllocated_loop test addr rest = Inr (True, es')" "blocks_ok es'"
          "allocated es' = insert addr (allocated rest)" by auto
      have "blocks_ok (i # es')"
        using i e(2,3) beyond by (auto simp: blocks_ok_Cons word_less_nat_alt)
      moreover have "addr \<notin> {addrLow i .. addrHigh i}" using beyond by (simp add: word_le_nat_alt)
      ultimately show ?thesis using l e False by auto
    qed
  qed
qed

lemma AddAllocated_new:
  assumes "blocks_ok (m_entries g)" "addr \<noteq> 0" "addr \<notin> allocated (m_entries g)"
  shows "\<exists>g'. Generator_AddAllocated addr g = Inr (True, g') \<and> blocks_ok (m_entries g') \<and>
    allocated (m_entries g') = insert addr (allocated (m_entries g))"
  using AddAllocated_loop_correct [OF assms(1,2), of "m_test g"] assms(2,3)
  by (auto simp: Generator_AddAllocated_def)

section \<open>Subnets\<close>

lemma and_one_bit: "(m :: u32) AND 1 \<noteq> 0 \<longleftrightarrow> bit m 0"
  by (simp add: and_one_eq odd_iff_mod_2_eq_one bit_0 flip: even_iff_mod_2_eq_zero)

lemma NumAddressBits_loop_bits:
  assumes "bit m t" "\<And>j. j < t \<Longrightarrow> \<not> bit m j" "t < k"
  shows "NumAddressBits_loop k i m = Inr (of_nat (i + t))"
  using assms
proof (induction k arbitrary: i m t)
  case (Suc k)
  show ?case
  proof (cases t)
    case 0
    with Suc.prems(1) show ?thesis by (simp add: and_one_bit)
  next
    case (Suc u)
    have "NumAddressBits_loop k (i + 1) (drop_bit 1 m) = Inr (of_nat (i + 1 + u))"
      by (rule Suc.IH) (use Suc.prems Suc in \<open>auto simp: bit_simps\<close>)
    moreover have "\<not> bit m 0" using Suc.prems(2) [of 0] Suc by simp
    ultimately show ?thesis using Suc by (simp add: and_one_bit)
  qed
qed simp

lemma NumAddressBits_prefix:
  "1 \<le> n \<Longrightarrow> n \<le> 32 \<Longrightarrow> AddressHelper_NumAddressBits (prefix_mask n) = Inr (of_nat (32 - n))"
  unfolding AddressHelper_NumAddressBits_def N_BITS_def
  by (subst NumAddressBits_loop_bits [where t = "32 - n"]) (auto simp: bit_prefix_mask)

lemma small_bits: "unat (a :: u32) < 2 ^ s \<Longrightarrow> bit a i \<Longrightarrow> i < s"
proof -
  assume "unat a < 2 ^ s" "bit a i"
  then have "bit (unat a) i" "take_bit s (unat a) = unat a"
    by (simp_all add: bit_unsigned_iff bit_imp_possible_bit take_bit_nat_eq_self)
  then show "i < s" by (metis bit_take_bit_iff)
qed

lemma net_bits: "net AND NOT (prefix_mask n) = 0 \<Longrightarrow> bit net i \<Longrightarrow> 32 - n \<le> i \<and> i < 32"
proof -
  assume "net AND NOT (prefix_mask n) = 0" "bit net i"
  then have "\<not> bit (net AND NOT (prefix_mask n)) i" "bit net i" "i < 32"
    by (auto dest: bit_imp_le_length)
  then show ?thesis by (auto simp: bit_and_iff bit_not_iff bit_prefix_mask possible_bit_word)
qed

lemma in_subnet:
  assumes "net AND NOT (prefix_mask n) = 0" "unat a < 2 ^ (32 - n)"
  shows "(net OR a) AND prefix_mask n = net" and "(net OR a) AND NOT (prefix_mask n) = a"
    and "push_bit (32 - n) (drop_bit (32 - n) net) = net"
  by (rule bit_word_eqI, use net_bits [OF assms(1)] small_bits [OF assms(2)] in
      \<open>force simp: bit_simps bit_prefix_mask\<close>)+

text \<open>The helper of a subnet of prefix length \<open>n\<close>.\<close>

definition subnet_helper :: "ipv4 \<Rightarrow> nat \<Rightarrow> u32 \<Rightarrow> u32 \<Rightarrow> address_helper" where
  "subnet_helper net n base a =
     \<lparr>h_network = drop_bit (32 - n) net, h_mask = prefix_mask n, h_address = a, h_base = base,
      h_shift = of_nat (32 - n), h_max = push_bit (32 - n) 1 - 2\<rparr>"

lemma unat_shift: "unat (of_nat (32 - n) :: u32) = 32 - n"
proof -
  have "32 - n < 4294967296" by simp
  then show ?thesis by (simp add: unsigned_of_nat take_bit_nat_eq_self)
qed

lemma SetBase_subnet:
  assumes "net AND NOT (prefix_mask n) = 0" "1 \<le> n" "n \<le> 32"
  shows "AddressHelper_SetBase net (prefix_mask n) base = Inr (subnet_helper net n base base)"
proof -
  have "(of_nat (32 - n) :: u32) \<le> 32" using unat_shift [of n] by (simp add: word_le_nat_alt)
  with assms show ?thesis
    by (simp add: AddressHelper_SetBase_def NumAddressBits_prefix unat_shift subnet_helper_def Let_def
        del: of_nat_diff)
qed

lemma unat_max:
  assumes "1 \<le> n" "n \<le> 30"
  shows "unat (2 ^ (32 - n) - 2 :: u32) = 2 ^ (32 - n) - 2"
proof -
  have s: "1 \<le> 32 - n" "32 - n < 32" using assms by linarith+
  have "(2 :: nat) ^ (32 - n) < 2 ^ 32" using s(2) by (intro power_strict_increasing) simp_all
  then have "unat (of_nat (2 ^ (32 - n)) :: u32) = 2 ^ (32 - n)"
    using s(2) by (simp add: unsigned_of_nat take_bit_nat_eq_self del: of_nat_power)
  then have p: "unat (2 ^ (32 - n) :: u32) = 2 ^ (32 - n)" by simp
  have "(2 :: nat) ^ 1 \<le> 2 ^ (32 - n)" using s(1) by (intro power_increasing) simp_all
  then have "(2 :: u32) \<le> 2 ^ (32 - n)" by (simp add: word_le_nat_alt p)
  then show ?thesis by (simp add: unat_sub p)
qed

lemma Assign_subnet:
  assumes "net AND NOT (prefix_mask n) = 0" "1 \<le> n" "n \<le> 30" "blocks_ok (m_entries g)"
    and "1 \<le> unat a" "unat a + k < 2 ^ (32 - n)"
    and "\<forall>i < k. (net OR (a + of_nat i)) \<notin> allocated (m_entries g)"
  shows "\<exists>g'. AddressHelper_Assign k (subnet_helper net n base a) g =
      Inr (map (\<lambda>i. net OR (a + of_nat i)) [0 ..< k], subnet_helper net n base (a + of_nat k), g') \<and>
    blocks_ok (m_entries g') \<and>
    allocated (m_entries g') = allocated (m_entries g) \<union> (\<lambda>i. net OR (a + of_nat i)) ` {0 ..< k}"
  using assms(4-7)
proof (induction k arbitrary: a g)
  case (Suc k)
  let ?addr = "net OR a"
  have lt: "unat a < 2 ^ (32 - n)" and max: "unat a \<le> 2 ^ (32 - n) - 2" using Suc.prems(3) by linarith+
  note sub = in_subnet [OF assms(1)]
  have "?addr \<noteq> 0" using sub(2) [OF lt] Suc.prems(2) by (auto simp: unat_eq_zero)
  moreover have "?addr \<notin> allocated (m_entries g)" using Suc.prems(4) by (auto dest: spec [of _ 0])
  ultimately obtain g1 where
    g1: "Generator_AddAllocated ?addr g = Inr (True, g1)" "blocks_ok (m_entries g1)"
      "allocated (m_entries g1) = insert ?addr (allocated (m_entries g))"
    using AddAllocated_new [OF Suc.prems(1)] by blast
  have new: "AddressHelper_NewAddress (subnet_helper net n base a) g = Inr (?addr, subnet_helper net n base (a + 1), g1)"
    using g1(1) sub(3) [OF lt] max
    by (simp add: AddressHelper_NewAddress_def subnet_helper_def unat_shift word_le_nat_alt unat_max [OF assms(2,3)] Let_def
        del: of_nat_diff)
  have room: "(2 :: nat) ^ (32 - n) \<le> 2 ^ 32" by (intro power_increasing) simp_all
  have a1: "unat (a + 1) = unat a + 1"
    using less_le_trans [OF Suc.prems(3) room] by (intro unat_inc_nowrap) simp
  have shift: "a + 1 + of_nat i = a + of_nat (Suc i)" for i by (simp add: algebra_simps)
  have neq: "(net OR (a + of_nat (Suc i))) \<noteq> ?addr" if "i < k" for i
  proof -
    have ai: "unat (a + of_nat (Suc i)) = unat a + Suc i"
    proof -
      have "unat a + Suc i < 2 ^ 32" using Suc.prems(3) room that by linarith
      then have "unat (of_nat (Suc i) :: u32) = Suc i"
        by (simp add: unsigned_of_nat take_bit_nat_eq_self del: of_nat_Suc)
      with \<open>unat a + Suc i < 2 ^ 32\<close> show ?thesis by (subst unat_add_nowrap) simp_all
    qed
    then have "unat (a + of_nat (Suc i)) < 2 ^ (32 - n)" using Suc.prems(3) that by linarith
    from sub(2) [OF this] sub(2) [OF lt] ai show ?thesis by auto
  qed
  have "\<exists>g'. AddressHelper_Assign k (subnet_helper net n base (a + 1)) g1 =
      Inr (map (\<lambda>i. net OR (a + 1 + of_nat i)) [0 ..< k], subnet_helper net n base (a + 1 + of_nat k), g') \<and>
    blocks_ok (m_entries g') \<and>
    allocated (m_entries g') = allocated (m_entries g1) \<union> (\<lambda>i. net OR (a + 1 + of_nat i)) ` {0 ..< k}"
  proof (rule Suc.IH [OF g1(2)])
    show "\<forall>i < k. (net OR (a + 1 + of_nat i)) \<notin> allocated (m_entries g1)"
      using Suc.prems(4) neq unfolding shift g1(3) by auto
  qed (use Suc.prems(3) a1 in linarith)+
  then obtain g' where g': "AddressHelper_Assign k (subnet_helper net n base (a + 1)) g1 =
      Inr (map (\<lambda>i. net OR (a + of_nat (Suc i))) [0 ..< k], subnet_helper net n base (a + of_nat (Suc k)), g')"
    "blocks_ok (m_entries g')"
    "allocated (m_entries g') = insert ?addr (allocated (m_entries g)) \<union> (\<lambda>i. net OR (a + of_nat (Suc i))) ` {0 ..< k}"
    unfolding shift g1(3) by blast
  have m: "map f [0 ..< Suc k] = f 0 # map (\<lambda>i. f (Suc i)) [0 ..< k]" for f :: "nat \<Rightarrow> u32"
    by (simp add: map_upt_Suc del: upt_Suc)
  have im: "f ` {0 ..< Suc k} = insert (f 0) ((\<lambda>i. f (Suc i)) ` {0 ..< k})" for f :: "nat \<Rightarrow> u32"
    by (simp add: atLeast0_lessThan_Suc_eq_insert_0 image_image del: image_Suc_atLeastLessThan)
  show ?case unfolding m im using new g' by (simp del: of_nat_Suc upt_Suc)
qed simp

lemma subnet_distinct:
  assumes "net AND NOT (prefix_mask n) = 0" "unat a + k < 2 ^ (32 - n)"
  shows "distinct (map (\<lambda>i. net OR (a + of_nat i)) [0 ..< k])"
    and "\<forall>i < k. Ipv4Mask_IsMatch (prefix_mask n) (net OR (a + of_nat i)) net"
proof -
  have room: "(2 :: nat) ^ (32 - n) \<le> 2 ^ 32" by (intro power_increasing) simp_all
  have ai: "unat (a + of_nat i) = unat a + i" if "i < k" for i
  proof -
    have l: "unat a + i < 2 ^ 32" using assms(2) room that by linarith
    then have "unat (of_nat i :: u32) = i" by (simp add: unsigned_of_nat take_bit_nat_eq_self)
    with l show ?thesis by (subst unat_add_nowrap) simp_all
  qed
  have lt: "unat (a + of_nat i) < 2 ^ (32 - n)" if "i < k" for i using ai [OF that] assms(2) that by linarith
  have "inj_on (\<lambda>i. net OR (a + of_nat i)) {0 ..< k}"
  proof (rule inj_onI)
    fix i j
    assume ij: "i \<in> {0 ..< k}" "j \<in> {0 ..< k}" "(net OR (a + of_nat i)) = (net OR (a + of_nat j))"
    then have k: "i < k" "j < k" by simp_all
    have "a + of_nat i = a + of_nat j"
      using in_subnet(2) [OF assms(1) lt [OF k(1)]] in_subnet(2) [OF assms(1) lt [OF k(2)]] ij(3) by metis
    then have "unat (a + of_nat i) = unat (a + of_nat j)" by (rule arg_cong)
    then show "i = j" unfolding ai [OF k(1)] ai [OF k(2)] by (rule add_left_imp_eq)
  qed
  then show "distinct (map (\<lambda>i. net OR (a + of_nat i)) [0 ..< k])" by (simp add: distinct_map)
  have "net AND prefix_mask n = net"
    by (rule bit_word_eqI) (use net_bits [OF assms(1)] in \<open>auto simp: bit_simps bit_prefix_mask\<close>)
  then show "\<forall>i < k. Ipv4Mask_IsMatch (prefix_mask n) (net OR (a + of_nat i)) net"
    using in_subnet(1) [OF assms(1) lt] by (simp add: Ipv4Mask_IsMatch_def)
qed

section \<open>Properties\<close>

text \<open>
  Text round trip of addresses. Parsing the dotted-decimal form that \<open>Print\<close> writes gives back
  the address, for every address.
\<close>

theorem address_text_round_trip: "AsciiToIpv4Host (Ipv4Address_Print a) = Inr a"
  by (rule Print_round_trip)

text \<open>
  Prefix masks. The mask parsed from a prefix length has that prefix length, and two
  addresses match under it exactly when their first \<open>n\<close> bits agree.
\<close>

theorem prefix_mask_correct:
  assumes "1 \<le> n" and "n \<le> 32" and "atoi s = n"
  shows "Ipv4Mask_from_string (ASCII_SLASH # s) = Inr (prefix_mask n) \<and>
    Ipv4Mask_GetPrefixLength (prefix_mask n) = of_nat n \<and>
    (Ipv4Mask_IsMatch (prefix_mask n) a b \<longleftrightarrow> drop_bit (32 - n) a = drop_bit (32 - n) b)"
proof (intro conjI)
  show "Ipv4Mask_from_string (ASCII_SLASH # s) = Inr (prefix_mask n)"
    using assms by (simp add: Ipv4Mask_from_string_def prefix_mask_eq ns_assert_def)
  have "32 - (32 - n) = n" using assms(2) by simp
  then show "Ipv4Mask_GetPrefixLength (prefix_mask n) = of_nat n"
    using GetPrefixLength_loop_ones [of "32 - n" 0] unfolding Ipv4Mask_GetPrefixLength_def prefix_mask_def by simp
  show "Ipv4Mask_IsMatch (prefix_mask n) a b \<longleftrightarrow> drop_bit (32 - n) a = drop_bit (32 - n) b"
    by (rule IsMatch_prefix [OF assms(2)])
qed

theorem prefix_mask_correct_witness:
  "Ipv4Mask_from_string (ASCII_SLASH # ''24'') = Inr (prefix_mask 24) \<and>
    Ipv4Mask_GetPrefixLength (prefix_mask 24) = of_nat 24 \<and>
    (Ipv4Mask_IsMatch (prefix_mask 24) 0x0a010101 0x0a010102 \<longleftrightarrow>
      drop_bit (32 - 24) (0x0a010101 :: u32) = drop_bit (32 - 24) 0x0a010102)"
  by (rule prefix_mask_correct) (simp_all add: atoi_def is_digit_def)

text \<open>
  Duplicate detection. On a well-formed list of blocks, \<open>AddAllocated\<close> of an address that is
  already allocated is fatal, or reported in test mode, and changes nothing; any other address
  is added, and it alone; and the list of blocks stays well-formed.
\<close>

theorem add_allocated_detects_duplicates:
  assumes "blocks_ok (m_entries g)" and "addr \<noteq> 0"
  shows "if addr \<in> allocated (m_entries g)
    then Generator_AddAllocated addr g = (if m_test g then Inr (False, g) else Inl Fatal)
    else \<exists>g'. Generator_AddAllocated addr g = Inr (True, g') \<and> blocks_ok (m_entries g') \<and>
      allocated (m_entries g') = insert addr (allocated (m_entries g))"
  using AddAllocated_loop_correct [OF assms, of "m_test g"] AddAllocated_new [OF assms] assms(2)
  by (auto simp: Generator_AddAllocated_def collision_def)

definition demo_generator :: generator where
  "demo_generator = Generator_Reset\<lparr>m_entries := [\<lparr>addrLow = 5, addrHigh = 9\<rparr>]\<rparr>"

theorem add_allocated_detects_duplicates_witness:
  "if 10 \<in> allocated (m_entries demo_generator)
    then Generator_AddAllocated 10 demo_generator = (if m_test demo_generator then Inr (False, demo_generator) else Inl Fatal)
    else \<exists>g'. Generator_AddAllocated 10 demo_generator = Inr (True, g') \<and> blocks_ok (m_entries g') \<and>
      allocated (m_entries g') = insert 10 (allocated (m_entries demo_generator))"
  by (rule add_allocated_detects_duplicates) (simp_all add: demo_generator_def)

text \<open>
  C13. Assigning the addresses of a subnet. For a network of prefix length 1 to 30, \<open>SetBase\<close>
  followed by \<open>Assign\<close> to \<open>k\<close> devices, with none of the addresses taken yet and enough of them,
  returns the \<open>k\<close> consecutive addresses from the base, all different and all inside the network,
  and records exactly these as allocated.
\<close>

theorem assign_subnet_addresses:
  assumes "net AND NOT (prefix_mask n) = 0" and "1 \<le> n" and "n \<le> 30" and "blocks_ok (m_entries g)"
    and "1 \<le> unat base" and "unat base + k < 2 ^ (32 - n)"
    and "\<forall>i < k. (net OR (base + of_nat i)) \<notin> allocated (m_entries g)"
  shows "\<exists>as h' g'. bind_res (AddressHelper_SetBase net (prefix_mask n) base) (\<lambda>h. AddressHelper_Assign k h g) =
      Inr (as, h', g') \<and>
    as = map (\<lambda>i. net OR (base + of_nat i)) [0 ..< k] \<and> distinct as \<and>
    (\<forall>a \<in> set as. Ipv4Mask_IsMatch (prefix_mask n) a net) \<and>
    blocks_ok (m_entries g') \<and> allocated (m_entries g') = allocated (m_entries g) \<union> set as"
proof -
  have s: "AddressHelper_SetBase net (prefix_mask n) base = Inr (subnet_helper net n base base)"
    using SetBase_subnet [OF assms(1,2)] assms(3) by simp
  from Assign_subnet [OF assms, of base] subnet_distinct [OF assms(1,6)] show ?thesis
    unfolding s by fastforce
qed

theorem assign_subnet_addresses_witness:
  "\<exists>as h' g'. bind_res (AddressHelper_SetBase 0x0a010100 (prefix_mask 24) 1) (\<lambda>h. AddressHelper_Assign 2 h Generator_Reset) =
      Inr (as, h', g') \<and>
    as = map (\<lambda>i. 0x0a010100 OR (1 + of_nat i)) [0 ..< 2] \<and> distinct as \<and>
    (\<forall>a \<in> set as. Ipv4Mask_IsMatch (prefix_mask 24) a 0x0a010100) \<and>
    blocks_ok (m_entries g') \<and> allocated (m_entries g') = allocated (m_entries Generator_Reset) \<union> set as"
  by (rule assign_subnet_addresses) (simp_all add: Generator_Reset_def prefix_mask_eq)

text \<open>
  \<open>IsAddressAllocated\<close> answers the opposite of its documentation, which says \<open>returns true if the
  address is already allocated\<close>: it returns true exactly when the address is free.
\<close>

theorem is_address_allocated_inverted:
  assumes "addr \<noteq> 0"
  shows "Generator_IsAddressAllocated addr g = Inr (addr \<notin> allocated (m_entries g))"
  using assms by (auto simp: Generator_IsAddressAllocated_def allocated_def block_def list_ex_iff)

theorem is_address_allocated_inverted_witness:
  "Generator_IsAddressAllocated 7 demo_generator = Inr (7 \<notin> allocated (m_entries demo_generator))"
  by (rule is_address_allocated_inverted) simp

text \<open>
  A defect of \<open>IsNetworkAllocated\<close>: it looks only at the two ends of each block. After the
  addresses 0.0.0.3 to 0.0.0.8 have been allocated, every address of the network 0.0.0.4/30 is
  taken, yet the network is reported free.
\<close>

theorem is_network_allocated_misses:
  "bind_res (fold_res (\<lambda>a g. bind_res (Generator_AddAllocated a g) (\<lambda>(ok, g'). Inr g'))
       [3, 4, 5, 6, 7, 8] Generator_Reset) (\<lambda>g.
     bind_res (Generator_IsNetworkAllocated 4 0xfffffffc g) (\<lambda>free.
       Inr (free, map (\<lambda>a. Generator_IsAddressAllocated a g) [4, 5, 6, 7]))) =
   Inr (True, [Inr False, Inr False, Inr False, Inr False])"
  by (simp add: Generator_AddAllocated_def Generator_Reset_def Generator_IsNetworkAllocated_def
      Generator_IsAddressAllocated_def Ipv4Address_CombineMask_def)

end
