(* ===== verification/Topology.thy ===== *)
theory Topology
  imports Point_To_Point Ipv4_Allocation
begin

text \<open>
  The construction of the spine-leaf network: nodes and their devices
  (\<open>src/network/model/node.cc\<close>, \<open>src/network/helper/node-container.cc\<close>), the helper that joins two
  nodes by a link (\<open>src/point-to-point/helper/point-to-point-helper.cc\<close>), and
  \<open>TopologyBuilder::BuildTopology\<close> of \<open>scratch/loadbalancer/topology-builder.h\<close>.
\<close>

section \<open>Nodes, devices and channels\<close>

text \<open>
  Objects live in stores by address; \<open>net_brk\<close> is the next free address and address 0 is the null
  pointer. \<open>net_nodes\<close> lists, by node id, the devices of each node: the position of a device is its
  interface index.
\<close>

record network =
  net_nodes :: "nat list list"
  net_devices :: "nat \<rightharpoonup> packet queue p2p_device"
  net_owner :: "nat \<rightharpoonup> nat"
  net_channels :: "nat \<rightharpoonup> p2p_channel"
  net_mac :: u64
  net_brk :: nat

definition network_new :: network where
  "network_new =
     \<lparr>net_nodes = [], net_devices = Map.empty, net_owner = Map.empty, net_channels = Map.empty, net_mac = 0, net_brk = 1\<rparr>"

text \<open>\<open>NodeContainer::Create\<close>: the ids are the positions in the list of all nodes.\<close>

definition NodeContainer_Create :: "nat \<Rightarrow> network \<Rightarrow> nat list \<times> network" where
  "NodeContainer_Create n net =
     ([length (net_nodes net) ..< length (net_nodes net) + n], net\<lparr>net_nodes := net_nodes net @ replicate n []\<rparr>)"

text \<open>
  \<open>Node::AddDevice\<close>, for a device already in the store. The node's receive callback and the
  initialization event are the wiring that the device theory starts from.
\<close>

definition Node_AddDevice :: "nat \<Rightarrow> nat \<Rightarrow> network \<Rightarrow> u32 \<times> network" where
  "Node_AddDevice node device net =
     (let index = of_nat (length (net_nodes net ! node)) in
      (index,
       net\<lparr>net_nodes := (net_nodes net)[node := (net_nodes net ! node) @ [device]],
           net_owner := (net_owner net)(device \<mapsto> node),
           net_devices := (net_devices net)(device := map_option (\<lambda>d. d\<lparr>d_ifIndex := index\<rparr>) (net_devices net device))\<rparr>))"

text \<open>
  Installing the Internet stack puts the loopback device on the node, as interface 0
  (\<open>Ipv4L3Protocol::SetupLoopback\<close>); it is no point-to-point device.
\<close>

definition install_loopback :: "nat \<Rightarrow> network \<Rightarrow> network" where
  "install_loopback node net = snd (Node_AddDevice node (net_brk net) (net\<lparr>net_brk := net_brk net + 1\<rparr>))"

definition Mac48Address_Allocate :: "network \<Rightarrow> u64 \<times> network" where
  "Mac48Address_Allocate net = (let i = net_mac net + 1 in (i AND 0xffffffffffff, net\<lparr>net_mac := i\<rparr>))"

text \<open>The attributes set on the helper: queue, data rate and channel delay.\<close>

record p2p_helper =
  p2p_queue :: "packet queue"
  p2p_rate :: u64
  p2p_delay :: u64

definition create_device :: "p2p_helper \<Rightarrow> nat \<Rightarrow> network \<Rightarrow> nat \<times> network" where
  "create_device p2p node net =
     (let (mac, net1) = Mac48Address_Allocate net;
          dev = net_brk net1;
          net2 = net1\<lparr>net_devices := (net_devices net1)(dev \<mapsto> PointToPointNetDevice_new (p2p_queue p2p) (p2p_rate p2p) mac),
                      net_brk := dev + 1\<rparr>
      in (dev, snd (Node_AddDevice node dev net2)))"

definition attach_device :: "nat \<Rightarrow> nat \<Rightarrow> network \<Rightarrow> network res" where
  "attach_device dev channel net =
     (case net_devices net dev of
        None \<Rightarrow> Inl Undefined
      | Some d \<Rightarrow>
          bind_res (Attach dev channel (net_channels net) d) (\<lambda>(ok, chs, d1, fx).
            Inr (net\<lparr>net_channels := chs, net_devices := (net_devices net)(dev \<mapsto> d1)\<rparr>)))"

text \<open>\<open>PointToPointHelper::Install (a, b)\<close> without MPI; the result is the container of the two devices.\<close>

definition P2pHelper_Install :: "p2p_helper \<Rightarrow> nat \<Rightarrow> nat \<Rightarrow> network \<Rightarrow> ((nat \<times> nat) \<times> network) res" where
  "P2pHelper_Install p2p a b net =
     (let (devA, net1) = create_device p2p a net;
          (devB, net2) = create_device p2p b net1;
          channel = net_brk net2;
          net3 = net2\<lparr>net_channels := (net_channels net2)(channel \<mapsto> PointToPointChannel_new\<lparr>ch_delay := p2p_delay p2p\<rparr>),
                      net_brk := channel + 1\<rparr>
      in bind_res (attach_device devA channel net3) (\<lambda>net4.
         bind_res (attach_device devB channel net4) (\<lambda>net5. Inr ((devA, devB), net5))))"

section \<open>The spine-leaf network\<close>

text \<open>The inner loop over the leaves of one spine, and the outer loop over the spines.\<close>

fun connect_leaves :: "p2p_helper \<Rightarrow> nat \<Rightarrow> nat list \<Rightarrow> network \<Rightarrow> ((nat \<times> nat) list \<times> network) res" where
  "connect_leaves p2p spine [] net = Inr ([], net)"
| "connect_leaves p2p spine (leaf # leaves) net =
     bind_res (P2pHelper_Install p2p leaf spine net) (\<lambda>(link, net1).
     bind_res (connect_leaves p2p spine leaves net1) (\<lambda>(links, net2). Inr (link # links, net2)))"

fun connect_spines :: "p2p_helper \<Rightarrow> nat list \<Rightarrow> nat list \<Rightarrow> network \<Rightarrow> ((nat \<times> nat) list list \<times> network) res" where
  "connect_spines p2p leaves [] net = Inr ([], net)"
| "connect_spines p2p leaves (spine # spines) net =
     bind_res (connect_leaves p2p spine leaves net) (\<lambda>(links, net1).
     bind_res (connect_spines p2p leaves spines net1) (\<lambda>(rows, net2). Inr (links # rows, net2)))"

text \<open>The servers of the leaf, \<open>servers.Get (i_server + i_leaf * servers_count)\<close>, joined to it in turn.\<close>

fun connect_servers :: "p2p_helper \<Rightarrow> nat \<Rightarrow> nat list \<Rightarrow> network \<Rightarrow> ((nat \<times> nat) list \<times> network) res" where
  "connect_servers p2p leaf [] net = Inr ([], net)"
| "connect_servers p2p leaf (server # servers) net =
     bind_res (P2pHelper_Install p2p server leaf net) (\<lambda>(link, net1).
     bind_res (connect_servers p2p leaf servers net1) (\<lambda>(links, net2). Inr (link # links, net2)))"

fun connect_racks ::
  "p2p_helper \<Rightarrow> nat \<Rightarrow> nat list \<Rightarrow> nat list \<Rightarrow> nat \<Rightarrow> network \<Rightarrow> ((nat \<times> nat) list \<times> network) res" where
  "connect_racks p2p servers_count servers [] i_leaf net = Inr ([], net)"
| "connect_racks p2p servers_count servers (leaf # leaves) i_leaf net =
     defined_if ((i_leaf + 1) * servers_count \<le> length servers)
       (bind_res (connect_servers p2p leaf (take servers_count (drop (i_leaf * servers_count) servers)) net) (\<lambda>(links, net1).
        bind_res (connect_racks p2p servers_count servers leaves (i_leaf + 1) net1) (\<lambda>(more, net2). Inr (links @ more, net2))))"

text \<open>
  The loop that gives each link a subnet of its own: \<open>Assign\<close>, then \<open>NewNetwork\<close>. Its counter has 16
  bits, so with more than 65535 links it never reaches the end.
\<close>

fun assign_links :: "'a list \<Rightarrow> address_helper \<Rightarrow> generator \<Rightarrow> (ipv4 list list \<times> address_helper \<times> generator) res" where
  "assign_links [] h g = Inr ([], h, g)"
| "assign_links (link # links) h g =
     bind_res (AddressHelper_Assign 2 h g) (\<lambda>(as, h1, g1).
     bind_res (assign_links links (snd (AddressHelper_NewNetwork h1)) g1) (\<lambda>(rest, h2, g2). Inr (as # rest, h2, g2)))"

definition assign_all_links ::
  "'a list \<Rightarrow> address_helper \<Rightarrow> generator \<Rightarrow> (ipv4 list list \<times> address_helper \<times> generator) res" where
  "assign_all_links links h g = (if length links \<le> 65535 then assign_links links h g else Inl NoFuel)"

text \<open>
  \<open>BuildTopology\<close>. The two tables of devices keep one row for each spine: the device at the
  spine's end and the device at the leaf's end of the link to each leaf. The links and the
  addresses given to their ends come with them. Filling the routing tables is left to
  \<open>GlobalRouteManager\<close>.
\<close>

record topology =
  p2pSpinesLeavesNetdevs :: "nat list list"
  p2pLeavesSpinesNetdevs :: "nat list list"
  t_spine :: "nat list"
  t_leaf :: "nat list"
  t_servers :: "nat list"
  t_server_leaf_addresses :: "ipv4 list list"
  t_leaf_spine_addresses :: "ipv4 list list"

definition BASE_NETWORK :: string where "BASE_NETWORK = ''192.168.0.0''"
definition BASE_NETWORK_MASK :: string where "BASE_NETWORK_MASK = ''255.255.255.0''"

definition BuildTopology ::
  "packet queue \<Rightarrow> nat \<Rightarrow> nat \<Rightarrow> nat \<Rightarrow> network \<Rightarrow> generator \<Rightarrow> (topology \<times> network \<times> generator) res" where
  "BuildTopology drop_tail spine_count leaf_count servers_count net0 g0 =
     (let (spine, net1) = NodeContainer_Create spine_count net0;
          (leaf, net2) = NodeContainer_Create leaf_count net1;
          (servers, net3) = NodeContainer_Create (servers_count * leaf_count) net2;
          net4 = fold install_loopback servers (fold install_loopback spine (fold install_loopback leaf net3));
          p2p = \<lparr>p2p_queue = drop_tail, p2p_rate = 100000000, p2p_delay = 1000000\<rparr>
      in bind_res (connect_spines p2p leaf spine net4) (\<lambda>(rows, net5).
         bind_res (connect_racks p2p servers_count servers leaf 0 net5) (\<lambda>(server_leaf, net6).
         bind_res (AsciiToIpv4Host BASE_NETWORK) (\<lambda>base.
         bind_res (Ipv4Mask_from_string BASE_NETWORK_MASK) (\<lambda>msk.
         bind_res (AddressHelper_SetBase base msk 1) (\<lambda>h.
         bind_res (assign_all_links server_leaf h g0) (\<lambda>(as1, h1, g1).
         bind_res (assign_all_links (concat rows) h1 g1) (\<lambda>(as2, h2, g2).
           Inr (\<lparr>p2pSpinesLeavesNetdevs = map (map snd) rows, p2pLeavesSpinesNetdevs = map (map fst) rows,
                 t_spine = spine, t_leaf = leaf, t_servers = servers,
                 t_server_leaf_addresses = as1, t_leaf_spine_addresses = as2\<rparr>, net6, g2)))))))))"

section \<open>Fresh addresses and frames\<close>

definition net_ok :: "network \<Rightarrow> bool" where
  "net_ok net \<longleftrightarrow> 0 < net_brk net \<and>
     (\<forall>a \<ge> net_brk net. net_devices net a = None \<and> net_owner net a = None \<and> net_channels net a = None)"

definition extends :: "network \<Rightarrow> network \<Rightarrow> bool" where
  "extends net net' \<longleftrightarrow> net_brk net \<le> net_brk net' \<and>
     (\<forall>a < net_brk net. net_devices net' a = net_devices net a \<and> net_owner net' a = net_owner net a \<and>
        net_channels net' a = net_channels net a)"

lemma extends_refl [simp]: "extends net net" by (simp add: extends_def)

lemma extends_trans [trans]: "extends a b \<Longrightarrow> extends b c \<Longrightarrow> extends a c"
  by (simp add: extends_def)

text \<open>
  A working link from device \<open>dA\<close>, interface \<open>ia\<close> of node \<open>a\<close>, to device \<open>dB\<close>, interface \<open>ib\<close> of node \<open>b\<close>:
  both devices are up and on one channel, which is wired in both directions.
\<close>

definition link_ok :: "network \<Rightarrow> nat \<Rightarrow> nat \<Rightarrow> nat \<Rightarrow> nat \<Rightarrow> nat \<Rightarrow> nat \<Rightarrow> bool" where
  "link_ok net dA dB a ia b ib \<longleftrightarrow>
     (\<exists>da db c ch. net_devices net dA = Some da \<and> net_devices net dB = Some db \<and>
        net_owner net dA = Some a \<and> net_owner net dB = Some b \<and>
        d_ifIndex da = of_nat ia \<and> d_ifIndex db = of_nat ib \<and> d_linkUp da \<and> d_linkUp db \<and>
        d_channel da = c \<and> d_channel db = c \<and> net_channels net c = Some ch \<and> c < net_brk net \<and>
        ch_link0 ch = \<lparr>l_state = IDLE, l_src = dA, l_dst = dB\<rparr> \<and>
        ch_link1 ch = \<lparr>l_state = IDLE, l_src = dB, l_dst = dA\<rparr>) \<and>
     dA < net_brk net \<and> dB < net_brk net"

lemma link_ok_extends:
  assumes "link_ok net dA dB a ia b ib" and "extends net net'"
  shows "link_ok net' dA dB a ia b ib"
proof -
  have same: "net_devices net' x = net_devices net x" "net_owner net' x = net_owner net x"
    "net_channels net' x = net_channels net x" "x < net_brk net'" if "x < net_brk net" for x
    using assms(2) that unfolding extends_def by auto
  from assms(1) show ?thesis unfolding link_ok_def by (auto simp: same)
qed

definition wired_device :: "p2p_helper \<Rightarrow> u64 \<Rightarrow> nat \<Rightarrow> nat \<Rightarrow> packet queue p2p_device" where
  "wired_device p2p mac i c =
     (PointToPointNetDevice_new (p2p_queue p2p) (p2p_rate p2p) (mac AND 0xffffffffffff))
       \<lparr>d_ifIndex := of_nat i, d_channel := c, d_linkUp := True\<rparr>"

definition wired_channel :: "p2p_helper \<Rightarrow> nat \<Rightarrow> nat \<Rightarrow> p2p_channel" where
  "wired_channel p2p dA dB =
     \<lparr>ch_delay = p2p_delay p2p, ch_nDevices = Suc (Suc 0), ch_link0 = \<lparr>l_state = IDLE, l_src = dA, l_dst = dB\<rparr>,
      ch_link1 = \<lparr>l_state = IDLE, l_src = dB, l_dst = dA\<rparr>\<rparr>"

lemma Install_eq:
  assumes "0 < net_brk net" and "a \<noteq> b"
  shows "P2pHelper_Install p2p a b net =
    (let n = net_brk net; c = Suc (Suc n) in
     Inr ((n, Suc n),
       net\<lparr>net_nodes := (net_nodes net)[a := net_nodes net ! a @ [n], b := net_nodes net ! b @ [Suc n]],
           net_devices := (net_devices net)(n \<mapsto> wired_device p2p (net_mac net + 1) (length (net_nodes net ! a)) c,
             Suc n \<mapsto> wired_device p2p (2 + net_mac net) (length (net_nodes net ! b)) c),
           net_owner := (net_owner net)(n \<mapsto> a, Suc n \<mapsto> b),
           net_channels := (net_channels net)(c \<mapsto> wired_channel p2p n (Suc n)),
           net_mac := 2 + net_mac net, net_brk := Suc c\<rparr>))"
  using assms
  by (simp add: P2pHelper_Install_def create_device_def Mac48Address_Allocate_def Node_AddDevice_def
      attach_device_def Attach_def PointToPointChannel_Attach_def PointToPointChannel_new_def Link_new_def
      NotifyLinkUp_def N_DEVICES_def Let_def split_beta fun_upd_twist wired_device_def wired_channel_def)

lemma Install_ok:
  assumes "net_ok net" and "a \<noteq> b"
  obtains dA dB net' where "P2pHelper_Install p2p a b net = Inr ((dA, dB), net')" "net_ok net'" "extends net net'"
    "link_ok net' dA dB a (length (net_nodes net ! a)) b (length (net_nodes net ! b))"
    "net_brk net \<le> dA" "net_brk net \<le> dB" "dA \<noteq> dB"
    "net_nodes net' = (net_nodes net)[a := net_nodes net ! a @ [dA], b := net_nodes net ! b @ [dB]]"
proof (rule that)
  have n: "0 < net_brk net" using assms(1) by (simp add: net_ok_def)
  show "P2pHelper_Install p2p a b net = Inr ((net_brk net, Suc (net_brk net)), snd (projr (P2pHelper_Install p2p a b net)))"
    unfolding Install_eq [OF n assms(2)] Let_def by simp
qed (use assms in \<open>simp_all add: net_ok_def Install_eq Let_def extends_def link_ok_def wired_device_def wired_channel_def\<close>)

section \<open>The loops\<close>

definition ends :: "(nat \<times> nat) list \<Rightarrow> nat list" where
  "ends links = concat (map (\<lambda>(a, b). [a, b]) links)"

lemma ends_simps [simp]:
  "ends [] = []" "ends ((a, b) # links) = a # b # ends links" "ends (xs @ ys) = ends xs @ ends ys"
  by (simp_all add: ends_def)

lemma link_ends_below: "link_ok net dA dB a ia b ib \<Longrightarrow> dA < net_brk net \<and> dB < net_brk net"
  by (simp add: link_ok_def)

text \<open>The links of one spine: leaf \<open>j\<close> on its next interface, the spine on its next interfaces in order.\<close>

lemma connect_leaves_ok:
  assumes "net_ok net" and "spine \<notin> set leaves" and "distinct leaves"
    and "spine < length (net_nodes net)" and "\<forall>x \<in> set leaves. x < length (net_nodes net)"
  shows "\<exists>links net'. connect_leaves p2p spine leaves net = Inr (links, net') \<and> net_ok net' \<and> extends net net' \<and>
    length links = length leaves \<and>
    (\<forall>j < length leaves. link_ok net' (fst (links ! j)) (snd (links ! j)) (leaves ! j)
       (length (net_nodes net ! (leaves ! j))) spine (length (net_nodes net ! spine) + j)) \<and>
    length (net_nodes net') = length (net_nodes net) \<and>
    (\<forall>x < length (net_nodes net). length (net_nodes net' ! x) = length (net_nodes net ! x) +
       (if x = spine then length leaves else if x \<in> set leaves then 1 else 0)) \<and>
    distinct (ends links) \<and> (\<forall>d \<in> set (ends links). net_brk net \<le> d)"
  using assms
proof (induction leaves arbitrary: net)
  case (Cons leaf leaves)
  from Cons.prems have ne: "leaf \<noteq> spine" by auto
  obtain dA dB net1 where i: "P2pHelper_Install p2p leaf spine net = Inr ((dA, dB), net1)" "net_ok net1" "extends net net1"
    "link_ok net1 dA dB leaf (length (net_nodes net ! leaf)) spine (length (net_nodes net ! spine))"
    "net_brk net \<le> dA" "net_brk net \<le> dB" "dA \<noteq> dB"
    "net_nodes net1 = (net_nodes net)[leaf := net_nodes net ! leaf @ [dA], spine := net_nodes net ! spine @ [dB]]"
    by (rule Install_ok [OF Cons.prems(1) ne, of p2p])
  have len: "length (net_nodes net1) = length (net_nodes net)" by (simp add: i(8))
  have n1: "length (net_nodes net1 ! x) = length (net_nodes net ! x) + (if x = spine \<or> x = leaf then 1 else 0)"
    if "x < length (net_nodes net)" for x
    using that Cons.prems(4,5) ne by (auto simp: i(8) nth_list_update)
  have "spine \<notin> set leaves" "distinct leaves" "spine < length (net_nodes net1)" "\<forall>x \<in> set leaves. x < length (net_nodes net1)"
    using Cons.prems(2-5) by (simp_all add: len)
  from Cons.IH [OF i(2) this] obtain links net' where
    r: "connect_leaves p2p spine leaves net1 = Inr (links, net')" "net_ok net'" "extends net1 net'"
      "length links = length leaves"
      "\<forall>j < length leaves. link_ok net' (fst (links ! j)) (snd (links ! j)) (leaves ! j)
         (length (net_nodes net1 ! (leaves ! j))) spine (length (net_nodes net1 ! spine) + j)"
      "length (net_nodes net') = length (net_nodes net1)"
      "\<forall>x < length (net_nodes net1). length (net_nodes net' ! x) = length (net_nodes net1 ! x) +
         (if x = spine then length leaves else if x \<in> set leaves then 1 else 0)"
      "distinct (ends links)" "\<forall>d \<in> set (ends links). net_brk net1 \<le> d" by blast
  have link: "link_ok net' (fst (((dA, dB) # links) ! j)) (snd (((dA, dB) # links) ! j)) ((leaf # leaves) ! j)
      (length (net_nodes net ! ((leaf # leaves) ! j))) spine (length (net_nodes net ! spine) + j)"
    if "j < length (leaf # leaves)" for j
  proof (cases j)
    case 0
    with link_ok_extends [OF i(4) r(3)] show ?thesis by simp
  next
    case (Suc k)
    with that have k: "k < length leaves" by simp
    then have m: "leaves ! k \<in> set leaves" by simp
    then have "leaves ! k \<noteq> leaf" "leaves ! k \<noteq> spine" "leaves ! k < length (net_nodes net)"
      using Cons.prems(2,3,5) by auto
    with r(5) [rule_format, OF k] n1 [of "leaves ! k"] n1 [of spine] Cons.prems(4) Suc show ?thesis by simp
  qed
  have ext: "extends net net'" using i(3) r(3) by (rule extends_trans)
  have "distinct (ends ((dA, dB) # links))" "\<forall>d \<in> set (ends ((dA, dB) # links)). net_brk net \<le> d"
    using r(8,9) i(5-7) link_ends_below [OF i(4)] i(3) unfolding extends_def by auto
  moreover have "\<forall>x < length (net_nodes net). length (net_nodes net' ! x) = length (net_nodes net ! x) +
      (if x = spine then length (leaf # leaves) else if x \<in> set (leaf # leaves) then 1 else 0)"
    using r(7) n1 len ne Cons.prems(3) by auto
  moreover have "connect_leaves p2p spine (leaf # leaves) net = Inr ((dA, dB) # links, net')"
    using i(1) r(1) by simp
  ultimately show ?case
    using r(2,4,6) len ext link by (intro exI [of _ "(dA, dB) # links"] exI [of _ net']) simp
qed simp

text \<open>All the spines: row \<open>i\<close> holds the links of spine \<open>i\<close>, leaf \<open>j\<close> using its \<open>i\<close>-th free interface.\<close>

lemma connect_spines_ok:
  assumes "net_ok net" and "distinct leaves" and "distinct spines" and "set leaves \<inter> set spines = {}"
    and "\<forall>x \<in> set leaves \<union> set spines. x < length (net_nodes net)"
  shows "\<exists>rows net'. connect_spines p2p leaves spines net = Inr (rows, net') \<and> net_ok net' \<and> extends net net' \<and>
    length rows = length spines \<and> length (net_nodes net') = length (net_nodes net) \<and>
    (\<forall>i < length spines. length (rows ! i) = length leaves \<and>
       (\<forall>j < length leaves. link_ok net' (fst (rows ! i ! j)) (snd (rows ! i ! j)) (leaves ! j)
          (length (net_nodes net ! (leaves ! j)) + i) (spines ! i) (length (net_nodes net ! (spines ! i)) + j))) \<and>
    distinct (ends (concat rows)) \<and> (\<forall>d \<in> set (ends (concat rows)). net_brk net \<le> d)"
  using assms
proof (induction spines arbitrary: net)
  case (Cons spine spines)
  have "spine \<notin> set leaves" "spine < length (net_nodes net)" "\<forall>x \<in> set leaves. x < length (net_nodes net)"
    using Cons.prems(4,5) by auto
  from connect_leaves_ok [OF Cons.prems(1) this(1) Cons.prems(2) this(2,3), of p2p] obtain links net1 where
    c: "connect_leaves p2p spine leaves net = Inr (links, net1)" "net_ok net1" "extends net net1"
      "length links = length leaves"
      "\<forall>j < length leaves. link_ok net1 (fst (links ! j)) (snd (links ! j)) (leaves ! j)
         (length (net_nodes net ! (leaves ! j))) spine (length (net_nodes net ! spine) + j)"
      "length (net_nodes net1) = length (net_nodes net)"
      "\<forall>x < length (net_nodes net). length (net_nodes net1 ! x) = length (net_nodes net ! x) +
         (if x = spine then length leaves else if x \<in> set leaves then 1 else 0)"
      "distinct (ends links)" "\<forall>d \<in> set (ends links). net_brk net \<le> d" by blast
  have "distinct spines" "set leaves \<inter> set spines = {}" "\<forall>x \<in> set leaves \<union> set spines. x < length (net_nodes net1)"
    using Cons.prems(3-5) by (auto simp: c(6))
  from Cons.IH [OF c(2) Cons.prems(2) this] obtain rows net' where
    r: "connect_spines p2p leaves spines net1 = Inr (rows, net')" "net_ok net'" "extends net1 net'"
      "length rows = length spines" "length (net_nodes net') = length (net_nodes net1)"
      "\<forall>i < length spines. length (rows ! i) = length leaves \<and>
         (\<forall>j < length leaves. link_ok net' (fst (rows ! i ! j)) (snd (rows ! i ! j)) (leaves ! j)
            (length (net_nodes net1 ! (leaves ! j)) + i) (spines ! i) (length (net_nodes net1 ! (spines ! i)) + j))"
      "distinct (ends (concat rows))" "\<forall>d \<in> set (ends (concat rows)). net_brk net1 \<le> d" by blast
  have row: "length ((links # rows) ! i) = length leaves \<and>
      (\<forall>j < length leaves. link_ok net' (fst ((links # rows) ! i ! j)) (snd ((links # rows) ! i ! j)) (leaves ! j)
         (length (net_nodes net ! (leaves ! j)) + i) ((spine # spines) ! i)
         (length (net_nodes net ! ((spine # spines) ! i)) + j))" if "i < length (spine # spines)" for i
  proof (cases i)
    case 0
    with c(4,5) link_ok_extends [OF _ r(3)] show ?thesis by simp
  next
    case (Suc k)
    with that have k: "k < length spines" by simp
    have "spines ! k \<in> set spines" using k by simp
    then have "spines ! k \<noteq> spine" "spines ! k \<notin> set leaves" "spines ! k < length (net_nodes net)"
      using Cons.prems(3-5) by auto
    then have sp: "length (net_nodes net1 ! (spines ! k)) = length (net_nodes net ! (spines ! k))"
      using c(7) by simp
    have lf: "length (net_nodes net1 ! (leaves ! j)) = length (net_nodes net ! (leaves ! j)) + 1" if "j < length leaves" for j
    proof -
      have "leaves ! j \<in> set leaves" using that by simp
      moreover from this have "leaves ! j \<noteq> spine" "leaves ! j < length (net_nodes net)" using Cons.prems(4,5) by auto
      ultimately show ?thesis using c(7) by simp
    qed
    have "link_ok net' (fst (rows ! k ! j)) (snd (rows ! k ! j)) (leaves ! j)
        (length (net_nodes net ! (leaves ! j)) + i) (spines ! k) (length (net_nodes net ! (spines ! k)) + j)"
      if "j < length leaves" for j
      using conjunct2 [OF r(6) [rule_format, OF k], rule_format, OF that] lf [OF that] sp Suc by simp
    with r(6) [rule_format, OF k] Suc show ?thesis by simp
  qed
  have below: "\<forall>d \<in> set (ends links). d < net_brk net1"
  proof
    fix d assume "d \<in> set (ends links)"
    then obtain l where "l \<in> set links" "d = fst l \<or> d = snd l" by (auto simp: ends_def)
    then obtain j where "j < length leaves" "d = fst (links ! j) \<or> d = snd (links ! j)"
      using c(4) by (auto simp: in_set_conv_nth)
    with c(5) link_ends_below show "d < net_brk net1" by blast
  qed
  have "distinct (ends (concat (links # rows)))" "\<forall>d \<in> set (ends (concat (links # rows))). net_brk net \<le> d"
    using c(3,8,9) r(7,8) below unfolding extends_def by fastforce+
  moreover have "connect_spines p2p leaves (spine # spines) net = Inr (links # rows, net')" using c(1) r(1) by simp
  moreover have "extends net net'" using c(3) r(3) by (rule extends_trans)
  ultimately show ?case
    using r(2,4,5) c(6) row by (intro exI [of _ "links # rows"] exI [of _ net']) simp
qed simp

lemma connect_servers_ok:
  assumes "net_ok net" and "leaf \<notin> set servers"
  shows "\<exists>links net'. connect_servers p2p leaf servers net = Inr (links, net') \<and> net_ok net' \<and> extends net net' \<and>
    length links = length servers"
  using assms
proof (induction servers arbitrary: net)
  case (Cons server servers)
  then have "server \<noteq> leaf" by auto
  from Install_ok [OF Cons.prems(1) this, of p2p] obtain dA dB net1 where
    i: "P2pHelper_Install p2p server leaf net = Inr ((dA, dB), net1)" "net_ok net1" "extends net net1" by metis
  with Cons.IH [of net1] Cons.prems(2) show ?case by (auto dest: extends_trans)
qed simp

lemma connect_racks_ok:
  assumes "net_ok net" and "set leaves \<inter> set servers = {}" and "(i + length leaves) * n \<le> length servers"
  shows "\<exists>links net'. connect_racks p2p n servers leaves i net = Inr (links, net') \<and> net_ok net' \<and> extends net net' \<and>
    length links = length leaves * n"
  using assms
proof (induction leaves arbitrary: i net)
  case (Cons leaf leaves)
  let ?s = "take n (drop (i * n) servers)"
  have "(i + 1) * n \<le> (i + length (leaf # leaves)) * n" by (rule mult_le_mono1) simp
  then have g: "(i + 1) * n \<le> length servers" using Cons.prems(3) by linarith
  have "leaf \<notin> set ?s" using Cons.prems(2) by (auto dest: in_set_takeD in_set_dropD)
  from connect_servers_ok [OF Cons.prems(1) this, of p2p] obtain links net1 where
    s: "connect_servers p2p leaf ?s net = Inr (links, net1)" "net_ok net1" "extends net net1" "length links = length ?s"
    by blast
  have "length ?s = n" using g by simp
  moreover from Cons.IH [OF s(2), of "i + 1"] Cons.prems(2,3) obtain more net' where
    r: "connect_racks p2p n servers leaves (i + 1) net1 = Inr (more, net')" "net_ok net'" "extends net1 net'"
      "length more = length leaves * n" by auto
  ultimately show ?case using s g by (auto intro: extends_trans)
qed simp

section \<open>The nodes before any link\<close>

lemma loopbacks_ok:
  assumes "net_ok net" and "distinct xs" and "\<forall>x \<in> set xs. x < length (net_nodes net)"
  shows "net_ok (fold install_loopback xs net) \<and>
    length (net_nodes (fold install_loopback xs net)) = length (net_nodes net) \<and>
    (\<forall>x < length (net_nodes net). length (net_nodes (fold install_loopback xs net) ! x) =
       length (net_nodes net ! x) + (if x \<in> set xs then 1 else 0))"
  using assms
proof (induction xs arbitrary: net)
  case (Cons y ys)
  let ?net = "install_loopback y net"
  have nodes: "net_nodes ?net = (net_nodes net)[y := net_nodes net ! y @ [net_brk net]]"
    by (simp add: install_loopback_def Node_AddDevice_def Let_def)
  have ok: "net_ok ?net"
    using Cons.prems(1) by (auto simp: install_loopback_def Node_AddDevice_def Let_def net_ok_def)
  have "length (net_nodes ?net) = length (net_nodes net)" by (simp add: nodes)
  with Cons.IH [OF ok] Cons.prems(2,3) show ?case by (auto simp: nodes nth_list_update)
qed simp

section \<open>The subnets of the links\<close>

definition net24 :: "nat \<Rightarrow> ipv4" where "net24 m = of_nat (256 * m)"

lemma unat_net24: "256 * m < 2 ^ 32 \<Longrightarrow> unat (net24 m) = 256 * m"
  unfolding net24_def by (simp add: unsigned_of_nat take_bit_nat_eq_self del: of_nat_mult)

lemma net24_mask: "net24 m AND NOT (prefix_mask 24) = 0"
proof -
  have e: "net24 m = push_bit 8 (of_nat m)" by (simp add: net24_def push_bit_eq_mult mult.commute)
  show ?thesis by (rule bit_word_eqI) (auto simp: e bit_simps bit_prefix_mask)
qed

lemma net24_next:
  assumes "256 * (m + 2) \<le> 2 ^ 32"
  shows "drop_bit 8 (net24 m) + 1 = drop_bit 8 (net24 (m + 1))"
proof -
  have d: "drop_bit 8 (net24 k) = of_nat k" if "256 * k < 2 ^ 32" for k
  proof (rule word_unat_eq_iff [THEN iffD2])
    have "k < 2 ^ 32" using that by simp
    then have "unat (of_nat k :: u32) = k" by (simp add: unsigned_of_nat take_bit_nat_eq_self)
    moreover have "unat (drop_bit 8 (net24 k)) = unat (net24 k) div 256"
      by (simp add: drop_bit_eq_div unat_div_distrib)
    ultimately show "unat (drop_bit 8 (net24 k)) = unat (of_nat k :: u32)" using unat_net24 [OF that] by simp
  qed
  show ?thesis using assms d [of m] d [of "m + 1"] by simp
qed

text \<open>The two ends of link \<open>k\<close> of a run that starts at subnet \<open>m\<close>.\<close>

definition link_addresses :: "nat \<Rightarrow> nat \<Rightarrow> ipv4 list" where
  "link_addresses m k = [net24 (m + k) OR 1, net24 (m + k) OR 2]"

lemma unat_link_address:
  assumes "256 * (m + 1) \<le> 2 ^ 32" and "i \<in> {1, 2}"
  shows "unat (net24 m OR i) = 256 * m + unat i"
proof -
  have disj: "net24 m OR i = net24 m + i"
  proof (subst disjunctive_add)
    fix n
    have e: "net24 m = push_bit 8 (of_nat m)" by (simp add: net24_def push_bit_eq_mult mult.commute)
    have "\<not> bit i n" if "8 \<le> n"
    proof -
      have "take_bit 8 i = i" using assms(2) by auto
      then show ?thesis using that by (metis bit_take_bit_iff leD)
    qed
    then show "\<not> bit (net24 m) n \<or> \<not> bit i n" by (auto simp: e bit_simps)
  qed simp
  have "unat i \<le> 2" using assms(2) by auto
  moreover have "256 * m + 2 < 2 ^ 32" using assms(1) by simp
  ultimately have "unat (net24 m) + unat i < 2 ^ LENGTH(32)" using unat_net24 [of m] by simp
  from unat_add_nowrap [OF this] show ?thesis
    using unat_net24 [of m] \<open>256 * m + 2 < 2 ^ 32\<close> by (simp add: disj)
qed

lemma assign_links_ok:
  assumes "blocks_ok (m_entries g)" and "\<forall>a \<in> allocated (m_entries g). unat a < 256 * m"
    and "256 * (m + length links + 1) \<le> 2 ^ 32"
  shows "\<exists>g'. assign_links links (subnet_helper (net24 m) 24 1 1) g =
      Inr (map (link_addresses m) [0 ..< length links], subnet_helper (net24 (m + length links)) 24 1 1, g') \<and>
    blocks_ok (m_entries g') \<and> (\<forall>a \<in> allocated (m_entries g'). unat a < 256 * (m + length links))"
  using assms
proof (induction links arbitrary: m g)
  case (Cons link links)
  have room: "256 * (m + 1) \<le> 2 ^ 32" using Cons.prems(3) by simp
  have u: "unat (net24 m OR 1) = 256 * m + 1" "unat (net24 m OR 2) = 256 * m + 2"
    using unat_link_address [OF room, of 1] unat_link_address [OF room, of 2] by simp_all
  have na: "x \<notin> allocated (m_entries g)" if "256 * m \<le> unat x" for x
    using Cons.prems(2) that by (meson not_le)
  have "(net24 m OR (1 + of_nat i)) \<notin> allocated (m_entries g)" if "i < 2" for i
  proof -
    have "i = 0 \<or> i = 1" using that by linarith
    then consider "1 + of_nat i = (1 :: u32)" | "1 + of_nat i = (2 :: u32)" by auto
    then show ?thesis by cases (simp_all add: na u)
  qed
  then have "\<forall>i < 2. (net24 m OR (1 + of_nat i)) \<notin> allocated (m_entries g)" by blast
  moreover have "map (\<lambda>i. net24 m OR (1 + of_nat i)) [0 ..< 2] = link_addresses m 0"
    "(\<lambda>i. net24 m OR (1 + of_nat i)) ` {0 ..< 2} = {net24 m OR 1, net24 m OR 2}"
    by (simp_all add: link_addresses_def upt_rec atLeastLessThan_nat_numeral insert_commute)
  ultimately obtain g1 where
    a: "AddressHelper_Assign 2 (subnet_helper (net24 m) 24 1 1) g =
        Inr (link_addresses m 0, subnet_helper (net24 m) 24 1 3, g1)" "blocks_ok (m_entries g1)"
      "allocated (m_entries g1) = allocated (m_entries g) \<union> {net24 m OR 1, net24 m OR 2}"
    using Assign_subnet [where net = "net24 m" and n = 24 and k = 2 and a = 1 and base = 1 and g = g, OF net24_mask _ _ Cons.prems(1)]
    by auto
  have next_helper: "snd (AddressHelper_NewNetwork (subnet_helper (net24 m) 24 1 3)) = subnet_helper (net24 (m + 1)) 24 1 1"
    using net24_next [of m] Cons.prems(3) by (simp add: AddressHelper_NewNetwork_def subnet_helper_def Let_def)
  have "\<forall>x \<in> allocated (m_entries g1). unat x < 256 * (m + 1)" using Cons.prems(2) u by (auto simp: a(3))
  with Cons.IH [of g1 "m + 1"] a(2) Cons.prems(3) obtain g' where
    g': "assign_links links (subnet_helper (net24 (m + 1)) 24 1 1) g1 =
        Inr (map (link_addresses (m + 1)) [0 ..< length links], subnet_helper (net24 (m + 1 + length links)) 24 1 1, g')"
      "blocks_ok (m_entries g')" "\<forall>a \<in> allocated (m_entries g'). unat a < 256 * (m + 1 + length links)" by auto
  have "map (link_addresses m) [0 ..< length (link # links)] =
      link_addresses m 0 # map (link_addresses (m + 1)) [0 ..< length links]"
    by (simp add: map_upt_Suc link_addresses_def del: upt_Suc)
  with a(1) g' next_helper show ?case by simp
qed simp

lemma base_network:
  "AsciiToIpv4Host BASE_NETWORK = Inr (net24 0xc0a800)" "Ipv4Mask_from_string BASE_NETWORK_MASK = Inr (prefix_mask 24)"
proof -
  have "AsciiToIpv4Host BASE_NETWORK = Inr 0xc0a80000" by code_simp
  then show "AsciiToIpv4Host BASE_NETWORK = Inr (net24 0xc0a800)" by (simp add: net24_def)
  have "Ipv4Mask_from_string BASE_NETWORK_MASK = Inr 0xffffff00" by code_simp
  then show "Ipv4Mask_from_string BASE_NETWORK_MASK = Inr (prefix_mask 24)"
    by (simp add: prefix_mask_eq push_bit_eq_mult)
qed

text \<open>Every node starts with its loopback device only.\<close>

lemma nodes_created:
  fixes s l n :: nat
  defines "net3 \<equiv> network_new\<lparr>net_nodes := replicate (s + l + n) []\<rparr>"
  defines "net4 \<equiv> fold install_loopback [s + l ..< s + l + n]
    (fold install_loopback [0 ..< s] (fold install_loopback [s ..< s + l] net3))"
  shows "net_ok net4 \<and> length (net_nodes net4) = s + l + n \<and> (\<forall>x < s + l + n. length (net_nodes net4 ! x) = 1)"
proof -
  have ok: "net_ok net3" by (simp add: net3_def net_ok_def network_new_def)
  have len: "length (net_nodes net3) = s + l + n" by (simp add: net3_def)
  define na where "na = fold install_loopback [s ..< s + l] net3"
  define nb where "nb = fold install_loopback [0 ..< s] na"
  have a: "net_ok na \<and> length (net_nodes na) = s + l + n \<and>
      (\<forall>x < s + l + n. length (net_nodes na ! x) = (if x \<in> {s ..< s + l} then 1 else 0))"
    using loopbacks_ok [OF ok, of "[s ..< s + l]"] by (auto simp: len na_def net3_def)
  have b: "net_ok nb \<and> length (net_nodes nb) = s + l + n \<and>
      (\<forall>x < s + l + n. length (net_nodes nb ! x) = (if x < s + l then 1 else 0))"
    using loopbacks_ok [of na "[0 ..< s]"] a by (auto simp: nb_def)
  show ?thesis
    using loopbacks_ok [of nb "[s + l ..< s + l + n]"] b by (auto simp: net4_def na_def [symmetric] nb_def [symmetric])
qed

lemma distinct_ends:
  "distinct (ends links) \<Longrightarrow> distinct (map snd links @ map fst links)"
proof (induction links)
  case (Cons l links)
  have "set (ends links) = set (map fst links) \<union> set (map snd links)" by (force simp: ends_def)
  with Cons show ?case by (cases l) auto
qed simp

text \<open>The tables the load balancer reads: a row for each spine, a column for each leaf, no device twice.\<close>

definition tables_wired :: "topology \<Rightarrow> network \<Rightarrow> nat \<Rightarrow> nat \<Rightarrow> bool" where
  "tables_wired t net spine_count leaf_count \<longleftrightarrow>
     length (p2pSpinesLeavesNetdevs t) = spine_count \<and> length (p2pLeavesSpinesNetdevs t) = spine_count \<and>
     (\<forall>i < spine_count. length (p2pSpinesLeavesNetdevs t ! i) = leaf_count \<and>
        length (p2pLeavesSpinesNetdevs t ! i) = leaf_count \<and>
        (\<forall>j < leaf_count. link_ok net (p2pLeavesSpinesNetdevs t ! i ! j) (p2pSpinesLeavesNetdevs t ! i ! j)
           (spine_count + j) (i + 1) i (j + 1))) \<and>
     distinct (concat (p2pSpinesLeavesNetdevs t) @ concat (p2pLeavesSpinesNetdevs t))"

lemma BuildTopology_wired:
  assumes "servers_count * leaf_count \<le> 65535" and "spine_count * leaf_count \<le> 65535"
  shows "\<exists>t net g. BuildTopology q spine_count leaf_count servers_count network_new Generator_Reset = Inr (t, net, g) \<and>
    tables_wired t net spine_count leaf_count \<and>
    t_server_leaf_addresses t = map (link_addresses 0xc0a800) [0 ..< servers_count * leaf_count] \<and>
    t_leaf_spine_addresses t =
      map (link_addresses (0xc0a800 + servers_count * leaf_count)) [0 ..< spine_count * leaf_count]"
proof -
  let ?s = spine_count and ?l = leaf_count and ?n = "servers_count * leaf_count"
  define net4 where "net4 = fold install_loopback [?s + ?l ..< ?s + ?l + ?n]
    (fold install_loopback [0 ..< ?s] (fold install_loopback [?s ..< ?s + ?l]
      (network_new\<lparr>net_nodes := replicate (?s + ?l + ?n) []\<rparr>)))"
  define p2p where "p2p = \<lparr>p2p_queue = q, p2p_rate = 100000000, p2p_delay = 1000000\<rparr>"
  have n4: "net_ok net4" "length (net_nodes net4) = ?s + ?l + ?n" "\<forall>x < ?s + ?l + ?n. length (net_nodes net4 ! x) = 1"
    using nodes_created [of ?s ?l ?n] by (simp_all add: net4_def)
  have "\<exists>rows net'. connect_spines p2p [?s ..< ?s + ?l] [0 ..< ?s] net4 = Inr (rows, net') \<and> net_ok net' \<and>
      extends net4 net' \<and> length rows = length [0 ..< ?s] \<and> length (net_nodes net') = length (net_nodes net4) \<and>
      (\<forall>i < length [0 ..< ?s]. length (rows ! i) = length [?s ..< ?s + ?l] \<and>
        (\<forall>j < length [?s ..< ?s + ?l]. link_ok net' (fst (rows ! i ! j)) (snd (rows ! i ! j)) ([?s ..< ?s + ?l] ! j)
          (length (net_nodes net4 ! ([?s ..< ?s + ?l] ! j)) + i) ([0 ..< ?s] ! i)
          (length (net_nodes net4 ! ([0 ..< ?s] ! i)) + j))) \<and>
      distinct (ends (concat rows)) \<and> (\<forall>d \<in> set (ends (concat rows)). net_brk net4 \<le> d)"
    by (rule connect_spines_ok) (use n4 in auto)
  then obtain rows net5 where r: "connect_spines p2p [?s ..< ?s + ?l] [0 ..< ?s] net4 = Inr (rows, net5)" "net_ok net5"
      "length rows = ?s" "distinct (ends (concat rows))"
    and r5: "\<forall>i < ?s. length (rows ! i) = ?l \<and> (\<forall>j < ?l. link_ok net5 (fst (rows ! i ! j)) (snd (rows ! i ! j))
      (?s + j) (1 + i) i (1 + j))"
    using n4(3) by auto
  have "\<exists>links net'. connect_racks p2p servers_count [?s + ?l ..< ?s + ?l + ?n] [?s ..< ?s + ?l] 0 net5 = Inr (links, net') \<and>
      net_ok net' \<and> extends net5 net' \<and> length links = length [?s ..< ?s + ?l] * servers_count"
    by (rule connect_racks_ok [OF r(2)]) (auto simp: mult.commute)
  then obtain links net6 where
    k: "connect_racks p2p servers_count [?s + ?l ..< ?s + ?l + ?n] [?s ..< ?s + ?l] 0 net5 = Inr (links, net6)"
      "extends net5 net6" "length links = ?n" by (auto simp: mult.commute)
  have rows_len: "length (concat rows) = ?s * ?l"
  proof -
    have "map length rows = replicate ?s ?l" using r(3) r5 by (intro nth_equalityI) auto
    then show ?thesis by (simp add: length_concat sum_list_replicate)
  qed
  have g0: "blocks_ok (m_entries Generator_Reset)" "\<forall>a \<in> allocated (m_entries Generator_Reset). unat a < 256 * 0xc0a800"
    by (simp_all add: Generator_Reset_def allocated_def)
  have few: "256 * (0xc0a800 + length links + 1) \<le> 2 ^ 32"
  proof -
    have "length links \<le> 65535" using k(3) assms(1) by metis
    then show ?thesis by simp
  qed
  from assign_links_ok [OF g0 few] k(3) assms(1) obtain g1 where
    a1: "assign_all_links links (subnet_helper (net24 0xc0a800) 24 1 1) Generator_Reset =
        Inr (map (link_addresses 0xc0a800) [0 ..< ?n], subnet_helper (net24 (0xc0a800 + ?n)) 24 1 1, g1)"
      "blocks_ok (m_entries g1)" "\<forall>a \<in> allocated (m_entries g1). unat a < 256 * (0xc0a800 + ?n)"
    by (auto simp: assign_all_links_def)
  have few2: "256 * (0xc0a800 + ?n + length (concat rows) + 1) \<le> 2 ^ 32"
  proof -
    have few_sum: "256 * (0xc0a800 + x + y + 1) \<le> 2 ^ 32" if "x \<le> 65535" "y \<le> 65535" for x y :: nat
      using that by simp
    show ?thesis by (rule few_sum [OF assms(1)]) (use rows_len assms(2) in metis)
  qed
  from assign_links_ok [OF a1(2,3) few2] rows_len assms(2) obtain g2 where
    a2: "assign_all_links (concat rows) (subnet_helper (net24 (0xc0a800 + ?n)) 24 1 1) g1 =
        Inr (map (link_addresses (0xc0a800 + ?n)) [0 ..< ?s * ?l], subnet_helper (net24 (0xc0a800 + ?n + ?s * ?l)) 24 1 1, g2)"
    by (auto simp: assign_all_links_def)
  have base: "AddressHelper_SetBase (net24 0xc0a800) (prefix_mask 24) 1 = Inr (subnet_helper (net24 0xc0a800) 24 1 1)"
    by (rule SetBase_subnet [OF net24_mask]) simp_all
  define t where "t = \<lparr>p2pSpinesLeavesNetdevs = map (map snd) rows, p2pLeavesSpinesNetdevs = map (map fst) rows,
    t_spine = [0 ..< ?s], t_leaf = [?s ..< ?s + ?l], t_servers = [?s + ?l ..< ?s + ?l + ?n],
    t_server_leaf_addresses = map (link_addresses 0xc0a800) [0 ..< ?n],
    t_leaf_spine_addresses = map (link_addresses (0xc0a800 + ?n)) [0 ..< ?s * ?l]\<rparr>"
  have "BuildTopology q ?s ?l servers_count network_new Generator_Reset = Inr (t, net6, g2)"
    using r(1) k(1) a1(1) a2
    by (simp add: BuildTopology_def NodeContainer_Create_def network_new_def Let_def base_network base t_def
        p2p_def net4_def replicate_add [symmetric] add.assoc)
  moreover have "distinct (concat (p2pSpinesLeavesNetdevs t) @ concat (p2pLeavesSpinesNetdevs t))"
    using distinct_ends [OF r(4)] by (simp add: t_def map_concat)
  moreover have "\<forall>i < ?s. length (p2pSpinesLeavesNetdevs t ! i) = ?l \<and> length (p2pLeavesSpinesNetdevs t ! i) = ?l \<and>
      (\<forall>j < ?l. link_ok net6 (p2pLeavesSpinesNetdevs t ! i ! j) (p2pSpinesLeavesNetdevs t ! i ! j) (?s + j) (i + 1) i (j + 1))"
    using r5 r(3) link_ok_extends [OF _ k(2)] by (simp add: t_def)
  moreover have "length (p2pSpinesLeavesNetdevs t) = ?s" "length (p2pLeavesSpinesNetdevs t) = ?s"
    "t_server_leaf_addresses t = map (link_addresses 0xc0a800) [0 ..< ?n]"
    "t_leaf_spine_addresses t = map (link_addresses (0xc0a800 + ?n)) [0 ..< ?s * ?l]"
    using r(3) by (simp_all add: t_def)
  ultimately show ?thesis unfolding tables_wired_def by (intro exI conjI)
qed

section \<open>Properties\<close>

text \<open>
  C21. The spine-leaf network is wired as the load balancer reads it. With no more than 65535
  links of either kind, \<open>BuildTopology\<close> returns. Both tables have one row for each spine and one
  column for each leaf, and no device occurs twice in them; the entries \<open>(i, j)\<close> are the ends of a
  working link between leaf \<open>j\<close>, node \<open>spine_count + j\<close> on interface \<open>i + 1\<close>, and spine \<open>i\<close>, node \<open>i\<close> on
  interface \<open>j + 1\<close>. The links to the servers get the subnets \<open>192.168.k.0/24\<close> from \<open>k = 0\<close> on and the
  links between leaves and spines the ones after, each with the addresses \<open>.1\<close> and \<open>.2\<close>.
\<close>

theorem topology_wiring:
  assumes "servers_count * leaf_count \<le> 65535" and "spine_count * leaf_count \<le> 65535"
  shows "\<exists>t net g. BuildTopology q spine_count leaf_count servers_count network_new Generator_Reset = Inr (t, net, g) \<and>
    length (p2pSpinesLeavesNetdevs t) = spine_count \<and> length (p2pLeavesSpinesNetdevs t) = spine_count \<and>
    (\<forall>i < spine_count. length (p2pSpinesLeavesNetdevs t ! i) = leaf_count \<and>
       length (p2pLeavesSpinesNetdevs t ! i) = leaf_count \<and>
       (\<forall>j < leaf_count. link_ok net (p2pLeavesSpinesNetdevs t ! i ! j) (p2pSpinesLeavesNetdevs t ! i ! j)
          (spine_count + j) (i + 1) i (j + 1))) \<and>
    distinct (concat (p2pSpinesLeavesNetdevs t) @ concat (p2pLeavesSpinesNetdevs t)) \<and>
    t_server_leaf_addresses t = map (link_addresses 0xc0a800) [0 ..< servers_count * leaf_count] \<and>
    t_leaf_spine_addresses t =
      map (link_addresses (0xc0a800 + servers_count * leaf_count)) [0 ..< spine_count * leaf_count]"
  using BuildTopology_wired [OF assms, of q] unfolding tables_wired_def by (elim exE conjE) (intro exI conjI)

text \<open>The default configuration: two spines, four leaves, one server at each leaf.\<close>

theorem topology_wiring_witness:
  "\<exists>t net g. BuildTopology DropTailQueue_new 2 4 1 network_new Generator_Reset = Inr (t, net, g) \<and>
    length (p2pLeavesSpinesNetdevs t) = 2 \<and> length (p2pLeavesSpinesNetdevs t ! 1) = 4 \<and>
    link_ok net (p2pLeavesSpinesNetdevs t ! 1 ! 3) (p2pSpinesLeavesNetdevs t ! 1 ! 3) 5 2 1 4"
proof -
  have few: "(1 :: nat) * 4 \<le> 65535" "(2 :: nat) * 4 \<le> 65535" by simp_all
  obtain t net g where t: "BuildTopology DropTailQueue_new 2 4 1 network_new Generator_Reset = Inr (t, net, g)"
    "length (p2pLeavesSpinesNetdevs t) = 2"
    "\<forall>i < 2. length (p2pSpinesLeavesNetdevs t ! i) = 4 \<and> length (p2pLeavesSpinesNetdevs t ! i) = 4 \<and>
       (\<forall>j < 4. link_ok net (p2pLeavesSpinesNetdevs t ! i ! j) (p2pSpinesLeavesNetdevs t ! i ! j) (2 + j) (i + 1) i (j + 1))"
    using topology_wiring [OF few, of DropTailQueue_new] by (elim exE conjE)
  have "(1 :: nat) < 2" "(3 :: nat) < 4" by simp_all
  from t(3) [rule_format, OF this(1)] this(2) have
    "link_ok net (p2pLeavesSpinesNetdevs t ! 1 ! 3) (p2pSpinesLeavesNetdevs t ! 1 ! 3) (2 + 3) (1 + 1) 1 (3 + 1)"
    "length (p2pLeavesSpinesNetdevs t ! 1) = 4" by blast+
  with t(1,2) show ?thesis by (intro exI conjI) (simp_all add: numeral_2_eq_2)
qed

end
