(* ===== verification/Ipv4_Routing.thy ===== *)
theory Ipv4_Routing
  imports Ipv4_Address
begin

text \<open>
  \<open>src/internet/model\<close>: the routing table entries, the global routing protocol that holds the
  routes computed for the topology, and the static routing protocol with its longest-prefix
  lookup. The \<open>Ipv4\<close> object a protocol asks about interfaces is the record \<open>ipv4_stack\<close> of
  its operations; a device is an address, 0 when there is none.
\<close>

section \<open>Routing table entries\<close>

record routing_entry =
  re_dest :: ipv4
  re_mask :: u32
  re_gateway :: ipv4
  re_interface :: u32

definition CreateHostRouteTo :: "ipv4 \<Rightarrow> ipv4 \<Rightarrow> u32 \<Rightarrow> routing_entry" where
  "CreateHostRouteTo dest nextHop interface =
     \<lparr>re_dest = dest, re_mask = Ipv4Mask_GetOnes, re_gateway = nextHop, re_interface = interface\<rparr>"

definition CreateHostRouteTo_direct :: "ipv4 \<Rightarrow> u32 \<Rightarrow> routing_entry" where
  "CreateHostRouteTo_direct dest interface =
     \<lparr>re_dest = dest, re_mask = Ipv4Mask_GetOnes, re_gateway = 0, re_interface = interface\<rparr>"

definition CreateNetworkRouteTo :: "ipv4 \<Rightarrow> u32 \<Rightarrow> ipv4 \<Rightarrow> u32 \<Rightarrow> routing_entry" where
  "CreateNetworkRouteTo network networkMask nextHop interface =
     \<lparr>re_dest = network, re_mask = networkMask, re_gateway = nextHop, re_interface = interface\<rparr>"

definition CreateNetworkRouteTo_direct :: "ipv4 \<Rightarrow> u32 \<Rightarrow> u32 \<Rightarrow> routing_entry" where
  "CreateNetworkRouteTo_direct network networkMask interface =
     \<lparr>re_dest = network, re_mask = networkMask, re_gateway = 0, re_interface = interface\<rparr>"

definition CreateDefaultRoute :: "ipv4 \<Rightarrow> u32 \<Rightarrow> routing_entry" where
  "CreateDefaultRoute nextHop interface =
     \<lparr>re_dest = 0, re_mask = Ipv4Mask_GetZero, re_gateway = nextHop, re_interface = interface\<rparr>"

definition Entry_IsHost :: "routing_entry \<Rightarrow> bool" where
  "Entry_IsHost r \<longleftrightarrow> re_mask r = Ipv4Mask_GetOnes"

definition Entry_IsNetwork :: "routing_entry \<Rightarrow> bool" where
  "Entry_IsNetwork r \<longleftrightarrow> \<not> Entry_IsHost r"

definition Entry_IsDefault :: "routing_entry \<Rightarrow> bool" where
  "Entry_IsDefault r \<longleftrightarrow> re_dest r = 0"

definition Entry_IsGateway :: "routing_entry \<Rightarrow> bool" where
  "Entry_IsGateway r \<longleftrightarrow> re_gateway r \<noteq> 0"

definition Entry_eq :: "routing_entry \<Rightarrow> routing_entry \<Rightarrow> bool" where
  "Entry_eq a b \<longleftrightarrow>
     re_dest a = re_dest b \<and> re_mask a = re_mask b \<and> re_gateway a = re_gateway b \<and>
     re_interface a = re_interface b"

section \<open>The stack a protocol works for\<close>

record ipv4_stack =
  GetNetDevice :: "u32 \<Rightarrow> nat"
  GetAddress0 :: "u32 \<Rightarrow> ipv4"
  GetInterfaceForDevice :: "nat \<Rightarrow> u32 option"
  IsDestinationAddress :: "ipv4 \<Rightarrow> u32 \<Rightarrow> bool"
  IsForwarding :: "u32 \<Rightarrow> bool"
  SourceAddressSelection :: "u32 \<Rightarrow> ipv4 \<Rightarrow> ipv4"
  IsUp :: "u32 \<Rightarrow> bool"
  GetAddresses :: "u32 \<Rightarrow> (ipv4 \<times> u32) list"

record ipv4_route =
  rt_destination :: ipv4
  rt_source :: ipv4
  rt_gateway :: ipv4
  rt_device :: nat

datatype SocketErrno =
    ERROR_NOTERROR | ERROR_ISCONN | ERROR_NOTCONN | ERROR_MSGSIZE | ERROR_AGAIN | ERROR_SHUTDOWN | ERROR_OPNOTSUPP
  | ERROR_AFNOSUPPORT | ERROR_INVAL | ERROR_BADF | ERROR_NOROUTETOHOST | ERROR_NODEV | ERROR_ADDRNOTAVAIL | ERROR_ADDRINUSE
  | SOCKET_ERRNO_LAST

text \<open>The callbacks \<open>RouteInput\<close> makes: forward, deliver locally on an interface, or report.\<close>

record ipv4_mroute =
  mr_group :: ipv4
  mr_origin :: ipv4
  mr_parent :: u32
  mr_ttls :: "u32 \<rightharpoonup> u32"

datatype route_action =
    UnicastForward ipv4_route
  | MulticastForward ipv4_mroute
  | LocalDeliver u32
  | RouteError SocketErrno

text \<open>The test both protocols make when an output device is asked for.\<close>

definition on_device :: "ipv4_stack \<Rightarrow> nat \<Rightarrow> routing_entry \<Rightarrow> bool" where
  "on_device ip oif r \<longleftrightarrow> oif = 0 \<or> oif = GetNetDevice ip (re_interface r)"

definition entry_matches :: "ipv4_stack \<Rightarrow> ipv4 \<Rightarrow> nat \<Rightarrow> routing_entry \<Rightarrow> bool" where
  "entry_matches ip dest oif r \<longleftrightarrow> Ipv4Mask_IsMatch (re_mask r) dest (re_dest r) \<and> on_device ip oif r"

section \<open>Global routing\<close>

record global_routing =
  m_hostRoutes :: "routing_entry list"
  m_networkRoutes :: "routing_entry list"
  m_ASexternalRoutes :: "routing_entry list"
  m_randomEcmpRouting :: bool

definition GlobalRouting_new :: global_routing where
  "GlobalRouting_new =
     \<lparr>m_hostRoutes = [], m_networkRoutes = [], m_ASexternalRoutes = [], m_randomEcmpRouting = False\<rparr>"

definition GlobalRouting_AddHostRouteTo :: "ipv4 \<Rightarrow> ipv4 \<Rightarrow> u32 \<Rightarrow> global_routing \<Rightarrow> global_routing" where
  "GlobalRouting_AddHostRouteTo dest nextHop interface g =
     g\<lparr>m_hostRoutes := m_hostRoutes g @ [CreateHostRouteTo dest nextHop interface]\<rparr>"

definition GlobalRouting_AddHostRouteTo_direct :: "ipv4 \<Rightarrow> u32 \<Rightarrow> global_routing \<Rightarrow> global_routing" where
  "GlobalRouting_AddHostRouteTo_direct dest interface g =
     g\<lparr>m_hostRoutes := m_hostRoutes g @ [CreateHostRouteTo_direct dest interface]\<rparr>"

definition GlobalRouting_AddNetworkRouteTo ::
  "ipv4 \<Rightarrow> u32 \<Rightarrow> ipv4 \<Rightarrow> u32 \<Rightarrow> global_routing \<Rightarrow> global_routing" where
  "GlobalRouting_AddNetworkRouteTo network networkMask nextHop interface g =
     g\<lparr>m_networkRoutes := m_networkRoutes g @ [CreateNetworkRouteTo network networkMask nextHop interface]\<rparr>"

definition GlobalRouting_AddNetworkRouteTo_direct ::
  "ipv4 \<Rightarrow> u32 \<Rightarrow> u32 \<Rightarrow> global_routing \<Rightarrow> global_routing" where
  "GlobalRouting_AddNetworkRouteTo_direct network networkMask interface g =
     g\<lparr>m_networkRoutes := m_networkRoutes g @ [CreateNetworkRouteTo_direct network networkMask interface]\<rparr>"

definition GlobalRouting_AddASExternalRouteTo ::
  "ipv4 \<Rightarrow> u32 \<Rightarrow> ipv4 \<Rightarrow> u32 \<Rightarrow> global_routing \<Rightarrow> global_routing" where
  "GlobalRouting_AddASExternalRouteTo network networkMask nextHop interface g =
     g\<lparr>m_ASexternalRoutes := m_ASexternalRoutes g @ [CreateNetworkRouteTo network networkMask nextHop interface]\<rparr>"

text \<open>
  The three searches of \<open>LookupGlobal\<close>: all matching host routes; if there are none, all matching
  network routes; if there are none, the first matching external route.
\<close>

definition host_candidates :: "ipv4_stack \<Rightarrow> ipv4 \<Rightarrow> nat \<Rightarrow> routing_entry list \<Rightarrow> routing_entry list res" where
  "host_candidates ip dest oif rs =
     ns_assert (list_all Entry_IsHost rs) (Inr (filter (\<lambda>r. re_dest r = dest \<and> on_device ip oif r) rs))"

definition GlobalRouting_candidates ::
  "ipv4_stack \<Rightarrow> ipv4 \<Rightarrow> nat \<Rightarrow> global_routing \<Rightarrow> routing_entry list res" where
  "GlobalRouting_candidates ip dest oif g =
     bind_res (host_candidates ip dest oif (m_hostRoutes g)) (\<lambda>hosts.
       let nets = filter (entry_matches ip dest oif) (m_networkRoutes g);
           exts = filter (entry_matches ip dest oif) (m_ASexternalRoutes g)
       in Inr (if hosts \<noteq> [] then hosts else if nets \<noteq> [] then nets else take 1 exts))"

definition route_via :: "ipv4_stack \<Rightarrow> routing_entry \<Rightarrow> ipv4_route" where
  "route_via ip r =
     \<lparr>rt_destination = re_dest r, rt_source = GetAddress0 ip (re_interface r),
      rt_gateway = re_gateway r, rt_device = GetNetDevice ip (re_interface r)\<rparr>"

text \<open>\<open>GetInteger lo hi\<close> is the draw of the uniform random variable.\<close>

definition GlobalRouting_LookupGlobal ::
  "(nat \<Rightarrow> nat \<Rightarrow> nat) \<Rightarrow> ipv4_stack \<Rightarrow> ipv4 \<Rightarrow> nat \<Rightarrow> global_routing \<Rightarrow> ipv4_route option res" where
  "GlobalRouting_LookupGlobal GetInteger ip dest oif g =
     bind_res (GlobalRouting_candidates ip dest oif g) (\<lambda>allRoutes.
       if length allRoutes > 0 then
         let selectIndex = (if m_randomEcmpRouting g then GetInteger 0 (length allRoutes - 1) else 0) in
         if selectIndex < length allRoutes then Inr (Some (route_via ip (allRoutes ! selectIndex)))
         else Inl Fatal
       else Inr None)"

definition GlobalRouting_GetNRoutes :: "global_routing \<Rightarrow> u32" where
  "GlobalRouting_GetNRoutes g =
     of_nat (length (m_hostRoutes g)) + of_nat (length (m_networkRoutes g)) +
     of_nat (length (m_ASexternalRoutes g))"

text \<open>
  \<open>GetRoute\<close> and \<open>RemoveRoute\<close> count through the three lists in turn; each subtraction is made
  only when the index is past the list, so it does not wrap.
\<close>

definition GlobalRouting_GetRoute :: "nat \<Rightarrow> global_routing \<Rightarrow> routing_entry res" where
  "GlobalRouting_GetRoute index g =
     (if index < length (m_hostRoutes g) then Inr (m_hostRoutes g ! index)
      else let index1 = index - length (m_hostRoutes g) in
        if index1 < length (m_networkRoutes g) then Inr (m_networkRoutes g ! index1)
        else let index2 = index1 - length (m_networkRoutes g) in
          if index2 < length (m_ASexternalRoutes g) then Inr (m_ASexternalRoutes g ! index2)
          else Inl Assert)"

definition erase_at :: "nat \<Rightarrow> 'a list \<Rightarrow> 'a list" where
  "erase_at i xs = take i xs @ drop (Suc i) xs"

definition GlobalRouting_RemoveRoute :: "nat \<Rightarrow> global_routing \<Rightarrow> global_routing res" where
  "GlobalRouting_RemoveRoute index g =
     (if index < length (m_hostRoutes g) then Inr (g\<lparr>m_hostRoutes := erase_at index (m_hostRoutes g)\<rparr>)
      else let index1 = index - length (m_hostRoutes g) in
        if index1 < length (m_networkRoutes g)
        then Inr (g\<lparr>m_networkRoutes := erase_at index1 (m_networkRoutes g)\<rparr>)
        else let index2 = index1 - length (m_networkRoutes g) in
          if index2 < length (m_ASexternalRoutes g)
          then Inr (g\<lparr>m_ASexternalRoutes := erase_at index2 (m_ASexternalRoutes g)\<rparr>)
          else Inl Assert)"

definition GlobalRouting_DoDispose :: "global_routing \<Rightarrow> global_routing" where
  "GlobalRouting_DoDispose g = g\<lparr>m_hostRoutes := [], m_networkRoutes := [], m_ASexternalRoutes := []\<rparr>"

definition GlobalRouting_RouteOutput ::
  "(nat \<Rightarrow> nat \<Rightarrow> nat) \<Rightarrow> ipv4_stack \<Rightarrow> ipv4 \<Rightarrow> nat \<Rightarrow> SocketErrno \<Rightarrow> global_routing \<Rightarrow>
   (ipv4_route option \<times> SocketErrno) res" where
  "GlobalRouting_RouteOutput GetInteger ip dest oif sockerr g =
     (if Ipv4Address_IsMulticast dest then Inr (None, sockerr)
      else bind_res (GlobalRouting_LookupGlobal GetInteger ip dest oif g) (\<lambda>rtentry.
             Inr (rtentry, if rtentry \<noteq> None then ERROR_NOTERROR else ERROR_NOROUTETOHOST)))"

text \<open>\<open>lcb\<close> says whether a local delivery callback is set.\<close>

definition GlobalRouting_RouteInput ::
  "(nat \<Rightarrow> nat \<Rightarrow> nat) \<Rightarrow> ipv4_stack \<Rightarrow> ipv4 \<Rightarrow> nat \<Rightarrow> bool \<Rightarrow> global_routing \<Rightarrow>
   (bool \<times> route_action list) res" where
  "GlobalRouting_RouteInput GetInteger ip dest idev lcb g =
     (case GetInterfaceForDevice ip idev of
        None \<Rightarrow> Inl Assert
      | Some iif \<Rightarrow>
          if IsDestinationAddress ip dest iif then
            if lcb then Inr (True, [LocalDeliver iif]) else Inr (False, [])
          else if \<not> IsForwarding ip iif then Inr (True, [RouteError ERROR_NOROUTETOHOST])
          else bind_res (GlobalRouting_LookupGlobal GetInteger ip dest 0 g) (\<lambda>rtentry.
            case rtentry of
              Some rt \<Rightarrow> Inr (True, [UnicastForward rt])
            | None \<Rightarrow> Inr (False, [])))"

section \<open>Static routing\<close>

text \<open>
  The two tables of the protocol are separate lists, and each operation is given on the table it
  touches: \<open>m_networkRoutes\<close>, entries with their metrics in the order in which they were added,
  and \<open>m_multicastRoutes\<close>.
\<close>

type_synonym static_routing = "(routing_entry \<times> u32) list"

record multicast_entry =
  me_origin :: ipv4
  me_group :: ipv4
  me_inputInterface :: u32
  me_outputInterfaces :: "u32 list"

definition IF_ANY :: u32 where "IF_ANY = 0xffffffff"
definition MAX_TTL :: u32 where "MAX_TTL = 255"

definition StaticRouting_AddMulticastRoute ::
  "ipv4 \<Rightarrow> ipv4 \<Rightarrow> u32 \<Rightarrow> u32 list \<Rightarrow> multicast_entry list \<Rightarrow> multicast_entry list" where
  "StaticRouting_AddMulticastRoute origin grp inputInterface outputInterfaces ms =
     ms @ [\<lparr>me_origin = origin, me_group = grp, me_inputInterface = inputInterface,
            me_outputInterfaces = outputInterfaces\<rparr>]"

definition StaticRouting_GetMulticastRoute :: "nat \<Rightarrow> multicast_entry list \<Rightarrow> multicast_entry res" where
  "StaticRouting_GetMulticastRoute index ms = ns_assert (index < length ms) (Inr (ms ! index))"

fun StaticRouting_RemoveMulticastRoute ::
  "ipv4 \<Rightarrow> ipv4 \<Rightarrow> u32 \<Rightarrow> multicast_entry list \<Rightarrow> bool \<times> multicast_entry list" where
  "StaticRouting_RemoveMulticastRoute origin grp inputInterface [] = (False, [])"
| "StaticRouting_RemoveMulticastRoute origin grp inputInterface (m # ms) =
     (if origin = me_origin m \<and> grp = me_group m \<and> inputInterface = me_inputInterface m then (True, ms)
      else let (b, ms') = StaticRouting_RemoveMulticastRoute origin grp inputInterface ms in (b, m # ms'))"

definition StaticRouting_RemoveMulticastRoute_at :: "nat \<Rightarrow> multicast_entry list \<Rightarrow> multicast_entry list" where
  "StaticRouting_RemoveMulticastRoute_at index ms = (if index < length ms then erase_at index ms else ms)"

text \<open>\<open>LookupStatic (origin, group, interface)\<close>: the first route of the group on the interface.\<close>

fun StaticRouting_LookupMulticast :: "ipv4 \<Rightarrow> u32 \<Rightarrow> multicast_entry list \<Rightarrow> ipv4_mroute option" where
  "StaticRouting_LookupMulticast grp interface [] = None"
| "StaticRouting_LookupMulticast grp interface (m # ms) =
     (if grp = me_group m \<and> (interface = IF_ANY \<or> interface = me_inputInterface m)
      then Some \<lparr>mr_group = me_group m, mr_origin = me_origin m, mr_parent = me_inputInterface m,
                 mr_ttls = map_of (map (\<lambda>i. (i, MAX_TTL - 1)) (filter (\<lambda>i. i \<noteq> 0) (me_outputInterfaces m)))\<rparr>
      else StaticRouting_LookupMulticast grp interface ms)"

definition StaticRouting_LookupRoute :: "routing_entry \<Rightarrow> u32 \<Rightarrow> static_routing \<Rightarrow> bool" where
  "StaticRouting_LookupRoute route metric rs \<longleftrightarrow>
     list_ex (\<lambda>(r, m). re_dest r = re_dest route \<and> re_mask r = re_mask route \<and>
       re_gateway r = re_gateway route \<and> re_interface r = re_interface route \<and> m = metric) rs"

definition StaticRouting_AddNetworkRouteTo ::
  "ipv4 \<Rightarrow> u32 \<Rightarrow> ipv4 \<Rightarrow> u32 \<Rightarrow> u32 \<Rightarrow> static_routing \<Rightarrow> static_routing" where
  "StaticRouting_AddNetworkRouteTo network networkMask nextHop interface metric rs =
     (let route = CreateNetworkRouteTo network networkMask nextHop interface in
      if \<not> StaticRouting_LookupRoute route metric rs then rs @ [(route, metric)] else rs)"

definition StaticRouting_AddNetworkRouteTo_direct ::
  "ipv4 \<Rightarrow> u32 \<Rightarrow> u32 \<Rightarrow> u32 \<Rightarrow> static_routing \<Rightarrow> static_routing" where
  "StaticRouting_AddNetworkRouteTo_direct network networkMask interface metric rs =
     (let route = CreateNetworkRouteTo_direct network networkMask interface in
      if \<not> StaticRouting_LookupRoute route metric rs then rs @ [(route, metric)] else rs)"

definition StaticRouting_AddHostRouteTo :: "ipv4 \<Rightarrow> ipv4 \<Rightarrow> u32 \<Rightarrow> u32 \<Rightarrow> static_routing \<Rightarrow> static_routing" where
  "StaticRouting_AddHostRouteTo dest nextHop interface metric rs =
     StaticRouting_AddNetworkRouteTo dest Ipv4Mask_GetOnes nextHop interface metric rs"

definition StaticRouting_AddHostRouteTo_direct :: "ipv4 \<Rightarrow> u32 \<Rightarrow> u32 \<Rightarrow> static_routing \<Rightarrow> static_routing" where
  "StaticRouting_AddHostRouteTo_direct dest interface metric rs =
     StaticRouting_AddNetworkRouteTo_direct dest Ipv4Mask_GetOnes interface metric rs"

definition StaticRouting_SetDefaultRoute :: "ipv4 \<Rightarrow> u32 \<Rightarrow> u32 \<Rightarrow> static_routing \<Rightarrow> static_routing" where
  "StaticRouting_SetDefaultRoute nextHop interface metric rs =
     StaticRouting_AddNetworkRouteTo 0 Ipv4Mask_GetZero nextHop interface metric rs"

definition StaticRouting_SetDefaultMulticastRoute :: "u32 \<Rightarrow> static_routing \<Rightarrow> static_routing" where
  "StaticRouting_SetDefaultMulticastRoute outputInterface rs =
     rs @ [(CreateNetworkRouteTo_direct 0xe0000000 0xf0000000 outputInterface, 0)]"

definition static_route :: "ipv4_stack \<Rightarrow> routing_entry \<Rightarrow> ipv4_route" where
  "static_route ip r =
     \<lparr>rt_destination = re_dest r, rt_source = SourceAddressSelection ip (re_interface r) (re_dest r),
      rt_gateway = re_gateway r, rt_device = GetNetDevice ip (re_interface r)\<rparr>"

text \<open>The loop of \<open>LookupStatic\<close>; \<open>continue\<close> is the recursive call, \<open>break\<close> the result.\<close>

fun LookupStatic_loop ::
  "ipv4_stack \<Rightarrow> ipv4 \<Rightarrow> nat \<Rightarrow> static_routing \<Rightarrow> u16 \<Rightarrow> u32 \<Rightarrow> ipv4_route option \<Rightarrow> ipv4_route option" where
  "LookupStatic_loop ip dest oif [] longest shortest rtentry = rtentry"
| "LookupStatic_loop ip dest oif ((j, metric) # rs) longest shortest rtentry =
     (let masklen = Ipv4Mask_GetPrefixLength (re_mask j) in
      if \<not> Ipv4Mask_IsMatch (re_mask j) dest (re_dest j) then
        LookupStatic_loop ip dest oif rs longest shortest rtentry
      else if oif \<noteq> 0 \<and> oif \<noteq> GetNetDevice ip (re_interface j) then
        LookupStatic_loop ip dest oif rs longest shortest rtentry
      else if masklen < longest then
        LookupStatic_loop ip dest oif rs longest shortest rtentry
      else
        let shortest1 = (if masklen > longest then 0xffffffff else shortest) in
        if metric > shortest1 then LookupStatic_loop ip dest oif rs masklen shortest1 rtentry
        else if masklen = 32 then Some (static_route ip j)
        else LookupStatic_loop ip dest oif rs masklen metric (Some (static_route ip j)))"

definition StaticRouting_LookupStatic ::
  "ipv4_stack \<Rightarrow> ipv4 \<Rightarrow> nat \<Rightarrow> static_routing \<Rightarrow> ipv4_route option res" where
  "StaticRouting_LookupStatic ip dest oif rs =
     (if Ipv4Address_IsLocalMulticast dest then
        if oif = 0 then Inl Assert
        else case GetInterfaceForDevice ip oif of
          None \<Rightarrow> Inl Undefined
        | Some i \<Rightarrow> Inr (Some \<lparr>rt_destination = dest, rt_source = GetAddress0 ip i, rt_gateway = 0, rt_device = oif\<rparr>)
      else Inr (LookupStatic_loop ip dest oif rs 0 0xffffffff None))"

definition StaticRouting_GetNRoutes :: "static_routing \<Rightarrow> u32" where
  "StaticRouting_GetNRoutes rs = of_nat (length rs)"

definition StaticRouting_GetRoute :: "nat \<Rightarrow> static_routing \<Rightarrow> routing_entry res" where
  "StaticRouting_GetRoute index rs = (if index < length rs then Inr (fst (rs ! index)) else Inl Assert)"

definition StaticRouting_GetMetric :: "nat \<Rightarrow> static_routing \<Rightarrow> u32 res" where
  "StaticRouting_GetMetric index rs = (if index < length rs then Inr (snd (rs ! index)) else Inl Assert)"

definition StaticRouting_RemoveRoute :: "nat \<Rightarrow> static_routing \<Rightarrow> static_routing res" where
  "StaticRouting_RemoveRoute index rs = (if index < length rs then Inr (erase_at index rs) else Inl Assert)"

fun GetDefaultRoute_loop :: "static_routing \<Rightarrow> u32 \<Rightarrow> routing_entry option \<Rightarrow> routing_entry option" where
  "GetDefaultRoute_loop [] shortest result = result"
| "GetDefaultRoute_loop ((j, metric) # rs) shortest result =
     (if Ipv4Mask_GetPrefixLength (re_mask j) \<noteq> 0 then GetDefaultRoute_loop rs shortest result
      else if metric > shortest then GetDefaultRoute_loop rs shortest result
      else GetDefaultRoute_loop rs metric (Some j))"

definition StaticRouting_GetDefaultRoute :: "static_routing \<Rightarrow> routing_entry option" where
  "StaticRouting_GetDefaultRoute rs = GetDefaultRoute_loop rs 0xffffffff None"

definition StaticRouting_RouteOutput ::
  "ipv4_stack \<Rightarrow> ipv4 \<Rightarrow> nat \<Rightarrow> static_routing \<Rightarrow> (ipv4_route option \<times> SocketErrno) res" where
  "StaticRouting_RouteOutput ip dest oif rs =
     bind_res (StaticRouting_LookupStatic ip dest oif rs) (\<lambda>rtentry.
       Inr (rtentry, if rtentry \<noteq> None then ERROR_NOTERROR else ERROR_NOROUTETOHOST))"

definition StaticRouting_RouteInput ::
  "ipv4_stack \<Rightarrow> ipv4 \<Rightarrow> nat \<Rightarrow> bool \<Rightarrow> static_routing \<Rightarrow> multicast_entry list \<Rightarrow>
   (bool \<times> route_action list) res" where
  "StaticRouting_RouteInput ip dest idev lcb rs ms =
     (case GetInterfaceForDevice ip idev of
        None \<Rightarrow> Inl Assert
      | Some iif \<Rightarrow>
          if Ipv4Address_IsMulticast dest then
            (case StaticRouting_LookupMulticast dest iif ms of
               Some mrt \<Rightarrow> Inr (True, [MulticastForward mrt])
             | None \<Rightarrow> Inr (False, []))
          else if IsDestinationAddress ip dest iif then
            if lcb then Inr (True, [LocalDeliver iif]) else Inr (False, [])
          else if \<not> IsForwarding ip iif then Inr (True, [RouteError ERROR_NOROUTETOHOST])
          else bind_res (StaticRouting_LookupStatic ip dest 0 rs) (\<lambda>rtentry.
            case rtentry of
              Some rt \<Rightarrow> Inr (True, [UnicastForward rt])
            | None \<Rightarrow> Inr (False, [])))"

text \<open>The reactions to interface events; \<open>0x66666666\<close> is an address or mask never set.\<close>

definition StaticRouting_NotifyInterfaceUp :: "ipv4_stack \<Rightarrow> u32 \<Rightarrow> static_routing \<Rightarrow> static_routing" where
  "StaticRouting_NotifyInterfaceUp ip i rs =
     fold (\<lambda>(local, msk) rs.
       if local \<noteq> 0x66666666 \<and> msk \<noteq> 0x66666666 \<and> msk \<noteq> Ipv4Mask_GetOnes
       then StaticRouting_AddNetworkRouteTo_direct (Ipv4Address_CombineMask local msk) msk i 0 rs
       else rs) (GetAddresses ip i) rs"

definition StaticRouting_NotifyInterfaceDown :: "u32 \<Rightarrow> static_routing \<Rightarrow> static_routing" where
  "StaticRouting_NotifyInterfaceDown i rs = filter (\<lambda>(r, m). \<not> re_interface r = i) rs"

definition StaticRouting_NotifyAddAddress ::
  "ipv4_stack \<Rightarrow> u32 \<Rightarrow> ipv4 \<times> u32 \<Rightarrow> static_routing \<Rightarrow> static_routing" where
  "StaticRouting_NotifyAddAddress ip interface address rs =
     (case address of (local, msk) \<Rightarrow>
        if \<not> IsUp ip interface then rs
        else if local \<noteq> 0x66666666 \<and> msk \<noteq> 0x66666666
        then StaticRouting_AddNetworkRouteTo_direct (Ipv4Address_CombineMask local msk) msk interface 0 rs
        else rs)"

definition StaticRouting_NotifyRemoveAddress ::
  "ipv4_stack \<Rightarrow> u32 \<Rightarrow> ipv4 \<times> u32 \<Rightarrow> static_routing \<Rightarrow> static_routing" where
  "StaticRouting_NotifyRemoveAddress ip interface address rs =
     (case address of (local, msk) \<Rightarrow>
        if \<not> IsUp ip interface then rs
        else filter (\<lambda>(r, m). \<not> (re_interface r = interface \<and> Entry_IsNetwork r \<and>
               re_dest r = Ipv4Address_CombineMask local msk \<and> re_mask r = msk)) rs)"

section \<open>Longest prefix, then smallest metric\<close>

lemma GetPrefixLength_loop_le:
  "push_bit k m = 0 \<Longrightarrow> unat tmp + k < 65536 \<Longrightarrow> unat (GetPrefixLength_loop m tmp) \<le> unat tmp + k"
proof (induction k arbitrary: m tmp)
  case 0
  then show ?case by (simp add: GetPrefixLength_loop.simps)
next
  case (Suc k)
  show ?case
  proof (cases "m = 0")
    case True
    then show ?thesis by (simp add: GetPrefixLength_loop.simps)
  next
    case False
    have "push_bit k (push_bit 1 m) = push_bit (Suc k) m" by (subst push_bit_push_bit) simp
    with Suc.prems(1) have z: "push_bit k (push_bit 1 m) = 0" by (simp only:)
    have t: "unat (tmp + 1) = unat tmp + 1" using Suc.prems(2) by (intro unat_inc_nowrap) simp
    have "unat (GetPrefixLength_loop (push_bit 1 m) (tmp + 1)) \<le> unat (tmp + 1) + k"
      using Suc.prems(2) t by (intro Suc.IH [OF z]) simp
    with t False show ?thesis by (subst GetPrefixLength_loop.simps) simp
  qed
qed

abbreviation plen :: "routing_entry \<Rightarrow> u16" where
  "plen r \<equiv> Ipv4Mask_GetPrefixLength (re_mask r)"

lemma plen_le: "plen r \<le> 32"
  using GetPrefixLength_loop_le [of 32 "re_mask r" 0]
  by (simp add: Ipv4Mask_GetPrefixLength_def push_bit_out word_le_nat_alt)

text \<open>
  What makes an entry the right choice among the usable ones: no usable entry has a longer
  prefix, and below 32 bits none of the same length has a smaller metric.
\<close>

definition usable :: "ipv4_stack \<Rightarrow> ipv4 \<Rightarrow> nat \<Rightarrow> static_routing \<Rightarrow> static_routing" where
  "usable ip dest oif rs = filter (\<lambda>(r, m). entry_matches ip dest oif r) rs"

definition best_among :: "static_routing \<Rightarrow> routing_entry \<Rightarrow> u32 \<Rightarrow> bool" where
  "best_among us j m \<longleftrightarrow> (j, m) \<in> set us \<and>
     (\<forall>(j', m') \<in> set us. plen j' \<le> plen j \<and> (plen j' = plen j \<longrightarrow> plen j < 32 \<longrightarrow> m \<le> m'))"

text \<open>The state of the loop after the usable entries \<open>pre\<close>.\<close>

definition lookup_state ::
  "ipv4_stack \<Rightarrow> static_routing \<Rightarrow> u16 \<Rightarrow> u32 \<Rightarrow> ipv4_route option \<Rightarrow> bool" where
  "lookup_state ip pre longest shortest rt \<longleftrightarrow>
     (if pre = [] then longest = 0 \<and> shortest = 0xffffffff \<and> rt = None
      else \<exists>j. best_among pre j shortest \<and> longest = plen j \<and> plen j < 32 \<and> rt = Some (static_route ip j))"

lemma max_metric: "(m :: u32) \<le> 0xffffffff"
proof -
  have "unat m \<le> 4294967295" using unat_u32_lt [of m] by linarith
  then show ?thesis by (simp add: word_le_nat_alt)
qed

lemma lookup_state_skip:
  assumes "lookup_state ip pre longest shortest rt" "pre \<noteq> []"
    and "plen r < longest \<or> plen r = longest \<and> m > shortest"
  shows "lookup_state ip (pre @ [(r, m)]) longest shortest rt"
  using assms by (auto simp: lookup_state_def best_among_def)

lemma lookup_state_take:
  assumes "lookup_state ip pre longest shortest rt" "plen r < 32"
    and "plen r > longest \<or> pre = [] \<or> plen r = longest \<and> m \<le> shortest"
  shows "lookup_state ip (pre @ [(r, m)]) (plen r) m (Some (static_route ip r))"
proof (cases "pre = []")
  case True
  then show ?thesis using assms(2) by (auto simp: lookup_state_def best_among_def)
next
  case False
  with assms(1) obtain j where j: "best_among pre j shortest" "longest = plen j" by (auto simp: lookup_state_def)
  have "plen j' \<le> plen r \<and> (plen j' = plen r \<longrightarrow> plen r < 32 \<longrightarrow> m \<le> m')" if "(j', m') \<in> set pre" for j' m'
  proof -
    from j that have "plen j' \<le> longest" "plen j' = longest \<longrightarrow> longest < 32 \<longrightarrow> shortest \<le> m'"
      by (auto simp: best_among_def)
    with assms(3) False show ?thesis by (auto simp: assms(2))
  qed
  then have "best_among (pre @ [(r, m)]) r m" by (auto simp: best_among_def)
  then show ?thesis using assms(2) by (auto simp: lookup_state_def)
qed

lemma LookupStatic_loop_correct:
  assumes "lookup_state ip pre longest shortest rt"
  shows "(if pre @ usable ip dest oif rs = [] then LookupStatic_loop ip dest oif rs longest shortest rt = None
    else \<exists>j m. best_among (pre @ usable ip dest oif rs) j m \<and>
      LookupStatic_loop ip dest oif rs longest shortest rt = Some (static_route ip j))"
  using assms
proof (induction rs arbitrary: pre longest shortest rt)
  case Nil
  then show ?case by (auto simp: usable_def lookup_state_def) blast
next
  case (Cons e rs)
  obtain r m where e: "e = (r, m)" by fastforce
  show ?case
  proof (cases "entry_matches ip dest oif r")
    case False
    with Cons.IH [OF Cons.prems] show ?thesis
      by (auto simp: e usable_def entry_matches_def on_device_def Let_def)
  next
    case True
    then have us: "pre @ usable ip dest oif (e # rs) = (pre @ [(r, m)]) @ usable ip dest oif rs"
      by (simp add: e usable_def)
    note go = Cons.IH [of "pre @ [(r, m)]"]
    let ?s1 = "if plen r > longest then 0xffffffff else shortest"
    have step: "LookupStatic_loop ip dest oif (e # rs) longest shortest rt =
      (if plen r < longest then LookupStatic_loop ip dest oif rs longest shortest rt
       else if m > ?s1 then LookupStatic_loop ip dest oif rs (plen r) ?s1 rt
       else if plen r = 32 then Some (static_route ip r)
       else LookupStatic_loop ip dest oif rs (plen r) m (Some (static_route ip r)))"
      using True by (auto simp: e entry_matches_def on_device_def Let_def)
    have empty: "\<not> plen r < longest" "\<not> m > ?s1" if "pre = []"
      using that Cons.prems max_metric [of m] by (simp_all add: lookup_state_def not_less)
    consider (shorter) "plen r < longest" "pre \<noteq> []" | (dearer) "plen r = longest" "m > shortest" "pre \<noteq> []"
      | (host) "\<not> plen r < longest" "\<not> m > ?s1" "plen r = 32"
      | (better) "\<not> plen r < longest" "\<not> m > ?s1" "plen r < 32"
      using empty plen_le [of r] max_metric [of m] by (fastforce simp: not_less split: if_splits)
    then show ?thesis
    proof cases
      case shorter
      with lookup_state_skip [OF Cons.prems, of r m] have "lookup_state ip (pre @ [(r, m)]) longest shortest rt" by simp
      from go [OF this] shorter show ?thesis unfolding us step by simp
    next
      case dearer
      with lookup_state_skip [OF Cons.prems, of r m] have "lookup_state ip (pre @ [(r, m)]) longest shortest rt" by simp
      from go [OF this] dearer show ?thesis unfolding us step by simp
    next
      case host
      have "best_among ((pre @ [(r, m)]) @ usable ip dest oif rs) r m"
        using host(3) plen_le by (auto simp: best_among_def)
      with host show ?thesis unfolding us step by auto
    next
      case better
      with lookup_state_take [OF Cons.prems, of r m]
      have "lookup_state ip (pre @ [(r, m)]) (plen r) m (Some (static_route ip r))"
        by (auto simp: not_less split: if_splits)
      moreover have "plen r \<noteq> 32" using better(3) by auto
      ultimately show ?thesis using go [of "plen r" m "Some (static_route ip r)"] better
        unfolding us step by simp
    qed
  qed
qed

section \<open>The table of global routes\<close>

definition all_routes :: "global_routing \<Rightarrow> routing_entry list" where
  "all_routes g = m_hostRoutes g @ m_networkRoutes g @ m_ASexternalRoutes g"

lemma GetRoute_nth:
  "GlobalRouting_GetRoute i g = (if i < length (all_routes g) then Inr (all_routes g ! i) else Inl Assert)"
  by (auto simp: GlobalRouting_GetRoute_def all_routes_def nth_append Let_def)

lemma erase_at_append:
  "erase_at i (xs @ ys) = (if i < length xs then erase_at i xs @ ys else xs @ erase_at (i - length xs) ys)"
  by (auto simp: erase_at_def Suc_diff_le)

lemma RemoveRoute_all:
  assumes "i < length (all_routes g)"
  shows "\<exists>g'. GlobalRouting_RemoveRoute i g = Inr g' \<and> all_routes g' = erase_at i (all_routes g)"
  using assms by (auto simp: GlobalRouting_RemoveRoute_def all_routes_def erase_at_append Let_def)

section \<open>Properties\<close>

text \<open>A stack with one interface per device, and no address of its own, for the witnesses.\<close>

definition demo_stack :: ipv4_stack where
  "demo_stack =
     \<lparr>GetNetDevice = (\<lambda>i. unat i), GetAddress0 = (\<lambda>i. i), GetInterfaceForDevice = (\<lambda>d. Some (of_nat d)),
      IsDestinationAddress = (\<lambda>a i. False), IsForwarding = (\<lambda>i. True),
      SourceAddressSelection = (\<lambda>i d. i), IsUp = (\<lambda>i. True), GetAddresses = (\<lambda>i. [])\<rparr>"

text \<open>
  C14. \<open>LookupStatic\<close> is longest-prefix match. For a destination that is not link-local multicast,
  it returns a route through a usable entry such that no usable entry has a longer prefix and,
  for prefixes shorter than 32 bits, none of the same length has a smaller metric; it returns
  no route exactly when no entry is usable.
\<close>

theorem static_longest_prefix:
  assumes "\<not> Ipv4Address_IsLocalMulticast dest"
  shows "if usable ip dest oif rs = [] then StaticRouting_LookupStatic ip dest oif rs = Inr None
    else \<exists>j m. best_among (usable ip dest oif rs) j m \<and>
      StaticRouting_LookupStatic ip dest oif rs = Inr (Some (static_route ip j))"
  using LookupStatic_loop_correct [of ip "[]" 0 "0xffffffff" None dest oif rs] assms
  by (auto simp: lookup_state_def StaticRouting_LookupStatic_def split: if_splits)

theorem static_longest_prefix_witness:
  "if usable demo_stack 0x0a010203 0 [(CreateNetworkRouteTo 0x0a000000 0xff000000 1 1, 0)] = []
    then StaticRouting_LookupStatic demo_stack 0x0a010203 0 [(CreateNetworkRouteTo 0x0a000000 0xff000000 1 1, 0)] = Inr None
    else \<exists>j m. best_among (usable demo_stack 0x0a010203 0 [(CreateNetworkRouteTo 0x0a000000 0xff000000 1 1, 0)]) j m \<and>
      StaticRouting_LookupStatic demo_stack 0x0a010203 0 [(CreateNetworkRouteTo 0x0a000000 0xff000000 1 1, 0)] =
        Inr (Some (static_route demo_stack j))"
  by (rule static_longest_prefix) (simp add: Ipv4Address_IsLocalMulticast_def)

text \<open>
  Metrics of host routes are not compared. The loop stops at the first matching entry of 32
  bits: of two host routes to the same address, the first is chosen although the second has the
  smaller metric.
\<close>

theorem static_host_metric_ignored:
  "StaticRouting_LookupStatic demo_stack 5 0
     (StaticRouting_AddHostRouteTo_direct 5 2 1 (StaticRouting_AddHostRouteTo_direct 5 1 10 [])) =
   Inr (Some (static_route demo_stack (CreateHostRouteTo_direct 5 1)))"
proof -
  have p: "Ipv4Mask_GetPrefixLength 0xffffffff = 32"
  proof -
    have e: "push_bit 0 (- 1 :: u32) = 0xffffffff" by simp
    show ?thesis
      using GetPrefixLength_loop_ones [of 0 0] unfolding e Ipv4Mask_GetPrefixLength_def by simp
  qed
  show ?thesis
    by (simp add: StaticRouting_LookupStatic_def StaticRouting_AddHostRouteTo_direct_def p
        StaticRouting_AddNetworkRouteTo_direct_def StaticRouting_LookupRoute_def CreateHostRouteTo_direct_def
        CreateNetworkRouteTo_direct_def Ipv4Address_IsLocalMulticast_def Ipv4Mask_IsMatch_def
        Ipv4Mask_GetOnes_def)
qed

text \<open>
  \<open>LookupGlobal\<close>. With host routes in the host list and a random variable that stays in its
  range, the lookup returns. The route found goes through a matching host route if there is one,
  otherwise through a matching network route if there is one, otherwise through a matching
  external route; nothing is found exactly when no entry matches.
\<close>

theorem lookup_global_correct:
  assumes "list_all Entry_IsHost (m_hostRoutes g)" and "\<And>n. GetInteger 0 n \<le> n"
  shows "\<exists>found. GlobalRouting_LookupGlobal GetInteger ip dest oif g = Inr found \<and>
    (let hosts = {r \<in> set (m_hostRoutes g). re_dest r = dest \<and> on_device ip oif r};
         nets = {r \<in> set (m_networkRoutes g). entry_matches ip dest oif r};
         exts = {r \<in> set (m_ASexternalRoutes g). entry_matches ip dest oif r}
     in case found of
          None \<Rightarrow> hosts = {} \<and> nets = {} \<and> exts = {}
        | Some rt \<Rightarrow> rt \<in> route_via ip ` (if hosts \<noteq> {} then hosts else if nets \<noteq> {} then nets else exts))"
proof -
  define cs where "cs = (let hosts = filter (\<lambda>r. re_dest r = dest \<and> on_device ip oif r) (m_hostRoutes g);
      nets = filter (entry_matches ip dest oif) (m_networkRoutes g);
      exts = filter (entry_matches ip dest oif) (m_ASexternalRoutes g)
    in if hosts \<noteq> [] then hosts else if nets \<noteq> [] then nets else take 1 exts)"
  have c: "GlobalRouting_candidates ip dest oif g = Inr cs"
    using assms(1) by (simp add: GlobalRouting_candidates_def host_candidates_def cs_def Let_def)
  let ?hosts = "{r \<in> set (m_hostRoutes g). re_dest r = dest \<and> on_device ip oif r}"
  let ?nets = "{r \<in> set (m_networkRoutes g). entry_matches ip dest oif r}"
  let ?exts = "{r \<in> set (m_ASexternalRoutes g). entry_matches ip dest oif r}"
  have set_cs: "set cs \<subseteq> (if ?hosts \<noteq> {} then ?hosts else if ?nets \<noteq> {} then ?nets else ?exts)"
    by (auto simp: cs_def Let_def filter_empty_conv dest: in_set_takeD)
  have empty_cs: "cs = [] \<longleftrightarrow> ?hosts = {} \<and> ?nets = {} \<and> ?exts = {}"
    by (auto simp: cs_def Let_def filter_empty_conv)
  show ?thesis
  proof (cases "cs = []")
    case True
    then show ?thesis using empty_cs by (simp add: GlobalRouting_LookupGlobal_def c Let_def)
  next
    case False
    define i where "i = (if m_randomEcmpRouting g then GetInteger 0 (length cs - 1) else 0)"
    have i: "i < length cs" using False assms(2) [of "length cs - 1"] by (auto simp: i_def neq_Nil_conv)
    then have "cs ! i \<in> set cs" by simp
    moreover have "GlobalRouting_LookupGlobal GetInteger ip dest oif g = Inr (Some (route_via ip (cs ! i)))"
      using False i by (simp add: GlobalRouting_LookupGlobal_def c i_def)
    ultimately show ?thesis
      using subsetD [OF set_cs, THEN imageI [of _ _ "route_via ip"], of "cs ! i"] by (simp add: Let_def)
  qed
qed

definition demo_global :: global_routing where
  "demo_global = GlobalRouting_AddNetworkRouteTo 0x0a010000 0xffff0000 7 2
     (GlobalRouting_AddHostRouteTo 0x0a010203 9 3 GlobalRouting_new)"

theorem lookup_global_correct_witness:
  "\<exists>found. GlobalRouting_LookupGlobal (\<lambda>lo hi. hi) demo_stack 0x0a010203 0 demo_global = Inr found \<and>
    (let hosts = {r \<in> set (m_hostRoutes demo_global). re_dest r = 0x0a010203 \<and> on_device demo_stack 0 r};
         nets = {r \<in> set (m_networkRoutes demo_global). entry_matches demo_stack 0x0a010203 0 r};
         exts = {r \<in> set (m_ASexternalRoutes demo_global). entry_matches demo_stack 0x0a010203 0 r}
     in case found of
          None \<Rightarrow> hosts = {} \<and> nets = {} \<and> exts = {}
        | Some rt \<Rightarrow> rt \<in> route_via demo_stack ` (if hosts \<noteq> {} then hosts else if nets \<noteq> {} then nets else exts))"
  by (rule lookup_global_correct)
     (simp_all add: demo_global_def GlobalRouting_AddNetworkRouteTo_def GlobalRouting_AddHostRouteTo_def
       GlobalRouting_new_def CreateHostRouteTo_def Entry_IsHost_def)

text \<open>
  C15. The three lists are one table. \<open>GetRoute\<close> indexes the host, network and external routes as
  one list and trips its assertion exactly past the end; \<open>RemoveRoute\<close> takes out exactly the
  route at the index and keeps the others in order.
\<close>

theorem global_routes_refine_one_list:
  "GlobalRouting_GetRoute i g = (if i < length (all_routes g) then Inr (all_routes g ! i) else Inl Assert) \<and>
   (i < length (all_routes g) \<longrightarrow>
     (\<exists>g'. GlobalRouting_RemoveRoute i g = Inr g' \<and>
       all_routes g' = take i (all_routes g) @ drop (Suc i) (all_routes g)))"
  using GetRoute_nth [of i g] RemoveRoute_all [of i g] by (auto simp: erase_at_def)

theorem global_routes_refine_one_list_witness:
  "\<exists>g'. GlobalRouting_RemoveRoute 1 demo_global = Inr g' \<and>
     all_routes g' = take 1 (all_routes demo_global) @ drop (Suc 1) (all_routes demo_global)"
  using global_routes_refine_one_list [of 1 demo_global]
  by (simp add: demo_global_def GlobalRouting_AddNetworkRouteTo_def GlobalRouting_AddHostRouteTo_def
       GlobalRouting_new_def all_routes_def)

end
