(* ===== verification/Rl_Routing.thy ===== *)
theory Rl_Routing
  imports Ipv4_Routing
begin

text \<open>
  The load balancer's routing protocol, \<open>src/internet/model/aarl-ipv4-routing.{h,cpp}\<close>, with its
  packet tag; the list protocol that consults it before static and global routing,
  \<open>src/internet/model/ipv4-list-routing.cc\<close>; and the contract between the list and its members.
\<close>

section \<open>The packet tag\<close>

record my_tag =
  t_leaf_id :: u32
  t_interface :: u32

definition MyTag_new :: my_tag where
  "MyTag_new = \<lparr>t_leaf_id = 99999, t_interface = 99999\<rparr>"

text \<open>A tag buffer is little-endian.\<close>

definition TagBuffer_WriteU32 :: "u32 \<Rightarrow> bytes" where
  "TagBuffer_WriteU32 d =
     [ucast d, ucast (drop_bit 8 d), ucast (drop_bit 16 d), ucast (drop_bit 24 d)]"

definition TagBuffer_ReadU32 :: "bytes \<Rightarrow> (u32 \<times> bytes) res" where
  "TagBuffer_ReadU32 bs =
     bind_res (ReadU8 bs) (\<lambda>(byte0, r0).
     bind_res (ReadU8 r0) (\<lambda>(byte1, r1).
     bind_res (ReadU8 r1) (\<lambda>(byte2, r2).
     bind_res (ReadU8 r2) (\<lambda>(byte3, r3).
       Inr (push_bit 8 (push_bit 8 (push_bit 8 (ucast byte3) OR ucast byte2) OR ucast byte1) OR ucast byte0, r3)))))"

definition MyTag_GetSerializedSize :: nat where
  "MyTag_GetSerializedSize = 4 * 2"

definition MyTag_Serialize :: "my_tag \<Rightarrow> bytes" where
  "MyTag_Serialize t = TagBuffer_WriteU32 (t_leaf_id t) @ TagBuffer_WriteU32 (t_interface t)"

definition MyTag_Deserialize :: "bytes \<Rightarrow> my_tag res" where
  "MyTag_Deserialize bs =
     bind_res (TagBuffer_ReadU32 bs) (\<lambda>(l, r).
     bind_res (TagBuffer_ReadU32 r) (\<lambda>(i, r'). Inr \<lparr>t_leaf_id = l, t_interface = i\<rparr>))"

text \<open>\<open>PacketTagList::Add\<close> and \<open>Peek\<close>: a packet has at most one tag of each type.\<close>

definition PacketTagList_Add :: "string \<Rightarrow> bytes \<Rightarrow> packet \<Rightarrow> packet res" where
  "PacketTagList_Add tid data p =
     ns_assert (list_all (\<lambda>(t, d). t \<noteq> tid) (pk_tags p)) (Inr (p\<lparr>pk_tags := (tid, data) # pk_tags p\<rparr>))"

definition PacketTagList_Peek :: "string \<Rightarrow> (bytes \<Rightarrow> 't res) \<Rightarrow> packet \<Rightarrow> 't option res" where
  "PacketTagList_Peek tid deserialize p =
     (case List.find (\<lambda>(t, d). t = tid) (pk_tags p) of
        None \<Rightarrow> Inr None
      | Some (t, d) \<Rightarrow> bind_res (deserialize d) (\<lambda>x. Inr (Some x)))"

definition MY_TAG :: string where "MY_TAG = ''ns3::MyTag''"

section \<open>The routing protocol\<close>

text \<open>
  The distribution over output ports is kept as its weights; \<open>probabilities ()\<close> of a
  \<open>std::discrete_distribution\<close> has one element when there are fewer than two weights. \<open>rl_ipv4\<close> is the
  pointer to the IP stack: \<open>SetIpv4\<close> leaves it null, and only \<open>init_routes\<close> sets it.
\<close>

record 'f rl_routing =
  rl_ipv4 :: "ipv4_stack option"
  rl_hostRoutes :: "routing_entry list"
  rl_networkRoutes :: "routing_entry list"
  rl_weights :: "'f list"
  rl_stats :: "u64 list"

definition RlRouting_new :: "'f rl_routing" where
  "RlRouting_new = \<lparr>rl_ipv4 = None, rl_hostRoutes = [], rl_networkRoutes = [], rl_weights = [], rl_stats = [0, 0]\<rparr>"

definition probabilities_size :: "'f list \<Rightarrow> nat" where
  "probabilities_size ws = (if length ws < 2 then 1 else length ws)"

definition RlRouting_SetDistribution :: "'f list \<Rightarrow> 'f rl_routing \<Rightarrow> bool \<times> 'f rl_routing" where
  "RlRouting_SetDistribution dist r = (True, r\<lparr>rl_weights := dist\<rparr>)"

definition RlRouting_resetStats :: "'f rl_routing \<Rightarrow> 'f rl_routing res" where
  "RlRouting_resetStats r = defined_if (2 \<le> length (rl_stats r)) (Inr (r\<lparr>rl_stats := (rl_stats r)[0 := 0, 1 := 0]\<rparr>))"

definition RlRouting_getStats :: "'f rl_routing \<Rightarrow> u64 list" where
  "RlRouting_getStats r = rl_stats r"

definition RlRouting_init_routes ::
  "ipv4_stack \<Rightarrow> routing_entry list \<Rightarrow> routing_entry list \<Rightarrow> 'f rl_routing \<Rightarrow> 'f rl_routing" where
  "RlRouting_init_routes ip host_routes network_routes r =
     r\<lparr>rl_ipv4 := Some ip, rl_hostRoutes := rl_hostRoutes r @
         map (\<lambda>h. CreateHostRouteTo (re_dest h) (re_gateway h) (re_interface h)) host_routes,
       rl_networkRoutes := rl_networkRoutes r @
         map (\<lambda>n. CreateNetworkRouteTo (re_dest n) (re_mask n) (re_gateway n) (re_interface n)) network_routes\<rparr>"

text \<open>The dereference of \<open>m_ipv4\<close>: a null smart pointer trips an assertion.\<close>

definition deref_ipv4 :: "'f rl_routing \<Rightarrow> ipv4_stack res" where
  "deref_ipv4 r = (case rl_ipv4 r of None \<Rightarrow> Inl Assert | Some ip \<Rightarrow> Inr ip)"

definition RlRouting_RouteOutput :: "'f rl_routing \<Rightarrow> ipv4_route option" where
  "RlRouting_RouteOutput r = None"

definition RlRouting_Lookup :: "ipv4_stack \<Rightarrow> ipv4 \<Rightarrow> nat \<Rightarrow> 'f rl_routing \<Rightarrow> ipv4_route list res" where
  "RlRouting_Lookup ip dest oif r =
     bind_res (host_candidates ip dest oif (rl_hostRoutes r)) (\<lambda>hosts.
       let allRoutes = (if hosts \<noteq> [] then hosts else filter (entry_matches ip dest oif) (rl_networkRoutes r))
       in Inr (map (route_via ip) allRoutes))"

text \<open>
  \<open>RouteInput\<close>: \<open>ifIndex\<close> and \<open>nodeId\<close> give the interface index and the node of a device. The
  result is the value returned, the callbacks made, the protocol's state and the packet.
\<close>

definition RlRouting_RouteInput ::
  "(nat \<Rightarrow> u32) \<Rightarrow> (nat \<Rightarrow> u32) \<Rightarrow> ipv4 \<Rightarrow> nat \<Rightarrow> bool \<Rightarrow> packet \<Rightarrow> 'f rl_routing \<Rightarrow>
   (bool \<times> route_action list \<times> packet \<times> 'f rl_routing) res" where
  "RlRouting_RouteInput ifIndex nodeId dest idev lcb p r =
     bind_res (deref_ipv4 r) (\<lambda>ip.
     case GetInterfaceForDevice ip idev of
       None \<Rightarrow> Inl Assert
     | Some iif \<Rightarrow>
         if Ipv4Address_IsMulticast dest \<or> Ipv4Address_IsBroadcast dest then
           Inr (False, [RouteError ERROR_NOROUTETOHOST], p, r)
         else if \<not> IsForwarding ip iif then Inr (False, [RouteError ERROR_NOROUTETOHOST], p, r)
         else if IsDestinationAddress ip dest iif then
           if lcb then Inr (True, [LocalDeliver iif], p, r) else Inr (False, [], p, r)
         else
           bind_res (RlRouting_Lookup ip dest 0 r) (\<lambda>candidates.
             if length candidates = 1 then Inr (True, [UnicastForward (candidates ! 0)], p, r)
             else if length candidates > 1 then
               ns_assert (length candidates = probabilities_size (rl_weights r))
                 (let index = 0; outputRoute = candidates ! index;
                      tmp = \<lparr>t_leaf_id = nodeId (rt_device outputRoute), t_interface = ifIndex (rt_device outputRoute)\<rparr>
                  in defined_if (index < length (rl_stats r))
                      (bind_res (PacketTagList_Add MY_TAG (MyTag_Serialize tmp) p) (\<lambda>p1.
                         Inr (False, [UnicastForward outputRoute], p1,
                              r\<lparr>rl_stats := (rl_stats r)[index := rl_stats r ! index + 1]\<rparr>))))
             else Inr (False, [], p, r)))"

section \<open>The list of protocols\<close>

text \<open>
  A member of the list is its priority and its \<open>RouteInput\<close>, which takes whether a local delivery
  callback is set and the state the members share (their own states and the packet).
\<close>

type_synonym 's route_input = "bool \<Rightarrow> 's \<Rightarrow> (bool \<times> route_action list \<times> 's) res"

type_synonym 's list_routing = "(int \<times> 's route_input) list"

text \<open>\<open>AddRoutingProtocol\<close>: appended, then a stable sort by decreasing priority.\<close>

definition ListRouting_AddRoutingProtocol :: "'p \<Rightarrow> int \<Rightarrow> (int \<times> 'p) list \<Rightarrow> (int \<times> 'p) list" where
  "ListRouting_AddRoutingProtocol proto priority ps = sort_key (\<lambda>e. - fst e) (ps @ [(priority, proto)])"

definition ListRouting_GetRoutingProtocol :: "nat \<Rightarrow> (int \<times> 'p) list \<Rightarrow> (int \<times> 'p) option res" where
  "ListRouting_GetRoutingProtocol index ps =
     (if index > length ps then Inl Fatal
      else if index < length ps then Inr (Some (ps ! index)) else Inr None)"

fun ListRouting_RouteInput_loop :: "bool \<Rightarrow> bool \<Rightarrow> 's list_routing \<Rightarrow> 's \<Rightarrow> (bool \<times> route_action list \<times> 's) res" where
  "ListRouting_RouteInput_loop retVal lcb [] s = Inr (retVal, [], s)"
| "ListRouting_RouteInput_loop retVal lcb ((priority, proto) # ps) s =
     bind_res (proto lcb s) (\<lambda>(ok, acts, s1).
       if ok then Inr (True, acts, s1)
       else bind_res (ListRouting_RouteInput_loop retVal lcb ps s1) (\<lambda>(b, acts', s2). Inr (b, acts @ acts', s2)))"

definition ListRouting_RouteInput ::
  "ipv4_stack \<Rightarrow> ipv4 \<Rightarrow> nat \<Rightarrow> 's list_routing \<Rightarrow> 's \<Rightarrow> (bool \<times> route_action list \<times> 's) res" where
  "ListRouting_RouteInput ip dest idev ps s =
     (case GetInterfaceForDevice ip idev of
        None \<Rightarrow> Inl Assert
      | Some iif \<Rightarrow>
          let local = IsDestinationAddress ip dest iif in
          if local \<and> \<not> Ipv4Address_IsMulticast dest then Inr (True, [LocalDeliver iif], s)
          else
            let delivered = (if local then [LocalDeliver iif] else []) in
            if \<not> IsForwarding ip iif then Inr (True, delivered @ [RouteError ERROR_NOROUTETOHOST], s)
            else bind_res (ListRouting_RouteInput_loop local (\<not> local) ps s) (\<lambda>(b, acts, s1).
                   Inr (b, delivered @ acts, s1)))"

text \<open>\<open>RouteOutput\<close> asks each member for a route in turn.\<close>

fun ListRouting_RouteOutput_loop :: "'s \<Rightarrow> ('s \<Rightarrow> ipv4_route option res) list \<Rightarrow> (ipv4_route option \<times> SocketErrno) res" where
  "ListRouting_RouteOutput_loop s [] = Inr (None, ERROR_NOROUTETOHOST)"
| "ListRouting_RouteOutput_loop s (proto # ps) =
     bind_res (proto s) (\<lambda>route.
       if route \<noteq> None then Inr (route, ERROR_NOTERROR) else ListRouting_RouteOutput_loop s ps)"

section \<open>The contract of a member\<close>

text \<open>
  The documentation of \<open>Ipv4RoutingProtocol::RouteInput\<close>: true if the protocol takes
  responsibility for forwarding or delivering the packet, false otherwise. A member that keeps
  to it makes one callback exactly when it returns true.
\<close>

definition takes_responsibility :: "'s route_input \<Rightarrow> bool" where
  "takes_responsibility proto \<longleftrightarrow>
     (\<forall>lcb s b acts s'. proto lcb s = Inr (b, acts, s') \<longrightarrow> length acts = (if b then 1 else 0))"

locale routing_list =
  fixes ps :: "'s list_routing"
  assumes members: "\<forall>(priority, proto) \<in> set ps. takes_responsibility proto"
begin

lemma loop_one_action:
  assumes "ListRouting_RouteInput_loop retVal lcb ps s = Inr (b, acts, s')"
  shows "length acts \<le> 1 \<and> (\<not> retVal \<longrightarrow> length acts = (if b then 1 else 0))"
  using members assms
proof (induction ps arbitrary: s acts b s')
  case (Cons e qs)
  obtain priority proto where e: "e = (priority, proto)" by fastforce
  from Cons.prems(2) obtain ok a1 s1 where p: "proto lcb s = Inr (ok, a1, s1)"
    by (cases "proto lcb s") (auto simp: e)
  have "takes_responsibility proto" using Cons.prems(1) by (simp add: e)
  with p have l: "length a1 = (if ok then 1 else 0)"
    unfolding takes_responsibility_def by blast
  show ?case
  proof (cases ok)
    case True
    with Cons.prems(2) p l show ?thesis by (auto simp: e)
  next
    case False
    with Cons.prems(2) p obtain b2 a2 s2 where
      r: "ListRouting_RouteInput_loop retVal lcb qs s1 = Inr (b2, a2, s2)" "b = b2" "acts = a1 @ a2"
      by (cases "ListRouting_RouteInput_loop retVal lcb qs s1") (auto simp: e)
    from Cons.IH [OF _ r(1)] Cons.prems(1) False l r show ?thesis by (auto simp: e)
  qed
qed auto

lemma one_action:
  assumes "ListRouting_RouteInput ip dest idev ps s = Inr (b, acts, s')" "\<not> Ipv4Address_IsMulticast dest"
  shows "length acts = (if b then 1 else 0)"
proof -
  from assms(1) obtain iif where i: "GetInterfaceForDevice ip idev = Some iif"
    by (cases "GetInterfaceForDevice ip idev") (auto simp: ListRouting_RouteInput_def)
  show ?thesis
  proof (cases "IsDestinationAddress ip dest iif \<or> \<not> IsForwarding ip iif")
    case True
    with assms i show ?thesis by (auto simp: ListRouting_RouteInput_def Let_def split: if_splits)
  next
    case False
    with assms i obtain b1 acts1 s1 where "ListRouting_RouteInput_loop False True ps s = Inr (b1, acts1, s1)"
      "b = b1" "acts = acts1"
      by (cases "ListRouting_RouteInput_loop False True ps s") (auto simp: ListRouting_RouteInput_def Let_def)
    with loop_one_action show ?thesis by blast
  qed
qed

end

text \<open>Static and global routing as members; they change no state.\<close>

definition static_member :: "ipv4_stack \<Rightarrow> ipv4 \<Rightarrow> nat \<Rightarrow> static_routing \<Rightarrow> multicast_entry list \<Rightarrow> 's route_input" where
  "static_member ip dest idev rs ms lcb s =
     bind_res (StaticRouting_RouteInput ip dest idev lcb rs ms) (\<lambda>(b, acts). Inr (b, acts, s))"

definition global_member :: "(nat \<Rightarrow> nat \<Rightarrow> nat) \<Rightarrow> ipv4_stack \<Rightarrow> ipv4 \<Rightarrow> nat \<Rightarrow> global_routing \<Rightarrow> 's route_input" where
  "global_member GetInteger ip dest idev g lcb s =
     bind_res (GlobalRouting_RouteInput GetInteger ip dest idev lcb g) (\<lambda>(b, acts). Inr (b, acts, s))"

text \<open>The load balancer's protocol as a member: the state is the packet and the protocol's own.\<close>

definition rl_member ::
  "(nat \<Rightarrow> u32) \<Rightarrow> (nat \<Rightarrow> u32) \<Rightarrow> ipv4 \<Rightarrow> nat \<Rightarrow> (packet \<times> 'f rl_routing) route_input" where
  "rl_member ifIndex nodeId dest idev lcb s =
     bind_res (RlRouting_RouteInput ifIndex nodeId dest idev lcb (fst s) (snd s)) (\<lambda>(b, acts, p, r).
       Inr (b, acts, (p, r)))"

lemma bind_res_InrE:
  assumes "bind_res m f = Inr y"
  obtains x where "m = Inr x" "f x = Inr y"
  using assms by (cases m) auto

lemma static_takes_responsibility: "takes_responsibility (static_member ip dest idev rs ms)"
  unfolding takes_responsibility_def static_member_def StaticRouting_RouteInput_def
  by (auto split: option.splits if_splits elim!: bind_res_InrE)

lemma global_takes_responsibility: "takes_responsibility (global_member GetInteger ip dest idev g)"
  unfolding takes_responsibility_def global_member_def GlobalRouting_RouteInput_def
  by (auto split: option.splits if_splits elim!: bind_res_InrE)

text \<open>
  The list that \<open>InternetStackHelper::Initialize\<close> builds, static routing with priority 1 and then
  global routing with priority -10; with \<open>rl_enable\<close>, \<open>Install\<close> adds the load balancer's protocol
  with priority 10.
\<close>

definition default_list ::
  "(nat \<Rightarrow> nat \<Rightarrow> nat) \<Rightarrow> ipv4_stack \<Rightarrow> ipv4 \<Rightarrow> nat \<Rightarrow> static_routing \<Rightarrow> multicast_entry list \<Rightarrow> global_routing \<Rightarrow>
   's list_routing" where
  "default_list GetInteger ip dest idev rs ms g =
     ListRouting_AddRoutingProtocol (global_member GetInteger ip dest idev g) (- 10)
       (ListRouting_AddRoutingProtocol (static_member ip dest idev rs ms) 1 [])"

definition leaf_list ::
  "(nat \<Rightarrow> u32) \<Rightarrow> (nat \<Rightarrow> u32) \<Rightarrow> (nat \<Rightarrow> nat \<Rightarrow> nat) \<Rightarrow> ipv4_stack \<Rightarrow> ipv4 \<Rightarrow> nat \<Rightarrow> static_routing \<Rightarrow>
   multicast_entry list \<Rightarrow> global_routing \<Rightarrow> (packet \<times> 'f rl_routing) list_routing" where
  "leaf_list ifIndex nodeId GetInteger ip dest idev rs ms g =
     ListRouting_AddRoutingProtocol (rl_member ifIndex nodeId dest idev) 10
       (default_list GetInteger ip dest idev rs ms g)"

lemma default_list_order:
  "default_list GetInteger ip dest idev rs ms g =
     [(1, static_member ip dest idev rs ms), (- 10, global_member GetInteger ip dest idev g)]"
  by (simp add: default_list_def ListRouting_AddRoutingProtocol_def)

lemma leaf_list_order:
  "leaf_list ifIndex nodeId GetInteger ip dest idev rs ms g =
     [(10, rl_member ifIndex nodeId dest idev), (1, static_member ip dest idev rs ms),
      (- 10, global_member GetInteger ip dest idev g)]"
  by (simp add: leaf_list_def default_list_order ListRouting_AddRoutingProtocol_def)

interpretation default_routing: routing_list "default_list GetInteger ip dest idev rs ms g"
  for GetInteger ip dest idev rs ms g
  by unfold_locales (simp add: default_list_order static_takes_responsibility global_takes_responsibility)

section \<open>Round trip of the tag\<close>

lemma TagBuffer_round_trip [simp]: "TagBuffer_ReadU32 (TagBuffer_WriteU32 d @ bs) = Inr (d, bs)"
  by (simp add: TagBuffer_ReadU32_def TagBuffer_WriteU32_def join_u32)

lemma MyTag_round_trip: "MyTag_Deserialize (MyTag_Serialize t) = Inr t"
proof -
  have "TagBuffer_ReadU32 (TagBuffer_WriteU32 (t_interface t)) = Inr (t_interface t, [])"
    using TagBuffer_round_trip [of _ "[]"] by simp
  then show ?thesis by (simp add: MyTag_Serialize_def MyTag_Deserialize_def)
qed

text \<open>What the load balancer's protocol does with a packet that has several routes.\<close>

lemma RouteInput_several:
  assumes "rl_ipv4 r = Some ip" and "GetInterfaceForDevice ip idev = Some iif"
    and "\<not> Ipv4Address_IsMulticast dest" and "\<not> Ipv4Address_IsBroadcast dest"
    and "IsForwarding ip iif" and "\<not> IsDestinationAddress ip dest iif"
    and "RlRouting_Lookup ip dest 0 r = Inr candidates" and "1 < length candidates"
    and "length candidates = length (rl_weights r)" and "length (rl_stats r) = 2"
    and "list_all (\<lambda>(t, d). t \<noteq> MY_TAG) (pk_tags p)"
  shows "RlRouting_RouteInput ifIndex nodeId dest idev lcb p r =
    Inr (False, [UnicastForward (candidates ! 0)],
         p\<lparr>pk_tags := (MY_TAG, MyTag_Serialize \<lparr>t_leaf_id = nodeId (rt_device (candidates ! 0)),
                                            t_interface = ifIndex (rt_device (candidates ! 0))\<rparr>) # pk_tags p\<rparr>,
         r\<lparr>rl_stats := (rl_stats r)[0 := rl_stats r ! 0 + 1]\<rparr>)"
  using assms
  by (simp add: RlRouting_RouteInput_def deref_ipv4_def probabilities_size_def PacketTagList_Add_def Let_def)

section \<open>Properties\<close>

text \<open>
  C18. One callback per packet. On a node with the default list, static routing before global,
  a unicast packet that comes in leads to exactly one callback (delivery, forwarding or error)
  when the list returns true and to none when it returns false.
\<close>

theorem default_list_one_action:
  assumes "ListRouting_RouteInput ip dest idev (default_list GetInteger ip dest idev rs ms g) s = Inr (b, acts, s')"
    and "\<not> Ipv4Address_IsMulticast dest"
  shows "length acts = (if b then 1 else 0)"
  using assms by (rule default_routing.one_action)

lemma demo_stack_simps:
  "GetInterfaceForDevice demo_stack d = Some (of_nat d)" "IsDestinationAddress demo_stack a i = False"
  "IsForwarding demo_stack i = True"
  by (simp_all add: demo_stack_def)

lemma demo_static_lookup: "StaticRouting_LookupStatic demo_stack 0x0a010203 0 [] = Inr None"
  by (simp add: StaticRouting_LookupStatic_def Ipv4Address_IsLocalMulticast_def)

lemma demo_global_lookup:
  "GlobalRouting_LookupGlobal (\<lambda>lo hi. hi) demo_stack 0x0a010203 0 demo_global =
   Inr (Some (route_via demo_stack (CreateHostRouteTo 0x0a010203 9 3)))"
  by (simp add: GlobalRouting_LookupGlobal_def GlobalRouting_candidates_def host_candidates_def
      demo_global_def GlobalRouting_AddNetworkRouteTo_def GlobalRouting_AddHostRouteTo_def on_device_def
      GlobalRouting_new_def Let_def CreateHostRouteTo_def Entry_IsHost_def)

lemma demo_default_list:
  "ListRouting_RouteInput demo_stack 0x0a010203 1 (default_list (\<lambda>lo hi. hi) demo_stack 0x0a010203 1 [] [] demo_global) () =
   Inr (True, [UnicastForward (route_via demo_stack (CreateHostRouteTo 0x0a010203 9 3))], ())"
  by (simp add: ListRouting_RouteInput_def default_list_order static_member_def global_member_def
      StaticRouting_RouteInput_def GlobalRouting_RouteInput_def demo_stack_simps demo_static_lookup
      demo_global_lookup Ipv4Address_IsMulticast_def)

theorem default_list_one_action_witness:
  "\<exists>acts. ListRouting_RouteInput demo_stack 0x0a010203 1
     (default_list (\<lambda>lo hi. hi) demo_stack 0x0a010203 1 [] [] demo_global) () = Inr (True, acts, ()) \<and> length acts = 1"
  using default_list_one_action [OF demo_default_list] demo_default_list by (auto simp: Ipv4Address_IsMulticast_def)

text \<open>
  C17. The load balancer's protocol forwards and disclaims. For a unicast packet with more than one
  route, as many as there are weights, and no tag yet, \<open>RouteInput\<close> forwards through the first
  route whatever the weights are, counts it on the first counter, tags the packet with the node
  and the interface of that route, and returns false, although it has taken the packet.
\<close>

theorem rl_forwards_and_disclaims:
  assumes "rl_ipv4 r = Some ip" and "GetInterfaceForDevice ip idev = Some iif"
    and "\<not> Ipv4Address_IsMulticast dest" and "\<not> Ipv4Address_IsBroadcast dest"
    and "IsForwarding ip iif" and "\<not> IsDestinationAddress ip dest iif"
    and "RlRouting_Lookup ip dest 0 r = Inr candidates" and "1 < length candidates"
    and "length candidates = length (rl_weights r)" and "length (rl_stats r) = 2"
    and "list_all (\<lambda>(t, d). t \<noteq> MY_TAG) (pk_tags p)"
  shows "\<exists>p' r'. RlRouting_RouteInput ifIndex nodeId dest idev lcb p r =
      Inr (False, [UnicastForward (candidates ! 0)], p', r') \<and>
    rl_stats r' ! 0 = rl_stats r ! 0 + 1 \<and> rl_stats r' ! 1 = rl_stats r ! 1 \<and> pk_bytes p' = pk_bytes p \<and>
    PacketTagList_Peek MY_TAG MyTag_Deserialize p' =
      Inr (Some \<lparr>t_leaf_id = nodeId (rt_device (candidates ! 0)), t_interface = ifIndex (rt_device (candidates ! 0))\<rparr>)"
  unfolding RouteInput_several [OF assms]
  by (simp add: PacketTagList_Peek_def MyTag_round_trip assms(10))

text \<open>A leaf with two routes to a destination, one through each spine.\<close>

definition demo_rl :: "nat rl_routing" where
  "demo_rl = snd (RlRouting_SetDistribution [0, 100]
     (RlRouting_init_routes demo_stack
        [CreateHostRouteTo 0x0a010203 7 1, CreateHostRouteTo 0x0a010203 9 3] [] RlRouting_new))"

definition demo_rl_packet :: packet where
  "demo_rl_packet = \<lparr>pk_uid = 0, pk_tags = [], pk_bytes = [1, 2, 3]\<rparr>"

lemma demo_rl_simps:
  "rl_ipv4 demo_rl = Some demo_stack" "length (rl_weights demo_rl) = 2" "rl_stats demo_rl = [0, 0]"
  by (simp_all add: demo_rl_def RlRouting_SetDistribution_def RlRouting_init_routes_def RlRouting_new_def)

lemma demo_rl_lookup:
  "RlRouting_Lookup demo_stack 0x0a010203 0 demo_rl =
   Inr [route_via demo_stack (CreateHostRouteTo 0x0a010203 7 1), route_via demo_stack (CreateHostRouteTo 0x0a010203 9 3)]"
  by (simp add: RlRouting_Lookup_def demo_rl_def RlRouting_SetDistribution_def RlRouting_init_routes_def
      RlRouting_new_def host_candidates_def CreateHostRouteTo_def Entry_IsHost_def on_device_def)

theorem rl_forwards_and_disclaims_witness:
  "\<exists>p' r'. RlRouting_RouteInput (\<lambda>d. of_nat d) (\<lambda>d. 2) 0x0a010203 5 True demo_rl_packet demo_rl =
      Inr (False, [UnicastForward ([route_via demo_stack (CreateHostRouteTo 0x0a010203 7 1),
                                    route_via demo_stack (CreateHostRouteTo 0x0a010203 9 3)] ! 0)], p', r')"
  using rl_forwards_and_disclaims
    [of demo_rl demo_stack 5 5 "0x0a010203" _ demo_rl_packet "\<lambda>d. of_nat d" "\<lambda>d. 2" True, OF _ _ _ _ _ _ demo_rl_lookup]
  by (force simp: demo_rl_simps demo_stack_simps demo_rl_packet_def Ipv4Address_IsMulticast_def Ipv4Address_IsBroadcast_def)

text \<open>
  C16. A balanced packet is sent twice. On a leaf whose list holds the load balancer's protocol
  with priority 10, static routing and global routing, a unicast packet to a destination with
  several routes that static routing does not know and global routing does is forwarded by the
  first protocol and, as that returns false, a second time by global routing.
\<close>

theorem balanced_packet_forwarded_twice:
  assumes "rl_ipv4 r = Some ip" and "GetInterfaceForDevice ip idev = Some iif"
    and "\<not> Ipv4Address_IsMulticast dest" and "\<not> Ipv4Address_IsBroadcast dest"
    and "IsForwarding ip iif" and "\<not> IsDestinationAddress ip dest iif"
    and "RlRouting_Lookup ip dest 0 r = Inr candidates" and "1 < length candidates"
    and "length candidates = length (rl_weights r)" and "length (rl_stats r) = 2"
    and "list_all (\<lambda>(t, d). t \<noteq> MY_TAG) (pk_tags p)"
    and "StaticRouting_LookupStatic ip dest 0 rs = Inr None"
    and "GlobalRouting_LookupGlobal GetInteger ip dest 0 g = Inr (Some route)"
  shows "\<exists>s'. ListRouting_RouteInput ip dest idev
      (leaf_list ifIndex nodeId GetInteger ip dest idev rs ms g) (p, r) =
    Inr (True, [UnicastForward (candidates ! 0), UnicastForward route], s')"
  using assms RouteInput_several [OF assms(1-11)]
  by (simp add: ListRouting_RouteInput_def leaf_list_order rl_member_def static_member_def global_member_def
      StaticRouting_RouteInput_def GlobalRouting_RouteInput_def)

theorem balanced_packet_forwarded_twice_witness:
  "\<exists>s'. ListRouting_RouteInput demo_stack 0x0a010203 5
      (leaf_list (\<lambda>d. of_nat d) (\<lambda>d. 2) (\<lambda>lo hi. hi) demo_stack 0x0a010203 5 [] [] demo_global) (demo_rl_packet, demo_rl) =
    Inr (True, [UnicastForward ([route_via demo_stack (CreateHostRouteTo 0x0a010203 7 1),
                                 route_via demo_stack (CreateHostRouteTo 0x0a010203 9 3)] ! 0),
                UnicastForward (route_via demo_stack (CreateHostRouteTo 0x0a010203 9 3))], s')"
  by (rule balanced_packet_forwarded_twice [OF _ _ _ _ _ _ demo_rl_lookup _ _ _ _ demo_static_lookup demo_global_lookup, where iif = 5])
     (simp_all add: demo_rl_simps demo_stack_simps demo_rl_packet_def Ipv4Address_IsMulticast_def
       Ipv4Address_IsBroadcast_def)

end
