(* ===== verification/Ipv4_Header.thy ===== *)
theory Ipv4_Header
  imports Ipv4_Address
begin

text \<open>
  The IPv4 header, \<open>src/internet/model/ipv4-header.{h,cc}\<close>, and the Internet checksum of
  \<open>src/network/model/buffer.cc\<close>: setters and getters of the packed fields, serialization,
  deserialization and the checksum of both directions.
\<close>

section \<open>The checksum\<close>

fun sum_words :: "nat \<Rightarrow> bytes \<Rightarrow> u32 \<Rightarrow> (u32 \<times> bytes) res" where
  "sum_words 0 bs acc = Inr (acc, bs)"
| "sum_words (Suc n) bs acc = bind_res (ReadU16 bs) (\<lambda>(w, rest). sum_words n rest (acc + ucast w))"

lemma unat_low_half: "unat (s AND 0xffff) = unat s mod 65536" for s :: u32
proof -
  have "s AND mask 16 = s mod 2 ^ 16" by (simp only: take_bit_eq_mask [symmetric] take_bit_eq_mod)
  then have "s AND 0xffff = s mod 65536" by (simp add: mask_eq_exp_minus_1)
  then show ?thesis by (simp add: unat_mod_distrib)
qed

lemma unat_high_half: "unat (drop_bit 16 s) = unat s div 65536" for s :: u32
  by (simp add: drop_bit_eq_div unat_div_distrib)

lemma unat_folded: "unat ((s AND 0xffff) + drop_bit 16 s) = unat s mod 65536 + unat s div 65536" for s :: u32
proof -
  have "unat s div 65536 < 65536" using unat_u32_lt [of s] by (simp add: less_mult_imp_div_less)
  then have "unat s mod 65536 + unat s div 65536 < 2 ^ 32"
    using mod_less_divisor [of 65536 "unat s"] by simp
  then show ?thesis
    by (subst unat_add_nowrap) (simp_all add: unat_low_half unat_high_half)
qed

lemma fold_carry_decreases:
  fixes s :: u32
  assumes "drop_bit 16 s \<noteq> 0"
  shows "unat ((s AND 0xffff) + drop_bit 16 s) < unat s"
proof -
  have "unat s div 65536 \<noteq> 0"
    using assms unat_high_half [of s] by (metis unsigned_eq_0_iff)
  moreover have "unat s = 65536 * (unat s div 65536) + unat s mod 65536" by simp
  ultimately show ?thesis unfolding unat_folded by linarith
qed

function fold_carry :: "u32 \<Rightarrow> u32" where
  "fold_carry acc = (if drop_bit 16 acc \<noteq> 0 then fold_carry ((acc AND 0xffff) + drop_bit 16 acc) else acc)"
  by auto
termination
  by (relation "measure unat") (simp_all add: fold_carry_decreases)

declare fold_carry.simps [simp del]

text \<open>\<open>CalculateIpChecksum (size, initialChecksum)\<close>, on the bytes from the iterator on.\<close>

definition CalculateIpChecksum :: "u16 \<Rightarrow> u32 \<Rightarrow> bytes \<Rightarrow> u16 res" where
  "CalculateIpChecksum n initialChecksum bs =
     bind_res (sum_words (unat n div 2) bs initialChecksum) (\<lambda>(acc, rest).
     bind_res (if odd (unat n) then bind_res (ReadU8 rest) (\<lambda>(b, r). Inr (acc + ucast b)) else Inr acc) (\<lambda>acc1.
       Inr (ucast (NOT (fold_carry acc1)))))"

section \<open>The header\<close>

text \<open>Fields narrower than a byte or packed into one (\<open>uint32_t m_flags : 3\<close>) keep their widths.\<close>

record ipv4_header =
  h_calcChecksum :: bool
  h_payloadSize :: u16
  h_identification :: u16
  h_tos :: u8
  h_ttl :: u8
  h_protocol :: u8
  h_flags :: "3 word"
  h_fragmentOffset :: u16
  h_source :: ipv4
  h_destination :: ipv4
  h_checksum :: u16
  h_goodChecksum :: bool
  h_headerSize :: u16

definition DONT_FRAGMENT :: "3 word" where "DONT_FRAGMENT = 1"
definition MORE_FRAGMENTS :: "3 word" where "MORE_FRAGMENTS = 2"

text \<open>A default \<open>Ipv4Address\<close> is \<open>0x66666666\<close>, the mark of an address never set.\<close>

definition Ipv4Header_new :: ipv4_header where
  "Ipv4Header_new =
     \<lparr>h_calcChecksum = False, h_payloadSize = 0, h_identification = 0, h_tos = 0, h_ttl = 0, h_protocol = 0,
      h_flags = 0, h_fragmentOffset = 0, h_source = 0x66666666, h_destination = 0x66666666, h_checksum = 0,
      h_goodChecksum = True, h_headerSize = 5 * 4\<rparr>"

definition Ipv4Header_EnableChecksum :: "ipv4_header \<Rightarrow> ipv4_header" where
  "Ipv4Header_EnableChecksum h = h\<lparr>h_calcChecksum := True\<rparr>"

definition Ipv4Header_SetPayloadSize :: "u16 \<Rightarrow> ipv4_header \<Rightarrow> ipv4_header" where
  "Ipv4Header_SetPayloadSize n h = h\<lparr>h_payloadSize := n\<rparr>"

definition Ipv4Header_SetIdentification :: "u16 \<Rightarrow> ipv4_header \<Rightarrow> ipv4_header" where
  "Ipv4Header_SetIdentification n h = h\<lparr>h_identification := n\<rparr>"

definition Ipv4Header_SetTos :: "u8 \<Rightarrow> ipv4_header \<Rightarrow> ipv4_header" where
  "Ipv4Header_SetTos n h = h\<lparr>h_tos := n\<rparr>"

definition Ipv4Header_SetDscp :: "u8 \<Rightarrow> ipv4_header \<Rightarrow> ipv4_header" where
  "Ipv4Header_SetDscp dscp h = h\<lparr>h_tos := (h_tos h AND 0x3) OR push_bit 2 dscp\<rparr>"

definition Ipv4Header_SetEcn :: "u8 \<Rightarrow> ipv4_header \<Rightarrow> ipv4_header" where
  "Ipv4Header_SetEcn ecn h = h\<lparr>h_tos := (h_tos h AND 0xFC) OR ecn\<rparr>"

definition Ipv4Header_GetDscp :: "ipv4_header \<Rightarrow> u8" where
  "Ipv4Header_GetDscp h = drop_bit 2 (h_tos h AND 0xFC)"

definition Ipv4Header_GetEcn :: "ipv4_header \<Rightarrow> u8" where
  "Ipv4Header_GetEcn h = h_tos h AND 0x3"

definition Ipv4Header_SetMoreFragments :: "ipv4_header \<Rightarrow> ipv4_header" where
  "Ipv4Header_SetMoreFragments h = h\<lparr>h_flags := h_flags h OR MORE_FRAGMENTS\<rparr>"

definition Ipv4Header_SetLastFragment :: "ipv4_header \<Rightarrow> ipv4_header" where
  "Ipv4Header_SetLastFragment h = h\<lparr>h_flags := h_flags h AND NOT MORE_FRAGMENTS\<rparr>"

definition Ipv4Header_IsLastFragment :: "ipv4_header \<Rightarrow> bool" where
  "Ipv4Header_IsLastFragment h \<longleftrightarrow> h_flags h AND MORE_FRAGMENTS = 0"

definition Ipv4Header_SetDontFragment :: "ipv4_header \<Rightarrow> ipv4_header" where
  "Ipv4Header_SetDontFragment h = h\<lparr>h_flags := h_flags h OR DONT_FRAGMENT\<rparr>"

definition Ipv4Header_SetMayFragment :: "ipv4_header \<Rightarrow> ipv4_header" where
  "Ipv4Header_SetMayFragment h = h\<lparr>h_flags := h_flags h AND NOT DONT_FRAGMENT\<rparr>"

definition Ipv4Header_IsDontFragment :: "ipv4_header \<Rightarrow> bool" where
  "Ipv4Header_IsDontFragment h \<longleftrightarrow> h_flags h AND DONT_FRAGMENT \<noteq> 0"

definition Ipv4Header_SetFragmentOffset :: "u16 \<Rightarrow> ipv4_header \<Rightarrow> ipv4_header res" where
  "Ipv4Header_SetFragmentOffset offsetBytes h =
     (if offsetBytes AND 0x7 \<noteq> 0 then Inl Fatal else Inr (h\<lparr>h_fragmentOffset := offsetBytes\<rparr>))"

definition Ipv4Header_SetTtl :: "u8 \<Rightarrow> ipv4_header \<Rightarrow> ipv4_header" where
  "Ipv4Header_SetTtl n h = h\<lparr>h_ttl := n\<rparr>"

definition Ipv4Header_SetProtocol :: "u8 \<Rightarrow> ipv4_header \<Rightarrow> ipv4_header" where
  "Ipv4Header_SetProtocol n h = h\<lparr>h_protocol := n\<rparr>"

definition Ipv4Header_SetSource :: "ipv4 \<Rightarrow> ipv4_header \<Rightarrow> ipv4_header" where
  "Ipv4Header_SetSource a h = h\<lparr>h_source := a\<rparr>"

definition Ipv4Header_SetDestination :: "ipv4 \<Rightarrow> ipv4_header \<Rightarrow> ipv4_header" where
  "Ipv4Header_SetDestination a h = h\<lparr>h_destination := a\<rparr>"

definition Ipv4Header_IsChecksumOk :: "ipv4_header \<Rightarrow> bool" where
  "Ipv4Header_IsChecksumOk h \<longleftrightarrow> h_goodChecksum h"

definition Ipv4Header_GetSerializedSize :: "ipv4_header \<Rightarrow> nat" where
  "Ipv4Header_GetSerializedSize h = unat (h_headerSize h)"

text \<open>
  \<open>Serialize\<close>: the twenty bytes it writes from its iterator on. The checksum is computed over them
  with a zero in its place and then written over that zero.
\<close>

definition flags_frag :: "ipv4_header \<Rightarrow> u8" where
  "flags_frag h =
     (let fragmentOffset = ucast (h_fragmentOffset h div 8) :: u32;
          f0 = ucast (drop_bit 8 fragmentOffset AND 0x1f) :: u8;
          f1 = (if h_flags h AND DONT_FRAGMENT \<noteq> 0 then f0 OR push_bit 6 1 else f0)
      in if h_flags h AND MORE_FRAGMENTS \<noteq> 0 then f1 OR push_bit 5 1 else f1)"

definition header_bytes :: "ipv4_header \<Rightarrow> bytes" where
  "header_bytes h =
     [push_bit 4 4 OR 5, h_tos h] @ WriteHtonU16 (h_payloadSize h + 5 * 4) @ WriteHtonU16 (h_identification h) @
     [flags_frag h, ucast ((ucast (h_fragmentOffset h div 8) :: u32) AND 0xff), h_ttl h, h_protocol h] @
     WriteHtonU16 0 @ WriteHtonU32 (h_source h) @ WriteHtonU32 (h_destination h)"

definition Ipv4Header_Serialize :: "ipv4_header \<Rightarrow> bytes res" where
  "Ipv4Header_Serialize h =
     (let bs = header_bytes h in
      if h_calcChecksum h then
        bind_res (CalculateIpChecksum 20 0 bs) (\<lambda>c. Inr (take 10 bs @ WriteU16 c @ drop 12 bs))
      else Inr bs)"

text \<open>
  \<open>Deserialize\<close>: the header read and the number of bytes reported; a first byte of another
  version leaves the header as it was and reports 0.
\<close>

definition Ipv4Header_Deserialize :: "ipv4_header \<Rightarrow> bytes \<Rightarrow> (ipv4_header \<times> nat) res" where
  "Ipv4Header_Deserialize h start =
     bind_res (ReadU8 start) (\<lambda>(verIhl, i1).
       let ihl = verIhl AND 0x0f; headerSize = ucast ihl * 4 :: u16 in
       if drop_bit 4 verIhl \<noteq> 4 then Inr (h, 0)
       else
         bind_res (ReadU8 i1) (\<lambda>(tos, i2).
         bind_res (ReadNtohU16 i2) (\<lambda>(sz, i3).
         bind_res (ReadNtohU16 i3) (\<lambda>(ident, i4).
         bind_res (ReadU8 i4) (\<lambda>(flags, i5).
         bind_res (ReadU8 i5) (\<lambda>(frag, i6).
         bind_res (ReadU8 i6) (\<lambda>(ttl, i7).
         bind_res (ReadU8 i7) (\<lambda>(protocol, i8).
         bind_res (ReadU16 i8) (\<lambda>(checksum, i9).
         bind_res (ReadNtohU32 i9) (\<lambda>(source, i10).
         bind_res (ReadNtohU32 i10) (\<lambda>(destination, i11).
           let fl0 = (if flags AND push_bit 6 1 \<noteq> 0 then DONT_FRAGMENT else 0);
               fl1 = (if flags AND push_bit 5 1 \<noteq> 0 then fl0 OR MORE_FRAGMENTS else fl0);
               h1 = h\<lparr>h_tos := tos, h_payloadSize := sz - headerSize, h_identification := ident, h_flags := fl1,
                      h_fragmentOffset := push_bit 3 (push_bit 8 (ucast (flags AND 0x1f)) OR ucast frag),
                      h_ttl := ttl, h_protocol := protocol, h_checksum := checksum, h_source := source,
                      h_destination := destination, h_headerSize := headerSize\<rparr>
           in if h_calcChecksum h1 then
                bind_res (CalculateIpChecksum headerSize 0 start) (\<lambda>c.
                  let h2 = h1\<lparr>h_goodChecksum := (c = 0)\<rparr> in Inr (h2, Ipv4Header_GetSerializedSize h2))
              else Inr (h1, Ipv4Header_GetSerializedSize h1))))))))))))"

section \<open>What the checksum computes\<close>

text \<open>The sum of the 16-bit words, as a natural number.\<close>

fun words_sum :: "bytes \<Rightarrow> nat" where
  "words_sum [] = 0"
| "words_sum [b] = unat b"
| "words_sum (b0 # b1 # bs) = unat b0 + 256 * unat b1 + words_sum bs"

lemma words_sum_append:
  "even (length xs) \<Longrightarrow> words_sum (xs @ ys) = words_sum xs + words_sum ys"
  by (induction xs rule: words_sum.induct) auto

lemma unat_u8_lt: "unat (b :: u8) < 256"
  using unsigned_less [of b] by simp

lemma words_sum_bound: "words_sum bs \<le> 65535 * ((length bs + 1) div 2)"
proof (induction bs rule: words_sum.induct)
  case (2 b) show ?case using unat_u8_lt [of b] by simp
next
  case (3 b0 b1 bs)
  have "unat b0 + 256 * unat b1 \<le> 65535" using unat_u8_lt [of b0] unat_u8_lt [of b1] by simp
  with "3.IH" show ?case by simp
qed simp

lemma unat_le_word: "unat (ucast (push_bit 8 (ucast b1) OR ucast b0 :: u16) :: u32) = unat b0 + 256 * unat b1"
  for b0 b1 :: u8
proof -
  have lt: "unat b0 + 256 * unat b1 < 65536" using unat_u8_lt [of b0] unat_u8_lt [of b1] by simp
  have "push_bit 8 (ucast b1) OR ucast b0 = (push_bit 8 (ucast b1) + ucast b0 :: u16)"
    by (subst disjunctive_add) (auto simp: bit_simps dest: bit_imp_le_length)
  also have "unat \<dots> = unat b0 + 256 * unat b1"
    using lt by (simp add: push_bit_eq_mult unat_word_ariths unsigned_ucast_eq take_bit_nat_eq_self)
  finally show ?thesis using lt by (simp add: unsigned_ucast_eq take_bit_nat_eq_self)
qed

lemma sum_words_ok:
  assumes "2 * n \<le> length bs" and "unat acc + words_sum (take (2 * n) bs) < 2 ^ 32"
  shows "\<exists>acc'. sum_words n bs acc = Inr (acc', drop (2 * n) bs) \<and>
    unat acc' = unat acc + words_sum (take (2 * n) bs)"
  using assms
proof (induction n arbitrary: bs acc)
  case (Suc n)
  then obtain b0 b1 rest where bs: "bs = b0 # b1 # rest"
    by (cases bs; cases "tl bs") auto
  let ?w = "push_bit 8 (ucast b1) OR ucast b0 :: u16"
  have a: "unat (acc + ucast ?w) = unat acc + (unat b0 + 256 * unat b1)"
    using Suc.prems(2) by (subst unat_add_nowrap) (simp_all only: unat_le_word bs, simp_all)
  have "2 * n \<le> length rest" "unat (acc + ucast ?w) + words_sum (take (2 * n) rest) < 2 ^ 32"
    using Suc.prems unfolding a by (simp_all add: bs)
  from Suc.IH [OF this] show ?case unfolding a by (simp add: bs ReadU16_def add.assoc)
qed simp

lemma fold_carry_props:
  "unat (fold_carry s) < 65536 \<and> unat (fold_carry s) mod 65535 = unat s mod 65535 \<and>
   (unat (fold_carry s) = 0 \<longleftrightarrow> unat s = 0)"
proof (induction s rule: fold_carry.induct)
  case (1 s)
  show ?case
  proof (cases "drop_bit 16 s = 0")
    case True
    then have "unat s div 65536 = 0" using unat_high_half [of s] by simp
    then have "unat s < 65536" by (simp add: div_eq_0_iff)
    with True show ?thesis by (subst (1 2 3) fold_carry.simps) simp
  next
    case False
    let ?t = "(s AND 0xffff) + drop_bit 16 s"
    have split: "unat s = 65536 * (unat s div 65536) + unat s mod 65536" by simp
    have "(65535 * (unat s div 65536) + (unat s mod 65536 + unat s div 65536)) mod 65535 = unat ?t mod 65535"
      unfolding unat_folded by (rule mod_mult_self4)
    moreover have "65535 * (unat s div 65536) + (unat s mod 65536 + unat s div 65536) = unat s"
      using split by linarith
    ultimately have m: "unat s mod 65535 = unat ?t mod 65535" by simp
    have "m + d = 0 \<longleftrightarrow> 65536 * d + m = 0" for m d :: nat by auto
    from this [of "unat s mod 65536" "unat s div 65536"] have "unat ?t = 0 \<longleftrightarrow> unat s = 0"
      unfolding unat_folded by simp
    with "1.IH" [OF False] m show ?thesis by (subst (1 2 3) fold_carry.simps) (simp add: False)
  qed
qed

lemma unat_not_low:
  assumes "unat (s :: u32) < 65536"
  shows "unat (ucast (NOT s) :: u16) = 65535 - unat s"
proof -
  have "ucast (NOT s) = NOT (ucast s :: u16)"
    by (rule bit_word_eqI) (simp add: bit_simps)
  also have "\<dots> = - 1 - ucast s" by (simp add: not_eq_complement)
  also have "unat \<dots> = unat (- 1 :: u16) - unat (ucast s :: u16)" by (rule unat_sub) simp
  also have "unat (ucast s :: u16) = unat s"
    using assms by (simp add: unsigned_ucast_eq take_bit_nat_eq_self)
  finally show ?thesis by (simp add: unsigned_minus_1_eq_mask mask_eq_exp_minus_1)
qed

text \<open>The checksum is the ones' complement of a representative of the sum modulo 65535, with the initial
  value counted in.\<close>

lemma checksum_from:
  assumes "unat n \<le> length bs" and "unat init \<le> 65535"
  shows "\<exists>c r. CalculateIpChecksum n init bs = Inr c \<and> unat c = 65535 - r \<and> r < 65536 \<and>
    r mod 65535 = (unat init + words_sum (take (unat n) bs)) mod 65535 \<and>
    (r = 0 \<longleftrightarrow> unat init + words_sum (take (unat n) bs) = 0)"
proof -
  let ?m = "unat n div 2"
  have nlt: "unat n < 65536" using unsigned_less [of n] by simp
  have bound: "unat init + words_sum (take k bs) < 2 ^ 32" if "k \<le> unat n" for k
  proof -
    have "words_sum (take k bs) \<le> 65535 * ((length (take k bs) + 1) div 2)" by (rule words_sum_bound)
    also have "\<dots> \<le> 65535 * 32768" using that nlt by simp
    finally show ?thesis using assms(2) by simp
  qed
  have "2 * ?m \<le> unat n" by simp
  with sum_words_ok [of ?m bs init] bound [of "2 * ?m"] assms obtain acc where
    a: "sum_words ?m bs init = Inr (acc, drop (2 * ?m) bs)" "unat acc = unat init + words_sum (take (2 * ?m) bs)" by auto
  have "\<exists>acc1. (if odd (unat n) then bind_res (ReadU8 (drop (2 * ?m) bs)) (\<lambda>(b, r). Inr (acc + ucast b)) else Inr acc) =
      Inr acc1 \<and> unat acc1 = unat init + words_sum (take (unat n) bs)"
  proof (cases "odd (unat n)")
    case True
    then have n: "unat n = Suc (2 * ?m)" by (simp add: odd_two_times_div_two_succ)
    with assms have l: "2 * ?m < length bs" by simp
    then have d: "drop (2 * ?m) bs = bs ! (2 * ?m) # drop (Suc (2 * ?m)) bs" by (simp add: Cons_nth_drop_Suc)
    have t: "take (unat n) bs = take (2 * ?m) bs @ [bs ! (2 * ?m)]"
      by (subst n) (rule take_Suc_conv_app_nth [OF l])
    have w: "unat init + words_sum (take (unat n) bs) = unat acc + unat (bs ! (2 * ?m))"
      unfolding t by (subst words_sum_append) (simp_all add: a min_absorb2 less_imp_le l)
    have u: "unat (ucast (bs ! (2 * ?m)) :: u32) = unat (bs ! (2 * ?m))"
      using unat_u8_lt [of "bs ! (2 * ?m)"] by (simp add: unsigned_ucast_eq take_bit_nat_eq_self)
    have "unat (acc + ucast (bs ! (2 * ?m))) = unat acc + unat (bs ! (2 * ?m))"
      using bound [of "unat n"] w u by (subst unat_add_nowrap) simp_all
    with True d w show ?thesis by simp
  next
    case False
    then have "2 * ?m = unat n" by simp
    with False a(2) show ?thesis by simp
  qed
  then obtain acc1 where
    a1: "(if odd (unat n) then bind_res (ReadU8 (drop (2 * ?m) bs)) (\<lambda>(b, r). Inr (acc + ucast b)) else Inr acc) = Inr acc1"
      "unat acc1 = unat init + words_sum (take (unat n) bs)" by blast
  have "CalculateIpChecksum n init bs = Inr (ucast (NOT (fold_carry acc1)))"
    using a(1) a1(1) by (simp add: CalculateIpChecksum_def)
  with fold_carry_props [of acc1] unat_not_low [of "fold_carry acc1"] a1(2) show ?thesis by metis
qed

lemma complement_sum:
  assumes "r mod 65535 = W mod 65535" and "r \<le> 65535"
  shows "(W + (65535 - r)) mod 65535 = (0 :: nat)"
proof -
  have "(W + (65535 - r)) mod 65535 = (W mod 65535 + (65535 - r) mod 65535) mod 65535" by (simp only: mod_add_eq)
  also have "\<dots> = (r + (65535 - r)) mod 65535" by (simp only: assms(1) [symmetric] mod_add_eq)
  finally show ?thesis using assms(2) by simp
qed

lemma checksum_of_bytes:
  assumes "unat n \<le> length bs"
  shows "\<exists>c r. CalculateIpChecksum n 0 bs = Inr c \<and> unat c = 65535 - r \<and> r < 65536 \<and>
    r mod 65535 = words_sum (take (unat n) bs) mod 65535 \<and> (r = 0 \<longleftrightarrow> words_sum (take (unat n) bs) = 0)"
  using checksum_from [OF assms, of 0] by simp

text \<open>The check of a receiver: the words sum to a positive multiple of 65535.\<close>

lemma checksum_from_zero_iff:
  assumes "unat n \<le> length bs" and "unat init \<le> 65535"
  shows "\<exists>c. CalculateIpChecksum n init bs = Inr c \<and>
    (c = 0 \<longleftrightarrow> 0 < unat init + words_sum (take (unat n) bs) \<and> (unat init + words_sum (take (unat n) bs)) mod 65535 = 0)"
proof -
  define W where "W = unat init + words_sum (take (unat n) bs)"
  from checksum_from [OF assms] obtain c r where
    c: "CalculateIpChecksum n init bs = Inr c" "unat c = 65535 - r" "r < 65536" "r mod 65535 = W mod 65535" "r = 0 \<longleftrightarrow> W = 0"
    unfolding W_def by (elim exE conjE)
  have "c = 0 \<longleftrightarrow> unat c = 0" by (simp add: unsigned_eq_0_iff)
  also have "\<dots> \<longleftrightarrow> r = 65535" using c(2,3) by linarith
  also have "\<dots> \<longleftrightarrow> 0 < r \<and> r mod 65535 = 0"
  proof
    assume "0 < r \<and> r mod 65535 = 0"
    then obtain k where "r = 65535 * k" "0 < r" by (auto simp: mod_eq_0_iff_dvd)
    with c(3) show "r = 65535" by (cases "k \<le> 1") auto
  qed simp
  also have "\<dots> \<longleftrightarrow> 0 < W \<and> W mod 65535 = 0"
    unfolding c(4) neq0_conv [symmetric] c(5) by (rule refl)
  finally have z: "c = 0 \<longleftrightarrow> 0 < W \<and> W mod 65535 = 0" .
  show ?thesis unfolding W_def [symmetric] by (intro exI [of _ c] conjI c(1) z)
qed

lemma checksum_zero_iff:
  assumes "unat n \<le> length bs"
  shows "\<exists>c. CalculateIpChecksum n 0 bs = Inr c \<and>
    (c = 0 \<longleftrightarrow> 0 < words_sum (take (unat n) bs) \<and> words_sum (take (unat n) bs) mod 65535 = 0)"
  using checksum_from_zero_iff [OF assms, of 0] by simp

section \<open>Serialization and its inverse\<close>

lemma and_low_bits:
  "x AND 0x1f = take_bit 5 x" "x AND 0xff = take_bit 8 x" for x :: "'a::len word"
  by (simp_all add: take_bit_eq_mask mask_eq_exp_minus_1)

lemma flag_set_iff:
  "x AND 1 \<noteq> 0 \<longleftrightarrow> bit x 0" "x AND 2 \<noteq> 0 \<longleftrightarrow> bit x 1"
  "y AND 32 \<noteq> 0 \<longleftrightarrow> bit y 5" "y AND 64 \<noteq> 0 \<longleftrightarrow> bit y 6" for x :: "3 word" and y :: u8
  using and_exp_eq_0_iff_not_bit [of x 0] and_exp_eq_0_iff_not_bit [of x 1]
    and_exp_eq_0_iff_not_bit [of y 5] and_exp_eq_0_iff_not_bit [of y 6] by simp_all

lemma bit_flags_frag:
  "bit (flags_frag h) n \<longleftrightarrow>
     n < 5 \<and> bit (h_fragmentOffset h) (n + 11) \<or> n = 6 \<and> bit (h_flags h) 0 \<or> n = 5 \<and> bit (h_flags h) 1"
proof -
  define c6 c5 :: u8 where "c6 = push_bit 6 1" and "c5 = push_bit 5 1"
  have b: "bit c6 m \<longleftrightarrow> m = 6" "bit c5 m \<longleftrightarrow> m = 5" for m
    unfolding c6_def c5_def by (auto simp only: push_bit_eq_mult mult_1 bit_exp_iff) simp_all
  have d: "h_fragmentOffset h div 8 = drop_bit 3 (h_fragmentOffset h)" by (simp add: drop_bit_eq_div)
  show ?thesis
    unfolding flags_frag_def Let_def DONT_FRAGMENT_def MORE_FRAGMENTS_def flag_set_iff d and_low_bits
      c6_def [symmetric] c5_def [symmetric]
    by (auto simp: bit_simps b algebra_simps dest: bit_imp_le_length)
qed

lemma fragment_offset_round_trip:
  assumes "h_fragmentOffset h AND 7 = 0"
  shows "push_bit 3 (push_bit 8 (ucast (flags_frag h AND 0x1f)) OR
    ucast (ucast ((ucast (h_fragmentOffset h div 8) :: u32) AND 0xff) :: u8)) = h_fragmentOffset h"
proof (rule bit_word_eqI)
  fix n assume n: "n < LENGTH(16)"
  have d: "h_fragmentOffset h div 8 = drop_bit 3 (h_fragmentOffset h)" by (simp add: drop_bit_eq_div)
  have "take_bit 3 (h_fragmentOffset h) = 0" using assms by (simp add: take_bit_eq_mask mask_eq_exp_minus_1)
  then have low: "\<not> bit (h_fragmentOffset h) m" if "m < 3" for m
    using that by (metis bit_0_eq bit_take_bit_iff bot_apply bot_bool_def)
  consider "n < 3" | "3 \<le> n" "n < 11" | "11 \<le> n" by linarith
  then show "bit (push_bit 3 (push_bit 8 (ucast (flags_frag h AND 0x1f)) OR
      ucast (ucast ((ucast (h_fragmentOffset h div 8) :: u32) AND 0xff) :: u8)) :: u16) n = bit (h_fragmentOffset h) n"
    unfolding d and_low_bits using n
    by cases (auto simp: bit_simps bit_flags_frag low dest: bit_imp_le_length)
qed

lemma flags_round_trip:
  assumes "\<not> bit (h_flags h) 2"
  shows "(if bit (h_flags h) 1 then (if bit (h_flags h) 0 then DONT_FRAGMENT else 0) OR MORE_FRAGMENTS
          else (if bit (h_flags h) 0 then DONT_FRAGMENT else 0)) = h_flags h"
proof (rule bit_word_eqI)
  fix n assume "n < LENGTH(3)"
  then consider "n = 0" | "n = 1" | "n = 2" by fastforce
  then show "bit (if bit (h_flags h) 1 then (if bit (h_flags h) 0 then DONT_FRAGMENT else 0) OR MORE_FRAGMENTS
      else (if bit (h_flags h) 0 then DONT_FRAGMENT else 0)) n = bit (h_flags h) n"
    using assms by cases (simp_all add: DONT_FRAGMENT_def MORE_FRAGMENTS_def bit_simps)
qed

text \<open>What \<open>Serialize\<close> leaves in the buffer, with \<open>c\<close> in the checksum field.\<close>

definition wire_bytes :: "ipv4_header \<Rightarrow> u16 \<Rightarrow> bytes" where
  "wire_bytes h c =
     [0x45, h_tos h] @ WriteHtonU16 (h_payloadSize h + 20) @ WriteHtonU16 (h_identification h) @
     [flags_frag h, ucast ((ucast (h_fragmentOffset h div 8) :: u32) AND 0xff), h_ttl h, h_protocol h] @
     WriteU16 c @ WriteHtonU32 (h_source h) @ WriteHtonU32 (h_destination h)"

lemma length_wire_bytes [simp]: "length (wire_bytes h c) = 20"
  by (simp add: wire_bytes_def)

lemma header_bytes_wire: "header_bytes h = wire_bytes h 0"
  by (simp add: header_bytes_def wire_bytes_def WriteHtonU16_def WriteU16_def)

lemma wire_bytes_checksum: "take 10 (wire_bytes h 0) @ WriteU16 c @ drop 12 (wire_bytes h 0) = wire_bytes h c"
  by (simp add: wire_bytes_def WriteHtonU16_def WriteU16_def)

lemma words_sum_wire: "words_sum (wire_bytes h c) = words_sum (wire_bytes h 0) + unat c"
proof -
  have "unat c < 65536" using unsigned_less [of c] by simp
  then have "unat (ucast c :: u32) = unat c" by (simp add: unsigned_ucast_eq take_bit_nat_eq_self)
  then have "unat (ucast c :: u8) + 256 * unat (ucast (drop_bit 8 c) :: u8) = unat c"
    using unat_le_word [where ?b0.0 = "ucast c" and ?b1.0 = "ucast (drop_bit 8 c)", unfolded join_u16]
    by (simp only:)
  then show ?thesis by (simp add: wire_bytes_def WriteHtonU16_def WriteHtonU32_def WriteU16_def)
qed

lemma Serialize_wire:
  "\<exists>c. Ipv4Header_Serialize h = Inr (wire_bytes h c) \<and>
    (h_calcChecksum h \<longrightarrow> 0 < words_sum (wire_bytes h c) \<and> words_sum (wire_bytes h c) mod 65535 = 0)"
proof (cases "h_calcChecksum h")
  case True
  from checksum_of_bytes [of 20 "wire_bytes h 0"] obtain c r where
    c: "CalculateIpChecksum 20 0 (wire_bytes h 0) = Inr c" "unat c = 65535 - r" "r < 65536"
      "r mod 65535 = words_sum (wire_bytes h 0) mod 65535"
    by auto
  define W where "W = words_sum (wire_bytes h 0)"
  have W: "0 < W" by (simp add: W_def wire_bytes_def WriteHtonU16_def)
  have m: "(W + (65535 - r)) mod 65535 = 0"
    by (rule complement_sum) (use c(3,4) in \<open>simp_all add: W_def\<close>)
  have "Ipv4Header_Serialize h = Inr (wire_bytes h c)"
    using True c(1) by (simp add: Ipv4Header_Serialize_def header_bytes_wire wire_bytes_checksum)
  moreover have w: "words_sum (wire_bytes h c) = W + (65535 - r)"
    using words_sum_wire [of h c] by (simp only: W_def c(2))
  moreover have "0 < W + (65535 - r)" using W by linarith
  ultimately show ?thesis using m by (intro exI [of _ c]) (simp only: simp_thms)
qed (simp add: Ipv4Header_Serialize_def header_bytes_wire exI [of _ 0])

lemma Serialize_wireE:
  obtains c where "Ipv4Header_Serialize h = Inr (wire_bytes h c)"
    and "h_calcChecksum h \<longrightarrow> 0 < words_sum (wire_bytes h c) \<and> words_sum (wire_bytes h c) mod 65535 = 0"
  using Serialize_wire [of h] by (elim exE conjE)

text \<open>Reading the wire form back, field by field, before the checksum is looked at.\<close>

definition read_fields :: "ipv4_header \<Rightarrow> ipv4_header \<Rightarrow> u16 \<Rightarrow> ipv4_header" where
  "read_fields h0 h c =
     h0\<lparr>h_tos := h_tos h, h_payloadSize := h_payloadSize h, h_identification := h_identification h,
        h_flags := h_flags h, h_fragmentOffset := h_fragmentOffset h, h_ttl := h_ttl h, h_protocol := h_protocol h,
        h_checksum := c, h_source := h_source h, h_destination := h_destination h, h_headerSize := 20\<rparr>"

lemma Deserialize_wire:
  assumes "h_fragmentOffset h AND 7 = 0" and "\<not> bit (h_flags h) 2"
    and "bs = wire_bytes h c @ rest"
  shows "Ipv4Header_Deserialize h0 bs =
    (if h_calcChecksum h0 then
       bind_res (CalculateIpChecksum 20 0 bs) (\<lambda>k. Inr ((read_fields h0 h c)\<lparr>h_goodChecksum := (k = 0)\<rparr>, 20))
     else Inr (read_fields h0 h c, 20))"
proof -
  have f: "flags_frag h AND push_bit 6 1 \<noteq> 0 \<longleftrightarrow> bit (h_flags h) 0" "flags_frag h AND push_bit 5 1 \<noteq> 0 \<longleftrightarrow> bit (h_flags h) 1"
    using flag_set_iff(3,4) [of "flags_frag h"] bit_flags_frag [of h 5] bit_flags_frag [of h 6]
    by (simp_all add: push_bit_eq_mult)
  have v: "(0x45 :: u8) AND 0x0f = 5" "drop_bit 4 (0x45 :: u8) = 4" "ucast (5 :: u8) * 4 = (20 :: u16)"
    by (simp_all add: drop_bit_eq_div)
  define i11 where "i11 = rest"
  define i10 where "i10 = WriteHtonU32 (h_destination h) @ i11"
  define i9 where "i9 = WriteHtonU32 (h_source h) @ i10"
  define i8 where "i8 = WriteU16 c @ i9"
  define i7 where "i7 = h_protocol h # i8"
  define i6 where "i6 = h_ttl h # i7"
  define i5 where "i5 = ucast ((ucast (h_fragmentOffset h div 8) :: u32) AND 0xff) # i6"
  define i4 where "i4 = flags_frag h # i5"
  define i3 where "i3 = WriteHtonU16 (h_identification h) @ i4"
  define i2 where "i2 = WriteHtonU16 (h_payloadSize h + 20) @ i3"
  define i1 where "i1 = h_tos h # i2"
  have bs: "bs = 0x45 # i1"
    unfolding i1_def i2_def i3_def i4_def i5_def i6_def i7_def i8_def i9_def i10_def i11_def
    by (simp add: assms(3) wire_bytes_def)
  have reads: "ReadU8 bs = Inr (0x45, i1)" "ReadU8 i1 = Inr (h_tos h, i2)"
    "ReadNtohU16 i2 = Inr (h_payloadSize h + 20, i3)" "ReadNtohU16 i3 = Inr (h_identification h, i4)"
    "ReadU8 i4 = Inr (flags_frag h, i5)"
    "ReadU8 i5 = Inr (ucast ((ucast (h_fragmentOffset h div 8) :: u32) AND 0xff), i6)"
    "ReadU8 i6 = Inr (h_ttl h, i7)" "ReadU8 i7 = Inr (h_protocol h, i8)" "ReadU16 i8 = Inr (c, i9)"
    "ReadNtohU32 i9 = Inr (h_source h, i10)" "ReadNtohU32 i10 = Inr (h_destination h, i11)"
    by (simp_all only: bs i1_def i2_def i3_def i4_def i5_def i6_def i7_def i8_def i9_def i10_def
        ReadU8_Cons Read_Write_U16 Read_Write_U32 Read_Write_U16_le)
  show ?thesis
    unfolding Ipv4Header_Deserialize_def reads bind_res.simps prod.case Let_def v f
      flags_round_trip [OF assms(2)] fragment_offset_round_trip [OF assms(1)]
    by (simp add: read_fields_def Ipv4Header_GetSerializedSize_def)
qed

section \<open>Corruption\<close>

lemma words_sum_update:
  "i < length bs \<Longrightarrow>
   words_sum (bs[i := b]) + (if even i then 1 else 256) * unat (bs ! i) =
   words_sum bs + (if even i then 1 else 256) * unat b"
proof (induction bs arbitrary: i rule: words_sum.induct)
  case (3 b0 b1 bs)
  consider "i = 0" | "i = 1" | j where "i = Suc (Suc j)"
    by (metis One_nat_def not0_implies_Suc)
  then show ?case
  proof cases
    case 3
    with "3.prems" "3.IH" [of j] show ?thesis by simp
  qed simp_all
qed auto

lemma residue_unique:
  fixes m :: nat
  assumes "a + x = b + y" and "a mod m = 0" and "b mod m = 0" and "x < m" and "y < m"
  shows "x = y"
proof -
  have "x mod m = (a mod m + x mod m) mod m" using assms(2) by simp
  also have "\<dots> = (b mod m + y mod m) mod m" by (metis assms(1) mod_add_eq)
  also have "\<dots> = y mod m" using assms(3) by simp
  finally show ?thesis using assms(4,5) by simp
qed

lemma corrupted_sum:
  assumes "words_sum bs mod 65535 = 0" and "i < length bs" and "b \<noteq> bs ! i"
  shows "words_sum (bs[i := b]) mod 65535 \<noteq> 0"
proof
  assume z: "words_sum (bs[i := b]) mod 65535 = 0"
  define k :: nat where "k = (if even i then 1 else 256)"
  have k: "k \<in> {1, 256}" by (simp add: k_def)
  have lt: "k * unat x < 65535" for x :: u8 using k unat_u8_lt [of x] by auto
  have "words_sum (bs[i := b]) + k * unat (bs ! i) = words_sum bs + k * unat b"
    unfolding k_def by (rule words_sum_update [OF assms(2)])
  from residue_unique [OF this z assms(1) lt lt] have "unat (bs ! i) = unat b" using k by auto
  then show False using assms(3) by (metis word_unat_eq_iff)
qed

lemma checksum20_zero_iff:
  assumes "length xs = 20"
  obtains k where "CalculateIpChecksum 20 0 (xs @ rest) = Inr k"
    and "k = 0 \<longleftrightarrow> 0 < words_sum xs \<and> words_sum xs mod 65535 = 0"
proof -
  have u: "unat (20 :: u16) = 20" by simp
  have t: "take 20 (xs @ rest) = xs" "20 \<le> length (xs @ rest)" using assms by simp_all
  from checksum_zero_iff [of 20 "xs @ rest", unfolded u t(1), OF t(2)] show ?thesis
    by (elim exE conjE) (rule that)
qed

text \<open>Any twenty bytes that start with \<open>0x45\<close> are read as a header.\<close>

lemma Deserialize_45:
  assumes "length xs = 20" and "xs ! 0 = 0x45" and "h_calcChecksum h0"
  shows "\<exists>h'. Ipv4Header_Deserialize h0 (xs @ rest) = Inr (h', 20) \<and>
    (Ipv4Header_IsChecksumOk h' \<longleftrightarrow> 0 < words_sum xs \<and> words_sum xs mod 65535 = 0)"
proof -
  define bs where "bs = xs @ rest"
  have len: "20 \<le> length bs" and b0: "bs ! 0 = 0x45"
    using assms by (simp_all add: bs_def nth_append)
  have v: "(0x45 :: u8) AND 0x0f = 5" "drop_bit 4 (0x45 :: u8) = 4" "ucast (5 :: u8) * 4 = (20 :: u16)"
    by (simp_all add: drop_bit_eq_div)
  have d: "k \<le> length (drop n bs)" if "n + k \<le> 20" for n k using that len unfolding length_drop by linarith
  have r8: "ReadU8 (drop n bs) = Inr (bs ! n, drop (n + 1) bs)" if "n < 20" for n
    using that len by (simp add: Cons_nth_drop_Suc [symmetric])
  have r16: "\<exists>x. ReadNtohU16 (drop n bs) = Inr (x, drop (n + 2) bs)" if "n + 2 \<le> 20" for n
    unfolding ReadNtohU16_def eqTrueI [OF d [OF that]] defined_if_True drop_drop by (auto simp: add.commute)
  have r32: "\<exists>x. ReadNtohU32 (drop n bs) = Inr (x, drop (n + 4) bs)" if "n + 4 \<le> 20" for n
    unfolding ReadNtohU32_def eqTrueI [OF d [OF that]] defined_if_True drop_drop by (auto simp: add.commute)
  have le: "\<exists>x. ReadU16 (drop 10 bs) = Inr (x, drop 12 bs)"
    using r8 [of 10] r8 [of 11] by (simp add: ReadU16_def)
  have first: "ReadU8 bs = Inr (0x45, drop 1 bs)" using r8 [of 0] b0 by simp
  obtain sz ident ck src dst where more:
    "ReadNtohU16 (drop 2 bs) = Inr (sz, drop 4 bs)" "ReadNtohU16 (drop 4 bs) = Inr (ident, drop 6 bs)"
    "ReadU16 (drop 10 bs) = Inr (ck, drop 12 bs)" "ReadNtohU32 (drop 12 bs) = Inr (src, drop 16 bs)"
    "ReadNtohU32 (drop 16 bs) = Inr (dst, drop 20 bs)"
    using le r16 [of 2] r16 [of 4] r32 [of 12] r32 [of 16] by auto
  have bytes: "ReadU8 (drop 1 bs) = Inr (bs ! 1, drop 2 bs)"
    "ReadU8 (drop 6 bs) = Inr (bs ! 6, drop 7 bs)" "ReadU8 (drop 7 bs) = Inr (bs ! 7, drop 8 bs)"
    "ReadU8 (drop 8 bs) = Inr (bs ! 8, drop 9 bs)" "ReadU8 (drop 9 bs) = Inr (bs ! 9, drop 10 bs)"
    using r8 [of 1] r8 [of 6] r8 [of 7] r8 [of 8] r8 [of 9] by (simp_all add: numeral_2_eq_2)
  obtain k where k: "CalculateIpChecksum 20 0 bs = Inr k"
    "k = 0 \<longleftrightarrow> 0 < words_sum xs \<and> words_sum xs mod 65535 = 0"
    unfolding bs_def by (rule checksum20_zero_iff [OF assms(1), of rest])
  show ?thesis
    unfolding bs_def [symmetric] Ipv4Header_Deserialize_def first bytes more bind_res.simps prod.case Let_def v k(1)
    by (simp add: assms(3) Ipv4Header_IsChecksumOk_def Ipv4Header_GetSerializedSize_def k(2) del: One_nat_def)
qed

section \<open>Properties\<close>

text \<open>
  C19. A header survives the wire. For a fragment offset that is a multiple of 8 (what
  \<open>SetFragmentOffset\<close> accepts) and flags within the two that are defined, \<open>Serialize\<close> writes twenty
  bytes, and \<open>Deserialize\<close> of them, whatever follows, reads every field back and reports twenty
  bytes; with checksums enabled on both sides the checksum is found correct.
\<close>

theorem ipv4_header_round_trip:
  assumes "h_fragmentOffset h AND 7 = 0" and "\<not> bit (h_flags h) 2"
  shows "\<exists>bs h'. Ipv4Header_Serialize h = Inr bs \<and> length bs = 20 \<and>
    Ipv4Header_Deserialize h0 (bs @ rest) = Inr (h', 20) \<and>
    h_tos h' = h_tos h \<and> h_payloadSize h' = h_payloadSize h \<and> h_identification h' = h_identification h \<and>
    h_flags h' = h_flags h \<and> h_fragmentOffset h' = h_fragmentOffset h \<and> h_ttl h' = h_ttl h \<and>
    h_protocol h' = h_protocol h \<and> h_source h' = h_source h \<and> h_destination h' = h_destination h \<and>
    (h_calcChecksum h \<and> h_calcChecksum h0 \<longrightarrow> Ipv4Header_IsChecksumOk h')"
proof -
  obtain c where c: "Ipv4Header_Serialize h = Inr (wire_bytes h c)"
    "h_calcChecksum h \<longrightarrow> 0 < words_sum (wire_bytes h c) \<and> words_sum (wire_bytes h c) mod 65535 = 0"
    by (rule Serialize_wireE [of h])
  obtain k where k: "CalculateIpChecksum 20 0 (wire_bytes h c @ rest) = Inr k"
    "k = 0 \<longleftrightarrow> 0 < words_sum (wire_bytes h c) \<and> words_sum (wire_bytes h c) mod 65535 = 0"
    by (rule checksum20_zero_iff [OF length_wire_bytes, of h c rest])
  show ?thesis
  proof (intro exI conjI)
    show "Ipv4Header_Deserialize h0 (wire_bytes h c @ rest) =
        Inr (if h_calcChecksum h0 then (read_fields h0 h c)\<lparr>h_goodChecksum := (k = 0)\<rparr> else read_fields h0 h c, 20)"
      using Deserialize_wire [OF assms refl, of h0 c rest] k(1) by simp
    show "h_calcChecksum h \<and> h_calcChecksum h0 \<longrightarrow> Ipv4Header_IsChecksumOk
        (if h_calcChecksum h0 then (read_fields h0 h c)\<lparr>h_goodChecksum := (k = 0)\<rparr> else read_fields h0 h c)"
    proof
      assume a: "h_calcChecksum h \<and> h_calcChecksum h0"
      from mp [OF c(2) conjunct1 [OF a]] have "k = 0" by (simp only: k(2))
      with a show "Ipv4Header_IsChecksumOk
          (if h_calcChecksum h0 then (read_fields h0 h c)\<lparr>h_goodChecksum := (k = 0)\<rparr> else read_fields h0 h c)"
        by (simp add: Ipv4Header_IsChecksumOk_def)
    qed
  qed (simp_all add: c(1) read_fields_def)
qed

text \<open>A datagram of 1000 bytes over UDP from 10.1.0.1 to 10.1.1.2 with the checksum enabled.\<close>

definition demo_ipv4_header :: ipv4_header where
  "demo_ipv4_header = Ipv4Header_EnableChecksum (Ipv4Header_SetPayloadSize 1008 (Ipv4Header_SetTtl 64
     (Ipv4Header_SetProtocol 17 (Ipv4Header_SetSource 0x0a010001 (Ipv4Header_SetDestination 0x0a010102
       (Ipv4Header_SetDontFragment Ipv4Header_new))))))"

lemma demo_ipv4_header_simps:
  "h_calcChecksum demo_ipv4_header" "h_fragmentOffset demo_ipv4_header = 0" "h_flags demo_ipv4_header = 1"
  by (simp_all add: demo_ipv4_header_def Ipv4Header_EnableChecksum_def Ipv4Header_SetPayloadSize_def
      Ipv4Header_SetTtl_def Ipv4Header_SetProtocol_def Ipv4Header_SetSource_def Ipv4Header_SetDestination_def
      Ipv4Header_SetDontFragment_def Ipv4Header_new_def DONT_FRAGMENT_def)

theorem ipv4_header_round_trip_witness:
  "\<exists>bs h'. Ipv4Header_Serialize demo_ipv4_header = Inr bs \<and>
    Ipv4Header_Deserialize (Ipv4Header_EnableChecksum Ipv4Header_new) (bs @ [7]) = Inr (h', 20) \<and>
    h_destination h' = h_destination demo_ipv4_header \<and> Ipv4Header_IsChecksumOk h'"
  using ipv4_header_round_trip [of demo_ipv4_header "Ipv4Header_EnableChecksum Ipv4Header_new" "[7]"]
  by (auto simp: demo_ipv4_header_simps Ipv4Header_EnableChecksum_def)

text \<open>
  C20. One corrupted byte never passes. If any byte of a serialized header but the first is
  changed to another value, a receiver with checksums enabled still reads a header and finds
  its checksum wrong.
\<close>

theorem corrupted_header_rejected:
  assumes "h_calcChecksum h" and "h_calcChecksum h0" and "Ipv4Header_Serialize h = Inr bs"
    and "0 < i" and "i < 20" and "b \<noteq> bs ! i"
  shows "\<exists>h'. Ipv4Header_Deserialize h0 (bs[i := b] @ rest) = Inr (h', 20) \<and> \<not> Ipv4Header_IsChecksumOk h'"
proof -
  obtain c where c: "Ipv4Header_Serialize h = Inr (wire_bytes h c)"
    "h_calcChecksum h \<longrightarrow> 0 < words_sum (wire_bytes h c) \<and> words_sum (wire_bytes h c) mod 65535 = 0"
    by (rule Serialize_wireE [of h])
  have bs: "bs = wire_bytes h c" using c(1) assms(3) by simp
  have zero: "words_sum bs mod 65535 = 0" unfolding bs by (rule conjunct2 [OF mp [OF c(2) assms(1)]])
  have "bs[i := b] ! 0 = 0x45" "length (bs[i := b]) = 20"
    using assms(4) by (simp_all add: bs) (simp add: wire_bytes_def)
  from Deserialize_45 [OF this(2,1) assms(2), of rest] obtain h' where
    h': "Ipv4Header_Deserialize h0 (bs[i := b] @ rest) = Inr (h', 20)"
      "Ipv4Header_IsChecksumOk h' \<longleftrightarrow> 0 < words_sum (bs[i := b]) \<and> words_sum (bs[i := b]) mod 65535 = 0"
    by (elim exE conjE)
  have "words_sum (bs[i := b]) mod 65535 \<noteq> 0"
    by (rule corrupted_sum [OF zero _ assms(6)]) (simp add: bs assms(5))
  then have "\<not> Ipv4Header_IsChecksumOk h'" by (simp only: h'(2) simp_thms)
  with h'(1) show ?thesis by (intro exI conjI)
qed

theorem corrupted_header_rejected_witness:
  "\<exists>bs h'. Ipv4Header_Serialize demo_ipv4_header = Inr bs \<and>
    Ipv4Header_Deserialize (Ipv4Header_EnableChecksum Ipv4Header_new) (bs[8 := 63] @ []) = Inr (h', 20) \<and>
    \<not> Ipv4Header_IsChecksumOk h'"
proof -
  obtain c where c: "Ipv4Header_Serialize demo_ipv4_header = Inr (wire_bytes demo_ipv4_header c)"
    by (rule Serialize_wireE [of demo_ipv4_header])
  have "wire_bytes demo_ipv4_header c ! 8 = h_ttl demo_ipv4_header"
    by (simp add: wire_bytes_def WriteHtonU16_def)
  then have "63 \<noteq> wire_bytes demo_ipv4_header c ! 8"
    by (simp add: demo_ipv4_header_def Ipv4Header_EnableChecksum_def Ipv4Header_SetPayloadSize_def
        Ipv4Header_SetTtl_def)
  from corrupted_header_rejected [OF demo_ipv4_header_simps(1) _ c _ _ this, of "Ipv4Header_EnableChecksum Ipv4Header_new" "[]"]
  obtain h' where "Ipv4Header_Deserialize (Ipv4Header_EnableChecksum Ipv4Header_new)
      ((wire_bytes demo_ipv4_header c)[8 := 63] @ []) = Inr (h', 20)" "\<not> Ipv4Header_IsChecksumOk h'"
    by (auto simp: Ipv4Header_EnableChecksum_def)
  with c show ?thesis by (intro exI conjI)
qed

end
