(* ===== verification/Load_Balancer.thy ===== *)
theory Load_Balancer
  imports Topology Rl_Routing Ipv4_Header
begin

text \<open>
  The load balancer of \<open>scratch/loadbalancer\<close>: the global configuration (\<open>globals.h\<close>), the state and
  actions exchanged with the learning agent (\<open>StateActionManager\<close> in \<open>spine-leaf.{h,cc}\<close>), the set-up of
  the routers (\<open>TopologyBuilder::InitRLRouting\<close>), the periodic report (\<open>TopologyBuilder::GetStats\<close>) and
  the environment (\<open>DataCenterEnv\<close> in \<open>mygym.cc\<close>).
\<close>

section \<open>Configuration\<close>

record globals =
  gl_action_space :: u32
  gl_serverCount :: u32
  gl_leafCount :: u32
  gl_spineCount :: u32

definition Globals :: globals where
  "Globals = \<lparr>gl_action_space = 2, gl_serverCount = 1, gl_leafCount = 4, gl_spineCount = 2\<rparr>"

section \<open>Matrices\<close>

text \<open>A \<open>std::vector\<close> of vectors; \<open>operator []\<close> out of range is undefined.\<close>

definition at2 :: "nat \<Rightarrow> nat \<Rightarrow> 'a list list \<Rightarrow> 'a res" where
  "at2 i j m = defined_if (i < length m \<and> j < length (m ! i)) (Inr (m ! i ! j))"

definition set2 :: "nat \<Rightarrow> nat \<Rightarrow> 'a \<Rightarrow> 'a list list \<Rightarrow> 'a list list res" where
  "set2 i j v m = defined_if (i < length m \<and> j < length (m ! i)) (Inr (m[i := (m ! i)[j := v]]))"

definition in_range2 :: "nat \<Rightarrow> nat \<Rightarrow> 'a list list \<Rightarrow> bool" where
  "in_range2 i j m \<longleftrightarrow> i < length m \<and> j < length (m ! i)"

section \<open>The observed state\<close>

text \<open>
  The static members of \<open>StateActionManager\<close>. They get their sizes from the configuration before
  \<open>main\<close> runs, so the command line no longer changes them. \<open>'d\<close> is \<open>long double\<close>.
\<close>

record 'd state_action =
  m_q_drops_spines :: "u32 list list"
  m_q_drops_leaves :: "u32 list list"
  m_bandwidths_spines :: "'d list list"
  m_bandwidths_leaves :: "'d list list"
  m_q_size_spines :: "u64 list list"
  m_q_size_leaves :: "u64 list list"
  m_path_drops :: "u64 list list"

definition StateAction_initial :: "'d \<Rightarrow> 'd state_action" where
  "StateAction_initial fzero =
     (let spines = unat (gl_spineCount Globals); leaves = unat (gl_leafCount Globals) in
      \<lparr>m_q_drops_spines = replicate spines (replicate leaves 0), m_q_drops_leaves = replicate leaves (replicate spines 0),
       m_bandwidths_spines = replicate spines (replicate leaves fzero),
       m_bandwidths_leaves = replicate leaves (replicate spines fzero),
       m_q_size_spines = replicate spines (replicate leaves 0), m_q_size_leaves = replicate leaves (replicate spines 0),
       m_path_drops = replicate spines (replicate leaves 0)\<rparr>)"

text \<open>
  The floating-point arithmetic of a bandwidth, \<open>NANO_TO_SEC (duration) * bit rate\<close>, is a parameter
  \<open>busy_bits\<close>, and \<open>fzero\<close> is \<open>0.0\<close>: a duration of \<open>d\<close> nanoseconds is \<open>0.0\<close> seconds exactly when \<open>d\<close> is 0.
\<close>

record 'd float_ops =
  fl_zero :: 'd
  fl_busy_bits :: "u64 \<Rightarrow> u64 \<Rightarrow> 'd"

text \<open>Where a sample goes: the matrices of the spines or those of the leaves, with the two indices.\<close>

datatype slot = Spine_Slot nat nat | Leaf_Slot nat nat

fun slot_device :: "topology \<Rightarrow> slot \<Rightarrow> nat res" where
  "slot_device t (Spine_Slot i j) = at2 i j (p2pSpinesLeavesNetdevs t)"
| "slot_device t (Leaf_Slot i j) = at2 i j (p2pLeavesSpinesNetdevs t)"

fun set_drops :: "slot \<Rightarrow> u32 \<Rightarrow> 'd state_action \<Rightarrow> 'd state_action res" where
  "set_drops (Spine_Slot i j) v st = bind_res (set2 i j v (m_q_drops_spines st)) (\<lambda>m. Inr (st\<lparr>m_q_drops_spines := m\<rparr>))"
| "set_drops (Leaf_Slot i j) v st = bind_res (set2 i j v (m_q_drops_leaves st)) (\<lambda>m. Inr (st\<lparr>m_q_drops_leaves := m\<rparr>))"

fun set_size :: "slot \<Rightarrow> u64 \<Rightarrow> 'd state_action \<Rightarrow> 'd state_action res" where
  "set_size (Spine_Slot i j) v st = bind_res (set2 i j v (m_q_size_spines st)) (\<lambda>m. Inr (st\<lparr>m_q_size_spines := m\<rparr>))"
| "set_size (Leaf_Slot i j) v st = bind_res (set2 i j v (m_q_size_leaves st)) (\<lambda>m. Inr (st\<lparr>m_q_size_leaves := m\<rparr>))"

fun set_bandwidth :: "slot \<Rightarrow> 'd \<Rightarrow> 'd state_action \<Rightarrow> 'd state_action res" where
  "set_bandwidth (Spine_Slot i j) v st =
     bind_res (set2 i j v (m_bandwidths_spines st)) (\<lambda>m. Inr (st\<lparr>m_bandwidths_spines := m\<rparr>))"
| "set_bandwidth (Leaf_Slot i j) v st =
     bind_res (set2 i j v (m_bandwidths_leaves st)) (\<lambda>m. Inr (st\<lparr>m_bandwidths_leaves := m\<rparr>))"

text \<open>The body of the inner loops of \<open>GetData\<close>: drops, reset, queue size, busy time of one device.\<close>

definition sample_slot ::
  "'d float_ops \<Rightarrow> u64 \<Rightarrow> topology \<Rightarrow> slot \<Rightarrow> 'd state_action \<times> network \<Rightarrow> ('d state_action \<times> network) res" where
  "sample_slot fl now t s sn =
     bind_res (slot_device t s) (\<lambda>d.
       case net_devices (snd sn) d of
         None \<Rightarrow> Inl Assert
       | Some dev \<Rightarrow>
           bind_res (set_drops s (QueueBase_GetTotalDroppedPacketsBeforeEnqueue (d_queue dev)) (fst sn)) (\<lambda>st1.
             let dev1 = dev\<lparr>d_queue := QueueBase_resetStats (d_queue dev)\<rparr> in
             bind_res (set_size s (ucast (qs_value (QueueBase_GetCurrentSize (d_queue dev1)))) st1) (\<lambda>st2.
               let ((dura, bps), dev2) = time_slot now dev1 in
               bind_res (set_bandwidth s (if dura = 0 then fl_zero fl else fl_busy_bits fl dura bps) st2) (\<lambda>st3.
                 Inr (st3, (snd sn)\<lparr>net_devices := (net_devices (snd sn))(d \<mapsto> dev2)\<rparr>)))))"

definition GetData_row ::
  "globals \<Rightarrow> 'd float_ops \<Rightarrow> u64 \<Rightarrow> topology \<Rightarrow> nat \<Rightarrow> 'd state_action \<times> network \<Rightarrow> ('d state_action \<times> network) res" where
  "GetData_row gl fl now t i sn =
     (if i < unat (gl_spineCount gl)
      then fold_res (\<lambda>j. sample_slot fl now t (Spine_Slot i j)) [0 ..< unat (gl_leafCount gl)] sn
      else let leaf = of_nat i - 2 :: u32 in
        fold_res (\<lambda>j. sample_slot fl now t (Leaf_Slot j (unat leaf))) [0 ..< unat (gl_spineCount gl)] sn)"

text \<open>
  \<open>GetData\<close>. The last loop only reads the router of each leaf; its results are printed in code that
  is commented out.
\<close>

definition StateAction_GetData ::
  "globals \<Rightarrow> 'd float_ops \<Rightarrow> u64 \<Rightarrow> topology \<Rightarrow> 'f rl_routing list \<Rightarrow> 'd state_action \<times> network \<Rightarrow>
   ('d state_action \<times> network) res" where
  "StateAction_GetData gl fl now t routers sn =
     bind_res (fold_res (GetData_row gl fl now t) [0 ..< unat (gl_spineCount gl + gl_leafCount gl)] sn) (\<lambda>sn1.
       defined_if (unat (gl_leafCount gl) \<le> length routers) (Inr sn1))"

section \<open>Actions and drops\<close>

text \<open>
  \<open>ApplyNewAction\<close>: the weights for all leaves, of which the first two go to the first router.
  Division by a zero action space is undefined.
\<close>

definition StateAction_ApplyNewAction :: "globals \<Rightarrow> 'f list \<Rightarrow> 'f rl_routing list \<Rightarrow> 'f rl_routing list res" where
  "StateAction_ApplyNewAction gl actions routers =
     defined_if (gl_action_space gl \<noteq> 0)
       (ns_assert (length actions mod unat (gl_action_space gl) = 0)
       (ns_assert (length actions div unat (gl_action_space gl) = unat (gl_leafCount gl))
       (defined_if (1 < length actions \<and> 0 < length routers)
         (bind_res (RlRouting_resetStats (routers ! 0)) (\<lambda>r.
            Inr (routers[0 := snd (RlRouting_SetDistribution [actions ! 0, actions ! 1] r)]))))))"

text \<open>
  \<open>TraceP2PDevQueueDrop\<close>, called with the packet a device queue has dropped: the tag tells which
  path the packet was put on. The headers are taken off a copy and not used.
\<close>

definition StateAction_TraceP2PDevQueueDrop ::
  "globals \<Rightarrow> packet \<Rightarrow> 'd state_action \<Rightarrow> 'd state_action res" where
  "StateAction_TraceP2PDevQueueDrop gl droppedPacket st =
     bind_res (PacketTagList_Peek MY_TAG MyTag_Deserialize droppedPacket) (\<lambda>found.
       let tagCopy = (case found of None \<Rightarrow> MyTag_new | Some t \<Rightarrow> t) in
       if t_leaf_id tagCopy \<noteq> 99999 then
         bind_res (Packet_RemoveHeader PppHeader_Deserialize (Packet_Copy droppedPacket)) (\<lambda>(ppp, copy1).
         bind_res (Packet_RemoveHeader (Ipv4Header_Deserialize Ipv4Header_new) copy1) (\<lambda>(ipHeader, copy2).
           let i = t_interface tagCopy - 1; j = t_leaf_id tagCopy - gl_spineCount gl in
           bind_res (at2 (unat i) (unat j) (m_path_drops st)) (\<lambda>v.
           bind_res (set2 (unat i) (unat j) (v + 1) (m_path_drops st)) (\<lambda>m. Inr (st\<lparr>m_path_drops := m\<rparr>)))))
       else Inr st)"

section \<open>Routers\<close>

text \<open>
  The protocols in a leaf's list, and \<open>InitRLRouting\<close> for one leaf: the first protocol must be the
  load balancer's and the third global routing, or the program exits.
\<close>

datatype 'f protocol = RlProtocol "'f rl_routing" | StaticProtocol static_routing | GlobalProtocol global_routing

definition InitRLRouting_leaf :: "'f \<Rightarrow> ipv4_stack \<Rightarrow> (int \<times> 'f protocol) list \<Rightarrow> 'f rl_routing res" where
  "InitRLRouting_leaf half ip ps =
     bind_res (ListRouting_GetRoutingProtocol 0 ps) (\<lambda>rl.
     bind_res (ListRouting_GetRoutingProtocol 2 ps) (\<lambda>global.
       case (rl, global) of
         (Some (_, RlProtocol r), Some (_, GlobalProtocol g)) \<Rightarrow>
           Inr (snd (RlRouting_SetDistribution [half, half]
             (RlRouting_init_routes ip (m_hostRoutes g) (m_networkRoutes g) r)))
       | _ \<Rightarrow> Inl Fatal))"

definition leaf_protocols :: "static_routing \<Rightarrow> global_routing \<Rightarrow> 'f rl_routing \<Rightarrow> (int \<times> 'f protocol) list" where
  "leaf_protocols rs g r =
     ListRouting_AddRoutingProtocol (RlProtocol r) 10
       (ListRouting_AddRoutingProtocol (GlobalProtocol g) (- 10)
         (ListRouting_AddRoutingProtocol (StaticProtocol rs) 1 []))"

section \<open>Report and environment\<close>

text \<open>
  \<open>GetStats\<close>: after sampling, six matrices are printed, each over spines and leaves, and the next
  report is scheduled one second later. The result is what is printed and the delay.
\<close>

definition print_matrix :: "globals \<Rightarrow> 'a list list \<Rightarrow> 'a list list res" where
  "print_matrix gl m =
     fold_res (\<lambda>i rows. bind_res (fold_res (\<lambda>j row. bind_res (at2 i j m) (\<lambda>v. Inr (row @ [v])))
         [0 ..< unat (gl_leafCount gl)] []) (\<lambda>row. Inr (rows @ [row])))
       [0 ..< unat (gl_spineCount gl)] []"

record 'd report =
  rp_q_size_leaves :: "u64 list list"
  rp_q_size_spines :: "u64 list list"
  rp_q_drops_leaves :: "u32 list list"
  rp_q_drops_spines :: "u32 list list"
  rp_bandwidths_leaves :: "'d list list"
  rp_bandwidths_spines :: "'d list list"

definition TopologyBuilder_GetStats ::
  "globals \<Rightarrow> 'd float_ops \<Rightarrow> u64 \<Rightarrow> topology \<Rightarrow> 'f rl_routing list \<Rightarrow> 'd state_action \<times> network \<Rightarrow>
   ('d report \<times> u64 \<times> 'd state_action \<times> network) res" where
  "TopologyBuilder_GetStats gl fl now t routers sn =
     bind_res (StateAction_GetData gl fl now t routers sn) (\<lambda>(st, net).
     bind_res (print_matrix gl (m_q_size_leaves st)) (\<lambda>a.
     bind_res (print_matrix gl (m_q_size_spines st)) (\<lambda>b.
     bind_res (print_matrix gl (m_q_drops_leaves st)) (\<lambda>c.
     bind_res (print_matrix gl (m_q_drops_spines st)) (\<lambda>d.
     bind_res (print_matrix gl (m_bandwidths_leaves st)) (\<lambda>e.
     bind_res (print_matrix gl (m_bandwidths_spines st)) (\<lambda>f.
       Inr (\<lparr>rp_q_size_leaves = a, rp_q_size_spines = b, rp_q_drops_leaves = c, rp_q_drops_spines = d,
             rp_bandwidths_leaves = e, rp_bandwidths_spines = f\<rparr>, 1000000000, st, net))))))))"

text \<open>
  \<open>DataCenterEnv::GetObservation\<close>: the values put in the box, in order. A value is an integer or a
  bandwidth divided by 8000. The path drops are read from a copy of the matrix, and it is the copy
  whose entries are set to zero.
\<close>

datatype 'd observed = Count u64 | Bandwidth_8000 'd

definition observation :: "'d state_action \<Rightarrow> 'd observed list" where
  "observation st =
     map (Count \<circ> ucast) (concat (m_q_drops_spines st)) @ map (Count \<circ> ucast) (concat (m_q_drops_leaves st)) @
     map Count (concat (m_q_size_spines st)) @ map Count (concat (m_q_size_leaves st)) @
     map Bandwidth_8000 (concat (m_bandwidths_spines st)) @ map Bandwidth_8000 (concat (m_bandwidths_leaves st)) @
     map Count (concat (m_path_drops st))"

definition Env_GetObservation ::
  "globals \<Rightarrow> 'd float_ops \<Rightarrow> u64 \<Rightarrow> topology \<Rightarrow> 'f rl_routing list \<Rightarrow> 'd state_action \<times> network \<Rightarrow>
   ('d observed list \<times> 'd state_action \<times> network) res" where
  "Env_GetObservation gl fl now t routers sn =
     bind_res (StateAction_GetData gl fl now t routers sn) (\<lambda>(st, net).
       Inr (observation st, st, net))"

definition Env_ObservationSize :: "globals \<Rightarrow> u32" where
  "Env_ObservationSize gl = gl_spineCount gl * gl_leafCount gl * 7"

definition Env_ActionSize :: "globals \<Rightarrow> u32" where
  "Env_ActionSize gl = gl_spineCount gl * gl_leafCount gl"

text \<open>
  The static counters of the environment, kept in a \<open>float\<close>: adding 1 is exact up to \<open>2 ^ 24\<close> and
  leaves the value there.
\<close>

record env_counters =
  env_stepCounter :: nat
  env_reward :: nat

definition float_inc :: "nat \<Rightarrow> nat" where
  "float_inc n = (if n < 2 ^ 24 then n + 1 else n)"

definition Env_GetGameOver :: "env_counters \<Rightarrow> bool \<times> env_counters" where
  "Env_GetGameOver e =
     (let test = False; e1 = e\<lparr>env_stepCounter := float_inc (env_stepCounter e)\<rparr>
      in (env_stepCounter e1 = 10 \<and> test, e1))"

definition Env_GetReward :: "env_counters \<Rightarrow> nat \<times> env_counters" where
  "Env_GetReward e = (let e1 = e\<lparr>env_reward := float_inc (env_reward e)\<rparr> in (env_reward e1, e1))"

text \<open>\<open>ExecuteActions\<close>: the data of the box the agent sends.\<close>

definition Env_ExecuteActions ::
  "globals \<Rightarrow> 'f list option \<Rightarrow> 'f rl_routing list \<Rightarrow> (bool \<times> 'f rl_routing list) res" where
  "Env_ExecuteActions gl box routers =
     (case box of
        None \<Rightarrow> Inl Assert
      | Some actions \<Rightarrow> bind_res (StateAction_ApplyNewAction gl actions routers) (\<lambda>rs. Inr (True, rs)))"

section \<open>Sampling one device\<close>

text \<open>
  What a sample of a device should read, in terms of its fields: the packets dropped so far, the length
  of the queue in the unit of its limit, and the time spent busy since the last sample, up to now if it is
  busy still.
\<close>

definition busy_time :: "u64 \<Rightarrow> packet queue p2p_device \<Rightarrow> u64" where
  "busy_time now dev =
     up_duration (d_history dev) + (if was_down (d_history dev) then 0 else now - h_start_tx (d_history dev))"

definition reading :: "'d float_ops \<Rightarrow> u64 \<Rightarrow> packet queue p2p_device \<Rightarrow> u32 \<times> u64 \<times> 'd" where
  "reading fl now dev =
     (m_nTotalDroppedPacketsBeforeEnqueue (d_queue dev),
      ucast (case qs_unit (m_maxSize (d_queue dev)) of PACKETS \<Rightarrow> m_nPackets (d_queue dev) | BYTES \<Rightarrow> m_nBytes (d_queue dev)),
      if busy_time now dev = 0 then fl_zero fl else fl_busy_bits fl (busy_time now dev) (d_bps dev))"

text \<open>
  The device after a sample: the busy time starts again from zero, now; of the counters of the queue only the
  bytes dropped before enqueueing are cleared, and the dropped packets, which are what was read, stay.
\<close>

definition sampled :: "u64 \<Rightarrow> packet queue p2p_device \<Rightarrow> packet queue p2p_device" where
  "sampled now dev =
     dev\<lparr>d_queue := (d_queue dev)\<lparr>m_nTotalDroppedBytesBeforeEnqueue := 0\<rparr>,
       d_history := \<lparr>up_duration = 0, h_start_tx = (if was_down (d_history dev) then h_start_tx (d_history dev) else now),
                    was_down = was_down (d_history dev)\<rparr>\<rparr>"

fun read_slot :: "'d state_action \<Rightarrow> slot \<Rightarrow> u32 \<times> u64 \<times> 'd" where
  "read_slot st (Spine_Slot i j) =
     (m_q_drops_spines st ! i ! j, m_q_size_spines st ! i ! j, m_bandwidths_spines st ! i ! j)"
| "read_slot st (Leaf_Slot i j) =
     (m_q_drops_leaves st ! i ! j, m_q_size_leaves st ! i ! j, m_bandwidths_leaves st ! i ! j)"

definition sized :: "nat \<Rightarrow> nat \<Rightarrow> 'a list list \<Rightarrow> bool" where
  "sized r c m \<longleftrightarrow> length m = r \<and> (\<forall>i < r. length (m ! i) = c)"

text \<open>The sizes that the matrices get from the default configuration and keep.\<close>

definition state_sized :: "'d state_action \<Rightarrow> bool" where
  "state_sized st \<longleftrightarrow>
     sized 2 4 (m_q_drops_spines st) \<and> sized 4 2 (m_q_drops_leaves st) \<and>
     sized 2 4 (m_bandwidths_spines st) \<and> sized 4 2 (m_bandwidths_leaves st) \<and>
     sized 2 4 (m_q_size_spines st) \<and> sized 4 2 (m_q_size_leaves st) \<and> sized 2 4 (m_path_drops st)"

fun slot_ok :: "slot \<Rightarrow> bool" where
  "slot_ok (Spine_Slot i j) \<longleftrightarrow> i < 2 \<and> j < 4"
| "slot_ok (Leaf_Slot i j) \<longleftrightarrow> i < 4 \<and> j < 2"

lemma initial_sized: "state_sized (StateAction_initial fzero)"
  by (simp add: state_sized_def sized_def StateAction_initial_def Globals_def Let_def)

lemma set2_sized:
  assumes "sized r c m" and "i < r" and "j < c"
  shows "set2 i j v m = Inr (m[i := (m ! i)[j := v]])" and "sized r c (m[i := (m ! i)[j := v]])"
  using assms by (auto simp: set2_def sized_def nth_list_update)

text \<open>What one assignment of a sample does: it is in range, and only its component of its slot changes.\<close>

definition writes :: "slot \<Rightarrow> (u32 \<times> u64 \<times> 'd) \<Rightarrow> 'd state_action \<Rightarrow> 'd state_action \<Rightarrow> bool" where
  "writes s v st st' \<longleftrightarrow> state_sized st' \<and> m_path_drops st' = m_path_drops st \<and> read_slot st' s = v \<and>
     (\<forall>s'. s' \<noteq> s \<longrightarrow> read_slot st' s' = read_slot st s')"

lemma writesI:
  assumes "state_sized st'" and "m_path_drops st' = m_path_drops st" and "read_slot st' s = v"
    and "\<And>i j. Spine_Slot i j \<noteq> s \<Longrightarrow> read_slot st' (Spine_Slot i j) = read_slot st (Spine_Slot i j)"
    and "\<And>i j. Leaf_Slot i j \<noteq> s \<Longrightarrow> read_slot st' (Leaf_Slot i j) = read_slot st (Leaf_Slot i j)"
  shows "writes s v st st'"
proof -
  have "read_slot st' s' = read_slot st s'" if "s' \<noteq> s" for s' using assms(4,5) that by (cases s') blast+
  with assms(1-3) show ?thesis by (simp add: writes_def)
qed

lemma nth_sized_update:
  assumes "sized r c m" and "i < r" and "j < c"
  shows "m[i := (m ! i)[j := v]] ! i' ! j' = (if i' = i \<and> j' = j then v else m ! i' ! j')"
  using assms by (auto simp: sized_def nth_list_update)

lemma set_drops_writes:
  assumes "state_sized st" and "slot_ok s"
  shows "\<exists>st'. set_drops s v st = Inr st' \<and> writes s (v, snd (read_slot st s)) st st'"
proof (cases s)
  case (Spine_Slot i j)
  then have r: "i < 2" "j < 4" "sized 2 4 (m_q_drops_spines st)" using assms by (simp_all add: state_sized_def)
  show ?thesis using assms(1) r
    by (simp add: Spine_Slot set2_sized, intro writesI)
       (auto simp: state_sized_def set2_sized nth_sized_update simp del: nth_list_update_eq)
next
  case (Leaf_Slot i j)
  then have r: "i < 4" "j < 2" "sized 4 2 (m_q_drops_leaves st)" using assms by (simp_all add: state_sized_def)
  show ?thesis using assms(1) r
    by (simp add: Leaf_Slot set2_sized, intro writesI)
       (auto simp: state_sized_def set2_sized nth_sized_update simp del: nth_list_update_eq)
qed

lemma set_size_writes:
  assumes "state_sized st" and "slot_ok s"
  shows "\<exists>st'. set_size s v st = Inr st' \<and> writes s (fst (read_slot st s), v, snd (snd (read_slot st s))) st st'"
proof (cases s)
  case (Spine_Slot i j)
  then have r: "i < 2" "j < 4" "sized 2 4 (m_q_size_spines st)" using assms by (simp_all add: state_sized_def)
  show ?thesis using assms(1) r
    by (simp add: Spine_Slot set2_sized, intro writesI)
       (auto simp: state_sized_def set2_sized nth_sized_update simp del: nth_list_update_eq)
next
  case (Leaf_Slot i j)
  then have r: "i < 4" "j < 2" "sized 4 2 (m_q_size_leaves st)" using assms by (simp_all add: state_sized_def)
  show ?thesis using assms(1) r
    by (simp add: Leaf_Slot set2_sized, intro writesI)
       (auto simp: state_sized_def set2_sized nth_sized_update simp del: nth_list_update_eq)
qed

lemma set_bandwidth_writes:
  assumes "state_sized st" and "slot_ok s"
  shows "\<exists>st'. set_bandwidth s v st = Inr st' \<and> writes s (fst (read_slot st s), fst (snd (read_slot st s)), v) st st'"
proof (cases s)
  case (Spine_Slot i j)
  then have r: "i < 2" "j < 4" "sized 2 4 (m_bandwidths_spines st)" using assms by (simp_all add: state_sized_def)
  show ?thesis using assms(1) r
    by (simp add: Spine_Slot set2_sized, intro writesI)
       (auto simp: state_sized_def set2_sized nth_sized_update simp del: nth_list_update_eq)
next
  case (Leaf_Slot i j)
  then have r: "i < 4" "j < 2" "sized 4 2 (m_bandwidths_leaves st)" using assms by (simp_all add: state_sized_def)
  show ?thesis using assms(1) r
    by (simp add: Leaf_Slot set2_sized, intro writesI)
       (auto simp: state_sized_def set2_sized nth_sized_update simp del: nth_list_update_eq)
qed

lemma writes_trans: "writes s v st st' \<Longrightarrow> writes s w st' st'' \<Longrightarrow> writes s w st st''"
  by (simp add: writes_def)

lemma time_slot_busy: "fst (time_slot now dev) = (busy_time now dev, d_bps dev)"
  by (simp add: time_slot_def busy_time_def Let_def)

lemma time_slot_sampled: "snd (time_slot now (dev\<lparr>d_queue := QueueBase_resetStats (d_queue dev)\<rparr>)) = sampled now dev"
  by (cases "d_history dev") (simp add: time_slot_def sampled_def QueueBase_resetStats_def Let_def)

lemma busy_time_queue: "busy_time now (dev\<lparr>d_queue := x\<rparr>) = busy_time now dev"
  by (simp add: busy_time_def)

lemma size_after_reset:
  "qs_value (QueueBase_GetCurrentSize (QueueBase_resetStats q)) =
   (case qs_unit (m_maxSize q) of PACKETS \<Rightarrow> m_nPackets q | BYTES \<Rightarrow> m_nBytes q)"
  by (simp add: QueueBase_GetCurrentSize_def QueueBase_resetStats_def QueueSize_new_def split: QueueSizeUnit.split)

text \<open>A sample is exact, and touches its slot and its device only.\<close>

lemma sample_slot_ok:
  assumes "state_sized st" and "slot_ok s" and "slot_device t s = Inr d" and "net_devices net d = Some dev"
  shows "\<exists>st'. sample_slot fl now t s (st, net) = Inr (st', net\<lparr>net_devices := (net_devices net)(d \<mapsto> sampled now dev)\<rparr>) \<and>
    writes s (reading fl now dev) st st'"
proof -
  let ?r = "reading fl now dev"
  obtain st1 where 1: "set_drops s (fst ?r) st = Inr st1" "writes s (fst ?r, snd (read_slot st s)) st st1"
    using set_drops_writes [OF assms(1,2)] by blast
  then have s1: "state_sized st1" by (simp add: writes_def)
  obtain st2 where 2: "set_size s (fst (snd ?r)) st1 = Inr st2"
      "writes s (fst (read_slot st1 s), fst (snd ?r), snd (snd (read_slot st1 s))) st1 st2"
    using set_size_writes [OF s1 assms(2)] by blast
  then have s2: "state_sized st2" by (simp add: writes_def)
  obtain st3 where 3: "set_bandwidth s (snd (snd ?r)) st2 = Inr st3"
      "writes s (fst (read_slot st2 s), fst (snd (read_slot st2 s)), snd (snd ?r)) st2 st3"
    using set_bandwidth_writes [OF s2 assms(2)] by blast
  have "(fst (read_slot st2 s), fst (snd (read_slot st2 s)), snd (snd ?r)) = ?r"
    using 1(2) 2(2) by (simp add: writes_def)
  with writes_trans [OF writes_trans [OF 1(2) 2(2)] 3(2)] have "writes s ?r st st3" by simp
  moreover have "sample_slot fl now t s (st, net) = Inr (st3, net\<lparr>net_devices := (net_devices net)(d \<mapsto> sampled now dev)\<rparr>)"
    using assms(3,4) 1(1) 2(1) 3(1)
    by (cases "busy_time now dev = 0")
      (simp_all add: sample_slot_def Let_def split_beta size_after_reset time_slot_busy time_slot_sampled busy_time_queue
        reading_def QueueBase_GetTotalDroppedPacketsBeforeEnqueue_def)
  ultimately show ?thesis by blast
qed

text \<open>Sampling a list of slots with pairwise distinct devices.\<close>

definition all_sampled :: "u64 \<Rightarrow> nat set \<Rightarrow> network \<Rightarrow> network" where
  "all_sampled now ds net =
     net\<lparr>net_devices := (\<lambda>d. if d \<in> ds then map_option (sampled now) (net_devices net d) else net_devices net d)\<rparr>"

lemma sample_slots_ok:
  assumes "state_sized st" and "\<forall>s \<in> set ss. slot_ok s \<and> slot_device t s = Inr (dv s) \<and> net_devices net (dv s) \<noteq> None"
    and "distinct (map dv ss)"
  shows "\<exists>st'. fold_res (sample_slot fl now t) ss (st, net) = Inr (st', all_sampled now (dv ` set ss) net) \<and>
    state_sized st' \<and> m_path_drops st' = m_path_drops st \<and>
    (\<forall>s \<in> set ss. read_slot st' s = reading fl now (the (net_devices net (dv s)))) \<and>
    (\<forall>s. s \<notin> set ss \<longrightarrow> read_slot st' s = read_slot st s)"
  using assms
proof (induction ss arbitrary: st net)
  case Nil
  then show ?case by (auto simp: all_sampled_def)
next
  case (Cons s ss)
  then obtain dev where d: "slot_ok s" "slot_device t s = Inr (dv s)" "net_devices net (dv s) = Some dev" by auto
  obtain st1 where 1: "sample_slot fl now t s (st, net) = Inr (st1, net\<lparr>net_devices := (net_devices net)(dv s \<mapsto> sampled now dev)\<rparr>)"
      "writes s (reading fl now dev) st st1"
    using sample_slot_ok [OF Cons.prems(1) d] by blast
  let ?net = "net\<lparr>net_devices := (net_devices net)(dv s \<mapsto> sampled now dev)\<rparr>"
  have other: "net_devices ?net (dv x) = net_devices net (dv x)" if "x \<in> set ss" for x
    using Cons.prems(3) imageI [OF that, of dv] by auto
  have "state_sized st1" using 1(2) by (simp add: writes_def)
  from Cons.IH [OF this, of ?net] Cons.prems other obtain st' where
    st': "fold_res (sample_slot fl now t) ss (st1, ?net) = Inr (st', all_sampled now (dv ` set ss) ?net)"
      "state_sized st'" "m_path_drops st' = m_path_drops st1"
      "\<forall>x \<in> set ss. read_slot st' x = reading fl now (the (net_devices ?net (dv x)))"
      "\<forall>x. x \<notin> set ss \<longrightarrow> read_slot st' x = read_slot st1 x"
    by auto
  have "all_sampled now (dv ` set ss) ?net = all_sampled now (dv ` set (s # ss)) net"
    using Cons.prems(3) d(3) by (auto simp: all_sampled_def fun_eq_iff)
  moreover have "s \<notin> set ss" using Cons.prems(3) by auto
  ultimately show ?case
    using st' 1 other d(3) by (intro exI [of _ st']) (auto simp: writes_def)
qed

section \<open>Sampling the rows\<close>

fun table_device :: "topology \<Rightarrow> slot \<Rightarrow> nat" where
  "table_device t (Spine_Slot i j) = p2pSpinesLeavesNetdevs t ! i ! j"
| "table_device t (Leaf_Slot i j) = p2pLeavesSpinesNetdevs t ! i ! j"

fun in_table :: "nat \<Rightarrow> nat \<Rightarrow> slot \<Rightarrow> bool" where
  "in_table r c (Spine_Slot i j) \<longleftrightarrow> i < r \<and> j < c"
| "in_table r c (Leaf_Slot i j) \<longleftrightarrow> i < r \<and> j < c"

lemma nth_nth_concat: "i < length m \<Longrightarrow> j < length (m ! i) \<Longrightarrow> m ! i ! j \<in> set (concat m)"
  by (auto intro!: bexI [of _ "m ! i"])

lemma nth_nth_inj:
  assumes "distinct (concat m)" and "i < length m" and "i' < length m" and "j < length (m ! i)" and "j' < length (m ! i')"
    and "m ! i ! j = m ! i' ! j'"
  shows "i = i' \<and> j = j'"
  using assms
proof (induction m arbitrary: i i')
  case (Cons r m)
  have apart: "r ! a \<noteq> m ! k ! b" if "a < length r" "k < length m" "b < length (m ! k)" for a k b
    using Cons.prems(1) nth_mem [OF that(1)] nth_nth_concat [OF that(2,3)] by auto
  show ?case
  proof (cases i; cases i')
    assume "i = 0" "i' = 0"
    then show ?thesis using Cons.prems by (simp add: nth_eq_iff_index_eq)
  next
    fix k assume "i = 0" "i' = Suc k"
    then show ?thesis using Cons.prems apart [of j k j'] by simp
  next
    fix k assume "i = Suc k" "i' = 0"
    then show ?thesis using Cons.prems apart [of j' k j] by simp
  next
    fix k k' assume "i = Suc k" "i' = Suc k'"
    then show ?thesis using Cons.prems Cons.IH [of k k'] by simp
  qed
qed simp

lemma table_device_inj:
  assumes "tables_wired t net r c" and "in_table r c s" and "in_table r c s'" and "table_device t s = table_device t s'"
  shows "s = s'"
proof -
  have w: "length (p2pSpinesLeavesNetdevs t) = r" "length (p2pLeavesSpinesNetdevs t) = r"
    "\<And>i. i < r \<Longrightarrow> length (p2pSpinesLeavesNetdevs t ! i) = c" "\<And>i. i < r \<Longrightarrow> length (p2pLeavesSpinesNetdevs t ! i) = c"
    "distinct (concat (p2pSpinesLeavesNetdevs t))" "distinct (concat (p2pLeavesSpinesNetdevs t))"
    "set (concat (p2pSpinesLeavesNetdevs t)) \<inter> set (concat (p2pLeavesSpinesNetdevs t)) = {}"
    using assms(1) by (simp_all add: tables_wired_def)
  have apart: "p2pSpinesLeavesNetdevs t ! i ! j \<noteq> p2pLeavesSpinesNetdevs t ! k ! l"
    if "i < r" "j < c" "k < r" "l < c" for i j k l
    using w that nth_nth_concat [of i "p2pSpinesLeavesNetdevs t" j] nth_nth_concat [of k "p2pLeavesSpinesNetdevs t" l]
    by (metis disjoint_iff)
  show ?thesis
  proof (cases s; cases s')
    fix i j k l assume s: "s = Spine_Slot i j" "s' = Spine_Slot k l"
    then show ?thesis using assms(2-4) nth_nth_inj [OF w(5), of i k j l] by (simp add: w(1,3))
  next
    fix i j k l assume s: "s = Leaf_Slot i j" "s' = Leaf_Slot k l"
    then show ?thesis using assms(2-4) nth_nth_inj [OF w(6), of i k j l] by (simp add: w(2,4))
  qed (use assms(2-4) apart in \<open>simp_all, metis+\<close>)
qed

lemma table_device_ok:
  assumes "tables_wired t net r c" and "in_table r c s"
  shows "slot_device t s = Inr (table_device t s) \<and> net_devices net (table_device t s) \<noteq> None"
proof -
  have present: "net_devices net dA \<noteq> None \<and> net_devices net dB \<noteq> None" if "link_ok net dA dB a ia b ib" for dA dB a ia b ib
    using that by (auto simp: link_ok_def)
  have w: "length (p2pSpinesLeavesNetdevs t) = r" "length (p2pLeavesSpinesNetdevs t) = r"
    "\<And>i. i < r \<Longrightarrow> length (p2pSpinesLeavesNetdevs t ! i) = c \<and> length (p2pLeavesSpinesNetdevs t ! i) = c"
    "\<And>i j. i < r \<Longrightarrow> j < c \<Longrightarrow> link_ok net (p2pLeavesSpinesNetdevs t ! i ! j) (p2pSpinesLeavesNetdevs t ! i ! j)
       (r + j) (i + 1) i (j + 1)"
    using assms(1) by (simp_all add: tables_wired_def)
  show ?thesis
    using assms(2) present [OF w(4)] by (cases s) (simp_all add: at2_def w(1-3))
qed

definition row_slots :: "nat \<Rightarrow> nat \<Rightarrow> slot list" where
  "row_slots leaves i = (if i < 2 then map (Spine_Slot i) [0 ..< leaves] else map (\<lambda>j. Leaf_Slot j (i - 2)) [0 ..< 2])"

definition row_list :: "nat \<Rightarrow> nat \<Rightarrow> slot list" where
  "row_list leaves n = concat (map (row_slots leaves) [0 ..< n])"

lemma row_list_Suc: "row_list leaves (Suc n) = row_list leaves n @ row_slots leaves n"
  by (simp add: row_list_def)

lemma set_row_list:
  "Spine_Slot i j \<in> set (row_list leaves n) \<longleftrightarrow> i < n \<and> i < 2 \<and> j < leaves"
  "Leaf_Slot i j \<in> set (row_list leaves n) \<longleftrightarrow> i < 2 \<and> j + 2 < n"
  by (auto simp: row_list_def row_slots_def image_iff intro!: bexI [of _ "j + 2"])

lemma distinct_row_list: "distinct (row_list leaves n)"
proof (induction n)
  case (Suc n)
  have "set (row_list leaves n) \<inter> set (row_slots leaves n) = {}"
    by (auto simp: row_list_def row_slots_def split: if_splits)
  with Suc show ?case by (auto simp: row_list_Suc row_slots_def distinct_map inj_on_def)
qed (simp add: row_list_def)

lemma GetData_row_slots:
  assumes "gl_spineCount gl = 2" and "i < 2 ^ 32"
  shows "GetData_row gl fl now t i = fold_res (sample_slot fl now t) (row_slots (unat (gl_leafCount gl)) i)"
proof -
  have "unat (of_nat i - 2 :: u32) = i - 2" if "\<not> i < 2"
  proof -
    have "(of_nat i - 2 :: u32) = of_nat (i - 2)" using that by simp
    then show ?thesis using assms(2) by (simp add: unsigned_of_nat take_bit_nat_eq_self del: of_nat_diff)
  qed
  then show ?thesis
    using assms(1) by (auto simp: GetData_row_def row_slots_def fold_res_map Let_def fun_eq_iff)
qed

lemma GetData_rows:
  assumes "gl_spineCount gl = 2" and "n < 2 ^ 32"
  shows "fold_res (GetData_row gl fl now t) [0 ..< n] sn =
    fold_res (sample_slot fl now t) (row_list (unat (gl_leafCount gl)) n) sn"
  unfolding row_list_def fold_res_concat [symmetric]
  by (rule fold_res_cong) (use assms in \<open>simp add: GetData_row_slots\<close>)

text \<open>Up to the second leaf the rows stay inside the matrices, and every entry is the reading of its device.\<close>

lemma GetData_rows_ok:
  assumes "tables_wired t net 2 l" and "gl_spineCount gl = 2" and "gl_leafCount gl = of_nat l" and "l \<le> 4"
    and "n \<le> 4" and "n \<le> 2 + l" and "state_sized st"
  shows "\<exists>st'. fold_res (GetData_row gl fl now t) [0 ..< n] (st, net) =
      Inr (st', all_sampled now (table_device t ` set (row_list l n)) net) \<and>
    state_sized st' \<and> m_path_drops st' = m_path_drops st \<and>
    (\<forall>s \<in> set (row_list l n). read_slot st' s = reading fl now (the (net_devices net (table_device t s)))) \<and>
    (\<forall>s. s \<notin> set (row_list l n) \<longrightarrow> read_slot st' s = read_slot st s)"
proof -
  have l: "unat (gl_leafCount gl) = l" using assms(3,4) by (simp add: unsigned_of_nat take_bit_nat_eq_self)
  have inside: "slot_ok s \<and> in_table 2 l s" if "s \<in> set (row_list l n)" for s
    by (cases s rule: slot.exhaust) (use that assms(4-6) in \<open>auto simp: set_row_list\<close>)
  have "inj_on (table_device t) (set (row_list l n))"
    using table_device_inj [OF assms(1)] inside by (auto intro: inj_onI)
  then have "distinct (map (table_device t) (row_list l n))" by (simp add: distinct_map distinct_row_list)
  moreover have "\<forall>s \<in> set (row_list l n). slot_ok s \<and> slot_device t s = Inr (table_device t s) \<and>
      net_devices net (table_device t s) \<noteq> None"
    using inside table_device_ok [OF assms(1)] by blast
  ultimately show ?thesis
    using sample_slots_ok [OF assms(7)] assms(5) by (simp add: GetData_rows [OF assms(2)] l)
qed

lemma row_list_devices:
  assumes "tables_wired t net 2 l"
  shows "table_device t ` set (row_list l (2 + l)) = set (concat (p2pSpinesLeavesNetdevs t) @ concat (p2pLeavesSpinesNetdevs t))"
    (is "?A = ?B")
proof
  have w: "length (p2pSpinesLeavesNetdevs t) = 2" "length (p2pLeavesSpinesNetdevs t) = 2"
    "\<And>i. i < 2 \<Longrightarrow> length (p2pSpinesLeavesNetdevs t ! i) = l" "\<And>i. i < 2 \<Longrightarrow> length (p2pLeavesSpinesNetdevs t ! i) = l"
    using assms by (simp_all add: tables_wired_def)
  show "?A \<subseteq> ?B"
  proof
    fix d assume "d \<in> ?A"
    then obtain s where s: "s \<in> set (row_list l (2 + l))" "d = table_device t s" by blast
    show "d \<in> ?B"
      using s w nth_nth_concat [of _ "p2pSpinesLeavesNetdevs t"] nth_nth_concat [of _ "p2pLeavesSpinesNetdevs t"]
      by (cases s rule: slot.exhaust) (simp_all add: set_row_list)
  qed
  have spine: "p2pSpinesLeavesNetdevs t ! i ! j \<in> ?A" if "i < 2" "j < l" for i j
    using that by (intro image_eqI [of _ _ "Spine_Slot i j"]) (simp_all add: set_row_list)
  have leaf: "p2pLeavesSpinesNetdevs t ! i ! j \<in> ?A" if "i < 2" "j < l" for i j
    using that by (intro image_eqI [of _ _ "Leaf_Slot i j"]) (simp_all add: set_row_list)
  show "?B \<subseteq> ?A"
  proof
    fix d assume "d \<in> ?B"
    then consider i j where "i < 2" "j < l" "d = p2pSpinesLeavesNetdevs t ! i ! j"
      | i j where "i < 2" "j < l" "d = p2pLeavesSpinesNetdevs t ! i ! j"
      using w by (auto simp: in_set_conv_nth)
    then show "d \<in> ?A" by cases (use spine leaf in blast)+
  qed
qed

lemma GetData_ok:
  assumes "tables_wired t net 2 l" and "l \<le> 2" and "gl_spineCount gl = 2" and "gl_leafCount gl = of_nat l"
    and "state_sized st" and "l \<le> length routers"
  obtains st' where "StateAction_GetData gl fl now t routers (st, net) =
      Inr (st', all_sampled now (set (concat (p2pSpinesLeavesNetdevs t) @ concat (p2pLeavesSpinesNetdevs t))) net)"
    "state_sized st'" "m_path_drops st' = m_path_drops st"
    "\<And>s. in_table 2 l s \<Longrightarrow> read_slot st' s = reading fl now (the (net_devices net (table_device t s)))"
proof -
  have l: "unat (gl_leafCount gl) = l" "unat (gl_spineCount gl + gl_leafCount gl) = 2 + l"
  proof -
    show "unat (gl_leafCount gl) = l" using assms(2,4) by (simp add: unsigned_of_nat take_bit_nat_eq_self)
    have "l = 0 \<or> l = 1 \<or> l = 2" using assms(2) by auto
    then show "unat (gl_spineCount gl + gl_leafCount gl) = 2 + l" using assms(3,4) by auto
  qed
  have "l \<le> 4" "2 + l \<le> 4" using assms(2) by simp_all
  from GetData_rows_ok [OF assms(1,3,4) this order_refl assms(5), of fl now] obtain st' where
    st': "fold_res (GetData_row gl fl now t) [0 ..< 2 + l] (st, net) =
        Inr (st', all_sampled now (table_device t ` set (row_list l (2 + l))) net)"
      "state_sized st'" "m_path_drops st' = m_path_drops st"
      "\<forall>s \<in> set (row_list l (2 + l)). read_slot st' s = reading fl now (the (net_devices net (table_device t s)))"
    by blast
  show ?thesis
  proof (rule that)
    show "StateAction_GetData gl fl now t routers (st, net) =
        Inr (st', all_sampled now (set (concat (p2pSpinesLeavesNetdevs t) @ concat (p2pLeavesSpinesNetdevs t))) net)"
      using st'(1) assms(6) unfolding StateAction_GetData_def l row_list_devices [OF assms(1)] by simp
    show "read_slot st' s = reading fl now (the (net_devices net (table_device t s)))" if "in_table 2 l s" for s
    proof -
      have "s \<in> set (row_list l (2 + l))" using that by (cases s) (simp_all add: set_row_list)
      then show ?thesis using st'(4) by blast
    qed
  qed (rule st'(2,3))+
qed

text \<open>The third leaf: its sample is written past the end of a row.\<close>

lemma third_leaf_overruns:
  assumes "tables_wired t net r 4" and "0 < r" and "state_sized st" and "dom (net_devices net) \<subseteq> dom (net_devices net')"
  shows "sample_slot fl now t (Leaf_Slot 0 2) (st, net') = Inl Undefined"
proof -
  have "in_table r 4 (Leaf_Slot 0 2)" using assms(2) by simp
  from table_device_ok [OF assms(1) this] assms(4) obtain d dev where
    d: "slot_device t (Leaf_Slot 0 2) = Inr d" "net_devices net' d = Some dev" by (auto simp: dom_def)
  have "set_drops (Leaf_Slot 0 2) v st = Inl Undefined" for v
    using assms(3) by (simp add: state_sized_def sized_def set2_def)
  with d show ?thesis by (simp add: sample_slot_def del: set_drops.simps slot_device.simps)
qed

lemma dom_all_sampled [simp]: "dom (net_devices (all_sampled now ds net)) = dom (net_devices net)"
  by (auto simp: all_sampled_def split: if_splits)

lemma length_sized: "sized r c m \<Longrightarrow> length (concat m) = r * c"
proof -
  assume "sized r c m"
  then have "map length m = replicate r c" by (intro nth_equalityI) (simp_all add: sized_def)
  then show ?thesis by (simp add: length_concat sum_list_replicate)
qed

lemma length_sized_8: "sized 2 4 m \<Longrightarrow> length (concat m) = 8" "sized 4 2 m \<Longrightarrow> length (concat m) = 8"
  by (simp_all add: length_sized [of 2 4] length_sized [of 4 2])

lemma state_sized_lengths:
  assumes "state_sized st"
  shows "length (concat (m_q_drops_spines st)) = 8" "length (concat (m_q_drops_leaves st)) = 8"
    "length (concat (m_bandwidths_spines st)) = 8" "length (concat (m_bandwidths_leaves st)) = 8"
    "length (concat (m_q_size_spines st)) = 8" "length (concat (m_q_size_leaves st)) = 8"
    "length (concat (m_path_drops st)) = 8"
  using assms by (simp_all add: state_sized_def length_sized_8)

text \<open>Only the first leaf's router ever gets the agent's weights, and only the first two of them.\<close>

lemma apply_action_first_router:
  assumes "StateAction_ApplyNewAction gl actions routers = Inr routers'"
  shows "length actions = unat (gl_action_space gl) * unat (gl_leafCount gl)" and "length routers' = length routers"
    and "rl_weights (routers' ! 0) = take 2 actions" and "k \<noteq> 0 \<Longrightarrow> routers' ! k = routers ! k"
proof -
  from assms have a: "length actions mod unat (gl_action_space gl) = 0"
      "length actions div unat (gl_action_space gl) = unat (gl_leafCount gl)" "1 < length actions" "0 < length routers"
    by (simp_all add: StateAction_ApplyNewAction_def defined_if_def ns_assert_def split: if_splits)
  then show "length actions = unat (gl_action_space gl) * unat (gl_leafCount gl)"
    using div_mult_mod_eq [of "length actions" "unat (gl_action_space gl)"] by (simp add: mult.commute)
  from assms a obtain r where r: "RlRouting_resetStats (routers ! 0) = Inr r"
      "routers' = routers[0 := r\<lparr>rl_weights := [actions ! 0, actions ! 1]\<rparr>]"
    by (cases "RlRouting_resetStats (routers ! 0)")
       (auto simp: StateAction_ApplyNewAction_def defined_if_def ns_assert_def RlRouting_SetDistribution_def split: if_splits)
  have "take 2 actions = [actions ! 0, actions ! 1]" using a(3) by (cases actions; cases "tl actions") auto
  with r a(4) show "length routers' = length routers" "rl_weights (routers' ! 0) = take 2 actions"
    "k \<noteq> 0 \<Longrightarrow> routers' ! k = routers ! k" by simp_all
qed

text \<open>With the list that the program installs at a leaf, the set-up finds the protocols it looks for.\<close>

lemma InitRLRouting_leaf_installed:
  "\<exists>r'. InitRLRouting_leaf half ip (leaf_protocols rs g r) = Inr r' \<and> rl_ipv4 r' = Some ip \<and>
    rl_weights r' = [half, half] \<and> length (rl_hostRoutes r') = length (rl_hostRoutes r) + length (m_hostRoutes g)"
  by (simp add: InitRLRouting_leaf_def leaf_protocols_def ListRouting_AddRoutingProtocol_def
      ListRouting_GetRoutingProtocol_def RlRouting_SetDistribution_def RlRouting_init_routes_def)

text \<open>Exact arithmetic on nanoseconds and bits per second, for the examples.\<close>

definition demo_float :: "nat float_ops" where
  "demo_float = \<lparr>fl_zero = 0, fl_busy_bits = (\<lambda>d bps. unat d * unat bps div 1000000000)\<rparr>"

section \<open>Properties\<close>

text \<open>
  C22. What the agent is shown is what the devices did. With two spines and at most two leaves,
  \<open>GetData\<close> returns; the entry \<open>(i, j)\<close> of each matrix holds the drops, the queue length and the busy bits of
  the device at that place of the topology's tables, as they were before the call. Every device of the
  tables has its busy time restarted and its count of dropped bytes cleared, each exactly once, and no
  other device changes. The count of dropped packets, which is the one that is shown, is not cleared: each
  call shows all the drops since the start.
\<close>

theorem get_data_exact:
  assumes "tables_wired t net 2 l" and "l \<le> 2" and "gl_spineCount gl = 2" and "gl_leafCount gl = of_nat l"
    and "state_sized st" and "l \<le> length routers"
  shows "\<exists>st' net'. StateAction_GetData gl fl now t routers (st, net) = Inr (st', net') \<and>
    (\<forall>i < 2. \<forall>j < l.
       read_slot st' (Spine_Slot i j) = reading fl now (the (net_devices net (p2pSpinesLeavesNetdevs t ! i ! j))) \<and>
       read_slot st' (Leaf_Slot i j) = reading fl now (the (net_devices net (p2pLeavesSpinesNetdevs t ! i ! j)))) \<and>
    (\<forall>d. net_devices net' d =
       (if d \<in> set (concat (p2pSpinesLeavesNetdevs t) @ concat (p2pLeavesSpinesNetdevs t))
        then map_option (sampled now) (net_devices net d) else net_devices net d)) \<and>
    m_path_drops st' = m_path_drops st"
proof -
  obtain st' where st': "StateAction_GetData gl fl now t routers (st, net) =
      Inr (st', all_sampled now (set (concat (p2pSpinesLeavesNetdevs t) @ concat (p2pLeavesSpinesNetdevs t))) net)"
    "state_sized st'" "m_path_drops st' = m_path_drops st"
    "\<And>s. in_table 2 l s \<Longrightarrow> read_slot st' s = reading fl now (the (net_devices net (table_device t s)))"
    by (rule GetData_ok [OF assms, of fl now]) blast
  have r: "read_slot st' (Spine_Slot i j) = reading fl now (the (net_devices net (p2pSpinesLeavesNetdevs t ! i ! j))) \<and>
      read_slot st' (Leaf_Slot i j) = reading fl now (the (net_devices net (p2pLeavesSpinesNetdevs t ! i ! j)))"
    if "i < 2" "j < l" for i j
    using st'(4) [of "Spine_Slot i j"] st'(4) [of "Leaf_Slot i j"] that by simp
  show ?thesis
    by (intro exI conjI, rule st'(1)) (simp_all add: all_sampled_def st'(3) r del: read_slot.simps)
qed

text \<open>A network of two spines and two leaves, just built.\<close>

theorem get_data_exact_witness:
  "\<exists>t net g st' net'. BuildTopology DropTailQueue_new 2 2 1 network_new Generator_Reset = Inr (t, net, g) \<and>
    StateAction_GetData (Globals\<lparr>gl_leafCount := 2\<rparr>) demo_float 5 t [RlRouting_new, RlRouting_new :: nat rl_routing]
      (StateAction_initial 0, net) = Inr (st', net') \<and>
    read_slot st' (Leaf_Slot 1 0) = reading demo_float 5 (the (net_devices net (p2pLeavesSpinesNetdevs t ! 1 ! 0)))"
proof -
  obtain t net g where t: "BuildTopology DropTailQueue_new 2 2 1 network_new Generator_Reset = Inr (t, net, g)"
    "tables_wired t net 2 2" using BuildTopology_wired [of 1 2 2 DropTailQueue_new] by auto
  have gl: "gl_spineCount (Globals\<lparr>gl_leafCount := 2\<rparr>) = 2" "gl_leafCount (Globals\<lparr>gl_leafCount := 2\<rparr>) = of_nat 2"
    by (simp_all add: Globals_def)
  have "2 \<le> length [RlRouting_new, RlRouting_new :: nat rl_routing]" by simp
  from get_data_exact [OF t(2) order_refl gl initial_sized this, of demo_float 5 0] obtain st' net' where
    "StateAction_GetData (Globals\<lparr>gl_leafCount := 2\<rparr>) demo_float 5 t [RlRouting_new, RlRouting_new :: nat rl_routing]
      (StateAction_initial 0, net) = Inr (st', net')"
    and r: "\<forall>i < 2. \<forall>j < 2.
       read_slot st' (Spine_Slot i j) = reading demo_float 5 (the (net_devices net (p2pSpinesLeavesNetdevs t ! i ! j))) \<and>
       read_slot st' (Leaf_Slot i j) = reading demo_float 5 (the (net_devices net (p2pLeavesSpinesNetdevs t ! i ! j)))"
    by blast
  moreover have "read_slot st' (Leaf_Slot 1 0) = reading demo_float 5 (the (net_devices net (p2pLeavesSpinesNetdevs t ! 1 ! 0)))"
    using r by (metis one_less_numeral_iff semiring_norm(76) zero_less_numeral)
  ultimately show ?thesis using t(1) by (intro exI conjI)
qed

text \<open>
  C23. With the default configuration, two spines and four leaves, the first call of \<open>GetData\<close> is
  undefined behaviour: the sample of the third leaf goes to column 2 of a matrix that has one row
  for each leaf and two columns.
\<close>

theorem default_configuration_overruns:
  assumes "tables_wired t net 2 4" and "state_sized st"
  shows "StateAction_GetData Globals fl now t routers (st, net) = Inl Undefined"
proof -
  have g: "gl_spineCount Globals = 2" "gl_leafCount Globals = of_nat 4" "unat (gl_leafCount Globals) = 4"
    "unat (gl_spineCount Globals + gl_leafCount Globals) = 6" by (simp_all add: Globals_def)
  obtain st' where st': "fold_res (GetData_row Globals fl now t) [0 ..< 4] (st, net) =
      Inr (st', all_sampled now (table_device t ` set (row_list 4 4)) net)" "state_sized st'"
    using GetData_rows_ok [OF assms(1) g(1,2) order_refl order_refl _ assms(2), of fl now] by auto
  have "GetData_row Globals fl now t 4 (st', all_sampled now (table_device t ` set (row_list 4 4)) net) = Inl Undefined"
    using third_leaf_overruns [OF assms(1) _ st'(2), of "all_sampled now (table_device t ` set (row_list 4 4)) net"]
    by (simp add: GetData_row_slots [OF g(1)] row_slots_def upt_rec)
  moreover have "[0 ..< 6] = [0 ..< 4] @ [4 :: nat, 5]" by (simp add: upt_rec)
  ultimately show ?thesis
    unfolding StateAction_GetData_def g(4) using st'(1) by (simp add: fold_res_append)
qed

text \<open>The network of the default configuration, just built.\<close>

theorem default_configuration_overruns_witness:
  "\<exists>t net g. BuildTopology DropTailQueue_new 2 4 1 network_new Generator_Reset = Inr (t, net, g) \<and>
    StateAction_GetData Globals demo_float 5 t (replicate 4 (RlRouting_new :: nat rl_routing)) (StateAction_initial 0, net) =
      Inl Undefined"
proof -
  obtain t net g where t: "BuildTopology DropTailQueue_new 2 4 1 network_new Generator_Reset = Inr (t, net, g)"
    "tables_wired t net 2 4" using BuildTopology_wired [of 1 4 2 DropTailQueue_new] by auto
  show ?thesis by (intro exI conjI, rule t(1), rule default_configuration_overruns [OF t(2) initial_sized])
qed

text \<open>
  A lost packet is counted on its path. When a queue drops a frame that carries an IPv4 packet
  tagged at leaf \<open>j\<close> (node \<open>spineCount + j\<close>) for interface \<open>i + 1\<close>, the trace adds one to the entry for spine \<open>i\<close>
  and leaf \<open>j\<close> and changes nothing else.
\<close>

theorem path_drop_counted:
  assumes "sized (unat (gl_spineCount gl)) (unat (gl_leafCount gl)) (m_path_drops st)"
    and "i < unat (gl_spineCount gl)" and "j < unat (gl_leafCount gl)"
    and "gl_spineCount gl + of_nat j \<noteq> 99999"
    and "pk_tags p = (MY_TAG, MyTag_Serialize \<lparr>t_leaf_id = gl_spineCount gl + of_nat j, t_interface = of_nat (i + 1)\<rparr>) # tags"
    and "h_fragmentOffset h AND 7 = 0" and "\<not> bit (h_flags h) 2" and "Ipv4Header_Serialize h = Inr hb"
    and "pk_bytes p = PppHeader_Serialize proto @ hb @ payload"
  shows "\<exists>st'. StateAction_TraceP2PDevQueueDrop gl p st = Inr st' \<and> st' = st\<lparr>m_path_drops := m_path_drops st'\<rparr> \<and>
    (\<forall>a b. m_path_drops st' ! a ! b = (if a = i \<and> b = j then m_path_drops st ! i ! j + 1 else m_path_drops st ! a ! b))"
proof -
  let ?tag = "\<lparr>t_leaf_id = gl_spineCount gl + of_nat j, t_interface = of_nat (i + 1)\<rparr>"
  obtain c where "Ipv4Header_Serialize h = Inr (wire_bytes h c)" by (rule Serialize_wireE [of h])
  with assms(8) have hb: "hb = wire_bytes h c" by simp
  have tag: "PacketTagList_Peek MY_TAG MyTag_Deserialize p = Inr (Some ?tag)"
    by (simp add: PacketTagList_Peek_def assms(5) MyTag_round_trip)
  have ppp: "Packet_RemoveHeader PppHeader_Deserialize (Packet_Copy p) = Inr (proto, p\<lparr>pk_bytes := hb @ payload\<rparr>)"
    by (simp add: Packet_RemoveHeader_def Packet_Copy_def assms(9) PppHeader_Serialize_def PppHeader_Deserialize_def
        PppHeader_GetSerializedSize_def)
  have ip: "Packet_RemoveHeader (Ipv4Header_Deserialize Ipv4Header_new) (p\<lparr>pk_bytes := hb @ payload\<rparr>) =
      Inr (read_fields Ipv4Header_new h c, p\<lparr>pk_bytes := payload\<rparr>)"
    using Deserialize_wire [OF assms(6,7) refl, of Ipv4Header_new c payload]
    by (simp add: Packet_RemoveHeader_def hb Ipv4Header_new_def)
  have "i < 2 ^ 32" by (rule less_trans [OF assms(2)]) (use unsigned_less [of "gl_spineCount gl"] in simp)
  moreover have "j < 2 ^ 32" by (rule less_trans [OF assms(3)]) (use unsigned_less [of "gl_leafCount gl"] in simp)
  ultimately have i: "unat (of_nat (i + 1) - 1 :: u32) = i" and j: "unat (of_nat j :: u32) = j"
    by (simp_all add: unsigned_of_nat take_bit_nat_eq_self)
  let ?v = "m_path_drops st ! i ! j"
  have r: "StateAction_TraceP2PDevQueueDrop gl p st =
      Inr (st\<lparr>m_path_drops := (m_path_drops st)[i := (m_path_drops st ! i)[j := ?v + 1]]\<rparr>)"
    using assms(1-4) i j set2_sized [OF assms(1-3)]
    by (simp add: StateAction_TraceP2PDevQueueDrop_def tag ppp ip Let_def at2_def sized_def)
  show ?thesis by (intro exI conjI allI, rule r) (simp_all add: nth_sized_update [OF assms(1-3)])
qed

text \<open>A frame tagged at the last leaf, node 5, for its interface to the second spine.\<close>

theorem path_drop_counted_witness:
  "\<exists>hb st'. Ipv4Header_Serialize Ipv4Header_new = Inr hb \<and>
    StateAction_TraceP2PDevQueueDrop Globals
      \<lparr>pk_uid = 7, pk_tags = [(MY_TAG, MyTag_Serialize \<lparr>t_leaf_id = 5, t_interface = 2\<rparr>)],
       pk_bytes = PppHeader_Serialize 0x21 @ hb @ [1, 2, 3]\<rparr> (StateAction_initial (0 :: nat)) = Inr st' \<and>
    m_path_drops st' ! 1 ! 3 = 1 \<and> m_path_drops st' ! 1 ! 2 = 0 \<and> m_path_drops st' ! 0 ! 3 = 0"
proof -
  obtain c where hb: "Ipv4Header_Serialize Ipv4Header_new = Inr (wire_bytes Ipv4Header_new c)"
    by (rule Serialize_wireE [of Ipv4Header_new])
  let ?p = "\<lparr>pk_uid = 7, pk_tags = [(MY_TAG, MyTag_Serialize \<lparr>t_leaf_id = 5, t_interface = 2\<rparr>)],
    pk_bytes = PppHeader_Serialize 0x21 @ wire_bytes Ipv4Header_new c @ [1, 2, 3]\<rparr>"
  let ?s = "StateAction_initial 0 :: nat state_action"
  have "\<exists>st'. StateAction_TraceP2PDevQueueDrop Globals ?p ?s = Inr st' \<and> st' = ?s\<lparr>m_path_drops := m_path_drops st'\<rparr> \<and>
    (\<forall>a b. m_path_drops st' ! a ! b = (if a = 1 \<and> b = 3 then m_path_drops ?s ! 1 ! 3 + 1 else m_path_drops ?s ! a ! b))"
  proof (rule path_drop_counted [where h = Ipv4Header_new and tags = "[]" and proto = "0x21", OF _ _ _ _ _ _ _ hb])
    show "sized (unat (gl_spineCount Globals)) (unat (gl_leafCount Globals)) (m_path_drops ?s)"
      using initial_sized [of "0 :: nat"] by (simp add: state_sized_def Globals_def)
  qed (simp_all add: Globals_def Ipv4Header_new_def)
  then show ?thesis using hb by (auto simp: StateAction_initial_def Globals_def Let_def)
qed

text \<open>
  The observation of \<open>DataCenterEnv\<close>. With two spines and at most two leaves it always has 56
  numbers, while the space announced to the agent has \<open>14\<close> for each leaf; the last eight are the
  drops on the paths, which are not reset afterwards: each observation repeats the drops of all
  the steps before.
\<close>

theorem observation_repeats_drops:
  assumes "tables_wired t net 2 l" and "l \<le> 2" and "gl_spineCount gl = 2" and "gl_leafCount gl = of_nat l"
    and "state_sized st" and "l \<le> length routers"
  shows "\<exists>obs st' net'. Env_GetObservation gl fl now t routers (st, net) = Inr (obs, st', net') \<and>
    length obs = 56 \<and> unat (Env_ObservationSize gl) = 14 * l \<and>
    drop 48 obs = map Count (concat (m_path_drops st)) \<and> m_path_drops st' = m_path_drops st"
proof -
  obtain st' where st': "StateAction_GetData gl fl now t routers (st, net) =
      Inr (st', all_sampled now (set (concat (p2pSpinesLeavesNetdevs t) @ concat (p2pLeavesSpinesNetdevs t))) net)"
    "state_sized st'" "m_path_drops st' = m_path_drops st"
    by (rule GetData_ok [OF assms, of fl now]) blast
  have "l = 0 \<or> l = 1 \<or> l = 2" using assms(2) by auto
  then have "unat (Env_ObservationSize gl) = 14 * l" using assms(3,4) by (auto simp: Env_ObservationSize_def)
  moreover have obs: "Env_GetObservation gl fl now t routers (st, net) =
      Inr (observation st', st', all_sampled now (set (concat (p2pSpinesLeavesNetdevs t) @ concat (p2pLeavesSpinesNetdevs t))) net)"
    by (simp add: Env_GetObservation_def st'(1))
  moreover have "length (observation st') = 56" "drop 48 (observation st') = map Count (concat (m_path_drops st))"
    using st'(3) state_sized_lengths [OF st'(2)] by (simp_all add: observation_def)
  ultimately show ?thesis using st'(3) by blast
qed

text \<open>Two spines and two leaves: 28 numbers are announced and 56 are sent.\<close>

theorem observation_repeats_drops_witness:
  "\<exists>t net g obs st' net'. BuildTopology DropTailQueue_new 2 2 1 network_new Generator_Reset = Inr (t, net, g) \<and>
    Env_GetObservation (Globals\<lparr>gl_leafCount := 2\<rparr>) demo_float 5 t [RlRouting_new, RlRouting_new :: nat rl_routing]
      (StateAction_initial 0\<lparr>m_path_drops := [[0, 0, 0, 0], [0, 3, 0, 0]]\<rparr>, net) = Inr (obs, st', net') \<and>
    length obs = 56 \<and> unat (Env_ObservationSize (Globals\<lparr>gl_leafCount := 2\<rparr>)) = 28 \<and>
    m_path_drops st' = [[0, 0, 0, 0], [0, 3, 0, 0]]"
proof -
  let ?s = "StateAction_initial 0\<lparr>m_path_drops := [[0, 0, 0, 0], [0, 3, 0, 0]]\<rparr> :: nat state_action"
  obtain t net g where t: "BuildTopology DropTailQueue_new 2 2 1 network_new Generator_Reset = Inr (t, net, g)"
    "tables_wired t net 2 2" using BuildTopology_wired [of 1 2 2 DropTailQueue_new] by auto
  have gl: "gl_spineCount (Globals\<lparr>gl_leafCount := 2\<rparr>) = 2" "gl_leafCount (Globals\<lparr>gl_leafCount := 2\<rparr>) = of_nat 2"
    by (simp_all add: Globals_def)
  have s: "state_sized ?s"
    using initial_sized [of "0 :: nat"] by (auto simp: state_sized_def sized_def less_2_cases_iff)
  have "2 \<le> length [RlRouting_new, RlRouting_new :: nat rl_routing]" by simp
  from observation_repeats_drops [OF t(2) order_refl gl s this, of demo_float 5] t(1) show ?thesis by auto
qed

end
