(* ===== verification/Udp_Header.thy ===== *)
theory Udp_Header
  imports Ipv4_Header
begin

text \<open>
  The UDP header, \<open>src/internet/model/udp-header.{h,cc}\<close>: ports, length and the checksum over the header,
  the payload and the pseudo header of the IP addresses. The addresses that \<open>InitializeChecksum\<close> sets
  are IPv4 addresses here.
\<close>

section \<open>The header\<close>

text \<open>
  The addresses and the protocol number are set together, by \<open>InitializeChecksum\<close>; before that the two
  addresses are of no type.
\<close>

record udp_header =
  u_sourcePort :: u16
  u_destinationPort :: u16
  u_payloadSize :: u16
  u_pseudo :: "(ipv4 \<times> ipv4 \<times> u8) option"
  u_checksum :: u16
  u_calcChecksum :: bool
  u_goodChecksum :: bool

definition UdpHeader_new :: udp_header where
  "UdpHeader_new =
     \<lparr>u_sourcePort = 0xfffd, u_destinationPort = 0xfffd, u_payloadSize = 0, u_pseudo = None, u_checksum = 0,
      u_calcChecksum = False, u_goodChecksum = True\<rparr>"

definition UdpHeader_EnableChecksums :: "udp_header \<Rightarrow> udp_header" where
  "UdpHeader_EnableChecksums h = h\<lparr>u_calcChecksum := True\<rparr>"

definition UdpHeader_SetDestinationPort :: "u16 \<Rightarrow> udp_header \<Rightarrow> udp_header" where
  "UdpHeader_SetDestinationPort port h = h\<lparr>u_destinationPort := port\<rparr>"

definition UdpHeader_SetSourcePort :: "u16 \<Rightarrow> udp_header \<Rightarrow> udp_header" where
  "UdpHeader_SetSourcePort port h = h\<lparr>u_sourcePort := port\<rparr>"

definition UdpHeader_InitializeChecksum :: "ipv4 \<Rightarrow> ipv4 \<Rightarrow> u8 \<Rightarrow> udp_header \<Rightarrow> udp_header" where
  "UdpHeader_InitializeChecksum source destination protocol h = h\<lparr>u_pseudo := Some (source, destination, protocol)\<rparr>"

definition UdpHeader_IsChecksumOk :: "udp_header \<Rightarrow> bool" where
  "UdpHeader_IsChecksumOk h \<longleftrightarrow> u_goodChecksum h"

definition UdpHeader_ForceChecksum :: "u16 \<Rightarrow> udp_header \<Rightarrow> udp_header" where
  "UdpHeader_ForceChecksum checksum h = h\<lparr>u_checksum := checksum\<rparr>"

definition UdpHeader_ForcePayloadSize :: "u16 \<Rightarrow> udp_header \<Rightarrow> udp_header" where
  "UdpHeader_ForcePayloadSize payloadSize h = h\<lparr>u_payloadSize := payloadSize\<rparr>"

definition UdpHeader_GetSerializedSize :: "udp_header \<Rightarrow> nat" where
  "UdpHeader_GetSerializedSize h = 8"

text \<open>
  \<open>CalculateHeaderChecksum\<close>: the sum over the pseudo header, not complemented. Addresses of no type
  write nothing, and then no byte is summed.
\<close>

definition UdpHeader_CalculateHeaderChecksum :: "u16 \<Rightarrow> udp_header \<Rightarrow> u16 res" where
  "UdpHeader_CalculateHeaderChecksum sz h =
     (case u_pseudo h of
        None \<Rightarrow> bind_res (CalculateIpChecksum 0 0 []) (\<lambda>c. Inr (NOT c))
      | Some (source, destination, protocol) \<Rightarrow>
          bind_res (CalculateIpChecksum 12 0
            (WriteHtonU32 source @ WriteHtonU32 destination @
             [0, protocol, ucast (drop_bit 8 sz), ucast (sz AND 0xff)])) (\<lambda>c. Inr (NOT c)))"

text \<open>
  \<open>Serialize\<close> writes the first eight bytes of the buffer; \<open>payload\<close> is what follows them, and the size of
  the buffer counts both. The size is passed on in 16 bits.
\<close>

definition UdpHeader_Serialize :: "udp_header \<Rightarrow> bytes \<Rightarrow> bytes res" where
  "UdpHeader_Serialize h payload =
     (let sz = of_nat (8 + length payload) :: u32;
          front = WriteHtonU16 (u_sourcePort h) @ WriteHtonU16 (u_destinationPort h) @
            WriteHtonU16 (if u_payloadSize h = 0 then ucast sz else u_payloadSize h)
      in if u_checksum h = 0 then
           if u_calcChecksum h then
             bind_res (UdpHeader_CalculateHeaderChecksum (ucast sz) h) (\<lambda>headerChecksum.
             bind_res (CalculateIpChecksum (ucast sz) (ucast headerChecksum) (front @ WriteU16 0 @ payload)) (\<lambda>checksum.
               Inr (front @ WriteU16 checksum)))
           else Inr (front @ WriteU16 0)
         else Inr (front @ WriteU16 (u_checksum h)))"

definition UdpHeader_Deserialize :: "udp_header \<Rightarrow> bytes \<Rightarrow> (udp_header \<times> nat) res" where
  "UdpHeader_Deserialize h start =
     bind_res (ReadNtohU16 start) (\<lambda>(sourcePort, i1).
     bind_res (ReadNtohU16 i1) (\<lambda>(destinationPort, i2).
     bind_res (ReadNtohU16 i2) (\<lambda>(len, i3).
     bind_res (ReadU16 i3) (\<lambda>(checksum, i4).
       let sz = of_nat (length start) :: u32;
           h1 = h\<lparr>u_sourcePort := sourcePort, u_destinationPort := destinationPort,
                  u_payloadSize := len - of_nat (UdpHeader_GetSerializedSize h), u_checksum := checksum\<rparr>
       in if u_calcChecksum h1 then
            bind_res (UdpHeader_CalculateHeaderChecksum (ucast sz) h1) (\<lambda>headerChecksum.
            bind_res (CalculateIpChecksum (ucast sz) (ucast headerChecksum) start) (\<lambda>c.
              let h2 = h1\<lparr>u_goodChecksum := (c = 0)\<rparr> in Inr (h2, UdpHeader_GetSerializedSize h2)))
          else Inr (h1, UdpHeader_GetSerializedSize h1)))))"

section \<open>The checksum of a datagram\<close>

text \<open>The sum over the pseudo header is defined and depends on the addresses, the protocol and the size only.\<close>

lemma header_checksum_total: "\<exists>c. UdpHeader_CalculateHeaderChecksum sz h = Inr c"
proof (cases "u_pseudo h")
  case None
  then show ?thesis using checksum_of_bytes [of 0 "[]"] by (auto simp: UdpHeader_CalculateHeaderChecksum_def)
next
  case (Some x)
  obtain s d p where x: "x = (s, d, p)" by (cases x)
  show ?thesis
    using checksum_of_bytes [of 12 "WriteHtonU32 s @ WriteHtonU32 d @ [0, p, ucast (drop_bit 8 sz), ucast (sz AND 0xff)]"]
    by (auto simp: UdpHeader_CalculateHeaderChecksum_def Some x)
qed

lemma header_checksum_cong:
  "u_pseudo h = u_pseudo h' \<Longrightarrow> UdpHeader_CalculateHeaderChecksum sz h = UdpHeader_CalculateHeaderChecksum sz h'"
  by (simp add: UdpHeader_CalculateHeaderChecksum_def)

definition udp_front :: "udp_header \<Rightarrow> nat \<Rightarrow> bytes" where
  "udp_front h n = WriteHtonU16 (u_sourcePort h) @ WriteHtonU16 (u_destinationPort h) @
     WriteHtonU16 (if u_payloadSize h = 0 then of_nat n else u_payloadSize h)"

lemma length_udp_front [simp]: "length (udp_front h n) = 6"
  by (simp add: udp_front_def)

lemma ucast_size: "ucast (of_nat n :: u32) = (of_nat n :: u16)"
  by (rule bit_word_eqI) (auto simp: bit_simps)

lemma unat_size_u16: "n < 65536 \<Longrightarrow> unat (of_nat n :: u16) = n"
  by (simp add: unsigned_of_nat take_bit_nat_eq_self)

lemma unat_init: "unat (ucast (c :: u16) :: u32) = unat c" "unat (ucast (c :: u16) :: u32) \<le> 65535"
  using unsigned_less [of c, where 'a = nat] by (simp_all add: unsigned_ucast_eq take_bit_nat_eq_self)

lemma words_sum_U16: "words_sum (WriteU16 c @ bs) = unat c + words_sum bs"
proof -
  have "unat (ucast c :: u8) + 256 * unat (ucast (drop_bit 8 c) :: u8) = unat c"
    using unat_le_word [where ?b0.0 = "ucast c" and ?b1.0 = "ucast (drop_bit 8 c)", unfolded join_u16]
    by (simp only: unat_init(1))
  then show ?thesis by (simp add: WriteU16_def)
qed

text \<open>What a receiver with checksums enabled accepts: the sum over pseudo header and bytes is a multiple of 65535.\<close>

definition udp_sum_ok :: "(ipv4 \<times> ipv4 \<times> u8) option \<Rightarrow> bytes \<Rightarrow> bool" where
  "udp_sum_ok pseudo bs \<longleftrightarrow>
     (\<exists>c. UdpHeader_CalculateHeaderChecksum (of_nat (length bs)) (UdpHeader_new\<lparr>u_pseudo := pseudo\<rparr>) = Inr c \<and>
       0 < unat c + words_sum bs \<and> (unat c + words_sum bs) mod 65535 = 0)"

lemma checksum_accepts:
  assumes "length bs < 65536"
  obtains c k where "UdpHeader_CalculateHeaderChecksum (of_nat (length bs)) h = Inr c"
    and "CalculateIpChecksum (of_nat (length bs)) (ucast c) bs = Inr k" and "k = 0 \<longleftrightarrow> udp_sum_ok (u_pseudo h) bs"
proof -
  have cong: "UdpHeader_CalculateHeaderChecksum (of_nat (length bs)) (UdpHeader_new\<lparr>u_pseudo := u_pseudo h\<rparr>) =
      UdpHeader_CalculateHeaderChecksum (of_nat (length bs)) h"
    by (rule header_checksum_cong) simp
  obtain c where c: "UdpHeader_CalculateHeaderChecksum (of_nat (length bs)) h = Inr c"
    using header_checksum_total by blast
  obtain k where "CalculateIpChecksum (of_nat (length bs)) (ucast c) bs = Inr k"
      "k = 0 \<longleftrightarrow> 0 < unat c + words_sum bs \<and> (unat c + words_sum bs) mod 65535 = 0"
    using checksum_from_zero_iff [of "of_nat (length bs)" bs "ucast c", unfolded unat_init(1) unat_size_u16 [OF assms] take_all [OF order_refl],
        OF order_refl unat_init(2) [of c, unfolded unat_init(1)]] by (elim exE conjE)
  with c show thesis using that by (simp add: udp_sum_ok_def cong)
qed

lemma Serialize_front:
  "UdpHeader_Serialize h payload =
     (if u_checksum h = 0 then
        if u_calcChecksum h then
          bind_res (UdpHeader_CalculateHeaderChecksum (of_nat (8 + length payload)) h) (\<lambda>P.
          bind_res (CalculateIpChecksum (of_nat (8 + length payload)) (ucast P)
              (udp_front h (8 + length payload) @ WriteU16 0 @ payload)) (\<lambda>c.
            Inr (udp_front h (8 + length payload) @ WriteU16 c)))
        else Inr (udp_front h (8 + length payload) @ WriteU16 0)
      else Inr (udp_front h (8 + length payload) @ WriteU16 (u_checksum h)))"
  unfolding UdpHeader_Serialize_def Let_def ucast_size udp_front_def append.assoc by (rule refl)

lemma Serialize_udp:
  assumes "u_checksum h = 0" and "8 + length payload < 65536"
  shows "\<exists>c. UdpHeader_Serialize h payload = Inr (udp_front h (8 + length payload) @ WriteU16 c) \<and>
    (u_calcChecksum h \<longrightarrow> udp_sum_ok (u_pseudo h) (udp_front h (8 + length payload) @ WriteU16 c @ payload))"
proof (cases "u_calcChecksum h")
  case True
  let ?n = "8 + length payload"
  let ?bs = "\<lambda>c. udp_front h ?n @ WriteU16 c @ payload"
  have len: "length (?bs c) = ?n" for c by simp
  have sum: "words_sum (?bs c) = words_sum (?bs 0) + unat c" for c
    by (simp add: words_sum_append words_sum_U16)
  have cong: "UdpHeader_CalculateHeaderChecksum (of_nat ?n) (UdpHeader_new\<lparr>u_pseudo := u_pseudo h\<rparr>) =
      UdpHeader_CalculateHeaderChecksum (of_nat ?n) h"
    by (rule header_checksum_cong) simp
  obtain P where P: "UdpHeader_CalculateHeaderChecksum (of_nat ?n) h = Inr P"
    using header_checksum_total by blast
  define W where "W = unat P + words_sum (?bs 0)"
  obtain c r where c: "CalculateIpChecksum (of_nat ?n) (ucast P) (?bs 0) = Inr c" "unat c = 65535 - r" "r < 65536"
      "r mod 65535 = W mod 65535" "r = 0 \<longleftrightarrow> W = 0"
    using checksum_from [of "of_nat ?n" "?bs 0" "ucast P"] unat_init [of P] unat_size_u16 [OF assms(2)] len [of 0]
    unfolding W_def by (metis order_refl take_all)
  have ser: "UdpHeader_Serialize h payload = Inr (udp_front h ?n @ WriteU16 c)"
    unfolding Serialize_front P bind_res.simps c(1) using True assms(1) by simp
  have w: "unat P + words_sum (?bs c) = W + (65535 - r)" by (simp only: sum [of c] W_def c(2) add.assoc)
  have "(W + (65535 - r)) mod 65535 = 0" by (rule complement_sum [OF c(4)]) (use c(3) in simp)
  then have m: "(unat P + words_sum (?bs c)) mod 65535 = 0" by (simp only: w)
  have "0 < W + (65535 - r)" using c(5) by (cases "r = 0") simp_all
  then have pos: "0 < unat P + words_sum (?bs c)" by (simp only: w)
  have "udp_sum_ok (u_pseudo h) (?bs c)"
    unfolding udp_sum_ok_def len cong by (intro exI [of _ P] conjI P pos m)
  with ser show ?thesis by blast
qed (use assms(1) in \<open>auto simp: Serialize_front\<close>)

text \<open>Any eight bytes are read as a header.\<close>

definition udp_read :: "udp_header \<Rightarrow> bytes \<Rightarrow> udp_header" where
  "udp_read h bs =
     h\<lparr>u_sourcePort := push_bit 8 (ucast (bs ! 0)) OR ucast (bs ! 1), u_destinationPort := push_bit 8 (ucast (bs ! 2)) OR ucast (bs ! 3),
       u_payloadSize := (push_bit 8 (ucast (bs ! 4)) OR ucast (bs ! 5)) - 8, u_checksum := push_bit 8 (ucast (bs ! 7)) OR ucast (bs ! 6),
       u_goodChecksum := (if u_calcChecksum h then udp_sum_ok (u_pseudo h) bs else u_goodChecksum h)\<rparr>"

lemma Deserialize_udp:
  assumes "8 \<le> length bs" and "length bs < 65536"
  shows "UdpHeader_Deserialize h bs = Inr (udp_read h bs, 8)"
proof -
  let ?h = "h\<lparr>u_sourcePort := push_bit 8 (ucast (bs ! 0)) OR ucast (bs ! 1), u_destinationPort := push_bit 8 (ucast (bs ! 2)) OR ucast (bs ! 3),
       u_payloadSize := (push_bit 8 (ucast (bs ! 4)) OR ucast (bs ! 5)) - 8, u_checksum := push_bit 8 (ucast (bs ! 7)) OR ucast (bs ! 6)\<rparr>"
  have ps: "u_pseudo ?h = u_pseudo h" by simp
  obtain c k where c: "UdpHeader_CalculateHeaderChecksum (of_nat (length bs)) ?h = Inr c"
      "CalculateIpChecksum (of_nat (length bs)) (ucast c) bs = Inr k" "k = 0 \<longleftrightarrow> udp_sum_ok (u_pseudo h) bs"
    by (rule checksum_accepts [OF assms(2), of ?h, unfolded ps])
  have rd: "ReadNtohU16 bs = Inr (push_bit 8 (ucast (bs ! 0)) OR ucast (bs ! 1), drop 2 bs)"
    "ReadNtohU16 (drop 2 bs) = Inr (push_bit 8 (ucast (bs ! 2)) OR ucast (bs ! 3), drop 4 bs)"
    "ReadNtohU16 (drop 4 bs) = Inr (push_bit 8 (ucast (bs ! 4)) OR ucast (bs ! 5), drop 6 bs)"
    "ReadU16 (drop 6 bs) = Inr (push_bit 8 (ucast (bs ! 7)) OR ucast (bs ! 6), drop 8 bs)"
    using assms(1) by (simp_all add: ReadNtohU16_def ReadU16_def Cons_nth_drop_Suc [symmetric])
  show ?thesis
    unfolding UdpHeader_Deserialize_def rd bind_res.simps prod.case Let_def ucast_size
    using c by (simp add: UdpHeader_GetSerializedSize_def udp_read_def)
qed

text \<open>The front of a serialized header is read back.\<close>

lemma udp_read_front:
  "udp_read h0 (udp_front h n @ WriteU16 c @ payload) =
     h0\<lparr>u_sourcePort := u_sourcePort h, u_destinationPort := u_destinationPort h,
        u_payloadSize := (if u_payloadSize h = 0 then of_nat n else u_payloadSize h) - 8, u_checksum := c,
        u_goodChecksum := (if u_calcChecksum h0 then udp_sum_ok (u_pseudo h0) (udp_front h n @ WriteU16 c @ payload)
          else u_goodChecksum h0)\<rparr>"
  by (simp add: udp_read_def) (simp add: udp_front_def WriteHtonU16_def WriteU16_def join_u16)

text \<open>One changed byte spoils the sum: the pseudo header counts as one word in front.\<close>

lemma udp_sum_corrupted:
  assumes "udp_sum_ok pseudo bs" and "i < length bs" and "b \<noteq> bs ! i"
  shows "\<not> udp_sum_ok pseudo (bs[i := b])"
proof
  assume bad: "udp_sum_ok pseudo (bs[i := b])"
  from assms(1) obtain c where c: "UdpHeader_CalculateHeaderChecksum (of_nat (length bs)) (UdpHeader_new\<lparr>u_pseudo := pseudo\<rparr>) = Inr c"
      "(unat c + words_sum bs) mod 65535 = 0" by (auto simp: udp_sum_ok_def)
  from bad c(1) have z: "(unat c + words_sum (bs[i := b])) mod 65535 = 0" by (auto simp: udp_sum_ok_def)
  have u: "WriteU16 c @ bs[i := b] = (WriteU16 c @ bs)[i + 2 := b]" by (simp add: list_update_append)
  have "words_sum ((WriteU16 c @ bs)[i + 2 := b]) mod 65535 \<noteq> 0"
    by (rule corrupted_sum) (use assms(2,3) c(2) in \<open>simp_all add: words_sum_U16 nth_append\<close>)
  with z show False unfolding u [symmetric] words_sum_U16 by blast
qed

section \<open>Properties\<close>

text \<open>
  C32. A UDP datagram is read back intact or rejected. The eight bytes that \<open>Serialize\<close> writes in front of
  a payload that fits a datagram, with checksums enabled, are read by a receiver that expects the same
  addresses as the same ports and the length of the payload, with a correct checksum. If any one byte of
  the datagram, header or payload, is changed on the way, the receiver finds the checksum wrong.
\<close>

theorem udp_datagram_intact:
  assumes "u_checksum h = 0" and "u_payloadSize h = 0" and "u_calcChecksum h" and "8 + length payload < 65536"
    and "u_calcChecksum h0" and "u_pseudo h0 = u_pseudo h"
  shows "\<exists>hd. UdpHeader_Serialize h payload = Inr hd \<and> length hd = 8 \<and>
    (\<exists>h'. UdpHeader_Deserialize h0 (hd @ payload) = Inr (h', 8) \<and> u_sourcePort h' = u_sourcePort h \<and>
      u_destinationPort h' = u_destinationPort h \<and> u_payloadSize h' = of_nat (length payload) \<and> UdpHeader_IsChecksumOk h') \<and>
    (\<forall>i b. i < 8 + length payload \<and> b \<noteq> (hd @ payload) ! i \<longrightarrow>
      (\<exists>h'. UdpHeader_Deserialize h0 ((hd @ payload)[i := b]) = Inr (h', 8) \<and> \<not> UdpHeader_IsChecksumOk h'))"
proof -
  let ?n = "8 + length payload"
  obtain c where c: "UdpHeader_Serialize h payload = Inr (udp_front h ?n @ WriteU16 c)"
      "udp_sum_ok (u_pseudo h) (udp_front h ?n @ WriteU16 c @ payload)"
    using Serialize_udp [OF assms(1,4)] assms(3) by auto
  let ?bs = "udp_front h ?n @ WriteU16 c @ payload"
  have len: "length ?bs = ?n" by simp
  have good: "UdpHeader_Deserialize h0 ?bs = Inr (udp_read h0 ?bs, 8)"
    by (rule Deserialize_udp) (use assms(4) len in simp_all)
  have bad: "UdpHeader_Deserialize h0 (?bs[i := b]) = Inr (udp_read h0 (?bs[i := b]), 8)" for i b
    by (rule Deserialize_udp) (use assms(4) len in simp_all)
  have "\<not> UdpHeader_IsChecksumOk (udp_read h0 (?bs[i := b]))" if "i < ?n \<and> b \<noteq> ?bs ! i" for i b
    using udp_sum_corrupted [OF c(2), of i b] that len assms(5,6) by (simp add: udp_read_def UdpHeader_IsChecksumOk_def)
  with c good bad show ?thesis
    using assms(2,5,6) by (intro exI [of _ "udp_front h ?n @ WriteU16 c"] conjI)
      (auto simp: udp_read_front UdpHeader_IsChecksumOk_def)
qed

text \<open>Port 49153 to port 9, three bytes.\<close>

definition demo_udp_header :: udp_header where
  "demo_udp_header = UdpHeader_SetSourcePort 49153 (UdpHeader_SetDestinationPort 9
     (UdpHeader_InitializeChecksum 0x0a010001 0x0a010102 17 (UdpHeader_EnableChecksums UdpHeader_new)))"

lemma demo_udp_header_simps:
  "u_checksum demo_udp_header = 0" "u_payloadSize demo_udp_header = 0" "u_calcChecksum demo_udp_header"
  "u_destinationPort demo_udp_header = 9"
  by (simp_all add: demo_udp_header_def UdpHeader_SetSourcePort_def UdpHeader_SetDestinationPort_def
      UdpHeader_InitializeChecksum_def UdpHeader_EnableChecksums_def UdpHeader_new_def)

theorem udp_datagram_intact_witness:
  "\<exists>hd h'. UdpHeader_Serialize demo_udp_header [1, 2, 3] = Inr hd \<and>
    UdpHeader_Deserialize demo_udp_header (hd @ [1, 2, 3]) = Inr (h', 8) \<and> u_destinationPort h' = 9 \<and>
    u_payloadSize h' = 3 \<and> UdpHeader_IsChecksumOk h' \<and>
    (\<exists>h''. UdpHeader_Deserialize demo_udp_header ((hd @ [1, 2, 3])[9 := 5]) = Inr (h'', 8) \<and> \<not> UdpHeader_IsChecksumOk h'')"
proof -
  obtain hd h' where w: "UdpHeader_Serialize demo_udp_header [1, 2, 3] = Inr hd" "length hd = 8"
      "UdpHeader_Deserialize demo_udp_header (hd @ [1, 2, 3]) = Inr (h', 8)" "u_destinationPort h' = u_destinationPort demo_udp_header"
      "u_payloadSize h' = of_nat (length [1, 2, 3 :: u8])" "UdpHeader_IsChecksumOk h'"
      "\<forall>i b. i < 8 + length [1, 2, 3 :: u8] \<and> b \<noteq> (hd @ [1, 2, 3]) ! i \<longrightarrow>
        (\<exists>h'. UdpHeader_Deserialize demo_udp_header ((hd @ [1, 2, 3])[i := b]) = Inr (h', 8) \<and> \<not> UdpHeader_IsChecksumOk h')"
    using udp_datagram_intact [OF demo_udp_header_simps(1-3) _ demo_udp_header_simps(3) refl, of "[1, 2, 3]"] by fastforce
  have "\<exists>h''. UdpHeader_Deserialize demo_udp_header ((hd @ [1, 2, 3])[9 := 5]) = Inr (h'', 8) \<and> \<not> UdpHeader_IsChecksumOk h''"
    by (rule w(7) [rule_format]) (simp add: nth_append w(2))
  moreover have "u_destinationPort h' = 9" "u_payloadSize h' = 3" using w(4,5) by (simp_all add: demo_udp_header_simps(4))
  ultimately show ?thesis using w(1,3,6) by blast
qed

end
