(* ===== verification/Ipv4_Interface.thy ===== *)
theory Ipv4_Interface
  imports Rl_Routing Ipv4_Header
begin

text \<open>
  \<open>internet/model/ipv4-interface-address.cc\<close> and \<open>ipv4-interface.cc\<close>: the addresses of an interface, its
  state, and how it hands a datagram to the device below, through
  \<open>traffic-control/model/traffic-control-layer.cc\<close>. Also the one-byte packet tags that sockets use for
  the IP layer (\<open>network/model/socket.cc\<close>).
\<close>

section \<open>Packet tags of sockets\<close>

text \<open>\<open>PacketTagList::Remove\<close> reads the first tag of the type and takes it off the list.\<close>

definition PacketTagList_Remove :: "string \<Rightarrow> (bytes \<Rightarrow> 't res) \<Rightarrow> packet \<Rightarrow> ('t option \<times> packet) res" where
  "PacketTagList_Remove tid deserialize p =
     (case List.find (\<lambda>(t, d). t = tid) (pk_tags p) of
        None \<Rightarrow> Inr (None, p)
      | Some (t, d) \<Rightarrow>
          bind_res (deserialize d) (\<lambda>x. Inr (Some x, p\<lparr>pk_tags := remove1 (t, d) (pk_tags p)\<rparr>)))"

text \<open>The three tags hold one byte each.\<close>

definition IP_TTL_TAG :: string where "IP_TTL_TAG = ''ns3::SocketIpTtlTag''"
definition IP_TOS_TAG :: string where "IP_TOS_TAG = ''ns3::SocketIpTosTag''"
definition PRIORITY_TAG :: string where "PRIORITY_TAG = ''ns3::SocketPriorityTag''"

definition SocketIpTtlTag_Deserialize :: "bytes \<Rightarrow> u8 res" where
  "SocketIpTtlTag_Deserialize bs = bind_res (ReadU8 bs) (\<lambda>(ttl, r). Inr ttl)"

definition SocketIpTosTag_Deserialize :: "bytes \<Rightarrow> u8 res" where
  "SocketIpTosTag_Deserialize bs = bind_res (ReadU8 bs) (\<lambda>(tos, r). Inr tos)"

definition SocketPriorityTag_Deserialize :: "bytes \<Rightarrow> u8 res" where
  "SocketPriorityTag_Deserialize bs = bind_res (ReadU8 bs) (\<lambda>(priority, r). Inr priority)"

definition SocketPriorityTag_Serialize :: "u8 \<Rightarrow> bytes" where
  "SocketPriorityTag_Serialize priority = [priority]"

definition IpTos2Priority :: "u8 \<Rightarrow> u8" where
  "IpTos2Priority ipTos =
     (let c = drop_bit 1 (ipTos AND 0x1e)
      in if c \<le> 3 then 0 else if c \<le> 7 then 2 else if c \<le> 11 then 6 else if c \<le> 15 then 4 else 0)"

section \<open>Addresses of an interface\<close>

datatype addr_scope = HOST | LINK | GLOBAL

text \<open>The scopes in the order of their declaration.\<close>

fun scope_value :: "addr_scope \<Rightarrow> nat" where
  "scope_value HOST = 0"
| "scope_value LINK = 1"
| "scope_value GLOBAL = 2"

instantiation addr_scope :: linorder
begin

definition less_eq_addr_scope :: "addr_scope \<Rightarrow> addr_scope \<Rightarrow> bool" where
  "less_eq_addr_scope a b \<longleftrightarrow> scope_value a \<le> scope_value b"

definition less_addr_scope :: "addr_scope \<Rightarrow> addr_scope \<Rightarrow> bool" where
  "less_addr_scope a b \<longleftrightarrow> scope_value a < scope_value b"

instance
proof
  fix a b :: addr_scope
  show "a \<le> b \<Longrightarrow> b \<le> a \<Longrightarrow> a = b" by (cases a; cases b) (simp_all add: less_eq_addr_scope_def)
qed (auto simp: less_eq_addr_scope_def less_addr_scope_def)

end

record iface_addr =
  ia_local :: ipv4
  ia_mask :: u32
  ia_broadcast :: ipv4
  ia_scope :: addr_scope
  ia_secondary :: bool

definition InterfaceAddress_new :: iface_addr where
  "InterfaceAddress_new =
     \<lparr>ia_local = 0x66666666, ia_mask = 0x66666666, ia_broadcast = 0x66666666, ia_scope = GLOBAL, ia_secondary = False\<rparr>"

definition InterfaceAddress_of :: "ipv4 \<Rightarrow> u32 \<Rightarrow> iface_addr" where
  "InterfaceAddress_of local msk =
     \<lparr>ia_local = local, ia_mask = msk, ia_broadcast = local OR NOT msk,
      ia_scope = (if local = 0x7f000001 then HOST else GLOBAL), ia_secondary = False\<rparr>"

definition InterfaceAddress_IsInSameSubnet :: "ipv4 \<Rightarrow> iface_addr \<Rightarrow> bool" where
  "InterfaceAddress_IsInSameSubnet b ia \<longleftrightarrow>
     Ipv4Address_CombineMask (ia_local ia) (ia_mask ia) = Ipv4Address_CombineMask b (ia_mask ia)"

definition InterfaceAddress_SetSecondary :: "iface_addr \<Rightarrow> iface_addr" where
  "InterfaceAddress_SetSecondary ia = ia\<lparr>ia_secondary := True\<rparr>"

definition InterfaceAddress_SetPrimary :: "iface_addr \<Rightarrow> iface_addr" where
  "InterfaceAddress_SetPrimary ia = ia\<lparr>ia_secondary := False\<rparr>"

section \<open>The device below\<close>

text \<open>
  What the interface asks a device: the size of its largest frame, whether addresses need to be
  resolved, whether it is the loopback device, and its broadcast and multicast addresses. A frame that
  is handed down is an effect, with the protocol number 0x0800.
\<close>

record net_device =
  dv_mtu :: u16
  dv_needsArp :: bool
  dv_loopback :: bool
  dv_multicast :: bool
  dv_broadcast :: bytes
  dv_GetMulticast :: "ipv4 \<Rightarrow> bytes"

datatype net_effect =
    DeviceSend nat packet bytes u16
  | TcReceive nat packet
  | TcDropped packet
  | QdiscEnqueue nat nat packet ipv4_header bytes

definition IPV4_PROT_NUMBER :: u16 where "IPV4_PROT_NUMBER = 0x0800"

text \<open>
  What the traffic control layer knows of a device: whether each of its transmission queues is
  stopped, if it has an interface to them, and whether a queue disc is attached.
\<close>

record tc_device =
  tcd_queues :: "bool list option"
  tcd_root :: bool

definition TrafficControl_Send ::
  "(packet \<Rightarrow> nat) \<Rightarrow> (nat \<rightharpoonup> tc_device) \<Rightarrow> nat \<Rightarrow> packet \<Rightarrow> ipv4_header \<Rightarrow> bytes \<Rightarrow> net_effect list res" where
  "TrafficControl_Send SelectQueue tc device p hdr addr =
     (let devQueueIface = (case tc device of None \<Rightarrow> None | Some d \<Rightarrow> tcd_queues d);
          txq = (case devQueueIface of None \<Rightarrow> 0 | Some qs \<Rightarrow> if length qs > 1 then SelectQueue p else 0)
      in ns_assert (case devQueueIface of None \<Rightarrow> True | Some qs \<Rightarrow> txq < length qs)
          (if (case tc device of None \<Rightarrow> True | Some d \<Rightarrow> \<not> tcd_root d) then
             bind_res (Ipv4Header_Serialize hdr) (\<lambda>bs.
               let p1 = Packet_AddHeader bs p in
               if (case devQueueIface of None \<Rightarrow> True | Some qs \<Rightarrow> \<not> qs ! txq) then
                 bind_res (if (case devQueueIface of None \<Rightarrow> True | Some qs \<Rightarrow> length qs = 1)
                           then PacketTagList_Remove PRIORITY_TAG SocketPriorityTag_Deserialize p1
                           else Inr (None, p1)) (\<lambda>(tag, p2).
                   Inr [DeviceSend device p2 addr IPV4_PROT_NUMBER])
               else Inr [TcDropped p1])
           else Inr [QdiscEnqueue device txq p hdr addr]))"

section \<open>The interface\<close>

record ipv4_interface =
  if_up :: bool
  if_forwarding :: bool
  if_metric :: u16
  if_node :: nat
  if_device :: nat
  if_tc :: bool
  if_cache :: nat
  if_addrs :: "iface_addr list"

definition Interface_new :: ipv4_interface where
  "Interface_new =
     \<lparr>if_up = False, if_forwarding = True, if_metric = 1, if_node = 0, if_device = 0, if_tc = False, if_cache = 0,
      if_addrs = []\<rparr>"

text \<open>\<open>CreateCache\<close> is the address of the cache that the resolution protocol of the node creates.\<close>

definition Interface_DoSetup :: "(nat \<Rightarrow> nat) \<Rightarrow> (nat \<Rightarrow> net_device) \<Rightarrow> ipv4_interface \<Rightarrow> ipv4_interface" where
  "Interface_DoSetup CreateCache dev i =
     (if if_node i = 0 \<or> if_device i = 0 then i
      else if \<not> dv_needsArp (dev (if_device i)) then i
      else i\<lparr>if_cache := CreateCache (if_device i)\<rparr>)"

definition Interface_SetNode :: "(nat \<Rightarrow> nat) \<Rightarrow> (nat \<Rightarrow> net_device) \<Rightarrow> nat \<Rightarrow> ipv4_interface \<Rightarrow> ipv4_interface" where
  "Interface_SetNode CreateCache dev node i = Interface_DoSetup CreateCache dev (i\<lparr>if_node := node\<rparr>)"

definition Interface_SetDevice :: "(nat \<Rightarrow> nat) \<Rightarrow> (nat \<Rightarrow> net_device) \<Rightarrow> nat \<Rightarrow> ipv4_interface \<Rightarrow> ipv4_interface" where
  "Interface_SetDevice CreateCache dev device i = Interface_DoSetup CreateCache dev (i\<lparr>if_device := device\<rparr>)"

definition Interface_SetTrafficControl :: "bool \<Rightarrow> ipv4_interface \<Rightarrow> ipv4_interface" where
  "Interface_SetTrafficControl t i = i\<lparr>if_tc := t\<rparr>"

definition Interface_SetMetric :: "u16 \<Rightarrow> ipv4_interface \<Rightarrow> ipv4_interface" where
  "Interface_SetMetric metric i = i\<lparr>if_metric := metric\<rparr>"

definition Interface_SetUp :: "ipv4_interface \<Rightarrow> ipv4_interface" where
  "Interface_SetUp i = i\<lparr>if_up := True\<rparr>"

definition Interface_SetDown :: "ipv4_interface \<Rightarrow> ipv4_interface" where
  "Interface_SetDown i = i\<lparr>if_up := False\<rparr>"

definition Interface_SetForwarding :: "bool \<Rightarrow> ipv4_interface \<Rightarrow> ipv4_interface" where
  "Interface_SetForwarding val i = i\<lparr>if_forwarding := val\<rparr>"

definition Interface_AddAddress :: "iface_addr \<Rightarrow> ipv4_interface \<Rightarrow> bool \<times> ipv4_interface" where
  "Interface_AddAddress addr i = (True, i\<lparr>if_addrs := if_addrs i @ [addr]\<rparr>)"

definition Interface_GetAddress :: "nat \<Rightarrow> ipv4_interface \<Rightarrow> iface_addr res" where
  "Interface_GetAddress index i = (if index < length (if_addrs i) then Inr (if_addrs i ! index) else Inl Fatal)"

definition Interface_RemoveAddress :: "nat \<Rightarrow> ipv4_interface \<Rightarrow> (iface_addr \<times> ipv4_interface) res" where
  "Interface_RemoveAddress index i =
     (if index \<ge> length (if_addrs i) then Inl Fatal
      else Inr (if_addrs i ! index, i\<lparr>if_addrs := erase_at index (if_addrs i)\<rparr>))"

fun remove_local :: "ipv4 \<Rightarrow> iface_addr list \<Rightarrow> iface_addr \<times> iface_addr list" where
  "remove_local address [] = (InterfaceAddress_new, [])"
| "remove_local address (a # as) =
     (if ia_local a = address then (a, as)
      else let (found, rest) = remove_local address as in (found, a # rest))"

definition Interface_RemoveAddress_local :: "ipv4 \<Rightarrow> ipv4_interface \<Rightarrow> iface_addr \<times> ipv4_interface" where
  "Interface_RemoveAddress_local address i =
     (if address = 0x7f000001 then (InterfaceAddress_new, i)
      else let (found, rest) = remove_local address (if_addrs i) in (found, i\<lparr>if_addrs := rest\<rparr>))"

text \<open>
  \<open>Send\<close>; \<open>ArpLookup\<close> is the resolution of an address by the cache of the interface, which may also keep
  the packet until it has the answer.
\<close>

definition Interface_Send ::
  "(nat \<Rightarrow> packet \<Rightarrow> ipv4_header \<Rightarrow> ipv4 \<Rightarrow> bytes option) \<Rightarrow> (packet \<Rightarrow> nat) \<Rightarrow> (nat \<rightharpoonup> tc_device) \<Rightarrow> (nat \<Rightarrow> net_device) \<Rightarrow>
   packet \<Rightarrow> ipv4_header \<Rightarrow> ipv4 \<Rightarrow> ipv4_interface \<Rightarrow> net_effect list res" where
  "Interface_Send ArpLookup SelectQueue tc dev p hdr dest i =
     (if \<not> if_up i then Inr []
      else ns_assert (if_device i \<noteq> 0)
       (let device = if_device i; d = dev device in
        if dv_loopback d then
          bind_res (Ipv4Header_Serialize hdr) (\<lambda>bs.
            Inr [DeviceSend device (Packet_AddHeader bs p) (dv_broadcast d) IPV4_PROT_NUMBER])
        else ns_assert (if_tc i)
         (if list_ex (\<lambda>a. dest = ia_local a) (if_addrs i) then
            bind_res (Ipv4Header_Serialize hdr) (\<lambda>bs. Inr [TcReceive device (Packet_AddHeader bs p)])
          else if dv_needsArp d then
            bind_res
              (if Ipv4Address_IsBroadcast dest then Inr (Some (dv_broadcast d))
               else if Ipv4Address_IsMulticast dest then ns_assert (dv_multicast d) (Inr (Some (dv_GetMulticast d dest)))
               else if list_ex (\<lambda>a. Ipv4Address_IsSubnetDirectedBroadcast dest (ia_mask a)) (if_addrs i)
               then Inr (Some (dv_broadcast d))
               else Inr (ArpLookup (if_cache i) p hdr dest)) (\<lambda>found.
              case found of
                None \<Rightarrow> Inr []
              | Some hardwareDestination \<Rightarrow> TrafficControl_Send SelectQueue tc device p hdr hardwareDestination)
          else TrafficControl_Send SelectQueue tc device p hdr (dv_broadcast d))))"

section \<open>Lemmas\<close>

lemma Serialize_total: "\<exists>bs. Ipv4Header_Serialize h = Inr bs \<and> length bs = 20"
  using Serialize_wire [of h] by (auto simp: length_wire_bytes)

lemma InterfaceAddress_broadcast:
  "msk \<noteq> Ipv4Mask_GetOnes \<Longrightarrow> Ipv4Address_IsSubnetDirectedBroadcast (ia_broadcast (InterfaceAddress_of a msk)) msk"
  by (simp add: InterfaceAddress_of_def Ipv4Address_IsSubnetDirectedBroadcast_def Ipv4Mask_GetInverse_def or.assoc)

lemma InterfaceAddress_broadcast_subnet:
  "InterfaceAddress_IsInSameSubnet (ia_broadcast (InterfaceAddress_of a msk)) (InterfaceAddress_of a msk)"
  by (simp add: InterfaceAddress_IsInSameSubnet_def InterfaceAddress_of_def Ipv4Address_CombineMask_def
      and.commute and.left_commute bit_eq_iff bit_simps) auto

lemma remove_local_split:
  assumes "\<exists>a \<in> set as. ia_local a = address"
  shows "\<exists>xs a ys. as = xs @ a # ys \<and> remove_local address as = (a, xs @ ys) \<and> ia_local a = address \<and>
    (\<forall>x \<in> set xs. ia_local x \<noteq> address)"
  using assms
proof (induction as)
  case (Cons b as)
  show ?case
  proof (cases "ia_local b = address")
    case True
    then show ?thesis by (intro exI [of _ "[]"]) auto
  next
    case False
    with Cons obtain xs a ys where "as = xs @ a # ys" "remove_local address as = (a, xs @ ys)" "ia_local a = address"
      "\<forall>x \<in> set xs. ia_local x \<noteq> address" by auto
    with False show ?thesis by (intro exI [of _ "b # xs"] exI [of _ a] exI [of _ ys]) simp
  qed
qed simp

lemma remove_local_none: "\<forall>a \<in> set as. ia_local a \<noteq> address \<Longrightarrow> remove_local address as = (InterfaceAddress_new, as)"
  by (induction as) auto

text \<open>Adding an address and removing it again.\<close>

lemma add_remove_address:
  assumes "\<forall>a \<in> set (if_addrs i). ia_local a \<noteq> ia_local addr" and "ia_local addr \<noteq> 0x7f000001"
  shows "Interface_RemoveAddress_local (ia_local addr) (snd (Interface_AddAddress addr i)) = (addr, i)"
proof -
  have "remove_local (ia_local addr) (as @ [addr]) = (addr, as)" if "\<forall>a \<in> set as. ia_local a \<noteq> ia_local addr" for as
    using that by (induction as) auto
  with assms show ?thesis by (simp add: Interface_RemoveAddress_local_def Interface_AddAddress_def)
qed

text \<open>
  An interface on a device without address resolution and without a queue disc hands down one frame:
  the header followed by the datagram.
\<close>

definition direct_link :: "(nat \<rightharpoonup> tc_device) \<Rightarrow> (nat \<Rightarrow> net_device) \<Rightarrow> ipv4_interface \<Rightarrow> bool" where
  "direct_link tc dev i \<longleftrightarrow> if_up i \<and> if_device i \<noteq> 0 \<and> if_tc i \<and> \<not> dv_loopback (dev (if_device i)) \<and>
     \<not> dv_needsArp (dev (if_device i)) \<and> tc (if_device i) = None"

lemma Interface_Send_direct:
  assumes "direct_link tc dev i" and "\<forall>a \<in> set (if_addrs i). ia_local a \<noteq> dest"
    and "\<forall>(t, d) \<in> set (pk_tags p). t \<noteq> PRIORITY_TAG" and "Ipv4Header_Serialize hdr = Inr bs"
  shows "Interface_Send ArpLookup SelectQueue tc dev p hdr dest i =
    Inr [DeviceSend (if_device i) (p\<lparr>pk_bytes := bs @ pk_bytes p\<rparr>) (dv_broadcast (dev (if_device i))) IPV4_PROT_NUMBER]"
proof -
  have "List.find (\<lambda>(t, d). t = PRIORITY_TAG) (pk_tags p) = None"
    using assms(3) by (fastforce simp: find_None_iff)
  with assms show ?thesis
    by (auto simp: Interface_Send_def direct_link_def TrafficControl_Send_def list_ex_iff Let_def Packet_AddHeader_def
        PacketTagList_Remove_def)
qed

end
