(* ===== verification/End_Points.thy ===== *)
theory End_Points
  imports Ipv4_Interface
begin

text \<open>
  \<open>internet/model/ipv4-end-point.cc\<close> and \<open>ipv4-end-point-demux.cc\<close>: the end points of a transport protocol,
  the allocation of ports, and the search for the end point of a datagram. End points are objects with an
  address (0 is the null pointer); the list keeps each with its address, in the order of allocation.
\<close>

section \<open>End points\<close>

text \<open>The three callbacks of an end point are to the socket with the given address, or null.\<close>

record end_point =
  ep_localAddr :: ipv4
  ep_localPort :: u16
  ep_peerAddr :: ipv4
  ep_peerPort :: u16
  ep_boundnetdevice :: nat
  ep_rxCallback :: nat
  ep_icmpCallback :: nat
  ep_destroyCallback :: nat
  ep_rxEnabled :: bool

definition Ipv4Address_GetAny :: ipv4 where "Ipv4Address_GetAny = 0"

definition EndPoint_new :: "ipv4 \<Rightarrow> u16 \<Rightarrow> end_point" where
  "EndPoint_new address port =
     \<lparr>ep_localAddr = address, ep_localPort = port, ep_peerAddr = Ipv4Address_GetAny, ep_peerPort = 0, ep_boundnetdevice = 0,
      ep_rxCallback = 0, ep_icmpCallback = 0, ep_destroyCallback = 0, ep_rxEnabled = True\<rparr>"

definition EndPoint_SetPeer :: "ipv4 \<Rightarrow> u16 \<Rightarrow> end_point \<Rightarrow> end_point" where
  "EndPoint_SetPeer address port e = e\<lparr>ep_peerAddr := address, ep_peerPort := port\<rparr>"

definition EndPoint_SetLocalAddress :: "ipv4 \<Rightarrow> end_point \<Rightarrow> end_point" where
  "EndPoint_SetLocalAddress address e = e\<lparr>ep_localAddr := address\<rparr>"

definition EndPoint_BindToNetDevice :: "nat \<Rightarrow> end_point \<Rightarrow> end_point" where
  "EndPoint_BindToNetDevice netdevice e = e\<lparr>ep_boundnetdevice := netdevice\<rparr>"

definition EndPoint_SetCallbacks :: "nat \<Rightarrow> end_point \<Rightarrow> end_point" where
  "EndPoint_SetCallbacks socket e = e\<lparr>ep_rxCallback := socket, ep_icmpCallback := socket, ep_destroyCallback := socket\<rparr>"

definition EndPoint_SetDestroyCallback :: "nat \<Rightarrow> end_point \<Rightarrow> end_point" where
  "EndPoint_SetDestroyCallback socket e = e\<lparr>ep_destroyCallback := socket\<rparr>"

definition EndPoint_SetRxEnabled :: "bool \<Rightarrow> end_point \<Rightarrow> end_point" where
  "EndPoint_SetRxEnabled enabled e = e\<lparr>ep_rxEnabled := enabled\<rparr>"

section \<open>The demultiplexer\<close>

text \<open>\<open>dm_next\<close> is the address of the next object that \<open>new\<close> returns.\<close>

record demux =
  dm_ephemeral :: u16
  dm_portLast :: u16
  dm_portFirst :: u16
  dm_endPoints :: "(nat \<times> end_point) list"
  dm_next :: nat

definition Demux_new :: demux where
  "Demux_new = \<lparr>dm_ephemeral = 49152, dm_portLast = 65535, dm_portFirst = 49152, dm_endPoints = [], dm_next = 1\<rparr>"

definition Demux_LookupPortLocal :: "u16 \<Rightarrow> demux \<Rightarrow> bool" where
  "Demux_LookupPortLocal port d \<longleftrightarrow> list_ex (\<lambda>(a, e). ep_localPort e = port) (dm_endPoints d)"

definition Demux_LookupLocal :: "nat \<Rightarrow> ipv4 \<Rightarrow> u16 \<Rightarrow> demux \<Rightarrow> bool" where
  "Demux_LookupLocal boundNetDevice addr port d \<longleftrightarrow>
     list_ex (\<lambda>(a, e). ep_localPort e = port \<and> ep_localAddr e = addr \<and> ep_boundnetdevice e = boundNetDevice) (dm_endPoints d)"

text \<open>
  The loop of \<open>AllocateEphemeralPort\<close>: the counter is an \<open>int\<close> that is tested and then decreased; 0 means that
  no port was found.
\<close>

function ephemeral_loop :: "int \<Rightarrow> u16 \<Rightarrow> demux \<Rightarrow> u16" where
  "ephemeral_loop cnt port d =
     (if cnt < 0 then 0
      else let p1 = port + 1; p2 = (if p1 < dm_portFirst d \<or> p1 > dm_portLast d then dm_portFirst d else p1)
           in if Demux_LookupPortLocal p2 d then ephemeral_loop (cnt - 1) p2 d else p2)"
  by pat_completeness auto
termination
  by (relation "measure (\<lambda>(cnt, port, d). nat (cnt + 1))") simp_all

declare ephemeral_loop.simps [simp del]

definition Demux_AllocateEphemeralPort :: "demux \<Rightarrow> u16 \<times> demux" where
  "Demux_AllocateEphemeralPort d =
     (let port = ephemeral_loop (uint (dm_portLast d) - uint (dm_portFirst d)) (dm_ephemeral d) d
      in if port = 0 then (0, d) else (port, d\<lparr>dm_ephemeral := port\<rparr>))"

text \<open>Appending a new end point; the address of it is returned.\<close>

definition Demux_add :: "end_point \<Rightarrow> demux \<Rightarrow> nat \<times> demux" where
  "Demux_add e d = (dm_next d, d\<lparr>dm_endPoints := dm_endPoints d @ [(dm_next d, e)], dm_next := dm_next d + 1\<rparr>)"

definition Demux_Allocate_address :: "ipv4 \<Rightarrow> demux \<Rightarrow> nat \<times> demux" where
  "Demux_Allocate_address address d =
     (let (port, d1) = Demux_AllocateEphemeralPort d
      in if port = 0 then (0, d1) else Demux_add (EndPoint_new address port) d1)"

definition Demux_Allocate :: "demux \<Rightarrow> nat \<times> demux" where
  "Demux_Allocate d =
     (let (port, d1) = Demux_AllocateEphemeralPort d
      in if port = 0 then (0, d1) else Demux_add (EndPoint_new Ipv4Address_GetAny port) d1)"

definition Demux_Allocate_local :: "nat \<Rightarrow> ipv4 \<Rightarrow> u16 \<Rightarrow> demux \<Rightarrow> nat \<times> demux" where
  "Demux_Allocate_local boundNetDevice address port d =
     (if Demux_LookupLocal boundNetDevice address port d \<or> Demux_LookupLocal 0 address port d then (0, d)
      else Demux_add (EndPoint_new address port) d)"

definition Demux_Allocate_port :: "nat \<Rightarrow> u16 \<Rightarrow> demux \<Rightarrow> nat \<times> demux" where
  "Demux_Allocate_port boundNetDevice port d = Demux_Allocate_local boundNetDevice Ipv4Address_GetAny port d"

definition Demux_Allocate_peer :: "nat \<Rightarrow> ipv4 \<Rightarrow> u16 \<Rightarrow> ipv4 \<Rightarrow> u16 \<Rightarrow> demux \<Rightarrow> nat \<times> demux" where
  "Demux_Allocate_peer boundNetDevice localAddress localPort peerAddress peerPort d =
     (if list_ex (\<lambda>(a, e). ep_localPort e = localPort \<and> ep_localAddr e = localAddress \<and> ep_peerPort e = peerPort \<and>
           ep_peerAddr e = peerAddress \<and> (ep_boundnetdevice e = boundNetDevice \<or> ep_boundnetdevice e = 0)) (dm_endPoints d)
      then (0, d)
      else Demux_add (EndPoint_SetPeer peerAddress peerPort (EndPoint_new localAddress localPort)) d)"

text \<open>
  \<open>DeAllocate\<close> deletes the end point, whose destructor calls its destroy callback: the socket called is
  returned, 0 if there is none. Other operations on an end point go through its address.
\<close>

definition Demux_get :: "nat \<Rightarrow> demux \<Rightarrow> end_point option" where
  "Demux_get a d = map_of (dm_endPoints d) a"

definition Demux_DeAllocate :: "nat \<Rightarrow> demux \<Rightarrow> nat \<times> demux" where
  "Demux_DeAllocate endPoint d =
     (case Demux_get endPoint d of
        None \<Rightarrow> (0, d)
      | Some e \<Rightarrow> (ep_destroyCallback e, d\<lparr>dm_endPoints := remove1 (endPoint, e) (dm_endPoints d)\<rparr>))"

definition Demux_update :: "nat \<Rightarrow> (end_point \<Rightarrow> end_point) \<Rightarrow> demux \<Rightarrow> demux" where
  "Demux_update endPoint f d =
     d\<lparr>dm_endPoints := map (\<lambda>(a, e). if a = endPoint then (a, f e) else (a, e)) (dm_endPoints d)\<rparr>"

section \<open>Lookup\<close>

text \<open>
  The body of the loop of \<open>Lookup\<close>: the numbers of the lists \<open>retval1\<close> to \<open>retval4\<close> that an end point is
  appended to. 4 is a match of all four fields, 3 of all but the local address, 2 of the local port and
  address, 1 of the local port alone.
\<close>

definition local_subnet_any :: "ipv4 \<Rightarrow> ipv4_interface \<Rightarrow> end_point \<Rightarrow> bool" where
  "local_subnet_any daddr ifc e \<longleftrightarrow>
     list_ex (\<lambda>a. let addrNetpart = Ipv4Address_CombineMask (ia_local a) (ia_mask a)
        in ep_localAddr e = addrNetpart \<and> addrNetpart = Ipv4Address_CombineMask daddr (ia_mask a)) (if_addrs ifc)"

definition endpoint_case :: "ipv4 \<Rightarrow> u16 \<Rightarrow> ipv4 \<Rightarrow> u16 \<Rightarrow> ipv4_interface \<Rightarrow> end_point \<Rightarrow> nat list" where
  "endpoint_case daddr dport saddr sport ifc e =
     (if \<not> ep_rxEnabled e then []
      else if ep_localPort e \<noteq> dport then []
      else if ep_boundnetdevice e \<noteq> 0 \<and> ep_boundnetdevice e \<noteq> if_device ifc then []
      else
        let localAddressMatchesExact = (ep_localAddr e = daddr);
            localAddressIsAny = (\<not> localAddressMatchesExact \<and> ep_localAddr e = Ipv4Address_GetAny);
            localAddressIsSubnetAny = (\<not> localAddressMatchesExact \<and> \<not> localAddressIsAny \<and> local_subnet_any daddr ifc e)
        in if \<not> localAddressMatchesExact \<and> \<not> localAddressIsAny \<and> \<not> localAddressIsSubnetAny then []
           else
             let remotePortMatchesExact = (ep_peerPort e = sport); remotePortMatchesWildCard = (ep_peerPort e = 0);
                 remoteAddressMatchesExact = (ep_peerAddr e = saddr); remoteAddressMatchesWildCard = (ep_peerAddr e = Ipv4Address_GetAny)
             in if \<not> (remotePortMatchesExact \<or> remotePortMatchesWildCard) then []
                else if \<not> (remoteAddressMatchesExact \<or> remoteAddressMatchesWildCard) then []
                else
                  let localAddressMatchesWildCard = (localAddressIsAny \<or> localAddressIsSubnetAny)
                  in (if localAddressMatchesExact \<and> remoteAddressMatchesExact \<and> remotePortMatchesExact then [4] else []) @
                     (if localAddressMatchesWildCard \<and> remoteAddressMatchesExact \<and> remotePortMatchesExact then [3] else []) @
                     (if localAddressMatchesExact \<and> remoteAddressMatchesWildCard \<and> remotePortMatchesWildCard then [2] else []) @
                     (if localAddressMatchesWildCard \<and> remoteAddressMatchesWildCard \<and> remotePortMatchesWildCard then [1] else []))"

definition Demux_Lookup ::
  "ipv4 \<Rightarrow> u16 \<Rightarrow> ipv4 \<Rightarrow> u16 \<Rightarrow> ipv4_interface \<Rightarrow> demux \<Rightarrow> (nat \<times> end_point) list res" where
  "Demux_Lookup daddr dport saddr sport ifc d =
     (let retval = (\<lambda>k. filter (\<lambda>x. k \<in> set (endpoint_case daddr dport saddr sport ifc (snd x))) (dm_endPoints d));
          best = (if retval 4 \<noteq> [] then retval 4 else if retval 3 \<noteq> [] then retval 3 else if retval 2 \<noteq> [] then retval 2 else retval 1)
      in if length best > 1 then Inl Fatal else Inr best)"

text \<open>\<open>SimpleLookup\<close>: an exact match at once, otherwise the first of the least generic ones.\<close>

fun simple_loop :: "ipv4 \<Rightarrow> u16 \<Rightarrow> ipv4 \<Rightarrow> u16 \<Rightarrow> nat \<Rightarrow> (nat \<times> end_point) option \<Rightarrow> (nat \<times> end_point) list \<Rightarrow> (nat \<times> end_point) option" where
  "simple_loop daddr dport saddr sport genericity generic [] = generic"
| "simple_loop daddr dport saddr sport genericity generic ((a, e) # rest) =
     (if ep_localPort e \<noteq> dport then simple_loop daddr dport saddr sport genericity generic rest
      else if ep_localAddr e = daddr \<and> ep_peerPort e = sport \<and> ep_peerAddr e = saddr then Some (a, e)
      else
        let tmp = (if ep_localAddr e = Ipv4Address_GetAny then 1 else 0) + (if ep_peerAddr e = Ipv4Address_GetAny then 1 else 0)
        in if tmp < genericity then simple_loop daddr dport saddr sport tmp (Some (a, e)) rest
           else simple_loop daddr dport saddr sport genericity generic rest)"

definition Demux_SimpleLookup :: "ipv4 \<Rightarrow> u16 \<Rightarrow> ipv4 \<Rightarrow> u16 \<Rightarrow> demux \<Rightarrow> (nat \<times> end_point) option" where
  "Demux_SimpleLookup daddr dport saddr sport d = simple_loop daddr dport saddr sport 3 None (dm_endPoints d)"

section \<open>Ephemeral ports\<close>

definition port_range :: "demux \<Rightarrow> u16 set" where
  "port_range d = {dm_portFirst d .. dm_portLast d}"

definition next_port :: "demux \<Rightarrow> u16 \<Rightarrow> u16" where
  "next_port d port = (if port + 1 < dm_portFirst d \<or> port + 1 > dm_portLast d then dm_portFirst d else port + 1)"

definition port_count :: "demux \<Rightarrow> nat" where
  "port_count d = unat (dm_portLast d) - unat (dm_portFirst d) + 1"

text \<open>The position of a port in the range; a port outside counts as the last.\<close>

definition port_index :: "demux \<Rightarrow> u16 \<Rightarrow> nat" where
  "port_index d port = (if port \<in> port_range d then unat port - unat (dm_portFirst d) else port_count d - 1)"

lemma next_port_range: "dm_portFirst d \<le> dm_portLast d \<Longrightarrow> next_port d port \<in> port_range d"
  by (auto simp: next_port_def port_range_def)

lemma port_index_inj:
  "p \<in> port_range d \<Longrightarrow> q \<in> port_range d \<Longrightarrow> port_index d p = port_index d q \<Longrightarrow> p = q"
  by (auto simp: port_index_def port_range_def word_le_nat_alt intro: word_unat_eq_iff [THEN iffD2])

lemma port_index_lt: "port_index d p < port_count d"
  by (auto simp: port_index_def port_count_def port_range_def word_le_nat_alt)

lemma port_index_next:
  assumes "0 < dm_portFirst d" and "dm_portFirst d \<le> dm_portLast d"
  shows "port_index d (next_port d port) = (port_index d port + 1) mod port_count d"
proof -
  let ?f = "unat (dm_portFirst d)" and ?l = "unat (dm_portLast d)"
  have fl: "0 < ?f" "?f \<le> ?l" "?l < 65536"
    using assms unsigned_less [of "dm_portLast d", where 'a = nat] by (simp_all add: word_less_nat_alt word_le_nat_alt)
  have p1: "unat (port + 1) = (if unat port = 65535 then 0 else unat port + 1)"
    using unsigned_less [of port, where 'a = nat] by (simp add: unat_word_ariths unsigned_1)
  have nx: "port_index d (next_port d port) = unat (next_port d port) - ?f"
    using next_port_range [OF assms(2), of port] by (simp add: port_index_def)
  have n: "unat (next_port d port) = (if ?f \<le> unat port \<and> unat port < ?l then unat port + 1 else ?f)"
    using fl p1 unsigned_less [of port, where 'a = nat] by (auto simp: next_port_def word_less_nat_alt)
  show ?thesis
    unfolding nx n unfolding port_index_def port_count_def using fl by (auto simp: port_range_def word_le_nat_alt mod_if)
qed

lemma port_index_iterate:
  assumes "0 < dm_portFirst d" and "dm_portFirst d \<le> dm_portLast d"
  shows "port_index d ((next_port d ^^ k) port) = (port_index d port + k) mod port_count d"
proof (induction k)
  case 0
  show ?case using port_index_lt [of d port] by simp
next
  case (Suc k)
  then show ?case using port_index_next [OF assms] by (simp add: mod_simps)
qed

text \<open>The loop looks at the ports that follow, as many as it has rounds.\<close>

lemma ephemeral_loop_cases:
  "ephemeral_loop (int n) port d = 0 \<and> (\<forall>k \<in> {1 .. n + 1}. Demux_LookupPortLocal ((next_port d ^^ k) port) d) \<or>
   (\<exists>k \<in> {1 .. n + 1}. ephemeral_loop (int n) port d = (next_port d ^^ k) port \<and>
      \<not> Demux_LookupPortLocal ((next_port d ^^ k) port) d)"
proof (induction n arbitrary: port)
  case 0
  have e: "ephemeral_loop (int 0) port d = (if Demux_LookupPortLocal (next_port d port) d then 0 else next_port d port)"
    by (subst (1) ephemeral_loop.simps, subst (1) ephemeral_loop.simps) (simp add: next_port_def Let_def)
  show ?case unfolding e by auto
next
  case (Suc n)
  have e: "ephemeral_loop (int (Suc n)) port d =
      (if Demux_LookupPortLocal (next_port d port) d then ephemeral_loop (int n) (next_port d port) d else next_port d port)"
    by (subst (1) ephemeral_loop.simps) (simp add: next_port_def Let_def)
  show ?case
  proof (cases "Demux_LookupPortLocal (next_port d port) d")
    case False
    then show ?thesis unfolding e by (intro disjI2 bexI [of _ 1]) simp_all
  next
    case True
    have it: "(next_port d ^^ k) (next_port d port) = (next_port d ^^ Suc k) port" for k by (simp only: funpow_Suc_right comp_apply)
    from Suc [of "next_port d port"] show ?thesis
    proof (elim disjE conjE bexE)
      assume z: "ephemeral_loop (int n) (next_port d port) d = 0"
        "\<forall>k \<in> {1 .. n + 1}. Demux_LookupPortLocal ((next_port d ^^ k) (next_port d port)) d"
      have "Demux_LookupPortLocal ((next_port d ^^ k) port) d" if "k \<in> {1 .. Suc n + 1}" for k
      proof (cases k)
        case (Suc j)
        show ?thesis
        proof (cases "j = 0")
          case False
          then have "j \<in> {1 .. n + 1}" using that Suc by simp
          from z(2) [rule_format, OF this] show ?thesis by (simp only: it Suc)
        qed (use True Suc in simp)
      qed (use that in simp)
      with z(1) True show ?thesis unfolding e by simp
    next
      fix k assume "k \<in> {1 .. n + 1}" "ephemeral_loop (int n) (next_port d port) d = (next_port d ^^ k) (next_port d port)"
        "\<not> Demux_LookupPortLocal ((next_port d ^^ k) (next_port d port)) d"
      with True show ?thesis unfolding e it by (intro disjI2 bexI [of _ "Suc k"]) simp_all
    qed
  qed
qed

lemma every_port_reached:
  assumes "0 < dm_portFirst d" and "dm_portFirst d \<le> dm_portLast d" and "p \<in> port_range d"
  shows "\<exists>k \<in> {1 .. port_count d}. (next_port d ^^ k) port = p"
proof -
  let ?N = "port_count d" and ?o = "port_index d port" and ?q = "port_index d p"
  have lt: "?o < ?N" "?q < ?N" by (rule port_index_lt)+
  define k where "k = (?q + ?N - ?o - 1) mod ?N + 1"
  have k: "k \<in> {1 .. ?N}" using lt mod_less_divisor [of ?N "?q + ?N - ?o - 1"] by (auto simp: k_def Suc_le_eq)
  have "(?o + k) mod ?N = (?o + 1 + (?q + ?N - ?o - 1)) mod ?N" 
    unfolding k_def by (simp only: add.assoc [symmetric] add.commute [of _ 1] add.left_commute [of _ 1] mod_add_right_eq)
  also have "?o + 1 + (?q + ?N - ?o - 1) = ?q + ?N" using lt by simp
  finally have "port_index d ((next_port d ^^ k) port) = ?q"
    unfolding port_index_iterate [OF assms(1,2)] using lt by simp
  moreover have "(next_port d ^^ k) port \<in> port_range d"
    using k next_port_range [OF assms(2)] by (cases k) simp_all
  ultimately have "(next_port d ^^ k) port = p" using port_index_inj assms(3) by blast
  with k show ?thesis by blast
qed

lemma ephemeral_port_cases:
  assumes "0 < dm_portFirst d" and "dm_portFirst d \<le> dm_portLast d"
  shows "Demux_AllocateEphemeralPort d =
      (if \<forall>p \<in> port_range d. Demux_LookupPortLocal p d then (0, d)
       else (fst (Demux_AllocateEphemeralPort d), d\<lparr>dm_ephemeral := fst (Demux_AllocateEphemeralPort d)\<rparr>)) \<and>
    ((\<exists>p \<in> port_range d. \<not> Demux_LookupPortLocal p d) \<longrightarrow>
      fst (Demux_AllocateEphemeralPort d) \<in> port_range d \<and> \<not> Demux_LookupPortLocal (fst (Demux_AllocateEphemeralPort d)) d)"
proof -
  define n where "n = unat (dm_portLast d) - unat (dm_portFirst d)"
  have n: "uint (dm_portLast d) - uint (dm_portFirst d) = int n" "n + 1 = port_count d"
    using assms(2) by (simp_all add: n_def port_count_def word_le_nat_alt of_nat_diff)
  have zero: "0 \<notin> port_range d" using assms(1) by (simp add: port_range_def word_le_nat_alt word_less_nat_alt)
  have rng: "(next_port d ^^ k) port \<in> port_range d" if "k \<in> {1 .. n + 1}" for k port
    using that next_port_range [OF assms(2)] by (cases k) simp_all
  from ephemeral_loop_cases [of n "dm_ephemeral d" d] show ?thesis
  proof (elim disjE conjE bexE)
    assume z: "ephemeral_loop (int n) (dm_ephemeral d) d = 0"
      "\<forall>k \<in> {1 .. n + 1}. Demux_LookupPortLocal ((next_port d ^^ k) (dm_ephemeral d)) d"
    have "\<forall>p \<in> port_range d. Demux_LookupPortLocal p d"
      using every_port_reached [OF assms, of _ "dm_ephemeral d"] z(2) unfolding n(2) by blast
    with z(1) show ?thesis by (simp add: Demux_AllocateEphemeralPort_def n(1))
  next
    fix k assume k: "k \<in> {1 .. n + 1}" "ephemeral_loop (int n) (dm_ephemeral d) d = (next_port d ^^ k) (dm_ephemeral d)"
      "\<not> Demux_LookupPortLocal ((next_port d ^^ k) (dm_ephemeral d)) d"
    let ?p = "(next_port d ^^ k) (dm_ephemeral d)"
    have r: "?p \<in> port_range d" by (rule rng [OF k(1)])
    with zero have "?p \<noteq> 0" by metis
    then have "Demux_AllocateEphemeralPort d = (?p, d\<lparr>dm_ephemeral := ?p\<rparr>)"
      by (simp add: Demux_AllocateEphemeralPort_def n(1) k(2) Let_def)
    with r k(3) show ?thesis by auto
  qed
qed

section \<open>The most specific end point\<close>

text \<open>
  The rule that \<open>Lookup\<close> follows, stated for one end point: whether it may receive the datagram, and how
  specific it is, a matching peer weighing more than a matching local address.
\<close>

definition ep_connected :: "ipv4 \<Rightarrow> u16 \<Rightarrow> end_point \<Rightarrow> bool" where
  "ep_connected saddr sport e \<longleftrightarrow> ep_peerAddr e = saddr \<and> ep_peerPort e = sport"

definition ep_accepts :: "ipv4 \<Rightarrow> u16 \<Rightarrow> ipv4 \<Rightarrow> u16 \<Rightarrow> ipv4_interface \<Rightarrow> end_point \<Rightarrow> bool" where
  "ep_accepts daddr dport saddr sport ifc e \<longleftrightarrow>
     ep_rxEnabled e \<and> ep_localPort e = dport \<and> ep_boundnetdevice e \<in> {0, if_device ifc} \<and>
     (ep_localAddr e = daddr \<or> ep_localAddr e = Ipv4Address_GetAny \<or> local_subnet_any daddr ifc e) \<and>
     (ep_connected saddr sport e \<or> ep_connected Ipv4Address_GetAny 0 e)"

definition ep_rank :: "ipv4 \<Rightarrow> ipv4 \<Rightarrow> u16 \<Rightarrow> end_point \<Rightarrow> nat" where
  "ep_rank daddr saddr sport e = (if ep_connected saddr sport e then 2 else 0) + (if ep_localAddr e = daddr then 1 else 0)"

definition most_specific :: "ipv4 \<Rightarrow> u16 \<Rightarrow> ipv4 \<Rightarrow> u16 \<Rightarrow> ipv4_interface \<Rightarrow> (nat \<times> end_point) list \<Rightarrow> (nat \<times> end_point) list" where
  "most_specific daddr dport saddr sport ifc es =
     (let candidates = filter (\<lambda>x. ep_accepts daddr dport saddr sport ifc (snd x)) es
      in filter (\<lambda>x. list_all (\<lambda>y. ep_rank daddr saddr sport (snd y) \<le> ep_rank daddr saddr sport (snd x)) candidates) candidates)"

lemma endpoint_case_iff:
  "4 \<in> set (endpoint_case daddr dport saddr sport ifc e) \<longleftrightarrow>
     ep_accepts daddr dport saddr sport ifc e \<and> ep_rank daddr saddr sport e = 3"
  "3 \<in> set (endpoint_case daddr dport saddr sport ifc e) \<longleftrightarrow>
     ep_accepts daddr dport saddr sport ifc e \<and> ep_rank daddr saddr sport e = 2"
  "ep_rank daddr saddr sport e < 2 \<Longrightarrow> 2 \<in> set (endpoint_case daddr dport saddr sport ifc e) \<longleftrightarrow>
     ep_accepts daddr dport saddr sport ifc e \<and> ep_rank daddr saddr sport e = 1"
  "ep_rank daddr saddr sport e < 2 \<Longrightarrow> 1 \<in> set (endpoint_case daddr dport saddr sport ifc e) \<longleftrightarrow>
     ep_accepts daddr dport saddr sport ifc e \<and> ep_rank daddr saddr sport e = 0"
  "2 \<in> set (endpoint_case daddr dport saddr sport ifc e) \<or> 1 \<in> set (endpoint_case daddr dport saddr sport ifc e)
     \<Longrightarrow> ep_accepts daddr dport saddr sport ifc e"
  by (auto simp: endpoint_case_def ep_accepts_def ep_rank_def ep_connected_def Let_def split: if_splits)

lemma ep_rank_le: "ep_rank daddr saddr sport e \<le> 3"
  by (simp add: ep_rank_def)

lemma filter_best:
  fixes r :: "'a \<Rightarrow> nat"
  assumes "filter (\<lambda>x. P x \<and> r x = k) xs \<noteq> []" and "\<forall>x \<in> set xs. P x \<longrightarrow> r x \<le> k"
  shows "filter (\<lambda>x. list_all (\<lambda>y. r y \<le> r x) (filter P xs)) (filter P xs) = filter (\<lambda>x. P x \<and> r x = k) xs"
proof -
  from assms(1) obtain z where z: "z \<in> set xs" "P z" "r z = k" by (auto simp: filter_empty_conv)
  show ?thesis
    unfolding filter_filter
    by (rule filter_cong [OF refl]) (use assms(2) z in \<open>auto simp: list_all_iff intro: le_antisym\<close>)
qed

text \<open>The entries of greatest rank, found by trying the ranks from the highest down.\<close>

primrec top_class :: "('a \<Rightarrow> bool) \<Rightarrow> ('a \<Rightarrow> nat) \<Rightarrow> nat \<Rightarrow> 'a list \<Rightarrow> 'a list" where
  "top_class P r 0 xs = filter (\<lambda>x. P x \<and> r x = 0) xs"
| "top_class P r (Suc k) xs =
     (let ys = filter (\<lambda>x. P x \<and> r x = Suc k) xs in if ys \<noteq> [] then ys else top_class P r k xs)"

lemma top_class_3:
  "top_class P r 3 xs =
     (let R = (\<lambda>k. filter (\<lambda>x. P x \<and> r x = k) xs)
      in if R 3 \<noteq> [] then R 3 else if R 2 \<noteq> [] then R 2 else if R 1 \<noteq> [] then R 1 else R 0)"
  by (simp add: eval_nat_numeral Let_def)

lemma filter_top_class:
  assumes "\<forall>x \<in> set xs. P x \<longrightarrow> r x \<le> k"
  shows "filter (\<lambda>x. list_all (\<lambda>y. r y \<le> r x) (filter P xs)) (filter P xs) = top_class P r k xs"
  using assms
proof (induction k)
  case 0
  show ?case
  proof (cases "filter (\<lambda>x. P x \<and> r x = 0) xs = []")
    case True
    with 0 have "filter P xs = []" by (simp add: filter_empty_conv)
    with True show ?thesis by simp
  qed (use filter_best [OF _ 0] in simp)
next
  case (Suc k)
  show ?case
  proof (cases "filter (\<lambda>x. P x \<and> r x = Suc k) xs = []")
    case True
    with Suc.prems have "\<forall>x \<in> set xs. P x \<longrightarrow> r x \<le> k" by (auto simp: filter_empty_conv le_Suc_eq)
    from Suc.IH [OF this] True show ?thesis by (simp add: Let_def)
  qed (use filter_best [OF _ Suc.prems] in \<open>simp add: Let_def\<close>)
qed

text \<open>The four lists of \<open>Lookup\<close> are the four ranks, the last two when the first two are empty.\<close>

lemma lookup_lists:
  assumes "\<forall>x \<in> set es. ep_accepts daddr dport saddr sport ifc (snd x) \<longrightarrow> ep_rank daddr saddr sport (snd x) < 2"
  shows "filter (\<lambda>x. 2 \<in> set (endpoint_case daddr dport saddr sport ifc (snd x))) es =
      filter (\<lambda>x. ep_accepts daddr dport saddr sport ifc (snd x) \<and> ep_rank daddr saddr sport (snd x) = 1) es \<and>
    filter (\<lambda>x. 1 \<in> set (endpoint_case daddr dport saddr sport ifc (snd x))) es =
      filter (\<lambda>x. ep_accepts daddr dport saddr sport ifc (snd x) \<and> ep_rank daddr saddr sport (snd x) = 0) es"
proof -
  have "(2 \<in> set (endpoint_case daddr dport saddr sport ifc e) \<longleftrightarrow> ep_accepts daddr dport saddr sport ifc e \<and> ep_rank daddr saddr sport e = 1) \<and>
      (1 \<in> set (endpoint_case daddr dport saddr sport ifc e) \<longleftrightarrow> ep_accepts daddr dport saddr sport ifc e \<and> ep_rank daddr saddr sport e = 0)"
    if "(a, e) \<in> set es" for a e
  proof (cases "ep_accepts daddr dport saddr sport ifc e")
    case True
    with assms that have "ep_rank daddr saddr sport e < 2" by auto
    from endpoint_case_iff(3,4) [OF this, of dport ifc] show ?thesis by blast
  next
    case False
    with endpoint_case_iff(5) [of daddr dport saddr sport ifc e] show ?thesis by blast
  qed
  then show ?thesis by (auto intro!: filter_cong)
qed

section \<open>Properties\<close>

text \<open>
  C33. \<open>Lookup\<close> returns the most specific end point. Among the end points that may receive the datagram
  (enabled, on the port, bound to no other device, and open to the address and to the peer), the result
  holds those of greatest specificity, where a matching peer counts before a matching local address; if
  there is more than one of them the run is aborted.
\<close>

theorem lookup_most_specific:
  "Demux_Lookup daddr dport saddr sport ifc d =
     (let best = most_specific daddr dport saddr sport ifc (dm_endPoints d)
      in if length best > 1 then Inl Fatal else Inr best)"
proof -
  let ?A = "\<lambda>x. ep_accepts daddr dport saddr sport ifc (snd x)" and ?r = "\<lambda>x. ep_rank daddr saddr sport (snd x)"
  let ?L = "\<lambda>k. filter (\<lambda>x. k \<in> set (endpoint_case daddr dport saddr sport ifc (snd x))) (dm_endPoints d)"
  let ?R = "\<lambda>k. filter (\<lambda>x. ?A x \<and> ?r x = k) (dm_endPoints d)"
  have best: "most_specific daddr dport saddr sport ifc (dm_endPoints d) = top_class ?A ?r 3 (dm_endPoints d)"
    unfolding most_specific_def Let_def by (rule filter_top_class) (simp add: ep_rank_le)
  have L43: "?L 4 = ?R 3" "?L 3 = ?R 2" by (auto intro!: filter_cong simp: endpoint_case_iff)
  have "(if ?L 4 \<noteq> [] then ?L 4 else if ?L 3 \<noteq> [] then ?L 3 else if ?L 2 \<noteq> [] then ?L 2 else ?L 1) =
      top_class ?A ?r 3 (dm_endPoints d)"
  proof (cases "?R 3 = [] \<and> ?R 2 = []")
    case True
    then have "?r x < 2" if "x \<in> set (dm_endPoints d)" "?A x" for x
      using that ep_rank_le [of daddr saddr sport "snd x"] by (fastforce simp: filter_empty_conv)
    then have "?L 2 = ?R 1 \<and> ?L 1 = ?R 0" by (intro lookup_lists) blast
    with True L43 show ?thesis by (simp add: top_class_3)
  qed (auto simp: L43 top_class_3)
  with best show ?thesis by (simp add: Demux_Lookup_def Let_def)
qed

text \<open>
  C34. An ephemeral port is found whenever there is one. The loop always ends. If a port of the range is
  used by no end point, \<open>Allocate\<close> makes a new end point with a port of the range that no end point uses,
  puts it behind the others and leaves those alone; it fails, with nothing changed, only when every port
  of the range is in use.
\<close>

theorem ephemeral_port_found:
  assumes "0 < dm_portFirst d" and "dm_portFirst d \<le> dm_portLast d"
  shows "if \<exists>p \<in> port_range d. \<not> Demux_LookupPortLocal p d then
      \<exists>port \<in> port_range d. (\<forall>(a, e) \<in> set (dm_endPoints d). ep_localPort e \<noteq> port) \<and>
        Demux_Allocate_address address d =
          (dm_next d, d\<lparr>dm_ephemeral := port, dm_endPoints := dm_endPoints d @ [(dm_next d, EndPoint_new address port)],
             dm_next := dm_next d + 1\<rparr>)
    else Demux_Allocate_address address d = (0, d)"
proof (cases "\<exists>p \<in> port_range d. \<not> Demux_LookupPortLocal p d")
  case True
  let ?port = "fst (Demux_AllocateEphemeralPort d)"
  have "0 \<notin> port_range d" using assms(1) by (simp add: port_range_def word_le_nat_alt word_less_nat_alt)
  with True ephemeral_port_cases [OF assms] have "?port \<in> port_range d" "\<not> Demux_LookupPortLocal ?port d" "?port \<noteq> 0"
    "Demux_AllocateEphemeralPort d = (?port, d\<lparr>dm_ephemeral := ?port\<rparr>)"
    by (metis (full_types))+
  then have "\<exists>port \<in> port_range d. (\<forall>(a, e) \<in> set (dm_endPoints d). ep_localPort e \<noteq> port) \<and>
      Demux_Allocate_address address d =
        (dm_next d, d\<lparr>dm_ephemeral := port, dm_endPoints := dm_endPoints d @ [(dm_next d, EndPoint_new address port)],
           dm_next := dm_next d + 1\<rparr>)"
    by (intro bexI [of _ ?port] conjI)
      (auto simp: Demux_LookupPortLocal_def list_ex_iff Demux_Allocate_address_def Demux_add_def split: prod.splits)
  with True show ?thesis by (simp only: if_True)
next
  case False
  then have "Demux_AllocateEphemeralPort d = (0, d)" using ephemeral_port_cases [OF assms] by simp
  with False show ?thesis by (simp add: Demux_Allocate_address_def)
qed

theorem ephemeral_port_found_witness:
  "\<exists>port. fst (Demux_Allocate_address 0x0a010001 Demux_new) = 1 \<and> 49152 \<le> port \<and>
    dm_endPoints (snd (Demux_Allocate_address 0x0a010001 Demux_new)) = [(1, EndPoint_new 0x0a010001 port)]"
proof -
  have "\<exists>p \<in> port_range Demux_new. \<not> Demux_LookupPortLocal p Demux_new"
    by (rule bexI [of _ 49152]) (simp_all add: port_range_def Demux_new_def Demux_LookupPortLocal_def)
  with ephemeral_port_found [of Demux_new "0x0a010001"] obtain port where "port \<in> port_range Demux_new"
      "Demux_Allocate_address 0x0a010001 Demux_new = (dm_next Demux_new, Demux_new\<lparr>dm_ephemeral := port,
        dm_endPoints := dm_endPoints Demux_new @ [(dm_next Demux_new, EndPoint_new 0x0a010001 port)], dm_next := dm_next Demux_new + 1\<rparr>)"
    by (auto simp: Demux_new_def)
  then show ?thesis by (intro exI [of _ port]) (simp add: Demux_new_def port_range_def)
qed

text \<open>
  The test for duplicates is not symmetric: an end point that is bound to a device does not keep out a
  later one for the same port that is bound to none. The first datagram for that port on that device
  then aborts the run.
\<close>

lemma unbound_after_bound_aborts:
  assumes "if_device ifc = 7"
  shows "\<exists>d1 d2. Demux_Allocate_port 7 9 Demux_new = (1, d1) \<and>
    Demux_Allocate_port 0 9 (Demux_update 1 (EndPoint_BindToNetDevice 7) d1) = (2, d2) \<and>
    Demux_Lookup daddr 9 saddr sport ifc d2 = Inl Fatal"
  using assms
  by (simp add: Demux_Allocate_port_def Demux_Allocate_local_def Demux_LookupLocal_def Demux_new_def Demux_add_def
      Demux_update_def EndPoint_BindToNetDevice_def EndPoint_new_def Demux_Lookup_def endpoint_case_def Let_def)

end
