(* ===== verification/Ipv4_Fragmentation.thy ===== *)
theory Ipv4_Fragmentation
  imports Ipv4_Header
begin

text \<open>
  Fragmentation and reassembly of IPv4 datagrams in \<open>src/internet/model/ipv4-l3-protocol.cc\<close>: cutting a
  payload to the size of a link (\<open>DoFragmentation\<close>), collecting the fragments of a datagram (the class
  \<open>Fragments\<close> and \<open>ProcessFragment\<close>), and the timeouts of the datagrams that stay incomplete.
\<close>

section \<open>Cutting\<close>

text \<open>
  The loop of \<open>DoFragmentation\<close>, bounded by a number of rounds: with an MTU below 28 the fragments
  would be empty and the loop would not end. \<open>csum\<close> is \<open>Node::ChecksumEnabled ()\<close>. The offset has 16
  bits, sums with sizes 32.
\<close>

fun DoFragmentation_loop ::
  "bool \<Rightarrow> ipv4_header \<Rightarrow> packet \<Rightarrow> u32 \<Rightarrow> nat \<Rightarrow> u16 \<Rightarrow> (packet \<times> ipv4_header) list res" where
  "DoFragmentation_loop csum ipv4Header p fragmentSize 0 offset = Inl NoFuel"
| "DoFragmentation_loop csum ipv4Header p fragmentSize (Suc n) offset =
     (let moreFragment = Packet_GetSize p > ucast offset + fragmentSize;
          currentSize = (if moreFragment then fragmentSize else Packet_GetSize p - ucast offset);
          h1 = (if moreFragment \<or> \<not> Ipv4Header_IsLastFragment ipv4Header then Ipv4Header_SetMoreFragments ipv4Header
                else Ipv4Header_SetLastFragment ipv4Header)
      in bind_res (Packet_CreateFragment (ucast offset) currentSize p) (\<lambda>fragment.
         bind_res (Ipv4Header_SetFragmentOffset (offset + h_fragmentOffset ipv4Header) h1) (\<lambda>h2.
           let h3 = Ipv4Header_SetPayloadSize (ucast currentSize) h2;
               h4 = (if csum then Ipv4Header_EnableChecksum h3 else h3)
           in if moreFragment then
                bind_res (DoFragmentation_loop csum ipv4Header p fragmentSize n (offset + ucast currentSize)) (\<lambda>rest.
                  Inr ((fragment, h4) # rest))
              else Inr [(fragment, h4)])))"

definition DoFragmentation ::
  "bool \<Rightarrow> nat \<Rightarrow> packet \<Rightarrow> ipv4_header \<Rightarrow> u32 \<Rightarrow> (packet \<times> ipv4_header) list res" where
  "DoFragmentation csum fuel packet ipv4Header outIfaceMtu =
     ns_assert (Ipv4Header_GetSerializedSize ipv4Header = 5 * 4)
       (let fragmentSize = (outIfaceMtu - of_nat (Ipv4Header_GetSerializedSize ipv4Header)) AND NOT 0x7
        in DoFragmentation_loop csum ipv4Header (Packet_Copy packet) fragmentSize fuel 0)"

section \<open>Collecting\<close>

record fragments =
  fr_moreFragment :: bool
  fr_fragments :: "(packet \<times> u16) list"
  fr_timeoutIter :: nat

definition Fragments_new :: fragments where
  "Fragments_new = \<lparr>fr_moreFragment = False, fr_fragments = [], fr_timeoutIter = 0\<rparr>"

text \<open>The position of a new fragment: before the first one with a larger offset.\<close>

fun insert_fragment :: "packet \<times> u16 \<Rightarrow> (packet \<times> u16) list \<Rightarrow> (packet \<times> u16) list" where
  "insert_fragment x [] = [x]"
| "insert_fragment x (y # ys) = (if snd y > snd x then x # y # ys else y # insert_fragment x ys)"

definition Fragments_AddFragment :: "packet \<Rightarrow> u16 \<Rightarrow> bool \<Rightarrow> fragments \<Rightarrow> fragments" where
  "Fragments_AddFragment fragment fragmentOffset moreFragment f =
     (let at_end = (\<forall>y \<in> set (fr_fragments f). \<not> snd y > fragmentOffset)
      in f\<lparr>fr_moreFragment := (if at_end then moreFragment else fr_moreFragment f),
           fr_fragments := insert_fragment (fragment, fragmentOffset) (fr_fragments f)\<rparr>)"

fun IsEntire_loop :: "u16 \<Rightarrow> (packet \<times> u16) list \<Rightarrow> bool" where
  "IsEntire_loop lastEndOffset [] \<longleftrightarrow> True"
| "IsEntire_loop lastEndOffset ((p, off) # rest) \<longleftrightarrow>
     \<not> lastEndOffset < off \<and>
     (let fragmentEnd = ucast (Packet_GetSize p + ucast off) in IsEntire_loop (max lastEndOffset fragmentEnd) rest)"

definition Fragments_IsEntire :: "fragments \<Rightarrow> bool" where
  "Fragments_IsEntire f \<longleftrightarrow>
     (\<not> fr_moreFragment f \<and> length (fr_fragments f) > 0) \<and> IsEntire_loop 0 (fr_fragments f)"

fun GetPacket_loop :: "(packet \<times> u16) list \<Rightarrow> u16 \<Rightarrow> packet \<Rightarrow> packet res" where
  "GetPacket_loop [] lastEndOffset p = Inr p"
| "GetPacket_loop ((fragment, off) # rest) lastEndOffset p =
     bind_res
       (if lastEndOffset > off then
          let newStart = ucast (lastEndOffset - off) :: u32 in
          if Packet_GetSize fragment > newStart then
            bind_res (Packet_CreateFragment newStart (Packet_GetSize fragment - newStart) fragment) (\<lambda>temp.
              Inr (Packet_AddAtEnd temp p))
          else Inr p
        else Inr (Packet_AddAtEnd fragment p))
       (\<lambda>p1. GetPacket_loop rest (ucast (Packet_GetSize p1)) p1)"

definition Fragments_GetPacket :: "fragments \<Rightarrow> packet res" where
  "Fragments_GetPacket f =
     (case fr_fragments f of
        [] \<Rightarrow> Inl Undefined
      | (first, off) # rest \<Rightarrow> GetPacket_loop rest (ucast (Packet_GetSize first)) (Packet_Copy first))"

text \<open>\<open>GetPartialPacket\<close>; \<open>uid\<close> is the id of the empty packet it creates.\<close>

fun GetPartialPacket_loop :: "(packet \<times> u16) list \<Rightarrow> u16 \<Rightarrow> packet \<Rightarrow> packet res" where
  "GetPartialPacket_loop [] lastEndOffset p = Inr p"
| "GetPartialPacket_loop ((fragment, off) # rest) lastEndOffset p =
     bind_res
       (if lastEndOffset > off then
          let newStart = ucast (lastEndOffset - off) :: u32 in
          bind_res (Packet_CreateFragment newStart (Packet_GetSize fragment - newStart) fragment) (\<lambda>temp.
            Inr (Packet_AddAtEnd temp p))
        else if lastEndOffset = off then Inr (Packet_AddAtEnd fragment p)
        else Inr p)
       (\<lambda>p1. GetPartialPacket_loop rest (ucast (Packet_GetSize p1)) p1)"

definition Fragments_GetPartialPacket :: "u64 \<Rightarrow> fragments \<Rightarrow> packet res" where
  "Fragments_GetPartialPacket uid f =
     (let p = \<lparr>pk_uid = uid, pk_tags = [], pk_bytes = []\<rparr> in
      case fr_fragments f of
        [] \<Rightarrow> Inl Undefined
      | (first, off) # rest \<Rightarrow> if off > 0 then Inr p else GetPartialPacket_loop (fr_fragments f) 0 p)"

section \<open>Reassembly with timeouts\<close>

text \<open>
  The fragments of each datagram, and the list of timeouts in the order in which they were set. An
  iterator into that list is the number of its entry.
\<close>

type_synonym fragment_key = "u64 \<times> u32"

record frag_timeout =
  to_id :: nat
  to_time :: u64
  to_key :: fragment_key
  to_header :: ipv4_header
  to_iif :: u32

record reassembly =
  ra_fragments :: "fragment_key \<rightharpoonup> fragments"
  ra_timeouts :: "frag_timeout list"
  ra_nextId :: nat
  ra_expiration :: u64

text \<open>What the handlers do besides: schedule \<open>HandleTimeout\<close>, send an ICMP message, trace a drop.\<close>

datatype frag_effect =
    ScheduleHandleTimeout u64
  | SendTimeExceededTtl ipv4_header packet
  | DropFragmentTimeout ipv4_header packet u32

definition fragment_key_of :: "ipv4_header \<Rightarrow> fragment_key" where
  "fragment_key_of h =
     (push_bit 32 (ucast (h_source h)) OR ucast (h_destination h),
      push_bit 16 (ucast (h_identification h)) OR ucast (h_protocol h))"

definition SetTimeout ::
  "u64 \<Rightarrow> fragment_key \<Rightarrow> ipv4_header \<Rightarrow> u32 \<Rightarrow> reassembly \<Rightarrow> nat \<times> reassembly \<times> frag_effect list" where
  "SetTimeout now k h iif r =
     (let i = ra_nextId r;
          fx = (if ra_timeouts r = [] then [ScheduleHandleTimeout (ra_expiration r)] else [])
      in (i, r\<lparr>ra_timeouts := ra_timeouts r @
                 [\<lparr>to_id = i, to_time = now + ra_expiration r, to_key = k, to_header = h, to_iif = iif\<rparr>],
               ra_nextId := i + 1\<rparr>, fx))"

definition ProcessFragment ::
  "u64 \<Rightarrow> packet \<Rightarrow> ipv4_header \<Rightarrow> u32 \<Rightarrow> reassembly \<Rightarrow> (packet option \<times> reassembly \<times> frag_effect list) res" where
  "ProcessFragment now packet h iif r =
     (let k = fragment_key_of h;
          p = Packet_Copy packet;
          (f0, r1, fx) = (case ra_fragments r k of
              None \<Rightarrow> let (i, r', fx') = SetTimeout now k h iif r in (Fragments_new\<lparr>fr_timeoutIter := i\<rparr>, r', fx')
            | Some f \<Rightarrow> (f, r, []));
          f1 = Fragments_AddFragment p (h_fragmentOffset h) (\<not> Ipv4Header_IsLastFragment h) f0
      in if Fragments_IsEntire f1 then
           bind_res (Fragments_GetPacket f1) (\<lambda>whole.
             Inr (Some whole,
                  r1\<lparr>ra_timeouts := filter (\<lambda>t. to_id t \<noteq> fr_timeoutIter f1) (ra_timeouts r1),
                     ra_fragments := (ra_fragments r1)(k := None)\<rparr>, fx))
         else Inr (None, r1\<lparr>ra_fragments := (ra_fragments r1)(k \<mapsto> f1)\<rparr>, fx))"

text \<open>\<open>HandleFragmentsTimeout\<close>; a key that is not in the map would be a dereference of \<open>end ()\<close>.\<close>

definition HandleFragmentsTimeout ::
  "u64 \<Rightarrow> frag_timeout \<Rightarrow> (fragment_key \<rightharpoonup> fragments) \<Rightarrow> ((fragment_key \<rightharpoonup> fragments) \<times> frag_effect list) res" where
  "HandleFragmentsTimeout uid t m =
     (case m (to_key t) of
        None \<Rightarrow> Inl Undefined
      | Some f \<Rightarrow>
          bind_res (Fragments_GetPartialPacket uid f) (\<lambda>packet.
            Inr (m(to_key t := None),
                 (if Packet_GetSize packet > 8 then [SendTimeExceededTtl (to_header t) packet] else []) @
                 [DropFragmentTimeout (to_header t) packet (to_iif t)])))"

fun HandleTimeout_loop ::
  "u64 \<Rightarrow> u64 \<Rightarrow> frag_timeout list \<Rightarrow> (fragment_key \<rightharpoonup> fragments) \<Rightarrow>
   (frag_timeout list \<times> (fragment_key \<rightharpoonup> fragments) \<times> frag_effect list) res" where
  "HandleTimeout_loop uid now [] m = Inr ([], m, [])"
| "HandleTimeout_loop uid now (t # ts) m =
     (if to_time t = now then
        bind_res (HandleFragmentsTimeout uid t m) (\<lambda>(m1, fx1).
        bind_res (HandleTimeout_loop uid now ts m1) (\<lambda>(ts2, m2, fx2). Inr (ts2, m2, fx1 @ fx2)))
      else Inr (t # ts, m, []))"

definition HandleTimeout :: "u64 \<Rightarrow> u64 \<Rightarrow> reassembly \<Rightarrow> (reassembly \<times> frag_effect list) res" where
  "HandleTimeout uid now r =
     bind_res (HandleTimeout_loop uid now (ra_timeouts r) (ra_fragments r)) (\<lambda>(ts, m, fx).
       Inr (r\<lparr>ra_timeouts := ts, ra_fragments := m\<rparr>,
            case ts of [] \<Rightarrow> fx | t # _ \<Rightarrow> fx @ [ScheduleHandleTimeout (to_time t - now)]))"

section \<open>Cutting, in terms of lists\<close>

lemma CreateFragment_ok:
  assumes "length (pk_bytes p) < 2 ^ 32" and "unat start + unat len \<le> length (pk_bytes p)"
  shows "Packet_CreateFragment start len p = Inr (p\<lparr>pk_bytes := take (unat len) (drop (unat start) (pk_bytes p))\<rparr>)"
proof -
  have n: "unat (Packet_GetSize p) = length (pk_bytes p)"
    using assms(1) by (simp add: Packet_GetSize_def unsigned_of_nat take_bit_nat_eq_self)
  have "unat start + unat len < 2 ^ LENGTH(32)" using assms by simp
  then have a: "unat (start + len) = unat start + unat len" by (rule unat_add_nowrap)
  have le: "start + len \<le> Packet_GetSize p" using assms(2) by (simp add: word_le_nat_alt n a)
  then have "unat (Packet_GetSize p - (start + len)) = length (pk_bytes p) - (unat start + unat len)"
    by (simp add: unat_sub n a)
  with le assms(2) show ?thesis
    by (simp add: Packet_CreateFragment_def Packet_RemoveAtEnd_def Packet_RemoveAtStart_def Let_def)
qed

function chunks :: "nat \<Rightarrow> nat \<Rightarrow> 'a list \<Rightarrow> (nat \<times> 'a list) list" where
  "chunks n off xs = (if 0 < n \<and> n < length xs then (off, take n xs) # chunks n (off + n) (drop n xs) else [(off, xs)])"
  by pat_completeness auto
termination by (relation "measure (\<lambda>(n, off, xs). length xs)") auto

declare chunks.simps [simp del]

text \<open>A list of spans that follow one another without a gap, all but the last of them not empty.\<close>

fun contiguous :: "nat \<Rightarrow> (nat \<times> 'a list) list \<Rightarrow> bool" where
  "contiguous e [] \<longleftrightarrow> True"
| "contiguous e ((off, xs) # rest) \<longleftrightarrow> off = e \<and> (rest = [] \<or> xs \<noteq> []) \<and> contiguous (e + length xs) rest"

lemma chunks_nonempty [simp]: "chunks n off xs \<noteq> []"
  by (subst chunks.simps) simp

lemma concat_chunks: "concat (map snd (chunks n off xs)) = xs"
proof (induction n off xs rule: chunks.induct)
  case (1 n off xs)
  then show ?case by (subst chunks.simps) auto
qed

lemma contiguous_chunks: "contiguous off (chunks n off xs)"
proof (induction n off xs rule: chunks.induct)
  case (1 n off xs)
  then show ?case by (subst chunks.simps) auto
qed

lemma chunks_size: "0 < n \<Longrightarrow> (k, ys) \<in> set (chunks n off xs) \<Longrightarrow> length ys \<le> n"
proof (induction n off xs rule: chunks.induct)
  case (1 n off xs)
  then show ?case by (subst (asm) chunks.simps) (auto split: if_splits)
qed

lemma chunks_aligned: "d dvd n \<Longrightarrow> d dvd off \<Longrightarrow> (k, ys) \<in> set (chunks n off xs) \<Longrightarrow> d dvd k"
proof (induction n off xs rule: chunks.induct)
  case (1 n off xs)
  then show ?case by (subst (asm) chunks.simps) (auto split: if_splits)
qed

lemma chunks_range: "(k, ys) \<in> set (chunks n off xs) \<Longrightarrow> off \<le> k \<and> k + length ys \<le> off + length xs"
proof (induction n off xs rule: chunks.induct)
  case (1 n off xs)
  then show ?case by (subst (asm) chunks.simps) (fastforce split: if_splits)
qed

text \<open>What the loop makes of a chunk.\<close>

fun fragment_of :: "bool \<Rightarrow> ipv4_header \<Rightarrow> packet \<Rightarrow> nat \<times> bytes \<Rightarrow> packet \<times> ipv4_header" where
  "fragment_of csum h p (k, bs) =
     (p\<lparr>pk_bytes := bs\<rparr>,
      h\<lparr>h_flags := (if k + length bs < length (pk_bytes p) \<or> \<not> Ipv4Header_IsLastFragment h
                   then h_flags h OR MORE_FRAGMENTS else h_flags h AND NOT MORE_FRAGMENTS),
        h_fragmentOffset := of_nat k + h_fragmentOffset h, h_payloadSize := of_nat (length bs),
        h_calcChecksum := csum \<or> h_calcChecksum h\<rparr>)"

lemma and7_take_bit: "(x :: u16) AND 7 = take_bit 3 x"
  by (simp add: take_bit_eq_mask mask_eq_exp_minus_1)

lemma and7_iff: "(x :: u16) AND 7 = 0 \<longleftrightarrow> 8 dvd unat x"
proof -
  have "unat (take_bit 3 x) = unat x mod 8" by (simp add: take_bit_eq_mod unat_mod_distrib)
  then show ?thesis unfolding and7_take_bit by (metis dvd_eq_mod_eq_0 unsigned_eq_0_iff)
qed

lemma and7_add: "(x :: u16) AND 7 = 0 \<Longrightarrow> y AND 7 = 0 \<Longrightarrow> (x + y) AND 7 = 0"
proof -
  assume "x AND 7 = 0" "y AND 7 = 0"
  then have "8 dvd unat x + unat y" unfolding and7_iff by (rule dvd_add)
  then have "8 dvd (unat x + unat y) mod 65536" by (intro dvd_mod) simp_all
  then show ?thesis unfolding and7_iff by (simp add: unat_word_ariths)
qed

lemma and7_of_nat: "8 dvd k \<Longrightarrow> (of_nat k :: u16) AND 7 = 0"
proof -
  assume "8 dvd k"
  then have "8 dvd k mod 65536" by (intro dvd_mod) simp_all
  then show ?thesis unfolding and7_iff by (simp add: unsigned_of_nat take_bit_eq_mod)
qed

lemma fragmentation_loop:
  assumes "length (pk_bytes p) \<le> 65535" and "unat fs \<le> 65535" and "0 < unat fs" and "8 dvd unat fs"
    and "h_fragmentOffset h AND 7 = 0" and "8 dvd k" and "k \<le> length (pk_bytes p)" and "length (pk_bytes p) - k < fuel"
  shows "DoFragmentation_loop csum h p fs fuel (of_nat k) =
    Inr (map (fragment_of csum h p) (chunks (unat fs) k (drop k (pk_bytes p))))"
  using assms(6-8)
proof (induction fuel arbitrary: k)
  case (Suc fuel)
  let ?n = "length (pk_bytes p)"
  have k: "unat (of_nat k :: u16) = k" using Suc.prems(2) assms(1) by (simp add: unsigned_of_nat take_bit_nat_eq_self)
  then have k32: "unat (ucast (of_nat k :: u16) :: u32) = k"
    using Suc.prems(2) assms(1) by (simp add: unsigned_ucast_eq take_bit_nat_eq_self)
  have n: "unat (Packet_GetSize p) = ?n"
    using assms(1) by (simp add: Packet_GetSize_def unsigned_of_nat take_bit_nat_eq_self)
  have "unat (ucast (of_nat k :: u16) :: u32) + unat fs < 2 ^ LENGTH(32)" using k32 Suc.prems(2) assms(1,2) by simp
  then have end_: "unat (ucast (of_nat k :: u16) + fs) = k + unat fs" by (simp add: unat_add_nowrap k32)
  have more: "Packet_GetSize p > ucast (of_nat k :: u16) + fs \<longleftrightarrow> k + unat fs < ?n" by (simp add: word_less_nat_alt end_ n)
  have off: "(of_nat k + h_fragmentOffset h) AND 7 = 0" by (rule and7_add [OF and7_of_nat [OF Suc.prems(1)] assms(5)])
  show ?case
  proof (cases "k + unat fs < ?n")
    case True
    have c: "Packet_CreateFragment (ucast (of_nat k :: u16)) fs p = Inr (p\<lparr>pk_bytes := take (unat fs) (drop k (pk_bytes p))\<rparr>)"
      using CreateFragment_ok [of p "ucast (of_nat k :: u16)" fs] True assms(1) by (simp add: k32)
    have next_: "(of_nat k :: u16) + ucast fs = of_nat (k + unat fs)" by (simp add:)
    have IH: "DoFragmentation_loop csum h p fs fuel (of_nat (k + unat fs)) =
        Inr (map (fragment_of csum h p) (chunks (unat fs) (k + unat fs) (drop (k + unat fs) (pk_bytes p))))"
      by (rule Suc.IH) (use Suc.prems assms(3,4) True in auto)
    have ch: "chunks (unat fs) k (drop k (pk_bytes p)) =
        (k, take (unat fs) (drop k (pk_bytes p))) # chunks (unat fs) (k + unat fs) (drop (k + unat fs) (pk_bytes p))"
      using True assms(3) by (subst chunks.simps) (simp add: less_diff_conv add.commute)
    have "k + length (take (unat fs) (drop k (pk_bytes p))) < ?n" using True by simp
    then show ?thesis
      using True IH
      by (simp add: more c ch next_ Ipv4Header_SetFragmentOffset_def off Let_def Ipv4Header_SetMoreFragments_def
          Ipv4Header_SetPayloadSize_def Ipv4Header_EnableChecksum_def del: of_nat_add)
  next
    case False
    let ?cur = "Packet_GetSize p - ucast (of_nat k :: u16)"
    have "ucast (of_nat k :: u16) \<le> Packet_GetSize p" using Suc.prems(2) by (simp add: word_le_nat_alt k32 n)
    then have cur: "unat ?cur = ?n - k" by (simp add: unat_sub k32 n)
    have c: "Packet_CreateFragment (ucast (of_nat k :: u16)) ?cur p = Inr (p\<lparr>pk_bytes := drop k (pk_bytes p)\<rparr>)"
      using CreateFragment_ok [of p "ucast (of_nat k :: u16)" ?cur] Suc.prems(2) assms(1) by (simp add: k32 cur)
    have "(of_nat (unat ?cur) :: u16) = ucast ?cur" by (rule of_nat_unat)
    then have size16: "(ucast ?cur :: u16) = of_nat (?n - k)" by (simp only: cur)
    have "chunks (unat fs) k (drop k (pk_bytes p)) = [(k, drop k (pk_bytes p))]"
      using False by (subst chunks.simps) auto
    with False Suc.prems(2) show ?thesis
      by (simp add: more c size16 Ipv4Header_SetFragmentOffset_def off Let_def Ipv4Header_SetMoreFragments_def
          Ipv4Header_SetLastFragment_def Ipv4Header_SetPayloadSize_def Ipv4Header_EnableChecksum_def del: of_nat_diff)
  qed
qed simp

lemma unat_clear_low3: "unat ((x :: u32) AND NOT 7) = 8 * (unat x div 8)"
proof -
  have m: "(7 :: u32) = mask 3" by (simp add: mask_eq_exp_minus_1)
  have "x AND NOT 7 = push_bit 3 (drop_bit 3 x)"
    unfolding m by (rule bit_word_eqI) (auto simp: bit_simps)
  also have "\<dots> = 8 * (x div 8)" by (simp add: push_bit_eq_mult drop_bit_eq_div mult.commute)
  finally have e: "x AND NOT 7 = 8 * (x div 8)" .
  have d: "unat (x div 8) = unat x div 8" by (simp add: unat_div_distrib)
  have "8 * (unat x div 8) \<le> unat x" by simp
  then have "8 * (unat x div 8) < 2 ^ LENGTH(32)" using unsigned_less [of x] by (rule le_less_trans)
  moreover have "unat (8 * (x div 8)) = unat (8 :: u32) * unat (x div 8) mod 2 ^ LENGTH(32)" by (rule unat_word_ariths)
  moreover have "unat (8 :: u32) = 8" by simp
  ultimately show ?thesis by (simp only: e d mod_less)
qed

lemma fragment_size:
  assumes "28 \<le> unat (mtu :: u32)"
  shows "8 dvd unat ((mtu - 20) AND NOT 7)" and "0 < unat ((mtu - 20) AND NOT 7)" and "unat ((mtu - 20) AND NOT 7) + 20 \<le> unat mtu"
proof -
  have u: "unat (mtu - 20) = unat mtu - 20" using assms(1) by (simp add: unat_sub word_le_nat_alt)
  show "8 dvd unat ((mtu - 20) AND NOT 7)" unfolding unat_clear_low3 by simp
  show "0 < unat ((mtu - 20) AND NOT 7)" unfolding unat_clear_low3 u using assms by (simp add: div_greater_zero_iff)
  have "8 * ((unat mtu - 20) div 8) \<le> unat mtu - 20" by simp
  then show "unat ((mtu - 20) AND NOT 7) + 20 \<le> unat mtu" using assms unfolding unat_clear_low3 u by linarith
qed

text \<open>The chunks that \<open>DoFragmentation\<close> makes of a payload.\<close>

definition mtu_chunks :: "u32 \<Rightarrow> bytes \<Rightarrow> (nat \<times> bytes) list" where
  "mtu_chunks mtu bs = chunks (unat ((mtu - 20) AND NOT 7)) 0 bs"

lemma DoFragmentation_chunks:
  assumes "h_headerSize h = 20" and "h_fragmentOffset h AND 7 = 0" and "length (pk_bytes p) \<le> 65535"
    and "28 \<le> unat mtu" and "unat mtu \<le> 65535" and "length (pk_bytes p) < fuel"
  shows "DoFragmentation csum fuel p h mtu = Inr (map (fragment_of csum h p) (mtu_chunks mtu (pk_bytes p)))"
proof -
  have "unat ((mtu - 20) AND NOT 7) \<le> 65535" using fragment_size(3) [OF assms(4)] assms(5) by linarith
  from fragmentation_loop [OF assms(3) this fragment_size(2,1) [OF assms(4)] assms(2), of 0 fuel csum] assms(1,6)
  show ?thesis by (simp add: DoFragmentation_def Ipv4Header_GetSerializedSize_def Packet_Copy_def mtu_chunks_def)
qed

lemma contiguous_nth:
  "contiguous e cs \<Longrightarrow> i < length cs \<Longrightarrow> fst (cs ! i) = e + length (concat (map snd (take i cs)))"
proof (induction cs arbitrary: e i)
  case (Cons c cs)
  then show ?case by (cases c; cases i) auto
qed simp

lemma contiguous_above: "contiguous e cs \<Longrightarrow> (k, ys) \<in> set cs \<Longrightarrow> e \<le> k"
proof (induction cs arbitrary: e)
  case (Cons c cs)
  then show ?case by (cases c) force
qed simp

lemma chunks_more:
  "i < length (chunks n off xs) \<Longrightarrow>
   fst (chunks n off xs ! i) + length (snd (chunks n off xs ! i)) < off + length xs \<longleftrightarrow> Suc i < length (chunks n off xs)"
proof (induction n off xs arbitrary: i rule: chunks.induct)
  case (1 n off xs)
  show ?case
  proof (cases "0 < n \<and> n < length xs")
    case True
    then have e: "chunks n off xs = (off, take n xs) # chunks n (off + n) (drop n xs)" by (subst chunks.simps) simp
    show ?thesis
    proof (cases i)
      case 0
      with True e show ?thesis by simp
    next
      case (Suc j)
      with 1(2) e have "j < length (chunks n (off + n) (drop n xs))" by simp
      from 1(1) [OF True this] Suc True e show ?thesis by simp
    qed
  next
    case False
    then have "chunks n off xs = [(off, xs)]" by (subst chunks.simps) auto
    with 1(2) show ?thesis by simp
  qed
qed

section \<open>Putting pieces together\<close>

text \<open>A fragment that is a piece of the data; the pieces may overlap.\<close>

fun piece :: "bytes \<Rightarrow> packet \<times> u16 \<Rightarrow> bool" where
  "piece D (q, off) \<longleftrightarrow> unat off + length (pk_bytes q) \<le> length D \<and>
     pk_bytes q = take (length (pk_bytes q)) (drop (unat off) D)"

fun span_end :: "packet \<times> u16 \<Rightarrow> nat" where
  "span_end (q, off) = unat off + length (pk_bytes q)"

lemma unat_size: "length (pk_bytes q) < 2 ^ 32 \<Longrightarrow> unat (Packet_GetSize q) = length (pk_bytes q)"
  by (simp add: Packet_GetSize_def unsigned_of_nat take_bit_nat_eq_self)

lemma unat_of_nat_u16: "k \<le> 65535 \<Longrightarrow> unat (of_nat k :: u16) = k"
  by (simp add: unsigned_of_nat take_bit_nat_eq_self)

lemma unat_ucast_u16_u32 [simp]: "unat (ucast (x :: u16) :: u32) = unat x"
proof -
  have "unat x < 2 ^ 32" by (rule less_trans [OF unsigned_less]) simp
  then show ?thesis by (simp add: unsigned_ucast_eq take_bit_nat_eq_self)
qed

lemma size16: "length (pk_bytes q) \<le> 65535 \<Longrightarrow> (ucast (Packet_GetSize q) :: u16) = of_nat (length (pk_bytes q))"
proof -
  assume "length (pk_bytes q) \<le> 65535"
  then have "unat (Packet_GetSize q) = length (pk_bytes q)" by (intro unat_size) simp
  moreover have "(of_nat (unat (Packet_GetSize q)) :: u16) = ucast (Packet_GetSize q)" by (rule of_nat_unat)
  ultimately show ?thesis by simp
qed

lemma fragment_end16:
  assumes "unat off + length (pk_bytes q) \<le> 65535"
  shows "(ucast (Packet_GetSize q + ucast (off :: u16)) :: u16) = of_nat (unat off + length (pk_bytes q))"
proof -
  have "unat (Packet_GetSize q) = length (pk_bytes q)" using assms by (intro unat_size) simp
  then have "unat (Packet_GetSize q + ucast off) = length (pk_bytes q) + unat off"
    using assms by (subst unat_add_nowrap) simp_all
  moreover have "(of_nat (unat (Packet_GetSize q + ucast off)) :: u16) = ucast (Packet_GetSize q + ucast off)"
    by (rule of_nat_unat)
  ultimately show ?thesis by (simp add: add.commute)
qed

lemma less_of_nat_u16: "k \<le> 65535 \<Longrightarrow> (of_nat k :: u16) < off \<longleftrightarrow> k < unat off"
  by (simp add: word_less_nat_alt unat_of_nat_u16)

lemma max_of_nat_u16: "a \<le> 65535 \<Longrightarrow> b \<le> 65535 \<Longrightarrow> max (of_nat a :: u16) (of_nat b) = of_nat (max a b)"
  by (simp add: max_def word_le_nat_alt unat_of_nat_u16)

text \<open>The test of \<open>IsEntire\<close> on natural numbers.\<close>

fun no_gap :: "nat \<Rightarrow> (packet \<times> u16) list \<Rightarrow> bool" where
  "no_gap e [] \<longleftrightarrow> True"
| "no_gap e (x # xs) \<longleftrightarrow> unat (snd x) \<le> e \<and> no_gap (max e (span_end x)) xs"

lemma IsEntire_no_gap:
  assumes "e \<le> 65535" and "\<forall>x \<in> set xs. span_end x \<le> 65535"
  shows "IsEntire_loop (of_nat e) xs \<longleftrightarrow> no_gap e xs"
  using assms
proof (induction xs arbitrary: e)
  case (Cons x xs)
  obtain q off where x: "x = (q, off)" by (cases x)
  have b: "unat off + length (pk_bytes q) \<le> 65535" using Cons.prems(2) by (simp add: x)
  have "max e (span_end x) \<le> 65535" using Cons.prems by simp
  from Cons.IH [OF this] Cons.prems b show ?case
    by (simp add: x Let_def fragment_end16 less_of_nat_u16 max_of_nat_u16 not_less del: of_nat_add)
qed simp

lemma take_append_piece:
  assumes "piece D (q, off)" and "unat off \<le> e" and "e \<le> length D"
  shows "take e D @ drop (e - unat off) (pk_bytes q) = take (max e (span_end (q, off))) D"
proof -
  let ?k = "unat off" and ?n = "length (pk_bytes q)"
  have q: "pk_bytes q = take ?n (drop ?k D)" "?k + ?n \<le> length D" using assms(1) by simp_all
  have "drop (e - ?k) (pk_bytes q) = drop (e - ?k) (take ?n (drop ?k D))" using q(1) by simp
  also have "\<dots> = take (?n - (e - ?k)) (drop e D)" using assms(2) by (simp add: drop_take)
  finally have d: "drop (e - ?k) (pk_bytes q) = take (?n - (e - ?k)) (drop e D)" .
  have "max e (?k + ?n) = e + (?n - (e - ?k))" using assms(2) by simp
  then show ?thesis by (simp add: d take_add)
qed

lemma GetPacket_loop_pieces:
  assumes "length D \<le> 65535" and "pk_bytes p = take e D" and "e \<le> length D"
    and "\<forall>x \<in> set xs. piece D x" and "no_gap e xs"
  shows "GetPacket_loop xs (of_nat e) p = Inr (p\<lparr>pk_bytes := take (fold max (map span_end xs) e) D\<rparr>)"
  using assms(2-5)
proof (induction xs arbitrary: e p)
  case (Cons x xs)
  obtain q off where x: "x = (q, off)" by (cases x)
  have pc: "piece D (q, off)" "unat off \<le> e" using Cons.prems by (simp_all add: x)
  let ?m = "max e (span_end x)"
  let ?p = "p\<lparr>pk_bytes := take ?m D\<rparr>"
  have m: "?m \<le> length D" "e \<le> 65535" "?m \<le> 65535" using pc Cons.prems(2) assms(1) by (simp_all add: x)
  have size_q: "length (pk_bytes q) < 2 ^ 32" using pc assms(1) by simp
  have sq: "unat (Packet_GetSize q) = length (pk_bytes q)" by (rule unat_size [OF size_q])
  have step: "(if of_nat e > off then
          let newStart = ucast (of_nat e - off) :: u32 in
          if Packet_GetSize q > newStart then
            bind_res (Packet_CreateFragment newStart (Packet_GetSize q - newStart) q) (\<lambda>temp. Inr (Packet_AddAtEnd temp p))
          else Inr p
        else Inr (Packet_AddAtEnd q p)) = Inr ?p"
  proof (cases "unat off < e")
    case True
    then have gt: "(of_nat e :: u16) > off" using m by (simp add: word_less_nat_alt unat_of_nat_u16)
    then have ns: "unat (of_nat e - off) = e - unat off" using m by (simp add: unat_sub unat_of_nat_u16)
    show ?thesis
    proof (cases "e - unat off < length (pk_bytes q)")
      case inner: True
      let ?s = "ucast (of_nat e - off :: u16) :: u32"
      have "?s < Packet_GetSize q" using inner by (simp add: word_less_nat_alt ns sq)
      then have "unat (Packet_GetSize q - ?s) = length (pk_bytes q) - (e - unat off)" by (simp add: unat_sub ns sq)
      with CreateFragment_ok [OF size_q, of ?s "Packet_GetSize q - ?s"] inner
      have "Packet_CreateFragment ?s (Packet_GetSize q - ?s) q = Inr (q\<lparr>pk_bytes := drop (e - unat off) (pk_bytes q)\<rparr>)"
        by (simp add: ns)
      with gt \<open>?s < Packet_GetSize q\<close> take_append_piece [OF pc Cons.prems(2)] Cons.prems(1) show ?thesis
        by (simp add: Let_def Packet_AddAtEnd_def x)
    next
      case outer: False
      then have "?m = e" using True by (simp add: x)
      moreover have "\<not> ucast (of_nat e - off :: u16) < Packet_GetSize q" using outer by (simp add: word_less_nat_alt ns sq)
      ultimately show ?thesis using gt Cons.prems(1) by (simp add: Let_def)
    qed
  next
    case False
    then have "\<not> (of_nat e :: u16) > off" "unat off = e" using pc(2) m by (simp_all add: word_less_nat_alt unat_of_nat_u16)
    with take_append_piece [OF pc Cons.prems(2)] Cons.prems(1) show ?thesis by (simp add: Packet_AddAtEnd_def x)
  qed
  have len: "length (pk_bytes ?p) = ?m" using m(1) by simp
  then have "(ucast (Packet_GetSize ?p) :: u16) = of_nat ?m" using size16 [of ?p] m(3) by simp
  moreover have "GetPacket_loop xs (of_nat ?m) ?p = Inr (?p\<lparr>pk_bytes := take (fold max (map span_end xs) ?m) D\<rparr>)"
    by (rule Cons.IH) (use Cons.prems m x in auto)
  ultimately show ?case using step by (simp add: x max.commute)
qed simp

section \<open>Fragments in any order\<close>

text \<open>The items that the collector keeps for a list of spans, in the order of their offsets.\<close>

abbreviation by_offset :: "(packet \<times> u16) list \<Rightarrow> bool" where
  "by_offset \<equiv> sorted_wrt (\<lambda>x y. snd x < snd y)"

fun span :: "packet \<times> u16 \<Rightarrow> nat \<times> bytes" where
  "span (q, off) = (unat off, pk_bytes q)"

lemma insert_fragment_front: "\<forall>y \<in> set ys. snd x < snd y \<Longrightarrow> insert_fragment x ys = x # ys"
  by (cases ys) auto

lemma insert_fragment_filter:
  assumes "by_offset G" and "x \<in> set G" and "\<not> P x"
  shows "insert_fragment x (filter P G) = filter (\<lambda>y. P y \<or> y = x) G"
  using assms
proof (induction G)
  case (Cons g G)
  show ?case
  proof (cases "g = x")
    case True
    then have "filter (\<lambda>y. P y \<or> y = x) G = filter P G" using Cons.prems(1) by (intro filter_cong) auto
    with True Cons.prems show ?thesis by (simp add: insert_fragment_front)
  next
    case False
    then have "x \<in> set G" "snd g < snd x" using Cons.prems by auto
    with Cons False show ?thesis by auto
  qed
qed simp

lemma insert_fragment_end: "\<forall>y \<in> set ys. \<not> snd y > snd x \<Longrightarrow> insert_fragment x ys = ys @ [x]"
  by (induction ys) auto

lemma insert_fragment_last: "\<not> (\<forall>y \<in> set ys. \<not> snd y > snd x) \<Longrightarrow> last (insert_fragment x ys) = last ys"
proof (induction ys)
  case (Cons y ys)
  have "insert_fragment x ys \<noteq> []" by (cases ys) auto
  with Cons show ?case by (cases "snd y > snd x") auto
qed simp

text \<open>What the collector holds after some of the items have arrived.\<close>

definition holds :: "(packet \<times> u16) list \<Rightarrow> (packet \<times> u16) set \<Rightarrow> fragments \<Rightarrow> bool" where
  "holds G S f \<longleftrightarrow> fr_fragments f = filter (\<lambda>y. y \<in> S) G \<and>
     (S \<noteq> {} \<longrightarrow> fr_moreFragment f = (last (fr_fragments f) \<noteq> last G))"

lemma AddFragment_holds:
  assumes "by_offset G" and "holds G S f" and "x \<in> set G" and "x \<notin> S" and "S \<subseteq> set G"
  shows "holds G (insert x S) (Fragments_AddFragment (fst x) (snd x) (x \<noteq> last G) f)"
proof -
  have ins: "insert_fragment x (fr_fragments f) = filter (\<lambda>y. y \<in> insert x S) G"
    using insert_fragment_filter [OF assms(1,3), of "\<lambda>y. y \<in> S"] assms(2,4)
    by (simp add: holds_def disj_commute)
  show ?thesis
  proof (cases "\<forall>y \<in> set (fr_fragments f). \<not> snd y > snd x")
    case True
    with ins insert_fragment_end [OF True] show ?thesis
      by (simp add: holds_def Fragments_AddFragment_def Let_def) (metis last_snoc)
  next
    case False
    then have "S \<noteq> {}" using assms(2) by (auto simp: holds_def)
    have "Fragments_AddFragment (fst x) (snd x) (x \<noteq> last G) f =
        f\<lparr>fr_fragments := filter (\<lambda>y. y \<in> insert x S) G\<rparr>"
      unfolding Fragments_AddFragment_def Let_def if_not_P [OF False] using ins by simp
    with ins insert_fragment_last [OF False] assms(2) \<open>S \<noteq> {}\<close> show ?thesis by (simp add: holds_def)
  qed
qed

lemma no_gap_contiguous:
  assumes "contiguous e (map span G)" and "G \<noteq> []" and "P (last G)"
  shows "no_gap e (filter P G) \<longleftrightarrow> (\<forall>g \<in> set G. P g)"
  using assms
proof (induction G arbitrary: e)
  case (Cons g G)
  obtain q off where g: "g = (q, off)" by (cases g)
  have c: "unat off = e" "G = [] \<or> pk_bytes q \<noteq> []" "contiguous (e + length (pk_bytes q)) (map span G)"
    using Cons.prems(1) by (auto simp: g)
  show ?case
  proof (cases "G = []")
    case True
    with Cons.prems(3) c(1) show ?thesis by (simp add: g)
  next
    case False
    with Cons.IH [OF c(3)] Cons.prems(3) have IH: "no_gap (e + length (pk_bytes q)) (filter P G) \<longleftrightarrow> (\<forall>g \<in> set G. P g)"
      by simp
    show ?thesis
    proof (cases "P g")
      case True
      with IH c(1) show ?thesis by (simp add: g)
    next
      case out: False
      have after: "e < unat (snd y)" if "y \<in> set G" for y
      proof -
        have "span y \<in> set (map span G)" using that by simp
        then have "(unat (snd y), pk_bytes (fst y)) \<in> set (map span G)" by (cases y) auto
        from contiguous_above [OF c(3) this] c(2) False show ?thesis by (cases "pk_bytes q") auto
      qed
      have "last G \<in> set (filter P G)" using Cons.prems(3) False by simp
      then obtain y ys where "filter P G = y # ys" by (cases "filter P G") auto
      moreover from this have "y \<in> set G" by (metis filter_is_subset list.set_intros(1) subsetD)
      ultimately show ?thesis using out after [of y] by simp
    qed
  qed
qed simp

lemma fold_max_bounds:
  fixes xs :: "nat list"
  shows "e \<le> fold max xs e" and "x \<in> set xs \<Longrightarrow> x \<le> fold max xs e" and "e \<le> b \<Longrightarrow> \<forall>x \<in> set xs. x \<le> b \<Longrightarrow> fold max xs e \<le> b"
  by (simp_all add: Max.set_eq_fold [symmetric])

text \<open>Overlapping or not, pieces of the same data that leave no gap give it back.\<close>

lemma GetPacket_entire:
  assumes "length D \<le> 65535" and "\<forall>x \<in> set (fr_fragments f). piece D x" and "Fragments_IsEntire f"
    and "\<exists>x \<in> set (fr_fragments f). span_end x = length D"
  shows "\<exists>p'. Fragments_GetPacket f = Inr p' \<and> pk_bytes p' = D \<and> pk_tags p' = pk_tags (fst (hd (fr_fragments f)))"
proof -
  have b: "\<forall>x \<in> set (fr_fragments f). span_end x \<le> length D"
  proof
    fix x assume "x \<in> set (fr_fragments f)"
    then have "piece D x" using assms(2) by blast
    then show "span_end x \<le> length D" by (cases x) auto
  qed
  then have b16: "\<forall>x \<in> set (fr_fragments f). span_end x \<le> 65535" using assms(1) by (meson order_trans)
  have ng: "no_gap 0 (fr_fragments f)"
    using assms(3) IsEntire_no_gap [OF _ b16, of 0] by (simp add: Fragments_IsEntire_def)
  obtain q off rest where f: "fr_fragments f = (q, off) # rest"
    using assms(3) by (cases "fr_fragments f") (auto simp: Fragments_IsEntire_def)
  have off: "unat off = 0" using ng by (simp add: f)
  have q: "piece D (q, off)" using assms(2) by (simp add: f)
  then have qe: "pk_bytes q = take (length (pk_bytes q)) D" "length (pk_bytes q) \<le> length D" using off by simp_all
  let ?e = "length (pk_bytes q)"
  have "GetPacket_loop rest (of_nat ?e) q = Inr (q\<lparr>pk_bytes := take (fold max (map span_end rest) ?e) D\<rparr>)"
    by (rule GetPacket_loop_pieces [OF assms(1) qe]) (use assms(2) ng off f in auto)
  moreover have "fold max (map span_end rest) ?e = length D"
  proof (rule antisym)
    show "fold max (map span_end rest) ?e \<le> length D" by (rule fold_max_bounds(3)) (use qe b f in auto)
    from assms(4) consider "span_end (q, off) = length D" | x where "x \<in> set rest" "span_end x = length D" by (auto simp: f)
    then show "length D \<le> fold max (map span_end rest) ?e"
    proof cases
      case 1
      with fold_max_bounds(1) [of ?e "map span_end rest"] off show ?thesis by simp
    next
      case 2
      then have "length D \<in> set (map span_end rest)" by force
      then show ?thesis by (rule fold_max_bounds(2))
    qed
  qed
  moreover have "?e \<le> 65535" using qe(2) assms(1) by linarith
  ultimately show ?thesis by (simp add: Fragments_GetPacket_def f Packet_Copy_def size16)
qed

lemma contiguous_pieces:
  assumes "contiguous e (map span G)" and "concat (map snd (map span G)) = drop e D" and "e \<le> length D" and "x \<in> set G"
  shows "piece D x"
  using assms
proof (induction G arbitrary: e)
  case (Cons g G)
  obtain q off where g: "g = (q, off)" by (cases g)
  have c: "unat off = e" "contiguous (e + length (pk_bytes q)) (map span G)" using Cons.prems(1) by (auto simp: g)
  have d: "drop e D = pk_bytes q @ concat (map snd (map span G))" using Cons.prems(2) by (simp add: g)
  then have len: "length D - e = length (pk_bytes q) + length (concat (map snd (map span G)))"
    by (metis length_append length_drop)
  show ?case
  proof (cases "x = g")
    case True
    have "take (length (pk_bytes q)) (drop e D) = pk_bytes q" by (simp add: d)
    with len Cons.prems(3) c(1) show ?thesis by (simp add: True g)
  next
    case False
    have "concat (map snd (map span G)) = drop (e + length (pk_bytes q)) D"
      using arg_cong [OF d, of "drop (length (pk_bytes q))"] by (simp add: add.commute)
    with Cons.IH [OF c(2)] len Cons.prems(3,4) False show ?thesis by simp
  qed
qed simp

lemma contiguous_end:
  assumes "contiguous e (map span G)" and "G \<noteq> []"
  shows "span_end (last G) = e + length (concat (map snd (map span G)))"
  using assms
proof (induction G arbitrary: e)
  case (Cons g G)
  then show ?case by (cases g; cases "G = []") auto
qed simp

lemma contiguous_by_offset: "contiguous e (map span G) \<Longrightarrow> by_offset G"
proof (induction G arbitrary: e)
  case (Cons g G)
  obtain q off where g: "g = (q, off)" by (cases g)
  have c: "unat off = e" "G = [] \<or> pk_bytes q \<noteq> []" "contiguous (e + length (pk_bytes q)) (map span G)"
    using Cons.prems by (auto simp: g)
  have "snd g < snd y" if "y \<in> set G" for y
  proof -
    have "span y \<in> set (map span G)" using that by simp
    then have "(unat (snd y), pk_bytes (fst y)) \<in> set (map span G)" by (cases y) auto
    from contiguous_above [OF c(3) this] have "e + length (pk_bytes q) \<le> unat (snd y)" .
    moreover have "pk_bytes q \<noteq> []" using c(2) that by auto
    ultimately show ?thesis using c(1) by (cases "pk_bytes q") (auto simp: word_less_nat_alt g)
  qed
  with Cons.IH [OF c(3)] show ?case by simp
qed simp

text \<open>A collector that holds the pieces \<open>S\<close> of \<open>G\<close> is entire exactly when \<open>S\<close> is all of them.\<close>

lemma holds_entire:
  assumes "contiguous 0 (map span G)" and "G \<noteq> []" and "length (concat (map snd (map span G))) \<le> 65535"
    and "holds G S f" and "S \<subseteq> set G" and "S \<noteq> {}"
  shows "Fragments_IsEntire f \<longleftrightarrow> S = set G"
proof -
  let ?D = "concat (map snd (map span G))"
  have "span_end x \<le> 65535" if "x \<in> set G" for x
    using contiguous_pieces [OF assms(1), of ?D x] that assms(3) by (cases x) auto
  then have b: "\<forall>x \<in> set (fr_fragments f). span_end x \<le> 65535" using assms(4) by (auto simp: holds_def)
  have fr: "fr_fragments f = filter (\<lambda>y. y \<in> S) G" "fr_fragments f \<noteq> []"
    "fr_moreFragment f = (last (fr_fragments f) \<noteq> last G)"
    using assms(4-6) by (auto simp: holds_def filter_empty_conv)
  show ?thesis
  proof (cases "last G \<in> S")
    case True
    then have "last (filter (\<lambda>y. y \<in> S) G) = last G"
      using assms(2) by (induction G) (auto simp: filter_empty_conv)
    with fr no_gap_contiguous [OF assms(1,2), of "\<lambda>y. y \<in> S"] True IsEntire_no_gap [OF _ b, of 0] assms(5)
    show ?thesis by (auto simp: Fragments_IsEntire_def)
  next
    case False
    have "last (fr_fragments f) \<in> S" using last_in_set [OF fr(2)] by (simp add: fr(1))
    with False have "last (fr_fragments f) \<noteq> last G" by auto
    with fr(3) False assms(2) show ?thesis by (auto simp: Fragments_IsEntire_def)
  qed
qed

section \<open>Reassembling a datagram\<close>

text \<open>The state while the pieces \<open>S\<close> of a datagram with key \<open>k\<close> have arrived since \<open>r0\<close>.\<close>

definition collecting ::
  "(packet \<times> u16) list \<Rightarrow> (packet \<times> u16) set \<Rightarrow> fragment_key \<Rightarrow> reassembly \<Rightarrow> reassembly \<Rightarrow> bool" where
  "collecting G S k r0 r \<longleftrightarrow>
     (if S = {} then r = r0
      else \<exists>f t. holds G S f \<and> fr_timeoutIter f = ra_nextId r0 \<and> to_id t = ra_nextId r0 \<and>
        ra_fragments r = (ra_fragments r0)(k \<mapsto> f) \<and> ra_timeouts r = ra_timeouts r0 @ [t])"

lemma iter_AddFragment [simp]: "fr_timeoutIter (Fragments_AddFragment q off m f) = fr_timeoutIter f"
  by (simp add: Fragments_AddFragment_def Let_def)

text \<open>The collector that \<open>ProcessFragment\<close> finds or creates.\<close>

definition find_fragments ::
  "u64 \<Rightarrow> ipv4_header \<Rightarrow> u32 \<Rightarrow> reassembly \<Rightarrow> fragments \<times> reassembly \<times> frag_effect list" where
  "find_fragments now h iif r =
     (case ra_fragments r (fragment_key_of h) of
        None \<Rightarrow> let (i, r', fx') = SetTimeout now (fragment_key_of h) h iif r in (Fragments_new\<lparr>fr_timeoutIter := i\<rparr>, r', fx')
      | Some f \<Rightarrow> (f, r, []))"

lemma ProcessFragment_find:
  assumes "find_fragments now h iif r = (f0, r1, fx)"
  shows "ProcessFragment now packet h iif r =
    (let f1 = Fragments_AddFragment packet (h_fragmentOffset h) (\<not> Ipv4Header_IsLastFragment h) f0
     in if Fragments_IsEntire f1 then
          bind_res (Fragments_GetPacket f1) (\<lambda>whole.
            Inr (Some whole,
                 r1\<lparr>ra_timeouts := filter (\<lambda>t. to_id t \<noteq> fr_timeoutIter f1) (ra_timeouts r1),
                    ra_fragments := (ra_fragments r1)(fragment_key_of h := None)\<rparr>, fx))
        else Inr (None, r1\<lparr>ra_fragments := (ra_fragments r1)(fragment_key_of h \<mapsto> f1)\<rparr>, fx))"
  using assms by (simp add: ProcessFragment_def find_fragments_def Packet_Copy_def Let_def)

lemma find_fragments_collecting:
  assumes "collecting G S k r0 r" and "ra_fragments r0 k = None" and "fragment_key_of h = k"
  obtains f0 r1 fx t where "find_fragments now h iif r = (f0, r1, fx)" "holds G S f0" "fr_timeoutIter f0 = ra_nextId r0"
    "to_id t = ra_nextId r0" "ra_timeouts r1 = ra_timeouts r0 @ [t]"
    "\<And>v. (ra_fragments r1)(k := v) = (ra_fragments r0)(k := v)"
proof (cases "S = {}")
  case True
  then have "r = r0" using assms(1) by (simp add: collecting_def)
  then show ?thesis
    using assms(2,3) True
    by (intro that [of "Fragments_new\<lparr>fr_timeoutIter := ra_nextId r0\<rparr>" "fst (snd (SetTimeout now k h iif r0))"
          "snd (snd (SetTimeout now k h iif r0))"
          "\<lparr>to_id = ra_nextId r0, to_time = now + ra_expiration r0, to_key = k, to_header = h, to_iif = iif\<rparr>"])
       (simp_all add: find_fragments_def SetTimeout_def Let_def holds_def Fragments_new_def)
next
  case False
  then obtain f t where f: "holds G S f" "fr_timeoutIter f = ra_nextId r0" "to_id t = ra_nextId r0"
      "ra_fragments r = (ra_fragments r0)(k \<mapsto> f)" "ra_timeouts r = ra_timeouts r0 @ [t]"
    using assms(1) by (auto simp: collecting_def)
  then show ?thesis using assms(3) by (intro that [of f r "[]" t]) (simp_all add: find_fragments_def)
qed

lemma ProcessFragment_step:
  assumes "contiguous 0 (map span G)" and "G \<noteq> []" and "concat (map snd (map span G)) = D" and "length D \<le> 65535"
    and "ra_fragments r0 k = None" and "\<forall>t \<in> set (ra_timeouts r0). to_id t < ra_nextId r0"
    and "collecting G S k r0 r" and "(q, off) \<in> set G" and "(q, off) \<notin> S" and "S \<subseteq> set G"
    and "fragment_key_of h = k" and "h_fragmentOffset h = off" and "Ipv4Header_IsLastFragment h \<longleftrightarrow> (q, off) = last G"
  shows "insert (q, off) S = set G \<Longrightarrow> \<exists>whole r' fx. ProcessFragment now q h iif r = Inr (Some whole, r', fx) \<and>
      pk_bytes whole = D \<and> pk_tags whole = pk_tags (fst (hd G)) \<and> ra_fragments r' = ra_fragments r0 \<and> ra_timeouts r' = ra_timeouts r0"
    and "insert (q, off) S \<noteq> set G \<Longrightarrow> \<exists>r' fx. ProcessFragment now q h iif r = Inr (None, r', fx) \<and>
      collecting G (insert (q, off) S) k r0 r'"
proof -
  obtain f0 r1 fx t where f: "find_fragments now h iif r = (f0, r1, fx)" "holds G S f0" "fr_timeoutIter f0 = ra_nextId r0"
    "to_id t = ra_nextId r0" "ra_timeouts r1 = ra_timeouts r0 @ [t]"
    "\<And>v. (ra_fragments r1)(k := v) = (ra_fragments r0)(k := v)"
    by (rule find_fragments_collecting [OF assms(7,5,11), of now iif]) blast
  let ?f = "Fragments_AddFragment q off ((q, off) \<noteq> last G) f0"
  have h: "holds G (insert (q, off) S) ?f"
    using AddFragment_holds [OF contiguous_by_offset [OF assms(1)] f(2) assms(8-10)] by simp
  have sub: "insert (q, off) S \<subseteq> set G" "insert (q, off) S \<noteq> {}" using assms(8,10) by auto
  have "length (concat (map snd (map span G))) \<le> 65535" using assms(3,4) by simp
  note ent = holds_entire [OF assms(1,2) this h sub]
  have P: "ProcessFragment now q h iif r =
     (if Fragments_IsEntire ?f then
          bind_res (Fragments_GetPacket ?f) (\<lambda>whole.
            Inr (Some whole,
                 r1\<lparr>ra_timeouts := filter (\<lambda>t. to_id t \<noteq> ra_nextId r0) (ra_timeouts r1),
                    ra_fragments := (ra_fragments r1)(k := None)\<rparr>, fx))
        else Inr (None, r1\<lparr>ra_fragments := (ra_fragments r1)(k \<mapsto> ?f)\<rparr>, fx))"
    using ProcessFragment_find [OF f(1), of q] assms(11-13) by (simp add: Let_def f(3))
  show "\<exists>r' fx. ProcessFragment now q h iif r = Inr (None, r', fx) \<and> collecting G (insert (q, off) S) k r0 r'"
    if "insert (q, off) S \<noteq> set G"
    using that P ent h f(3-6) by (auto simp: collecting_def)
  show "\<exists>whole r' fx. ProcessFragment now q h iif r = Inr (Some whole, r', fx) \<and>
      pk_bytes whole = D \<and> pk_tags whole = pk_tags (fst (hd G)) \<and> ra_fragments r' = ra_fragments r0 \<and> ra_timeouts r' = ra_timeouts r0"
    if all: "insert (q, off) S = set G"
  proof -
    have G: "fr_fragments ?f = G" using h all by (simp add: holds_def)
    have "\<exists>p'. Fragments_GetPacket ?f = Inr p' \<and> pk_bytes p' = D \<and> pk_tags p' = pk_tags (fst (hd (fr_fragments ?f)))"
    proof (rule GetPacket_entire [OF assms(4)])
      show "\<forall>x \<in> set (fr_fragments ?f). piece D x" using contiguous_pieces [OF assms(1)] assms(3) by (simp add: G)
      show "Fragments_IsEntire ?f" using ent all by simp
      show "\<exists>x \<in> set (fr_fragments ?f). span_end x = length D"
        using contiguous_end [OF assms(1,2)] assms(2,3) last_in_set [OF assms(2)] by (intro bexI [of _ "last G"]) (simp_all add: G)
    qed
    moreover have "filter (\<lambda>t. to_id t \<noteq> ra_nextId r0) (ra_timeouts r0 @ [t]) = ra_timeouts r0"
      using assms(6) f(4) by (auto simp: filter_id_conv)
    moreover have "(ra_fragments r0)(k := None) = ra_fragments r0" using assms(5) by auto
    ultimately show ?thesis using P ent all f(5,6) G by auto
  qed
qed

text \<open>Fragments with their headers, received one after the other.\<close>

fun receive_all :: "u32 \<Rightarrow> (u64 \<times> packet \<times> ipv4_header) list \<Rightarrow> reassembly \<Rightarrow> (packet option list \<times> reassembly) res" where
  "receive_all iif [] r = Inr ([], r)"
| "receive_all iif ((now, q, h) # xs) r =
     bind_res (ProcessFragment now q h iif r) (\<lambda>(result, r1, fx).
     bind_res (receive_all iif xs r1) (\<lambda>(results, r2). Inr (result # results, r2)))"

fun item :: "packet \<times> ipv4_header \<Rightarrow> packet \<times> u16" where
  "item (q, h) = (q, h_fragmentOffset h)"

lemma receive_all_collecting:
  assumes "contiguous 0 (map span G)" and "G \<noteq> []" and "concat (map snd (map span G)) = D" and "length D \<le> 65535"
    and "ra_fragments r0 k = None" and "\<forall>t \<in> set (ra_timeouts r0). to_id t < ra_nextId r0"
    and "collecting G S k r0 r" and "xs \<noteq> []" and "distinct (map (item \<circ> snd) xs)"
    and "set (map (item \<circ> snd) xs) \<inter> S = {}" and "set (map (item \<circ> snd) xs) \<union> S = set G"
    and "\<forall>(now, q, h) \<in> set xs. fragment_key_of h = k \<and> (Ipv4Header_IsLastFragment h \<longleftrightarrow> item (q, h) = last G)"
  shows "\<exists>whole r'. receive_all iif xs r = Inr (replicate (length xs - 1) None @ [Some whole], r') \<and>
    pk_bytes whole = D \<and> pk_tags whole = pk_tags (fst (hd G)) \<and> ra_fragments r' = ra_fragments r0 \<and> ra_timeouts r' = ra_timeouts r0"
  using assms(7-12)
proof (induction xs arbitrary: S r)
  case (Cons x xs)
  obtain now q h where x: "x = (now, q, h)" by (cases x)
  let ?S = "insert (q, h_fragmentOffset h) S"
  have i: "(q, h_fragmentOffset h) \<in> set G" "(q, h_fragmentOffset h) \<notin> S" "S \<subseteq> set G"
    using Cons.prems(4,5) by (auto simp: x)
  have g: "fragment_key_of h = k" "Ipv4Header_IsLastFragment h \<longleftrightarrow> (q, h_fragmentOffset h) = last G"
    using Cons.prems(6) by (simp_all add: x)
  note step = ProcessFragment_step [OF assms(1-6) Cons.prems(1) i g(1) refl g(2), of now iif]
  show ?case
  proof (cases "xs = []")
    case True
    then have "?S = set G" using Cons.prems(5) by (simp add: x)
    from step(1) [OF this] True show ?thesis by (auto simp: x)
  next
    case False
    then have "\<exists>y \<in> set xs. item (snd y) \<notin> ?S"
      using Cons.prems(3,4) by (cases xs) (auto simp: x)
    then have "?S \<noteq> set G" using Cons.prems(5) by force
    from step(2) [OF this] obtain r1 fx where r1: "ProcessFragment now q h iif r = Inr (None, r1, fx)" "collecting G ?S k r0 r1"
      by blast
    have "\<exists>whole r'. receive_all iif xs r1 = Inr (replicate (length xs - 1) None @ [Some whole], r') \<and>
        pk_bytes whole = D \<and> pk_tags whole = pk_tags (fst (hd G)) \<and> ra_fragments r' = ra_fragments r0 \<and> ra_timeouts r' = ra_timeouts r0"
      by (rule Cons.IH [OF r1(2) False]) (use Cons.prems x in auto)
    then obtain whole r' where "receive_all iif xs r1 = Inr (replicate (length xs - 1) None @ [Some whole], r')"
        "pk_bytes whole = D" "pk_tags whole = pk_tags (fst (hd G))" "ra_fragments r' = ra_fragments r0" "ra_timeouts r' = ra_timeouts r0" by blast
    moreover have "replicate (length (x # xs) - 1) None = None # replicate (length xs - 1) (None :: packet option)"
      using False by (cases xs) simp_all
    ultimately show ?thesis using r1(1) by (simp add: x)
  qed
qed simp

lemma more_fragments_flag:
  "(f OR MORE_FRAGMENTS) AND MORE_FRAGMENTS \<noteq> 0" "(f AND NOT MORE_FRAGMENTS) AND MORE_FRAGMENTS = 0"
proof -
  have "bit ((f OR MORE_FRAGMENTS) AND MORE_FRAGMENTS) 1" by (simp add: MORE_FRAGMENTS_def bit_simps)
  then show "(f OR MORE_FRAGMENTS) AND MORE_FRAGMENTS \<noteq> 0" by auto
  show "(f AND NOT MORE_FRAGMENTS) AND MORE_FRAGMENTS = 0" by (simp add: bit_eq_iff bit_simps)
qed

lemma fragment_of_last:
  "Ipv4Header_IsLastFragment (snd (fragment_of csum h p (k, bs))) \<longleftrightarrow>
   \<not> k + length bs < length (pk_bytes p) \<and> Ipv4Header_IsLastFragment h"
  by (simp add: Ipv4Header_IsLastFragment_def more_fragments_flag) (simp add: MORE_FRAGMENTS_def)

lemma fragment_of_key: "fragment_key_of (snd (fragment_of csum h p c)) = fragment_key_of h"
  by (cases c) (simp add: fragment_key_of_def)

lemma fragments_collectable:
  assumes "length (pk_bytes p) \<le> 65535" and "h_fragmentOffset h = 0" and "Ipv4Header_IsLastFragment h"
    and "cs = chunks n 0 (pk_bytes p)" and "frags = map (fragment_of csum h p) cs"
  shows "map span (map item frags) = cs"
    and "(q, g) \<in> set frags \<Longrightarrow> Ipv4Header_IsLastFragment g \<longleftrightarrow> item (q, g) = last (map item frags)"
proof -
  have "span (item (fragment_of csum h p c)) = c" if "c \<in> set cs" for c
  proof (cases c)
    case (Pair k bs)
    with that assms(1,4) chunks_range [of k bs n 0] have "k \<le> 65535" by fastforce
    then show ?thesis using assms(2) by (simp add: Pair unat_of_nat_u16)
  qed
  then show sp: "map span (map item frags) = cs" by (simp add: assms(5) map_idI)
  have ne: "cs \<noteq> []" by (simp add: assms(4))
  have srt: "by_offset (map item frags)"
    by (rule contiguous_by_offset [of 0]) (simp only: sp assms(4) contiguous_chunks)
  then have dst: "distinct (map item frags)"
    by (auto simp: distinct_conv_nth sorted_wrt_iff_nth_less) (metis less_irrefl nat_neq_iff)
  assume "(q, g) \<in> set frags"
  then obtain i where i: "i < length frags" "(q, g) = frags ! i" by (metis in_set_conv_nth)
  have len: "length frags = length cs" by (simp add: assms(5))
  have "Ipv4Header_IsLastFragment g \<longleftrightarrow> \<not> Suc i < length cs"
    using chunks_more [of i n 0 "pk_bytes p"] i fragment_of_last [of csum h p "fst (cs ! i)" "snd (cs ! i)"] assms(3,4,5)
    by (metis add_0 len nth_map prod.collapse snd_conv)
  also have "\<dots> \<longleftrightarrow> map item frags ! i = map item frags ! (length frags - 1)"
    using nth_eq_iff_index_eq [OF dst, of i "length frags - 1"] i(1) len by auto
  also have "map item frags ! (length frags - 1) = last (map item frags)"
    using ne by (simp add: last_conv_nth assms(5))
  finally show "Ipv4Header_IsLastFragment g \<longleftrightarrow> item (q, g) = last (map item frags)" using i by simp
qed

text \<open>What reassembly looks at: the payload, its place, the datagram it belongs to, and the mark of the last one.\<close>

fun frag_view :: "packet \<times> ipv4_header \<Rightarrow> packet \<times> u16 \<times> fragment_key \<times> bool" where
  "frag_view (q, g) = (q, h_fragmentOffset g, fragment_key_of g, Ipv4Header_IsLastFragment g)"

lemma views_collectable:
  assumes "h_headerSize h = 20" and "h_fragmentOffset h = 0" and "Ipv4Header_IsLastFragment h"
    and "length (pk_bytes p) \<le> 65535" and "28 \<le> unat mtu" and "unat mtu \<le> 65535" and "length (pk_bytes p) < fuel"
    and "DoFragmentation csum fuel p h mtu = Inr frags" and "mset (map frag_view xs) = mset (map frag_view frags)"
  obtains G where "contiguous 0 (map span G)" and "G \<noteq> []" and "concat (map snd (map span G)) = pk_bytes p"
    and "pk_tags (fst (hd G)) = pk_tags p" and "distinct (map item xs)" and "set (map item xs) = set G"
    and "\<forall>(q, g) \<in> set xs. fragment_key_of g = fragment_key_of h \<and> (Ipv4Header_IsLastFragment g \<longleftrightarrow> item (q, g) = last G)"
proof -
  define cs where "cs = mtu_chunks mtu (pk_bytes p)"
  define G where "G = map item frags"
  have al: "h_fragmentOffset h AND 7 = 0" using assms(2) by simp
  have frags: "frags = map (fragment_of csum h p) cs"
    using DoFragmentation_chunks [OF assms(1) al assms(4-7), of csum] assms(8) by (simp add: cs_def)
  note col = fragments_collectable [OF assms(4,2,3) cs_def [unfolded mtu_chunks_def] frags]
  have c: "contiguous 0 (map span G)" unfolding G_def col(1) cs_def mtu_chunks_def by (rule contiguous_chunks)
  have ne: "G \<noteq> []" by (simp add: G_def frags cs_def mtu_chunks_def)
  have D: "concat (map snd (map span G)) = pk_bytes p" unfolding G_def col(1) cs_def mtu_chunks_def by (rule concat_chunks)
  have it: "item x = (fst (frag_view x), fst (snd (frag_view x)))" for x by (cases x) simp
  have "map item xs = map (\<lambda>v. (fst v, fst (snd v))) (map frag_view xs)"
    "map item frags = map (\<lambda>v. (fst v, fst (snd v))) (map frag_view frags)" using it by simp_all
  then have ms: "mset (map item xs) = mset G" using assms(9) by (simp only: G_def mset_map)
  have "distinct G"
    using contiguous_by_offset [OF c]
    by (auto simp: distinct_conv_nth sorted_wrt_iff_nth_less) (metis less_irrefl nat_neq_iff)
  then have d: "distinct (map item xs)" using ms by (metis mset_eq_imp_distinct_iff)
  have st: "set (map item xs) = set G" using ms by (metis mset_eq_setD)
  have fs: "set (map frag_view xs) = set (map frag_view frags)" using assms(9) by (rule mset_eq_setD)
  have hd: "fragment_key_of g = fragment_key_of h \<and> (Ipv4Header_IsLastFragment g \<longleftrightarrow> item (q, g) = last G)"
    if "(q, g) \<in> set xs" for q g
  proof -
    have "frag_view (q, g) \<in> set (map frag_view xs)" using that by force
    then obtain g' where m: "(q, g') \<in> set frags" "frag_view (q, g) = frag_view (q, g')" unfolding fs by auto
    then have "fragment_key_of g' = fragment_key_of h" using frags fragment_of_key by (metis imageE list.set_map snd_conv)
    with col(2) [OF m(1)] m(2) show ?thesis by (simp add: G_def)
  qed
  have "fst (hd G) \<in> fst ` set G" using ne by simp
  then have "pk_tags (fst (hd G)) = pk_tags p" by (auto simp: G_def frags)
  with c ne D d st hd show thesis by (intro that [of G]) auto
qed

lemma reassemble_views:
  assumes "h_headerSize h = 20" and "h_fragmentOffset h = 0" and "Ipv4Header_IsLastFragment h"
    and "length (pk_bytes p) \<le> 65535" and "28 \<le> unat mtu" and "unat mtu \<le> 65535" and "length (pk_bytes p) < fuel"
    and "DoFragmentation csum fuel p h mtu = Inr frags"
    and "mset (map (frag_view \<circ> snd) arrivals) = mset (map frag_view frags)"
    and "ra_fragments r (fragment_key_of h) = None" and "\<forall>t \<in> set (ra_timeouts r). to_id t < ra_nextId r"
  shows "\<exists>whole r'. receive_all iif arrivals r = Inr (replicate (length arrivals - 1) None @ [Some whole], r') \<and>
    pk_bytes whole = pk_bytes p \<and> pk_tags whole = pk_tags p \<and> ra_fragments r' = ra_fragments r \<and> ra_timeouts r' = ra_timeouts r"
proof -
  have "mset (map frag_view (map snd arrivals)) = mset (map frag_view frags)" using assms(9) by simp
  from views_collectable [OF assms(1-8) this] obtain G where G: "contiguous 0 (map span G)" "G \<noteq> []"
    "concat (map snd (map span G)) = pk_bytes p" "pk_tags (fst (hd G)) = pk_tags p" "distinct (map item (map snd arrivals))"
    "set (map item (map snd arrivals)) = set G" "\<forall>(q, g) \<in> set (map snd arrivals).
      fragment_key_of g = fragment_key_of h \<and> (Ipv4Header_IsLastFragment g \<longleftrightarrow> item (q, g) = last G)" .
  show ?thesis
    unfolding G(4) [symmetric]
  proof (rule receive_all_collecting [OF G(1-3) assms(4) assms(10,11)])
    show "collecting G {} (fragment_key_of h) r r" by (simp add: collecting_def)
    show "arrivals \<noteq> []" using G(2,6) by auto
    show "\<forall>(now, q, g) \<in> set arrivals. fragment_key_of g = fragment_key_of h \<and> (Ipv4Header_IsLastFragment g \<longleftrightarrow> item (q, g) = last G)"
      using G(7) by force
  qed (use G(5,6) in simp_all)
qed

section \<open>Properties of fragmentation\<close>

text \<open>
  C24. Fragmentation is exact. For a payload of at most 65535 bytes and a link that takes at least 28,
  \<open>DoFragmentation\<close> returns. The fragments in order make up the payload; each fits the link together
  with its header, starts at a multiple of 8, and its header gives its length and place; only the last
  one of a last fragment is marked last; everything that identifies the datagram is kept.
\<close>

theorem fragmentation_exact:
  assumes "h_headerSize h = 20" and "h_fragmentOffset h AND 7 = 0" and "length (pk_bytes p) \<le> 65535"
    and "28 \<le> unat mtu" and "unat mtu \<le> 65535" and "length (pk_bytes p) < fuel"
  shows "\<exists>frags. DoFragmentation csum fuel p h mtu = Inr frags \<and>
    concat (map (pk_bytes \<circ> fst) frags) = pk_bytes p \<and>
    (\<forall>i < length frags. 20 + length (pk_bytes (fst (frags ! i))) \<le> unat mtu \<and>
       h_payloadSize (snd (frags ! i)) = of_nat (length (pk_bytes (fst (frags ! i)))) \<and>
       h_fragmentOffset (snd (frags ! i)) =
         h_fragmentOffset h + of_nat (length (concat (map (pk_bytes \<circ> fst) (take i frags)))) \<and>
       h_fragmentOffset (snd (frags ! i)) AND 7 = 0 \<and>
       (Ipv4Header_IsLastFragment (snd (frags ! i)) \<longleftrightarrow> i = length frags - 1 \<and> Ipv4Header_IsLastFragment h) \<and>
       fragment_key_of (snd (frags ! i)) = fragment_key_of h \<and> h_ttl (snd (frags ! i)) = h_ttl h)"
proof -
  define cs where "cs = mtu_chunks mtu (pk_bytes p)"
  let ?frags = "map (fragment_of csum h p) cs"
  have bytes: "map (pk_bytes \<circ> fst) (map (fragment_of csum h p) xs) = map snd xs" for xs :: "(nat \<times> bytes) list" by auto
  have each: "20 + length (pk_bytes (fst (?frags ! i))) \<le> unat mtu \<and>
       h_payloadSize (snd (?frags ! i)) = of_nat (length (pk_bytes (fst (?frags ! i)))) \<and>
       h_fragmentOffset (snd (?frags ! i)) =
         h_fragmentOffset h + of_nat (length (concat (map (pk_bytes \<circ> fst) (take i ?frags)))) \<and>
       h_fragmentOffset (snd (?frags ! i)) AND 7 = 0 \<and>
       (Ipv4Header_IsLastFragment (snd (?frags ! i)) \<longleftrightarrow> i = length ?frags - 1 \<and> Ipv4Header_IsLastFragment h) \<and>
       fragment_key_of (snd (?frags ! i)) = fragment_key_of h \<and> h_ttl (snd (?frags ! i)) = h_ttl h"
    if "i < length ?frags" for i
  proof -
    have i: "i < length cs" using that by simp
    obtain k bs where c: "cs ! i = (k, bs)" by (cases "cs ! i")
    have mem: "(k, bs) \<in> set cs" using nth_mem [OF i] c by simp
    have 1: "20 + length bs \<le> unat mtu"
      using chunks_size [OF fragment_size(2) [OF assms(4)] mem [unfolded cs_def mtu_chunks_def]] fragment_size(3) [OF assms(4)]
      by linarith
    have "contiguous 0 cs" by (simp only: cs_def mtu_chunks_def contiguous_chunks)
    from contiguous_nth [OF this i] c have k: "k = length (concat (map snd (take i cs)))" by simp
    have "8 dvd k"
      by (rule chunks_aligned [OF fragment_size(1) [OF assms(4)] _ mem [unfolded cs_def mtu_chunks_def]]) simp
    then have 2: "(of_nat k + h_fragmentOffset h) AND 7 = 0" by (intro and7_add and7_of_nat assms(2))
    have 3: "k + length bs < length (pk_bytes p) \<longleftrightarrow> Suc i < length cs"
      using chunks_more [OF i [unfolded cs_def mtu_chunks_def]] c [unfolded cs_def mtu_chunks_def]
      unfolding cs_def mtu_chunks_def by simp
    have "?frags ! i = fragment_of csum h p (k, bs)" using i c by simp
    moreover have "map (pk_bytes \<circ> fst) (take i ?frags) = map snd (take i cs)" using bytes by (simp only: take_map)
    ultimately show ?thesis
      using 1 2 3 k i fragment_of_last [of csum h p k bs] fragment_of_key [of csum h p "(k, bs)"]
      by (auto simp: add.commute)
  qed
  have "concat (map (pk_bytes \<circ> fst) ?frags) = pk_bytes p"
    by (simp only: bytes) (simp add: cs_def mtu_chunks_def concat_chunks)
  with each DoFragmentation_chunks [OF assms, of csum] show ?thesis unfolding cs_def by blast
qed

text \<open>A payload of 40 bytes over a link of 44: 24 bytes and 16 bytes.\<close>

definition demo_payload :: packet where
  "demo_payload = \<lparr>pk_uid = 3, pk_tags = [], pk_bytes = replicate 40 0x5a\<rparr>"

theorem fragmentation_exact_witness:
  "\<exists>frags. DoFragmentation False 41 demo_payload Ipv4Header_new 44 = Inr frags \<and>
    concat (map (pk_bytes \<circ> fst) frags) = replicate 40 0x5a"
  using fragmentation_exact [of Ipv4Header_new demo_payload 44 41 False]
  by (auto simp: Ipv4Header_new_def demo_payload_def)

text \<open>
  C25. Reassembly does not depend on the order of arrival. The fragments of a datagram, received in
  any order by a node that holds none of them yet, give nothing until the last one has arrived and
  then the payload that was sent, with its tags; the reassembly state is afterwards what it was before.
  This is about the calls of \<open>ProcessFragment\<close> alone: \<open>HandleTimeout\<close> does not run between them.
\<close>

theorem reassembly_any_order:
  assumes "h_headerSize h = 20" and "h_fragmentOffset h = 0" and "Ipv4Header_IsLastFragment h"
    and "length (pk_bytes p) \<le> 65535" and "28 \<le> unat mtu" and "unat mtu \<le> 65535" and "length (pk_bytes p) < fuel"
    and "DoFragmentation csum fuel p h mtu = Inr frags" and "mset (map snd arrivals) = mset frags"
    and "ra_fragments r (fragment_key_of h) = None" and "\<forall>t \<in> set (ra_timeouts r). to_id t < ra_nextId r"
  shows "\<exists>whole r'. receive_all iif arrivals r = Inr (replicate (length arrivals - 1) None @ [Some whole], r') \<and>
    pk_bytes whole = pk_bytes p \<and> pk_tags whole = pk_tags p \<and> ra_fragments r' = ra_fragments r \<and> ra_timeouts r' = ra_timeouts r"
proof (rule reassemble_views [OF assms(1-8) _ assms(10,11)])
  have "mset (map (frag_view \<circ> snd) arrivals) = image_mset frag_view (mset (map snd arrivals))" by (simp add: image_mset.compositionality comp_def)
  then show "mset (map (frag_view \<circ> snd) arrivals) = mset (map frag_view frags)" using assms(9) by simp
qed

text \<open>The two fragments of the example, the last one first.\<close>

theorem reassembly_any_order_witness:
  "\<exists>f1 f2 whole r'. DoFragmentation False 41 demo_payload Ipv4Header_new 44 = Inr [f1, f2] \<and>
    receive_all 1 [(5, f2), (9, f1)] \<lparr>ra_fragments = Map.empty, ra_timeouts = [], ra_nextId = 0, ra_expiration = 30\<rparr> =
      Inr ([None, Some whole], r') \<and> pk_bytes whole = replicate 40 0x5a \<and> ra_fragments r' = Map.empty"
proof -
  let ?r = "\<lparr>ra_fragments = Map.empty, ra_timeouts = [], ra_nextId = 0, ra_expiration = 30\<rparr> :: reassembly"
  have "mtu_chunks 44 (pk_bytes demo_payload) = [(0, replicate 24 0x5a), (24, replicate 16 0x5a)]"
    by (simp add: mtu_chunks_def demo_payload_def chunks.simps)
  moreover have h: "h_headerSize Ipv4Header_new = 20" "h_fragmentOffset Ipv4Header_new AND 7 = 0" "h_fragmentOffset Ipv4Header_new = 0"
      "Ipv4Header_IsLastFragment Ipv4Header_new"
    by (simp_all add: Ipv4Header_new_def Ipv4Header_IsLastFragment_def)
  ultimately obtain f1 f2 where f: "DoFragmentation False 41 demo_payload Ipv4Header_new 44 = Inr [f1, f2]"
    using DoFragmentation_chunks [of Ipv4Header_new demo_payload 44 41 False] by (simp add: demo_payload_def)
  have "\<exists>whole r'. receive_all 1 [(5, f2), (9, f1)] ?r = Inr (replicate (length [(5, f2), (9 :: u64, f1)] - 1) None @ [Some whole], r') \<and>
    pk_bytes whole = pk_bytes demo_payload \<and> pk_tags whole = pk_tags demo_payload \<and> ra_fragments r' = ra_fragments ?r \<and> ra_timeouts r' = ra_timeouts ?r"
    by (rule reassembly_any_order [OF h(1,3,4) _ _ _ _ f]) (simp_all add: demo_payload_def add_mset_commute)
  with f show ?thesis by (auto simp: demo_payload_def)
qed

end
