(* ===== verification/Ipv4_Fragment_Timeouts.thy ===== *)
theory Ipv4_Fragment_Timeouts
  imports Ipv4_Fragmentation
begin

text \<open>
  The timeouts of incomplete datagrams: every collector has one entry in the list of timeouts, the
  list is in the order of time, and a call of \<open>HandleTimeout\<close> is always scheduled in time for its first
  entry. Shown by rule induction over the arrivals of fragments and the calls of \<open>HandleTimeout\<close>.
\<close>

section \<open>Timeouts\<close>

lemma CreateFragment_tail: "\<exists>q'. Packet_CreateFragment start (Packet_GetSize q - start) q = Inr q'"
  by (simp add: Packet_CreateFragment_def Let_def)

lemma GetPacket_loop_total: "\<exists>p'. GetPacket_loop xs e p = Inr p'"
proof (induction xs arbitrary: e p)
  case (Cons x xs)
  obtain q off where "x = (q, off)" by (cases x)
  with Cons CreateFragment_tail [of "ucast (e - off)" q] show ?case by (auto simp: Let_def)
qed simp

lemma GetPartialPacket_loop_total: "\<exists>p'. GetPartialPacket_loop xs e p = Inr p'"
proof (induction xs arbitrary: e p)
  case (Cons x xs)
  obtain q off where "x = (q, off)" by (cases x)
  with Cons CreateFragment_tail [of "ucast (e - off)" q] show ?case by (auto simp: Let_def)
qed simp

lemma AddFragment_nonempty: "fr_fragments (Fragments_AddFragment q off m f) \<noteq> []"
  by (cases "fr_fragments f") (auto simp: Fragments_AddFragment_def Let_def)

lemma GetPacket_total: "fr_fragments f \<noteq> [] \<Longrightarrow> \<exists>p'. Fragments_GetPacket f = Inr p'"
  using GetPacket_loop_total by (cases "fr_fragments f") (auto simp: Fragments_GetPacket_def)

lemma GetPartialPacket_total: "fr_fragments f \<noteq> [] \<Longrightarrow> \<exists>p'. Fragments_GetPartialPacket uid f = Inr p'"
  using GetPartialPacket_loop_total by (cases "fr_fragments f") (auto simp: Fragments_GetPartialPacket_def Let_def)

lemma ProcessFragment_total: "\<exists>x. ProcessFragment now q h iif r = Inr x"
proof -
  obtain f0 r1 fx where f: "find_fragments now h iif r = (f0, r1, fx)" by (metis prod_cases3)
  show ?thesis
    using GetPacket_total [OF AddFragment_nonempty [of q "h_fragmentOffset h" "\<not> Ipv4Header_IsLastFragment h" f0]]
    by (auto simp: ProcessFragment_find [OF f] Let_def)
qed

text \<open>The stack with its clock and the times for which \<open>HandleTimeout\<close> is scheduled.\<close>

record timer_sys =
  ts_clock :: u64
  ts_pending :: "u64 list"
  ts_ra :: reassembly

fun scheduled :: "u64 \<Rightarrow> frag_effect list \<Rightarrow> u64 list" where
  "scheduled now [] = []"
| "scheduled now (ScheduleHandleTimeout d # fx) = (now + d) # scheduled now fx"
| "scheduled now (_ # fx) = scheduled now fx"

definition reassembly_new :: "u64 \<Rightarrow> reassembly" where
  "reassembly_new e = \<lparr>ra_fragments = Map.empty, ra_timeouts = [], ra_nextId = 0, ra_expiration = e\<rparr>"

text \<open>
  Fragments arrive, and the earliest scheduled call of \<open>HandleTimeout\<close> runs, in the order of time. An
  expiry stays within the range of the clock.
\<close>

inductive timer_step :: "timer_sys \<Rightarrow> timer_sys \<Rightarrow> bool" where
  arrive: "ts_clock s \<le> now \<Longrightarrow> \<forall>t \<in> set (ts_pending s). now \<le> t \<Longrightarrow>
    unat now + unat (ra_expiration (ts_ra s)) < 2 ^ 64 \<Longrightarrow> ProcessFragment now q h iif (ts_ra s) = Inr (result, r', fx) \<Longrightarrow>
    timer_step s \<lparr>ts_clock = now, ts_pending = ts_pending s @ scheduled now fx, ts_ra = r'\<rparr>"
| expire: "t \<in> set (ts_pending s) \<Longrightarrow> \<forall>t' \<in> set (ts_pending s). t \<le> t' \<Longrightarrow> HandleTimeout uid t (ts_ra s) = Inr (r', fx) \<Longrightarrow>
    timer_step s \<lparr>ts_clock = t, ts_pending = remove1 t (ts_pending s) @ scheduled t fx, ts_ra = r'\<rparr>"

inductive timer_reachable :: "u64 \<Rightarrow> timer_sys \<Rightarrow> bool" for e where
  initial: "timer_reachable e \<lparr>ts_clock = c, ts_pending = [], ts_ra = reassembly_new e\<rparr>"
| step: "timer_reachable e s \<Longrightarrow> timer_step s s' \<Longrightarrow> timer_reachable e s'"

definition entries_ok :: "reassembly \<Rightarrow> bool" where
  "entries_ok r \<longleftrightarrow>
     distinct (map to_key (ra_timeouts r)) \<and> to_key ` set (ra_timeouts r) = dom (ra_fragments r) \<and>
     distinct (map to_id (ra_timeouts r)) \<and> (\<forall>t \<in> set (ra_timeouts r). to_id t < ra_nextId r) \<and>
     (\<forall>t \<in> set (ra_timeouts r). \<forall>f. ra_fragments r (to_key t) = Some f \<longrightarrow> fr_timeoutIter f = to_id t \<and> fr_fragments f \<noteq> [])"

definition times_ok :: "u64 \<Rightarrow> reassembly \<Rightarrow> bool" where
  "times_ok now r \<longleftrightarrow> sorted (map to_time (ra_timeouts r)) \<and>
     (\<forall>t \<in> set (ra_timeouts r). now \<le> to_time t \<and> unat (to_time t) \<le> unat now + unat (ra_expiration r))"

definition timers_ok :: "timer_sys \<Rightarrow> bool" where
  "timers_ok s \<longleftrightarrow> entries_ok (ts_ra s) \<and> times_ok (ts_clock s) (ts_ra s) \<and>
     (\<forall>t \<in> set (ts_pending s). ts_clock s \<le> t) \<and>
     (\<forall>x \<in> set (ra_timeouts (ts_ra s)). \<exists>t \<in> set (ts_pending s). t \<le> to_time x)"

lemma HandleTimeout_loop_ok:
  assumes "distinct (map to_key ts)" and "\<forall>t \<in> set ts. \<exists>f. m (to_key t) = Some f \<and> fr_fragments f \<noteq> []"
  shows "\<exists>fx. HandleTimeout_loop uid now ts m =
      Inr (dropWhile (\<lambda>t. to_time t = now) ts, m |` (- (to_key ` set (takeWhile (\<lambda>t. to_time t = now) ts))), fx) \<and>
    scheduled now fx = []"
  using assms
proof (induction ts arbitrary: m)
  case (Cons t ts)
  show ?case
  proof (cases "to_time t = now")
    case True
    obtain f where f: "m (to_key t) = Some f" "fr_fragments f \<noteq> []" using Cons.prems(2) by auto
    then obtain packet where p: "Fragments_GetPartialPacket uid f = Inr packet" using GetPartialPacket_total by blast
    let ?m = "m(to_key t := None)"
    have "\<exists>fx. HandleTimeout_loop uid now ts ?m =
        Inr (dropWhile (\<lambda>t. to_time t = now) ts, ?m |` (- (to_key ` set (takeWhile (\<lambda>t. to_time t = now) ts))), fx) \<and>
      scheduled now fx = []"
      by (rule Cons.IH) (use Cons.prems in \<open>auto simp: image_iff\<close>)
    then obtain fx where fx: "HandleTimeout_loop uid now ts ?m =
        Inr (dropWhile (\<lambda>t. to_time t = now) ts, ?m |` (- (to_key ` set (takeWhile (\<lambda>t. to_time t = now) ts))), fx)"
      "scheduled now fx = []" by blast
    have "?m |` (- (to_key ` set (takeWhile (\<lambda>t. to_time t = now) ts))) =
        m |` (- (to_key ` set (takeWhile (\<lambda>t. to_time t = now) (t # ts))))"
      using True by (auto simp: restrict_map_def fun_eq_iff)
    with True f p fx show ?thesis by (simp add: HandleFragmentsTimeout_def)
  next
    case False
    then show ?thesis by (simp add: restrict_map_def fun_eq_iff)
  qed
qed (simp add: restrict_map_def)

lemma scheduled_append: "scheduled now (xs @ ys) = scheduled now xs @ scheduled now ys"
  by (induction now xs rule: scheduled.induct) simp_all

lemma HandleTimeout_ok:
  assumes "entries_ok r"
  shows "\<exists>r' fx. HandleTimeout uid now r = Inr (r', fx) \<and> entries_ok r' \<and>
    ra_timeouts r' = dropWhile (\<lambda>t. to_time t = now) (ra_timeouts r) \<and> ra_expiration r' = ra_expiration r \<and>
    scheduled now fx = (case ra_timeouts r' of [] \<Rightarrow> [] | t # _ \<Rightarrow> [to_time t])"
proof -
  let ?ts = "ra_timeouts r" and ?m = "ra_fragments r"
  let ?old = "takeWhile (\<lambda>t. to_time t = now) ?ts" and ?new = "dropWhile (\<lambda>t. to_time t = now) ?ts"
  let ?r = "r\<lparr>ra_timeouts := ?new, ra_fragments := ?m |` (- (to_key ` set ?old))\<rparr>"
  have "\<forall>t \<in> set ?ts. \<exists>f. ?m (to_key t) = Some f \<and> fr_fragments f \<noteq> []"
    using assms by (force simp: entries_ok_def)
  moreover have d: "distinct (map to_key (?old @ ?new))" "distinct (map to_id (?old @ ?new))"
    using assms by (simp_all only: takeWhile_dropWhile_id entries_ok_def)
  ultimately obtain fx where fx: "HandleTimeout_loop uid now ?ts ?m = Inr (?new, ?m |` (- (to_key ` set ?old)), fx)"
      "scheduled now fx = []"
    using HandleTimeout_loop_ok [of ?ts ?m uid now] assms by (auto simp: entries_ok_def)
  have sub: "set ?new \<subseteq> set ?ts" by (auto dest: set_dropWhileD)
  have split: "set ?ts = set ?old \<union> set ?new" by (metis set_append takeWhile_dropWhile_id)
  have disj: "to_key ` set ?old \<inter> to_key ` set ?new = {}"
    using d(1) unfolding map_append distinct_append set_map by (elim conjE)
  have ok: "entries_ok ?r"
    unfolding entries_ok_def
  proof (intro conjI)
    have "dom (?m |` (- (to_key ` set ?old))) = to_key ` set ?ts - to_key ` set ?old" using assms by (auto simp: entries_ok_def)
    also have "\<dots> = to_key ` set ?new" using split disj by auto
    finally show "to_key ` set (ra_timeouts ?r) = dom (ra_fragments ?r)" by simp
    show "distinct (map to_key (ra_timeouts ?r))" "distinct (map to_id (ra_timeouts ?r))"
      using d unfolding map_append distinct_append by simp_all
  qed (use assms sub in \<open>auto simp: entries_ok_def restrict_map_def\<close>)
  have H: "HandleTimeout uid now r =
      Inr (?r, case ?new of [] \<Rightarrow> fx | t # _ \<Rightarrow> fx @ [ScheduleHandleTimeout (to_time t - now)])"
    using fx(1) by (simp add: HandleTimeout_def)
  have sch: "scheduled now (case ts of [] \<Rightarrow> fx | t # _ \<Rightarrow> fx @ [ScheduleHandleTimeout (to_time t - now)]) =
      (case ts of [] \<Rightarrow> [] | t # _ \<Rightarrow> [to_time t])" for ts
    using fx(2) by (cases ts) (simp_all add: scheduled_append)
  show ?thesis by (intro exI conjI, rule H, rule ok) (simp_all add: sch)
qed

lemma entries_remove:
  assumes "entries_ok r" and "ra_fragments r k = Some f"
  shows "entries_ok (r\<lparr>ra_timeouts := filter (\<lambda>t. to_id t \<noteq> fr_timeoutIter f) (ra_timeouts r),
    ra_fragments := (ra_fragments r)(k := None)\<rparr>)"
proof -
  have key: "to_id t = fr_timeoutIter f \<longleftrightarrow> to_key t = k" if "t \<in> set (ra_timeouts r)" for t
  proof -
    obtain t0 where t0: "t0 \<in> set (ra_timeouts r)" "to_key t0 = k" using assms by (force simp: entries_ok_def)
    then have "fr_timeoutIter f = to_id t0" using assms by (auto simp: entries_ok_def)
    with that t0 assms(1) show ?thesis by (auto simp: entries_ok_def distinct_map inj_on_def)
  qed
  have "filter (\<lambda>t. to_id t \<noteq> fr_timeoutIter f) (ra_timeouts r) = filter (\<lambda>t. to_key t \<noteq> k) (ra_timeouts r)"
    by (rule filter_cong) (use key in auto)
  with assms show ?thesis by (auto simp: entries_ok_def distinct_map inj_on_def)
qed

lemma find_fragments_entries:
  assumes "entries_ok r" and "find_fragments now h iif r = (f0, r1, fx)" and "fr_timeoutIter f1 = fr_timeoutIter f0" and "fr_fragments f1 \<noteq> []"
  shows "entries_ok (r1\<lparr>ra_fragments := (ra_fragments r1)(fragment_key_of h \<mapsto> f1)\<rparr>)"
proof (cases "ra_fragments r (fragment_key_of h)")
  case None
  let ?k = "fragment_key_of h"
  have r1: "ra_timeouts r1 = ra_timeouts r @
      [\<lparr>to_id = ra_nextId r, to_time = now + ra_expiration r, to_key = ?k, to_header = h, to_iif = iif\<rparr>]"
    "ra_fragments r1 = ra_fragments r" "ra_nextId r1 = ra_nextId r + 1" "fr_timeoutIter f0 = ra_nextId r"
    using None assms(2) by (auto simp: find_fragments_def SetTimeout_def Let_def)
  have "\<forall>t \<in> set (ra_timeouts r). to_key t \<noteq> ?k"
  proof
    fix t assume "t \<in> set (ra_timeouts r)"
    then have "to_key t \<in> dom (ra_fragments r)" using assms(1) by (auto simp: entries_ok_def)
    with None show "to_key t \<noteq> ?k" by auto
  qed
  with r1 None assms(1,3,4) show ?thesis by (auto simp: entries_ok_def)
next
  case (Some f)
  then have "f0 = f" "r1 = r" using assms(2) by (simp_all add: find_fragments_def)
  with Some assms show ?thesis by (auto simp: entries_ok_def)
qed

text \<open>What an arrival does to the list: it may append one entry, and may remove one.\<close>

lemma ProcessFragment_entries:
  assumes "entries_ok r" and "ProcessFragment now q h iif r = Inr (result, r', fx)"
  shows "entries_ok r'" and "ra_expiration r' = ra_expiration r"
    and "\<exists>P new. ra_timeouts r' = filter P (ra_timeouts r @ new) \<and>
      (new = [] \<or> (\<exists>t. new = [t] \<and> to_time t = now + ra_expiration r)) \<and>
      scheduled now fx = (if new \<noteq> [] \<and> ra_timeouts r = [] then [now + ra_expiration r] else [])"
proof -
  obtain f0 r1 fx1 where f: "find_fragments now h iif r = (f0, r1, fx1)" by (metis prod_cases3)
  define f1 where "f1 = Fragments_AddFragment q (h_fragmentOffset h) (\<not> Ipv4Header_IsLastFragment h) f0"
  let ?k = "fragment_key_of h"
  let ?r = "r1\<lparr>ra_fragments := (ra_fragments r1)(?k \<mapsto> f1)\<rparr>"
  have e: "entries_ok ?r"
    by (rule find_fragments_entries [OF assms(1) f]) (simp_all add: f1_def AddFragment_nonempty)
  note rm = entries_remove [OF e, of ?k f1]
  have cases: "r' = ?r \<and> fx = fx1 \<or>
      r' = r1\<lparr>ra_timeouts := filter (\<lambda>t. to_id t \<noteq> fr_timeoutIter f1) (ra_timeouts r1), ra_fragments := (ra_fragments r1)(?k := None)\<rparr> \<and> fx = fx1"
    using assms(2) unfolding ProcessFragment_find [OF f] Let_def f1_def [symmetric]
    by (auto simp: res_simps split: if_splits)
  then show "entries_ok r'" using e rm by auto
  have find: "ra_expiration r1 = ra_expiration r \<and> (\<exists>new. ra_timeouts r1 = ra_timeouts r @ new \<and>
      (new = [] \<or> (\<exists>t. new = [t] \<and> to_time t = now + ra_expiration r)) \<and>
      scheduled now fx1 = (if new \<noteq> [] \<and> ra_timeouts r = [] then [now + ra_expiration r] else []))"
  proof (cases "ra_fragments r ?k")
    case None
    then have "r1 = fst (snd (SetTimeout now ?k h iif r))" "fx1 = snd (snd (SetTimeout now ?k h iif r))"
      using f by (auto simp: find_fragments_def SetTimeout_def Let_def)
    then show ?thesis by (auto simp: SetTimeout_def Let_def)
  next
    case (Some f2)
    then have "r1 = r" "fx1 = []" using f by (simp_all add: find_fragments_def)
    then show ?thesis by simp
  qed
  then show "ra_expiration r' = ra_expiration r" using cases by auto
  from find obtain new where n: "ra_timeouts r1 = ra_timeouts r @ new"
      "new = [] \<or> (\<exists>t. new = [t] \<and> to_time t = now + ra_expiration r)"
      "scheduled now fx1 = (if new \<noteq> [] \<and> ra_timeouts r = [] then [now + ra_expiration r] else [])" by blast
  from cases show "\<exists>P new. ra_timeouts r' = filter P (ra_timeouts r @ new) \<and>
      (new = [] \<or> (\<exists>t. new = [t] \<and> to_time t = now + ra_expiration r)) \<and>
      scheduled now fx = (if new \<noteq> [] \<and> ra_timeouts r = [] then [now + ra_expiration r] else [])"
  proof
    assume "r' = ?r \<and> fx = fx1"
    with n show ?thesis by (intro exI [of _ "\<lambda>t. True"] exI [of _ new]) simp
  next
    assume "r' = r1\<lparr>ra_timeouts := filter (\<lambda>t. to_id t \<noteq> fr_timeoutIter f1) (ra_timeouts r1), ra_fragments := (ra_fragments r1)(?k := None)\<rparr> \<and> fx = fx1"
    with n show ?thesis by (intro exI [of _ "\<lambda>t. to_id t \<noteq> fr_timeoutIter f1"] exI [of _ new]) simp
  qed
qed

lemma timer_step_ok:
  assumes "timer_step s s'" and "timers_ok s"
  shows "timers_ok s'"
  using assms
proof (induction rule: timer_step.induct)
  case (arrive s now q h iif result r' fx)
  have ok: "entries_ok (ts_ra s)" "times_ok (ts_clock s) (ts_ra s)" using arrive.prems by (simp_all add: timers_ok_def)
  obtain P new where n: "ra_timeouts r' = filter P (ra_timeouts (ts_ra s) @ new)"
      "new = [] \<or> (\<exists>t. new = [t] \<and> to_time t = now + ra_expiration (ts_ra s))"
      "scheduled now fx = (if new \<noteq> [] \<and> ra_timeouts (ts_ra s) = [] then [now + ra_expiration (ts_ra s)] else [])"
    using ProcessFragment_entries(3) [OF ok(1) arrive.hyps(4)] by blast
  let ?e = "ra_expiration (ts_ra s)"
  have sum_: "unat (now + ?e) = unat now + unat ?e" using arrive.hyps(3) by (intro unat_add_nowrap) simp
  have ge: "now \<le> to_time x" if "x \<in> set (ra_timeouts (ts_ra s))" for x
    using arrive.prems arrive.hyps(2) that by (force simp: timers_ok_def)
  have le: "unat (to_time x) \<le> unat now + unat ?e" if "x \<in> set (ra_timeouts (ts_ra s))" for x
    using ok(2) that arrive.hyps(1) by (fastforce simp: times_ok_def word_le_nat_alt)
  have srt: "sorted (map to_time (ra_timeouts (ts_ra s) @ new))"
    using ok(2) n(2) le by (auto simp: times_ok_def sorted_append word_le_nat_alt sum_)
  have "times_ok now r'"
    unfolding times_ok_def n(1) ProcessFragment_entries(2) [OF ok(1) arrive.hyps(4)]
    using sorted_filter [OF srt] ge le n(2) by (auto simp: word_le_nat_alt sum_)
  moreover have "\<exists>t \<in> set (ts_pending s @ scheduled now fx). t \<le> to_time x" if "x \<in> set (ra_timeouts r')" for x
  proof (cases "ra_timeouts (ts_ra s) = []")
    case True
    with that n show ?thesis by auto
  next
    case False
    then obtain y where y: "y \<in> set (ra_timeouts (ts_ra s))" by (cases "ra_timeouts (ts_ra s)") auto
    from that n(1,2) consider "x \<in> set (ra_timeouts (ts_ra s))" | "to_time x = now + ?e" by auto
    then show ?thesis
    proof cases
      case 1
      then show ?thesis using arrive.prems by (auto simp: timers_ok_def)
    next
      case 2
      then have "to_time y \<le> to_time x" using le [OF y] by (simp add: word_le_nat_alt sum_)
      moreover obtain t where "t \<in> set (ts_pending s)" "t \<le> to_time y" using arrive.prems y by (auto simp: timers_ok_def)
      ultimately show ?thesis by (auto intro: order_trans)
    qed
  qed
  moreover have "now \<le> now + ?e" by (simp add: word_le_nat_alt sum_)
  ultimately show ?case
    using ProcessFragment_entries(1) [OF ok(1) arrive.hyps(4)] arrive.hyps(2) n(3)
    by (auto simp: timers_ok_def split: if_splits)
next
  case (expire t s uid r' fx)
  have ok: "entries_ok (ts_ra s)" "times_ok (ts_clock s) (ts_ra s)" using expire.prems by (simp_all add: timers_ok_def)
  let ?new = "dropWhile (\<lambda>x. to_time x = t) (ra_timeouts (ts_ra s))"
  have r': "entries_ok r'" "ra_timeouts r' = ?new" "ra_expiration r' = ra_expiration (ts_ra s)"
      "scheduled t fx = (case ra_timeouts r' of [] \<Rightarrow> [] | x # _ \<Rightarrow> [to_time x])"
    using HandleTimeout_ok [OF ok(1), of uid t] expire.hyps(3) by auto
  have now: "ts_clock s \<le> t" using expire.prems expire.hyps(1) by (auto simp: timers_ok_def)
  have ge: "t \<le> to_time x" if "x \<in> set (ra_timeouts (ts_ra s))" for x
    using expire.prems expire.hyps(2) that by (force simp: timers_ok_def)
  have sub: "x \<in> set (ra_timeouts (ts_ra s))" if "x \<in> set ?new" for x using that by (rule set_dropWhileD)
  have srt: "sorted (map to_time ?new)"
    using ok(2) by (metis sorted_wrt_append map_append takeWhile_dropWhile_id times_ok_def)
  have le: "unat (to_time x) \<le> unat t + unat (ra_expiration r')" if "x \<in> set (ra_timeouts (ts_ra s))" for x
    using ok(2) that now r'(3) by (fastforce simp: times_ok_def word_le_nat_alt)
  have "times_ok t r'" unfolding times_ok_def r'(2) using srt ge le sub by blast
  moreover have "\<exists>u \<in> set (scheduled t fx). u \<le> to_time x" if "x \<in> set ?new" for x
    using that srt r'(2,4) by (cases ?new) auto
  moreover have "t \<le> u" if "u \<in> set (remove1 t (ts_pending s) @ scheduled t fx)" for u
    using that expire.hyps(2) ge sub r'(2,4) notin_set_remove1 by (fastforce split: list.splits)
  ultimately show ?case using r'(1,2) by (fastforce simp: timers_ok_def)
qed

lemma timers_ok_reachable: "timer_reachable e s \<Longrightarrow> timers_ok s"
proof (induction rule: timer_reachable.induct)
  case (initial c)
  then show ?case by (simp add: timers_ok_def entries_ok_def times_ok_def reassembly_new_def)
next
  case (step s s')
  then show ?case using timer_step_ok by blast
qed

lemma reachable_expiration: "timer_reachable e s \<Longrightarrow> ra_expiration (ts_ra s) = e"
proof (induction rule: timer_reachable.induct)
  case (initial c)
  then show ?case by (simp add: reassembly_new_def)
next
  case (step s s')
  then have "entries_ok (ts_ra s)" using timers_ok_reachable by (auto simp: timers_ok_def)
  with step show ?case
    by (auto elim!: timer_step.cases dest: ProcessFragment_entries(2)) (metis HandleTimeout_ok Inr_inject Pair_inject)
qed

lemma HandleTimeout_expires:
  assumes "timers_ok s" and "u \<in> set (ts_pending s)" and "\<forall>t \<in> set (ts_pending s). u \<le> t"
  shows "\<exists>r' fx. HandleTimeout uid u (ts_ra s) = Inr (r', fx) \<and>
    dom (ra_fragments r') = to_key ` {t \<in> set (ra_timeouts (ts_ra s)). u < to_time t}"
proof -
  let ?ts = "ra_timeouts (ts_ra s)"
  have ok: "entries_ok (ts_ra s)" and srt: "sorted (map to_time ?ts)" using assms(1) by (simp_all add: timers_ok_def times_ok_def)
  have ge: "u \<le> to_time t" if "t \<in> set ?ts" for t using assms(1,3) that by (force simp: timers_ok_def)
  obtain r' fx where r': "HandleTimeout uid u (ts_ra s) = Inr (r', fx)" "entries_ok r'"
      "ra_timeouts r' = dropWhile (\<lambda>t. to_time t = u) ?ts"
    using HandleTimeout_ok [OF ok, of uid u] by blast
  have "set (dropWhile (\<lambda>t. to_time t = u) ts) = {t \<in> set ts. u < to_time t}"
    if "sorted (map to_time ts)" "\<forall>t \<in> set ts. u \<le> to_time t" for ts :: "frag_timeout list"
    using that by (induction ts) (auto simp: order.order_iff_strict)
  with r' srt ge show ?thesis by (auto simp: entries_ok_def)
qed

section \<open>Overlapping fragments\<close>

text \<open>Fragments given to a new collector one after the other.\<close>

abbreviation add_all :: "(packet \<times> u16 \<times> bool) list \<Rightarrow> fragments \<Rightarrow> fragments" where
  "add_all \<equiv> fold (\<lambda>(q, off, mf). Fragments_AddFragment q off mf)"

lemma set_insert_fragment: "set (insert_fragment x ys) = insert x (set ys)"
  by (induction ys) auto

text \<open>The flags tell the truth: a fragment is marked last exactly when it reaches the end of the data.\<close>

definition collected :: "bytes \<Rightarrow> fragments \<Rightarrow> bool" where
  "collected D f \<longleftrightarrow> (\<forall>x \<in> set (fr_fragments f). piece D x) \<and>
     (fr_fragments f \<noteq> [] \<and> \<not> fr_moreFragment f \<longrightarrow> (\<exists>x \<in> set (fr_fragments f). span_end x = length D))"

lemma AddFragment_collected:
  assumes "collected D f" and "piece D (q, off)" and "\<not> mf \<longleftrightarrow> span_end (q, off) = length D"
  shows "collected D (Fragments_AddFragment q off mf f)"
proof (cases "\<forall>y \<in> set (fr_fragments f). \<not> snd y > off")
  case True
  with assms show ?thesis by (auto simp: collected_def Fragments_AddFragment_def Let_def set_insert_fragment)
next
  case False
  then have "fr_fragments f \<noteq> []" by auto
  with False assms show ?thesis unfolding collected_def Fragments_AddFragment_def Let_def if_not_P [OF False]
    by (auto simp: set_insert_fragment)
qed

lemma add_all_collected:
  assumes "\<forall>(q, off, mf) \<in> set xs. piece D (q, off) \<and> (\<not> mf \<longleftrightarrow> span_end (q, off) = length D)" and "collected D f"
  shows "collected D (add_all xs f)"
  using assms
proof (induction xs arbitrary: f)
  case (Cons x xs)
  obtain q off mf where x: "x = (q, off, mf)" by (cases x)
  with Cons.prems have "collected D (Fragments_AddFragment q off mf f)" by (intro AddFragment_collected) auto
  with Cons show ?case by (simp add: x)
qed simp

section \<open>Properties of the timeouts\<close>

text \<open>
  C26. An incomplete datagram is discarded in time. In every state that arrivals of fragments and
  calls of \<open>HandleTimeout\<close> lead to: an arrival is handled without fault; every datagram that is being
  collected has exactly one entry in the list of timeouts, due no later than the expiration time from
  now, and a call of \<open>HandleTimeout\<close> is scheduled no later than that; and the next such call finds every
  collector it looks up, and leaves exactly the datagrams that are due later.
\<close>

theorem fragment_timeouts:
  assumes "timer_reachable e s"
  shows "(\<forall>now q h iif. \<exists>x. ProcessFragment now q h iif (ts_ra s) = Inr x) \<and>
    (\<forall>k \<in> dom (ra_fragments (ts_ra s)). \<exists>!t. t \<in> set (ra_timeouts (ts_ra s)) \<and> to_key t = k \<and>
       ts_clock s \<le> to_time t \<and> unat (to_time t) \<le> unat (ts_clock s) + unat e \<and>
       (\<exists>u \<in> set (ts_pending s). ts_clock s \<le> u \<and> u \<le> to_time t)) \<and>
    (\<forall>u \<in> set (ts_pending s). (\<forall>t \<in> set (ts_pending s). u \<le> t) \<longrightarrow>
       (\<forall>uid. \<exists>r' fx. HandleTimeout uid u (ts_ra s) = Inr (r', fx) \<and>
          dom (ra_fragments r') = to_key ` {t \<in> set (ra_timeouts (ts_ra s)). u < to_time t}))"
proof (intro conjI allI ballI impI)
  have ok: "timers_ok s" using assms by (rule timers_ok_reachable)
  show "\<exists>x. ProcessFragment now q h iif (ts_ra s) = Inr x" for now q h iif by (rule ProcessFragment_total)
  show "\<exists>r' fx. HandleTimeout uid u (ts_ra s) = Inr (r', fx) \<and>
      dom (ra_fragments r') = to_key ` {t \<in> set (ra_timeouts (ts_ra s)). u < to_time t}"
    if "u \<in> set (ts_pending s)" "\<forall>t \<in> set (ts_pending s). u \<le> t" for u uid
    using HandleTimeout_expires [OF ok that] .
  fix k assume "k \<in> dom (ra_fragments (ts_ra s))"
  moreover have "dom (ra_fragments (ts_ra s)) = to_key ` set (ra_timeouts (ts_ra s))"
    using ok by (simp add: timers_ok_def entries_ok_def)
  ultimately obtain t where t: "t \<in> set (ra_timeouts (ts_ra s))" "to_key t = k" by auto
  have uniq: "t' = t" if "t' \<in> set (ra_timeouts (ts_ra s))" "to_key t' = k" for t'
    using ok t that by (simp add: timers_ok_def entries_ok_def distinct_map inj_on_def)
  have due: "ts_clock s \<le> to_time t" "unat (to_time t) \<le> unat (ts_clock s) + unat e"
    using ok t(1) reachable_expiration [OF assms] by (simp_all add: timers_ok_def times_ok_def)
  have "\<exists>u \<in> set (ts_pending s). ts_clock s \<le> u \<and> u \<le> to_time t" using ok t(1) by (auto simp: timers_ok_def)
  with t due show "\<exists>!t. t \<in> set (ra_timeouts (ts_ra s)) \<and> to_key t = k \<and> ts_clock s \<le> to_time t \<and>
      unat (to_time t) \<le> unat (ts_clock s) + unat e \<and> (\<exists>u \<in> set (ts_pending s). ts_clock s \<le> u \<and> u \<le> to_time t)"
    by (intro ex1I [of _ t] conjI; (elim conjE)?) (rule uniq | assumption)+
qed

text \<open>A first fragment has arrived at time 5.\<close>

definition demo_fragment :: ipv4_header where
  "demo_fragment = Ipv4Header_new\<lparr>h_flags := MORE_FRAGMENTS\<rparr>"

theorem fragment_timeouts_witness:
  "\<exists>s. timer_reachable 30 s \<and> ra_fragments (ts_ra s) (fragment_key_of demo_fragment) \<noteq> None \<and>
    (\<exists>t \<in> set (ra_timeouts (ts_ra s)). to_key t = fragment_key_of demo_fragment \<and> ts_clock s \<le> to_time t)"
proof -
  let ?s = "\<lparr>ts_clock = 0, ts_pending = [], ts_ra = reassembly_new 30\<rparr>"
  let ?k = "fragment_key_of demo_fragment"
  have off: "h_fragmentOffset demo_fragment = 0" "\<not> Ipv4Header_IsLastFragment demo_fragment"
    by (simp_all add: demo_fragment_def Ipv4Header_IsLastFragment_def Ipv4Header_new_def MORE_FRAGMENTS_def)
  obtain f0 r1 fx where f: "find_fragments 5 demo_fragment 1 (reassembly_new 30) = (f0, r1, fx)" "fr_fragments f0 = []"
    by (simp add: find_fragments_def reassembly_new_def SetTimeout_def Let_def Fragments_new_def)
  define r' where "r' = r1\<lparr>ra_fragments := (ra_fragments r1)(?k \<mapsto> Fragments_AddFragment demo_payload 0 True f0)\<rparr>"
  have k: "ra_fragments r' ?k \<noteq> None" by (simp add: r'_def)
  have r: "ProcessFragment 5 demo_payload demo_fragment 1 (reassembly_new 30) = Inr (None, r', fx)"
    using f(2) off by (simp add: ProcessFragment_find [OF f(1)] r'_def Let_def Fragments_IsEntire_def Fragments_AddFragment_def)
  have "timer_step ?s \<lparr>ts_clock = 5, ts_pending = ts_pending ?s @ scheduled 5 fx, ts_ra = r'\<rparr>"
    by (rule timer_step.arrive [where q = demo_payload and h = demo_fragment and iif = 1 and result = None])
      (use r in \<open>simp_all add: reassembly_new_def\<close>)
  then have "timer_reachable 30 \<lparr>ts_clock = 5, ts_pending = ts_pending ?s @ scheduled 5 fx, ts_ra = r'\<rparr>" (is "timer_reachable 30 ?s'")
    by (rule timer_reachable.step [OF timer_reachable.initial])
  note P = this fragment_timeouts [OF this, THEN conjunct2, THEN conjunct1]
  have d: "?k \<in> dom (ra_fragments (ts_ra ?s'))" using k by auto
  from ex1_implies_ex [OF bspec [OF P(2) d]]
  have "\<exists>t \<in> set (ra_timeouts (ts_ra ?s')). to_key t = ?k \<and> ts_clock ?s' \<le> to_time t" by blast
  with P(1) k show ?thesis by (intro exI [of _ ?s']) simp
qed

text \<open>
  C27. Overlaps and repetitions do no harm. Whatever fragments of some data a collector is given, in
  whatever order, overlapping or repeated, as long as they carry true data and a true flag: if the
  collector calls the datagram entire, the packet it puts together is the data.
\<close>

theorem overlapping_fragments:
  assumes "length D \<le> 65535"
    and "\<forall>(q, off, mf) \<in> set xs. piece D (q, off) \<and> (\<not> mf \<longleftrightarrow> span_end (q, off) = length D)"
    and "Fragments_IsEntire (add_all xs Fragments_new)"
  shows "\<exists>p. Fragments_GetPacket (add_all xs Fragments_new) = Inr p \<and> pk_bytes p = D"
proof -
  have "collected D (add_all xs Fragments_new)"
    by (rule add_all_collected [OF assms(2)]) (simp add: collected_def Fragments_new_def)
  then have "\<forall>x \<in> set (fr_fragments (add_all xs Fragments_new)). piece D x"
    "\<exists>x \<in> set (fr_fragments (add_all xs Fragments_new)). span_end x = length D"
    using assms(3) by (simp_all add: collected_def Fragments_IsEntire_def)
  from GetPacket_entire [OF assms(1) this(1) assms(3) this(2)] show ?thesis by blast
qed

text \<open>Data of 24 bytes in overlapping fragments, one of them twice.\<close>

theorem overlapping_fragments_witness:
  "\<exists>q1 q2 p. Fragments_GetPacket (add_all [(q2, 8, False), (q1, 0, True), (q1, 0, True)] Fragments_new) = Inr p \<and>
    pk_bytes p = map of_nat [0..<24] \<and> length (pk_bytes q1) + length (pk_bytes q2) = 32"
proof -
  let ?q1 = "\<lparr>pk_uid = 1, pk_tags = [], pk_bytes = map of_nat [0..<16]\<rparr> :: packet"
  let ?q2 = "\<lparr>pk_uid = 1, pk_tags = [], pk_bytes = map of_nat [8..<24]\<rparr> :: packet"
  have "\<exists>p. Fragments_GetPacket (add_all [(?q2, 8, False), (?q1, 0, True), (?q1, 0, True)] Fragments_new) = Inr p \<and>
      pk_bytes p = map of_nat [0..<24]"
    by (rule overlapping_fragments)
      (simp_all add: Fragments_IsEntire_def Fragments_AddFragment_def Let_def Fragments_new_def Packet_GetSize_def take_map drop_map)
  then obtain p where "Fragments_GetPacket (add_all [(?q2, 8, False), (?q1, 0, True), (?q1, 0, True)] Fragments_new) = Inr p"
    "pk_bytes p = map of_nat [0..<24]" by blast
  then show ?thesis by (intro exI [of _ ?q1] exI [of _ ?q2] exI [of _ p] conjI) simp_all
qed

text \<open>
  The other direction fails: a middle fragment that starts behind the start of the last one, and
  arrives after it, takes the mark of the last fragment away, and the datagram is never entire.
\<close>

lemma overlap_hides_last:
  fixes q0 q1 q2 :: packet
  shows "\<not> Fragments_IsEntire (add_all [(q0, 0, True), (q1, 8, False), (q2, 16, True)] Fragments_new)"
  by (simp add: Fragments_IsEntire_def Fragments_AddFragment_def Let_def Fragments_new_def)

end
