(* ===== verification/Ipv4_L3.thy ===== *)
theory Ipv4_L3
  imports Ipv4_Interface Ipv4_Fragment_Timeouts
begin

text \<open>
  \<open>internet/model/ipv4-l3-protocol.cc\<close>: the IP layer of a node. It keeps the interfaces, the transport
  protocols, the counters of identifications, the fragments that wait for their datagram, and the
  record of multicast packets seen. Datagrams come down from a transport protocol (\<open>Send\<close>) or up from a
  device (\<open>Receive\<close>), and leave through an interface, to a transport protocol, or as a reported drop.

  The calls that leave the component are effects, in the order in which the code makes them: frames
  handed to a device, packets handed to a transport protocol or a raw socket, ICMP messages asked for,
  traces, and notifications of the routing protocol. The routing protocol is a parameter: \<open>RouteOutput\<close>
  gives a route, if there is one, and \<open>RouteInput\<close> the value it returns and the callbacks it makes, each
  with the packet and header it passes.
\<close>

section \<open>State, environment and effects\<close>

datatype drop_reason =
    DROP_TTL_EXPIRED | DROP_NO_ROUTE | DROP_BAD_CHECKSUM | DROP_INTERFACE_DOWN | DROP_ROUTE_ERROR
  | DROP_FRAGMENT_TIMEOUT | DROP_DUPLICATE

datatype rx_status = RX_OK | RX_CSUM_FAILED | RX_ENDPOINT_CLOSED | RX_ENDPOINT_UNREACH

datatype 'p l3_effect =
    L3Tx packet u32
  | L3Rx packet u32
  | L3SendOutgoing ipv4_header packet u32
  | L3UnicastForward ipv4_header packet u32
  | L3MulticastForward ipv4_header packet u32
  | L3LocalDeliver ipv4_header packet u32
  | L3Drop ipv4_header packet drop_reason u32
  | L3Net net_effect
  | L3ToProtocol 'p packet ipv4_header u32
  | L3ToRawSocket nat packet ipv4_header
  | L3TimeExceeded ipv4_header packet bool
  | L3DestUnreachPort ipv4_header packet
  | L3Frag frag_effect
  | L3ArpSeen nat ipv4 bytes
  | L3ScheduleRemoveDuplicates u64
  | L3NotifyAddAddress u32 iface_addr
  | L3NotifyRemoveAddress u32 iface_addr
  | L3NotifyInterfaceUp u32
  | L3NotifyInterfaceDown u32

type_synonym dup_tuple = "u64 \<times> u8 \<times> ipv4 \<times> ipv4"

record 'p l3 =
  l3_node :: nat
  l3_ipForward :: bool
  l3_weakEsModel :: bool
  l3_protocols :: "int \<times> int \<rightharpoonup> 'p"
  l3_interfaces :: "ipv4_interface list"
  l3_reverse :: "nat \<rightharpoonup> u32"
  l3_defaultTtl :: u8
  l3_identification :: "u64 \<times> u8 \<Rightarrow> u16"
  l3_sockets :: "nat list"
  l3_routing :: bool
  l3_reassembly :: reassembly
  l3_enableDpd :: bool
  l3_dups :: "(dup_tuple \<times> u64) list"
  l3_expire :: u64
  l3_purge :: u64
  l3_cleanDpd :: bool

text \<open>
  What the layer relies on: the devices and the traffic control layer below, whether checksums are
  enabled, the time, the number and the answer of a transport protocol, and the hash function.
\<close>

record 'p l3_env =
  e_dev :: "nat \<Rightarrow> net_device"
  e_tc :: "nat \<rightharpoonup> tc_device"
  e_SelectQueue :: "packet \<Rightarrow> nat"
  e_ArpLookup :: "nat \<Rightarrow> packet \<Rightarrow> ipv4_header \<Rightarrow> ipv4 \<Rightarrow> bytes option"
  e_CreateCache :: "nat \<Rightarrow> nat"
  e_ChecksumEnabled :: bool
  e_now :: u64
  e_GetProtocolNumber :: "'p \<Rightarrow> int"
  e_isIcmp :: "'p \<Rightarrow> bool"
  e_Receive :: "'p \<Rightarrow> packet \<Rightarrow> ipv4_header \<Rightarrow> u32 \<Rightarrow> rx_status"
  e_Hash32 :: "bytes \<Rightarrow> u32"

text \<open>An interface index that is passed on as unsigned: \<open>-1\<close> becomes the largest value.\<close>

definition iface_u32 :: "u32 option \<Rightarrow> u32" where
  "iface_u32 i = (case i of None \<Rightarrow> 0xffffffff | Some n \<Rightarrow> n)"

section \<open>Transport protocols and raw sockets\<close>

definition L3_Insert :: "'p l3_env \<Rightarrow> 'p \<Rightarrow> 'p l3 \<Rightarrow> 'p l3" where
  "L3_Insert env protocol s = s\<lparr>l3_protocols := (l3_protocols s)((e_GetProtocolNumber env protocol, - 1) \<mapsto> protocol)\<rparr>"

definition L3_Insert_on :: "'p l3_env \<Rightarrow> 'p \<Rightarrow> u32 \<Rightarrow> 'p l3 \<Rightarrow> 'p l3" where
  "L3_Insert_on env protocol interfaceIndex s =
     s\<lparr>l3_protocols := (l3_protocols s)((e_GetProtocolNumber env protocol, sint interfaceIndex) \<mapsto> protocol)\<rparr>"

definition L3_Remove :: "'p l3_env \<Rightarrow> 'p \<Rightarrow> 'p l3 \<Rightarrow> 'p l3" where
  "L3_Remove env protocol s = s\<lparr>l3_protocols := (l3_protocols s)((e_GetProtocolNumber env protocol, - 1) := None)\<rparr>"

definition L3_Remove_on :: "'p l3_env \<Rightarrow> 'p \<Rightarrow> u32 \<Rightarrow> 'p l3 \<Rightarrow> 'p l3" where
  "L3_Remove_on env protocol interfaceIndex s =
     s\<lparr>l3_protocols := (l3_protocols s)((e_GetProtocolNumber env protocol, sint interfaceIndex) := None)\<rparr>"

definition L3_GetProtocol_on :: "int \<Rightarrow> int \<Rightarrow> 'p l3 \<Rightarrow> 'p option" where
  "L3_GetProtocol_on protocolNumber interfaceIndex s =
     (case (if interfaceIndex \<ge> 0 then l3_protocols s (protocolNumber, interfaceIndex) else None) of
        Some p \<Rightarrow> Some p
      | None \<Rightarrow> l3_protocols s (protocolNumber, - 1))"

definition L3_GetProtocol :: "int \<Rightarrow> 'p l3 \<Rightarrow> 'p option" where
  "L3_GetProtocol protocolNumber s = L3_GetProtocol_on protocolNumber (- 1) s"

text \<open>\<open>GetIcmp\<close>, dereferenced: without an ICMP protocol it is the assertion of a null pointer.\<close>

definition L3_GetIcmp :: "'p l3_env \<Rightarrow> 'p l3 \<Rightarrow> 'p res" where
  "L3_GetIcmp env s =
     (case L3_GetProtocol 1 s of Some p \<Rightarrow> if e_isIcmp env p then Inr p else Inl Assert | None \<Rightarrow> Inl Assert)"

definition L3_CreateRawSocket :: "nat \<Rightarrow> 'p l3 \<Rightarrow> 'p l3" where
  "L3_CreateRawSocket socket s = s\<lparr>l3_sockets := l3_sockets s @ [socket]\<rparr>"

definition L3_DeleteRawSocket :: "nat \<Rightarrow> 'p l3 \<Rightarrow> 'p l3" where
  "L3_DeleteRawSocket socket s = s\<lparr>l3_sockets := remove1 socket (l3_sockets s)\<rparr>"

section \<open>Interfaces\<close>

definition L3_AddIpv4Interface :: "ipv4_interface \<Rightarrow> 'p l3 \<Rightarrow> u32 \<times> 'p l3" where
  "L3_AddIpv4Interface interface s =
     (let index = of_nat (length (l3_interfaces s))
      in (index, s\<lparr>l3_interfaces := l3_interfaces s @ [interface],
                   l3_reverse := (l3_reverse s)(if_device interface \<mapsto> index)\<rparr>))"

text \<open>\<open>AddInterface\<close>; \<open>tc\<close> says whether the node has a traffic control layer.\<close>

definition L3_AddInterface :: "'p l3_env \<Rightarrow> bool \<Rightarrow> nat \<Rightarrow> 'p l3 \<Rightarrow> (u32 \<times> 'p l3) res" where
  "L3_AddInterface env tc device s =
     ns_assert (l3_node s \<noteq> 0) (ns_assert tc
       (let i1 = Interface_SetNode (e_CreateCache env) (e_dev env) (l3_node s) Interface_new;
            i2 = Interface_SetDevice (e_CreateCache env) (e_dev env) device i1;
            i3 = Interface_SetForwarding (l3_ipForward s) (Interface_SetTrafficControl True i2)
        in Inr (L3_AddIpv4Interface i3 s)))"

definition L3_SetupLoopback :: "'p l3_env \<Rightarrow> nat \<Rightarrow> 'p l3 \<Rightarrow> 'p l3_effect list \<times> 'p l3" where
  "L3_SetupLoopback env device s =
     (let i1 = Interface_SetDevice (e_CreateCache env) (e_dev env) device Interface_new;
          i2 = Interface_SetNode (e_CreateCache env) (e_dev env) (l3_node s) i1;
          i3 = snd (Interface_AddAddress (InterfaceAddress_of 0x7f000001 Ipv4Mask_GetLoopback) i2);
          (index, s1) = L3_AddIpv4Interface (Interface_SetUp i3) s
      in (if l3_routing s then [L3NotifyInterfaceUp index] else [], s1))"

text \<open>\<open>GetInterface\<close>, dereferenced.\<close>

definition L3_interface :: "u32 \<Rightarrow> 'p l3 \<Rightarrow> ipv4_interface res" where
  "L3_interface index s = ns_assert (unat index < length (l3_interfaces s)) (Inr (l3_interfaces s ! unat index))"

definition L3_set_interface :: "u32 \<Rightarrow> ipv4_interface \<Rightarrow> 'p l3 \<Rightarrow> 'p l3" where
  "L3_set_interface index i s = s\<lparr>l3_interfaces := (l3_interfaces s)[unat index := i]\<rparr>"

fun first_index :: "('a \<Rightarrow> bool) \<Rightarrow> nat \<Rightarrow> 'a list \<Rightarrow> nat option" where
  "first_index P n [] = None"
| "first_index P n (x # xs) = (if P x then Some n else first_index P (Suc n) xs)"

definition L3_GetInterfaceForAddress :: "ipv4 \<Rightarrow> 'p l3 \<Rightarrow> nat option" where
  "L3_GetInterfaceForAddress address s =
     first_index (\<lambda>i. list_ex (\<lambda>a. ia_local a = address) (if_addrs i)) 0 (l3_interfaces s)"

definition L3_GetInterfaceForPrefix :: "ipv4 \<Rightarrow> u32 \<Rightarrow> 'p l3 \<Rightarrow> nat option" where
  "L3_GetInterfaceForPrefix address msk s =
     first_index (\<lambda>i. list_ex (\<lambda>a. Ipv4Address_CombineMask (ia_local a) msk = Ipv4Address_CombineMask address msk) (if_addrs i))
       0 (l3_interfaces s)"

definition L3_GetInterfaceForDevice :: "nat \<Rightarrow> 'p l3 \<Rightarrow> u32 option" where
  "L3_GetInterfaceForDevice device s = l3_reverse s device"

definition L3_GetAddress :: "u32 \<Rightarrow> nat \<Rightarrow> 'p l3 \<Rightarrow> iface_addr res" where
  "L3_GetAddress interfaceIndex addressIndex s =
     bind_res (L3_interface interfaceIndex s) (Interface_GetAddress addressIndex)"

definition L3_GetNAddresses :: "u32 \<Rightarrow> 'p l3 \<Rightarrow> nat res" where
  "L3_GetNAddresses interface s = bind_res (L3_interface interface s) (\<lambda>i. Inr (length (if_addrs i)))"

definition iface_accepts :: "ipv4 \<Rightarrow> ipv4_interface \<Rightarrow> bool" where
  "iface_accepts address i \<longleftrightarrow> list_ex (\<lambda>a. address = ia_local a \<or> address = ia_broadcast a) (if_addrs i)"

definition L3_IsDestinationAddress :: "ipv4 \<Rightarrow> u32 \<Rightarrow> 'p l3 \<Rightarrow> bool res" where
  "L3_IsDestinationAddress address iif s =
     bind_res (L3_interface iif s) (\<lambda>i.
       if iface_accepts address i then Inr True
       else if Ipv4Address_IsMulticast address then Inr True
       else if Ipv4Address_IsBroadcast address then Inr True
       else if l3_weakEsModel s then
         Inr (list_ex (\<lambda>j. j \<noteq> unat iif \<and> iface_accepts address (l3_interfaces s ! j)) [0..<length (l3_interfaces s)])
       else Inr False)"

definition L3_IsUnicast :: "ipv4 \<Rightarrow> 'p l3 \<Rightarrow> bool" where
  "L3_IsUnicast ad s =
     (if Ipv4Address_IsBroadcast ad \<or> Ipv4Address_IsMulticast ad then False
      else \<not> list_ex (\<lambda>i. list_ex (\<lambda>a. ad = ia_broadcast a) (if_addrs i)) (l3_interfaces s))"

definition L3_IsUnicast_mask :: "ipv4 \<Rightarrow> u32 \<Rightarrow> bool" where
  "L3_IsUnicast_mask ad interfaceMask \<longleftrightarrow>
     \<not> Ipv4Address_IsMulticast ad \<and> \<not> Ipv4Address_IsSubnetDirectedBroadcast ad interfaceMask"

definition L3_AddAddress :: "u32 \<Rightarrow> iface_addr \<Rightarrow> 'p l3 \<Rightarrow> (bool \<times> 'p l3_effect list \<times> 'p l3) res" where
  "L3_AddAddress i address s =
     bind_res (L3_interface i s) (\<lambda>interface.
       let (retVal, interface1) = Interface_AddAddress address interface
       in Inr (retVal, if l3_routing s then [L3NotifyAddAddress i address] else [], L3_set_interface i interface1 s))"

definition L3_RemoveAddress :: "u32 \<Rightarrow> nat \<Rightarrow> 'p l3 \<Rightarrow> (bool \<times> 'p l3_effect list \<times> 'p l3) res" where
  "L3_RemoveAddress i addressIndex s =
     bind_res (L3_interface i s) (\<lambda>interface.
     bind_res (Interface_RemoveAddress addressIndex interface) (\<lambda>(address, interface1).
       let s1 = L3_set_interface i interface1 s in
       if address \<noteq> InterfaceAddress_new
       then Inr (True, if l3_routing s then [L3NotifyRemoveAddress i address] else [], s1)
       else Inr (False, [], s1)))"

definition L3_RemoveAddress_local :: "u32 \<Rightarrow> ipv4 \<Rightarrow> 'p l3 \<Rightarrow> (bool \<times> 'p l3_effect list \<times> 'p l3) res" where
  "L3_RemoveAddress_local i address s =
     (if address = 0x7f000001 then Inr (False, [], s)
      else bind_res (L3_interface i s) (\<lambda>interface.
        let (ifAddr, interface1) = Interface_RemoveAddress_local address interface;
            s1 = L3_set_interface i interface1 s in
        if ifAddr \<noteq> InterfaceAddress_new
        then Inr (True, if l3_routing s then [L3NotifyRemoveAddress i ifAddr] else [], s1)
        else Inr (False, [], s1)))"

definition L3_SourceAddressSelection :: "u32 \<Rightarrow> ipv4 \<Rightarrow> 'p l3 \<Rightarrow> ipv4 res" where
  "L3_SourceAddressSelection interfaceIdx dest s =
     bind_res (L3_interface interfaceIdx s) (\<lambda>i.
     bind_res (Interface_GetAddress 0 i) (\<lambda>first.
       if length (if_addrs i) = 1 then Inr (ia_local first)
       else case List.find (\<lambda>test. Ipv4Address_CombineMask (ia_local test) (ia_mask test) =
                   Ipv4Address_CombineMask dest (ia_mask test) \<and> \<not> ia_secondary test) (if_addrs i) of
              Some test \<Rightarrow> Inr (ia_local test)
            | None \<Rightarrow> Inr (ia_local first)))"

text \<open>\<open>SelectSourceAddress\<close>: the loop over one interface, then the loop over all.\<close>

fun select_on_device :: "ipv4 \<Rightarrow> addr_scope \<Rightarrow> iface_addr list \<Rightarrow> ipv4 option \<Rightarrow> ipv4 option" where
  "select_on_device dst scope [] found = found"
| "select_on_device dst scope (a # as) found =
     (if ia_secondary a then select_on_device dst scope as found
      else if ia_scope a > scope then select_on_device dst scope as found
      else if Ipv4Address_CombineMask dst (ia_mask a) = Ipv4Address_CombineMask (ia_local a) (ia_mask a)
      then Some (ia_local a)
      else select_on_device dst scope as (if found = None then Some (ia_local a) else found))"

definition L3_SelectSourceAddress :: "nat \<Rightarrow> ipv4 \<Rightarrow> addr_scope \<Rightarrow> 'p l3 \<Rightarrow> ipv4 res" where
  "L3_SelectSourceAddress device dst scope s =
     bind_res
       (if device \<noteq> 0 then
          case L3_GetInterfaceForDevice device s of
            None \<Rightarrow> Inl Assert
          | Some i \<Rightarrow> bind_res (L3_interface i s) (\<lambda>ifc. Inr (select_on_device dst scope (if_addrs ifc) None))
        else Inr None) (\<lambda>found.
       case found of
         Some addr \<Rightarrow> Inr addr
       | None \<Rightarrow>
           (case List.find (\<lambda>a. \<not> ia_secondary a \<and> ia_scope a \<noteq> LINK \<and> ia_scope a \<le> scope)
                  (concat (map if_addrs (l3_interfaces s))) of
              Some a \<Rightarrow> Inr (ia_local a)
            | None \<Rightarrow> Inr 0))"

definition L3_SetMetric :: "u32 \<Rightarrow> u16 \<Rightarrow> 'p l3 \<Rightarrow> 'p l3 res" where
  "L3_SetMetric i metric s =
     bind_res (L3_interface i s) (\<lambda>interface. Inr (L3_set_interface i (Interface_SetMetric metric interface) s))"

definition L3_SetForwarding :: "u32 \<Rightarrow> bool \<Rightarrow> 'p l3 \<Rightarrow> 'p l3 res" where
  "L3_SetForwarding i val s =
     bind_res (L3_interface i s) (\<lambda>interface. Inr (L3_set_interface i (Interface_SetForwarding val interface) s))"

definition L3_SetIpForward :: "bool \<Rightarrow> 'p l3 \<Rightarrow> 'p l3" where
  "L3_SetIpForward forward s =
     s\<lparr>l3_ipForward := forward, l3_interfaces := map (Interface_SetForwarding forward) (l3_interfaces s)\<rparr>"

definition L3_SetWeakEsModel :: "bool \<Rightarrow> 'p l3 \<Rightarrow> 'p l3" where
  "L3_SetWeakEsModel model s = s\<lparr>l3_weakEsModel := model\<rparr>"

definition L3_SetDefaultTtl :: "u8 \<Rightarrow> 'p l3 \<Rightarrow> 'p l3" where
  "L3_SetDefaultTtl ttl s = s\<lparr>l3_defaultTtl := ttl\<rparr>"

definition L3_GetMtu :: "'p l3_env \<Rightarrow> u32 \<Rightarrow> 'p l3 \<Rightarrow> u16 res" where
  "L3_GetMtu env i s =
     bind_res (L3_interface i s) (\<lambda>interface.
       ns_assert (if_device interface \<noteq> 0) (Inr (dv_mtu (e_dev env (if_device interface)))))"

definition L3_SetUp :: "'p l3_env \<Rightarrow> u32 \<Rightarrow> 'p l3 \<Rightarrow> ('p l3_effect list \<times> 'p l3) res" where
  "L3_SetUp env i s =
     bind_res (L3_interface i s) (\<lambda>interface.
     bind_res (L3_GetMtu env i s) (\<lambda>mtu.
       if mtu \<ge> 68
       then Inr (if l3_routing s then [L3NotifyInterfaceUp i] else [], L3_set_interface i (Interface_SetUp interface) s)
       else Inr ([], s)))"

definition L3_SetDown :: "u32 \<Rightarrow> 'p l3 \<Rightarrow> ('p l3_effect list \<times> 'p l3) res" where
  "L3_SetDown i s =
     bind_res (L3_interface i s) (\<lambda>interface.
       Inr (if l3_routing s then [L3NotifyInterfaceDown i] else [], L3_set_interface i (Interface_SetDown interface) s))"

section \<open>Duplicate detection\<close>

text \<open>The bytes that are hashed: the datagram with the fields that change on the way set to zero.\<close>

definition dpd_bytes :: "ipv4_header \<Rightarrow> bytes \<Rightarrow> bytes" where
  "dpd_bytes header bs =
     (let b1 = bs[1 := 0, 6 := 0, 7 := 0, 8 := 0, 10 := 0, 11 := 0]; n = Ipv4Header_GetSerializedSize header
      in if n > 20 then take 20 b1 @ replicate (n - 20) 0 @ drop n b1 else b1)"

definition dpd_key :: "(bytes \<Rightarrow> u32) \<Rightarrow> packet \<Rightarrow> ipv4_header \<Rightarrow> dup_tuple res" where
  "dpd_key Hash32 p header =
     (let hash0 = push_bit 32 (ucast (h_identification header)) in
      bind_res
        (if h_fragmentOffset header \<noteq> 0 \<or> \<not> Ipv4Header_IsLastFragment header
         then Inr (hash0 OR ucast (h_fragmentOffset header))
         else bind_res (Ipv4Header_Serialize header) (\<lambda>hb.
           let bs = hb @ pk_bytes p
           in ns_assert (length bs \<ge> 20) (Inr (hash0 OR ucast (Hash32 (dpd_bytes header bs)))))) (\<lambda>hash.
        Inr (hash, h_protocol header, h_source header, h_destination header)))"

definition L3_UpdateDuplicate ::
  "'p l3_env \<Rightarrow> packet \<Rightarrow> ipv4_header \<Rightarrow> 'p l3 \<Rightarrow> (bool \<times> 'p l3_effect list \<times> 'p l3) res" where
  "L3_UpdateDuplicate env p header s =
     bind_res (dpd_key (e_Hash32 env) p header) (\<lambda>key.
       let clean = \<not> l3_cleanDpd s \<and> 0 < sint (l3_purge s);
           isDup = (case map_of (l3_dups s) key of None \<Rightarrow> False | Some t \<Rightarrow> t > e_now env)
       in Inr (isDup, if clean then [L3ScheduleRemoveDuplicates (l3_expire s)] else [],
               s\<lparr>l3_cleanDpd := l3_cleanDpd s \<or> clean,
                 l3_dups := (key, e_now env + l3_expire s) # filter (\<lambda>(k, t). k \<noteq> key) (l3_dups s)\<rparr>))"

definition L3_RemoveDuplicates :: "'p l3_env \<Rightarrow> 'p l3 \<Rightarrow> 'p l3_effect list \<times> 'p l3" where
  "L3_RemoveDuplicates env s =
     (let dups = filter (\<lambda>(k, t). \<not> t < e_now env) (l3_dups s); again = dups \<noteq> [] \<and> 0 < sint (l3_purge s)
      in (if again then [L3ScheduleRemoveDuplicates (l3_purge s)] else [], s\<lparr>l3_dups := dups, l3_cleanDpd := again\<rparr>))"

section \<open>Sending\<close>

text \<open>
  \<open>outInterface->Send\<close> for each pair of a payload and a header, after \<open>CallTxTrace\<close>, which shows a copy
  with the header in front.
\<close>

fun L3_send_list ::
  "'p l3_env \<Rightarrow> u32 \<Rightarrow> ipv4 \<Rightarrow> ipv4_interface \<Rightarrow> (packet \<times> ipv4_header) list \<Rightarrow> 'p l3_effect list res" where
  "L3_send_list env interface target out [] = Inr []"
| "L3_send_list env interface target out ((p, h) # rest) =
     bind_res (Ipv4Header_Serialize h) (\<lambda>bs.
     bind_res (Interface_Send (e_ArpLookup env) (e_SelectQueue env) (e_tc env) (e_dev env) p h target out) (\<lambda>fx.
     bind_res (L3_send_list env interface target out rest) (\<lambda>fx'.
       Inr (L3Tx (Packet_AddHeader bs p) interface # map L3Net fx @ fx'))))"

definition L3_SendRealOut ::
  "'p l3_env \<Rightarrow> ipv4_route option \<Rightarrow> packet \<Rightarrow> ipv4_header \<Rightarrow> 'p l3 \<Rightarrow> 'p l3_effect list res" where
  "L3_SendRealOut env route packet ipHeader s =
     (case route of
        None \<Rightarrow> Inr [L3Drop ipHeader packet DROP_NO_ROUTE 0]
      | Some r \<Rightarrow>
          (case L3_GetInterfaceForDevice (rt_device r) s of
             None \<Rightarrow> Inl Assert
           | Some interface \<Rightarrow>
               bind_res (L3_interface interface s) (\<lambda>out.
                 let target = (if Ipv4Address_IsAny (rt_gateway r) then h_destination ipHeader else rt_gateway r) in
                 if if_up out then
                   bind_res (L3_GetMtu env interface s) (\<lambda>mtu.
                     if Packet_GetSize packet + of_nat (Ipv4Header_GetSerializedSize ipHeader) > ucast mtu then
                       bind_res (DoFragmentation (e_ChecksumEnabled env) (Suc (length (pk_bytes packet))) packet ipHeader (ucast mtu))
                         (L3_send_list env interface target out)
                     else L3_send_list env interface target out [(packet, ipHeader)])
                 else Inr [])))"

definition L3_SendWithHeader ::
  "'p l3_env \<Rightarrow> packet \<Rightarrow> ipv4_header \<Rightarrow> ipv4_route option \<Rightarrow> 'p l3 \<Rightarrow> 'p l3_effect list res" where
  "L3_SendWithHeader env packet ipHeader route s =
     L3_SendRealOut env route packet
       (if e_ChecksumEnabled env then Ipv4Header_EnableChecksum ipHeader else ipHeader) s"

definition ident_key :: "ipv4 \<Rightarrow> ipv4 \<Rightarrow> u8 \<Rightarrow> u64 \<times> u8" where
  "ident_key source destination protocol = (ucast destination OR push_bit 32 (ucast source), protocol)"

definition L3_DecreaseIdentification :: "ipv4 \<Rightarrow> ipv4 \<Rightarrow> u8 \<Rightarrow> 'p l3 \<Rightarrow> 'p l3" where
  "L3_DecreaseIdentification source destination protocol s =
     (let key = ident_key source destination protocol
      in s\<lparr>l3_identification := (l3_identification s)(key := l3_identification s key - 1)\<rparr>)"

definition L3_BuildHeader ::
  "'p l3_env \<Rightarrow> ipv4 \<Rightarrow> ipv4 \<Rightarrow> u8 \<Rightarrow> u16 \<Rightarrow> u8 \<Rightarrow> u8 \<Rightarrow> bool \<Rightarrow> 'p l3 \<Rightarrow> ipv4_header \<times> 'p l3" where
  "L3_BuildHeader env source destination protocol payloadSize ttl tos mayFragment s =
     (let h1 = Ipv4Header_SetTos tos (Ipv4Header_SetTtl ttl (Ipv4Header_SetPayloadSize payloadSize (Ipv4Header_SetProtocol protocol
                 (Ipv4Header_SetDestination destination (Ipv4Header_SetSource source Ipv4Header_new)))));
          key = ident_key source destination protocol;
          h2 = (if mayFragment then Ipv4Header_SetMayFragment h1 else Ipv4Header_SetDontFragment h1);
          h3 = Ipv4Header_SetIdentification (l3_identification s key) h2
      in (if e_ChecksumEnabled env then Ipv4Header_EnableChecksum h3 else h3,
          s\<lparr>l3_identification := (l3_identification s)(key := l3_identification s key + 1)\<rparr>))"

text \<open>The start of \<open>Send\<close>: the tags of the socket are taken off, and the header is built.\<close>

definition L3_send_header ::
  "'p l3_env \<Rightarrow> packet \<Rightarrow> ipv4 \<Rightarrow> ipv4 \<Rightarrow> u8 \<Rightarrow> 'p l3 \<Rightarrow> (packet \<times> ipv4_header \<times> 'p l3) res" where
  "L3_send_header env packet source destination protocol s =
     bind_res (PacketTagList_Remove IP_TTL_TAG SocketIpTtlTag_Deserialize packet) (\<lambda>(ttlTag, p1).
     bind_res (PacketTagList_Remove IP_TOS_TAG SocketIpTosTag_Deserialize p1) (\<lambda>(tosTag, p2).
       let ttl = (case ttlTag of Some t \<Rightarrow> t | None \<Rightarrow> l3_defaultTtl s);
           tos = (case tosTag of Some t \<Rightarrow> t | None \<Rightarrow> 0);
           (h, s1) = L3_BuildHeader env source destination protocol (ucast (Packet_GetSize p2)) ttl tos True s
       in Inr (p2, h, s1)))"

text \<open>
  \<open>Send\<close> with a route: case 1. A route comes with whether its gateway has been set, which an address
  remembers beside its value.
\<close>

definition L3_Send_route ::
  "'p l3_env \<Rightarrow> packet \<Rightarrow> ipv4 \<Rightarrow> ipv4 \<Rightarrow> u8 \<Rightarrow> ipv4_route \<times> bool \<Rightarrow> 'p l3 \<Rightarrow> ('p l3_effect list \<times> 'p l3) res" where
  "L3_Send_route env packet source destination protocol route s =
     bind_res (L3_send_header env packet source destination protocol s) (\<lambda>(p, ipHeader, s1).
       if \<not> snd route then Inl Fatal
       else
         bind_res (if l3_enableDpd s1 \<and> Ipv4Address_IsMulticast (h_destination ipHeader)
                   then bind_res (L3_UpdateDuplicate env p ipHeader s1) (\<lambda>(dup, fx, s2). Inr (fx, s2))
                   else Inr ([], s1)) (\<lambda>(fx, s2).
         bind_res (L3_SendRealOut env (Some (fst route)) p ipHeader s2) (\<lambda>fx'.
           Inr (L3SendOutgoing ipHeader p (iface_u32 (L3_GetInterfaceForDevice (rt_device (fst route)) s1)) # fx @ fx', s2))))"

definition proxy_route :: "ipv4 \<Rightarrow> ipv4 \<Rightarrow> nat \<Rightarrow> ipv4_route \<times> bool" where
  "proxy_route source destination device =
     (\<lparr>rt_destination = destination, rt_source = source, rt_gateway = 0, rt_device = device\<rparr>, True)"

text \<open>
  Case 2: one copy on every interface that has the source address, or on all if it is \<open>0.0.0.0\<close>. The
  recursive calls are all given the same packet object, and each takes the tags of the socket off it: only the
  first finds them.
\<close>

definition L3_strip_tags :: "packet \<Rightarrow> packet res" where
  "L3_strip_tags packet =
     bind_res (PacketTagList_Remove IP_TTL_TAG SocketIpTtlTag_Deserialize packet) (\<lambda>(ttlTag, p1).
     bind_res (PacketTagList_Remove IP_TOS_TAG SocketIpTosTag_Deserialize p1) (\<lambda>(tosTag, p2). Inr p2))"

fun L3_Send_broadcast ::
  "'p l3_env \<Rightarrow> packet \<Rightarrow> ipv4 \<Rightarrow> ipv4 \<Rightarrow> u8 \<Rightarrow> ipv4_interface list \<Rightarrow> 'p l3 \<Rightarrow> ('p l3_effect list \<times> 'p l3) res" where
  "L3_Send_broadcast env packet source destination protocol [] s = Inr ([], s)"
| "L3_Send_broadcast env packet source destination protocol (out # outs) s =
     (if Ipv4Address_IsAny source \<or> list_ex (\<lambda>a. ia_local a = source) (if_addrs out) then
        bind_res (L3_Send_route env packet source destination protocol (proxy_route source destination (if_device out))
            (L3_DecreaseIdentification source destination protocol s)) (\<lambda>(fx, s1).
        bind_res (L3_strip_tags packet) (\<lambda>packet1.
        bind_res (L3_Send_broadcast env packet1 source destination protocol outs s1) (\<lambda>(fx', s2). Inr (fx @ fx', s2))))
      else L3_Send_broadcast env packet source destination protocol outs s)"

text \<open>
  Case 3: the device of the first interface with an address whose subnet has the destination as its
  broadcast address. The addresses looked at are those of the interface found by the device.
\<close>

fun directed_device :: "ipv4 \<Rightarrow> 'p l3 \<Rightarrow> ipv4_interface list \<Rightarrow> nat option res" where
  "directed_device destination s [] = Inr None"
| "directed_device destination s (out # outs) =
     bind_res (L3_interface (iface_u32 (L3_GetInterfaceForDevice (if_device out) s)) s) (\<lambda>i.
       if list_ex (\<lambda>a. Ipv4Address_IsSubnetDirectedBroadcast destination (ia_mask a) \<and>
             Ipv4Address_CombineMask destination (ia_mask a) = Ipv4Address_CombineMask (ia_local a) (ia_mask a)) (if_addrs i)
       then Inr (Some (if_device out))
       else directed_device destination s outs)"

definition L3_Send ::
  "'p l3_env \<Rightarrow> (packet \<Rightarrow> ipv4_header \<Rightarrow> (ipv4_route \<times> bool) option res) \<Rightarrow> packet \<Rightarrow> ipv4 \<Rightarrow> ipv4 \<Rightarrow> u8 \<Rightarrow>
   (ipv4_route \<times> bool) option \<Rightarrow> 'p l3 \<Rightarrow> ('p l3_effect list \<times> 'p l3) res" where
  "L3_Send env RouteOutput packet source destination protocol route s =
     (case route of
        Some r \<Rightarrow> L3_Send_route env packet source destination protocol r s
      | None \<Rightarrow>
          bind_res (L3_send_header env packet source destination protocol s) (\<lambda>(p, ipHeader, s1).
            if Ipv4Address_IsBroadcast destination \<or> Ipv4Address_IsLocalMulticast destination then
              L3_Send_broadcast env packet source destination protocol (l3_interfaces s1) s1
            else
              bind_res (directed_device destination s1 (l3_interfaces s1)) (\<lambda>directed.
                case directed of
                  Some device \<Rightarrow>
                    L3_Send_route env packet source destination protocol (proxy_route source destination device)
                      (L3_DecreaseIdentification source destination protocol s1)
                | None \<Rightarrow>
                    bind_res (if l3_routing s1 then RouteOutput packet ipHeader else Inr None) (\<lambda>newRoute.
                      case newRoute of
                        Some r \<Rightarrow>
                          L3_Send_route env packet source destination protocol r
                            (L3_DecreaseIdentification source destination protocol s1)
                      | None \<Rightarrow>
                          Inr ([L3Drop ipHeader p DROP_NO_ROUTE 0],
                               L3_DecreaseIdentification source destination protocol s1)))))"

section \<open>Forwarding and delivery\<close>

definition L3_IpForward :: "'p l3_env \<Rightarrow> ipv4_route \<Rightarrow> packet \<Rightarrow> ipv4_header \<Rightarrow> 'p l3 \<Rightarrow> 'p l3_effect list res" where
  "L3_IpForward env rtentry packet header s =
     (let interface = iface_u32 (L3_GetInterfaceForDevice (rt_device rtentry) s);
          ipHeader = Ipv4Header_SetTtl (h_ttl header - 1) header
      in if h_ttl ipHeader = 0 then
           bind_res (if \<not> Ipv4Address_IsBroadcast (h_destination ipHeader) \<and> \<not> Ipv4Address_IsMulticast (h_destination ipHeader)
                     then bind_res (L3_GetIcmp env s) (\<lambda>icmp. Inr [L3TimeExceeded ipHeader packet False])
                     else Inr []) (\<lambda>fx.
             Inr (fx @ [L3Drop header packet DROP_TTL_EXPIRED interface]))
         else
           bind_res (PacketTagList_Remove PRIORITY_TAG SocketPriorityTag_Deserialize packet) (\<lambda>(tag, p1).
           bind_res (let priority = IpTos2Priority (h_tos ipHeader)
                     in if priority \<noteq> 0 then PacketTagList_Add PRIORITY_TAG (SocketPriorityTag_Serialize priority) p1
                        else Inr p1) (\<lambda>p2.
           bind_res (L3_SendRealOut env (Some rtentry) p2 ipHeader s) (\<lambda>fx.
             Inr (L3UnicastForward ipHeader p2 interface # fx)))))"

text \<open>\<open>IpMulticastForward\<close>, over the output interfaces in increasing order.\<close>

fun L3_multicast_loop ::
  "'p l3_env \<Rightarrow> u32 list \<Rightarrow> packet \<Rightarrow> ipv4_header \<Rightarrow> 'p l3 \<Rightarrow> 'p l3_effect list res" where
  "L3_multicast_loop env [] packet header s = Inr []"
| "L3_multicast_loop env (interface # rest) packet header s =
     (let ipHeader = Ipv4Header_SetTtl (h_ttl header - 1) header in
      if h_ttl ipHeader = 0 then Inr [L3Drop header packet DROP_TTL_EXPIRED interface]
      else
        bind_res (L3_interface interface s) (\<lambda>out.
        bind_res (L3_SendRealOut env (Some \<lparr>rt_destination = h_destination ipHeader, rt_source = h_source ipHeader,
            rt_gateway = 0, rt_device = if_device out\<rparr>) packet ipHeader s) (\<lambda>fx.
        bind_res (L3_multicast_loop env rest packet header s) (\<lambda>fx'.
          Inr (L3MulticastForward ipHeader packet interface # fx @ fx')))))"

definition L3_IpMulticastForward :: "'p l3_env \<Rightarrow> ipv4_mroute \<Rightarrow> packet \<Rightarrow> ipv4_header \<Rightarrow> 'p l3 \<Rightarrow> 'p l3_effect list res" where
  "L3_IpMulticastForward env mrtentry packet header s =
     L3_multicast_loop env (sorted_list_of_set (dom (mr_ttls mrtentry))) packet header s"

text \<open>\<open>LocalDeliver\<close> from the point where the datagram is complete.\<close>

definition L3_deliver_up :: "'p l3_env \<Rightarrow> packet \<Rightarrow> ipv4_header \<Rightarrow> u32 \<Rightarrow> 'p l3 \<Rightarrow> 'p l3_effect list res" where
  "L3_deliver_up env p ipHeader iif s =
     (case L3_GetProtocol_on (uint (h_protocol ipHeader)) (sint iif) s of
        None \<Rightarrow> Inr [L3LocalDeliver ipHeader p iif]
      | Some protocol \<Rightarrow>
          bind_res
            (if e_Receive env protocol p ipHeader iif = RX_ENDPOINT_UNREACH \<and>
                \<not> Ipv4Address_IsBroadcast (h_destination ipHeader) \<and> \<not> Ipv4Address_IsMulticast (h_destination ipHeader)
             then bind_res (L3_interface iif s) (\<lambda>i.
               if list_ex (\<lambda>a. Ipv4Address_CombineMask (ia_local a) (ia_mask a) =
                      Ipv4Address_CombineMask (h_destination ipHeader) (ia_mask a) \<and>
                    Ipv4Address_IsSubnetDirectedBroadcast (h_destination ipHeader) (ia_mask a)) (if_addrs i)
               then Inr []
               else bind_res (L3_GetIcmp env s) (\<lambda>icmp. Inr [L3DestUnreachPort ipHeader p]))
             else Inr []) (\<lambda>fx.
            Inr (L3LocalDeliver ipHeader p iif # L3ToProtocol protocol p ipHeader iif # fx)))"

definition L3_LocalDeliver ::
  "'p l3_env \<Rightarrow> packet \<Rightarrow> ipv4_header \<Rightarrow> u32 \<Rightarrow> 'p l3 \<Rightarrow> ('p l3_effect list \<times> 'p l3) res" where
  "L3_LocalDeliver env packet ip iif s =
     (if \<not> Ipv4Header_IsLastFragment ip \<or> h_fragmentOffset ip \<noteq> 0 then
        bind_res (ProcessFragment (e_now env) packet ip iif (l3_reassembly s)) (\<lambda>(complete, r, fx).
          let s1 = s\<lparr>l3_reassembly := r\<rparr> in
          case complete of
            None \<Rightarrow> Inr (map L3Frag fx, s1)
          | Some p \<Rightarrow>
              bind_res (Ipv4Header_SetFragmentOffset 0 ip) (\<lambda>h1.
              bind_res (L3_deliver_up env p (Ipv4Header_SetPayloadSize (ucast (Packet_GetSize p)) h1) iif s1) (\<lambda>fx'.
                Inr (map L3Frag fx @ fx', s1))))
      else bind_res (L3_deliver_up env (Packet_Copy packet) ip iif s) (\<lambda>fx. Inr (fx, s)))"

text \<open>
  \<open>HandleTimeout\<close>, which the simulator runs: the collectors that are due are dropped. For those with more than eight
  bytes an ICMP message is sent, through the pointer that \<open>GetIcmp\<close> returns; \<open>uid\<close> numbers the partial packet.
\<close>

definition L3_HandleTimeout :: "'p l3_env \<Rightarrow> u64 \<Rightarrow> 'p l3 \<Rightarrow> ('p l3_effect list \<times> 'p l3) res" where
  "L3_HandleTimeout env uid s =
     bind_res (HandleTimeout uid (e_now env) (l3_reassembly s)) (\<lambda>(r, fx).
       if list_ex (\<lambda>e. case e of SendTimeExceededTtl h q \<Rightarrow> True | _ \<Rightarrow> False) fx
       then bind_res (L3_GetIcmp env s) (\<lambda>icmp. Inr (map L3Frag fx, s\<lparr>l3_reassembly := r\<rparr>))
       else Inr (map L3Frag fx, s\<lparr>l3_reassembly := r\<rparr>))"

definition L3_RouteInputError :: "packet \<Rightarrow> ipv4_header \<Rightarrow> SocketErrno \<Rightarrow> 'p l3_effect list" where
  "L3_RouteInputError p ipHeader sockErrno = [L3Drop ipHeader p DROP_ROUTE_ERROR 0]"

text \<open>A callback of the routing protocol.\<close>

fun L3_callback :: "'p l3_env \<Rightarrow> packet \<times> ipv4_header \<times> route_action \<Rightarrow> 'p l3 \<Rightarrow> ('p l3_effect list \<times> 'p l3) res" where
  "L3_callback env (p, h, UnicastForward rt) s = bind_res (L3_IpForward env rt p h s) (\<lambda>fx. Inr (fx, s))"
| "L3_callback env (p, h, MulticastForward mrt) s = bind_res (L3_IpMulticastForward env mrt p h s) (\<lambda>fx. Inr (fx, s))"
| "L3_callback env (p, h, LocalDeliver iif) s = L3_LocalDeliver env p h iif s"
| "L3_callback env (p, h, RouteError e) s = Inr (L3_RouteInputError p h e, s)"

fun L3_callbacks :: "'p l3_env \<Rightarrow> (packet \<times> ipv4_header \<times> route_action) list \<Rightarrow> 'p l3 \<Rightarrow> ('p l3_effect list \<times> 'p l3) res" where
  "L3_callbacks env [] s = Inr ([], s)"
| "L3_callbacks env (a # as) s =
     bind_res (L3_callback env a s) (\<lambda>(fx, s1).
     bind_res (L3_callbacks env as s1) (\<lambda>(fx', s2). Inr (fx @ fx', s2)))"

type_synonym route_input_fn = "packet \<Rightarrow> ipv4_header \<Rightarrow> nat \<Rightarrow> (bool \<times> (packet \<times> ipv4_header \<times> route_action) list) res"

text \<open>
  \<open>Receive\<close>: first what becomes of the frame, then, from the duplicate check on, what becomes of the
  datagram.
\<close>

definition L3_input ::
  "'p l3_env \<Rightarrow> route_input_fn \<Rightarrow> nat \<Rightarrow> u32 \<Rightarrow> packet \<Rightarrow> ipv4_header \<Rightarrow> 'p l3 \<Rightarrow> ('p l3_effect list \<times> 'p l3) res" where
  "L3_input env RouteInput device interface packet ipHeader s =
     bind_res (if l3_enableDpd s \<and> Ipv4Address_IsMulticast (h_destination ipHeader)
               then L3_UpdateDuplicate env packet ipHeader s else Inr (False, [], s)) (\<lambda>(dup, fx, s1).
       if dup then Inr (fx @ [L3Drop ipHeader packet DROP_DUPLICATE interface], s1)
       else ns_assert (l3_routing s1)
         (bind_res (RouteInput packet ipHeader device) (\<lambda>(ok, acts).
          bind_res (L3_callbacks env acts s1) (\<lambda>(fx', s2).
            Inr (fx @ fx' @ (if ok then [] else [L3Drop ipHeader packet DROP_NO_ROUTE interface]), s2)))))"

definition L3_Receive ::
  "'p l3_env \<Rightarrow> route_input_fn \<Rightarrow> nat \<Rightarrow> packet \<Rightarrow> bytes \<Rightarrow> 'p l3 \<Rightarrow> ('p l3_effect list \<times> 'p l3) res" where
  "L3_Receive env RouteInput device packet from s =
     (case L3_GetInterfaceForDevice device s of
        None \<Rightarrow> Inl Assert
      | Some interface \<Rightarrow>
          defined_if (unat interface < length (l3_interfaces s))
           (let ifc = l3_interfaces s ! unat interface in
            if \<not> if_up ifc then
              bind_res (Packet_RemoveHeader (Ipv4Header_Deserialize Ipv4Header_new) packet) (\<lambda>(ipHeader, p1).
                Inr ([L3Drop ipHeader p1 DROP_INTERFACE_DOWN interface], s))
            else
              let h0 = (if e_ChecksumEnabled env then Ipv4Header_EnableChecksum Ipv4Header_new else Ipv4Header_new) in
              bind_res (Packet_RemoveHeader (Ipv4Header_Deserialize h0) packet) (\<lambda>(ipHeader, p1).
                let p2 = (if ucast (h_payloadSize ipHeader) < Packet_GetSize p1
                          then Packet_RemoveAtEnd (Packet_GetSize p1 - ucast (h_payloadSize ipHeader)) p1 else p1)
                in if \<not> Ipv4Header_IsChecksumOk ipHeader then
                     Inr ([L3Rx packet interface, L3Drop ipHeader p2 DROP_BAD_CHECKSUM interface], s)
                   else
                     bind_res (L3_input env RouteInput device interface p2 ipHeader s) (\<lambda>(fx, s1).
                       Inr (L3Rx packet interface #
                            (if if_cache ifc \<noteq> 0 then [L3ArpSeen (if_cache ifc) (h_source ipHeader) from] else []) @
                            map (\<lambda>socket. L3ToRawSocket socket p2 ipHeader) (l3_sockets s) @ fx, s1)))))"

section \<open>Routing on the state of the layer\<close>

text \<open>The IP layer as its routing protocols see it.\<close>

definition stack_of :: "'p l3 \<Rightarrow> ipv4_stack" where
  "stack_of s =
     \<lparr>GetNetDevice = (\<lambda>i. case L3_interface i s of Inr ifc \<Rightarrow> if_device ifc | Inl e \<Rightarrow> 0),
      GetAddress0 = (\<lambda>i. case L3_GetAddress i 0 s of Inr a \<Rightarrow> ia_local a | Inl e \<Rightarrow> 0),
      GetInterfaceForDevice = (\<lambda>d. L3_GetInterfaceForDevice d s),
      IsDestinationAddress = (\<lambda>a i. L3_IsDestinationAddress a i s = Inr True),
      IsForwarding = (\<lambda>i. case L3_interface i s of Inr ifc \<Rightarrow> if_forwarding ifc | Inl e \<Rightarrow> False),
      SourceAddressSelection = (\<lambda>i dest. case L3_SourceAddressSelection i dest s of Inr a \<Rightarrow> a | Inl e \<Rightarrow> 0),
      IsUp = (\<lambda>i. case L3_interface i s of Inr ifc \<Rightarrow> if_up ifc | Inl e \<Rightarrow> False),
      GetAddresses = (\<lambda>i. case L3_interface i s of Inr ifc \<Rightarrow> map (\<lambda>a. (ia_local a, ia_mask a)) (if_addrs ifc) | Inl e \<Rightarrow> [])\<rparr>"

end
