(* ===== verification/Udp_Socket.thy ===== *)
theory Udp_Socket
  imports Udp_Header End_Points Ipv4_L3
begin

text \<open>
  \<open>internet/model/udp-l4-protocol.cc\<close> and \<open>udp-socket-impl.cc\<close> with the options of \<open>network/model/socket.cc\<close>: the
  UDP protocol of a node over IPv4 and its sockets. The protocol has the end points; a socket has the
  address of its end point, and an end point the address of its socket, so both are in one state.

  Calls that leave the two components are effects, in the order in which the code makes them: datagrams
  handed to the IP layer and notifications of the application. The IP layer that a socket asks about
  interfaces and addresses is an argument. Sockets and end points of IPv6 are not modelled.
\<close>

section \<open>Packet tags\<close>

text \<open>\<open>PacketTagList::Replace\<close> rewrites the first tag of the type in place, or adds one.\<close>

fun replace_first :: "string \<Rightarrow> bytes \<Rightarrow> (string \<times> bytes) list \<Rightarrow> (string \<times> bytes) list" where
  "replace_first tid data [] = []"
| "replace_first tid data ((t, d) # ts) = (if t = tid then (t, data) # ts else (t, d) # replace_first tid data ts)"

definition PacketTagList_Replace :: "string \<Rightarrow> bytes \<Rightarrow> packet \<Rightarrow> packet res" where
  "PacketTagList_Replace tid data p =
     (if list_ex (\<lambda>(t, d). t = tid) (pk_tags p) then Inr (p\<lparr>pk_tags := replace_first tid data (pk_tags p)\<rparr>)
      else PacketTagList_Add tid data p)"

definition DONT_FRAGMENT_TAG :: string where "DONT_FRAGMENT_TAG = ''ns3::SocketSetDontFragmentTag''"
definition PACKET_INFO_TAG :: string where "PACKET_INFO_TAG = ''ns3::Ipv4PacketInfoTag''"

definition SocketSetDontFragmentTag_Serialize :: "bool \<Rightarrow> bytes" where
  "SocketSetDontFragmentTag_Serialize dontFragment = [if dontFragment then 1 else 0]"

definition SocketSetDontFragmentTag_Deserialize :: "bytes \<Rightarrow> bool res" where
  "SocketSetDontFragmentTag_Deserialize bs = bind_res (ReadU8 bs) (\<lambda>(b, r). Inr (b = 1))"

definition SocketIpTosTag_Serialize :: "u8 \<Rightarrow> bytes" where
  "SocketIpTosTag_Serialize tos = [tos]"

definition SocketIpTtlTag_Serialize :: "u8 \<Rightarrow> bytes" where
  "SocketIpTtlTag_Serialize ttl = [ttl]"

definition Ipv4PacketInfoTag_Serialize :: "ipv4 \<Rightarrow> u32 \<Rightarrow> u8 \<Rightarrow> bytes" where
  "Ipv4PacketInfoTag_Serialize addr ifindex ttl = WriteHtonU32 addr @ TagBuffer_WriteU32 ifindex @ [ttl]"

definition Ipv4PacketInfoTag_Deserialize :: "bytes \<Rightarrow> (ipv4 \<times> u32 \<times> u8) res" where
  "Ipv4PacketInfoTag_Deserialize bs =
     bind_res (ReadU8 bs) (\<lambda>(b0, q0). bind_res (ReadU8 q0) (\<lambda>(b1, q1).
     bind_res (ReadU8 q1) (\<lambda>(b2, q2). bind_res (ReadU8 q2) (\<lambda>(b3, r1).
     bind_res (ReadNtohU32 [b0, b1, b2, b3]) (\<lambda>(addr, none).
     bind_res (TagBuffer_ReadU32 r1) (\<lambda>(ifindex, r2).
     bind_res (ReadU8 r2) (\<lambda>(ttl, r3). Inr (addr, ifindex, ttl))))))))"

section \<open>State\<close>

text \<open>
  A socket address is an \<open>InetSocketAddress\<close> or, here, an address of a type that is not one of the
  Internet. A received packet is kept with the \<open>InetSocketAddress\<close> of its sender.
\<close>

datatype sock_address = InetSocketAddress ipv4 u16 u8 | OtherAddress

record udp_socket =
  sk_endPoint :: nat
  sk_boundnetdevice :: nat
  sk_defaultAddress :: "ipv4 option"
  sk_defaultPort :: u16
  sk_errno :: SocketErrno
  sk_shutdownSend :: bool
  sk_shutdownRecv :: bool
  sk_connected :: bool
  sk_allowBroadcast :: bool
  sk_deliveryQueue :: "(packet \<times> ipv4 \<times> u16) list"
  sk_rxAvailable :: u32
  sk_rcvBufSize :: u32
  sk_ipMulticastTtl :: u8
  sk_mtuDiscover :: bool
  sk_priority :: u8
  sk_ipTos :: u8
  sk_ipTtl :: u8
  sk_manualIpTtl :: bool
  sk_ipRecvTos :: bool
  sk_ipRecvTtl :: bool
  sk_recvPktInfo :: bool

text \<open>
  A new socket, with the defaults of its attributes: the attribute \<open>IpTtl\<close> is set through \<open>SetIpTtl\<close>,
  which marks it as set by hand.
\<close>

definition UdpSocketImpl_new :: udp_socket where
  "UdpSocketImpl_new =
     \<lparr>sk_endPoint = 0, sk_boundnetdevice = 0, sk_defaultAddress = None, sk_defaultPort = 0, sk_errno = ERROR_NOTERROR,
      sk_shutdownSend = False, sk_shutdownRecv = False, sk_connected = False, sk_allowBroadcast = False,
      sk_deliveryQueue = [], sk_rxAvailable = 0, sk_rcvBufSize = 131072, sk_ipMulticastTtl = 0, sk_mtuDiscover = False,
      sk_priority = 0, sk_ipTos = 0, sk_ipTtl = 0, sk_manualIpTtl = True, sk_ipRecvTos = False, sk_ipRecvTtl = False,
      sk_recvPktInfo = False\<rparr>"

record udp =
  udp_endPoints :: demux
  udp_sockets :: "nat list"
  udp_store :: "nat \<rightharpoonup> udp_socket"

datatype udp_effect =
    UdpDown packet ipv4 ipv4 u8 "(ipv4_route \<times> bool) option"
  | NotifyDataSent nat u32
  | NotifySend nat u32
  | NotifyDataRecv nat
  | NotifyConnectionSucceeded nat
  | NotifyConnectionFailed nat
  | UdpDropped nat packet
  | UdpIcmp nat ipv4 u8 u8 u8 u32

definition PROT_NUMBER :: u8 where "PROT_NUMBER = 17"

definition UdpL4Protocol_new :: udp where
  "UdpL4Protocol_new = \<lparr>udp_endPoints = Demux_new, udp_sockets = [], udp_store = Map.empty\<rparr>"

text \<open>\<open>CreateSocket\<close>; \<open>sk\<close> is the address of the new object.\<close>

definition Udp_CreateSocket :: "nat \<Rightarrow> udp \<Rightarrow> udp" where
  "Udp_CreateSocket sk u = u\<lparr>udp_sockets := udp_sockets u @ [sk], udp_store := (udp_store u)(sk \<mapsto> UdpSocketImpl_new)\<rparr>"

definition get_socket :: "nat \<Rightarrow> udp \<Rightarrow> udp_socket res" where
  "get_socket sk u = (case udp_store u sk of None \<Rightarrow> Inl Assert | Some s \<Rightarrow> Inr s)"

definition set_socket :: "nat \<Rightarrow> udp_socket \<Rightarrow> udp \<Rightarrow> udp" where
  "set_socket sk s u = u\<lparr>udp_store := (udp_store u)(sk \<mapsto> s)\<rparr>"

text \<open>A call on the end point at an address; a null or dangling pointer is undefined.\<close>

definition on_endPoint :: "nat \<Rightarrow> (end_point \<Rightarrow> end_point) \<Rightarrow> udp \<Rightarrow> udp res" where
  "on_endPoint a f u =
     (case Demux_get a (udp_endPoints u) of
        None \<Rightarrow> Inl Undefined
      | Some e \<Rightarrow> Inr (u\<lparr>udp_endPoints := Demux_update a f (udp_endPoints u)\<rparr>))"

definition get_endPoint :: "nat \<Rightarrow> udp \<Rightarrow> end_point res" where
  "get_endPoint a u = (case Demux_get a (udp_endPoints u) of None \<Rightarrow> Inl Undefined | Some e \<Rightarrow> Inr e)"

section \<open>The protocol\<close>

definition udp_send_header :: "bool \<Rightarrow> ipv4 \<Rightarrow> ipv4 \<Rightarrow> u16 \<Rightarrow> u16 \<Rightarrow> udp_header" where
  "udp_send_header csum saddr daddr sport dport =
     UdpHeader_SetSourcePort sport (UdpHeader_SetDestinationPort dport
       (if csum then UdpHeader_InitializeChecksum saddr daddr PROT_NUMBER (UdpHeader_EnableChecksums UdpHeader_new)
        else UdpHeader_new))"

definition Udp_Send ::
  "bool \<Rightarrow> packet \<Rightarrow> ipv4 \<Rightarrow> ipv4 \<Rightarrow> u16 \<Rightarrow> u16 \<Rightarrow> (ipv4_route \<times> bool) option \<Rightarrow> udp_effect res" where
  "Udp_Send csum packet saddr daddr sport dport route =
     bind_res (UdpHeader_Serialize (udp_send_header csum saddr daddr sport dport) (pk_bytes packet)) (\<lambda>bs.
       Inr (UdpDown (Packet_AddHeader bs packet) saddr daddr PROT_NUMBER route))"

section \<open>Sockets: binding and closing\<close>

definition Socket_SetIpTos :: "u8 \<Rightarrow> udp_socket \<Rightarrow> udp_socket" where
  "Socket_SetIpTos tos s = s\<lparr>sk_ipTos := tos, sk_priority := IpTos2Priority tos\<rparr>"

definition Socket_SetIpTtl :: "u8 \<Rightarrow> udp_socket \<Rightarrow> udp_socket" where
  "Socket_SetIpTtl ttl s = s\<lparr>sk_manualIpTtl := True, sk_ipTtl := ttl\<rparr>"

definition UdpSocket_FinishBind :: "nat \<Rightarrow> udp \<Rightarrow> (int \<times> udp) res" where
  "UdpSocket_FinishBind sk u =
     bind_res (get_socket sk u) (\<lambda>s.
       if sk_endPoint s \<noteq> 0 then
         bind_res (on_endPoint (sk_endPoint s) (EndPoint_SetCallbacks sk) u) (\<lambda>u1. Inr (0, u1))
       else Inr (-1, u))"

definition bind_device :: "nat \<Rightarrow> udp_socket \<Rightarrow> udp \<Rightarrow> udp res" where
  "bind_device ep s u =
     (if sk_boundnetdevice s \<noteq> 0 then on_endPoint ep (EndPoint_BindToNetDevice (sk_boundnetdevice s)) u else Inr u)"

definition UdpSocket_Bind :: "nat \<Rightarrow> udp \<Rightarrow> (int \<times> udp) res" where
  "UdpSocket_Bind sk u =
     bind_res (get_socket sk u) (\<lambda>s.
       let (ep, d) = Demux_Allocate (udp_endPoints u);
           u1 = set_socket sk (s\<lparr>sk_endPoint := ep\<rparr>) (u\<lparr>udp_endPoints := d\<rparr>)
       in bind_res (bind_device ep s u1) (UdpSocket_FinishBind sk))"

definition UdpSocket_Bind_address :: "nat \<Rightarrow> sock_address \<Rightarrow> udp \<Rightarrow> (int \<times> udp) res" where
  "UdpSocket_Bind_address sk address u =
     bind_res (get_socket sk u) (\<lambda>s.
       case address of
         InetSocketAddress ip port tos \<Rightarrow>
           ns_assert (sk_endPoint s = 0)
            (let s1 = Socket_SetIpTos tos s;
                 dev = sk_boundnetdevice s1;
                 (ep, d) =
                   (if ip = Ipv4Address_GetAny \<and> port = 0 then Demux_Allocate (udp_endPoints u)
                    else if ip = Ipv4Address_GetAny \<and> port \<noteq> 0 then Demux_Allocate_port dev port (udp_endPoints u)
                    else if ip \<noteq> Ipv4Address_GetAny \<and> port = 0 then Demux_Allocate_address ip (udp_endPoints u)
                    else Demux_Allocate_local dev ip port (udp_endPoints u));
                 s2 = s1\<lparr>sk_endPoint := ep\<rparr>
             in if ep = 0 then
                  Inr (-1, set_socket sk (s2\<lparr>sk_errno := (if port \<noteq> 0 then ERROR_ADDRINUSE else ERROR_ADDRNOTAVAIL)\<rparr>)
                         (u\<lparr>udp_endPoints := d\<rparr>))
                else
                  bind_res (bind_device ep s2 (set_socket sk s2 (u\<lparr>udp_endPoints := d\<rparr>))) (UdpSocket_FinishBind sk))
       | OtherAddress \<Rightarrow> Inr (-1, set_socket sk (s\<lparr>sk_errno := ERROR_INVAL\<rparr>) u))"

text \<open>\<open>BindToNetDevice\<close>; \<open>devices\<close> are those of the node.\<close>

definition UdpSocket_BindToNetDevice :: "nat list \<Rightarrow> nat \<Rightarrow> nat \<Rightarrow> udp \<Rightarrow> udp res" where
  "UdpSocket_BindToNetDevice devices sk netdevice u =
     ns_assert (netdevice \<noteq> 0 \<longrightarrow> netdevice \<in> set devices)
      (bind_res (get_socket sk u) (\<lambda>s.
        let u1 = set_socket sk (s\<lparr>sk_boundnetdevice := netdevice\<rparr>) u
        in if sk_endPoint s \<noteq> 0 then on_endPoint (sk_endPoint s) (EndPoint_BindToNetDevice netdevice) u1 else Inr u1))"

definition UdpSocket_ShutdownSend :: "nat \<Rightarrow> udp \<Rightarrow> (int \<times> udp) res" where
  "UdpSocket_ShutdownSend sk u =
     bind_res (get_socket sk u) (\<lambda>s. Inr (0, set_socket sk (s\<lparr>sk_shutdownSend := True\<rparr>) u))"

definition UdpSocket_ShutdownRecv :: "nat \<Rightarrow> udp \<Rightarrow> (int \<times> udp) res" where
  "UdpSocket_ShutdownRecv sk u =
     bind_res (get_socket sk u) (\<lambda>s.
       let u1 = set_socket sk (s\<lparr>sk_shutdownRecv := True\<rparr>) u
       in if sk_endPoint s \<noteq> 0 then
            bind_res (on_endPoint (sk_endPoint s) (EndPoint_SetRxEnabled False) u1) (\<lambda>u2. Inr (0, u2))
          else Inr (0, u1))"

text \<open>\<open>DeAllocate\<close> of the protocol: the destroy callback of the end point, if it has one, clears its socket.\<close>

definition Udp_DeAllocate :: "nat \<Rightarrow> udp \<Rightarrow> udp" where
  "Udp_DeAllocate ep u =
     (let (sk, d) = Demux_DeAllocate ep (udp_endPoints u); u1 = u\<lparr>udp_endPoints := d\<rparr>
      in case udp_store u1 sk of
           None \<Rightarrow> u1
         | Some s \<Rightarrow> if sk = 0 then u1 else set_socket sk (s\<lparr>sk_endPoint := 0\<rparr>) u1)"

definition UdpSocket_DeallocateEndPoint :: "nat \<Rightarrow> udp \<Rightarrow> udp res" where
  "UdpSocket_DeallocateEndPoint sk u =
     bind_res (get_socket sk u) (\<lambda>s.
       if sk_endPoint s \<noteq> 0 then
         bind_res (on_endPoint (sk_endPoint s) (EndPoint_SetDestroyCallback 0) u) (\<lambda>u1.
           Inr (set_socket sk (s\<lparr>sk_endPoint := 0\<rparr>) (Udp_DeAllocate (sk_endPoint s) u1)))
       else Inr u)"

definition UdpSocket_Close :: "nat \<Rightarrow> udp \<Rightarrow> (int \<times> udp) res" where
  "UdpSocket_Close sk u =
     bind_res (get_socket sk u) (\<lambda>s.
       if sk_shutdownRecv s \<and> sk_shutdownSend s then Inr (-1, set_socket sk (s\<lparr>sk_errno := ERROR_BADF\<rparr>) u)
       else
         bind_res (UdpSocket_DeallocateEndPoint sk (set_socket sk (s\<lparr>sk_shutdownRecv := True, sk_shutdownSend := True\<rparr>) u)) (\<lambda>u1.
           Inr (0, u1)))"

definition UdpSocket_Connect :: "nat \<Rightarrow> sock_address \<Rightarrow> udp \<Rightarrow> (int \<times> udp \<times> udp_effect list) res" where
  "UdpSocket_Connect sk address u =
     bind_res (get_socket sk u) (\<lambda>s.
       case address of
         InetSocketAddress ip port tos \<Rightarrow>
           Inr (0, set_socket sk ((Socket_SetIpTos tos (s\<lparr>sk_defaultAddress := Some ip, sk_defaultPort := port\<rparr>))\<lparr>sk_connected := True\<rparr>) u,
                [NotifyConnectionSucceeded sk])
       | OtherAddress \<Rightarrow> Inr (-1, u, [NotifyConnectionFailed sk]))"

definition UdpSocket_Listen :: "nat \<Rightarrow> udp \<Rightarrow> (int \<times> udp) res" where
  "UdpSocket_Listen sk u =
     bind_res (get_socket sk u) (\<lambda>s. Inr (-1, set_socket sk (s\<lparr>sk_errno := ERROR_OPNOTSUPP\<rparr>) u))"

section \<open>Sockets: sending\<close>

definition UdpSocket_GetTxAvailable :: u32 where
  "UdpSocket_GetTxAvailable = 65507"

definition socket_fail :: "nat \<Rightarrow> SocketErrno \<Rightarrow> packet \<Rightarrow> udp \<Rightarrow> (int \<times> packet \<times> udp \<times> udp_effect list) res" where
  "socket_fail sk e p u = bind_res (get_socket sk u) (\<lambda>s. Inr (-1, p, set_socket sk (s\<lparr>sk_errno := e\<rparr>) u, []))"

text \<open>Binding to an ephemeral port when there is no end point; the result says whether there is one then.\<close>

definition ensure_bound :: "nat \<Rightarrow> udp \<Rightarrow> (bool \<times> udp) res" where
  "ensure_bound sk u =
     bind_res (get_socket sk u) (\<lambda>s.
       if sk_endPoint s \<noteq> 0 then Inr (True, u)
       else
         bind_res (UdpSocket_Bind sk u) (\<lambda>(r, u1).
         bind_res (get_socket sk u1) (\<lambda>s1.
           if r = -1 then ns_assert (sk_endPoint s1 = 0) (Inr (False, u1))
           else ns_assert (sk_endPoint s1 \<noteq> 0) (Inr (True, u1)))))"

text \<open>The tags that \<open>DoSendTo\<close> puts on the packet, on the object that the caller passed.\<close>

definition tag_outgoing :: "udp_socket \<Rightarrow> ipv4 \<Rightarrow> u8 \<Rightarrow> packet \<Rightarrow> packet res" where
  "tag_outgoing s dest tos p =
     (let priority = (if tos \<noteq> 0 then IpTos2Priority tos else sk_priority s) in
      bind_res (if tos \<noteq> 0 then PacketTagList_Replace IP_TOS_TAG (SocketIpTosTag_Serialize tos) p else Inr p) (\<lambda>p1.
      bind_res (if priority \<noteq> 0 then PacketTagList_Replace PRIORITY_TAG (SocketPriorityTag_Serialize priority) p1 else Inr p1) (\<lambda>p2.
      bind_res (if sk_ipMulticastTtl s \<noteq> 0 \<and> Ipv4Address_IsMulticast dest
                then PacketTagList_Add IP_TTL_TAG (SocketIpTtlTag_Serialize (sk_ipMulticastTtl s)) p2
                else if sk_manualIpTtl s \<and> sk_ipTtl s \<noteq> 0 \<and> \<not> Ipv4Address_IsMulticast dest \<and> \<not> Ipv4Address_IsBroadcast dest
                then PacketTagList_Add IP_TTL_TAG (SocketIpTtlTag_Serialize (sk_ipTtl s)) p2
                else Inr p2) (\<lambda>p3.
      bind_res (PacketTagList_Remove DONT_FRAGMENT_TAG SocketSetDontFragmentTag_Deserialize p3) (\<lambda>(found, p4).
        if found = None
        then PacketTagList_Add DONT_FRAGMENT_TAG (SocketSetDontFragmentTag_Serialize (sk_mtuDiscover s)) p4
        else Inr p4)))))"

text \<open>A limited broadcast goes out on every interface but loopback, or on the bound one.\<close>

fun broadcast_loop ::
  "bool \<Rightarrow> nat \<Rightarrow> packet \<Rightarrow> ipv4 \<Rightarrow> u16 \<Rightarrow> u16 \<Rightarrow> nat \<Rightarrow> ipv4_interface list \<Rightarrow> udp_effect list res" where
  "broadcast_loop csum sk p dest localPort port device [] = Inr []"
| "broadcast_loop csum sk p dest localPort port device (i # is) =
     bind_res (Interface_GetAddress 0 i) (\<lambda>iaddr.
       if ia_local iaddr = 0x7f000001 then broadcast_loop csum sk p dest localPort port device is
       else if device \<noteq> 0 \<and> if_device i \<noteq> device then broadcast_loop csum sk p dest localPort port device is
       else
         bind_res (Udp_Send csum (Packet_Copy p) (ia_local iaddr) dest localPort port None) (\<lambda>e.
         bind_res (broadcast_loop csum sk p dest localPort port device is) (\<lambda>fx.
           Inr (e # NotifyDataSent sk (Packet_GetSize p) # NotifySend sk UdpSocket_GetTxAvailable # fx))))"

type_synonym route_output_fn = "packet \<Rightarrow> ipv4_header \<Rightarrow> nat \<Rightarrow> ((ipv4_route \<times> bool) option \<times> SocketErrno) res"

text \<open>\<open>DoSendTo\<close> from the point where the socket is bound and may send, and the packet has its tags.\<close>

definition send_bound ::
  "bool \<Rightarrow> 'p l3 \<Rightarrow> route_output_fn \<Rightarrow> nat \<Rightarrow> packet \<Rightarrow> ipv4 \<Rightarrow> u16 \<Rightarrow> udp \<Rightarrow> (int \<times> packet \<times> udp \<times> udp_effect list) res" where
  "send_bound csum ip RouteOutput sk p dest port u =
     bind_res (get_socket sk u) (\<lambda>s.
     bind_res (get_endPoint (sk_endPoint s) u) (\<lambda>e.
       let sz = Packet_GetSize p in
       if Ipv4Address_IsBroadcast dest then
         if \<not> sk_allowBroadcast s then socket_fail sk ERROR_OPNOTSUPP p u
         else
           bind_res (broadcast_loop csum sk p dest (ep_localPort e) port (sk_boundnetdevice s) (l3_interfaces ip)) (\<lambda>fx.
             Inr (uint sz, p, u, fx))
       else if ep_localAddr e \<noteq> Ipv4Address_GetAny then
         bind_res (Udp_Send csum (Packet_Copy p) (ep_localAddr e) dest (ep_localPort e) port None) (\<lambda>fx.
           Inr (uint sz, p, u, [fx, NotifyDataSent sk sz, NotifySend sk UdpSocket_GetTxAvailable]))
       else if l3_routing ip then
         let header = Ipv4Header_SetProtocol PROT_NUMBER (Ipv4Header_SetDestination dest Ipv4Header_new) in
         bind_res (RouteOutput p header (sk_boundnetdevice s)) (\<lambda>(route, err).
           case route of
             None \<Rightarrow> socket_fail sk err p u
           | Some r \<Rightarrow>
               bind_res (if sk_allowBroadcast s then Inr False
                         else bind_res (L3_interface (iface_u32 (L3_GetInterfaceForDevice (rt_device (fst r)) ip)) ip) (\<lambda>out.
                           Inr (list_ex (\<lambda>a. dest = ia_broadcast a) (if_addrs out)))) (\<lambda>directed.
                 if directed then socket_fail sk ERROR_OPNOTSUPP p u
                 else
                   bind_res (Udp_Send csum (Packet_Copy p) (rt_source (fst r)) dest (ep_localPort e) port (Some r)) (\<lambda>fx.
                     Inr (uint sz, p, u, [fx, NotifyDataSent sk sz]))))
       else socket_fail sk ERROR_NOROUTETOHOST p u))"

definition UdpSocket_DoSendTo ::
  "bool \<Rightarrow> 'p l3 \<Rightarrow> route_output_fn \<Rightarrow> nat \<Rightarrow> packet \<Rightarrow> ipv4 \<Rightarrow> u16 \<Rightarrow> u8 \<Rightarrow> udp \<Rightarrow>
   (int \<times> packet \<times> udp \<times> udp_effect list) res" where
  "UdpSocket_DoSendTo csum ip RouteOutput sk p dest port tos u =
     bind_res (ensure_bound sk u) (\<lambda>(bound, u1).
       if \<not> bound then Inr (-1, p, u1, [])
       else
         bind_res (get_socket sk u1) (\<lambda>s.
           if sk_shutdownSend s then socket_fail sk ERROR_SHUTDOWN p u1
           else if Packet_GetSize p > UdpSocket_GetTxAvailable then socket_fail sk ERROR_MSGSIZE p u1
           else bind_res (tag_outgoing s dest tos p) (\<lambda>p1. send_bound csum ip RouteOutput sk p1 dest port u1)))"

definition UdpSocket_SendTo ::
  "bool \<Rightarrow> 'p l3 \<Rightarrow> route_output_fn \<Rightarrow> nat \<Rightarrow> packet \<Rightarrow> sock_address \<Rightarrow> udp \<Rightarrow> (int \<times> packet \<times> udp \<times> udp_effect list) res" where
  "UdpSocket_SendTo csum ip RouteOutput sk p address u =
     (case address of
        InetSocketAddress ipv4 port tos \<Rightarrow> UdpSocket_DoSendTo csum ip RouteOutput sk p ipv4 port tos u
      | OtherAddress \<Rightarrow> Inr (-1, p, u, []))"

definition UdpSocket_DoSend ::
  "bool \<Rightarrow> 'p l3 \<Rightarrow> route_output_fn \<Rightarrow> nat \<Rightarrow> packet \<Rightarrow> udp \<Rightarrow> (int \<times> packet \<times> udp \<times> udp_effect list) res" where
  "UdpSocket_DoSend csum ip RouteOutput sk p u =
     bind_res (get_socket sk u) (\<lambda>s0.
     bind_res (if sk_defaultAddress s0 \<noteq> None then ensure_bound sk u else Inr (True, u)) (\<lambda>(bound, u1).
       if \<not> bound then Inr (-1, p, u1, [])
       else
         bind_res (get_socket sk u1) (\<lambda>s.
           if sk_shutdownSend s then socket_fail sk ERROR_SHUTDOWN p u1
           else
             case sk_defaultAddress s of
               Some dest \<Rightarrow> UdpSocket_DoSendTo csum ip RouteOutput sk p dest (sk_defaultPort s) (sk_ipTos s) u1
             | None \<Rightarrow> socket_fail sk ERROR_AFNOSUPPORT p u1)))"

definition UdpSocket_Send ::
  "bool \<Rightarrow> 'p l3 \<Rightarrow> route_output_fn \<Rightarrow> nat \<Rightarrow> packet \<Rightarrow> udp \<Rightarrow> (int \<times> packet \<times> udp \<times> udp_effect list) res" where
  "UdpSocket_Send csum ip RouteOutput sk p u =
     bind_res (get_socket sk u) (\<lambda>s.
       if \<not> sk_connected s then socket_fail sk ERROR_NOTCONN p u
       else UdpSocket_DoSend csum ip RouteOutput sk p u)"

section \<open>Sockets: receiving\<close>

text \<open>\<open>RecvFrom\<close>; a packet larger than \<open>maxSize\<close> stays in the queue, and the address is passed out all the same.\<close>

definition UdpSocket_RecvFrom :: "nat \<Rightarrow> u32 \<Rightarrow> udp \<Rightarrow> (packet option \<times> (ipv4 \<times> u16) option \<times> udp) res" where
  "UdpSocket_RecvFrom sk maxSize u =
     bind_res (get_socket sk u) (\<lambda>s.
       case sk_deliveryQueue s of
         [] \<Rightarrow> Inr (None, None, set_socket sk (s\<lparr>sk_errno := ERROR_AGAIN\<rparr>) u)
       | (p, from) # rest \<Rightarrow>
           if Packet_GetSize p \<le> maxSize then
             Inr (Some p, Some from,
                  set_socket sk (s\<lparr>sk_deliveryQueue := rest, sk_rxAvailable := sk_rxAvailable s - Packet_GetSize p\<rparr>) u)
           else Inr (None, Some from, u))"

definition UdpSocket_Recv :: "nat \<Rightarrow> u32 \<Rightarrow> udp \<Rightarrow> (packet option \<times> udp) res" where
  "UdpSocket_Recv sk maxSize u = bind_res (UdpSocket_RecvFrom sk maxSize u) (\<lambda>(p, from, u1). Inr (p, u1))"

text \<open>The tags of a packet that is received, as the options of the socket ask for.\<close>

definition tag_incoming :: "(nat \<Rightarrow> u32) \<Rightarrow> udp_socket \<Rightarrow> ipv4_header \<Rightarrow> ipv4_interface \<Rightarrow> packet \<Rightarrow> packet res" where
  "tag_incoming GetIfIndex s header ifc p =
     bind_res
       (if sk_recvPktInfo s then
          bind_res (PacketTagList_Remove PACKET_INFO_TAG Ipv4PacketInfoTag_Deserialize p) (\<lambda>(tag, p1).
            PacketTagList_Add PACKET_INFO_TAG
              (Ipv4PacketInfoTag_Serialize (h_destination header) (GetIfIndex (if_device ifc)) (h_ttl header)) p1)
        else Inr p) (\<lambda>p1.
     bind_res (if sk_ipRecvTos s then PacketTagList_Add IP_TOS_TAG (SocketIpTosTag_Serialize (h_tos header)) p1 else Inr p1) (\<lambda>p2.
     bind_res (if sk_ipRecvTtl s then PacketTagList_Add IP_TTL_TAG (SocketIpTtlTag_Serialize (h_ttl header)) p2 else Inr p2) (\<lambda>p3.
     bind_res (PacketTagList_Remove PRIORITY_TAG SocketPriorityTag_Deserialize p3) (\<lambda>(tag, p4). Inr p4))))"

definition UdpSocket_ForwardUp ::
  "(nat \<Rightarrow> u32) \<Rightarrow> nat \<Rightarrow> packet \<Rightarrow> ipv4_header \<Rightarrow> u16 \<Rightarrow> ipv4_interface \<Rightarrow> udp \<Rightarrow> (udp \<times> udp_effect list) res" where
  "UdpSocket_ForwardUp GetIfIndex sk packet header port ifc u =
     bind_res (get_socket sk u) (\<lambda>s.
       if sk_shutdownRecv s then Inr (u, [])
       else
         bind_res (tag_incoming GetIfIndex s header ifc packet) (\<lambda>p.
           if sk_rxAvailable s + Packet_GetSize p \<le> sk_rcvBufSize s then
             Inr (set_socket sk (s\<lparr>sk_deliveryQueue := sk_deliveryQueue s @ [(p, h_source header, port)],
                                   sk_rxAvailable := sk_rxAvailable s + Packet_GetSize p\<rparr>) u,
                  [NotifyDataRecv sk])
           else Inr (u, [UdpDropped sk p])))"

definition EndPoint_ForwardUp ::
  "(nat \<Rightarrow> u32) \<Rightarrow> end_point \<Rightarrow> packet \<Rightarrow> ipv4_header \<Rightarrow> u16 \<Rightarrow> ipv4_interface \<Rightarrow> udp \<Rightarrow> (udp \<times> udp_effect list) res" where
  "EndPoint_ForwardUp GetIfIndex e p header sport ifc u =
     (if ep_rxCallback e \<noteq> 0 then UdpSocket_ForwardUp GetIfIndex (ep_rxCallback e) p header sport ifc u else Inr (u, []))"

fun forward_all ::
  "(nat \<Rightarrow> u32) \<Rightarrow> (nat \<times> end_point) list \<Rightarrow> packet \<Rightarrow> ipv4_header \<Rightarrow> u16 \<Rightarrow> ipv4_interface \<Rightarrow> udp \<Rightarrow> (udp \<times> udp_effect list) res" where
  "forward_all GetIfIndex [] p header sport ifc u = Inr (u, [])"
| "forward_all GetIfIndex ((a, e) # es) p header sport ifc u =
     bind_res (EndPoint_ForwardUp GetIfIndex e (Packet_Copy p) header sport ifc u) (\<lambda>(u1, fx).
     bind_res (forward_all GetIfIndex es p header sport ifc u1) (\<lambda>(u2, fx'). Inr (u2, fx @ fx')))"

text \<open>
  \<open>Receive\<close> of the protocol. \<open>Receive6\<close> is what the IPv6 half answers for the mapped addresses when no
  end point matches, if the node has an IPv6 layer.
\<close>

definition Udp_Receive ::
  "bool \<Rightarrow> (nat \<Rightarrow> u32) \<Rightarrow> (packet \<Rightarrow> ipv4_header \<Rightarrow> rx_status) option \<Rightarrow> packet \<Rightarrow> ipv4_header \<Rightarrow> ipv4_interface \<Rightarrow> udp \<Rightarrow>
   (rx_status \<times> udp \<times> udp_effect list) res" where
  "Udp_Receive csum GetIfIndex Receive6 packet header ifc u =
     (let h0 = UdpHeader_InitializeChecksum (h_source header) (h_destination header) PROT_NUMBER
            (if csum then UdpHeader_EnableChecksums UdpHeader_new else UdpHeader_new)
      in bind_res (Packet_PeekHeader (UdpHeader_Deserialize h0) packet) (\<lambda>udpHeader.
         if \<not> UdpHeader_IsChecksumOk udpHeader then Inr (RX_CSUM_FAILED, u, [])
         else
           bind_res (Demux_Lookup (h_destination header) (u_destinationPort udpHeader) (h_source header) (u_sourcePort udpHeader)
               ifc (udp_endPoints u)) (\<lambda>endPoints.
             if endPoints = [] then
               (case Receive6 of
                  Some receive \<Rightarrow> Inr (receive packet header, u, [])
                | None \<Rightarrow> Inr (RX_ENDPOINT_UNREACH, u, []))
             else
               bind_res (Packet_RemoveHeader (UdpHeader_Deserialize udpHeader) packet) (\<lambda>(udpHeader2, p1).
               bind_res (forward_all GetIfIndex endPoints p1 header (u_sourcePort udpHeader2) ifc u) (\<lambda>(u1, fx).
                 Inr (RX_OK, u1, fx))))))"

text \<open>\<open>ReceiveIcmp\<close> for IPv4: the ports are the first two fields of the payload, and the end point's socket is told.\<close>

definition Udp_ReceiveIcmp ::
  "ipv4 \<Rightarrow> u8 \<Rightarrow> u8 \<Rightarrow> u8 \<Rightarrow> u32 \<Rightarrow> ipv4 \<Rightarrow> ipv4 \<Rightarrow> bytes \<Rightarrow> udp \<Rightarrow> udp_effect list res" where
  "Udp_ReceiveIcmp icmpSource icmpTtl icmpType icmpCode icmpInfo payloadSource payloadDestination payload u =
     defined_if (4 \<le> length payload)
      (let src = push_bit 8 (ucast (payload ! 0)) OR ucast (payload ! 1) :: u16;
           dst = push_bit 8 (ucast (payload ! 2)) OR ucast (payload ! 3) :: u16
       in case Demux_SimpleLookup payloadSource src payloadDestination dst (udp_endPoints u) of
            Some (a, e) \<Rightarrow>
              Inr (if ep_icmpCallback e \<noteq> 0 then [UdpIcmp (ep_icmpCallback e) icmpSource icmpTtl icmpType icmpCode icmpInfo] else [])
          | None \<Rightarrow> Inr [])"

definition UdpSocket_GetSockName :: "nat \<Rightarrow> udp \<Rightarrow> (ipv4 \<times> u16) res" where
  "UdpSocket_GetSockName sk u =
     bind_res (get_socket sk u) (\<lambda>s.
       if sk_endPoint s \<noteq> 0 then bind_res (get_endPoint (sk_endPoint s) u) (\<lambda>e. Inr (ep_localAddr e, ep_localPort e))
       else Inr (0, 0))"

definition UdpSocket_GetPeerName :: "nat \<Rightarrow> udp \<Rightarrow> (int \<times> sock_address option \<times> udp) res" where
  "UdpSocket_GetPeerName sk u =
     bind_res (get_socket sk u) (\<lambda>s.
       if \<not> sk_connected s then Inr (-1, None, set_socket sk (s\<lparr>sk_errno := ERROR_NOTCONN\<rparr>) u)
       else case sk_defaultAddress s of
              Some addr \<Rightarrow> Inr (0, Some (InetSocketAddress addr (sk_defaultPort s) (sk_ipTos s)), u)
            | None \<Rightarrow> Inl Assert)"

end
