(* ===== verification/Ipv4_Hops.thy ===== *)
theory Ipv4_Hops
  imports Ipv4_L3
begin

text \<open>
  What leaves a node and what the next one reads. A frame that the IP layer hands down is a header
  followed by a payload; the header survives the wire; forwarding lowers the time to live. So no
  datagram is forwarded more often than its first time to live allows.
\<close>

section \<open>Frames\<close>

text \<open>The frames among the effects: handed to a device, or looped back by the traffic control layer.\<close>

fun net_frames :: "net_effect \<Rightarrow> packet list" where
  "net_frames (DeviceSend device q addr protocol) = [q]"
| "net_frames (TcReceive device q) = [q]"
| "net_frames _ = []"

fun effect_frames :: "'p l3_effect \<Rightarrow> packet list" where
  "effect_frames (L3Net e) = net_frames e"
| "effect_frames _ = []"

definition sent_frames :: "'p l3_effect list \<Rightarrow> packet list" where
  "sent_frames fx = concat (map effect_frames fx)"

lemma sent_frames_simps [simp]:
  "sent_frames [] = []" "sent_frames (e # fx) = effect_frames e @ sent_frames fx"
  "sent_frames (fx @ fx') = sent_frames fx @ sent_frames fx'"
  "sent_frames (map L3Net es) = concat (map net_frames es)"
  by (simp_all add: sent_frames_def comp_def)

lemma TagRemove_bytes: "PacketTagList_Remove tid des p = Inr (t, p') \<Longrightarrow> pk_bytes p' = pk_bytes p"
  by (auto simp: PacketTagList_Remove_def res_simps split: option.splits)

lemma TagAdd_bytes: "PacketTagList_Add tid d p = Inr p' \<Longrightarrow> pk_bytes p' = pk_bytes p"
  by (auto simp: PacketTagList_Add_def res_simps)

text \<open>\<open>carries h bs q\<close>: the frame \<open>q\<close> is the header \<open>h\<close> on the wire and then \<open>bs\<close>.\<close>

definition carries :: "ipv4_header \<Rightarrow> bytes \<Rightarrow> packet \<Rightarrow> bool" where
  "carries h bs q \<longleftrightarrow> (\<exists>hb. Ipv4Header_Serialize h = Inr hb \<and> pk_bytes q = hb @ bs)"

lemma TrafficControl_Send_frames:
  assumes "TrafficControl_Send SelectQueue tc device p hdr addr = Inr es" and "q \<in> set (concat (map net_frames es))"
  shows "carries hdr (pk_bytes p) q"
  using assms
  by (auto simp: TrafficControl_Send_def Let_def res_simps carries_def Packet_AddHeader_def
      split: if_splits option.splits dest: TagRemove_bytes)

lemma Interface_Send_frames:
  assumes "Interface_Send ArpLookup SelectQueue tc dev p hdr dest i = Inr es" and "q \<in> set (concat (map net_frames es))"
  shows "carries hdr (pk_bytes p) q"
proof -
  have "es = [] \<or> (\<exists>bs d a n. Ipv4Header_Serialize hdr = Inr bs \<and>
        (es = [DeviceSend d (Packet_AddHeader bs p) a n] \<or> es = [TcReceive d (Packet_AddHeader bs p)])) \<or>
      (\<exists>d a. TrafficControl_Send SelectQueue tc d p hdr a = Inr es)"
    using assms(1) by (auto simp: Interface_Send_def Let_def res_simps split: if_splits option.splits)
  then consider "es = []" | bs d a n where "Ipv4Header_Serialize hdr = Inr bs"
      "es = [DeviceSend d (Packet_AddHeader bs p) a n] \<or> es = [TcReceive d (Packet_AddHeader bs p)]"
    | d a where "TrafficControl_Send SelectQueue tc d p hdr a = Inr es" by blast
  then show ?thesis
  proof cases
    case 3
    then show ?thesis using assms(2) by (rule TrafficControl_Send_frames)
  qed (use assms(2) in \<open>auto simp: carries_def Packet_AddHeader_def\<close>)
qed

lemma send_list_frames:
  assumes "L3_send_list env interface target out xs = Inr fx" and "q \<in> set (sent_frames fx)"
  shows "\<exists>(p, h) \<in> set xs. carries h (pk_bytes p) q"
  using assms
proof (induction xs arbitrary: fx)
  case (Cons x xs)
  obtain p h where x: "x = (p, h)" by (cases x)
  from Cons.prems(1) obtain bs es fx' where e: "Interface_Send (e_ArpLookup env) (e_SelectQueue env) (e_tc env) (e_dev env) p h target out = Inr es"
      "L3_send_list env interface target out xs = Inr fx'" "fx = L3Tx (Packet_AddHeader bs p) interface # map L3Net es @ fx'"
    by (auto simp: x res_simps)
  from Cons.prems(2) consider "q \<in> set (concat (map net_frames es))" | "q \<in> set (sent_frames fx')" by (auto simp: e(3))
  then show ?case
  proof cases
    case 1
    with Interface_Send_frames [OF e(1)] show ?thesis by (auto simp: x)
  next
    case 2
    with Cons.IH [OF e(2)] show ?thesis by auto
  qed
qed simp

section \<open>Headers on the wire\<close>

text \<open>Headers that the wire format can express: what \<open>SetFragmentOffset\<close> accepts, and no third flag.\<close>

definition wire_header :: "ipv4_header \<Rightarrow> bool" where
  "wire_header h \<longleftrightarrow> h_fragmentOffset h AND 7 = 0 \<and> \<not> bit (h_flags h) 2"

text \<open>The fields that a header has on the wire, apart from the checksum.\<close>

definition same_fields :: "ipv4_header \<Rightarrow> ipv4_header \<Rightarrow> bool" where
  "same_fields h g \<longleftrightarrow> h_tos g = h_tos h \<and> h_payloadSize g = h_payloadSize h \<and> h_identification g = h_identification h \<and>
     h_flags g = h_flags h \<and> h_fragmentOffset g = h_fragmentOffset h \<and> h_ttl g = h_ttl h \<and> h_protocol g = h_protocol h \<and>
     h_source g = h_source h \<and> h_destination g = h_destination h"

lemma same_fields_simps:
  assumes "same_fields h g"
  shows "fragment_key_of g = fragment_key_of h" "Ipv4Header_IsLastFragment g \<longleftrightarrow> Ipv4Header_IsLastFragment h"
    "wire_header g \<longleftrightarrow> wire_header h" "h_fragmentOffset g = h_fragmentOffset h" "h_payloadSize g = h_payloadSize h"
    "h_destination g = h_destination h" "h_ttl g = h_ttl h" "h_protocol g = h_protocol h" "h_source g = h_source h"
  using assms by (simp_all add: same_fields_def fragment_key_of_def Ipv4Header_IsLastFragment_def wire_header_def)

text \<open>
  Reading a frame: the header comes back field by field, the payload is left, and the checksum is
  found correct when the sender has written one.
\<close>

lemma RemoveHeader_carries:
  assumes "carries h bs q" and "wire_header h"
  shows "\<exists>g. Packet_RemoveHeader (Ipv4Header_Deserialize h0) q = Inr (g, q\<lparr>pk_bytes := bs\<rparr>) \<and> same_fields h g \<and>
    (h_calcChecksum h0 \<and> h_calcChecksum h \<or> \<not> h_calcChecksum h0 \<and> Ipv4Header_IsChecksumOk h0 \<longrightarrow> Ipv4Header_IsChecksumOk g)"
proof -
  have w: "h_fragmentOffset h AND 7 = 0" "\<not> bit (h_flags h) 2" using assms(2) by (simp_all add: wire_header_def)
  obtain c where c: "Ipv4Header_Serialize h = Inr (wire_bytes h c)"
    "h_calcChecksum h \<longrightarrow> 0 < words_sum (wire_bytes h c) \<and> words_sum (wire_bytes h c) mod 65535 = 0"
    by (rule Serialize_wireE [of h])
  have q: "pk_bytes q = wire_bytes h c @ bs" using assms(1) c(1) by (auto simp: carries_def)
  obtain k where k: "CalculateIpChecksum 20 0 (wire_bytes h c @ bs) = Inr k"
    "k = 0 \<longleftrightarrow> 0 < words_sum (wire_bytes h c) \<and> words_sum (wire_bytes h c) mod 65535 = 0"
    by (rule checksum20_zero_iff [OF length_wire_bytes, of h c bs])
  let ?g = "if h_calcChecksum h0 then (read_fields h0 h c)\<lparr>h_goodChecksum := (k = 0)\<rparr> else read_fields h0 h c"
  have d: "Ipv4Header_Deserialize h0 (pk_bytes q) = Inr (?g, 20)"
    using Deserialize_wire [OF w q, of h0] k(1) by (simp add: q)
  show ?thesis
  proof (intro exI conjI impI)
    show "Packet_RemoveHeader (Ipv4Header_Deserialize h0) q = Inr (?g, q\<lparr>pk_bytes := bs\<rparr>)"
      by (simp only: Packet_RemoveHeader_def d bind_res.simps prod.case) (simp add: q)
    show "same_fields h ?g" by (simp add: same_fields_def read_fields_def)
    show "Ipv4Header_IsChecksumOk ?g"
      if "h_calcChecksum h0 \<and> h_calcChecksum h \<or> \<not> h_calcChecksum h0 \<and> Ipv4Header_IsChecksumOk h0"
      using that c(2) k(2) by (auto simp: Ipv4Header_IsChecksumOk_def read_fields_def)
  qed
qed

text \<open>Fragments keep what identifies and routes the datagram.\<close>

definition same_datagram :: "ipv4_header \<Rightarrow> ipv4_header \<Rightarrow> bool" where
  "same_datagram h g \<longleftrightarrow> h_ttl g = h_ttl h \<and> h_source g = h_source h \<and> h_destination g = h_destination h \<and>
     h_protocol g = h_protocol h \<and> h_identification g = h_identification h \<and> h_tos g = h_tos h"

lemma flags_bit2: "bit (f OR MORE_FRAGMENTS) 2 \<longleftrightarrow> bit f 2" "bit (f AND NOT MORE_FRAGMENTS) 2 \<longleftrightarrow> bit f 2"
  by (simp_all add: MORE_FRAGMENTS_def bit_simps)

lemma fragmentation_headers:
  assumes "DoFragmentation_loop csum h p n fuel off = Inr frags" and "wire_header h" and "(q, g) \<in> set frags"
  shows "wire_header g \<and> same_datagram h g"
  using assms
proof (induction fuel arbitrary: off frags)
  case (Suc fuel)
  have "\<exists>fragment h1 h2 sz rest off'. (h1 = Ipv4Header_SetMoreFragments h \<or> h1 = Ipv4Header_SetLastFragment h) \<and>
      Ipv4Header_SetFragmentOffset (off + h_fragmentOffset h) h1 = Inr h2 \<and>
      frags = (fragment, if csum then Ipv4Header_EnableChecksum (Ipv4Header_SetPayloadSize sz h2) else Ipv4Header_SetPayloadSize sz h2) # rest \<and>
      (rest = [] \<or> DoFragmentation_loop csum h p n fuel off' = Inr rest)"
    using Suc.prems(1) unfolding DoFragmentation_loop.simps Let_def bind_res_Inr_iff
    by (elim exE conjE) (simp only: res_simps split: if_splits, (blast | fastforce)+)
  then obtain fragment h1 h2 sz rest off' where h1: "h1 = Ipv4Header_SetMoreFragments h \<or> h1 = Ipv4Header_SetLastFragment h"
    and h2: "Ipv4Header_SetFragmentOffset (off + h_fragmentOffset h) h1 = Inr h2"
    and frags: "frags = (fragment, if csum then Ipv4Header_EnableChecksum (Ipv4Header_SetPayloadSize sz h2) else Ipv4Header_SetPayloadSize sz h2) # rest"
    and rest: "rest = [] \<or> DoFragmentation_loop csum h p n fuel off' = Inr rest" by blast
  show ?case
  proof (cases "(q, g) \<in> set rest")
    case True
    with rest Suc.IH Suc.prems(2) show ?thesis by auto
  next
    case False
    then have g: "g = (if csum then Ipv4Header_EnableChecksum (Ipv4Header_SetPayloadSize sz h2) else Ipv4Header_SetPayloadSize sz h2)"
      using Suc.prems(3) frags by auto
    have "\<not> bit (h_flags h1) 2 \<and> same_datagram h h1"
      using h1 Suc.prems(2)
      by (elim disjE) (simp_all add: wire_header_def same_datagram_def Ipv4Header_SetMoreFragments_def Ipv4Header_SetLastFragment_def flags_bit2)
    moreover have "h2 = h1\<lparr>h_fragmentOffset := off + h_fragmentOffset h\<rparr>" "(off + h_fragmentOffset h) AND 7 = 0"
      using h2 by (simp_all add: Ipv4Header_SetFragmentOffset_def split: if_splits)
    ultimately have "wire_header h2 \<and> same_datagram h h2" by (simp add: wire_header_def same_datagram_def)
    then show ?thesis
      by (simp add: g wire_header_def same_datagram_def Ipv4Header_EnableChecksum_def Ipv4Header_SetPayloadSize_def)
  qed
qed simp

section \<open>Hops\<close>

lemma SendRealOut_frames:
  assumes "L3_SendRealOut env (Some r) p h s = Inr fx" and "q \<in> set (sent_frames fx)" and "wire_header h"
  shows "\<exists>g bs. carries g bs q \<and> wire_header g \<and> same_datagram h g"
proof -
  have "fx = [] \<or> (\<exists>interface target out xs. L3_send_list env interface target out xs = Inr fx \<and>
      (xs = [(p, h)] \<or> (\<exists>mtu. DoFragmentation (e_ChecksumEnabled env) (Suc (length (pk_bytes p))) p h mtu = Inr xs)))"
    using assms(1) unfolding L3_SendRealOut_def Let_def
    by (auto simp: res_simps simp del: L3_send_list.simps split: option.splits if_splits)
  moreover have "fx \<noteq> []" using assms(2) by auto
  ultimately obtain interface target out xs where x: "L3_send_list env interface target out xs = Inr fx"
      "xs = [(p, h)] \<or> (\<exists>mtu. DoFragmentation (e_ChecksumEnabled env) (Suc (length (pk_bytes p))) p h mtu = Inr xs)"
    by blast
  from send_list_frames [OF x(1) assms(2)] obtain p' g where m: "(p', g) \<in> set xs" "carries g (pk_bytes p') q" by auto
  from x(2) have "wire_header g \<and> same_datagram h g"
  proof
    assume "\<exists>mtu. DoFragmentation (e_ChecksumEnabled env) (Suc (length (pk_bytes p))) p h mtu = Inr xs"
    then obtain n fuel where "DoFragmentation_loop (e_ChecksumEnabled env) h p n fuel 0 = Inr xs"
      unfolding DoFragmentation_def Let_def ns_assert_Inr_iff Packet_Copy_def by blast
    then show ?thesis using assms(3) m(1) by (rule fragmentation_headers)
  qed (use m(1) assms(3) in \<open>simp add: same_datagram_def\<close>)
  with m(2) show ?thesis by blast
qed

text \<open>
  \<open>IpForward\<close> at a time to live of 1 sends nothing; otherwise every frame carries the datagram with the
  time to live lowered by one. At 0 the subtraction wraps around.
\<close>

lemma IpForward_frames:
  assumes "L3_IpForward env rt p h s = Inr fx" and "q \<in> set (sent_frames fx)" and "wire_header h"
  shows "h_ttl h \<noteq> 1 \<and> (\<exists>g bs. carries g bs q \<and> wire_header g \<and> same_datagram (h\<lparr>h_ttl := h_ttl h - 1\<rparr>) g)"
proof (cases "h_ttl h - 1 = 0")
  case True
  then have "sent_frames fx = []"
    using assms(1) by (auto simp: L3_IpForward_def Let_def Ipv4Header_SetTtl_def res_simps split: if_splits)
  with assms(2) show ?thesis by simp
next
  case False
  then obtain p2 fx' e where f: "L3_SendRealOut env (Some rt) p2 (h\<lparr>h_ttl := h_ttl h - 1\<rparr>) s = Inr fx'"
      "fx = L3UnicastForward (h\<lparr>h_ttl := h_ttl h - 1\<rparr>) p2 e # fx'"
    using assms(1) by (auto simp: L3_IpForward_def Let_def Ipv4Header_SetTtl_def res_simps)
  have "wire_header (h\<lparr>h_ttl := h_ttl h - 1\<rparr>)" using assms(3) by (simp add: wire_header_def)
  with SendRealOut_frames [OF f(1)] assms(2) f(2) False show ?thesis by auto
qed

text \<open>
  A journey: each node on the list, in its state and with some payload, forwards the header it has read
  over a route; one of the frames it sends is read by the next.
\<close>

fun journey :: "('p l3_env \<times> 'p l3 \<times> ipv4_route \<times> packet) list \<Rightarrow> ipv4_header \<Rightarrow> ipv4_header \<Rightarrow> bool" where
  "journey [] h h' \<longleftrightarrow> h' = h"
| "journey ((env, s, rt, p) # nodes) h h' \<longleftrightarrow>
     (\<exists>fx q h0 g p'. L3_IpForward env rt p h s = Inr fx \<and> q \<in> set (sent_frames fx) \<and>
        Packet_RemoveHeader (Ipv4Header_Deserialize h0) q = Inr (g, p') \<and> journey nodes g h')"

lemma journey_ttl:
  assumes "journey nodes h h'" and "wire_header h" and "h_ttl h \<noteq> 0"
  shows "length nodes + unat (h_ttl h') = unat (h_ttl h) \<and> h_ttl h' \<noteq> 0 \<and> h_source h' = h_source h \<and> h_destination h' = h_destination h"
  using assms
proof (induction nodes arbitrary: h)
  case (Cons n nodes)
  obtain env s rt p where n: "n = (env, s, rt, p)" by (cases n)
  from Cons.prems(1) obtain fx q h0 g p' where j: "L3_IpForward env rt p h s = Inr fx" "q \<in> set (sent_frames fx)"
      "Packet_RemoveHeader (Ipv4Header_Deserialize h0) q = Inr (g, p')" "journey nodes g h'"
    by (auto simp: n)
  from IpForward_frames [OF j(1,2) Cons.prems(2)] obtain g' bs where g': "h_ttl h \<noteq> 1" "carries g' bs q" "wire_header g'"
      "same_datagram (h\<lparr>h_ttl := h_ttl h - 1\<rparr>) g'" by blast
  from RemoveHeader_carries [OF g'(2,3), of h0] j(3) have sf: "same_fields g' g" by auto
  then have g: "h_ttl g = h_ttl h - 1" "h_source g = h_source h" "h_destination g = h_destination h" "wire_header g"
    using g'(3,4) by (auto simp: same_fields_simps [OF sf] same_datagram_def)
  have nz: "unat (h_ttl h) \<noteq> 0" using Cons.prems(3) by (simp add: unat_eq_zero)
  then have "unat (h_ttl g) = unat (h_ttl h) - 1" unfolding g(1) by (subst unat_sub) (simp_all add: word_le_nat_alt)
  moreover have "h_ttl g \<noteq> 0" using g(1) g'(1) by auto
  ultimately have "unat (h_ttl g) = unat (h_ttl h) - 1" "h_ttl g \<noteq> 0" by this+
  with Cons.IH [OF j(4) g(4)] g nz show ?case by simp
qed simp

section \<open>Sending over a direct link\<close>

text \<open>The frame of a payload with its header.\<close>

definition frame_of :: "packet \<times> ipv4_header \<Rightarrow> packet" where
  "frame_of x = (fst x)\<lparr>pk_bytes := projr (Ipv4Header_Serialize (snd x)) @ pk_bytes (fst x)\<rparr>"

lemma carries_frame: "carries h (pk_bytes p) (frame_of (p, h))"
  using Serialize_total [of h] by (auto simp: carries_def frame_of_def)

lemma frame_of_inverse: "(frame_of (p, h))\<lparr>pk_bytes := pk_bytes p\<rparr> = p"
  by (simp add: frame_of_def)

lemma length_frame: "length (pk_bytes (frame_of (p, h))) = 20 + length (pk_bytes p)"
  using Serialize_total [of h] by (auto simp: frame_of_def)

text \<open>A node can reach a target through interface \<open>i\<close> over a direct link.\<close>

definition link_out :: "'p l3_env \<Rightarrow> 'p l3 \<Rightarrow> u32 \<Rightarrow> ipv4_route \<Rightarrow> ipv4 \<Rightarrow> bool" where
  "link_out env s i r dest \<longleftrightarrow> l3_reverse s (rt_device r) = Some i \<and> unat i < length (l3_interfaces s) \<and>
     direct_link (e_tc env) (e_dev env) (l3_interfaces s ! unat i) \<and>
     (\<forall>a \<in> set (if_addrs (l3_interfaces s ! unat i)). ia_local a \<noteq> (if rt_gateway r = 0 then dest else rt_gateway r))"

definition link_mtu :: "'p l3_env \<Rightarrow> 'p l3 \<Rightarrow> u32 \<Rightarrow> nat" where
  "link_mtu env s i = unat (dv_mtu (e_dev env (if_device (l3_interfaces s ! unat i))))"

lemma send_list_direct:
  assumes "direct_link (e_tc env) (e_dev env) out" and "\<forall>a \<in> set (if_addrs out). ia_local a \<noteq> target"
    and "\<forall>(p, h) \<in> set xs. \<forall>(t, d) \<in> set (pk_tags p). t \<noteq> PRIORITY_TAG"
  shows "\<exists>fx. L3_send_list env interface target out xs = Inr fx \<and> sent_frames fx = map frame_of xs"
  using assms(3)
proof (induction xs)
  case (Cons x xs)
  obtain p h where x: "x = (p, h)" by (cases x)
  obtain hb where hb: "Ipv4Header_Serialize h = Inr hb" using Serialize_total by blast
  have "\<forall>(t, d) \<in> set (pk_tags p). t \<noteq> PRIORITY_TAG" using Cons.prems by (simp add: x)
  note send = Interface_Send_direct [OF assms(1,2) this hb]
  obtain fx where "L3_send_list env interface target out xs = Inr fx" "sent_frames fx = map frame_of xs"
    using Cons by auto
  then show ?case by (simp add: x hb send frame_of_def)
qed simp

lemma fragment_of_tags: "pk_tags (fst (fragment_of csum h p c)) = pk_tags p"
  by (cases c) simp

text \<open>What \<open>SendRealOut\<close> sends over a direct link: the datagram if it fits, its fragments otherwise.\<close>

lemma SendRealOut_direct:
  assumes "link_out env s i r (h_destination h)" and "\<forall>(t, d) \<in> set (pk_tags p). t \<noteq> PRIORITY_TAG"
    and "h_headerSize h = 20" and "h_fragmentOffset h AND 7 = 0" and "length (pk_bytes p) \<le> 65535" and "28 \<le> link_mtu env s i"
  shows "\<exists>fx. L3_SendRealOut env (Some r) p h s = Inr fx \<and>
    sent_frames fx = map frame_of
      (if 20 + length (pk_bytes p) \<le> link_mtu env s i then [(p, h)]
       else map (fragment_of (e_ChecksumEnabled env) h p) (mtu_chunks (of_nat (link_mtu env s i)) (pk_bytes p)))"
proof -
  let ?out = "l3_interfaces s ! unat i" and ?target = "if rt_gateway r = 0 then h_destination h else rt_gateway r"
  let ?mtu = "dv_mtu (e_dev env (if_device ?out))"
  have l: "l3_reverse s (rt_device r) = Some i" "unat i < length (l3_interfaces s)" "direct_link (e_tc env) (e_dev env) ?out"
    "\<forall>a \<in> set (if_addrs ?out). ia_local a \<noteq> ?target"
    using assms(1) by (simp_all add: link_out_def)
  have up: "if_up ?out" "if_device ?out \<noteq> 0" using l(3) by (simp_all add: direct_link_def)
  have "unat ?mtu < 2 ^ 16" using unsigned_less [of ?mtu, where 'a = nat] by simp
  then have m: "unat (ucast ?mtu :: u32) = link_mtu env s i" "link_mtu env s i \<le> 65535"
    by (simp_all add: link_mtu_def)
  have ucast: "(ucast ?mtu :: u32) = of_nat (link_mtu env s i)" by (simp add: link_mtu_def)
  have "unat (Packet_GetSize p + 20) = 20 + length (pk_bytes p)"
    using assms(5) by (subst unat_add_nowrap) (simp_all add: unat_size)
  then have fits: "Packet_GetSize p + of_nat (Ipv4Header_GetSerializedSize h) > ucast ?mtu \<longleftrightarrow> \<not> 20 + length (pk_bytes p) \<le> link_mtu env s i"
    using assms(3) m by (simp add: word_less_nat_alt Ipv4Header_GetSerializedSize_def not_le)
  have frag: "DoFragmentation (e_ChecksumEnabled env) (Suc (length (pk_bytes p))) p h (ucast ?mtu) =
      Inr (map (fragment_of (e_ChecksumEnabled env) h p) (mtu_chunks (of_nat (link_mtu env s i)) (pk_bytes p)))"
    using DoFragmentation_chunks [OF assms(3,4,5), of "ucast ?mtu" "Suc (length (pk_bytes p))" "e_ChecksumEnabled env"]
      assms(6) m ucast by simp
  define xs where "xs = (if 20 + length (pk_bytes p) \<le> link_mtu env s i then [(p, h)]
      else map (fragment_of (e_ChecksumEnabled env) h p) (mtu_chunks (of_nat (link_mtu env s i)) (pk_bytes p)))"
  have "pk_tags (fst x) = pk_tags p" if "x \<in> set xs" for x using that by (auto simp: xs_def fragment_of_tags split: if_splits)
  with assms(2) have "\<forall>(p', h') \<in> set xs. \<forall>(t, d) \<in> set (pk_tags p'). t \<noteq> PRIORITY_TAG" by fastforce
  from send_list_direct [OF l(3,4) this, of i] obtain fx where fx: "L3_send_list env i ?target ?out xs = Inr fx"
    "sent_frames fx = map frame_of xs" by blast
  have eq: "L3_SendRealOut env (Some r) p h s = L3_send_list env i ?target ?out xs"
    using l(1,2) up fits frag
    by (simp add: L3_SendRealOut_def L3_GetInterfaceForDevice_def L3_interface_def L3_GetMtu_def Let_def
        Ipv4Address_IsAny_def xs_def del: L3_send_list.simps)
  show ?thesis by (rule exI [of _ fx]) (simp only: eq fx xs_def [symmetric] simp_thms)
qed

text \<open>A node with one interface on a direct link of 1500 bytes, and the same node with a shorter link.\<close>

definition demo_env :: "u16 \<Rightarrow> nat l3_env" where
  "demo_env mtu =
     \<lparr>e_dev = (\<lambda>d. \<lparr>dv_mtu = mtu, dv_needsArp = False, dv_loopback = False, dv_multicast = True,
        dv_broadcast = replicate 6 0xff, dv_GetMulticast = (\<lambda>a. [])\<rparr>),
      e_tc = Map.empty, e_SelectQueue = (\<lambda>p. 0), e_ArpLookup = (\<lambda>c p h a. None), e_CreateCache = (\<lambda>d. 0),
      e_ChecksumEnabled = True, e_now = 5, e_GetProtocolNumber = int, e_isIcmp = (\<lambda>p. p = 1),
      e_Receive = (\<lambda>p q h i. RX_OK), e_Hash32 = (\<lambda>bs. 0)\<rparr>"

definition demo_interface :: "ipv4 \<Rightarrow> ipv4_interface" where
  "demo_interface a =
     Interface_new\<lparr>if_up := True, if_node := 1, if_device := 7, if_tc := True, if_addrs := [InterfaceAddress_of a 0xffffff00]\<rparr>"

definition demo_l3 :: "ipv4 \<Rightarrow> nat l3" where
  "demo_l3 a =
     \<lparr>l3_node = 1, l3_ipForward = True, l3_weakEsModel = True, l3_protocols = [(17, - 1) \<mapsto> 17, (1, - 1) \<mapsto> 1],
      l3_interfaces = [demo_interface a], l3_reverse = [7 \<mapsto> 0], l3_defaultTtl = 64, l3_identification = (\<lambda>k. 0),
      l3_sockets = [], l3_routing = True, l3_reassembly = reassembly_new 30, l3_enableDpd = False, l3_dups = [],
      l3_expire = 1, l3_purge = 1, l3_cleanDpd = False\<rparr>"

definition demo_route :: ipv4_route where
  "demo_route = \<lparr>rt_destination = 0x0a010102, rt_source = 0x0a010001, rt_gateway = 0x0a010002, rt_device = 7\<rparr>"

lemma demo_link: "link_out (demo_env mtu) (demo_l3 0x0a010001) 0 demo_route dest" "link_mtu (demo_env mtu) (demo_l3 a) 0 = unat mtu"
  by (simp_all add: link_out_def link_mtu_def demo_l3_def demo_env_def demo_route_def demo_interface_def direct_link_def
      Interface_new_def InterfaceAddress_of_def)

section \<open>Properties\<close>

text \<open>
  C29. No datagram is forwarded forever. A header that starts with a time to live other than zero is
  forwarded by fewer nodes than that, whatever their routes, links and states, and whether or not it is
  fragmented on the way; each of them lowers the time to live by one and leaves source and destination
  alone. The frames followed are those handed to a device or looped back, not those left in a queue disc.
\<close>

theorem forwarding_bounded:
  assumes "journey nodes h h'" and "wire_header h" and "h_ttl h \<noteq> 0"
  shows "length nodes < unat (h_ttl h) \<and> unat (h_ttl h') = unat (h_ttl h) - length nodes \<and>
    h_source h' = h_source h \<and> h_destination h' = h_destination h"
proof -
  note j = journey_ttl [OF assms]
  then have "unat (h_ttl h') \<noteq> 0" by (simp add: unat_eq_zero)
  with j show ?thesis by linarith
qed

text \<open>One hop with a time to live of 64.\<close>

theorem forwarding_bounded_witness:
  "\<exists>h'. journey [(demo_env 1500, demo_l3 0x0a010001, demo_route, demo_payload)] demo_ipv4_header h' \<and> unat (h_ttl h') = 63"
proof -
  let ?s = "demo_l3 0x0a010001" and ?env = "demo_env 1500" and ?h = "demo_ipv4_header\<lparr>h_ttl := 63\<rparr>"
  have h: "h_ttl demo_ipv4_header = 64" "h_tos demo_ipv4_header = 0" "h_headerSize demo_ipv4_header = 20" "wire_header demo_ipv4_header"
    by (simp_all add: wire_header_def demo_ipv4_header_simps bit_simps)
      (simp_all add: demo_ipv4_header_def Ipv4Header_EnableChecksum_def Ipv4Header_SetPayloadSize_def Ipv4Header_SetTtl_def
        Ipv4Header_SetProtocol_def Ipv4Header_SetSource_def Ipv4Header_SetDestination_def Ipv4Header_SetDontFragment_def Ipv4Header_new_def)
  have t: "pk_tags demo_payload = []" "length (pk_bytes demo_payload) = 40" by (simp_all add: demo_payload_def)
  obtain fx where fx: "L3_SendRealOut ?env (Some demo_route) demo_payload ?h ?s = Inr fx" "sent_frames fx = [frame_of (demo_payload, ?h)]"
    using SendRealOut_direct [of ?env ?s 0 demo_route ?h demo_payload] h t
    by (auto simp: demo_link wire_header_def)
  have "\<exists>fx'. L3_IpForward ?env demo_route demo_payload demo_ipv4_header ?s = Inr fx' \<and> sent_frames fx' = sent_frames fx"
    using h fx(1) t by (simp add: L3_IpForward_def Let_def Ipv4Header_SetTtl_def PacketTagList_Remove_def IpTos2Priority_def)
  moreover obtain g where "Packet_RemoveHeader (Ipv4Header_Deserialize Ipv4Header_new) (frame_of (demo_payload, ?h)) =
      Inr (g, (frame_of (demo_payload, ?h))\<lparr>pk_bytes := pk_bytes demo_payload\<rparr>)"
    using RemoveHeader_carries [OF carries_frame [of ?h demo_payload], of Ipv4Header_new] h(4) by (auto simp: wire_header_def)
  ultimately have j: "journey [(?env, ?s, demo_route, demo_payload)] demo_ipv4_header g"
    by (fastforce simp: fx(2))
  have "unat (h_ttl g) = 63" using forwarding_bounded [OF j h(4)] h(1) by simp
  with j show ?thesis by (intro exI [of _ g] conjI)
qed

text \<open>At a time to live of zero, which no sender should use, the subtraction wraps and the datagram is sent on.\<close>

lemma ttl_zero_forwarded:
  assumes "h_ttl h = 0" and "L3_IpForward env rt p h s = Inr fx"
  shows "\<exists>p' i. L3UnicastForward (h\<lparr>h_ttl := 255\<rparr>) p' i \<in> set fx"
proof -
  obtain p' i fx' where "fx = L3UnicastForward (h\<lparr>h_ttl := 255\<rparr>) p' i # fx'"
    using assms by (auto simp: L3_IpForward_def Let_def Ipv4Header_SetTtl_def res_simps)
  then show ?thesis by auto
qed

end
