(* ===== verification/Fragment_Arrivals.thy ===== *)
theory Fragment_Arrivals
  imports Ipv4_Fragment_Timeouts
begin

text \<open>
  Fragments that arrive while the timeouts run. The fragments of a datagram and the calls of
  \<open>HandleTimeout\<close> come in the order of time; if no fragment is later than the expiration time after the first, the
  datagram is put together whatever the calls discard besides.
\<close>

section \<open>Events\<close>

text \<open>Something arrives at a time, or \<open>HandleTimeout\<close> runs; the second number there is that of the packet it makes.\<close>

datatype 'a rx_event =
    Arrives u64 'a
  | TimeoutRuns u64 u64

fun event_time :: "'a rx_event \<Rightarrow> u64" where
  "event_time (Arrives now x) = now"
| "event_time (TimeoutRuns now uid) = now"

fun arrivals :: "'a rx_event list \<Rightarrow> (u64 \<times> 'a) list" where
  "arrivals [] = []"
| "arrivals (Arrives now x # es) = (now, x) # arrivals es"
| "arrivals (TimeoutRuns now uid # es) = arrivals es"

fun run_times :: "'a rx_event list \<Rightarrow> u64 list" where
  "run_times [] = []"
| "run_times (Arrives now x # es) = run_times es"
| "run_times (TimeoutRuns now uid # es) = now # run_times es"

lemma arrivals_map [simp]: "arrivals (map (map_rx_event f) es) = map (map_prod id f) (arrivals es)"
  by (induction es rule: arrivals.induct) simp_all

lemma run_times_map [simp]: "run_times (map (map_rx_event f) es) = run_times es"
  by (induction es rule: arrivals.induct) simp_all

lemma event_time_map [simp]: "event_time (map_rx_event f e) = event_time e"
  by (cases e) simp_all

lemma arrivals_later: "(now, x) \<in> set (arrivals es) \<Longrightarrow> \<forall>e \<in> set es. t \<le> event_time e \<Longrightarrow> t \<le> now"
  by (induction es rule: arrivals.induct) auto

text \<open>The events are in order, and everything arrives within the time \<open>e\<close> after the first arrival.\<close>

definition in_time :: "u64 \<Rightarrow> 'a rx_event list \<Rightarrow> bool" where
  "in_time e es \<longleftrightarrow> sorted (map event_time es) \<and>
     (case arrivals es of [] \<Rightarrow> True
      | (first, x) # later \<Rightarrow> unat first + unat e < 2 ^ 64 \<and> (\<forall>(now, y) \<in> set later. unat now < unat first + unat e))"

lemma in_time_map [simp]: "in_time e (map (map_rx_event f) es) = in_time e es"
  by (simp add: in_time_def comp_def split: list.splits) (auto simp: split_beta)

section \<open>What a call of HandleTimeout leaves\<close>

definition expire :: "u64 \<Rightarrow> reassembly \<Rightarrow> reassembly" where
  "expire now r = r\<lparr>ra_timeouts := dropWhile (\<lambda>t. to_time t = now) (ra_timeouts r),
     ra_fragments := ra_fragments r |` (- (to_key ` set (takeWhile (\<lambda>t. to_time t = now) (ra_timeouts r))))\<rparr>"

lemma expire_simps [simp]:
  "ra_timeouts (expire now r) = dropWhile (\<lambda>t. to_time t = now) (ra_timeouts r)"
  "ra_nextId (expire now r) = ra_nextId r" "ra_expiration (expire now r) = ra_expiration r"
  by (simp_all add: expire_def)

lemma HandleTimeout_expire:
  assumes "entries_ok r"
  shows "\<exists>fx. HandleTimeout uid now r = Inr (expire now r, fx)" and "entries_ok (expire now r)"
proof -
  obtain r' fx where r': "HandleTimeout uid now r = Inr (r', fx)" "entries_ok r'"
    using HandleTimeout_ok [OF assms, of uid now] by blast
  have "\<forall>t \<in> set (ra_timeouts r). \<exists>f. ra_fragments r (to_key t) = Some f \<and> fr_fragments f \<noteq> []"
    using assms by (force simp: entries_ok_def)
  with assms obtain fx0 where "HandleTimeout_loop uid now (ra_timeouts r) (ra_fragments r) =
      Inr (ra_timeouts (expire now r), ra_fragments (expire now r), fx0)"
    using HandleTimeout_loop_ok [of "ra_timeouts r" "ra_fragments r" uid now] by (auto simp: entries_ok_def expire_def)
  then have "r' = expire now r" using r'(1) by (auto simp: HandleTimeout_def expire_def)
  with r' show "\<exists>fx. HandleTimeout uid now r = Inr (expire now r, fx)" "entries_ok (expire now r)" by auto
qed

text \<open>What remains after several calls, in terms of the list of timeouts.\<close>

definition still_due :: "u64 list \<Rightarrow> frag_timeout list \<Rightarrow> frag_timeout list" where
  "still_due calls ts = fold (\<lambda>now. dropWhile (\<lambda>t. to_time t = now)) calls ts"

lemma expire_all:
  assumes "entries_ok r"
  shows "entries_ok (fold expire calls r) \<and> ra_timeouts (fold expire calls r) = still_due calls (ra_timeouts r) \<and>
    ra_fragments (fold expire calls r) \<subseteq>\<^sub>m ra_fragments r"
  using assms
proof (induction calls arbitrary: r)
  case (Cons now calls)
  have "ra_fragments (expire now r) \<subseteq>\<^sub>m ra_fragments r"
    by (auto simp: expire_def map_le_def restrict_map_def split: if_splits)
  with Cons.IH [OF HandleTimeout_expire(2) [OF Cons.prems, of now]] show ?case
    by (auto simp: still_due_def intro: map_le_trans)
qed (simp add: still_due_def)

lemma expire_all_fragments:
  assumes "entries_ok r"
  shows "ra_fragments (fold expire calls r) = ra_fragments r |` (to_key ` set (still_due calls (ra_timeouts r)))"
proof -
  let ?r = "fold expire calls r"
  have "dom (ra_fragments ?r) = to_key ` set (still_due calls (ra_timeouts r))" "ra_fragments ?r \<subseteq>\<^sub>m ra_fragments r"
    using expire_all [OF assms, of calls] by (auto simp: entries_ok_def)
  then show ?thesis by (force simp: map_le_def restrict_map_def fun_eq_iff domIff)
qed

text \<open>Only the collectors and the list matter.\<close>

definition same_entries :: "reassembly \<Rightarrow> reassembly \<Rightarrow> bool" where
  "same_entries r r' \<longleftrightarrow> ra_fragments r = ra_fragments r' \<and> ra_timeouts r = ra_timeouts r'"

lemma same_entries_expire: "same_entries r r' \<Longrightarrow> same_entries (expire now r) (expire now r')"
  by (simp add: same_entries_def expire_def)

lemma same_entries_expire_all: "same_entries r r' \<Longrightarrow> same_entries (fold expire calls r) (fold expire calls r')"
  by (induction calls arbitrary: r r') (simp_all add: same_entries_expire)

section \<open>A datagram being collected while others expire\<close>

lemma dropWhile_last: "\<not> P x \<Longrightarrow> dropWhile P (xs @ [x]) = dropWhile P xs @ [x]"
  by (induction xs) simp_all

lemma collecting_expire:
  assumes "collecting G S k r0 r" and "entries_ok r0" and "ra_fragments r0 k = None"
    and "S \<noteq> {} \<Longrightarrow> to_time (last (ra_timeouts r)) \<noteq> now"
  shows "collecting G S k (expire now r0) (expire now r)" and "ra_fragments (expire now r0) k = None"
    and "S \<noteq> {} \<Longrightarrow> last (ra_timeouts (expire now r)) = last (ra_timeouts r)"
proof -
  show "ra_fragments (expire now r0) k = None" using assms(3) by (simp add: expire_def restrict_map_def)
  have "collecting G S k (expire now r0) (expire now r) \<and> last (ra_timeouts (expire now r)) = last (ra_timeouts r)" if "S \<noteq> {}"
  proof -
    from that assms(1) obtain f t where f: "holds G S f" "fr_timeoutIter f = ra_nextId r0" "to_id t = ra_nextId r0"
        "ra_fragments r = (ra_fragments r0)(k \<mapsto> f)" "ra_timeouts r = ra_timeouts r0 @ [t]"
      by (auto simp: collecting_def)
    have t: "to_time t \<noteq> now" using assms(4) that f(5) by simp
    let ?P = "\<lambda>t. to_time t = now"
    have "k \<notin> to_key ` set (ra_timeouts r0)" using assms(2,3) by (auto simp: entries_ok_def)
    then have k: "k \<notin> to_key ` set (takeWhile ?P (ra_timeouts r0))" by (auto dest: set_takeWhileD)
    have "takeWhile ?P (ra_timeouts r) = takeWhile ?P (ra_timeouts r0)" using t by (simp add: f(5) takeWhile_tail)
    then have "ra_fragments (expire now r) = (ra_fragments (expire now r0))(k \<mapsto> f)"
      using k by (auto simp: expire_def f(4) restrict_map_def fun_eq_iff)
    moreover have "dropWhile ?P (ra_timeouts r0 @ [t]) = dropWhile ?P (ra_timeouts r0) @ [t]"
      using t by (simp add: dropWhile_last)
    ultimately show ?thesis using that f(1-3,5) by (auto simp: collecting_def)
  qed
  moreover have "collecting G S k (expire now r0) (expire now r)" if "S = {}" using assms(1) that by (simp add: collecting_def)
  ultimately show "collecting G S k (expire now r0) (expire now r)"
    "S \<noteq> {} \<Longrightarrow> last (ra_timeouts (expire now r)) = last (ra_timeouts r)" by auto
qed

lemma ProcessFragment_due:
  assumes "ProcessFragment now q h iif r = Inr (None, r', fx)"
  shows "ra_timeouts r' = ra_timeouts r @ (case ra_fragments r (fragment_key_of h) of
      None \<Rightarrow> [\<lparr>to_id = ra_nextId r, to_time = now + ra_expiration r, to_key = fragment_key_of h, to_header = h, to_iif = iif\<rparr>]
    | Some f \<Rightarrow> [])"
  using assms
  by (cases "ra_fragments r (fragment_key_of h)")
    (auto simp: ProcessFragment_def SetTimeout_def Let_def res_simps split: if_splits)

section \<open>The datagrams that come out\<close>

text \<open>The header with which a reassembled datagram is handed up.\<close>

definition whole_header :: "ipv4_header \<Rightarrow> packet \<Rightarrow> ipv4_header" where
  "whole_header g q = g\<lparr>h_fragmentOffset := 0, h_payloadSize := ucast (Packet_GetSize q)\<rparr>"

definition is_fragment :: "ipv4_header \<Rightarrow> bool" where
  "is_fragment h \<longleftrightarrow> \<not> Ipv4Header_IsLastFragment h \<or> h_fragmentOffset h \<noteq> 0"

text \<open>The part of \<open>LocalDeliver\<close> that concerns fragments, and \<open>HandleTimeout\<close>, over a list of events.\<close>

fun receive_events ::
  "u32 \<Rightarrow> (packet \<times> ipv4_header) rx_event list \<Rightarrow> reassembly \<Rightarrow> ((packet \<times> ipv4_header) list \<times> reassembly) res" where
  "receive_events iif [] r = Inr ([], r)"
| "receive_events iif (Arrives now (q, h) # es) r =
     (if is_fragment h then
        bind_res (ProcessFragment now q h iif r) (\<lambda>(complete, r1, fx).
        bind_res (receive_events iif es r1) (\<lambda>(out, r2).
          Inr ((case complete of None \<Rightarrow> [] | Some w \<Rightarrow> [(w, whole_header h w)]) @ out, r2)))
      else bind_res (receive_events iif es r) (\<lambda>(out, r2). Inr ((q, h) # out, r2)))"
| "receive_events iif (TimeoutRuns now uid # es) r =
     bind_res (HandleTimeout uid now r) (\<lambda>(r1, fx). receive_events iif es r1)"

lemma receive_timeouts:
  assumes "arrivals es = []" and "entries_ok r"
  shows "receive_events iif es r = Inr ([], fold expire (run_times es) r)"
  using assms
proof (induction es arbitrary: r rule: arrivals.induct)
  case (3 now uid es)
  from HandleTimeout_expire(1) [OF "3.prems"(2)] obtain fx where "HandleTimeout uid now r = Inr (expire now r, fx)" by blast
  with 3 HandleTimeout_expire(2) [OF "3.prems"(2), of now] show ?case by simp
qed simp_all

lemma receive_whole:
  assumes "arrivals es = [(now, q, h)]" and "\<not> is_fragment h" and "entries_ok r"
  shows "receive_events iif es r = Inr ([(q, h)], fold expire (run_times es) r)"
  using assms
proof (induction es arbitrary: r rule: arrivals.induct)
  case (2 t x es)
  then show ?case using receive_timeouts [of es r iif] by simp
next
  case (3 t uid es)
  from HandleTimeout_expire(1) [OF "3.prems"(3)] obtain fx where "HandleTimeout uid t r = Inr (expire t r, fx)" by blast
  with 3 HandleTimeout_expire(2) [OF "3.prems"(3), of t] show ?case by simp
qed simp

lemma receive_collecting:
  assumes "contiguous 0 (map span G)" and "G \<noteq> []" and "concat (map snd (map span G)) = D" and "length D \<le> 65535"
    and "ra_fragments r0 k = None" and "entries_ok r0" and "entries_ok r" and "ra_expiration r = e"
    and "collecting G S k r0 r" and "arrivals es \<noteq> []" and "distinct (map (item \<circ> snd) (arrivals es))"
    and "set (map (item \<circ> snd) (arrivals es)) \<inter> S = {}" and "set (map (item \<circ> snd) (arrivals es)) \<union> S = set G"
    and "\<forall>(now, q, h) \<in> set (arrivals es). is_fragment h \<and> fragment_key_of h = k \<and> (Ipv4Header_IsLastFragment h \<longleftrightarrow> item (q, h) = last G)"
    and "sorted (map event_time es)"
    and "S \<noteq> {} \<Longrightarrow> \<forall>(now, x) \<in> set (arrivals es). now < to_time (last (ra_timeouts r))"
    and "S = {} \<Longrightarrow> \<forall>(now, x) \<in> set (tl (arrivals es)). now < fst (hd (arrivals es)) + e"
  shows "\<exists>whole now q h r'. receive_events iif es r = Inr ([(whole, whole_header h whole)], r') \<and> (now, q, h) \<in> set (arrivals es) \<and>
    pk_bytes whole = D \<and> pk_tags whole = pk_tags (fst (hd G)) \<and> same_entries r' (fold expire (run_times es) r0)"
  using assms(5-)
proof (induction es arbitrary: S r r0 rule: arrivals.induct)
  case 1
  then show ?case by simp
next
  case (2 now x es)
  obtain q h where x: "x = (q, h)" by (cases x)
  let ?S = "insert (q, h_fragmentOffset h) S"
  have i: "(q, h_fragmentOffset h) \<in> set G" "(q, h_fragmentOffset h) \<notin> S" "S \<subseteq> set G"
    using "2.prems"(8,9) by (auto simp: x)
  have g: "fragment_key_of h = k" "Ipv4Header_IsLastFragment h \<longleftrightarrow> (q, h_fragmentOffset h) = last G" "is_fragment h"
    using "2.prems"(10) by (simp_all add: x)
  have ids: "\<forall>t \<in> set (ra_timeouts r0). to_id t < ra_nextId r0" using "2.prems"(2) by (simp add: entries_ok_def)
  note step = ProcessFragment_step [OF assms(1-4) "2.prems"(1) ids "2.prems"(5) i g(1) refl g(2), of now iif]
  show ?case
  proof (cases "arrivals es = []")
    case True
    then have "?S = set G" using "2.prems"(9) by (simp add: x)
    from step(1) [OF this] obtain whole r1 fx where r1: "ProcessFragment now q h iif r = Inr (Some whole, r1, fx)"
        "pk_bytes whole = D" "pk_tags whole = pk_tags (fst (hd G))" "same_entries r1 r0"
      by (auto simp: same_entries_def)
    have "entries_ok r1" by (rule ProcessFragment_entries(1) [OF "2.prems"(3) r1(1)])
    from receive_timeouts [OF True this, of iif] r1 g(3) same_entries_expire_all [OF r1(4), of "run_times es"] show ?thesis
      by (intro exI [of _ whole] exI [of _ now] exI [of _ q] exI [of _ h]) (simp add: x)
  next
    case False
    then have "\<exists>y \<in> set (arrivals es). item (snd y) \<notin> ?S"
      using "2.prems"(7,8) by (cases "arrivals es") (auto simp: x)
    then have "?S \<noteq> set G" using "2.prems"(9) by force
    from step(2) [OF this] obtain r1 fx where r1: "ProcessFragment now q h iif r = Inr (None, r1, fx)" "collecting G ?S k r0 r1"
      by blast
    note r1e = ProcessFragment_entries(1,2) [OF "2.prems"(3) r1(1)]
    have due: "\<forall>(t, y) \<in> set (arrivals es). t < to_time (last (ra_timeouts r1))"
    proof (cases "S = {}")
      case True
      then have "r = r0" using "2.prems"(5) by (simp add: collecting_def)
      then have "to_time (last (ra_timeouts r1)) = now + e"
        using ProcessFragment_due [OF r1(1)] "2.prems"(1,4) g(1) by simp
      with "2.prems"(13) [OF True] show ?thesis by simp
    next
      case False
      then obtain f where "ra_fragments r k = Some f" using "2.prems"(5) by (auto simp: collecting_def)
      then have "ra_timeouts r1 = ra_timeouts r" using ProcessFragment_due [OF r1(1)] g(1) by simp
      with "2.prems"(12) [OF False] show ?thesis by auto
    qed
    have "\<exists>whole now q h r'. receive_events iif es r1 = Inr ([(whole, whole_header h whole)], r') \<and> (now, q, h) \<in> set (arrivals es) \<and>
        pk_bytes whole = D \<and> pk_tags whole = pk_tags (fst (hd G)) \<and> same_entries r' (fold expire (run_times es) r0)"
      by (rule "2.IH" [OF "2.prems"(1,2) r1e(1) _ r1(2) False]) (use "2.prems" x r1e(2) due in auto)
    with r1(1) g(3) show ?thesis by (fastforce simp: x)
  qed
next
  case (3 now uid es)
  have ne: "arrivals es \<noteq> []" using "3.prems"(6) by simp
  then obtain t y where y: "(t, y) \<in> set (arrivals es)" by (cases "arrivals es") auto
  have le: "now \<le> t" by (rule arrivals_later [OF y]) (use "3.prems"(11) in simp)
  have nd: "S \<noteq> {} \<Longrightarrow> to_time (last (ra_timeouts r)) \<noteq> now" using "3.prems"(12) y le by fastforce
  note c = collecting_expire [OF "3.prems"(5,2,1) nd]
  obtain fx where fx: "HandleTimeout uid now r = Inr (expire now r, fx)" using HandleTimeout_expire(1) [OF "3.prems"(3)] by blast
  have "\<exists>whole t q h r'. receive_events iif es (expire now r) = Inr ([(whole, whole_header h whole)], r') \<and> (t, q, h) \<in> set (arrivals es) \<and>
      pk_bytes whole = D \<and> pk_tags whole = pk_tags (fst (hd G)) \<and> same_entries r' (fold expire (run_times es) (expire now r0))"
    by (rule "3.IH" [OF c(2) HandleTimeout_expire(2) [OF "3.prems"(2)] HandleTimeout_expire(2) [OF "3.prems"(3)] _ c(1) ne])
      (use "3.prems" c(3) in auto)
  with fx show ?case by auto
qed

text \<open>The fragments of a datagram, in any order, among calls of \<open>HandleTimeout\<close>.\<close>

lemma reassemble_events:
  assumes "h_headerSize h = 20" and "h_fragmentOffset h = 0" and "Ipv4Header_IsLastFragment h"
    and "length (pk_bytes p) \<le> 65535" and "28 \<le> unat mtu" and "unat mtu \<le> 65535" and "length (pk_bytes p) < fuel"
    and "DoFragmentation csum fuel p h mtu = Inr frags"
    and "mset (map frag_view (map snd (arrivals es))) = mset (map frag_view frags)"
    and "ra_fragments r (fragment_key_of h) = None" and "entries_ok r" and "in_time (ra_expiration r) es"
    and "\<forall>(now, q, g) \<in> set (arrivals es). is_fragment g"
  shows "\<exists>whole now q g r'. receive_events iif es r = Inr ([(whole, whole_header g whole)], r') \<and> (now, q, g) \<in> set (arrivals es) \<and>
    pk_bytes whole = pk_bytes p \<and> pk_tags whole = pk_tags p \<and> same_entries r' (fold expire (run_times es) r)"
proof -
  obtain G where G: "contiguous 0 (map span G)" "G \<noteq> []"
    "concat (map snd (map span G)) = pk_bytes p" "pk_tags (fst (hd G)) = pk_tags p" "distinct (map item (map snd (arrivals es)))"
    "set (map item (map snd (arrivals es))) = set G" "\<forall>(q, g) \<in> set (map snd (arrivals es)).
      fragment_key_of g = fragment_key_of h \<and> (Ipv4Header_IsLastFragment g \<longleftrightarrow> item (q, g) = last G)"
    using views_collectable [OF assms(1-9)] .
  show ?thesis
    unfolding G(4) [symmetric]
  proof (rule receive_collecting [OF G(1-3) assms(4) assms(10,11,11) refl])
    show "collecting G {} (fragment_key_of h) r r" by (simp add: collecting_def)
    show ne: "arrivals es \<noteq> []" using G(2,6) by auto
    show "\<forall>(now, q, g) \<in> set (arrivals es). is_fragment g \<and> fragment_key_of g = fragment_key_of h \<and>
        (Ipv4Header_IsLastFragment g \<longleftrightarrow> item (q, g) = last G)"
      using G(7) assms(13) by force
    show "sorted (map event_time es)" using assms(12) by (simp add: in_time_def)
    obtain first x later where a: "arrivals es = (first, x) # later" using ne by (cases "arrivals es") auto
    then have "unat (first + ra_expiration r) = unat first + unat (ra_expiration r)"
      using assms(12) by (simp add: in_time_def unat_add_nowrap)
    then show "\<forall>(now, x) \<in> set (tl (arrivals es)). now < fst (hd (arrivals es)) + ra_expiration r"
      using assms(12) by (simp add: in_time_def a word_less_nat_alt)
  qed (use G(5,6) in simp_all)
qed

end
