(* ===== verification/Ipv4_Delivery.thy ===== *)
theory Ipv4_Delivery
  imports Ipv4_Hops Fragment_Arrivals
begin

text \<open>
  From one node to the next: a datagram that is sent over a direct link, whole or in fragments that
  arrive in any order, is handed to the transport protocol of the receiver once and unchanged, also if
  \<open>HandleTimeout\<close> runs in between, provided no fragment is later than the expiration time after the first. The receiver
  routes with the list of protocols that \<open>internet-stack-helper.cc\<close> installs.
\<close>

section \<open>Frames and timeouts\<close>

text \<open>\<open>RouteInput\<close> of the installed list, static before global routing.\<close>

definition list_route_input ::
  "(nat \<Rightarrow> nat \<Rightarrow> nat) \<Rightarrow> static_routing \<Rightarrow> multicast_entry list \<Rightarrow> global_routing \<Rightarrow> 'p l3 \<Rightarrow> route_input_fn" where
  "list_route_input GetInteger rs ms gr s p h device =
     bind_res (ListRouting_RouteInput (stack_of s) (h_destination h) device
         (default_list GetInteger (stack_of s) (h_destination h) device rs ms gr) ()) (\<lambda>(ok, acts, u).
       Inr (ok, map (\<lambda>a. (p, h, a)) acts))"

text \<open>
  What the simulator runs at the layer of a node, one after the other, each at its time: frames received on a
  device, and the calls of \<open>HandleTimeout\<close>.
\<close>

fun receive_frames ::
  "'p l3_env \<Rightarrow> ('p l3 \<Rightarrow> route_input_fn) \<Rightarrow> nat \<Rightarrow> bytes \<Rightarrow> packet rx_event list \<Rightarrow> 'p l3 \<Rightarrow>
   ('p l3_effect list list \<times> 'p l3) res" where
  "receive_frames env RouteInput device from [] s = Inr ([], s)"
| "receive_frames env RouteInput device from (Arrives now q # es) s =
     bind_res (L3_Receive (env\<lparr>e_now := now\<rparr>) (RouteInput s) device q from s) (\<lambda>(fx, s1).
     bind_res (receive_frames env RouteInput device from es s1) (\<lambda>(fxs, s2). Inr (fx # fxs, s2)))"
| "receive_frames env RouteInput device from (TimeoutRuns now uid # es) s =
     bind_res (L3_HandleTimeout (env\<lparr>e_now := now\<rparr>) uid s) (\<lambda>(fx, s1).
     bind_res (receive_frames env RouteInput device from es s1) (\<lambda>(fxs, s2). Inr (fx # fxs, s2)))"

text \<open>What is handed to transport protocols.\<close>

fun handed_up1 :: "'p l3_effect \<Rightarrow> ('p \<times> packet \<times> ipv4_header \<times> u32) list" where
  "handed_up1 (L3ToProtocol protocol p h i) = [(protocol, p, h, i)]"
| "handed_up1 _ = []"

definition handed_up :: "'p l3_effect list \<Rightarrow> ('p \<times> packet \<times> ipv4_header \<times> u32) list" where
  "handed_up fx = concat (map handed_up1 fx)"

lemma handed_up_simps [simp]:
  "handed_up [] = []" "handed_up (e # fx) = handed_up1 e @ handed_up fx" "handed_up (fx @ fx') = handed_up fx @ handed_up fx'"
  "handed_up (map L3Frag es) = []"
  "handed_up (map (\<lambda>socket. L3ToRawSocket socket p h) ss) = []"
  by (simp_all add: handed_up_def comp_def)

section \<open>Reading a frame\<close>

definition rx_header :: "'p l3_env \<Rightarrow> ipv4_header" where
  "rx_header env = (if e_ChecksumEnabled env then Ipv4Header_EnableChecksum Ipv4Header_new else Ipv4Header_new)"

text \<open>The header that a receiver reads from the frame of a payload with its header.\<close>

definition wire_read :: "'p l3_env \<Rightarrow> packet \<times> ipv4_header \<Rightarrow> ipv4_header" where
  "wire_read env x = fst (projr (Packet_RemoveHeader (Ipv4Header_Deserialize (rx_header env)) (frame_of x)))"

text \<open>What a sender puts on the wire: a header that describes its payload, with a checksum if they are enabled.\<close>

definition proper :: "'p l3_env \<Rightarrow> packet \<times> ipv4_header \<Rightarrow> bool" where
  "proper env x \<longleftrightarrow> wire_header (snd x) \<and> length (pk_bytes (fst x)) \<le> 65535 \<and>
     h_payloadSize (snd x) = of_nat (length (pk_bytes (fst x))) \<and> (e_ChecksumEnabled env \<longrightarrow> h_calcChecksum (snd x))"

lemma read_frame:
  assumes "proper env x"
  shows "Packet_RemoveHeader (Ipv4Header_Deserialize (rx_header env)) (frame_of x) = Inr (wire_read env x, fst x)"
    and "same_fields (snd x) (wire_read env x)" and "Ipv4Header_IsChecksumOk (wire_read env x)"
proof -
  have h0: "h_calcChecksum (rx_header env) = e_ChecksumEnabled env" "Ipv4Header_IsChecksumOk (rx_header env)"
    by (simp_all add: rx_header_def Ipv4Header_EnableChecksum_def Ipv4Header_new_def Ipv4Header_IsChecksumOk_def)
  have c: "carries (snd x) (pk_bytes (fst x)) (frame_of x)" using carries_frame [of "snd x" "fst x"] by simp
  have f: "(frame_of x)\<lparr>pk_bytes := pk_bytes (fst x)\<rparr> = fst x" using frame_of_inverse [of "fst x" "snd x"] by simp
  have w: "wire_header (snd x)" using assms by (simp add: proper_def)
  obtain g where g: "Packet_RemoveHeader (Ipv4Header_Deserialize (rx_header env)) (frame_of x) = Inr (g, fst x)" "same_fields (snd x) g"
      "h_calcChecksum (rx_header env) \<and> h_calcChecksum (snd x) \<or> \<not> h_calcChecksum (rx_header env) \<and> Ipv4Header_IsChecksumOk (rx_header env)
        \<longrightarrow> Ipv4Header_IsChecksumOk g"
    using RemoveHeader_carries [OF c w, of "rx_header env"] unfolding f by blast
  have "wire_read env x = g" by (simp add: wire_read_def g(1))
  with g h0 assms show "Packet_RemoveHeader (Ipv4Header_Deserialize (rx_header env)) (frame_of x) = Inr (wire_read env x, fst x)"
    "same_fields (snd x) (wire_read env x)" "Ipv4Header_IsChecksumOk (wire_read env x)"
    by (auto simp: proper_def)
qed

lemma Receive_frame:
  assumes "proper env x" and "l3_reverse s device = Some j" and "unat j < length (l3_interfaces s)" and "if_up (l3_interfaces s ! unat j)"
  shows "\<exists>pre. handed_up pre = [] \<and> L3_Receive env RouteInput device (frame_of x) from s =
    bind_res (L3_input env RouteInput device j (fst x) (wire_read env x) s) (\<lambda>(fx, s1). Inr (pre @ fx, s1))"
proof -
  have sz: "\<not> ucast (h_payloadSize (wire_read env x)) < Packet_GetSize (fst x)"
    using assms(1) same_fields_simps(5) [OF read_frame(2) [OF assms(1)]]
    by (simp add: proper_def word_less_nat_alt unat_size unat_of_nat_u16)
  let ?pre = "L3Rx (frame_of x) j # (if if_cache (l3_interfaces s ! unat j) \<noteq> 0
      then [L3ArpSeen (if_cache (l3_interfaces s ! unat j)) (h_source (wire_read env x)) from] else []) @
    map (\<lambda>socket. L3ToRawSocket socket (fst x) (wire_read env x)) (l3_sockets s)"
  have "L3_Receive env RouteInput device (frame_of x) from s =
      bind_res (L3_input env RouteInput device j (fst x) (wire_read env x) s) (\<lambda>(fx, s1). Inr (?pre @ fx, s1))"
    using assms(2-4) sz read_frame(1,3) [OF assms(1)]
    unfolding L3_Receive_def L3_GetInterfaceForDevice_def rx_header_def [symmetric] by (simp add: Let_def)
  moreover have "handed_up ?pre = []" by simp
  ultimately show ?thesis by blast
qed

section \<open>A host\<close>

text \<open>
  A host that has the destination on the interface of the device, an installed routing protocol, and a
  transport protocol that finds a socket for what it receives.
\<close>

definition host :: "'p l3_env \<Rightarrow> nat \<Rightarrow> u32 \<Rightarrow> ipv4 \<Rightarrow> u8 \<Rightarrow> 'p \<Rightarrow> 'p l3 \<Rightarrow> bool" where
  "host env device j dst number protocol s \<longleftrightarrow>
     l3_reverse s device = Some j \<and> unat j < length (l3_interfaces s) \<and> if_up (l3_interfaces s ! unat j) \<and>
     iface_accepts dst (l3_interfaces s ! unat j) \<and> \<not> Ipv4Address_IsMulticast dst \<and> l3_routing s \<and>
     L3_GetProtocol_on (uint number) (sint j) s = Some protocol \<and> (\<forall>q g. e_Receive env protocol q g j \<noteq> RX_ENDPOINT_UNREACH)"

lemma host_cong [simp]:
  "host env device j dst number protocol (s\<lparr>l3_reassembly := r\<rparr>) = host env device j dst number protocol s"
  "host (env\<lparr>e_now := now\<rparr>) device j dst number protocol s = host env device j dst number protocol s"
  by (simp_all add: host_def L3_GetProtocol_on_def cong: option.case_cong)

lemma env_now [simp]: "wire_read (env\<lparr>e_now := now\<rparr>) x = wire_read env x" "proper (env\<lparr>e_now := now\<rparr>) x = proper env x"
  by (simp_all add: wire_read_def rx_header_def proper_def)

lemma route_to_self:
  assumes "host env device j dst number protocol s" and "h_destination h = dst"
  shows "list_route_input GetInteger rs ms gr s p h device = Inr (True, [(p, h, LocalDeliver j)])"
  using assms
  by (simp add: list_route_input_def ListRouting_RouteInput_def stack_of_def L3_GetInterfaceForDevice_def host_def
      L3_IsDestinationAddress_def L3_interface_def)

lemma deliver_up_host:
  assumes "host env device j dst number protocol s" and "h_protocol h = number"
  shows "L3_deliver_up env p h j s = Inr [L3LocalDeliver h p j, L3ToProtocol protocol p h j]"
  using assms by (simp add: L3_deliver_up_def host_def)

lemma Receive_host:
  assumes "host env device j dst number protocol s" and "proper env x" and "h_destination (snd x) = dst"
  shows "\<exists>pre. handed_up pre = [] \<and> L3_Receive env (list_route_input GetInteger rs ms gr s) device (frame_of x) from s =
    bind_res (L3_LocalDeliver env (fst x) (wire_read env x) j s) (\<lambda>(fx, s1). Inr (pre @ fx, s1))"
proof -
  have d: "h_destination (wire_read env x) = dst" using same_fields_simps(6) [OF read_frame(2) [OF assms(2)]] assms(3) by simp
  have "L3_input env (list_route_input GetInteger rs ms gr s) device j (fst x) (wire_read env x) s =
      L3_LocalDeliver env (fst x) (wire_read env x) j s"
    using assms(1) d route_to_self [OF assms(1) d, of GetInteger rs ms gr "fst x"]
    by (cases "L3_LocalDeliver env (fst x) (wire_read env x) j s") (auto simp: L3_input_def host_def)
  with Receive_frame [OF assms(2), of s device j "list_route_input GetInteger rs ms gr s" "from"] assms(1) show ?thesis
    by (simp add: host_def)
qed

section \<open>Fragments of one datagram\<close>

lemma LocalDeliver_fragment:
  assumes "host env device j dst number protocol s" and "is_fragment h" and "h_protocol h = number"
    and "ProcessFragment (e_now env) p h j (l3_reassembly s) = Inr (complete, r, fx0)"
  shows "\<exists>fx. L3_LocalDeliver env p h j s = Inr (fx, s\<lparr>l3_reassembly := r\<rparr>) \<and>
    handed_up fx = (case complete of None \<Rightarrow> [] | Some q \<Rightarrow> [(protocol, q, whole_header h q, j)])"
proof (cases complete)
  case None
  with assms(2,4) show ?thesis by (auto simp: L3_LocalDeliver_def is_fragment_def)
next
  case (Some q)
  have "L3_deliver_up env q (whole_header h q) j (s\<lparr>l3_reassembly := r\<rparr>) =
      Inr [L3LocalDeliver (whole_header h q) q j, L3ToProtocol protocol q (whole_header h q) j]"
    by (rule deliver_up_host [of env device j dst number]) (use assms(1,3) in \<open>simp_all add: whole_header_def\<close>)
  with Some assms(2,4) show ?thesis
    by (auto simp: L3_LocalDeliver_def is_fragment_def Ipv4Header_SetFragmentOffset_def Ipv4Header_SetPayloadSize_def whole_header_def)
qed

lemma LocalDeliver_whole:
  assumes "host env device j dst number protocol s" and "\<not> is_fragment h" and "h_protocol h = number"
  shows "\<exists>fx. L3_LocalDeliver env p h j s = Inr (fx, s) \<and> handed_up fx = [(protocol, p, h, j)]"
  using deliver_up_host [OF assms(1,3), of p] assms(2) by (simp add: L3_LocalDeliver_def is_fragment_def Packet_Copy_def)

lemma GetIcmp_cong [simp]: "L3_GetIcmp (env\<lparr>e_now := now\<rparr>) (s\<lparr>l3_reassembly := r\<rparr>) = L3_GetIcmp env s"
    "L3_GetIcmp (env\<lparr>e_now := now\<rparr>) s = L3_GetIcmp env s" "L3_GetIcmp env (s\<lparr>l3_reassembly := r\<rparr>) = L3_GetIcmp env s"
  by (simp_all add: L3_GetIcmp_def L3_GetProtocol_def L3_GetProtocol_on_def cong: option.case_cong)

lemma HandleTimeout_l3:
  assumes "L3_GetIcmp env s = Inr icmp" and "HandleTimeout uid (e_now env) (l3_reassembly s) = Inr (r, fx)"
  shows "L3_HandleTimeout env uid s = Inr (map L3Frag fx, s\<lparr>l3_reassembly := r\<rparr>)"
  using assms by (simp add: L3_HandleTimeout_def)

text \<open>The layer hands up what its fragment handling lets out.\<close>

definition read_part :: "'p l3_env \<Rightarrow> packet \<times> ipv4_header \<Rightarrow> packet \<times> ipv4_header" where
  "read_part env x = (fst x, wire_read env x)"

lemma receive_read_part:
  "receive_events iif (Arrives now (read_part env x) # es) r =
     (if is_fragment (wire_read env x) then
        bind_res (ProcessFragment now (fst x) (wire_read env x) iif r) (\<lambda>(complete, r1, fx).
        bind_res (receive_events iif es r1) (\<lambda>(out, r2).
          Inr ((case complete of None \<Rightarrow> [] | Some w \<Rightarrow> [(w, whole_header (wire_read env x) w)]) @ out, r2)))
      else bind_res (receive_events iif es r) (\<lambda>(out, r2). Inr ((fst x, wire_read env x) # out, r2)))"
  by (simp add: read_part_def)

lemma receive_frames_events:
  assumes "host env device j dst number protocol s" and "L3_GetIcmp env s = Inr icmp"
    and "\<forall>(now, x) \<in> set (arrivals ys). proper env x \<and> h_destination (snd x) = dst \<and> h_protocol (snd x) = number"
    and "receive_events j (map (map_rx_event (read_part env)) ys) (l3_reassembly s) = Inr (out, r')"
  shows "\<exists>fxs. receive_frames env (list_route_input GetInteger rs ms gr) device from (map (map_rx_event frame_of) ys) s =
      Inr (fxs, s\<lparr>l3_reassembly := r'\<rparr>) \<and> concat (map handed_up fxs) = map (\<lambda>(q, g). (protocol, q, g, j)) out"
  using assms
proof (induction ys arbitrary: s out rule: arrivals.induct)
  case 1
  then show ?case by simp
next
  case (2 now x ys)
  let ?env = "env\<lparr>e_now := now\<rparr>" and ?g = "wire_read env x"
  have x: "proper ?env x" "h_destination (snd x) = dst" "h_protocol (snd x) = number" using "2.prems"(3) by simp_all
  have h: "host ?env device j dst number protocol s" using "2.prems"(1) by simp
  have "same_fields (snd x) ?g" using read_frame(2) [OF x(1)] by simp
  then have g: "h_protocol ?g = number" using x(3) same_fields_simps by metis
  have "\<exists>fx r1 out1 out2. L3_LocalDeliver ?env (fst x) ?g j s = Inr (fx, s\<lparr>l3_reassembly := r1\<rparr>) \<and>
      handed_up fx = map (\<lambda>(q, g). (protocol, q, g, j)) out1 \<and> out = out1 @ out2 \<and>
      receive_events j (map (map_rx_event (read_part env)) ys) r1 = Inr (out2, r')"
  proof (cases "is_fragment ?g")
    case True
    from "2.prems"(4) True obtain complete r1 fx0 out2 where pf: "ProcessFragment now (fst x) ?g j (l3_reassembly s) = Inr (complete, r1, fx0)"
        "receive_events j (map (map_rx_event (read_part env)) ys) r1 = Inr (out2, r')"
        "out = (case complete of None \<Rightarrow> [] | Some w \<Rightarrow> [(w, whole_header ?g w)]) @ out2"
      by (auto simp: res_simps receive_read_part)
    with LocalDeliver_fragment [OF h True g, of "fst x" complete r1 fx0] show ?thesis
      by (cases complete) fastforce+
  next
    case False
    from "2.prems"(4) False obtain out2 where "receive_events j (map (map_rx_event (read_part env)) ys) (l3_reassembly s) = Inr (out2, r')"
        "out = (fst x, ?g) # out2"
      by (auto simp: res_simps receive_read_part)
    moreover obtain fx where "L3_LocalDeliver ?env (fst x) ?g j s = Inr (fx, s)" "handed_up fx = [(protocol, fst x, ?g, j)]"
      using LocalDeliver_whole [OF h False g, of "fst x"] by blast
    ultimately show ?thesis
      by (intro exI [of _ fx] exI [of _ "l3_reassembly s"] exI [of _ "[(fst x, ?g)]"] exI [of _ out2]) simp
  qed
  then obtain fx r1 out1 out2 where fx: "L3_LocalDeliver ?env (fst x) ?g j s = Inr (fx, s\<lparr>l3_reassembly := r1\<rparr>)"
      "handed_up fx = map (\<lambda>(q, g). (protocol, q, g, j)) out1" "out = out1 @ out2"
      "receive_events j (map (map_rx_event (read_part env)) ys) r1 = Inr (out2, r')" by blast
  obtain pre where pre: "handed_up pre = []"
      "L3_Receive ?env (list_route_input GetInteger rs ms gr s) device (frame_of x) from s = Inr (pre @ fx, s\<lparr>l3_reassembly := r1\<rparr>)"
    using Receive_host [OF h x(1,2), of GetInteger rs ms gr "from"] fx(1) by auto
  have "\<exists>fxs. receive_frames env (list_route_input GetInteger rs ms gr) device from (map (map_rx_event frame_of) ys) (s\<lparr>l3_reassembly := r1\<rparr>) =
      Inr (fxs, (s\<lparr>l3_reassembly := r1\<rparr>)\<lparr>l3_reassembly := r'\<rparr>) \<and> concat (map handed_up fxs) = map (\<lambda>(q, g). (protocol, q, g, j)) out2"
    by (rule "2.IH") (use "2.prems" fx(4) in auto)
  then obtain fxs where "receive_frames env (list_route_input GetInteger rs ms gr) device from (map (map_rx_event frame_of) ys) (s\<lparr>l3_reassembly := r1\<rparr>) =
      Inr (fxs, s\<lparr>l3_reassembly := r'\<rparr>)" "concat (map handed_up fxs) = map (\<lambda>(q, g). (protocol, q, g, j)) out2" by auto
  with pre fx(2,3) show ?case by simp
next
  case (3 now uid ys)
  let ?env = "env\<lparr>e_now := now\<rparr>"
  from "3.prems"(4) obtain r1 fx where r1: "HandleTimeout uid now (l3_reassembly s) = Inr (r1, fx)"
      "receive_events j (map (map_rx_event (read_part env)) ys) r1 = Inr (out, r')"
    by (auto simp: res_simps)
  have t: "L3_HandleTimeout ?env uid s = Inr (map L3Frag fx, s\<lparr>l3_reassembly := r1\<rparr>)"
    by (rule HandleTimeout_l3) (use "3.prems"(2) r1(1) in simp_all)
  have "\<exists>fxs. receive_frames env (list_route_input GetInteger rs ms gr) device from (map (map_rx_event frame_of) ys) (s\<lparr>l3_reassembly := r1\<rparr>) =
      Inr (fxs, (s\<lparr>l3_reassembly := r1\<rparr>)\<lparr>l3_reassembly := r'\<rparr>) \<and> concat (map handed_up fxs) = map (\<lambda>(q, g). (protocol, q, g, j)) out"
    by (rule "3.IH") (use "3.prems" r1(2) in auto)
  with t show ?case by auto
qed

text \<open>Frames that arrive in another order are the frames of the same pairs in another order.\<close>

lemma mset_map_order:
  assumes "mset zs = mset (map f xs)"
  shows "\<exists>xs'. zs = map f xs' \<and> mset xs' = mset xs"
  using assms
proof (induction zs arbitrary: xs)
  case (Cons z zs)
  then have "z \<in> set (map f xs)" by (metis list.set_intros(1) set_mset_mset)
  then obtain x where x: "x \<in> set xs" "z = f x" by auto
  then have m: "mset xs = add_mset x (mset (remove1 x xs))" by simp
  have "add_mset z (mset zs) = add_mset (f x) (mset (map f (remove1 x xs)))"
    using Cons.prems by (simp only: mset_map m mset.simps image_mset_add_mset)
  then have "mset zs = mset (map f (remove1 x xs))" by (simp only: x(2) add_mset_add_mset_same_iff)
  from Cons.IH [OF this] obtain xs' where xs': "zs = map f xs'" "mset xs' = mset (remove1 x xs)" by blast
  have "z # zs = map f (x # xs')" "mset (x # xs') = mset xs" by (simp_all only: x(2) xs' m list.map mset.simps)
  then show ?case by (intro exI conjI)
qed simp

section \<open>The parts of a datagram\<close>

text \<open>The pairs of payload and header that go out for a datagram.\<close>

definition datagram_parts :: "'p l3_env \<Rightarrow> nat \<Rightarrow> packet \<Rightarrow> ipv4_header \<Rightarrow> (packet \<times> ipv4_header) list" where
  "datagram_parts env mtu p h =
     (if 20 + length (pk_bytes p) \<le> mtu then [(p, h)]
      else map (fragment_of (e_ChecksumEnabled env) h p) (mtu_chunks (of_nat mtu) (pk_bytes p)))"

lemma parts_proper:
  assumes "proper env (p, h)" and "28 \<le> mtu" and "mtu \<le> 65535" and "h_fragmentOffset h = 0" and "x \<in> set (datagram_parts env mtu p h)"
  shows "proper env x \<and> h_destination (snd x) = h_destination h \<and> h_protocol (snd x) = h_protocol h \<and> h_source (snd x) = h_source h"
proof (cases "20 + length (pk_bytes p) \<le> mtu")
  case True
  with assms show ?thesis by (simp add: datagram_parts_def)
next
  case False
  have m: "unat (of_nat mtu :: u32) = mtu" using assms(3) by (simp add: unsigned_of_nat take_bit_nat_eq_self)
  from False assms(5) obtain k bs where c: "(k, bs) \<in> set (mtu_chunks (of_nat mtu) (pk_bytes p))" "x = fragment_of (e_ChecksumEnabled env) h p (k, bs)"
    by (auto simp: datagram_parts_def)
  have "28 \<le> unat (of_nat mtu :: u32)" using assms(2) m by simp
  note fs = fragment_size [OF this]
  have "8 dvd k" by (rule chunks_aligned [OF fs(1) _ c(1) [unfolded mtu_chunks_def]]) simp
  then have "(of_nat k :: u16) AND 7 = 0" by (rule and7_of_nat)
  moreover have "length bs \<le> 65535"
    using chunks_size [OF fs(2) c(1) [unfolded mtu_chunks_def]] fs(3) m assms(3) by linarith
  ultimately show ?thesis using assms(1,4) by (simp add: c(2) proper_def wire_header_def flags_bit2)
qed

lemma parts_fragments:
  assumes "\<not> 20 + length (pk_bytes p) \<le> mtu" and "28 \<le> mtu" and "mtu \<le> 65535" and "length (pk_bytes p) \<le> 65535"
    and "h_fragmentOffset h = 0" and "x \<in> set (datagram_parts env mtu p h)"
  shows "is_fragment (snd x)"
proof -
  let ?cs = "mtu_chunks (of_nat mtu) (pk_bytes p)"
  from assms(1,6) obtain k bs where c: "(k, bs) \<in> set ?cs" "x = fragment_of (e_ChecksumEnabled env) h p (k, bs)"
    by (auto simp: datagram_parts_def)
  have m: "unat (of_nat mtu :: u32) = mtu" using assms(3) by (simp add: unsigned_of_nat take_bit_nat_eq_self)
  have "28 \<le> unat (of_nat mtu :: u32)" using assms(2) m by simp
  note fs = fragment_size [OF this]
  have r: "k + length bs \<le> length (pk_bytes p)" using chunks_range [of k bs _ 0 "pk_bytes p"] c(1) by (auto simp: mtu_chunks_def)
  show ?thesis
  proof (cases "k = 0")
    case True
    have "length bs + 20 \<le> mtu" using chunks_size [OF fs(2) c(1) [unfolded mtu_chunks_def]] fs(3) m by linarith
    then have "k + length bs < length (pk_bytes p)" using True assms(1) by linarith
    then show ?thesis using fragment_of_last [of "e_ChecksumEnabled env" h p k bs] by (simp add: is_fragment_def c(2))
  next
    case False
    then have "unat (of_nat k :: u16) \<noteq> 0" using r assms(4) unat_of_nat_u16 [of k] by linarith
    then have "(of_nat k :: u16) \<noteq> 0" by auto
    then show ?thesis using assms(5) by (simp add: is_fragment_def c(2))
  qed
qed

lemma arrivals_of_map:
  assumes "map snd (arrivals es) = map f xs"
  shows "\<exists>ys. es = map (map_rx_event f) ys \<and> map snd (arrivals ys) = xs"
  using assms
proof (induction es arbitrary: xs rule: arrivals.induct)
  case (2 now x es)
  then obtain y xs' where xs: "xs = y # xs'" "x = f y" "map snd (arrivals es) = map f xs'" by (cases xs) auto
  from "2.IH" [OF xs(3)] obtain ys where "es = map (map_rx_event f) ys \<and> map snd (arrivals ys) = xs'" by blast
  then show ?case by (intro exI [of _ "Arrives now y # ys"]) (simp add: xs)
next
  case (3 now uid es)
  then obtain ys where "es = map (map_rx_event f) ys \<and> map snd (arrivals ys) = xs" by auto
  then show ?case by (intro exI [of _ "TimeoutRuns now uid # ys"]) simp
qed simp

lemma arrivals_of_parts:
  assumes "mset (map snd (arrivals es)) = mset (map f xs)"
  obtains ys where "es = map (map_rx_event f) ys" and "mset (map snd (arrivals ys)) = mset xs"
  using mset_map_order [OF assms] arrivals_of_map [of es f] by metis

text \<open>What the fragment handling of the receiver lets out, for a datagram that was sent whole or in fragments.\<close>

lemma parts_received:
  assumes "proper env (p, h)" and "h_headerSize h = 20" and "h_fragmentOffset h = 0" and "Ipv4Header_IsLastFragment h"
    and "28 \<le> mtu" and "mtu \<le> 65535" and "mset (map snd (arrivals ys)) = mset (datagram_parts env mtu p h)"
    and "ra_fragments r (fragment_key_of h) = None" and "entries_ok r" and "in_time (ra_expiration r) ys"
  shows "\<exists>q g r'. receive_events j (map (map_rx_event (read_part env)) ys) r = Inr ([(q, g)], r') \<and>
    pk_bytes q = pk_bytes p \<and> pk_tags q = pk_tags p \<and> same_entries r' (fold expire (run_times ys) r) \<and>
    h_source g = h_source h \<and> h_destination g = h_destination h \<and> h_protocol g = h_protocol h \<and>
    h_fragmentOffset g = 0 \<and> h_payloadSize g = h_payloadSize h"
proof (cases "20 + length (pk_bytes p) \<le> mtu")
  case True
  then have "mset (map snd (arrivals ys)) = {#(p, h)#}" using assms(7) by (simp add: datagram_parts_def)
  then obtain now where a: "arrivals ys = [(now, p, h)]" by (cases "arrivals ys") auto
  have sf: "same_fields h (wire_read env (p, h))" using read_frame(2) [OF assms(1)] by simp
  then have "\<not> is_fragment (wire_read env (p, h))" using same_fields_simps [OF sf] assms(3,4) by (simp add: is_fragment_def)
  from receive_whole [OF _ this assms(9), of "map (map_rx_event (read_part env)) ys" now p j] a
  have "receive_events j (map (map_rx_event (read_part env)) ys) r = Inr ([(p, wire_read env (p, h))], fold expire (run_times ys) r)"
    by (simp add: read_part_def)
  then show ?thesis using sf assms(3) by (simp add: same_fields_def same_entries_def)
next
  case False
  let ?parts = "datagram_parts env mtu p h" and ?es = "map (map_rx_event (read_part env)) ys"
  have len: "length (pk_bytes p) \<le> 65535" "h_payloadSize h = of_nat (length (pk_bytes p))" using assms(1) by (simp_all add: proper_def)
  have m: "unat (of_nat mtu :: u32) = mtu" using assms(6) by (simp add: unsigned_of_nat take_bit_nat_eq_self)
  have parts: "DoFragmentation (e_ChecksumEnabled env) (Suc (length (pk_bytes p))) p h (of_nat mtu) = Inr ?parts"
    using DoFragmentation_chunks [OF assms(2) _ len(1), of "of_nat mtu" "Suc (length (pk_bytes p))" "e_ChecksumEnabled env"] m assms(3,5,6) False
    by (simp add: datagram_parts_def)
  have mem: "snd y \<in> set ?parts" if "y \<in> set (arrivals ys)" for y
    using that mset_eq_setD [OF assms(7)] by force
  have pp: "proper env x" "h_destination (snd x) = h_destination h" "h_protocol (snd x) = h_protocol h"
      "h_source (snd x) = h_source h" "is_fragment (snd x)" if "x \<in> set ?parts" for x
    using parts_proper [OF assms(1,5,6,3) that] parts_fragments [OF False assms(5,6) len(1) assms(3) that] by simp_all
  note sf = same_fields_simps [OF read_frame(2) [OF pp(1)]]
  have view: "frag_view (read_part env x) = frag_view x" if "x \<in> set ?parts" for x
    using sf [OF that] by (cases x) (simp add: read_part_def)
  have "map frag_view (map snd (arrivals ?es)) = map frag_view (map snd (arrivals ys))" using view mem by auto
  then have ms: "mset (map frag_view (map snd (arrivals ?es))) = mset (map frag_view ?parts)" using assms(7) by (simp only: mset_map)
  have "is_fragment (wire_read env x)" if "x \<in> set ?parts" for x using sf [OF that] pp(5) [OF that] by (simp add: is_fragment_def)
  then have fr: "\<forall>(now, q, g) \<in> set (arrivals ?es). is_fragment g" using mem by (auto simp: read_part_def)
  have "28 \<le> unat (of_nat mtu :: u32)" "unat (of_nat mtu :: u32) \<le> 65535" using assms(5,6) m by simp_all
  moreover have "in_time (ra_expiration r) ?es" using assms(10) by simp
  ultimately have "\<exists>whole now q g r'. receive_events j ?es r = Inr ([(whole, whole_header g whole)], r') \<and> (now, q, g) \<in> set (arrivals ?es) \<and>
      pk_bytes whole = pk_bytes p \<and> pk_tags whole = pk_tags p \<and> same_entries r' (fold expire (run_times ?es) r)"
    by (intro reassemble_events [OF assms(2,3,4) len(1) _ _ _ parts ms assms(8,9) _ fr]) simp_all
  then obtain whole now q g r' where w: "receive_events j ?es r = Inr ([(whole, whole_header g whole)], r')" "(now, q, g) \<in> set (arrivals ?es)"
      "pk_bytes whole = pk_bytes p" "pk_tags whole = pk_tags p" "same_entries r' (fold expire (run_times ys) r)"
    unfolding run_times_map by blast
  from w(2) obtain x where x: "x \<in> set ?parts" "g = wire_read env x" using mem by (fastforce simp: read_part_def)
  have "ucast (Packet_GetSize whole) = h_payloadSize h" using size16 [of whole] w(3) len by simp
  then have "h_source (whole_header g whole) = h_source h" "h_destination (whole_header g whole) = h_destination h"
    "h_protocol (whole_header g whole) = h_protocol h" "h_fragmentOffset (whole_header g whole) = 0"
    "h_payloadSize (whole_header g whole) = h_payloadSize h"
    using sf [OF x(1)] pp [OF x(1)] by (simp_all add: whole_header_def x(2))
  with w show ?thesis by blast
qed

lemma datagram_crosses:
  assumes "link_out env1 s1 i rt (h_destination h)" and "28 \<le> link_mtu env1 s1 i"
    and "\<forall>(t, d) \<in> set (pk_tags p). t \<noteq> PRIORITY_TAG" and "proper env1 (p, h)"
    and "h_headerSize h = 20" and "h_fragmentOffset h = 0" and "Ipv4Header_IsLastFragment h"
    and "host env2 device j (h_destination h) (h_protocol h) protocol s2" and "e_ChecksumEnabled env2 = e_ChecksumEnabled env1"
    and "L3_GetIcmp env2 s2 = Inr icmp"
    and "ra_fragments (l3_reassembly s2) (fragment_key_of h) = None" and "entries_ok (l3_reassembly s2)"
    and "L3_SendRealOut env1 (Some rt) p h s1 = Inr fx" and "mset (map snd (arrivals es)) = mset (sent_frames fx)"
    and "in_time (ra_expiration (l3_reassembly s2)) es"
  shows "\<exists>fxs r' q g. receive_frames env2 (list_route_input GetInteger rs ms gr) device from es s2 = Inr (fxs, s2\<lparr>l3_reassembly := r'\<rparr>) \<and>
    concat (map handed_up fxs) = [(protocol, q, g, j)] \<and> pk_bytes q = pk_bytes p \<and> pk_tags q = pk_tags p \<and>
    h_source g = h_source h \<and> h_destination g = h_destination h \<and> h_protocol g = h_protocol h \<and>
    h_fragmentOffset g = 0 \<and> h_payloadSize g = h_payloadSize h \<and>
    ra_timeouts r' = still_due (run_times es) (ra_timeouts (l3_reassembly s2)) \<and>
    ra_fragments r' = ra_fragments (l3_reassembly s2) |` (to_key ` set (ra_timeouts r'))"
proof -
  let ?mtu = "link_mtu env1 s1 i" and ?r = "l3_reassembly s2"
  let ?parts = "datagram_parts env2 ?mtu p h"
  have mtu: "?mtu \<le> 65535" using unsigned_less [of "dv_mtu (e_dev env1 (if_device (l3_interfaces s1 ! unat i)))", where 'a = nat]
    by (simp add: link_mtu_def)
  have pr: "proper env2 (p, h)" using assms(4,9) by (simp add: proper_def)
  have len: "length (pk_bytes p) \<le> 65535" using pr by (simp add: proper_def)
  have "sent_frames fx = map frame_of ?parts"
    using SendRealOut_direct [OF assms(1,3,5) _ len assms(2)] assms(6,9,13) by (simp add: datagram_parts_def)
  with assms(14) obtain ys where ys: "es = map (map_rx_event frame_of) ys" "mset (map snd (arrivals ys)) = mset ?parts"
    using arrivals_of_parts [of es frame_of ?parts] by metis
  have "in_time (ra_expiration ?r) ys" using assms(15) by (simp add: ys(1))
  from parts_received [OF pr assms(5-7,2) mtu ys(2) assms(11,12) this, of j]
  obtain q g r' where out: "receive_events j (map (map_rx_event (read_part env2)) ys) ?r = Inr ([(q, g)], r')"
      "pk_bytes q = pk_bytes p" "pk_tags q = pk_tags p" "same_entries r' (fold expire (run_times ys) ?r)"
      "h_source g = h_source h" "h_destination g = h_destination h" "h_protocol g = h_protocol h"
      "h_fragmentOffset g = 0" "h_payloadSize g = h_payloadSize h" by blast
  have "\<forall>(now, x) \<in> set (arrivals ys). proper env2 x \<and> h_destination (snd x) = h_destination h \<and> h_protocol (snd x) = h_protocol h"
    using mset_eq_setD [OF ys(2)] parts_proper [OF pr assms(2) mtu assms(6)] by force
  from receive_frames_events [OF assms(8,10) this out(1), of GetInteger rs ms gr "from"]
  obtain fxs where "receive_frames env2 (list_route_input GetInteger rs ms gr) device from es s2 = Inr (fxs, s2\<lparr>l3_reassembly := r'\<rparr>)"
      "concat (map handed_up fxs) = [(protocol, q, g, j)]" by (auto simp: ys(1))
  moreover have "ra_timeouts r' = still_due (run_times es) (ra_timeouts ?r)"
      "ra_fragments r' = ra_fragments ?r |` (to_key ` set (ra_timeouts r'))"
    using out(4) expire_all [OF assms(12), of "run_times ys"] expire_all_fragments [OF assms(12), of "run_times ys"]
    by (simp_all add: same_entries_def ys(1))
  ultimately show ?thesis using out by blast
qed

section \<open>Properties\<close>

text \<open>
  C28. A datagram crosses a link. Let a node send a datagram of up to 65535 bytes over a direct link
  that takes at least 28, and let the frames arrive, in any order, at a host that has the
  destination on that interface, holds no fragment of the same datagram, and has the transport protocol; each
  less than the expiration time of fragments after the first. Meanwhile \<open>HandleTimeout\<close> may run at any times. Every
  frame and every such call is handled without fault; the protocol is handed exactly one packet, with the bytes and
  tags that were sent and a header with the source, destination, protocol and length of the datagram; and the
  host's state is as before, up to its counter of timeouts and the other datagrams whose time was up.
\<close>

theorem datagram_delivered:
  assumes "link_out env1 s1 i rt (h_destination h)" and "28 \<le> link_mtu env1 s1 i"
    and "\<forall>(t, d) \<in> set (pk_tags p). t \<noteq> PRIORITY_TAG" and "proper env1 (p, h)"
    and "h_headerSize h = 20" and "h_fragmentOffset h = 0" and "Ipv4Header_IsLastFragment h"
    and "host env2 device j (h_destination h) (h_protocol h) protocol s2" and "e_ChecksumEnabled env2 = e_ChecksumEnabled env1"
    and "L3_GetIcmp env2 s2 = Inr icmp"
    and "ra_fragments (l3_reassembly s2) (fragment_key_of h) = None" and "entries_ok (l3_reassembly s2)"
    and "L3_SendRealOut env1 (Some rt) p h s1 = Inr fx" and "mset (map snd (arrivals es)) = mset (sent_frames fx)"
    and "in_time (ra_expiration (l3_reassembly s2)) es"
  shows "\<exists>fxs r' q g. receive_frames env2 (list_route_input GetInteger rs ms gr) device from es s2 = Inr (fxs, s2\<lparr>l3_reassembly := r'\<rparr>) \<and>
    concat (map handed_up fxs) = [(protocol, q, g, j)] \<and> pk_bytes q = pk_bytes p \<and> pk_tags q = pk_tags p \<and>
    h_source g = h_source h \<and> h_destination g = h_destination h \<and> h_protocol g = h_protocol h \<and>
    h_fragmentOffset g = 0 \<and> h_payloadSize g = h_payloadSize h \<and>
    ra_timeouts r' = still_due (run_times es) (ra_timeouts (l3_reassembly s2)) \<and>
    ra_fragments r' = ra_fragments (l3_reassembly s2) |` (to_key ` set (ra_timeouts r'))"
  by (rule datagram_crosses [OF assms])

text \<open>Forty bytes over a link of 44, the second fragment first.\<close>

definition demo_sent :: ipv4_header where
  "demo_sent = demo_ipv4_header\<lparr>h_payloadSize := 40, h_destination := 0x0a010002\<rparr>"

lemma demo_sent_simps:
  "h_headerSize demo_sent = 20" "h_fragmentOffset demo_sent = 0" "h_flags demo_sent = 1" "h_calcChecksum demo_sent"
  "h_payloadSize demo_sent = 40" "h_destination demo_sent = 0x0a010002" "h_protocol demo_sent = 17"
  by (simp_all add: demo_sent_def demo_ipv4_header_simps)
    (simp_all add: demo_ipv4_header_def Ipv4Header_EnableChecksum_def Ipv4Header_SetPayloadSize_def Ipv4Header_SetTtl_def
      Ipv4Header_SetProtocol_def Ipv4Header_SetSource_def Ipv4Header_SetDestination_def Ipv4Header_SetDontFragment_def Ipv4Header_new_def)

lemma demo_host: "host (demo_env mtu) 7 0 0x0a010002 17 17 (demo_l3 0x0a010002)"
  by (simp add: host_def demo_l3_def demo_interface_def iface_accepts_def InterfaceAddress_of_def Ipv4Address_IsMulticast_def
      L3_GetProtocol_on_def demo_env_def)

lemma demo_receiver:
  "ra_fragments (l3_reassembly (demo_l3 a)) = Map.empty" "ra_timeouts (l3_reassembly (demo_l3 a)) = []"
  "ra_expiration (l3_reassembly (demo_l3 a)) = 30" "entries_ok (l3_reassembly (demo_l3 a))"
  "L3_GetIcmp (demo_env mtu) (demo_l3 a) = Inr 1"
  by (simp_all add: demo_l3_def reassembly_new_def entries_ok_def L3_GetIcmp_def L3_GetProtocol_def L3_GetProtocol_on_def demo_env_def)

text \<open>Two frames in the wrong order, with a call of \<open>HandleTimeout\<close> between them and one when the first would be due.\<close>

fun demo_events :: "packet list \<Rightarrow> packet rx_event list" where
  "demo_events [x, y] = [Arrives 9 y, TimeoutRuns 20 1, Arrives 38 x, TimeoutRuns 39 2]"
| "demo_events xs = map (Arrives 9) xs"

lemma demo_events_in_time:
  assumes "length xs = 2"
  shows "mset (map snd (arrivals (demo_events xs))) = mset xs" and "in_time 30 (demo_events xs)"
proof -
  obtain x y where "xs = [x, y]" using assms by (auto simp: length_Suc_conv numeral_2_eq_2)
  then show "mset (map snd (arrivals (demo_events xs))) = mset xs" "in_time 30 (demo_events xs)"
    by (simp_all add: in_time_def)
qed

theorem datagram_delivered_witness:
  "\<exists>fx fxs s' q g. L3_SendRealOut (demo_env 44) (Some demo_route) demo_payload demo_sent (demo_l3 0x0a010001) = Inr fx \<and>
    length (sent_frames fx) = 2 \<and>
    receive_frames (demo_env 44) (list_route_input (\<lambda>a b. a) [] [] GlobalRouting_new) 7 [] (demo_events (sent_frames fx))
      (demo_l3 0x0a010002) = Inr (fxs, s') \<and>
    concat (map handed_up fxs) = [(17, q, g, 0)] \<and> pk_bytes q = replicate 40 0x5a"
proof -
  let ?env = "demo_env 44" and ?s1 = "demo_l3 0x0a010001" and ?s2 = "demo_l3 0x0a010002"
  have p: "pk_tags demo_payload = []" "length (pk_bytes demo_payload) = 40" by (simp_all add: demo_payload_def)
  have csum: "e_ChecksumEnabled ?env" by (simp add: demo_env_def)
  have pr: "proper ?env (demo_payload, demo_sent)"
    by (simp add: proper_def wire_header_def demo_sent_simps p bit_simps)
  have last: "Ipv4Header_IsLastFragment demo_sent" by (simp add: Ipv4Header_IsLastFragment_def demo_sent_simps MORE_FRAGMENTS_def)
  obtain fx where fx: "L3_SendRealOut ?env (Some demo_route) demo_payload demo_sent ?s1 = Inr fx"
      "sent_frames fx = map frame_of (map (fragment_of True demo_sent demo_payload) (mtu_chunks 44 (pk_bytes demo_payload)))"
    using SendRealOut_direct [OF demo_link(1) [of 44], of demo_payload demo_sent]
    by (auto simp: demo_link demo_sent_simps p csum)
  have two: "length (sent_frames fx) = 2"
    unfolding fx(2) by (simp add: mtu_chunks_def demo_payload_def chunks.simps)
  have host: "host ?env 7 0 (h_destination demo_sent) (h_protocol demo_sent) 17 ?s2" using demo_host by (simp add: demo_sent_simps)
  have none: "ra_fragments (l3_reassembly ?s2) (fragment_key_of demo_sent) = None" by (simp add: demo_receiver)
  have time: "in_time (ra_expiration (l3_reassembly ?s2)) (demo_events (sent_frames fx))"
    using demo_events_in_time(2) [OF two] by (simp add: demo_receiver)
  from datagram_delivered [OF demo_link(1) _ _ pr demo_sent_simps(1,2) last host refl demo_receiver(5) none demo_receiver(4) fx(1)
      demo_events_in_time(1) [OF two] time, of "\<lambda>a b. a" "[]" "[]" GlobalRouting_new "[]"]
  obtain fxs s' q g where "receive_frames ?env (list_route_input (\<lambda>a b. a) [] [] GlobalRouting_new) 7 []
      (demo_events (sent_frames fx)) ?s2 = Inr (fxs, s')"
      "concat (map handed_up fxs) = [(17, q, g, 0)]" "pk_bytes q = pk_bytes demo_payload"
    by (auto simp: demo_link p)
  then show ?thesis using fx(1) two by (auto simp: demo_payload_def)
qed

end
