(* ===== verification/Udp_Delivery.thy ===== *)
theory Udp_Delivery
  imports Udp_Socket Ipv4_Delivery
begin

text \<open>
  From socket to socket: what a program writes to a UDP socket goes through the UDP and IP layers of its
  node, over a link, up the layers of the other node and into the queue of the socket that is bound there.
\<close>

section \<open>The sender\<close>

text \<open>A socket that sends plainly: bound to a port and to no address, open, with no option set.\<close>

definition plain_sender :: "nat \<Rightarrow> u16 \<Rightarrow> udp \<Rightarrow> bool" where
  "plain_sender sk sport u \<longleftrightarrow>
     (\<exists>s e. udp_store u sk = Some s \<and> sk_endPoint s \<noteq> 0 \<and> Demux_get (sk_endPoint s) (udp_endPoints u) = Some e \<and>
       ep_localAddr e = Ipv4Address_GetAny \<and> ep_localPort e = sport \<and> \<not> sk_shutdownSend s \<and> sk_boundnetdevice s = 0 \<and>
       sk_priority s = 0 \<and> sk_ipTtl s = 0)"

text \<open>The packet that goes down: the mark of the \<open>MtuDiscover\<close> option, and the UDP header in front.\<close>

lemma tag_outgoing_plain:
  assumes "sk_priority s = 0" and "sk_ipTtl s = 0" and "\<not> Ipv4Address_IsMulticast dest" and "pk_tags p = []"
  shows "tag_outgoing s dest 0 p =
    Inr (p\<lparr>pk_tags := [(DONT_FRAGMENT_TAG, SocketSetDontFragmentTag_Serialize (sk_mtuDiscover s))]\<rparr>)"
  using assms by (simp add: tag_outgoing_def PacketTagList_Remove_def PacketTagList_Add_def)

lemma Udp_Send_total:
  assumes "length (pk_bytes p) \<le> 65507"
  shows "\<exists>hb. UdpHeader_Serialize (udp_send_header csum src dst sport dport) (pk_bytes p) = Inr hb \<and> length hb = 8 \<and>
    Udp_Send csum p src dst sport dport route = Inr (UdpDown (Packet_AddHeader hb p) src dst PROT_NUMBER route)"
proof -
  have "u_checksum (udp_send_header csum src dst sport dport) = 0"
    by (simp add: udp_send_header_def UdpHeader_SetSourcePort_def UdpHeader_SetDestinationPort_def
        UdpHeader_InitializeChecksum_def UdpHeader_EnableChecksums_def UdpHeader_new_def)
  from Serialize_udp [OF this, of "pk_bytes p"] assms show ?thesis by (auto simp: Udp_Send_def)
qed

lemma SendTo_plain:
  assumes "plain_sender sk sport u" and "pk_tags p = []" and "length (pk_bytes p) \<le> 65507"
    and "\<not> Ipv4Address_IsMulticast dst" and "\<not> Ipv4Address_IsBroadcast dst" and "l3_routing ip"
    and "\<forall>q h. RouteOutput q h 0 = Inr (Some (rt, True), err)"
    and "L3_interface (iface_u32 (L3_GetInterfaceForDevice (rt_device rt) ip)) ip = Inr out"
    and "\<forall>a \<in> set (if_addrs out). ia_broadcast a \<noteq> dst"
  shows "\<exists>tag hb q fx. UdpHeader_Serialize (udp_send_header csum (rt_source rt) dst sport dport) (pk_bytes p) = Inr hb \<and> length hb = 8 \<and>
    UdpSocket_SendTo csum ip RouteOutput sk p (InetSocketAddress dst dport 0) u =
      Inr (int (length (pk_bytes p)), p\<lparr>pk_tags := [(DONT_FRAGMENT_TAG, tag)]\<rparr>, u,
           UdpDown q (rt_source rt) dst PROT_NUMBER (Some (rt, True)) # fx) \<and>
    q = p\<lparr>pk_tags := [(DONT_FRAGMENT_TAG, tag)], pk_bytes := hb @ pk_bytes p\<rparr>"
proof -
  from assms(1) obtain s e where s: "udp_store u sk = Some s" "sk_endPoint s \<noteq> 0" "Demux_get (sk_endPoint s) (udp_endPoints u) = Some e"
      "ep_localAddr e = Ipv4Address_GetAny" "ep_localPort e = sport" "\<not> sk_shutdownSend s" "sk_boundnetdevice s = 0"
      "sk_priority s = 0" "sk_ipTtl s = 0"
    by (auto simp: plain_sender_def)
  let ?tag = "SocketSetDontFragmentTag_Serialize (sk_mtuDiscover s)"
  let ?p = "p\<lparr>pk_tags := [(DONT_FRAGMENT_TAG, ?tag)]\<rparr>"
  have bytes: "pk_bytes ?p = pk_bytes p" by simp
  obtain hb where hb: "UdpHeader_Serialize (udp_send_header csum (rt_source rt) dst sport dport) (pk_bytes p) = Inr hb" "length hb = 8"
      "Udp_Send csum ?p (rt_source rt) dst sport dport (Some (rt, True)) =
        Inr (UdpDown (Packet_AddHeader hb ?p) (rt_source rt) dst PROT_NUMBER (Some (rt, True)))"
    using Udp_Send_total [of ?p csum "rt_source rt" dst sport dport "Some (rt, True)"] assms(3) unfolding bytes by blast
  have sz: "\<not> UdpSocket_GetTxAvailable < Packet_GetSize p" "uint (Packet_GetSize ?p) = int (length (pk_bytes p))"
    using assms(3) by (simp_all add: UdpSocket_GetTxAvailable_def Packet_GetSize_def word_less_nat_alt unsigned_of_nat take_bit_nat_eq_self
        uint_nat)
  have nb: "\<not> list_ex (\<lambda>a. dst = ia_broadcast a) (if_addrs out)" using assms(9) by (auto simp: list_ex_iff)
  have send: "send_bound csum ip RouteOutput sk ?p dst dport u =
      Inr (int (length (pk_bytes p)), ?p, u,
        [UdpDown (Packet_AddHeader hb ?p) (rt_source rt) dst PROT_NUMBER (Some (rt, True)), NotifyDataSent sk (Packet_GetSize ?p)])"
    using s assms(5-8) nb hb(3) sz(2)
    by (simp add: send_bound_def get_socket_def get_endPoint_def Packet_Copy_def)
  have "UdpSocket_SendTo csum ip RouteOutput sk p (InetSocketAddress dst dport 0) u = send_bound csum ip RouteOutput sk ?p dst dport u"
    using s sz(1) tag_outgoing_plain [OF s(8,9) assms(4,2)]
    by (simp add: UdpSocket_SendTo_def UdpSocket_DoSendTo_def ensure_bound_def get_socket_def)
  with send hb show ?thesis by (auto simp: Packet_AddHeader_def)
qed

section \<open>Through the IP layer\<close>

lemma tag_absent:
  "list_all (\<lambda>(t, d). t \<noteq> tid) (pk_tags p) \<Longrightarrow> PacketTagList_Remove tid des p = Inr (None, p)"
proof -
  assume "list_all (\<lambda>(t, d). t \<noteq> tid) (pk_tags p)"
  then have "List.find (\<lambda>(t, d). t = tid) (pk_tags p) = None" by (auto simp: find_None_iff list_all_iff)
  then show ?thesis by (simp add: PacketTagList_Remove_def)
qed

lemma tags_differ:
  "DONT_FRAGMENT_TAG \<noteq> IP_TTL_TAG" "DONT_FRAGMENT_TAG \<noteq> IP_TOS_TAG" "DONT_FRAGMENT_TAG \<noteq> PRIORITY_TAG"
  by (simp_all add: DONT_FRAGMENT_TAG_def IP_TTL_TAG_def IP_TOS_TAG_def PRIORITY_TAG_def)

lemma Send_plain:
  assumes "pk_tags q = [(DONT_FRAGMENT_TAG, tag)]" and "link_out env s i rt dst" and "28 \<le> link_mtu env s i"
    and "length (pk_bytes q) \<le> 65535" and "\<not> Ipv4Address_IsMulticast dst"
  shows "\<exists>h fx0 fx s'. L3_Send env RouteOutput q src dst number (Some (rt, True)) s = Inr (fx0 # fx, s') \<and> sent_frames [fx0] = [] \<and>
    L3_SendRealOut env (Some rt) q h s' = Inr fx \<and> link_out env s' i rt dst \<and> link_mtu env s' i = link_mtu env s i \<and>
    proper env (q, h) \<and> h_headerSize h = 20 \<and> h_fragmentOffset h = 0 \<and> Ipv4Header_IsLastFragment h \<and>
    h_source h = src \<and> h_destination h = dst \<and> h_protocol h = number \<and>
    h_identification h = l3_identification s (ident_key src dst number)"
proof -
  have t: "PacketTagList_Remove IP_TTL_TAG SocketIpTtlTag_Deserialize q = Inr (None, q)"
    "PacketTagList_Remove IP_TOS_TAG SocketIpTosTag_Deserialize q = Inr (None, q)"
    using assms(1) tags_differ by (intro tag_absent, simp)+
  define h where "h = fst (L3_BuildHeader env src dst number (ucast (Packet_GetSize q)) (l3_defaultTtl s) 0 True s)"
  define s1 where "s1 = snd (L3_BuildHeader env src dst number (ucast (Packet_GetSize q)) (l3_defaultTtl s) 0 True s)"
  have hb: "L3_send_header env q src dst number s = Inr (q, h, s1)"
    by (simp add: L3_send_header_def t h_def s1_def split: prod.splits)
  note defs = L3_BuildHeader_def Let_def Ipv4Header_SetTos_def Ipv4Header_SetTtl_def Ipv4Header_SetPayloadSize_def
    Ipv4Header_SetProtocol_def Ipv4Header_SetDestination_def Ipv4Header_SetSource_def Ipv4Header_SetMayFragment_def
    Ipv4Header_SetIdentification_def Ipv4Header_EnableChecksum_def Ipv4Header_new_def
  have h: "h_headerSize h = 20" "h_fragmentOffset h = 0" "h_flags h = 0" "h_source h = src" "h_destination h = dst"
    "h_protocol h = number" "h_payloadSize h = ucast (Packet_GetSize q)" "e_ChecksumEnabled env \<longrightarrow> h_calcChecksum h"
    "h_identification h = l3_identification s (ident_key src dst number)"
    by (simp_all add: h_def defs)
  have s1: "l3_reverse s1 = l3_reverse s" "l3_interfaces s1 = l3_interfaces s" "l3_enableDpd s1 = l3_enableDpd s"
    by (simp_all add: s1_def L3_BuildHeader_def Let_def)
  have lo: "link_out env s1 i rt dst" "link_mtu env s1 i = link_mtu env s i"
    using assms(2) by (simp_all add: link_out_def link_mtu_def s1)
  have np: "\<forall>(t, d) \<in> set (pk_tags q). t \<noteq> PRIORITY_TAG" using assms(1) tags_differ by simp
  obtain fx where fx: "L3_SendRealOut env (Some rt) q h s1 = Inr fx"
    using SendRealOut_direct [of env s1 i rt h q] lo np h(1,2,5) assms(3,4) by auto
  have pr: "proper env (q, h)"
    using h assms(4) size16 [OF assms(4)] by (simp add: proper_def wire_header_def)
  have "Ipv4Header_IsLastFragment h" by (simp add: Ipv4Header_IsLastFragment_def h(3))
  moreover have "\<exists>fx0. L3_Send env RouteOutput q src dst number (Some (rt, True)) s = Inr (fx0 # fx, s1) \<and> sent_frames [fx0] = []"
    using hb fx assms(5) h(5) by (simp add: L3_Send_def L3_Send_route_def)
  ultimately show ?thesis using fx lo pr h by blast
qed

section \<open>The receiver\<close>

text \<open>A socket that the lookup finds for a datagram, open, with no option set and with room for \<open>n\<close> bytes.\<close>

definition plain_receiver :: "nat \<Rightarrow> ipv4_interface \<Rightarrow> ipv4 \<Rightarrow> u16 \<Rightarrow> ipv4 \<Rightarrow> u16 \<Rightarrow> nat \<Rightarrow> udp \<Rightarrow> bool" where
  "plain_receiver sk ifc dst dport src sport n u \<longleftrightarrow>
     (\<exists>b e s. Demux_Lookup dst dport src sport ifc (udp_endPoints u) = Inr [(b, e)] \<and> ep_rxCallback e = sk \<and> sk \<noteq> 0 \<and>
       udp_store u sk = Some s \<and> \<not> sk_shutdownRecv s \<and> \<not> sk_recvPktInfo s \<and> \<not> sk_ipRecvTos s \<and> \<not> sk_ipRecvTtl s \<and>
       unat (sk_rxAvailable s) + n \<le> unat (sk_rcvBufSize s))"

text \<open>The socket after one more packet.\<close>

definition sk_push :: "packet \<times> ipv4 \<times> u16 \<Rightarrow> udp_socket \<Rightarrow> udp_socket" where
  "sk_push x s = s\<lparr>sk_deliveryQueue := sk_deliveryQueue s @ [x], sk_rxAvailable := sk_rxAvailable s + Packet_GetSize (fst x)\<rparr>"

lemma udp_header_read:
  assumes "UdpHeader_Serialize (udp_send_header csum src dst sport dport) payload = Inr hb" and "length payload \<le> 65507"
    and "u_calcChecksum h0 = csum" and "u_pseudo h0 = Some (src, dst, PROT_NUMBER)" and "UdpHeader_IsChecksumOk h0"
  shows "\<exists>h. UdpHeader_Deserialize h0 (hb @ payload) = Inr (h, 8) \<and> u_sourcePort h = sport \<and> u_destinationPort h = dport \<and>
    UdpHeader_IsChecksumOk h \<and> u_calcChecksum h = csum \<and> u_pseudo h = Some (src, dst, PROT_NUMBER)"
proof -
  let ?h = "udp_send_header csum src dst sport dport" and ?n = "8 + length payload"
  have h: "u_checksum ?h = 0" "u_sourcePort ?h = sport" "u_destinationPort ?h = dport" "u_calcChecksum ?h = csum"
    "csum \<longrightarrow> u_pseudo ?h = Some (src, dst, PROT_NUMBER)"
    by (simp_all add: udp_send_header_def UdpHeader_SetSourcePort_def UdpHeader_SetDestinationPort_def
        UdpHeader_InitializeChecksum_def UdpHeader_EnableChecksums_def UdpHeader_new_def)
  obtain c where c: "hb = udp_front ?h ?n @ WriteU16 c"
      "csum \<longrightarrow> udp_sum_ok (Some (src, dst, PROT_NUMBER)) (udp_front ?h ?n @ WriteU16 c @ payload)"
    using Serialize_udp [OF h(1), of payload] assms(1,2) h(4,5) by auto
  have "UdpHeader_Deserialize h0 (hb @ payload) = Inr (udp_read h0 (hb @ payload), 8)"
    by (rule Deserialize_udp) (use assms(2) c(1) in simp_all)
  moreover have "udp_read h0 (hb @ payload) = udp_read h0 (udp_front ?h ?n @ WriteU16 c @ payload)" by (simp add: c(1))
  ultimately show ?thesis
    using c(2) assms(3-5) h(2,3) by (simp add: udp_read_front UdpHeader_IsChecksumOk_def)
qed

lemma ForwardUp_plain:
  assumes "udp_store u sk = Some s" and "\<not> sk_shutdownRecv s" and "\<not> sk_recvPktInfo s" and "\<not> sk_ipRecvTos s" and "\<not> sk_ipRecvTtl s"
    and "list_all (\<lambda>(t, d). t \<noteq> PRIORITY_TAG) (pk_tags p)" and "length (pk_bytes p) \<le> 65535"
    and "unat (sk_rxAvailable s) + length (pk_bytes p) < 2 ^ 32"
  shows "UdpSocket_ForwardUp GetIfIndex sk p h port ifc u =
    Inr (if unat (sk_rxAvailable s) + length (pk_bytes p) \<le> unat (sk_rcvBufSize s)
         then (set_socket sk (sk_push (p, h_source h, port) s) u, [NotifyDataRecv sk]) else (u, [UdpDropped sk p]))"
proof -
  have "tag_incoming GetIfIndex s h ifc p = Inr p"
    using assms(3-5) tag_absent [OF assms(6), of SocketPriorityTag_Deserialize] by (simp add: tag_incoming_def)
  moreover have "unat (Packet_GetSize p) = length (pk_bytes p)"
    using assms(7) by (simp add: Packet_GetSize_def unsigned_of_nat take_bit_nat_eq_self)
  then have "unat (sk_rxAvailable s + Packet_GetSize p) = unat (sk_rxAvailable s) + length (pk_bytes p)"
    using assms(8) by (subst unat_add_nowrap) simp_all
  ultimately show ?thesis
    using assms(1,2) by (simp add: UdpSocket_ForwardUp_def get_socket_def word_le_nat_alt sk_push_def)
qed

lemma Receive_plain:
  assumes "pk_bytes q = hb @ payload" and "UdpHeader_Serialize (udp_send_header csum src dst sport dport) payload = Inr hb"
    and "length hb = 8" and "length payload \<le> 65507" and "h_source g = src" and "h_destination g = dst"
    and "list_all (\<lambda>(t, d). t \<noteq> PRIORITY_TAG) (pk_tags q)" and "plain_receiver sk ifc dst dport src sport (length payload) u"
  shows "\<exists>s. udp_store u sk = Some s \<and> Udp_Receive csum GetIfIndex Receive6 q g ifc u =
    Inr (RX_OK, set_socket sk (sk_push (q\<lparr>pk_bytes := payload\<rparr>, src, sport) s) u, [NotifyDataRecv sk])"
proof -
  from assms(8) obtain b e s where r: "Demux_Lookup dst dport src sport ifc (udp_endPoints u) = Inr [(b, e)]" "ep_rxCallback e = sk"
      "sk \<noteq> 0" "udp_store u sk = Some s" "\<not> sk_shutdownRecv s" "\<not> sk_recvPktInfo s" "\<not> sk_ipRecvTos s" "\<not> sk_ipRecvTtl s"
      "unat (sk_rxAvailable s) + length payload \<le> unat (sk_rcvBufSize s)"
    unfolding plain_receiver_def by blast
  let ?h0 = "UdpHeader_InitializeChecksum src dst PROT_NUMBER (if csum then UdpHeader_EnableChecksums UdpHeader_new else UdpHeader_new)"
  have h0: "u_calcChecksum ?h0 = csum" "u_pseudo ?h0 = Some (src, dst, PROT_NUMBER)" "UdpHeader_IsChecksumOk ?h0"
    by (simp_all add: UdpHeader_InitializeChecksum_def UdpHeader_EnableChecksums_def UdpHeader_new_def UdpHeader_IsChecksumOk_def)
  obtain h1 where h1: "UdpHeader_Deserialize ?h0 (hb @ payload) = Inr (h1, 8)" "u_sourcePort h1 = sport" "u_destinationPort h1 = dport"
      "UdpHeader_IsChecksumOk h1" "u_calcChecksum h1 = csum" "u_pseudo h1 = Some (src, dst, PROT_NUMBER)"
    using udp_header_read [OF assms(2,4) h0] by blast
  obtain h2 where h2: "UdpHeader_Deserialize h1 (hb @ payload) = Inr (h2, 8)" "u_sourcePort h2 = sport"
    using udp_header_read [OF assms(2,4) h1(5,6,4)] by blast
  let ?p = "q\<lparr>pk_bytes := payload\<rparr>"
  have "unat (sk_rxAvailable s) + length (pk_bytes ?p) < 2 ^ 32"
    using le_less_trans [OF r(9) unat_u32_lt] by simp
  then have up: "UdpSocket_ForwardUp GetIfIndex sk ?p g sport ifc u = Inr (set_socket sk (sk_push (?p, src, sport) s) u, [NotifyDataRecv sk])"
    using ForwardUp_plain [OF r(4-8), of ?p GetIfIndex g sport ifc] assms(4,5,7) r(9) by simp
  have "Udp_Receive csum GetIfIndex Receive6 q g ifc u =
      Inr (RX_OK, set_socket sk (sk_push (?p, src, sport) s) u, [NotifyDataRecv sk])"
    using h1 h2 r(1-3) up assms(1,3,5,6)
    by (simp add: Udp_Receive_def Packet_PeekHeader_def Packet_RemoveHeader_def EndPoint_ForwardUp_def Packet_Copy_def)
  with r(4) show ?thesis by blast
qed

text \<open>The frames of a datagram arrive at the host, UDP takes the packet, and the socket's owner reads it.\<close>

lemma frames_to_socket:
  assumes sent: "L3_SendRealOut env1 (Some rt) q h s1 = Inr fx" "mset (map snd (arrivals es)) = mset (sent_frames fx)"
      "in_time (ra_expiration (l3_reassembly s2)) es"
    and link: "link_out env1 s1 i rt dst" "28 \<le> link_mtu env1 s1 i" "e_ChecksumEnabled env2 = e_ChecksumEnabled env1"
    and q: "UdpHeader_Serialize (udp_send_header (e_ChecksumEnabled env1) (h_source h) dst sport dport) payload = Inr hb" "length hb = 8"
      "length payload \<le> 65507" "pk_bytes q = hb @ payload" "\<forall>(t, d) \<in> set (pk_tags q). t \<noteq> PRIORITY_TAG"
    and h: "proper env1 (q, h)" "h_headerSize h = 20" "h_fragmentOffset h = 0" "Ipv4Header_IsLastFragment h"
      "h_destination h = dst" "h_protocol h = PROT_NUMBER"
    and host: "host env2 device j dst PROT_NUMBER protocol s2" "ra_fragments (l3_reassembly s2) = Map.empty" "ra_timeouts (l3_reassembly s2) = []"
      "L3_GetIcmp env2 s2 = Inr icmp"
    and recv: "plain_receiver sk2 (l3_interfaces s2 ! unat j) dst dport (h_source h) sport (length payload) u2"
      "\<forall>s. udp_store u2 sk2 = Some s \<longrightarrow> sk_deliveryQueue s = []"
  shows "\<exists>fxs s2' q2 g u2' u2'' r. receive_frames env2 (list_route_input GetInteger rs ms gr) device from es s2 = Inr (fxs, s2') \<and>
    concat (map handed_up fxs) = [(protocol, q2, g, j)] \<and>
    Udp_Receive (e_ChecksumEnabled env2) GetIfIndex Receive6 q2 g (l3_interfaces s2 ! unat j) u2 = Inr (RX_OK, u2', [NotifyDataRecv sk2]) \<and>
    UdpSocket_RecvFrom sk2 (of_nat (length payload)) u2' = Inr (Some r, Some (h_source h, sport), u2'') \<and> pk_bytes r = payload"
proof -
  have "\<exists>fxs r' q2 g. receive_frames env2 (list_route_input GetInteger rs ms gr) device from es s2 = Inr (fxs, s2\<lparr>l3_reassembly := r'\<rparr>) \<and>
      concat (map handed_up fxs) = [(protocol, q2, g, j)] \<and> pk_bytes q2 = pk_bytes q \<and> pk_tags q2 = pk_tags q \<and>
      h_source g = h_source h \<and> h_destination g = h_destination h \<and> h_protocol g = h_protocol h \<and>
      h_fragmentOffset g = 0 \<and> h_payloadSize g = h_payloadSize h \<and>
      ra_timeouts r' = still_due (run_times es) (ra_timeouts (l3_reassembly s2)) \<and>
      ra_fragments r' = ra_fragments (l3_reassembly s2) |` (to_key ` set (ra_timeouts r'))"
    by (rule datagram_crosses [OF _ link(2) q(5) h(1-4) _ link(3) host(4) _ _ sent]) (use link(1) h(5,6) host in \<open>simp_all add: entries_ok_def\<close>)
  then obtain fxs r' q2 g where d: "receive_frames env2 (list_route_input GetInteger rs ms gr) device from es s2 = Inr (fxs, s2\<lparr>l3_reassembly := r'\<rparr>)"
      "concat (map handed_up fxs) = [(protocol, q2, g, j)]" "pk_bytes q2 = hb @ payload" "pk_tags q2 = pk_tags q"
      "h_source g = h_source h" "h_destination g = dst"
    using q(4) h(5) by auto
  have nt: "list_all (\<lambda>(t, d). t \<noteq> PRIORITY_TAG) (pk_tags q2)" using d(4) q(5) by (simp add: list_all_iff)
  obtain s where s: "udp_store u2 sk2 = Some s"
      "Udp_Receive (e_ChecksumEnabled env1) GetIfIndex Receive6 q2 g (l3_interfaces s2 ! unat j) u2 =
        Inr (RX_OK, set_socket sk2 (sk_push (q2\<lparr>pk_bytes := payload\<rparr>, h_source h, sport) s) u2, [NotifyDataRecv sk2])"
    using Receive_plain [OF d(3) q(1-3) d(5,6) nt recv(1)] by blast
  have "sk_deliveryQueue s = []" using recv(2) s(1) by blast
  then have "\<exists>u'. UdpSocket_RecvFrom sk2 (of_nat (length payload)) (set_socket sk2 (sk_push (q2\<lparr>pk_bytes := payload\<rparr>, h_source h, sport) s) u2) =
      Inr (Some (q2\<lparr>pk_bytes := payload\<rparr>), Some (h_source h, sport), u')"
    by (simp add: UdpSocket_RecvFrom_def get_socket_def set_socket_def sk_push_def Packet_GetSize_def)
  with d(1,2) s(2) link(3) show ?thesis by fastforce
qed

section \<open>Properties\<close>

text \<open>
  C35. What is written to a socket is read from the other. Let a program send up to 65507 bytes on a plain
  bound socket to an address that its node has a route to over a direct link, and let the frames arrive
  in any order, each less than the expiration time of fragments after the first, at the host that has that
  address, whose UDP has a plain socket for the datagram with room in its buffer; meanwhile \<open>HandleTimeout\<close>
  of the host may run at any times. Then \<open>SendTo\<close> returns the number of bytes; the IP layer sends the frames; the host hands
  UDP one packet; UDP accepts it and notifies the socket; and if the socket's queue was empty, reading it
  gives the bytes that were written, with the address and the port of the sender.
\<close>

theorem socket_to_socket:
  assumes "plain_sender sk1 sport u1" and "pk_tags p = []" and "length (pk_bytes p) \<le> 65507"
    and "\<not> Ipv4Address_IsMulticast dst" and "\<not> Ipv4Address_IsBroadcast dst" and "l3_routing s1"
    and "\<forall>q h. RouteOutput q h 0 = Inr (Some (rt, True), err)"
    and "link_out env1 s1 i rt dst" and "28 \<le> link_mtu env1 s1 i"
    and "\<forall>a \<in> set (if_addrs (l3_interfaces s1 ! unat i)). ia_broadcast a \<noteq> dst"
    and "host env2 device j dst PROT_NUMBER protocol s2" and "e_ChecksumEnabled env2 = e_ChecksumEnabled env1"
    and "ra_fragments (l3_reassembly s2) = Map.empty" and "ra_timeouts (l3_reassembly s2) = []" and "L3_GetIcmp env2 s2 = Inr icmp"
    and "plain_receiver sk2 (l3_interfaces s2 ! unat j) dst dport (rt_source rt) sport (length (pk_bytes p)) u2"
    and "\<forall>s. udp_store u2 sk2 = Some s \<longrightarrow> sk_deliveryQueue s = []"
  shows "\<exists>p1 q fx1 fx2 s1'. UdpSocket_SendTo (e_ChecksumEnabled env1) s1 RouteOutput sk1 p (InetSocketAddress dst dport 0) u1 =
      Inr (int (length (pk_bytes p)), p1, u1, UdpDown q (rt_source rt) dst PROT_NUMBER (Some (rt, True)) # fx1) \<and>
    L3_Send env1 RO q (rt_source rt) dst PROT_NUMBER (Some (rt, True)) s1 = Inr (fx2, s1') \<and>
    (\<forall>es. mset (map snd (arrivals es)) = mset (sent_frames fx2) \<and> in_time (ra_expiration (l3_reassembly s2)) es \<longrightarrow>
      (\<exists>fxs s2' q2 g u2' u2'' r. receive_frames env2 (list_route_input GetInteger rs ms gr) device from es s2 = Inr (fxs, s2') \<and>
        concat (map handed_up fxs) = [(protocol, q2, g, j)] \<and>
        Udp_Receive (e_ChecksumEnabled env2) GetIfIndex Receive6 q2 g (l3_interfaces s2 ! unat j) u2 = Inr (RX_OK, u2', [NotifyDataRecv sk2]) \<and>
        UdpSocket_RecvFrom sk2 (of_nat (length (pk_bytes p))) u2' = Inr (Some r, Some (rt_source rt, sport), u2'') \<and>
        pk_bytes r = pk_bytes p))"
proof -
  let ?csum = "e_ChecksumEnabled env1" and ?src = "rt_source rt" and ?out = "l3_interfaces s1 ! unat i"
  have out: "L3_interface (iface_u32 (L3_GetInterfaceForDevice (rt_device rt) s1)) s1 = Inr ?out"
    using assms(8) by (simp add: L3_interface_def L3_GetInterfaceForDevice_def iface_u32_def link_out_def)
  obtain tag hb q fx1 where q: "UdpHeader_Serialize (udp_send_header ?csum ?src dst sport dport) (pk_bytes p) = Inr hb" "length hb = 8"
      "UdpSocket_SendTo ?csum s1 RouteOutput sk1 p (InetSocketAddress dst dport 0) u1 =
        Inr (int (length (pk_bytes p)), p\<lparr>pk_tags := [(DONT_FRAGMENT_TAG, tag)]\<rparr>, u1, UdpDown q ?src dst PROT_NUMBER (Some (rt, True)) # fx1)"
      "q = p\<lparr>pk_tags := [(DONT_FRAGMENT_TAG, tag)], pk_bytes := hb @ pk_bytes p\<rparr>"
    using SendTo_plain [where RouteOutput = RouteOutput, OF assms(1-7) out assms(10), of ?csum dport] by blast
  have qt: "pk_tags q = [(DONT_FRAGMENT_TAG, tag)]" "pk_bytes q = hb @ pk_bytes p" "length (pk_bytes q) \<le> 65535"
    using q(2) assms(3) by (simp_all add: q(4))
  obtain h fx0 fx s1' where sent: "L3_Send env1 RO q ?src dst PROT_NUMBER (Some (rt, True)) s1 = Inr (fx0 # fx, s1')" "sent_frames [fx0] = []"
      "L3_SendRealOut env1 (Some rt) q h s1' = Inr fx" "link_out env1 s1' i rt dst" "link_mtu env1 s1' i = link_mtu env1 s1 i"
      "proper env1 (q, h)" "h_headerSize h = 20" "h_fragmentOffset h = 0" "Ipv4Header_IsLastFragment h"
      "h_source h = ?src" "h_destination h = dst" "h_protocol h = PROT_NUMBER"
    using Send_plain [OF qt(1) assms(8,9) qt(3) assms(4), of RO ?src PROT_NUMBER] by blast
  have np: "\<forall>(t, d) \<in> set (pk_tags q). t \<noteq> PRIORITY_TAG" using qt(1) tags_differ by simp
  have mtu: "28 \<le> link_mtu env1 s1' i" using assms(9) by (simp only: sent(5))
  have arrive: "\<exists>fxs s2' q2 g u2' u2'' r. receive_frames env2 (list_route_input GetInteger rs ms gr) device from es s2 = Inr (fxs, s2') \<and>
        concat (map handed_up fxs) = [(protocol, q2, g, j)] \<and>
        Udp_Receive (e_ChecksumEnabled env2) GetIfIndex Receive6 q2 g (l3_interfaces s2 ! unat j) u2 = Inr (RX_OK, u2', [NotifyDataRecv sk2]) \<and>
        UdpSocket_RecvFrom sk2 (of_nat (length (pk_bytes p))) u2' = Inr (Some r, Some (h_source h, sport), u2'') \<and> pk_bytes r = pk_bytes p"
    if "mset (map snd (arrivals es)) = mset (sent_frames fx)" "in_time (ra_expiration (l3_reassembly s2)) es" for es
    by (rule frames_to_socket [OF sent(3) that sent(4) mtu assms(12) _ q(2) assms(3) qt(2) np sent(6-9) _ _ assms(11,13-15) _ assms(17)])
      (use q(1) sent(10-12) assms(16) in simp_all)
  from sent(2) have sf: "sent_frames (fx0 # fx) = sent_frames fx" by simp
  show ?thesis
    by (intro exI conjI, rule q(3), rule sent(1)) (use arrive sf sent(10) in simp)
qed

text \<open>A node with one socket bound to a port, as \<open>CreateSocket\<close> and \<open>Bind\<close> make it.\<close>

definition demo_udp :: "u16 \<Rightarrow> udp" where
  "demo_udp port =
     \<lparr>udp_endPoints = Demux_new\<lparr>dm_endPoints := [(1, EndPoint_SetCallbacks 1 (EndPoint_new 0 port))], dm_next := 2\<rparr>,
      udp_sockets = [1], udp_store = [1 \<mapsto> UdpSocketImpl_new\<lparr>sk_endPoint := 1\<rparr>]\<rparr>"

lemma demo_udp_bind:
  assumes "port \<noteq> 0"
  shows "UdpSocket_Bind_address 1 (InetSocketAddress 0 port 0) (Udp_CreateSocket 1 UdpL4Protocol_new) = Inr (0, demo_udp port)"
  using assms
  by (simp add: UdpSocket_Bind_address_def Udp_CreateSocket_def UdpL4Protocol_new_def get_socket_def Socket_SetIpTos_def Ipv4Address_GetAny_def
      Demux_Allocate_port_def Demux_Allocate_local_def Demux_LookupLocal_def Demux_add_def Demux_new_def set_socket_def bind_device_def
      UdpSocket_FinishBind_def on_endPoint_def Demux_get_def Demux_update_def demo_udp_def UdpSocketImpl_new_def IpTos2Priority_def)

lemma demo_udp_plain:
  "plain_sender 1 port (demo_udp port)"
  "plain_receiver 1 (demo_interface 0x0a010002) 0x0a010002 port src sport 40 (demo_udp port)"
  by (simp_all add: plain_sender_def plain_receiver_def demo_udp_def Demux_get_def EndPoint_SetCallbacks_def EndPoint_new_def
      Ipv4Address_GetAny_def UdpSocketImpl_new_def Demux_Lookup_def endpoint_case_def Let_def)

theorem socket_to_socket_witness:
  "\<exists>p1 q fx1 fx2 s1' fxs s2' q2 g u2' u2'' r.
    UdpSocket_SendTo True (demo_l3 0x0a010001) (\<lambda>q h d. Inr (Some (demo_route, True), ERROR_NOTERROR)) 1 demo_payload
      (InetSocketAddress 0x0a010002 9 0) (demo_udp 49153) = Inr (40, p1, demo_udp 49153, UdpDown q 0x0a010001 0x0a010002 17 (Some (demo_route, True)) # fx1) \<and>
    L3_Send (demo_env 44) (\<lambda>p h. Inr None) q 0x0a010001 0x0a010002 17 (Some (demo_route, True)) (demo_l3 0x0a010001) = Inr (fx2, s1') \<and>
    receive_frames (demo_env 44) (list_route_input (\<lambda>a b. a) [] [] GlobalRouting_new) 7 [] (map (Arrives 9) (rev (sent_frames fx2)))
      (demo_l3 0x0a010002) = Inr (fxs, s2') \<and> concat (map handed_up fxs) = [(17, q2, g, 0)] \<and>
    Udp_Receive True (\<lambda>d. 1) None q2 g (demo_interface 0x0a010002) (demo_udp 9) = Inr (RX_OK, u2', [NotifyDataRecv 1]) \<and>
    UdpSocket_RecvFrom 1 40 u2' = Inr (Some r, Some (0x0a010001, 49153), u2'') \<and> pk_bytes r = replicate 40 0x5a"
proof -
  let ?RO = "\<lambda>q h d. Inr (Some (demo_route, True), ERROR_NOTERROR) :: ((ipv4_route \<times> bool) option \<times> SocketErrno) res"
  let ?s1 = "demo_l3 0x0a010001" and ?s2 = "demo_l3 0x0a010002"
  have p: "pk_tags demo_payload = []" "pk_bytes demo_payload = replicate 40 0x5a" by (simp_all add: demo_payload_def)
  have c: "e_ChecksumEnabled (demo_env 44)" by (simp add: demo_env_def)
  have n: "rt_source demo_route = 0x0a010001" "PROT_NUMBER = 17" by (simp_all add: demo_route_def PROT_NUMBER_def)
  have i: "l3_interfaces ?s2 ! unat (0 :: u32) = demo_interface 0x0a010002" "l3_interfaces ?s1 ! unat (0 :: u32) = demo_interface 0x0a010001"
    "l3_routing ?s1"
    by (simp_all add: demo_l3_def)
  have d: "\<not> Ipv4Address_IsMulticast 0x0a010002" "\<not> Ipv4Address_IsBroadcast 0x0a010002"
    by (simp_all add: Ipv4Address_IsMulticast_def Ipv4Address_IsBroadcast_def)
  have nb: "\<forall>a \<in> set (if_addrs (l3_interfaces ?s1 ! unat (0 :: u32))). ia_broadcast a \<noteq> 0x0a010002"
    unfolding i(2) by (simp add: demo_interface_def InterfaceAddress_of_def)
  have h: "host (demo_env 44) 7 0 0x0a010002 PROT_NUMBER 17 ?s2" unfolding n(2) by (rule demo_host)
  have r: "plain_receiver 1 (l3_interfaces ?s2 ! unat (0 :: u32)) 0x0a010002 9 (rt_source demo_route) 49153 (length (pk_bytes demo_payload)) (demo_udp 9)"
    unfolding i(1) p(2) using demo_udp_plain(2) by simp
  have q: "\<forall>s. udp_store (demo_udp 9) 1 = Some s \<longrightarrow> sk_deliveryQueue s = []"
    by (simp add: demo_udp_def UdpSocketImpl_new_def)
  have len: "length (pk_bytes demo_payload) \<le> 65507" "28 \<le> link_mtu (demo_env 44) ?s1 0" by (simp_all add: p(2) demo_link(2))
  have ro: "\<forall>q h. ?RO q h 0 = Inr (Some (demo_route, True), ERROR_NOTERROR)" by simp
  obtain p1 q fx1 fx2 s1' where s: "UdpSocket_SendTo True ?s1 ?RO 1 demo_payload (InetSocketAddress 0x0a010002 9 0) (demo_udp 49153) =
        Inr (int (length (pk_bytes demo_payload)), p1, demo_udp 49153, UdpDown q 0x0a010001 0x0a010002 17 (Some (demo_route, True)) # fx1)"
      "L3_Send (demo_env 44) (\<lambda>p h. Inr None) q 0x0a010001 0x0a010002 17 (Some (demo_route, True)) ?s1 = Inr (fx2, s1')"
      "\<forall>es. mset (map snd (arrivals es)) = mset (sent_frames fx2) \<and> in_time (ra_expiration (l3_reassembly ?s2)) es \<longrightarrow>
      (\<exists>fxs s2' q2 g u2' u2'' r. receive_frames (demo_env 44) (list_route_input (\<lambda>a b. a) [] [] GlobalRouting_new) 7 [] es ?s2 = Inr (fxs, s2') \<and>
        concat (map handed_up fxs) = [(17, q2, g, 0)] \<and>
        Udp_Receive True (\<lambda>d. 1) None q2 g (demo_interface 0x0a010002) (demo_udp 9) = Inr (RX_OK, u2', [NotifyDataRecv 1]) \<and>
        UdpSocket_RecvFrom 1 (of_nat (length (pk_bytes demo_payload))) u2' = Inr (Some r, Some (0x0a010001, 49153), u2'') \<and>
        pk_bytes r = pk_bytes demo_payload)"
    using socket_to_socket [where RouteOutput = ?RO, OF demo_udp_plain(1) p(1) len(1) d i(3) ro demo_link(1) len(2) nb h refl demo_receiver(1,2,5) r q,
        of "\<lambda>p h. Inr None" "\<lambda>a b. a" "[]" "[]" GlobalRouting_new "[]" "\<lambda>d. 1" None]
    unfolding n i(1) by (simp only: c simp_thms) blast
  have a: "arrivals (map (Arrives 9) xs) = map (Pair 9) xs" for xs :: "packet list" by (induction xs) simp_all
  have "mset (map snd (arrivals (map (Arrives 9) (rev (sent_frames fx2))))) = mset (sent_frames fx2) \<and>
      in_time (ra_expiration (l3_reassembly ?s2)) (map (Arrives 9) (rev (sent_frames fx2)))"
    by (auto simp: a comp_def in_time_def demo_receiver sorted_iff_nth_mono split: list.split)
  from s(3) [rule_format, OF this] s(1,2) show ?thesis unfolding p(2) by simp
qed

end
