(* ===== verification/Udp_Behaviour.thy ===== *)
theory Udp_Behaviour
  imports Udp_Delivery "HOL-Library.Sublist"
begin

text \<open>
  What holds of UDP sockets over time: the receive buffer is a first-in first-out queue bounded in bytes;
  the references between sockets and end points stay right under any sequence of calls; and what a
  closed socket does when it is asked to send.
\<close>

section \<open>The receive buffer\<close>

text \<open>Packets that arrive for a socket and reads of its owner, in the order in which they happen.\<close>

datatype rx_op = Arrive packet ipv4_header u16 ipv4_interface | Read u32

fun rx_run :: "(nat \<Rightarrow> u32) \<Rightarrow> nat \<Rightarrow> rx_op list \<Rightarrow> udp \<Rightarrow> ((packet \<times> ipv4 \<times> u16) list \<times> udp) res" where
  "rx_run GetIfIndex sk [] u = Inr ([], u)"
| "rx_run GetIfIndex sk (Arrive p h port ifc # ops) u =
     bind_res (UdpSocket_ForwardUp GetIfIndex sk p h port ifc u) (\<lambda>(u1, fx). rx_run GetIfIndex sk ops u1)"
| "rx_run GetIfIndex sk (Read maxSize # ops) u =
     bind_res (UdpSocket_RecvFrom sk maxSize u) (\<lambda>(p, from, u1).
     bind_res (rx_run GetIfIndex sk ops u1) (\<lambda>(out, u2).
       Inr ((case (p, from) of (Some q, Some a) \<Rightarrow> (q, a) # out | _ \<Rightarrow> out), u2)))"

text \<open>A queue of items that holds at most \<open>cap\<close> bytes: what is read and what is left.\<close>

definition queued_bytes :: "(packet \<times> 'a) list \<Rightarrow> nat" where
  "queued_bytes xs = sum_list (map (\<lambda>x. length (pk_bytes (fst x))) xs)"

fun byte_queue :: "nat \<Rightarrow> rx_op list \<Rightarrow> (packet \<times> ipv4 \<times> u16) list \<Rightarrow> (packet \<times> ipv4 \<times> u16) list \<times> (packet \<times> ipv4 \<times> u16) list" where
  "byte_queue cap [] q = ([], q)"
| "byte_queue cap (Arrive p h port ifc # ops) q =
     byte_queue cap ops (if queued_bytes q + length (pk_bytes p) \<le> cap then q @ [(p, h_source h, port)] else q)"
| "byte_queue cap (Read maxSize # ops) q =
     (case q of
        [] \<Rightarrow> byte_queue cap ops []
      | x # rest \<Rightarrow>
          if length (pk_bytes (fst x)) \<le> unat maxSize then let (out, q') = byte_queue cap ops rest in (x # out, q')
          else byte_queue cap ops q)"

fun arrivals :: "rx_op list \<Rightarrow> (packet \<times> ipv4 \<times> u16) list" where
  "arrivals [] = []"
| "arrivals (Arrive p h port ifc # ops) = (p, h_source h, port) # arrivals ops"
| "arrivals (Read maxSize # ops) = arrivals ops"

lemma queued_bytes_simps [simp]:
  "queued_bytes [] = 0" "queued_bytes (x # xs) = length (pk_bytes (fst x)) + queued_bytes xs"
  "queued_bytes (xs @ ys) = queued_bytes xs + queued_bytes ys"
  by (simp_all add: queued_bytes_def)

text \<open>What was queued and is read or left is the initial queue followed by some of the arrivals, in order.\<close>

lemma byte_queue_fifo:
  "byte_queue cap ops q = (out, q') \<Longrightarrow> \<exists>acc. subseq acc (arrivals ops) \<and> out @ q' = q @ acc"
proof (induction cap ops q arbitrary: out rule: byte_queue.induct)
  case (2 cap p h port ifc ops q)
  let ?x = "(p, h_source h, port)"
  from "2.IH" [of out] "2.prems" obtain acc where acc: "subseq acc (arrivals ops)"
      "out @ q' = (if queued_bytes q + length (pk_bytes p) \<le> cap then q @ [?x] else q) @ acc" by auto
  show ?case
  proof (cases "queued_bytes q + length (pk_bytes p) \<le> cap")
    case True
    with acc show ?thesis by (intro exI [of _ "?x # acc"]) simp
  next
    case False
    with acc show ?thesis by (intro exI [of _ acc]) (simp add: list_emb_Cons)
  qed
next
  case (3 cap maxSize ops q)
  then show ?case by (cases q) (auto split: if_splits prod.splits)
qed auto

lemma byte_queue_bound:
  "byte_queue cap ops q = (out, q') \<Longrightarrow> queued_bytes q \<le> cap \<Longrightarrow> queued_bytes q' \<le> cap"
proof (induction cap ops q arbitrary: out rule: byte_queue.induct)
  case (3 cap maxSize ops q)
  then show ?case by (cases q) (auto split: if_splits prod.splits)
qed (auto split: if_splits)

text \<open>An open socket with no option set, whose queue and counter agree.\<close>

definition rx_ready :: "nat \<Rightarrow> udp_socket \<Rightarrow> bool" where
  "rx_ready cap s \<longleftrightarrow> \<not> sk_shutdownRecv s \<and> \<not> sk_recvPktInfo s \<and> \<not> sk_ipRecvTos s \<and> \<not> sk_ipRecvTtl s \<and>
     unat (sk_rcvBufSize s) = cap \<and> unat (sk_rxAvailable s) = queued_bytes (sk_deliveryQueue s) \<and>
     queued_bytes (sk_deliveryQueue s) \<le> cap \<and> (\<forall>x \<in> set (sk_deliveryQueue s). length (pk_bytes (fst x)) \<le> 65535)"

definition plain_op :: "rx_op \<Rightarrow> bool" where
  "plain_op x \<longleftrightarrow> (case x of Arrive p h port ifc \<Rightarrow> list_all (\<lambda>(t, d). t \<noteq> PRIORITY_TAG) (pk_tags p) \<and> length (pk_bytes p) \<le> 65535
     | Read maxSize \<Rightarrow> True)"

lemma unat_packet_size: "length (pk_bytes p) \<le> 65535 \<Longrightarrow> unat (Packet_GetSize p) = length (pk_bytes p)"
  by (simp add: Packet_GetSize_def unsigned_of_nat take_bit_nat_eq_self)

lemma rx_run_refines:
  assumes "udp_store u sk = Some s" and "rx_ready cap s" and "cap + 65536 \<le> 2 ^ 32" and "\<forall>x \<in> set ops. plain_op x"
    and "byte_queue cap ops (sk_deliveryQueue s) = (out, q')"
  shows "\<exists>u' s'. rx_run GetIfIndex sk ops u = Inr (out, u') \<and> udp_store u' sk = Some s' \<and> rx_ready cap s' \<and> sk_deliveryQueue s' = q' \<and>
    udp_endPoints u' = udp_endPoints u"
  using assms(1,2,4,5)
proof (induction ops arbitrary: u s out)
  case (Cons x ops)
  note r = Cons.prems(2) [unfolded rx_ready_def]
  show ?case
  proof (cases x)
    case (Arrive p h port ifc)
    have pl: "list_all (\<lambda>(t, d). t \<noteq> PRIORITY_TAG) (pk_tags p)" "length (pk_bytes p) \<le> 65535"
      using Cons.prems(3) by (simp_all add: Arrive plain_op_def)
    have lt: "unat (sk_rxAvailable s) + length (pk_bytes p) < 2 ^ 32" using r pl(2) assms(3) by linarith
    note up = ForwardUp_plain [OF Cons.prems(1) _ _ _ _ pl lt, of GetIfIndex h port ifc]
    let ?t = "queued_bytes (sk_deliveryQueue s) + length (pk_bytes p) \<le> cap"
    let ?s = "if ?t then sk_push (p, h_source h, port) s else s" and ?u = "if ?t then set_socket sk (sk_push (p, h_source h, port) s) u else u"
    have f: "UdpSocket_ForwardUp GetIfIndex sk p h port ifc u = Inr (?u, if ?t then [NotifyDataRecv sk] else [UdpDropped sk p])"
      using up r by simp
    have "unat (sk_rxAvailable s + Packet_GetSize p) = unat (sk_rxAvailable s) + length (pk_bytes p)"
      using lt unat_packet_size [OF pl(2)] by (subst unat_add_nowrap) simp_all
    then have s: "udp_store ?u sk = Some ?s" "rx_ready cap ?s"
      "sk_deliveryQueue ?s = (if ?t then sk_deliveryQueue s @ [(p, h_source h, port)] else sk_deliveryQueue s)" "udp_endPoints ?u = udp_endPoints u"
      using Cons.prems(1) r pl(2) by (auto simp: set_socket_def sk_push_def rx_ready_def)
    have b: "byte_queue cap ops (sk_deliveryQueue ?s) = (out, q')" using Cons.prems(4) unfolding s(3) by (simp add: Arrive)
    from Cons.IH [OF s(1,2) _ b] Cons.prems(3) show ?thesis unfolding s(4) by (simp add: Arrive f)
  next
    case (Read m)
    show ?thesis
    proof (cases "sk_deliveryQueue s")
      case Nil
      let ?s = "s\<lparr>sk_errno := ERROR_AGAIN\<rparr>"
      have f: "UdpSocket_RecvFrom sk m u = Inr (None, None, set_socket sk ?s u)"
        using Cons.prems(1) Nil by (simp add: UdpSocket_RecvFrom_def get_socket_def)
      have "rx_ready cap ?s" using r by (simp add: rx_ready_def)
      from Cons.IH [OF _ this, of "set_socket sk ?s u" out] Cons.prems(3,4) Nil show ?thesis
        by (auto simp: Read f set_socket_def)
    next
      case (Cons y rest)
      obtain p src port where y: "y = (p, src, port)" by (cases y)
      have len: "length (pk_bytes p) \<le> 65535" using r by (simp add: Cons y)
      have le: "Packet_GetSize p \<le> m \<longleftrightarrow> length (pk_bytes p) \<le> unat m" by (simp add: word_le_nat_alt unat_packet_size [OF len])
      show ?thesis
      proof (cases "length (pk_bytes p) \<le> unat m")
        case True
        let ?s = "s\<lparr>sk_deliveryQueue := rest, sk_rxAvailable := sk_rxAvailable s - Packet_GetSize p\<rparr>"
        have f: "UdpSocket_RecvFrom sk m u = Inr (Some p, Some (src, port), set_socket sk ?s u)"
          using Cons.prems(1) Cons True le by (simp add: UdpSocket_RecvFrom_def get_socket_def y)
        have "unat (sk_rxAvailable s - Packet_GetSize p) = queued_bytes rest"
          using r unat_packet_size [OF len] by (subst unat_sub) (simp_all add: Cons y word_le_nat_alt)
        then have rr: "rx_ready cap ?s" using r by (simp add: rx_ready_def Cons)
        obtain out' where o: "byte_queue cap ops rest = (out', q')" "out = y # out'"
          using Cons.prems(4) Cons True by (auto simp: Read y split: prod.splits)
        from Cons.IH [OF _ rr, of "set_socket sk ?s u" out'] Cons.prems(3) o show ?thesis
          by (auto simp: Read f set_socket_def y)
      next
        case False
        then have f: "UdpSocket_RecvFrom sk m u = Inr (None, Some (src, port), u)"
          using Cons.prems(1) Cons le by (simp add: UdpSocket_RecvFrom_def get_socket_def y)
        from Cons.IH [OF Cons.prems(1,2), of out] Cons.prems(3,4) Cons False show ?thesis by (auto simp: Read f y)
      qed
    qed
  qed
qed auto

section \<open>References between sockets and end points\<close>

text \<open>The end point at an address is the socket's: its callbacks are to that socket.\<close>

definition owns :: "demux \<Rightarrow> nat \<Rightarrow> nat \<Rightarrow> bool" where
  "owns d a sk \<longleftrightarrow> (\<exists>e. Demux_get a d = Some e \<and> ep_rxCallback e = sk \<and> ep_icmpCallback e = sk \<and> ep_destroyCallback e = sk)"

definition demux_ok :: "demux \<Rightarrow> bool" where
  "demux_ok d \<longleftrightarrow> distinct (map fst (dm_endPoints d)) \<and> (\<forall>a \<in> set (map fst (dm_endPoints d)). 0 < a \<and> a < dm_next d) \<and> 0 < dm_next d"

definition udp_wf :: "udp \<Rightarrow> bool" where
  "udp_wf u \<longleftrightarrow> demux_ok (udp_endPoints u) \<and> udp_store u 0 = None \<and>
     (\<forall>sk s. udp_store u sk = Some s \<longrightarrow>
        (sk_endPoint s \<noteq> 0 \<longrightarrow> owns (udp_endPoints u) (sk_endPoint s) sk) \<and>
        sk_rxAvailable s = of_nat (queued_bytes (sk_deliveryQueue s))) \<and>
     (\<forall>(a, e) \<in> set (dm_endPoints (udp_endPoints u)). ep_rxCallback e \<noteq> 0 \<longrightarrow> udp_store u (ep_rxCallback e) \<noteq> None)"

lemma Demux_get_update:
  "Demux_get a (Demux_update b f d) = (if a = b then map_option f (Demux_get a d) else Demux_get a d)"
proof -
  have "map_of (map (\<lambda>(x, e). if x = b then (x, f e) else (x, e)) es) a =
      (if a = b then map_option f (map_of es a) else map_of es a)" for es
    by (induction es) auto
  then show ?thesis by (simp add: Demux_get_def Demux_update_def)
qed

lemma update_keys: "map fst (dm_endPoints (Demux_update b f d)) = map fst (dm_endPoints d)"
  by (auto simp: Demux_update_def)

lemma demux_ok_update: "demux_ok (Demux_update b f d) = demux_ok d"
  unfolding demux_ok_def update_keys by (simp add: Demux_update_def)

lemma Demux_get_mem: "demux_ok d \<Longrightarrow> Demux_get a d = Some e \<longleftrightarrow> (a, e) \<in> set (dm_endPoints d)"
  by (simp add: demux_ok_def Demux_get_def)

lemma udp_wf_socket:
  assumes "udp_wf u" and "udp_store u sk = Some s" and "sk_endPoint t = sk_endPoint s" and "sk_rxAvailable t = of_nat (queued_bytes (sk_deliveryQueue t))"
  shows "udp_wf (set_socket sk t u)"
proof -
  have "sk \<noteq> 0" using assms(1,2) by (metis udp_wf_def option.distinct(1))
  with assms show ?thesis unfolding udp_wf_def set_socket_def by (auto split: if_splits)
qed

text \<open>A change of an end point that keeps its callbacks.\<close>

lemma udp_wf_endPoint:
  assumes "udp_wf u" and "on_endPoint a f u = Inr u'"
    and "\<And>e. ep_rxCallback (f e) = ep_rxCallback e \<and> ep_icmpCallback (f e) = ep_icmpCallback e \<and> ep_destroyCallback (f e) = ep_destroyCallback e"
  shows "udp_wf u'"
proof -
  have u': "u' = u\<lparr>udp_endPoints := Demux_update a f (udp_endPoints u)\<rparr>" using assms(2) by (auto simp: on_endPoint_def split: option.splits)
  have o: "owns (Demux_update a f d) b sk = owns d b sk" for d b sk
    using assms(3) by (auto simp: owns_def Demux_get_update)
  have m: "ep_rxCallback e \<noteq> 0 \<longrightarrow> udp_store u (ep_rxCallback e) \<noteq> None"
    if "(b, e) \<in> set (dm_endPoints (Demux_update a f (udp_endPoints u)))" for b e
    using assms(1,3) that by (fastforce simp: udp_wf_def Demux_update_def split: if_splits)
  show ?thesis using assms(1) m unfolding udp_wf_def u' by (auto simp: demux_ok_update o)
qed

text \<open>A new end point that is given to a socket, with its callbacks.\<close>

lemma Demux_get_add:
  assumes "demux_ok d" and "Demux_add e d = (a, d')"
  shows "demux_ok d'" and "a = dm_next d" and "Demux_get b d' = (if b = a then Some e else Demux_get b d)"
    and "dm_endPoints d' = dm_endPoints d @ [(a, e)]"
proof -
  have d': "a = dm_next d" "d' = d\<lparr>dm_endPoints := dm_endPoints d @ [(dm_next d, e)], dm_next := dm_next d + 1\<rparr>"
    using assms(2) by (auto simp: Demux_add_def)
  have "dm_next d \<notin> fst ` set (dm_endPoints d)" using assms(1) by (auto simp: demux_ok_def)
  then have n: "Demux_get (dm_next d) d = None" by (simp add: Demux_get_def map_of_eq_None_iff)
  show "demux_ok d'" using assms(1) by (fastforce simp: d' demux_ok_def)
  show "Demux_get b d' = (if b = a then Some e else Demux_get b d)"
    using n by (auto simp: d' Demux_get_def map_add_def split: option.splits)
  show "a = dm_next d" "dm_endPoints d' = dm_endPoints d @ [(a, e)]" by (simp_all add: d')
qed

definition fresh_endPoint :: "end_point \<Rightarrow> bool" where
  "fresh_endPoint e \<longleftrightarrow> ep_rxCallback e = 0 \<and> ep_icmpCallback e = 0 \<and> ep_destroyCallback e = 0"

text \<open>The allocations either fail and change at most the ephemeral port, or add a fresh end point.\<close>

definition allocates :: "demux \<Rightarrow> nat \<Rightarrow> demux \<Rightarrow> bool" where
  "allocates d ep d' \<longleftrightarrow> (\<exists>d0 e. dm_endPoints d0 = dm_endPoints d \<and> dm_next d0 = dm_next d \<and>
     (ep = 0 \<and> d' = d0 \<or> fresh_endPoint e \<and> (ep, d') = Demux_add e d0))"

lemma allocates_cases:
  "Demux_Allocate d = (ep, d') \<Longrightarrow> allocates d ep d'" "Demux_Allocate_address ip d = (ep, d') \<Longrightarrow> allocates d ep d'"
  "Demux_Allocate_local dev ip port d = (ep, d') \<Longrightarrow> allocates d ep d'" "Demux_Allocate_port dev port d = (ep, d') \<Longrightarrow> allocates d ep d'"
proof -
  have e: "dm_endPoints (snd (Demux_AllocateEphemeralPort d)) = dm_endPoints d \<and> dm_next (snd (Demux_AllocateEphemeralPort d)) = dm_next d"
    by (simp add: Demux_AllocateEphemeralPort_def Let_def)
  have f: "fresh_endPoint (EndPoint_new a p)" for a p by (simp add: fresh_endPoint_def EndPoint_new_def)
  show a: "Demux_Allocate_address ip d = (ep, d') \<Longrightarrow> allocates d ep d'" for ip
  proof -
    assume "Demux_Allocate_address ip d = (ep, d')"
    then have "ep = 0 \<and> d' = snd (Demux_AllocateEphemeralPort d) \<or>
        (ep, d') = Demux_add (EndPoint_new ip (fst (Demux_AllocateEphemeralPort d))) (snd (Demux_AllocateEphemeralPort d))"
      by (auto simp: Demux_Allocate_address_def split: prod.splits if_splits)
    with e f show ?thesis unfolding allocates_def by blast
  qed
  have "Demux_Allocate d = Demux_Allocate_address Ipv4Address_GetAny d"
    by (simp add: Demux_Allocate_def Demux_Allocate_address_def)
  with a show "Demux_Allocate d = (ep, d') \<Longrightarrow> allocates d ep d'" by simp
  show l: "Demux_Allocate_local dev ip port d = (ep, d') \<Longrightarrow> allocates d ep d'" for ip
  proof -
    assume "Demux_Allocate_local dev ip port d = (ep, d')"
    then have "ep = 0 \<and> d' = d \<or> (ep, d') = Demux_add (EndPoint_new ip port) d"
      by (auto simp: Demux_Allocate_local_def split: if_splits)
    with f show ?thesis unfolding allocates_def by blast
  qed
  show "Demux_Allocate_port dev port d = (ep, d') \<Longrightarrow> allocates d ep d'"
    unfolding Demux_Allocate_port_def by (rule l)
qed

lemma wf_parts:
  assumes "udp_wf u"
  shows "demux_ok (udp_endPoints u)" and "udp_store u 0 = None"
    and "udp_store u sk = Some s \<Longrightarrow> sk_endPoint s \<noteq> 0 \<Longrightarrow> owns (udp_endPoints u) (sk_endPoint s) sk"
    and "udp_store u sk = Some s \<Longrightarrow> sk_rxAvailable s = of_nat (queued_bytes (sk_deliveryQueue s))"
    and "Demux_get a (udp_endPoints u) = Some e \<Longrightarrow> ep_rxCallback e \<noteq> 0 \<Longrightarrow> udp_store u (ep_rxCallback e) \<noteq> None"
proof -
  show ok: "demux_ok (udp_endPoints u)" using assms by (simp add: udp_wf_def)
  show "Demux_get a (udp_endPoints u) = Some e \<Longrightarrow> ep_rxCallback e \<noteq> 0 \<Longrightarrow> udp_store u (ep_rxCallback e) \<noteq> None"
    using assms unfolding Demux_get_mem [OF ok] udp_wf_def by blast
qed (use assms in \<open>auto simp: udp_wf_def\<close>)

lemma wfI:
  assumes "demux_ok (udp_endPoints u)" and "udp_store u 0 = None"
    and "\<And>sk s. udp_store u sk = Some s \<Longrightarrow> sk_endPoint s \<noteq> 0 \<Longrightarrow> owns (udp_endPoints u) (sk_endPoint s) sk"
    and "\<And>sk s. udp_store u sk = Some s \<Longrightarrow> sk_rxAvailable s = of_nat (queued_bytes (sk_deliveryQueue s))"
    and "\<And>a e. Demux_get a (udp_endPoints u) = Some e \<Longrightarrow> ep_rxCallback e \<noteq> 0 \<Longrightarrow> udp_store u (ep_rxCallback e) \<noteq> None"
  shows "udp_wf u"
  unfolding udp_wf_def using assms(1-4) assms(5) [unfolded Demux_get_mem [OF assms(1)]] by blast

lemma store_nonzero: "udp_wf u \<Longrightarrow> udp_store u sk = Some s \<Longrightarrow> sk \<noteq> 0"
  using wf_parts(2) by (metis option.distinct(1))

lemma allocates_get:
  assumes "demux_ok d" and "allocates d ep d'"
  shows "demux_ok d' \<and> (if ep = 0 then (\<forall>b. Demux_get b d' = Demux_get b d)
     else Demux_get ep d = None \<and> (\<exists>e. fresh_endPoint e \<and> (\<forall>b. Demux_get b d' = (if b = ep then Some e else Demux_get b d))))"
proof -
  obtain d0 e where d0: "dm_endPoints d0 = dm_endPoints d" "dm_next d0 = dm_next d"
      "ep = 0 \<and> d' = d0 \<or> fresh_endPoint e \<and> (ep, d') = Demux_add e d0"
    using assms(2) unfolding allocates_def by blast
  have ok: "demux_ok d0" and g: "Demux_get b d0 = Demux_get b d" for b
    using assms(1) d0(1,2) by (simp_all add: demux_ok_def Demux_get_def)
  from d0(3) show ?thesis
  proof
    assume "fresh_endPoint e \<and> (ep, d') = Demux_add e d0"
    then have f: "fresh_endPoint e" "Demux_add e d0 = (ep, d')" by simp_all
    note a = Demux_get_add [OF ok f(2)]
    have "ep \<noteq> 0" using a(2) ok by (simp add: demux_ok_def)
    moreover have "Demux_get ep d = None"
      using a(2) d0(2) assms(1) by (auto simp: Demux_get_def demux_ok_def map_of_eq_None_iff)
    ultimately show ?thesis using a(1,3) f(1) g by auto
  qed (use ok g in simp)
qed

lemma wf_attach:
  assumes "udp_wf u" and "udp_store u sk = Some s" and "allocates (udp_endPoints u) ep d'" and "ep \<noteq> 0"
    and "sk_endPoint t = ep" and "sk_rxAvailable t = of_nat (queued_bytes (sk_deliveryQueue t))"
    and "\<And>e. g (EndPoint_SetCallbacks sk e) = EndPoint_SetCallbacks sk (g e)"
  shows "udp_wf (set_socket sk t (u\<lparr>udp_endPoints := Demux_update ep (EndPoint_SetCallbacks sk) (Demux_update ep g d')\<rparr>))"
proof -
  note w = wf_parts [OF assms(1)]
  obtain e where d': "demux_ok d'" "Demux_get ep (udp_endPoints u) = None"
      "\<And>b. Demux_get b d' = (if b = ep then Some e else Demux_get b (udp_endPoints u))"
    using allocates_get [OF w(1) assms(3)] assms(4) by auto
  let ?d = "Demux_update ep (EndPoint_SetCallbacks sk) (Demux_update ep g d')"
  have get: "Demux_get b ?d = (if b = ep then Some (EndPoint_SetCallbacks sk (g e)) else Demux_get b (udp_endPoints u))" for b
    by (simp add: Demux_get_update d'(3))
  have own: "owns ?d ep sk" "b \<noteq> ep \<Longrightarrow> owns ?d b k = owns (udp_endPoints u) b k" for b k
    by (simp_all add: owns_def get EndPoint_SetCallbacks_def)
  have old: "owns ?d b k" if "owns (udp_endPoints u) b k" for b k
  proof -
    have "b \<noteq> ep" using that d'(2) by (auto simp: owns_def)
    with own(2) that show ?thesis by simp
  qed
  show ?thesis
  proof (rule wfI)
    show "demux_ok (udp_endPoints (set_socket sk t (u\<lparr>udp_endPoints := ?d\<rparr>)))" using d'(1) by (simp add: set_socket_def demux_ok_update)
    show "udp_store (set_socket sk t (u\<lparr>udp_endPoints := ?d\<rparr>)) 0 = None"
      using w(2) store_nonzero [OF assms(1,2)] by (simp add: set_socket_def)
  qed (use w(3-5) own(1) old assms(2,5,6) in \<open>auto simp: set_socket_def get EndPoint_SetCallbacks_def split: if_splits\<close>)
qed

lemma wf_detach:
  assumes "udp_wf u" and "udp_store u sk = Some s" and "demux_ok d'" and "\<And>b. b \<noteq> a \<Longrightarrow> Demux_get b d' = Demux_get b (udp_endPoints u)"
    and "a = 0 \<or> owns (udp_endPoints u) a sk" and "Demux_get a d' = None"
    and "sk_endPoint t = 0" and "sk_rxAvailable t = of_nat (queued_bytes (sk_deliveryQueue t))"
  shows "udp_wf (set_socket sk t (u\<lparr>udp_endPoints := d'\<rparr>))"
proof -
  note w = wf_parts [OF assms(1)]
  have old: "owns d' b k" if "owns (udp_endPoints u) b k" "k \<noteq> sk" "b \<noteq> 0" for b k
  proof -
    have "b \<noteq> a" using that assms(5) by (auto simp: owns_def)
    with that(1) assms(4) show ?thesis by (simp add: owns_def)
  qed
  have live: "udp_store u (ep_rxCallback e) \<noteq> None" if "Demux_get b d' = Some e" "ep_rxCallback e \<noteq> 0" for b e
    using that assms(4) [of b] assms(6) w(5) [of b e] by (cases "b = a") auto
  show ?thesis
  proof (rule wfI)
    show "udp_store (set_socket sk t (u\<lparr>udp_endPoints := d'\<rparr>)) 0 = None"
      using w(2) store_nonzero [OF assms(1,2)] by (simp add: set_socket_def)
  qed (use w(3,4) old live assms(2,3,7,8) in \<open>auto simp: set_socket_def split: if_splits\<close>)
qed

section \<open>Every operation keeps the references\<close>

lemma zero_not_endPoint: "demux_ok d \<Longrightarrow> Demux_get 0 d = None"
  by (auto simp: demux_ok_def Demux_get_def map_of_eq_None_iff)

lemma on_endPoint_Inr: "on_endPoint a f u = Inr u' \<Longrightarrow> u' = u\<lparr>udp_endPoints := Demux_update a f (udp_endPoints u)\<rparr>"
  by (auto simp: on_endPoint_def split: option.splits)

lemma wf_bind:
  assumes "udp_wf u" and "udp_store u sk = Some s" and "allocates (udp_endPoints u) ep d'" and "sk_endPoint t = ep"
    and "sk_rxAvailable t = of_nat (queued_bytes (sk_deliveryQueue t))"
    and "bind_res (bind_device ep v (set_socket sk t (u\<lparr>udp_endPoints := d'\<rparr>))) (UdpSocket_FinishBind sk) = Inr (r, u')"
  shows "udp_wf u'"
proof -
  note w = wf_parts [OF assms(1)]
  let ?u1 = "set_socket sk t (u\<lparr>udp_endPoints := d'\<rparr>)"
  obtain u2 where u2: "bind_device ep v ?u1 = Inr u2" "UdpSocket_FinishBind sk u2 = Inr (r, u')"
    using assms(6) by (auto simp: res_simps)
  define g where "g = (if sk_boundnetdevice v \<noteq> 0 then EndPoint_BindToNetDevice (sk_boundnetdevice v) else (\<lambda>e. e))"
  have id: "Demux_update ep (\<lambda>e. e) d' = d'" by (simp add: Demux_update_def case_prod_beta)
  have u2': "u2 = set_socket sk t (u\<lparr>udp_endPoints := Demux_update ep g d'\<rparr>)"
    using u2(1) id by (auto simp: bind_device_def g_def set_socket_def dest!: on_endPoint_Inr split: if_splits)
  have sk: "get_socket sk u2 = Inr t" by (simp add: u2' get_socket_def set_socket_def)
  note al = allocates_get [OF w(1) assms(3)]
  show ?thesis
  proof (cases "ep = 0")
    case True
    then have "u' = u2" using u2(2) sk assms(4) by (simp add: UdpSocket_FinishBind_def)
    moreover have d: "demux_ok d'" "Demux_get b d' = Demux_get b (udp_endPoints u)" for b using al True by simp_all
    have "Demux_get b (Demux_update ep g d') = Demux_get b (udp_endPoints u)" for b
      using zero_not_endPoint [OF d(1)] True by (simp add: Demux_get_update d(2))
    then have "udp_wf u2" unfolding u2'
      by (intro wf_detach [OF assms(1,2), where a = 0])
        (use d zero_not_endPoint [OF w(1)] assms(4,5) True in \<open>simp_all add: demux_ok_update\<close>)
    ultimately show ?thesis by simp
  next
    case False
    then have "u' = set_socket sk t (u\<lparr>udp_endPoints := Demux_update ep (EndPoint_SetCallbacks sk) (Demux_update ep g d')\<rparr>)"
      using u2(2) sk assms(4) by (auto simp: UdpSocket_FinishBind_def res_simps u2' set_socket_def dest!: on_endPoint_Inr)
    moreover have "g (EndPoint_SetCallbacks sk e) = EndPoint_SetCallbacks sk (g e)" for e
      by (simp add: g_def EndPoint_SetCallbacks_def EndPoint_BindToNetDevice_def)
    ultimately show ?thesis using wf_attach [OF assms(1-3) False assms(4,5)] by simp
  qed
qed

lemma get_socket_Inr [simp]: "get_socket sk u = Inr s \<longleftrightarrow> udp_store u sk = Some s"
  by (auto simp: get_socket_def split: option.splits)

lemma Bind_wf: "udp_wf u \<Longrightarrow> UdpSocket_Bind sk u = Inr (r, u') \<Longrightarrow> udp_wf u'"
proof -
  assume a: "udp_wf u" "UdpSocket_Bind sk u = Inr (r, u')"
  obtain ep d where d: "Demux_Allocate (udp_endPoints u) = (ep, d)" by (rule prod.exhaust)
  from a(2) d obtain s where s: "udp_store u sk = Some s"
      "bind_res (bind_device ep s (set_socket sk (s\<lparr>sk_endPoint := ep\<rparr>) (u\<lparr>udp_endPoints := d\<rparr>))) (UdpSocket_FinishBind sk) = Inr (r, u')"
    by (auto simp: UdpSocket_Bind_def bind_res_Inr_iff [of "get_socket sk u"])
  show ?thesis by (rule wf_bind [OF a(1) s(1) allocates_cases(1) [OF d] _ _ s(2)]) (use wf_parts(4) [OF a(1) s(1)] in simp_all)
qed

lemma Bind_address_wf:
  assumes "udp_wf u" and "UdpSocket_Bind_address sk address u = Inr (r, u')"
  shows "udp_wf u'"
proof -
  obtain s where s: "udp_store u sk = Some s" using assms(2) by (auto simp: UdpSocket_Bind_address_def bind_res_Inr_iff [of "get_socket sk u"])
  note rx = wf_parts(4) [OF assms(1) s]
  show ?thesis
  proof (cases address)
    case OtherAddress
    then have "u' = set_socket sk (s\<lparr>sk_errno := ERROR_INVAL\<rparr>) u"
      using assms(2) s by (simp add: UdpSocket_Bind_address_def get_socket_def)
    with udp_wf_socket [OF assms(1) s] rx show ?thesis by simp
  next
    case (InetSocketAddress ip port tos)
    let ?d = "udp_endPoints u" and ?dev = "sk_boundnetdevice s"
    define al where "al = (if ip = Ipv4Address_GetAny \<and> port = 0 then Demux_Allocate ?d
        else if ip = Ipv4Address_GetAny \<and> port \<noteq> 0 then Demux_Allocate_port ?dev port ?d
        else if ip \<noteq> Ipv4Address_GetAny \<and> port = 0 then Demux_Allocate_address ip ?d
        else Demux_Allocate_local ?dev ip port ?d)"
    obtain ep d where d: "al = (ep, d)" by (rule prod.exhaust)
    then have a: "allocates ?d ep d" unfolding al_def by (auto split: if_splits intro: allocates_cases)
    let ?s1 = "(Socket_SetIpTos tos s)\<lparr>sk_endPoint := ep\<rparr>"
    have rx1: "sk_rxAvailable ?s1 = of_nat (queued_bytes (sk_deliveryQueue ?s1))" using rx by (simp add: Socket_SetIpTos_def)
    have B: "(if ep = 0 then Inr (-1, set_socket sk (?s1\<lparr>sk_errno := (if port \<noteq> 0 then ERROR_ADDRINUSE else ERROR_ADDRNOTAVAIL)\<rparr>) (u\<lparr>udp_endPoints := d\<rparr>))
        else bind_res (bind_device ep ?s1 (set_socket sk ?s1 (u\<lparr>udp_endPoints := d\<rparr>))) (UdpSocket_FinishBind sk)) = Inr (r, u')"
      using assms(2) s d [unfolded al_def]
      by (simp add: UdpSocket_Bind_address_def get_socket_def InetSocketAddress ns_assert_Inr_iff Socket_SetIpTos_def Let_def split: if_splits)
    show ?thesis
    proof (cases "ep = 0")
      case True
      have ok: "demux_ok d \<and> (\<forall>b. Demux_get b d = Demux_get b ?d)" using allocates_get [OF wf_parts(1) [OF assms(1)] a] True by simp
      from B True have u': "u' = set_socket sk (?s1\<lparr>sk_errno := (if port \<noteq> 0 then ERROR_ADDRINUSE else ERROR_ADDRNOTAVAIL)\<rparr>) (u\<lparr>udp_endPoints := d\<rparr>)" by simp
      show ?thesis unfolding u'
        by (rule wf_detach [OF assms(1) s, where a = 0]) (use ok zero_not_endPoint [of d] rx1 True in simp_all)
    next
      case False
      with B have "bind_res (bind_device ep ?s1 (set_socket sk ?s1 (u\<lparr>udp_endPoints := d\<rparr>))) (UdpSocket_FinishBind sk) = Inr (r, u')" by simp
      from wf_bind [OF assms(1) s a _ rx1 this] show ?thesis by simp
    qed
  qed
qed

lemma remove1_key:
  "distinct (map fst xs) \<Longrightarrow> (a, e) \<in> set xs \<Longrightarrow> remove1 (a, e) xs = filter (\<lambda>x. fst x \<noteq> a) xs"
proof (induction xs)
  case (Cons x xs)
  show ?case
  proof (cases "x = (a, e)")
    case True
    then have "filter (\<lambda>x. fst x \<noteq> a) xs = xs" using Cons.prems(1) by (auto simp: filter_id_conv)
    with True show ?thesis by simp
  next
    case False
    then have m: "(a, e) \<in> set xs" using Cons.prems(2) by auto
    then have "a \<in> fst ` set xs" by force
    then have "fst x \<noteq> a" using Cons.prems(1) by auto
    with Cons False m show ?thesis by simp
  qed
qed simp

lemma Demux_remove:
  assumes "demux_ok d" and "Demux_get a d = Some e"
  shows "demux_ok (d\<lparr>dm_endPoints := remove1 (a, e) (dm_endPoints d)\<rparr>)"
    and "Demux_get b (d\<lparr>dm_endPoints := remove1 (a, e) (dm_endPoints d)\<rparr>) = (if b = a then None else Demux_get b d)"
proof -
  have f: "remove1 (a, e) (dm_endPoints d) = filter (\<lambda>x. fst x \<noteq> a) (dm_endPoints d)"
    using assms by (intro remove1_key) (simp_all add: demux_ok_def Demux_get_mem)
  show "demux_ok (d\<lparr>dm_endPoints := remove1 (a, e) (dm_endPoints d)\<rparr>)"
    using assms(1) by (auto simp: f demux_ok_def distinct_map_filter)
  have "map_of (filter (\<lambda>x. fst x \<noteq> a) es) b = (if b = a then None else map_of es b)" for es :: "(nat \<times> end_point) list"
    by (induction es) auto
  then show "Demux_get b (d\<lparr>dm_endPoints := remove1 (a, e) (dm_endPoints d)\<rparr>) = (if b = a then None else Demux_get b d)"
    by (simp add: Demux_get_def f)
qed

text \<open>Closing a socket: no fault, and its end point is gone.\<close>

lemma Deallocate_wf:
  assumes "udp_wf u" and "udp_store u sk = Some s"
  shows "\<exists>u'. UdpSocket_DeallocateEndPoint sk u = Inr u' \<and> udp_wf u' \<and> Demux_get (sk_endPoint s) (udp_endPoints u') = None"
proof (cases "sk_endPoint s = 0")
  case True
  then show ?thesis
    using assms zero_not_endPoint [OF wf_parts(1) [OF assms(1)]] by (simp add: UdpSocket_DeallocateEndPoint_def get_socket_def)
next
  case False
  let ?a = "sk_endPoint s" and ?d = "udp_endPoints u"
  note w = wf_parts [OF assms(1)]
  obtain e where e: "Demux_get ?a ?d = Some e" using w(3) [OF assms(2) False] by (auto simp: owns_def)
  let ?d1 = "Demux_update ?a (EndPoint_SetDestroyCallback 0) ?d" and ?e = "EndPoint_SetDestroyCallback 0 e"
  have g1: "Demux_get ?a ?d1 = Some ?e" "demux_ok ?d1" using e w(1) by (simp_all add: Demux_get_update demux_ok_update)
  let ?d2 = "?d1\<lparr>dm_endPoints := remove1 (?a, ?e) (dm_endPoints ?d1)\<rparr>"
  note rm = Demux_remove [OF g1(2,1)]
  let ?u = "set_socket sk (s\<lparr>sk_endPoint := 0\<rparr>) (u\<lparr>udp_endPoints := ?d2\<rparr>)"
  have "UdpSocket_DeallocateEndPoint sk u = Inr ?u"
    using assms(2) False e g1(1) w(2)
    by (simp add: UdpSocket_DeallocateEndPoint_def get_socket_def on_endPoint_def Udp_DeAllocate_def Demux_DeAllocate_def
        EndPoint_SetDestroyCallback_def)
  moreover have "udp_wf ?u"
    by (rule wf_detach [OF assms, where a = ?a])
      (use rm w(3) [OF assms(2) False] w(4) [OF assms(2)] in \<open>simp_all add: Demux_get_update\<close>)
  moreover have "Demux_get ?a (udp_endPoints ?u) = None" using rm(2) by (simp add: set_socket_def)
  ultimately show ?thesis by blast
qed

lemma Close_wf:
  assumes "udp_wf u" and "udp_store u sk = Some s"
  shows "\<exists>r u'. UdpSocket_Close sk u = Inr (r, u') \<and> udp_wf u' \<and> (r = 0 \<longrightarrow> Demux_get (sk_endPoint s) (udp_endPoints u') = None)"
proof (cases "sk_shutdownRecv s \<and> sk_shutdownSend s")
  case True
  then show ?thesis
    using assms udp_wf_socket [OF assms, of "s\<lparr>sk_errno := ERROR_BADF\<rparr>"] wf_parts(4) [OF assms]
    by (simp add: UdpSocket_Close_def get_socket_def)
next
  case False
  let ?t = "s\<lparr>sk_shutdownRecv := True, sk_shutdownSend := True\<rparr>"
  have "udp_wf (set_socket sk ?t u)" "udp_store (set_socket sk ?t u) sk = Some ?t"
    using udp_wf_socket [OF assms, of ?t] wf_parts(4) [OF assms] by (simp_all add: set_socket_def)
  from Deallocate_wf [OF this] False assms(2) show ?thesis by (auto simp: UdpSocket_Close_def get_socket_def)
qed

lemma ensure_bound_wf: "udp_wf u \<Longrightarrow> ensure_bound sk u = Inr (b, u') \<Longrightarrow> udp_wf u'"
  by (auto simp: ensure_bound_def res_simps dest: Bind_wf split: if_splits)

lemma fail_wf: "udp_wf u \<Longrightarrow> socket_fail sk e p u = Inr (r, p', u', fx) \<Longrightarrow> udp_wf u'"
  by (auto simp: socket_fail_def res_simps intro!: udp_wf_socket dest: wf_parts(4))

lemma send_bound_wf: "udp_wf u \<Longrightarrow> send_bound csum ip RouteOutput sk p dest port u = Inr (r, p', u', fx) \<Longrightarrow> udp_wf u'"
  by (auto simp: send_bound_def res_simps Let_def dest: fail_wf split: if_splits option.splits)

lemma DoSendTo_wf: "udp_wf u \<Longrightarrow> UdpSocket_DoSendTo csum ip RouteOutput sk p dest port tos u = Inr (r, p', u', fx) \<Longrightarrow> udp_wf u'"
  by (auto simp: UdpSocket_DoSendTo_def res_simps dest: ensure_bound_wf fail_wf send_bound_wf split: if_splits)

lemma SendTo_wf: "udp_wf u \<Longrightarrow> UdpSocket_SendTo csum ip RouteOutput sk p address u = Inr (r, p', u', fx) \<Longrightarrow> udp_wf u'"
  by (auto simp: UdpSocket_SendTo_def dest: DoSendTo_wf split: sock_address.splits)

lemma Send_wf: "udp_wf u \<Longrightarrow> UdpSocket_Send csum ip RouteOutput sk p u = Inr (r, p', u', fx) \<Longrightarrow> udp_wf u'"
  by (auto simp: UdpSocket_Send_def UdpSocket_DoSend_def res_simps dest: ensure_bound_wf fail_wf DoSendTo_wf split: if_splits option.splits)

lemma Recv_wf:
  assumes "udp_wf u" and "UdpSocket_RecvFrom sk m u = Inr (p, a, u')"
  shows "udp_wf u'"
proof -
  from assms(2) obtain s where s: "udp_store u sk = Some s" by (auto simp: UdpSocket_RecvFrom_def bind_res_Inr_iff [of "get_socket sk u"])
  note rx = wf_parts(4) [OF assms(1) s]
  show ?thesis
  proof (cases "sk_deliveryQueue s")
    case Nil
    with assms(2) s have "u' = set_socket sk (s\<lparr>sk_errno := ERROR_AGAIN\<rparr>) u" by (simp add: UdpSocket_RecvFrom_def get_socket_def)
    with udp_wf_socket [OF assms(1) s] rx show ?thesis by simp
  next
    case (Cons y rest)
    obtain q src port where y: "y = (q, src, port)" by (cases y)
    let ?t = "s\<lparr>sk_deliveryQueue := rest, sk_rxAvailable := sk_rxAvailable s - Packet_GetSize q\<rparr>"
    from assms(2) s Cons have "u' = set_socket sk ?t u \<or> u' = u"
      by (auto simp: UdpSocket_RecvFrom_def get_socket_def y split: if_splits)
    moreover have "sk_rxAvailable ?t = of_nat (queued_bytes (sk_deliveryQueue ?t))" using rx by (simp add: Cons y Packet_GetSize_def)
    ultimately show ?thesis using udp_wf_socket [OF assms(1) s, of ?t] assms(1) by auto
  qed
qed

lemma ForwardUp_wf: "udp_wf u \<Longrightarrow> UdpSocket_ForwardUp G sk p h port ifc u = Inr (u', fx) \<Longrightarrow> udp_wf u'"
  by (auto simp: UdpSocket_ForwardUp_def res_simps Packet_GetSize_def intro!: udp_wf_socket dest: wf_parts(4) split: if_splits)

lemma forward_all_wf: "udp_wf u \<Longrightarrow> forward_all G es p h port ifc u = Inr (u', fx) \<Longrightarrow> udp_wf u'"
proof (induction es arbitrary: u fx)
  case (Cons x es)
  obtain a e where x: "x = (a, e)" by (cases x)
  from Cons.prems(2) obtain u1 fx1 fx2 where u1: "EndPoint_ForwardUp G e (Packet_Copy p) h port ifc u = Inr (u1, fx1)"
      "forward_all G es p h port ifc u1 = Inr (u', fx2)"
    by (auto simp: x res_simps)
  have "udp_wf u1" using Cons.prems(1) u1(1) ForwardUp_wf by (auto simp: EndPoint_ForwardUp_def split: if_splits)
  from Cons.IH [OF this u1(2)] show ?case .
qed simp

lemma Receive_wf: "udp_wf u \<Longrightarrow> Udp_Receive csum G R6 p h ifc u = Inr (st, u', fx) \<Longrightarrow> udp_wf u'"
  by (auto simp: Udp_Receive_def Let_def res_simps dest: forward_all_wf split: if_splits option.splits)

section \<open>Reachable states\<close>

text \<open>
  The calls on the UDP protocol and its sockets, in any order. \<open>envs\<close> are the states of the IP layer and the
  routing protocols that a socket may find when it sends.
\<close>

inductive udp_step :: "('p l3 \<times> route_output_fn) set \<Rightarrow> udp \<Rightarrow> udp \<Rightarrow> bool" for envs where
  create: "sk \<noteq> 0 \<Longrightarrow> udp_store u sk = None \<Longrightarrow> udp_step envs u (Udp_CreateSocket sk u)"
| bind: "UdpSocket_Bind sk u = Inr (r, u') \<Longrightarrow> udp_step envs u u'"
| bind_address: "UdpSocket_Bind_address sk address u = Inr (r, u') \<Longrightarrow> udp_step envs u u'"
| bind_device: "UdpSocket_BindToNetDevice devices sk netdevice u = Inr u' \<Longrightarrow> udp_step envs u u'"
| connect: "UdpSocket_Connect sk address u = Inr (r, u', fx) \<Longrightarrow> udp_step envs u u'"
| listen: "UdpSocket_Listen sk u = Inr (r, u') \<Longrightarrow> udp_step envs u u'"
| shutdown_send: "UdpSocket_ShutdownSend sk u = Inr (r, u') \<Longrightarrow> udp_step envs u u'"
| shutdown_recv: "UdpSocket_ShutdownRecv sk u = Inr (r, u') \<Longrightarrow> udp_step envs u u'"
| close: "UdpSocket_Close sk u = Inr (r, u') \<Longrightarrow> udp_step envs u u'"
| send: "(ip, RouteOutput) \<in> envs \<Longrightarrow> UdpSocket_Send csum ip RouteOutput sk p u = Inr (r, p', u', fx) \<Longrightarrow> udp_step envs u u'"
| send_to: "(ip, RouteOutput) \<in> envs \<Longrightarrow> UdpSocket_SendTo csum ip RouteOutput sk p address u = Inr (r, p', u', fx) \<Longrightarrow> udp_step envs u u'"
| recv: "UdpSocket_RecvFrom sk maxSize u = Inr (q, from, u') \<Longrightarrow> udp_step envs u u'"
| receive: "Udp_Receive csum GetIfIndex Receive6 p h ifc u = Inr (status, u', fx) \<Longrightarrow> udp_step envs u u'"
| set_tos: "udp_store u sk = Some s \<Longrightarrow> udp_step envs u (set_socket sk (Socket_SetIpTos tos s) u)"
| set_ttl: "udp_store u sk = Some s \<Longrightarrow> udp_step envs u (set_socket sk (Socket_SetIpTtl ttl s) u)"

inductive udp_reachable :: "('p l3 \<times> route_output_fn) set \<Rightarrow> udp \<Rightarrow> bool" for envs where
  start: "udp_reachable envs UdpL4Protocol_new"
| step: "udp_reachable envs u \<Longrightarrow> udp_step envs u u' \<Longrightarrow> udp_reachable envs u'"

lemma create_wf: "udp_wf u \<Longrightarrow> sk \<noteq> 0 \<Longrightarrow> udp_store u sk = None \<Longrightarrow> udp_wf (Udp_CreateSocket sk u)"
  by (rule wfI) (auto simp: Udp_CreateSocket_def UdpSocketImpl_new_def dest: wf_parts split: if_splits)

lemma flags_wf:
  assumes "udp_wf u" and "udp_store u sk = Some s"
  shows "udp_wf (set_socket sk (Socket_SetIpTos tos s) u)" and "udp_wf (set_socket sk (Socket_SetIpTtl ttl s) u)"
  using udp_wf_socket [OF assms] wf_parts(4) [OF assms] by (simp_all add: Socket_SetIpTos_def Socket_SetIpTtl_def)

lemma BindToNetDevice_wf:
  assumes "udp_wf u" and "UdpSocket_BindToNetDevice devices sk netdevice u = Inr u'"
  shows "udp_wf u'"
proof -
  from assms(2) obtain s where s: "udp_store u sk = Some s" by (auto simp: UdpSocket_BindToNetDevice_def res_simps)
  let ?u = "set_socket sk (s\<lparr>sk_boundnetdevice := netdevice\<rparr>) u"
  have "udp_wf ?u" using udp_wf_socket [OF assms(1) s] wf_parts(4) [OF assms(1) s] by simp
  moreover have "u' = ?u \<or> on_endPoint (sk_endPoint s) (EndPoint_BindToNetDevice netdevice) ?u = Inr u'"
    using assms(2) s by (auto simp: UdpSocket_BindToNetDevice_def res_simps Let_def split: if_splits)
  ultimately show ?thesis using udp_wf_endPoint by (auto simp: EndPoint_BindToNetDevice_def)
qed

lemma ShutdownRecv_wf:
  assumes "udp_wf u" and "UdpSocket_ShutdownRecv sk u = Inr (r, u')"
  shows "udp_wf u'"
proof -
  from assms(2) obtain s where s: "udp_store u sk = Some s" by (auto simp: UdpSocket_ShutdownRecv_def res_simps)
  let ?u = "set_socket sk (s\<lparr>sk_shutdownRecv := True\<rparr>) u"
  have "udp_wf ?u" using udp_wf_socket [OF assms(1) s] wf_parts(4) [OF assms(1) s] by simp
  moreover have "u' = ?u \<or> on_endPoint (sk_endPoint s) (EndPoint_SetRxEnabled False) ?u = Inr u'"
    using assms(2) s by (auto simp: UdpSocket_ShutdownRecv_def res_simps Let_def split: if_splits)
  ultimately show ?thesis using udp_wf_endPoint by (auto simp: EndPoint_SetRxEnabled_def)
qed

lemma other_wf:
  assumes "udp_wf u"
  shows "UdpSocket_ShutdownSend sk u = Inr (r, u') \<Longrightarrow> udp_wf u'" and "UdpSocket_Listen sk u = Inr (r, u') \<Longrightarrow> udp_wf u'"
    and "UdpSocket_Connect sk address u = Inr (r, u', fx) \<Longrightarrow> udp_wf u'"
proof -
  note i = udp_wf_socket [OF assms] and w = wf_parts(4) [OF assms]
  show "udp_wf u'" if "UdpSocket_ShutdownSend sk u = Inr (r, u')"
    using that w by (auto simp: UdpSocket_ShutdownSend_def res_simps intro!: i)
  show "udp_wf u'" if "UdpSocket_Listen sk u = Inr (r, u')"
    using that w by (auto simp: UdpSocket_Listen_def res_simps intro!: i)
  show "udp_wf u'" if "UdpSocket_Connect sk address u = Inr (r, u', fx)"
    using that w assms by (cases address) (auto simp: UdpSocket_Connect_def Socket_SetIpTos_def res_simps intro!: i)
qed

lemma step_wf: "udp_step envs u u' \<Longrightarrow> udp_wf u \<Longrightarrow> udp_wf u'"
proof (induction rule: udp_step.induct)
  case (close sk u r u')
  from close.hyps obtain s where "udp_store u sk = Some s" by (auto simp: UdpSocket_Close_def res_simps)
  from Close_wf [OF close.prems this] close.hyps show ?case by auto
qed (blast intro: create_wf flags_wf dest: Bind_wf Bind_address_wf BindToNetDevice_wf ShutdownRecv_wf other_wf Send_wf SendTo_wf Recv_wf Receive_wf)+

lemma udp_reachable_wf: "udp_reachable envs u \<Longrightarrow> udp_wf u"
proof (induction rule: udp_reachable.induct)
  case start
  show ?case by (rule wfI) (simp_all add: UdpL4Protocol_new_def demux_ok_def Demux_new_def Demux_get_def)
qed (rule step_wf)

section \<open>Properties\<close>

text \<open>
  C36. The receive buffer is a first-in first-out queue of bounded size. For any sequence of packets that
  arrive for an open socket and reads of its owner, nothing goes wrong; what is read and what is left is
  what a queue that takes a packet whenever its bytes still fit the buffer gives. So what has been read,
  followed by what is left, is the initial queue followed by some of the arrivals in their order; the
  buffer is never exceeded, and the byte counter is exact.
\<close>

theorem socket_receive_queue:
  assumes "udp_store u sk = Some s" and "rx_ready cap s" and "cap + 65536 \<le> 2 ^ 32" and "\<forall>x \<in> set ops. plain_op x"
  shows "\<exists>out u' s' acc. rx_run GetIfIndex sk ops u = Inr (out, u') \<and> udp_store u' sk = Some s' \<and>
    (out, sk_deliveryQueue s') = byte_queue cap ops (sk_deliveryQueue s) \<and>
    subseq acc (arrivals ops) \<and> out @ sk_deliveryQueue s' = sk_deliveryQueue s @ acc \<and>
    queued_bytes (sk_deliveryQueue s') \<le> cap \<and> unat (sk_rxAvailable s') = queued_bytes (sk_deliveryQueue s')"
proof -
  obtain out q' where b: "byte_queue cap ops (sk_deliveryQueue s) = (out, q')" by (rule prod.exhaust)
  obtain u' s' where r: "rx_run GetIfIndex sk ops u = Inr (out, u')" "udp_store u' sk = Some s'" "rx_ready cap s'" "sk_deliveryQueue s' = q'"
    using rx_run_refines [OF assms b] by blast
  obtain acc where "subseq acc (arrivals ops)" "out @ q' = sk_deliveryQueue s @ acc" using byte_queue_fifo [OF b] by blast
  with r b show ?thesis
    by (intro exI [of _ out] exI [of _ u'] exI [of _ s'] exI [of _ acc]) (simp add: rx_ready_def)
qed

text \<open>A buffer of 50 bytes and two packets of 40: the second one is dropped, unless the first is read before.\<close>

definition demo_small :: udp where
  "demo_small = set_socket 1 (UdpSocketImpl_new\<lparr>sk_endPoint := 1, sk_rcvBufSize := 50\<rparr>) (demo_udp 9)"

theorem socket_receive_queue_witness:
  "\<exists>out u'. rx_run (\<lambda>d. 1) 1 [Arrive demo_payload demo_sent 5 (demo_interface 0), Arrive demo_payload demo_sent 6 (demo_interface 0), Read 1000,
      Arrive demo_payload demo_sent 7 (demo_interface 0)] demo_small = Inr (out, u') \<and>
    map (snd \<circ> snd) out = [5] \<and> (\<exists>s'. udp_store u' 1 = Some s' \<and> map (snd \<circ> snd) (sk_deliveryQueue s') = [7] \<and> unat (sk_rxAvailable s') = 40)"
proof -
  let ?s = "UdpSocketImpl_new\<lparr>sk_endPoint := 1, sk_rcvBufSize := 50\<rparr>"
  let ?ops = "[Arrive demo_payload demo_sent 5 (demo_interface 0), Arrive demo_payload demo_sent 6 (demo_interface 0), Read 1000,
      Arrive demo_payload demo_sent 7 (demo_interface 0)]"
  have st: "udp_store demo_small 1 = Some ?s" by (simp add: demo_small_def set_socket_def)
  have rr: "rx_ready 50 ?s" by (simp add: rx_ready_def UdpSocketImpl_new_def)
  have pl: "\<forall>x \<in> set ?ops. plain_op x" by (simp add: plain_op_def demo_payload_def)
  have b: "byte_queue 50 ?ops (sk_deliveryQueue ?s) =
      ([(demo_payload, h_source demo_sent, 5)], [(demo_payload, h_source demo_sent, 7)])"
    by (simp add: UdpSocketImpl_new_def demo_payload_def)
  from socket_receive_queue [OF st rr _ pl, of "\<lambda>d. 1"] b show ?thesis by (auto simp: demo_payload_def)
qed

text \<open>
  C37. References between sockets and end points stay right. Whatever calls were made on UDP and its
  sockets, in any order and with any results: the end point that a socket refers to exists and calls that
  socket back, so no two sockets share one; the socket that an end point calls exists; the byte counter
  of a receive queue is its size; and \<open>Close\<close> returns, with the end point removed unless it was refused.
\<close>

theorem socket_references:
  assumes "udp_reachable envs u" and "udp_store u sk = Some s"
  shows "sk_rxAvailable s = of_nat (queued_bytes (sk_deliveryQueue s)) \<and>
    (sk_endPoint s \<noteq> 0 \<longrightarrow> (\<exists>e. Demux_get (sk_endPoint s) (udp_endPoints u) = Some e \<and> ep_rxCallback e = sk)) \<and>
    (\<forall>sk' s'. udp_store u sk' = Some s' \<and> sk_endPoint s' = sk_endPoint s \<and> sk_endPoint s \<noteq> 0 \<longrightarrow> sk' = sk) \<and>
    (\<forall>a e. Demux_get a (udp_endPoints u) = Some e \<and> ep_rxCallback e \<noteq> 0 \<longrightarrow> udp_store u (ep_rxCallback e) \<noteq> None) \<and>
    (\<exists>r u'. UdpSocket_Close sk u = Inr (r, u') \<and> (r = 0 \<longrightarrow> Demux_get (sk_endPoint s) (udp_endPoints u') = None))"
proof -
  have wf: "udp_wf u" using assms(1) by (rule udp_reachable_wf)
  note w = wf_parts [OF wf]
  show ?thesis
  proof (intro conjI allI impI)
    show "\<exists>e. Demux_get (sk_endPoint s) (udp_endPoints u) = Some e \<and> ep_rxCallback e = sk" if "sk_endPoint s \<noteq> 0"
      using w(3) [OF assms(2) that] by (auto simp: owns_def)
    show "sk' = sk" if "udp_store u sk' = Some s' \<and> sk_endPoint s' = sk_endPoint s \<and> sk_endPoint s \<noteq> 0" for sk' s'
      using w(3) [OF assms(2)] w(3) [of sk' s'] that by (auto simp: owns_def)
    show "\<exists>r u'. UdpSocket_Close sk u = Inr (r, u') \<and> (r = 0 \<longrightarrow> Demux_get (sk_endPoint s) (udp_endPoints u') = None)"
      using Close_wf [OF wf assms(2)] by blast
  qed (use w(4) [OF assms(2)] w(5) in blast)+
qed

theorem socket_references_witness:
  "\<exists>e r u'. Demux_get 1 (udp_endPoints (demo_udp 9)) = Some e \<and> ep_rxCallback e = 1 \<and>
    UdpSocket_Close 1 (demo_udp 9) = Inr (r, u') \<and> (r = 0 \<longrightarrow> Demux_get 1 (udp_endPoints u') = None)"
proof -
  have "udp_step ({} :: (nat l3 \<times> route_output_fn) set) UdpL4Protocol_new (Udp_CreateSocket 1 UdpL4Protocol_new)"
    by (rule create) (simp_all add: UdpL4Protocol_new_def)
  from step [OF start this] bind_address [OF demo_udp_bind, of 9]
  have "udp_reachable ({} :: (nat l3 \<times> route_output_fn) set) (demo_udp 9)" by (auto intro: step)
  moreover have "udp_store (demo_udp 9) 1 = Some (UdpSocketImpl_new\<lparr>sk_endPoint := 1\<rparr>)" by (simp add: demo_udp_def)
  ultimately show ?thesis using socket_references by fastforce
qed

text \<open>
  A closed socket still takes a port. A connected socket that has been closed refuses to send, with the
  error for a socket that was shut down, but not before it has bound itself to an ephemeral port again.
  That end point stays: closing the socket once more is refused and leaves it allocated.
\<close>

theorem closed_socket_takes_port:
  assumes "udp_store u sk = Some s" and "sk_endPoint s = 0" and "sk_shutdownSend s" and "sk_shutdownRecv s" and "sk_connected s"
    and "sk_defaultAddress s = Some dst" and "sk_boundnetdevice s = 0"
    and "Demux_AllocateEphemeralPort (udp_endPoints u) = (port, d)" and "port \<noteq> 0" and "demux_ok (udp_endPoints u)"
  shows "\<exists>u' u'' s' e. UdpSocket_Send csum ip RouteOutput sk p u = Inr (-1, p, u', []) \<and>
    udp_store u' sk = Some s' \<and> sk_errno s' = ERROR_SHUTDOWN \<and>
    Demux_get (sk_endPoint s') (udp_endPoints u') = Some e \<and> ep_localPort e = port \<and>
    length (dm_endPoints (udp_endPoints u')) = Suc (length (dm_endPoints (udp_endPoints u))) \<and>
    UdpSocket_Close sk u' = Inr (-1, u'') \<and> udp_endPoints u'' = udp_endPoints u'"
proof -
  let ?e = "EndPoint_new Ipv4Address_GetAny port"
  have d: "dm_endPoints d = dm_endPoints (udp_endPoints u)" "dm_next d = dm_next (udp_endPoints u)"
    using assms(8) by (auto simp: Demux_AllocateEphemeralPort_def Let_def split: if_splits)
  then have ok: "demux_ok d" using assms(10) by (simp add: demux_ok_def)
  obtain ep d1 where a: "Demux_add ?e d = (ep, d1)" by (rule prod.exhaust)
  note g = Demux_get_add [OF ok a]
  have ep: "ep \<noteq> 0" using g(2) ok by (simp add: demux_ok_def)
  let ?s = "s\<lparr>sk_endPoint := ep\<rparr>"
  let ?u = "set_socket sk ?s (u\<lparr>udp_endPoints := Demux_update ep (EndPoint_SetCallbacks sk) d1\<rparr>)"
  have al: "Demux_Allocate (udp_endPoints u) = (ep, d1)" using assms(8,9) a by (simp add: Demux_Allocate_def)
  have fb: "UdpSocket_FinishBind sk (set_socket sk ?s (u\<lparr>udp_endPoints := d1\<rparr>)) = Inr (0, ?u)"
    using ep g(3) [of ep] by (simp add: UdpSocket_FinishBind_def get_socket_def on_endPoint_def set_socket_def)
  have "UdpSocket_Bind sk u = Inr (0, ?u)"
    using assms(1,7) al fb by (simp add: UdpSocket_Bind_def get_socket_def bind_device_def)
  then have b: "ensure_bound sk u = Inr (True, ?u)"
    using assms(1,2) ep by (simp add: ensure_bound_def get_socket_def set_socket_def)
  let ?u1 = "set_socket sk (?s\<lparr>sk_errno := ERROR_SHUTDOWN\<rparr>) ?u"
  have "UdpSocket_Send csum ip RouteOutput sk p u = Inr (-1, p, ?u1, [])"
    using assms(1,3,5,6) b by (simp add: UdpSocket_Send_def UdpSocket_DoSend_def get_socket_def socket_fail_def set_socket_def)
  moreover have "Demux_get ep (udp_endPoints ?u1) = Some (EndPoint_SetCallbacks sk ?e)"
    using g(3) [of ep] by (simp add: set_socket_def Demux_get_update)
  moreover have "length (dm_endPoints (udp_endPoints ?u1)) = Suc (length (dm_endPoints (udp_endPoints u)))"
    using g(4) d(1) by (simp add: set_socket_def Demux_update_def)
  moreover have "UdpSocket_Close sk ?u1 = Inr (-1, set_socket sk (?s\<lparr>sk_errno := ERROR_BADF\<rparr>) ?u1)"
    using assms(3,4) by (simp add: UdpSocket_Close_def get_socket_def set_socket_def)
  ultimately show ?thesis
    by (intro exI [of _ ?u1] exI [of _ "set_socket sk (?s\<lparr>sk_errno := ERROR_BADF\<rparr>) ?u1"])
      (simp add: set_socket_def EndPoint_SetCallbacks_def EndPoint_new_def)
qed

text \<open>A socket that was connected and closed without being bound.\<close>

definition demo_closed :: udp where
  "demo_closed = set_socket 1 (UdpSocketImpl_new\<lparr>sk_shutdownSend := True, sk_shutdownRecv := True, sk_connected := True,
     sk_defaultAddress := Some 0x0a010002, sk_defaultPort := 9\<rparr>) UdpL4Protocol_new"

lemma demo_closed_reached:
  "UdpSocket_Connect 1 (InetSocketAddress 0x0a010002 9 0) (Udp_CreateSocket 1 UdpL4Protocol_new) = Inr (r, u1, fx) \<Longrightarrow>
   UdpSocket_Close 1 u1 = Inr (0, demo_closed\<lparr>udp_sockets := [1]\<rparr>)"
  by (auto simp: UdpSocket_Connect_def Udp_CreateSocket_def UdpL4Protocol_new_def get_socket_def set_socket_def Socket_SetIpTos_def
      UdpSocket_Close_def UdpSocket_DeallocateEndPoint_def UdpSocketImpl_new_def demo_closed_def IpTos2Priority_def)

theorem closed_socket_takes_port_witness:
  "\<exists>u' u'' s' e. UdpSocket_Send True (demo_l3 0x0a010001) (\<lambda>q h d. Inr (None, ERROR_NOROUTETOHOST)) 1 demo_payload demo_closed =
      Inr (-1, demo_payload, u', []) \<and> udp_store u' 1 = Some s' \<and>
    Demux_get (sk_endPoint s') (udp_endPoints u') = Some e \<and> ep_localPort e = 49153 \<and> UdpSocket_Close 1 u' = Inr (-1, u'')"
proof -
  let ?s = "UdpSocketImpl_new\<lparr>sk_shutdownSend := True, sk_shutdownRecv := True, sk_connected := True,
     sk_defaultAddress := Some 0x0a010002, sk_defaultPort := 9\<rparr>"
  have d: "udp_endPoints demo_closed = Demux_new" "udp_store demo_closed 1 = Some ?s"
    by (simp_all add: demo_closed_def set_socket_def UdpL4Protocol_new_def)
  have "Demux_AllocateEphemeralPort Demux_new = (49153, Demux_new\<lparr>dm_ephemeral := 49153\<rparr>)"
    by (simp add: Demux_AllocateEphemeralPort_def Demux_new_def ephemeral_loop.simps Demux_LookupPortLocal_def)
  moreover have "demux_ok Demux_new" by (simp add: demux_ok_def Demux_new_def)
  ultimately show ?thesis
    using closed_socket_takes_port [OF d(2), of "0x0a010002" 49153 "Demux_new\<lparr>dm_ephemeral := 49153\<rparr>" True "demo_l3 0x0a010001"
        "\<lambda>q h d. Inr (None, ERROR_NOROUTETOHOST)" demo_payload]
    by (simp add: d(1) UdpSocketImpl_new_def) blast
qed

section \<open>Oddities\<close>

text \<open>
  \<open>Bind\<close> to an ephemeral port with a device set does not check that it got an end point: when every port is
  in use it calls a method through the null pointer.
\<close>

lemma bind_without_port:
  assumes "udp_store u sk = Some s" and "sk_boundnetdevice s \<noteq> 0" and "Demux_AllocateEphemeralPort (udp_endPoints u) = (0, udp_endPoints u)"
    and "demux_ok (udp_endPoints u)"
  shows "UdpSocket_Bind sk u = Inl Undefined"
  using assms zero_not_endPoint [OF assms(4)]
  by (simp add: UdpSocket_Bind_def get_socket_def Demux_Allocate_def bind_device_def on_endPoint_def set_socket_def)

text \<open>
  The tags are put on the caller's packet. Sent a second time, a packet loses the mark of the \<open>MtuDiscover\<close>
  option, and on a socket with its own TTL it trips the assertion against a second tag of one type.
\<close>

lemma second_send_loses_mark:
  assumes "sk_priority s = 0" and "sk_ipTtl s = 0" and "\<not> Ipv4Address_IsMulticast dest" and "pk_tags p = []"
  shows "bind_res (tag_outgoing s dest 0 p) (tag_outgoing s dest 0) = Inr p"
  using assms
  by (simp add: tag_outgoing_def PacketTagList_Remove_def PacketTagList_Add_def SocketSetDontFragmentTag_Serialize_def
      SocketSetDontFragmentTag_Deserialize_def)

lemma second_send_asserts:
  assumes "sk_priority s = 0" and "sk_manualIpTtl s" and "sk_ipTtl s \<noteq> 0" and "\<not> Ipv4Address_IsMulticast dest"
    and "\<not> Ipv4Address_IsBroadcast dest" and "pk_tags p = []"
  shows "bind_res (tag_outgoing s dest 0 p) (tag_outgoing s dest 0) = Inl Assert"
  using assms tags_differ
  by (simp add: tag_outgoing_def PacketTagList_Remove_def PacketTagList_Add_def)

text \<open>The IP layer does not look at that mark: no header it builds in \<open>Send\<close> forbids fragmentation.\<close>

lemma mtu_discover_ignored:
  "L3_send_header env packet src dst number s = Inr (p, h, s1) \<Longrightarrow> \<not> Ipv4Header_IsDontFragment h"
  by (auto simp: L3_send_header_def res_simps L3_BuildHeader_def Let_def Ipv4Header_SetTos_def Ipv4Header_SetTtl_def
      Ipv4Header_SetPayloadSize_def Ipv4Header_SetProtocol_def Ipv4Header_SetDestination_def Ipv4Header_SetSource_def
      Ipv4Header_SetMayFragment_def Ipv4Header_SetIdentification_def Ipv4Header_EnableChecksum_def Ipv4Header_new_def
      Ipv4Header_IsDontFragment_def)

end
