(* ===== verification/Ipv4_Sending.thy ===== *)
theory Ipv4_Sending
  imports Ipv4_Hops
begin

text \<open>
  The counters of identifications, which keep the fragments of different datagrams apart, and the
  record of multicast packets seen, which recognizes copies of the same datagram.
\<close>

section \<open>Identifications\<close>

text \<open>The headers of the datagrams that \<open>Send\<close> sends, and whether it dropped one for lack of a route.\<close>

fun outgoing1 :: "'p l3_effect \<Rightarrow> ipv4_header list" where
  "outgoing1 (L3SendOutgoing h p i) = [h]"
| "outgoing1 _ = []"

definition outgoing :: "'p l3_effect list \<Rightarrow> ipv4_header list" where
  "outgoing fx = concat (map outgoing1 fx)"

definition unroutable :: "'p l3_effect list \<Rightarrow> bool" where
  "unroutable fx \<longleftrightarrow> (\<exists>h p. fx = [L3Drop h p DROP_NO_ROUTE 0])"

lemma outgoing_simps [simp]:
  "outgoing [] = []" "outgoing (e # fx) = outgoing1 e @ outgoing fx" "outgoing (fx @ fx') = outgoing fx @ outgoing fx'"
  "outgoing (map L3Net es) = []"
  by (simp_all add: outgoing_def comp_def)

lemma send_list_outgoing: "L3_send_list env interface target out xs = Inr fx \<Longrightarrow> outgoing fx = []"
  by (induction xs arbitrary: fx) (auto simp: res_simps)

lemma SendRealOut_outgoing: "L3_SendRealOut env (Some r) p h s = Inr fx \<Longrightarrow> outgoing fx = []"
  unfolding L3_SendRealOut_def Let_def
  by (auto simp: res_simps simp del: L3_send_list.simps split: option.splits if_splits dest: send_list_outgoing)

definition numbered :: "ipv4 \<Rightarrow> ipv4 \<Rightarrow> u8 \<Rightarrow> u16 \<Rightarrow> ipv4_header \<Rightarrow> bool" where
  "numbered source destination protocol n h \<longleftrightarrow>
     h_source h = source \<and> h_destination h = destination \<and> h_protocol h = protocol \<and> h_identification h = n"

lemma send_header_ident:
  assumes "L3_send_header env packet source destination protocol s = Inr (p, h, s1)"
  shows "numbered source destination protocol (l3_identification s (ident_key source destination protocol)) h"
    and "s1 = s\<lparr>l3_identification := (l3_identification s)(ident_key source destination protocol :=
      l3_identification s (ident_key source destination protocol) + 1)\<rparr>"
  using assms
  by (auto simp: L3_send_header_def res_simps L3_BuildHeader_def Let_def numbered_def Ipv4Header_SetTos_def Ipv4Header_SetTtl_def
      Ipv4Header_SetPayloadSize_def Ipv4Header_SetProtocol_def Ipv4Header_SetDestination_def Ipv4Header_SetSource_def
      Ipv4Header_SetMayFragment_def Ipv4Header_SetIdentification_def Ipv4Header_EnableChecksum_def)

lemma UpdateDuplicate_ident:
  "L3_UpdateDuplicate env p h s = Inr (b, fx, s1) \<Longrightarrow> l3_identification s1 = l3_identification s \<and> outgoing fx = []"
  by (auto simp: L3_UpdateDuplicate_def Let_def res_simps)

lemma Send_route_ident:
  assumes "L3_Send_route env packet source destination protocol route s = Inr (fx, s')"
  shows "\<exists>h. outgoing fx = [h] \<and> numbered source destination protocol (l3_identification s (ident_key source destination protocol)) h"
    and "l3_identification s' = (l3_identification s)(ident_key source destination protocol :=
      l3_identification s (ident_key source destination protocol) + 1)"
    and "\<not> unroutable fx"
proof -
  obtain p h s1 fx1 fx2 i where a: "L3_send_header env packet source destination protocol s = Inr (p, h, s1)"
      "L3_SendRealOut env (Some (fst route)) p h s' = Inr fx2" "fx = L3SendOutgoing h p i # fx1 @ fx2"
      "l3_identification s' = l3_identification s1" "outgoing fx1 = []"
    using assms unfolding L3_Send_route_def
    by (auto simp: res_simps split: if_splits dest: UpdateDuplicate_ident)
  show "\<exists>h. outgoing fx = [h] \<and> numbered source destination protocol (l3_identification s (ident_key source destination protocol)) h"
    using send_header_ident(1) [OF a(1)] SendRealOut_outgoing [OF a(2)] by (simp add: a(3,5))
  show "l3_identification s' = (l3_identification s)(ident_key source destination protocol :=
      l3_identification s (ident_key source destination protocol) + 1)"
    using send_header_ident(2) [OF a(1)] a(4) by simp
  show "\<not> unroutable fx" by (simp add: a(3) unroutable_def)
qed

lemma Decrease_ident:
  "l3_identification (L3_DecreaseIdentification source destination protocol s) =
    (l3_identification s)(ident_key source destination protocol := l3_identification s (ident_key source destination protocol) - 1)"
  by (simp add: L3_DecreaseIdentification_def Let_def)

lemma Send_broadcast_ident:
  assumes "L3_Send_broadcast env packet source destination protocol outs s = Inr (fx, s')"
  shows "l3_identification s' = l3_identification s \<and> \<not> unroutable fx \<and>
    (\<forall>h \<in> set (outgoing fx). numbered source destination protocol (l3_identification s (ident_key source destination protocol) - 1) h)"
  using assms
proof (induction outs arbitrary: packet s fx)
  case Nil
  then show ?case by (simp add: unroutable_def)
next
  case (Cons out outs)
  show ?case
  proof (cases "Ipv4Address_IsAny source \<or> list_ex (\<lambda>a. ia_local a = source) (if_addrs out)")
    case True
    with Cons.prems obtain fx1 s1 fx2 packet1 where a: "L3_Send_route env packet source destination protocol
          (proxy_route source destination (if_device out)) (L3_DecreaseIdentification source destination protocol s) = Inr (fx1, s1)"
        "L3_Send_broadcast env packet1 source destination protocol outs s1 = Inr (fx2, s')" "fx = fx1 @ fx2"
      by (auto simp: res_simps)
    note r = Send_route_ident [OF a(1), unfolded Decrease_ident]
    have id: "l3_identification s1 = l3_identification s" using r(2) by simp
    obtain h where "outgoing fx1 = [h]" "numbered source destination protocol (l3_identification s (ident_key source destination protocol) - 1) h"
      using r(1) by auto
    moreover have "\<not> unroutable fx" using \<open>outgoing fx1 = [h]\<close> by (auto simp: a(3) unroutable_def append_eq_Cons_conv)
    ultimately show ?thesis using Cons.IH [OF a(2)] id by (auto simp: a(3))
  next
    case False
    then show ?thesis using Cons by simp
  qed
qed

lemma Send_ident:
  assumes "L3_Send env RouteOutput packet source destination protocol route s = Inr (fx, s')"
  shows "(\<forall>h \<in> set (outgoing fx). numbered source destination protocol (l3_identification s (ident_key source destination protocol)) h) \<and>
    l3_identification s' = (if unroutable fx then l3_identification s
      else (l3_identification s)(ident_key source destination protocol := l3_identification s (ident_key source destination protocol) + 1)) \<and>
    (unroutable fx \<longrightarrow> outgoing fx = [])"
proof (cases route)
  case (Some r)
  with assms have "L3_Send_route env packet source destination protocol r s = Inr (fx, s')" by (simp add: L3_Send_def)
  from Send_route_ident [OF this] show ?thesis by auto
next
  case None
  obtain p h s1 where hd: "L3_send_header env packet source destination protocol s = Inr (p, h, s1)"
    using assms None by (auto simp: L3_Send_def res_simps)
  let ?k = "ident_key source destination protocol"
  have s1: "l3_identification s1 = (l3_identification s)(?k := l3_identification s ?k + 1)" using send_header_ident(2) [OF hd] by simp
  let ?s0 = "L3_DecreaseIdentification source destination protocol s1"
  have s0: "l3_identification ?s0 = l3_identification s" by (simp add: Decrease_ident s1)
  consider "L3_Send_broadcast env packet source destination protocol (l3_interfaces s1) s1 = Inr (fx, s')"
    | r where "L3_Send_route env packet source destination protocol r ?s0 = Inr (fx, s')"
    | "fx = [L3Drop h p DROP_NO_ROUTE 0]" "s' = ?s0"
    using assms None hd by (auto simp: L3_Send_def res_simps proxy_route_def split: if_splits option.splits)
  then show ?thesis
  proof cases
    case 1
    from Send_broadcast_ident [OF this] s1 show ?thesis by auto
  next
    case 2
    from Send_route_ident [OF this, unfolded s0] show ?thesis by auto
  next
    case 3
    then show ?thesis by (simp add: s0 unroutable_def)
  qed
qed

lemma Send_route_total:
  assumes "pk_tags p = []" and "link_out env s i r dst" and "28 \<le> link_mtu env s i" and "length (pk_bytes p) \<le> 65535" and "\<not> l3_enableDpd s"
  shows "\<exists>fx s'. L3_Send_route env p src dst number (r, True) s = Inr (fx, s') \<and> s' = s\<lparr>l3_identification := l3_identification s'\<rparr>"
proof -
  obtain h s1 where "L3_BuildHeader env src dst number (ucast (Packet_GetSize p)) (l3_defaultTtl s) 0 True s = (h, s1)"
    by (rule prod.exhaust)
  then have h: "L3_send_header env p src dst number s = Inr (p, h, s1)"
    using assms(1) by (simp add: L3_send_header_def PacketTagList_Remove_def)
  have "h_headerSize h = 20 \<and> h_fragmentOffset h = 0 \<and> h_destination h = dst"
    using h by (auto simp: L3_send_header_def res_simps L3_BuildHeader_def Let_def Ipv4Header_SetTos_def Ipv4Header_SetTtl_def
      Ipv4Header_SetPayloadSize_def Ipv4Header_SetProtocol_def Ipv4Header_SetDestination_def Ipv4Header_SetSource_def
      Ipv4Header_SetMayFragment_def Ipv4Header_SetIdentification_def Ipv4Header_EnableChecksum_def Ipv4Header_new_def)
  moreover have s1: "l3_reverse s1 = l3_reverse s" "l3_interfaces s1 = l3_interfaces s" "l3_enableDpd s1 = l3_enableDpd s"
      "s\<lparr>l3_identification := l3_identification s1\<rparr> = s1"
    by (simp_all add: send_header_ident(2) [OF h])
  ultimately obtain fx where "L3_SendRealOut env (Some r) p h s1 = Inr fx"
    using SendRealOut_direct [of env s1 i r h p] assms by (auto simp: link_out_def link_mtu_def)
  then show ?thesis using h s1 assms(5) by (auto simp: L3_Send_route_def)
qed

text \<open>Datagrams between the same two addresses, sent one after the other.\<close>

fun sends ::
  "'p l3_env \<Rightarrow> (packet \<Rightarrow> ipv4_header \<Rightarrow> (ipv4_route \<times> bool) option res) \<Rightarrow> ipv4 \<Rightarrow> ipv4 \<Rightarrow> u8 \<Rightarrow>
   (packet \<times> (ipv4_route \<times> bool) option) list \<Rightarrow> 'p l3 \<Rightarrow> ('p l3_effect list list \<times> 'p l3) res" where
  "sends env RouteOutput source destination protocol [] s = Inr ([], s)"
| "sends env RouteOutput source destination protocol ((packet, route) # reqs) s =
     bind_res (L3_Send env RouteOutput packet source destination protocol route s) (\<lambda>(fx, s1).
     bind_res (sends env RouteOutput source destination protocol reqs s1) (\<lambda>(fxs, s2). Inr (fx # fxs, s2)))"

lemma sends_ident:
  assumes "sends env RouteOutput source destination protocol reqs s = Inr (fxs, s')" and "i < length fxs" and "h \<in> set (outgoing (fxs ! i))"
  shows "numbered source destination protocol (l3_identification s (ident_key source destination protocol) +
      of_nat (length (filter (\<lambda>fx. \<not> unroutable fx) (take i fxs)))) h \<and> \<not> unroutable (fxs ! i)"
  using assms
proof (induction reqs arbitrary: s fxs i)
  case (Cons r reqs)
  obtain packet route where r: "r = (packet, route)" by (cases r)
  from Cons.prems(1) obtain fx s1 fxs' where a: "L3_Send env RouteOutput packet source destination protocol route s = Inr (fx, s1)"
      "sends env RouteOutput source destination protocol reqs s1 = Inr (fxs', s')" "fxs = fx # fxs'"
    by (auto simp: r res_simps)
  note S = Send_ident [OF a(1)]
  show ?case
  proof (cases i)
    case 0
    with S Cons.prems(3) show ?thesis by (auto simp: a(3))
  next
    case (Suc j)
    from Cons.IH [OF a(2), of j] Cons.prems(2,3) have "numbered source destination protocol
        (l3_identification s1 (ident_key source destination protocol) +
          of_nat (length (filter (\<lambda>fx. \<not> unroutable fx) (take j fxs')))) h \<and> \<not> unroutable (fxs' ! j)"
      by (simp add: a(3) Suc)
    with S show ?thesis by (auto simp: a(3) Suc add.assoc [symmetric])
  qed
qed simp

lemma fragment_key_ident:
  assumes "fragment_key_of h = fragment_key_of g"
  shows "h_identification h = h_identification g"
proof (rule bit_word_eqI)
  fix n assume n: "n < LENGTH(16)"
  have "bit (push_bit 16 (ucast (h_identification x)) OR ucast (h_protocol x) :: u32) (n + 16) \<longleftrightarrow> bit (h_identification x) n" for x
    using n by (auto simp: bit_simps dest: bit_imp_le_length)
  with assms show "bit (h_identification h) n \<longleftrightarrow> bit (h_identification g) n"
    unfolding fragment_key_of_def prod.inject by (metis (no_types))
qed

section \<open>Duplicates\<close>

text \<open>The key does not depend on the fields that change on the way.\<close>

lemma dpd_wire:
  "dpd_bytes h (wire_bytes h c @ bs) = dpd_bytes h (wire_bytes (h\<lparr>h_ttl := t\<rparr>) c' @ bs)"
  by (simp add: dpd_bytes_def Let_def wire_bytes_def WriteHtonU16_def WriteU16_def WriteHtonU32_def flags_frag_def)

lemma dpd_key_ttl: "dpd_key Hash32 p (h\<lparr>h_ttl := t\<rparr>) = dpd_key Hash32 p h"
proof -
  obtain c where c: "Ipv4Header_Serialize h = Inr (wire_bytes h c)" by (rule Serialize_wireE [of h])
  obtain c' where c': "Ipv4Header_Serialize (h\<lparr>h_ttl := t\<rparr>) = Inr (wire_bytes (h\<lparr>h_ttl := t\<rparr>) c')"
    by (rule Serialize_wireE [of "h\<lparr>h_ttl := t\<rparr>"])
  have "dpd_bytes (h\<lparr>h_ttl := t\<rparr>) bs = dpd_bytes h bs" for bs by (simp add: dpd_bytes_def Ipv4Header_GetSerializedSize_def)
  then show ?thesis
    using c c' dpd_wire [of h c "pk_bytes p" t c'] by (simp add: dpd_key_def Let_def Ipv4Header_IsLastFragment_def)
qed

lemma dpd_key_total: "\<exists>key. dpd_key Hash32 p h = Inr key"
  using Serialize_total [of h] by (auto simp: dpd_key_def Let_def)

lemma UpdateDuplicate_entry:
  assumes "L3_UpdateDuplicate env p h s = Inr (b, fx, s1)" and "dpd_key (e_Hash32 env) p h = Inr key"
  shows "map_of (l3_dups s1) key = Some (e_now env + l3_expire s)" and "l3_expire s1 = l3_expire s"
    and "distinct (map fst (l3_dups s)) \<Longrightarrow> distinct (map fst (l3_dups s1))"
proof -
  have s1: "s1 = s\<lparr>l3_cleanDpd := l3_cleanDpd s1, l3_dups := (key, e_now env + l3_expire s) # filter (\<lambda>(k, t). k \<noteq> key) (l3_dups s)\<rparr>"
    using assms by (auto simp: L3_UpdateDuplicate_def Let_def)
  have d: "l3_dups s1 = (key, e_now env + l3_expire s) # filter (\<lambda>(k, t). k \<noteq> key) (l3_dups s)" by (subst s1) simp
  show "map_of (l3_dups s1) key = Some (e_now env + l3_expire s)" by (simp add: d)
  show "l3_expire s1 = l3_expire s" by (subst s1) simp
  show "distinct (map fst (l3_dups s1))" if "distinct (map fst (l3_dups s))"
    using distinct_map_filter [OF that, of "\<lambda>(k, t). k \<noteq> key"] by (auto simp: d)
qed

abbreviation purge_at :: "'p l3_env \<Rightarrow> u64 \<Rightarrow> 'p l3 \<Rightarrow> 'p l3" where
  "purge_at env t s \<equiv> snd (L3_RemoveDuplicates (env\<lparr>e_now := t\<rparr>) s)"

lemma map_of_filter_some:
  "distinct (map fst xs) \<Longrightarrow> map_of xs k = Some v \<Longrightarrow> map_of (filter P xs) k = (if P (k, v) then Some v else None)"
proof (induction xs)
  case (Cons x xs)
  obtain k' v' where x: "x = (k', v')" by (cases x)
  have "map_of (filter P xs) k' = None" using Cons.prems(1) by (auto simp: x map_of_eq_None_iff)
  with Cons show ?case by (auto simp: x)
qed simp

lemma purge_entry:
  assumes "distinct (map fst (l3_dups s))" and "map_of (l3_dups s) key = Some v"
  shows "map_of (l3_dups (purge_at env t s)) key = (if v < t then None else Some v)"
  using map_of_filter_some [OF assms] by (simp add: L3_RemoveDuplicates_def Let_def)

lemma purges_entry:
  assumes "distinct (map fst (l3_dups s))" and "\<forall>t \<in> set ts. t \<le> now"
    and "map_of (l3_dups s) key = Some v \<or> map_of (l3_dups s) key = None \<and> v \<le> now"
  shows "map_of (l3_dups (fold (purge_at env) ts s)) key = Some v \<or> map_of (l3_dups (fold (purge_at env) ts s)) key = None \<and> v \<le> now"
  using assms
proof (induction ts arbitrary: s)
  case (Cons t ts)
  let ?s = "purge_at env t s"
  have d: "distinct (map fst (l3_dups ?s))" using Cons.prems(1) by (simp add: L3_RemoveDuplicates_def Let_def distinct_map_filter)
  have "map_of (l3_dups ?s) key = Some v \<or> map_of (l3_dups ?s) key = None \<and> v \<le> now"
  proof (cases "map_of (l3_dups s) key")
    case None
    then have "map_of (l3_dups ?s) key = None"
      by (auto simp: L3_RemoveDuplicates_def Let_def map_of_eq_None_iff)
    with None Cons.prems(3) show ?thesis by simp
  next
    case (Some w)
    with Cons.prems have "w = v" "t \<le> now" by auto
    with purge_entry [OF Cons.prems(1) Some, where env = env and t = t] show ?thesis by auto
  qed
  with Cons.IH [OF d] Cons.prems(2) show ?case by simp
qed simp

section \<open>Properties\<close>

text \<open>
  C31. Fragments of different datagrams cannot be confused. Of at most 65536 datagrams that a node
  sends one after the other between the same two addresses with the same protocol, in whatever way they
  are routed, broadcast or dropped for lack of a route, no two have the same fragment key.
\<close>

theorem identifications_distinct:
  assumes "sends env RouteOutput source destination protocol reqs s = Inr (fxs, s')" and "length fxs \<le> 65536"
    and "i < j" and "j < length fxs" and "h \<in> set (outgoing (fxs ! i))" and "g \<in> set (outgoing (fxs ! j))"
  shows "fragment_key_of h \<noteq> fragment_key_of g"
proof
  assume eq: "fragment_key_of h = fragment_key_of g"
  let ?n = "\<lambda>k. length (filter (\<lambda>fx. \<not> unroutable fx) (take k fxs))"
  have "?n i < ?n j"
  proof -
    have "take j fxs = take i (take j fxs) @ take j fxs ! i # drop (Suc i) (take j fxs)"
      by (rule id_take_nth_drop) (use assms(3,4) in simp)
    then have "take j fxs = take i fxs @ fxs ! i # drop (Suc i) (take j fxs)" using assms(3) by (simp add: min_def)
    then have "?n j = length (filter (\<lambda>fx. \<not> unroutable fx) (take i fxs @ fxs ! i # drop (Suc i) (take j fxs)))" by simp
    moreover have "\<not> unroutable (fxs ! i)" using sends_ident [OF assms(1) _ assms(5)] assms(3,4) by simp
    ultimately show ?thesis by simp
  qed
  moreover have "?n j < 65536" using assms(2,4) length_filter_le [of "\<lambda>fx. \<not> unroutable fx" "take j fxs"] by simp
  moreover have "(of_nat (?n i) :: u16) = of_nat (?n j)"
    using sends_ident [OF assms(1) _ assms(5)] sends_ident [OF assms(1,4,6)] assms(3,4) fragment_key_ident [OF eq]
    by (simp add: numbered_def)
  then have "unat (of_nat (?n i) :: u16) = unat (of_nat (?n j) :: u16)" by simp
  ultimately show False by (simp add: unat_of_nat_u16)
qed

theorem identifications_distinct_witness:
  "\<exists>fx1 fx2 s' h g. sends (demo_env 1500) (\<lambda>p h. Inr None) 0x0a010001 0x0a010102 17
      [(demo_payload, Some (demo_route, True)), (demo_payload, Some (demo_route, True))] (demo_l3 0x0a010001) = Inr ([fx1, fx2], s') \<and>
    outgoing fx1 = [h] \<and> outgoing fx2 = [g] \<and> fragment_key_of h \<noteq> fragment_key_of g"
proof -
  let ?key = "ident_key 0x0a010001 0x0a010102 17" and ?s = "demo_l3 0x0a010001"
  have total: "\<exists>fx s'. L3_Send (demo_env 1500) (\<lambda>p h. Inr None) demo_payload 0x0a010001 0x0a010102 17 (Some (demo_route, True)) s = Inr (fx, s') \<and>
      s' = s\<lparr>l3_identification := l3_identification s'\<rparr>"
    if "s = ?s\<lparr>l3_identification := f\<rparr>" for s f
    using Send_route_total [of demo_payload "demo_env 1500" s 0 demo_route "0x0a010102" "0x0a010001" 17] demo_link that
    by (simp add: L3_Send_def demo_payload_def link_out_def link_mtu_def demo_l3_def)
  obtain fx1 s1 where 1: "L3_Send (demo_env 1500) (\<lambda>p h. Inr None) demo_payload 0x0a010001 0x0a010102 17 (Some (demo_route, True)) ?s = Inr (fx1, s1)"
      "s1 = ?s\<lparr>l3_identification := l3_identification s1\<rparr>"
    using total [of ?s "l3_identification ?s"] by auto
  obtain fx2 s2 where 2: "L3_Send (demo_env 1500) (\<lambda>p h. Inr None) demo_payload 0x0a010001 0x0a010102 17 (Some (demo_route, True)) s1 = Inr (fx2, s2)"
    using total [OF 1(2)] by auto
  have r: "L3_Send_route (demo_env 1500) demo_payload 0x0a010001 0x0a010102 17 (demo_route, True) ?s = Inr (fx1, s1)"
    "L3_Send_route (demo_env 1500) demo_payload 0x0a010001 0x0a010102 17 (demo_route, True) s1 = Inr (fx2, s2)"
    using 1(1) 2 by (simp_all add: L3_Send_def)
  obtain h g where hg: "outgoing fx1 = [h]" "outgoing fx2 = [g]"
    using Send_route_ident(1) [OF r(1)] Send_route_ident(1) [OF r(2)] by blast
  have "sends (demo_env 1500) (\<lambda>p h. Inr None) 0x0a010001 0x0a010102 17
      [(demo_payload, Some (demo_route, True)), (demo_payload, Some (demo_route, True))] ?s = Inr ([fx1, fx2], s2)"
    using 1(1) 2 by simp
  from this identifications_distinct [OF this, of 0 1 h g] hg show ?thesis by auto
qed

text \<open>
  A copy of a multicast packet is recognized, also after another number of hops. After a packet has
  been registered, and after any runs of \<open>RemoveDuplicates\<close> that are not later than the copy, a copy whose
  time to live differs is reported as a duplicate exactly when it arrives before the entry expires.
\<close>

theorem duplicate_recognized:
  assumes "L3_UpdateDuplicate env p h s = Inr (b, fx, s1)" and "distinct (map fst (l3_dups s))" and "\<forall>t \<in> set ts. t \<le> now"
  shows "\<exists>fx' s2. L3_UpdateDuplicate (env\<lparr>e_now := now\<rparr>) p (h\<lparr>h_ttl := ttl\<rparr>) (fold (purge_at env) ts s1) =
    Inr (now < e_now env + l3_expire s, fx', s2)"
proof -
  obtain key where key: "dpd_key (e_Hash32 env) p h = Inr key" using assms(1) by (auto simp: L3_UpdateDuplicate_def res_simps)
  note e = UpdateDuplicate_entry [OF assms(1) key]
  have "map_of (l3_dups (fold (purge_at env) ts s1)) key = Some (e_now env + l3_expire s) \<or>
      map_of (l3_dups (fold (purge_at env) ts s1)) key = None \<and> e_now env + l3_expire s \<le> now"
    by (rule purges_entry [OF e(3) [OF assms(2)] assms(3)]) (simp add: e(1))
  with key show ?thesis by (auto simp: L3_UpdateDuplicate_def Let_def dpd_key_ttl)
qed

text \<open>Seen at time 5 with an expiry of 1: a copy at time 5 is a duplicate.\<close>

theorem duplicate_recognized_witness:
  "\<exists>b fx s1 fx' s2. L3_UpdateDuplicate (demo_env 1500) demo_payload demo_ipv4_header (demo_l3 0x0a010001) = Inr (b, fx, s1) \<and>
    L3_UpdateDuplicate ((demo_env 1500)\<lparr>e_now := 5\<rparr>) demo_payload (demo_ipv4_header\<lparr>h_ttl := 3\<rparr>) (purge_at (demo_env 1500) 5 s1) =
      Inr (True, fx', s2)"
proof -
  obtain b fx s1 where u: "L3_UpdateDuplicate (demo_env 1500) demo_payload demo_ipv4_header (demo_l3 0x0a010001) = Inr (b, fx, s1)"
    using dpd_key_total [of "e_Hash32 (demo_env 1500)" demo_payload demo_ipv4_header]
    by (auto simp: L3_UpdateDuplicate_def Let_def)
  from duplicate_recognized [OF this, of "[5]" 5 3] show ?thesis
    using u by (simp add: demo_l3_def demo_env_def)
qed

end
