(* ===== verification/Ipv4_Configuration.thy ===== *)
theory Ipv4_Configuration
  imports Ipv4_Sending
begin

text \<open>
  The interfaces of a node while it is configured and runs: the table from devices to interfaces stays
  the inverse of the list, and an interface is up only if its device takes the 68 bytes that \<open>SetUp\<close> asks
  for. So the loop of \<open>DoFragmentation\<close> always ends.
\<close>

section \<open>What a node can do\<close>

inductive l3_step :: "'p l3_env \<Rightarrow> 'p l3 \<Rightarrow> 'p l3 \<Rightarrow> bool" for env where
  add_interface: "device \<noteq> 0 \<Longrightarrow> device \<notin> dom (l3_reverse s) \<Longrightarrow> length (l3_interfaces s) + 1 < 2 ^ 32 \<Longrightarrow>
    L3_AddInterface env tc device s = Inr (i, s') \<Longrightarrow> l3_step env s s'"
| add_address: "L3_AddAddress i a s = Inr (b, fx, s') \<Longrightarrow> l3_step env s s'"
| remove_address: "L3_RemoveAddress i n s = Inr (b, fx, s') \<Longrightarrow> l3_step env s s'"
| remove_local: "L3_RemoveAddress_local i a s = Inr (b, fx, s') \<Longrightarrow> l3_step env s s'"
| set_up: "L3_SetUp env i s = Inr (fx, s') \<Longrightarrow> l3_step env s s'"
| set_down: "L3_SetDown i s = Inr (fx, s') \<Longrightarrow> l3_step env s s'"
| set_metric: "L3_SetMetric i metric s = Inr s' \<Longrightarrow> l3_step env s s'"
| set_forwarding: "L3_SetForwarding i val s = Inr s' \<Longrightarrow> l3_step env s s'"
| set_ip_forward: "l3_step env s (L3_SetIpForward val s)"
| send: "L3_Send (env\<lparr>e_now := now\<rparr>) RouteOutput p source destination protocol route s = Inr (fx, s') \<Longrightarrow> l3_step env s s'"
| receive: "L3_Receive (env\<lparr>e_now := now\<rparr>) RouteInput device p from s = Inr (fx, s') \<Longrightarrow> l3_step env s s'"
| purge: "l3_step env s (snd (L3_RemoveDuplicates (env\<lparr>e_now := now\<rparr>) s))"

text \<open>A node starts with the loopback interface.\<close>

inductive l3_reachable :: "'p l3_env \<Rightarrow> 'p l3 \<Rightarrow> bool" for env where
  initial: "l3_interfaces s = [] \<Longrightarrow> l3_reverse s = Map.empty \<Longrightarrow> device \<noteq> 0 \<Longrightarrow> dv_loopback (e_dev env device) \<Longrightarrow>
    l3_reachable env (snd (L3_SetupLoopback env device s))"
| step: "l3_reachable env s \<Longrightarrow> l3_step env s s' \<Longrightarrow> l3_reachable env s'"

section \<open>The invariant\<close>

definition iface_ok :: "'p l3_env \<Rightarrow> ipv4_interface \<Rightarrow> bool" where
  "iface_ok env i \<longleftrightarrow> if_device i \<noteq> 0 \<and>
     (if_up i \<longrightarrow> dv_loopback (e_dev env (if_device i)) \<or> 68 \<le> unat (dv_mtu (e_dev env (if_device i))))"

definition l3_wf :: "'p l3_env \<Rightarrow> 'p l3 \<Rightarrow> bool" where
  "l3_wf env s \<longleftrightarrow> length (l3_interfaces s) < 2 ^ 32 \<and> list_all (iface_ok env) (l3_interfaces s) \<and>
     (\<forall>d i. l3_reverse s d = Some i \<longleftrightarrow> unat i < length (l3_interfaces s) \<and> if_device (l3_interfaces s ! unat i) = d)"

text \<open>An operation that keeps the devices of all interfaces and the table.\<close>

lemma wf_update:
  assumes "l3_wf env s" and "length (l3_interfaces s') = length (l3_interfaces s)" and "l3_reverse s' = l3_reverse s"
    and "\<And>k. k < length (l3_interfaces s) \<Longrightarrow> if_device (l3_interfaces s' ! k) = if_device (l3_interfaces s ! k) \<and> iface_ok env (l3_interfaces s' ! k)"
  shows "l3_wf env s'"
  using assms by (auto simp: l3_wf_def list_all_length)

lemma wf_set_interface:
  assumes "l3_wf env s" and "L3_interface i s = Inr ifc" and "if_device ifc' = if_device ifc" and "if_up ifc' \<Longrightarrow> iface_ok env ifc'"
  shows "l3_wf env (L3_set_interface i ifc' s)"
proof (rule wf_update [OF assms(1)])
  have i: "unat i < length (l3_interfaces s)" "ifc = l3_interfaces s ! unat i" using assms(2) by (auto simp: L3_interface_def res_simps)
  fix k assume k: "k < length (l3_interfaces s)"
  have ok: "iface_ok env (l3_interfaces s ! k)" using assms(1) k by (simp add: l3_wf_def list_all_length)
  show "if_device (l3_interfaces (L3_set_interface i ifc' s) ! k) = if_device (l3_interfaces s ! k) \<and>
      iface_ok env (l3_interfaces (L3_set_interface i ifc' s) ! k)"
  proof (cases "k = unat i")
    case True
    then have "iface_ok env ifc'" using ok assms(3,4) i by (cases "if_up ifc'") (auto simp: iface_ok_def)
    with True i assms(3) show ?thesis by (simp add: L3_set_interface_def)
  next
    case False
    with ok show ?thesis by (simp add: L3_set_interface_def)
  qed
qed (simp_all add: L3_set_interface_def)

lemma interface_ok:
  assumes "l3_wf env s" and "L3_interface i s = Inr ifc"
  shows "iface_ok env ifc"
  using assms by (auto simp: l3_wf_def L3_interface_def res_simps list_all_length)

lemma wf_set_same:
  assumes "l3_wf env s" and "L3_interface i s = Inr ifc" and "if_device ifc' = if_device ifc" and "if_up ifc' \<Longrightarrow> if_up ifc"
  shows "l3_wf env (L3_set_interface i ifc' s)"
  by (rule wf_set_interface [OF assms(1-3)]) (use interface_ok [OF assms(1,2)] assms(3,4) in \<open>simp add: iface_ok_def\<close>)

lemma DoSetup_fields [simp]:
  "if_device (Interface_DoSetup C dev i) = if_device i" "if_up (Interface_DoSetup C dev i) = if_up i"
  by (simp_all add: Interface_DoSetup_def)

lemma wf_append:
  assumes "l3_wf env s" and "length (l3_interfaces s) + 1 < 2 ^ 32" and "if_device ifc \<notin> dom (l3_reverse s)" and "iface_ok env ifc"
  shows "l3_wf env (snd (L3_AddIpv4Interface ifc s))"
proof -
  let ?n = "length (l3_interfaces s)"
  have n: "unat (of_nat ?n :: u32) = ?n" using assms(2) by (simp add: unsigned_of_nat take_bit_nat_eq_self)
  have rev: "l3_reverse s d = Some i \<longleftrightarrow> unat i < ?n \<and> if_device (l3_interfaces s ! unat i) = d" for d i
    using assms(1) by (simp add: l3_wf_def)
  have fresh: "if_device (l3_interfaces s ! k) \<noteq> if_device ifc" if "k < ?n" for k
  proof -
    have "unat (of_nat k :: u32) = k" using that assms(2) by (simp add: unsigned_of_nat take_bit_nat_eq_self)
    then have "l3_reverse s (if_device (l3_interfaces s ! k)) = Some (of_nat k)" using rev that by simp
    then show ?thesis using assms(3) by auto
  qed
  have "((l3_reverse s)(if_device ifc \<mapsto> of_nat ?n)) d = Some i \<longleftrightarrow>
      unat i < Suc ?n \<and> if_device ((l3_interfaces s @ [ifc]) ! unat i) = d" for d i
  proof (cases "d = if_device ifc")
    case True
    have "i = of_nat ?n \<longleftrightarrow> unat i = ?n" using n by (metis word_unat_eq_iff)
    with True fresh [of "unat i"] show ?thesis by (auto simp: nth_append less_Suc_eq)
  next
    case False
    with rev [of d i] show ?thesis by (auto simp: nth_append less_Suc_eq)
  qed
  with assms(1,2,4) show ?thesis by (simp add: l3_wf_def L3_AddIpv4Interface_def Let_def)
qed

section \<open>The operations that move datagrams\<close>

text \<open>Sending and receiving leave the interfaces alone.\<close>

definition same_ifaces :: "'p l3 \<Rightarrow> 'p l3 \<Rightarrow> bool" where
  "same_ifaces s s' \<longleftrightarrow> l3_interfaces s' = l3_interfaces s \<and> l3_reverse s' = l3_reverse s"

lemma same_ifaces_refl [simp]: "same_ifaces s s"
  by (simp add: same_ifaces_def)

lemma same_ifaces_trans: "same_ifaces s s' \<Longrightarrow> same_ifaces s' s'' \<Longrightarrow> same_ifaces s s''"
  by (simp add: same_ifaces_def)

lemma UpdateDuplicate_ifaces: "L3_UpdateDuplicate env p h s = Inr (b, fx, s') \<Longrightarrow> same_ifaces s s'"
  by (auto simp: L3_UpdateDuplicate_def Let_def res_simps same_ifaces_def)

lemma Decrease_ifaces: "same_ifaces s (L3_DecreaseIdentification source destination protocol s)"
  by (simp add: L3_DecreaseIdentification_def Let_def same_ifaces_def)

lemma send_header_ifaces: "L3_send_header env p source destination protocol s = Inr (p', h, s') \<Longrightarrow> same_ifaces s s'"
  using send_header_ident(2) by (fastforce simp: same_ifaces_def)

lemma Send_route_ifaces:
  assumes "L3_Send_route env p source destination protocol route s = Inr (fx, s')"
  shows "same_ifaces s s'"
  using assms unfolding L3_Send_route_def
  by (auto simp: res_simps split: if_splits dest!: send_header_ifaces UpdateDuplicate_ifaces intro: same_ifaces_trans)

lemma Send_broadcast_ifaces:
  "L3_Send_broadcast env p source destination protocol outs s = Inr (fx, s') \<Longrightarrow> same_ifaces s s'"
proof (induction outs arbitrary: p s fx)
  case (Cons out outs)
  show ?case
  proof (cases "Ipv4Address_IsAny source \<or> list_ex (\<lambda>a. ia_local a = source) (if_addrs out)")
    case True
    with Cons.prems obtain fx1 s1 fx2 p1 where a: "L3_Send_route env p source destination protocol
          (proxy_route source destination (if_device out)) (L3_DecreaseIdentification source destination protocol s) = Inr (fx1, s1)"
        "L3_Send_broadcast env p1 source destination protocol outs s1 = Inr (fx2, s')"
      by (auto simp: res_simps)
    show ?thesis by (rule same_ifaces_trans [OF same_ifaces_trans [OF Decrease_ifaces Send_route_ifaces [OF a(1)]] Cons.IH [OF a(2)]])
  next
    case False
    with Cons show ?thesis by simp
  qed
qed simp

lemma Send_ifaces:
  assumes "L3_Send env RouteOutput p source destination protocol route s = Inr (fx, s')"
  shows "same_ifaces s s'"
proof (cases route)
  case (Some r)
  with assms Send_route_ifaces show ?thesis by (simp add: L3_Send_def)
next
  case None
  obtain q h s1 where hd: "L3_send_header env p source destination protocol s = Inr (q, h, s1)"
    using assms None by (auto simp: L3_Send_def res_simps)
  let ?s0 = "L3_DecreaseIdentification source destination protocol s1"
  have a: "same_ifaces s s1" "same_ifaces s ?s0" using send_header_ifaces [OF hd] same_ifaces_trans [OF _ Decrease_ifaces] by blast+
  consider "L3_Send_broadcast env p source destination protocol (l3_interfaces s1) s1 = Inr (fx, s')"
    | r where "L3_Send_route env p source destination protocol r ?s0 = Inr (fx, s')" | "s' = ?s0"
    using assms None hd by (auto simp: L3_Send_def res_simps proxy_route_def split: if_splits option.splits)
  then show ?thesis
  proof cases
    case 1
    show ?thesis by (rule same_ifaces_trans [OF a(1) Send_broadcast_ifaces [OF 1]])
  next
    case (2 r)
    show ?thesis by (rule same_ifaces_trans [OF a(2) Send_route_ifaces [OF 2]])
  qed (use a(2) in simp)
qed

lemma callback_ifaces: "L3_callback env a s = Inr (fx, s') \<Longrightarrow> same_ifaces s s'"
  by (induction env a s rule: L3_callback.induct)
    (auto simp: res_simps L3_LocalDeliver_def same_ifaces_def Let_def split: if_splits option.splits)

lemma callbacks_ifaces: "L3_callbacks env as s = Inr (fx, s') \<Longrightarrow> same_ifaces s s'"
proof (induction as arbitrary: s fx)
  case (Cons a as)
  then obtain fx1 s1 fx2 where "L3_callback env a s = Inr (fx1, s1)" "L3_callbacks env as s1 = Inr (fx2, s')" by (auto simp: res_simps)
  then show ?case using callback_ifaces Cons.IH same_ifaces_trans by blast
qed simp

lemma Receive_ifaces:
  assumes "L3_Receive env RouteInput device p from s = Inr (fx, s')"
  shows "same_ifaces s s'"
proof -
  have "s' = s \<or> (\<exists>i q h fx'. L3_input env RouteInput device i q h s = Inr (fx', s'))"
    using assms by (auto simp: L3_Receive_def Let_def res_simps split: option.splits if_splits)
  moreover have "same_ifaces s s'" if "L3_input env RouteInput device i q h s = Inr (fx', s')" for i q h fx'
  proof -
    from that obtain b fx1 s1 where d: "(if l3_enableDpd s \<and> Ipv4Address_IsMulticast (h_destination h)
          then L3_UpdateDuplicate env q h s else Inr (False, [], s)) = Inr (b, fx1, s1)"
        "s' = s1 \<or> (\<exists>acts fx2. L3_callbacks env acts s1 = Inr (fx2, s'))"
      unfolding L3_input_def bind_res_Inr_iff by (auto simp: res_simps split: if_splits) blast+
    then have "same_ifaces s s1" using UpdateDuplicate_ifaces by (auto split: if_splits)
    then show ?thesis using d(2) callbacks_ifaces same_ifaces_trans by blast
  qed
  ultimately show ?thesis by auto
qed

lemma wf_same_ifaces: "l3_wf env s \<Longrightarrow> same_ifaces s s' \<Longrightarrow> l3_wf env s'"
  by (simp add: l3_wf_def same_ifaces_def)

lemma l3_step_wf:
  assumes "l3_step env s s'" and "l3_wf env s"
  shows "l3_wf env s'"
  using assms
proof (induction rule: l3_step.induct)
  case (add_interface device s tc i s')
  let ?ifc = "Interface_SetForwarding (l3_ipForward s) (Interface_SetTrafficControl True
    (Interface_SetDevice (e_CreateCache env) (e_dev env) device
      (Interface_SetNode (e_CreateCache env) (e_dev env) (l3_node s) Interface_new)))"
  have s': "s' = snd (L3_AddIpv4Interface ?ifc s)"
    using add_interface.hyps(4) by (auto simp: L3_AddInterface_def Let_def res_simps)
  have f: "if_device ?ifc = device" "\<not> if_up ?ifc"
    by (simp_all add: Interface_SetForwarding_def Interface_SetTrafficControl_def Interface_SetDevice_def Interface_SetNode_def Interface_new_def)
  show ?case unfolding s'
    by (rule wf_append [OF add_interface.prems add_interface.hyps(3)]) (use add_interface.hyps f in \<open>simp_all add: iface_ok_def\<close>)
next
  case (add_address i a s b fx s')
  then obtain ifc where a: "L3_interface i s = Inr ifc" "s' = L3_set_interface i (ifc\<lparr>if_addrs := if_addrs ifc @ [a]\<rparr>) s"
    by (auto simp: L3_AddAddress_def Interface_AddAddress_def res_simps)
  show ?case unfolding a(2) by (rule wf_set_same [OF add_address.prems a(1)]) simp_all
next
  case (remove_address i n s b fx s')
  then obtain ifc as where a: "L3_interface i s = Inr ifc" "s' = L3_set_interface i (ifc\<lparr>if_addrs := as\<rparr>) s"
    by (auto simp: L3_RemoveAddress_def Interface_RemoveAddress_def Let_def res_simps split: if_splits)
  show ?case unfolding a(2) by (rule wf_set_same [OF remove_address.prems a(1)]) simp_all
next
  case (remove_local i a s b fx s')
  have "s' = s \<or> (\<exists>ifc. L3_interface i s = Inr ifc \<and> s' = L3_set_interface i (snd (Interface_RemoveAddress_local a ifc)) s)"
    using remove_local.hyps unfolding L3_RemoveAddress_local_def
    by (cases "a = 0x7f000001"; cases "L3_interface i s") (auto simp: case_prod_beta Let_def split: if_splits)
  then consider "s' = s" | ifc where "L3_interface i s = Inr ifc" "s' = L3_set_interface i (snd (Interface_RemoveAddress_local a ifc)) s"
    by blast
  then show ?case
  proof cases
    case 2
    show ?thesis unfolding 2(2)
      by (rule wf_set_same [OF remove_local.prems 2(1)]) (simp_all add: Interface_RemoveAddress_local_def case_prod_beta Let_def split: if_splits)
  qed (use remove_local.prems in simp)
next
  case (set_up i s fx s')
  then obtain ifc mtu where a: "L3_interface i s = Inr ifc" "L3_GetMtu env i s = Inr mtu"
      "s' = s \<or> 68 \<le> mtu \<and> s' = L3_set_interface i (Interface_SetUp ifc) s"
    by (auto simp: L3_SetUp_def res_simps split: if_splits)
  have "iface_ok env (Interface_SetUp ifc)" if "68 \<le> mtu"
    using a(1,2) that interface_ok [OF set_up.prems a(1)]
    by (auto simp: iface_ok_def Interface_SetUp_def L3_GetMtu_def res_simps word_le_nat_alt)
  then show ?case using a(3) set_up.prems wf_set_interface [OF set_up.prems a(1)] by (auto simp: Interface_SetUp_def)
next
  case (set_down i s fx s')
  then obtain ifc where a: "L3_interface i s = Inr ifc" "s' = L3_set_interface i (Interface_SetDown ifc) s"
    by (auto simp: L3_SetDown_def res_simps)
  show ?case unfolding a(2) by (rule wf_set_same [OF set_down.prems a(1)]) (simp_all add: Interface_SetDown_def)
next
  case (set_metric i metric s s')
  then obtain ifc where a: "L3_interface i s = Inr ifc" "s' = L3_set_interface i (Interface_SetMetric metric ifc) s"
    by (auto simp: L3_SetMetric_def res_simps)
  show ?case unfolding a(2) by (rule wf_set_same [OF set_metric.prems a(1)]) (simp_all add: Interface_SetMetric_def)
next
  case (set_forwarding i val s s')
  then obtain ifc where a: "L3_interface i s = Inr ifc" "s' = L3_set_interface i (Interface_SetForwarding val ifc) s"
    by (auto simp: L3_SetForwarding_def res_simps)
  show ?case unfolding a(2) by (rule wf_set_same [OF set_forwarding.prems a(1)]) (simp_all add: Interface_SetForwarding_def)
next
  case (set_ip_forward s val)
  show ?case
    by (rule wf_update [OF set_ip_forward])
      (use set_ip_forward in \<open>auto simp: L3_SetIpForward_def Interface_SetForwarding_def l3_wf_def list_all_length iface_ok_def\<close>)
next
  case (send now RouteOutput p source destination protocol route s fx s')
  then show ?case using Send_ifaces wf_same_ifaces by blast
next
  case receive
  then show ?case using Receive_ifaces wf_same_ifaces by blast
next
  case (purge s now)
  then show ?case by (simp add: L3_RemoveDuplicates_def Let_def l3_wf_def)
qed

lemma reachable_wf: "l3_reachable env s \<Longrightarrow> l3_wf env s"
proof (induction rule: l3_reachable.induct)
  case (initial s device)
  let ?ifc = "Interface_SetUp (snd (Interface_AddAddress (InterfaceAddress_of 0x7f000001 Ipv4Mask_GetLoopback)
    (Interface_SetNode (e_CreateCache env) (e_dev env) (l3_node s) (Interface_SetDevice (e_CreateCache env) (e_dev env) device Interface_new))))"
  have "l3_wf env s" using initial by (simp add: l3_wf_def)
  moreover have "if_device ?ifc = device"
    by (simp add: Interface_SetUp_def Interface_AddAddress_def Interface_SetDevice_def Interface_SetNode_def Interface_new_def)
  ultimately have "l3_wf env (snd (L3_AddIpv4Interface ?ifc s))"
    using initial by (intro wf_append) (simp_all add: iface_ok_def)
  then show ?case by (simp add: L3_SetupLoopback_def Let_def case_prod_beta)
next
  case (step s s')
  then show ?case using l3_step_wf by blast
qed

section \<open>Fragmentation ends\<close>

lemma bind_res_Inl_iff: "bind_res m f = Inl e \<longleftrightarrow> m = Inl e \<or> (\<exists>x. m = Inr x \<and> f x = Inl e)"
  by (cases m) auto

lemma TagRemove_fault:
  "PacketTagList_Remove PRIORITY_TAG SocketPriorityTag_Deserialize p = Inl e \<Longrightarrow> e = Assert"
  by (auto simp: PacketTagList_Remove_def SocketPriorityTag_Deserialize_def ReadU8_def split: option.splits list.splits)

lemma TrafficControl_Send_fault: "TrafficControl_Send SelectQueue tc device p hdr addr = Inl e \<Longrightarrow> e = Assert"
  using Serialize_total [of hdr] TagRemove_fault
  by (auto simp: TrafficControl_Send_def Let_def ns_assert_def split: if_splits option.splits elim!: bind_res.elims)

lemma Interface_Send_fault: "Interface_Send ArpLookup SelectQueue tc dev p hdr dest i = Inl e \<Longrightarrow> e = Assert"
  using Serialize_total [of hdr] TrafficControl_Send_fault
  by (auto simp: Interface_Send_def Let_def ns_assert_def split: if_splits option.splits)

lemma send_list_fault: "L3_send_list env interface target out xs = Inl e \<Longrightarrow> e = Assert"
proof (induction xs)
  case (Cons x xs)
  obtain p h where x: "x = (p, h)" by (cases x)
  obtain bs where "Ipv4Header_Serialize h = Inr bs" using Serialize_total by blast
  with Cons Interface_Send_fault show ?case by (auto simp: x bind_res_Inl_iff)
qed simp

section \<open>Properties\<close>

text \<open>
  C30. The interface tables stay consistent, and sending never hangs. In every state that a node can
  reach by configuration, sending, receiving and purging: a device leads to an interface index exactly if
  that interface exists and is on the device; an interface that is up is on a device, and unless it is the
  loopback device it takes 68 bytes; and \<open>SendRealOut\<close> of a datagram of up to 65535 bytes never stays in
  the loop of \<open>DoFragmentation\<close>, provided the loopback device takes that much as well. The devices keep their MTUs, and
  each is added once.
\<close>

theorem interfaces_consistent:
  assumes "l3_reachable env s" and "\<forall>d. dv_loopback (e_dev env d) \<longrightarrow> 68 \<le> unat (dv_mtu (e_dev env d))"
    and "h_headerSize h = 20" and "h_fragmentOffset h AND 7 = 0" and "length (pk_bytes p) \<le> 65535"
  shows "(\<forall>d i. L3_GetInterfaceForDevice d s = Some i \<longleftrightarrow> (\<exists>ifc. L3_interface i s = Inr ifc \<and> if_device ifc = d)) \<and>
    (\<forall>i ifc. L3_interface i s = Inr ifc \<and> if_up ifc \<longrightarrow> if_device ifc \<noteq> 0 \<and> 68 \<le> unat (dv_mtu (e_dev env (if_device ifc)))) \<and>
    L3_SendRealOut env rt p h s \<noteq> Inl NoFuel"
proof (intro conjI allI impI)
  have wf: "l3_wf env s" using assms(1) by (rule reachable_wf)
  show "L3_GetInterfaceForDevice d s = Some i \<longleftrightarrow> (\<exists>ifc. L3_interface i s = Inr ifc \<and> if_device ifc = d)" for d i
    using wf by (auto simp: L3_GetInterfaceForDevice_def l3_wf_def L3_interface_def res_simps)
  have up: "if_device ifc \<noteq> 0 \<and> 68 \<le> unat (dv_mtu (e_dev env (if_device ifc)))" if "L3_interface i s = Inr ifc" "if_up ifc" for i ifc
    using interface_ok [OF wf that(1)] that(2) assms(2) by (auto simp: iface_ok_def)
  show "if_device ifc \<noteq> 0" if "L3_interface i s = Inr ifc \<and> if_up ifc" for i ifc using up that by blast
  show "68 \<le> unat (dv_mtu (e_dev env (if_device ifc)))" if "L3_interface i s = Inr ifc \<and> if_up ifc" for i ifc using up that by blast
  show "L3_SendRealOut env rt p h s \<noteq> Inl NoFuel"
  proof
    assume a: "L3_SendRealOut env rt p h s = Inl NoFuel"
    then obtain r i ifc where b: "rt = Some r" "L3_interface i s = Inr ifc" "if_up ifc" "L3_GetInterfaceForDevice (rt_device r) s = Some i"
      by (auto simp: L3_SendRealOut_def Let_def bind_res_Inl_iff simp del: L3_send_list.simps split: option.splits if_splits)
        (auto simp: L3_interface_def ns_assert_def split: if_splits)
    let ?mtu = "dv_mtu (e_dev env (if_device ifc))"
    have m: "L3_GetMtu env i s = Inr ?mtu" "28 \<le> unat (ucast ?mtu :: u32)" "unat (ucast ?mtu :: u32) \<le> 65535"
      using b(2) up [OF b(2,3)] unsigned_less [of ?mtu, where 'a = nat] by (simp_all add: L3_GetMtu_def)
    have "DoFragmentation (e_ChecksumEnabled env) (Suc (length (pk_bytes p))) p h (ucast ?mtu) =
        Inr (map (fragment_of (e_ChecksumEnabled env) h p) (mtu_chunks (ucast ?mtu) (pk_bytes p)))"
      by (rule DoFragmentation_chunks [OF assms(3-5) m(2,3)]) simp
    then obtain target xs where "L3_send_list env i target ifc xs = Inl NoFuel"
      using a b m(1) by (auto simp: L3_SendRealOut_def Let_def simp del: L3_send_list.simps split: if_splits)
    then show False by (auto dest: send_list_fault)
  qed
qed

text \<open>A node with a loopback interface and one more that has been added and set up.\<close>

definition lo_env :: "nat l3_env" where
  "lo_env = (demo_env 1500)\<lparr>e_dev := (\<lambda>d. (e_dev (demo_env 1500) d)\<lparr>dv_loopback := (d = 3)\<rparr>)\<rparr>"

theorem interfaces_consistent_witness:
  "\<exists>s ifc. l3_reachable lo_env s \<and> L3_interface 1 s = Inr ifc \<and> if_up ifc \<and> if_device ifc = 7 \<and> L3_GetInterfaceForDevice 7 s = Some 1"
proof -
  let ?s0 = "(demo_l3 0)\<lparr>l3_interfaces := [], l3_reverse := Map.empty\<rparr>"
  let ?s1 = "snd (L3_SetupLoopback lo_env 3 ?s0)"
  have r1: "l3_reachable lo_env ?s1" by (rule l3_reachable.initial) (simp_all add: lo_env_def)
  have n: "length (l3_interfaces ?s1) = 1" "l3_reverse ?s1 = [3 \<mapsto> 0]" "l3_node ?s1 = 1"
    by (simp_all add: L3_SetupLoopback_def Let_def L3_AddIpv4Interface_def Interface_SetUp_def Interface_AddAddress_def
        Interface_SetNode_def Interface_SetDevice_def Interface_DoSetup_def Interface_new_def lo_env_def demo_env_def demo_l3_def)
  obtain i s2 where a: "L3_AddInterface lo_env True 7 ?s1 = Inr (i, s2)" "length (l3_interfaces s2) = 2" "if_device (l3_interfaces s2 ! 1) = 7"
    using n by (auto simp: L3_AddInterface_def Let_def L3_AddIpv4Interface_def Interface_SetForwarding_def Interface_SetTrafficControl_def
        Interface_SetNode_def Interface_SetDevice_def nth_append)
  have r2: "l3_reachable lo_env s2"
    by (rule l3_reachable.step [OF r1 l3_step.add_interface [OF _ _ _ a(1)]]) (simp_all add: n)
  obtain fx s3 ifc where b: "L3_SetUp lo_env 1 s2 = Inr (fx, s3)" "L3_interface 1 s3 = Inr ifc" "if_up ifc" "if_device ifc = 7"
    using a by (auto simp: L3_SetUp_def L3_GetMtu_def L3_interface_def L3_set_interface_def Interface_SetUp_def lo_env_def demo_env_def)
  have r3: "l3_reachable lo_env s3" by (rule l3_reachable.step [OF r2 l3_step.set_up [OF b(1)]])
  have lo: "\<forall>d. dv_loopback (e_dev lo_env d) \<longrightarrow> 68 \<le> unat (dv_mtu (e_dev lo_env d))" by (simp add: lo_env_def demo_env_def)
  have "L3_GetInterfaceForDevice 7 s3 = Some 1"
    using interfaces_consistent [OF r3 lo, of Ipv4Header_new demo_payload None] b
    by (auto simp: Ipv4Header_new_def demo_payload_def)
  with r3 b show ?thesis by blast
qed

end
