(* ===== verification/Link_State.thy ===== *)
theory Link_State
  imports Ipv4_Routing
begin

text \<open>
  The link state advertisements of \<open>internet/model/global-router-interface.cc\<close> and the database that
  \<open>global-route-manager-impl.cc\<close> keeps them in. An advertisement owns its link records, and copies are
  deep, so records are values. The advertisements of the database are shared with the shortest-path
  computation; the pointer to one is its key in the database.
\<close>

section \<open>Link records\<close>

datatype link_type = UnknownLink | PointToPoint | TransitNetwork | StubNetwork | VirtualLink

record link_record =
  lr_linkId :: ipv4
  lr_linkData :: ipv4
  lr_linkType :: link_type
  lr_metric :: u16

definition LinkRecord_new :: link_record where
  "LinkRecord_new = \<lparr>lr_linkId = 0, lr_linkData = 0, lr_linkType = UnknownLink, lr_metric = 0\<rparr>"

definition LinkRecord_of :: "link_type \<Rightarrow> ipv4 \<Rightarrow> ipv4 \<Rightarrow> u16 \<Rightarrow> link_record" where
  "LinkRecord_of linkType linkId linkData metric =
     \<lparr>lr_linkId = linkId, lr_linkData = linkData, lr_linkType = linkType, lr_metric = metric\<rparr>"

section \<open>Advertisements\<close>

datatype ls_type = UnknownLSA | RouterLSA | NetworkLSA | SummaryLSA | SummaryLSA_ASBR | ASExternalLSAs
datatype spf_status = LSA_SPF_NOT_EXPLORED | LSA_SPF_CANDIDATE | LSA_SPF_IN_SPFTREE

record lsa =
  ls_type :: ls_type
  ls_linkStateId :: ipv4
  ls_advertisingRtr :: ipv4
  ls_linkRecords :: "link_record list"
  ls_networkMask :: u32
  ls_attachedRouters :: "ipv4 list"
  ls_status :: spf_status
  ls_node :: u32

definition Lsa_new :: lsa where
  "Lsa_new =
     \<lparr>ls_type = UnknownLSA, ls_linkStateId = 0, ls_advertisingRtr = 0, ls_linkRecords = [], ls_networkMask = 0,
      ls_attachedRouters = [], ls_status = LSA_SPF_NOT_EXPLORED, ls_node = 0\<rparr>"

definition Lsa_of :: "spf_status \<Rightarrow> ipv4 \<Rightarrow> ipv4 \<Rightarrow> lsa" where
  "Lsa_of status linkStateId advertisingRtr =
     Lsa_new\<lparr>ls_status := status, ls_linkStateId := linkStateId, ls_advertisingRtr := advertisingRtr\<rparr>"

definition Lsa_CopyLinkRecords :: "lsa \<Rightarrow> lsa \<Rightarrow> lsa" where
  "Lsa_CopyLinkRecords src l =
     l\<lparr>ls_linkRecords := ls_linkRecords l @
          map (\<lambda>r. LinkRecord_new\<lparr>lr_linkType := lr_linkType r, lr_linkId := lr_linkId r, lr_linkData := lr_linkData r,
                                  lr_metric := lr_metric r\<rparr>) (ls_linkRecords src),
       ls_attachedRouters := ls_attachedRouters src\<rparr>"

definition Lsa_ClearLinkRecords :: "lsa \<Rightarrow> lsa" where
  "Lsa_ClearLinkRecords l = l\<lparr>ls_linkRecords := []\<rparr>"

text \<open>The assignment operator.\<close>

definition Lsa_assign :: "lsa \<Rightarrow> lsa \<Rightarrow> lsa" where
  "Lsa_assign src l =
     Lsa_CopyLinkRecords src (Lsa_ClearLinkRecords
       (l\<lparr>ls_type := ls_type src, ls_linkStateId := ls_linkStateId src, ls_advertisingRtr := ls_advertisingRtr src,
          ls_networkMask := ls_networkMask src, ls_status := ls_status src, ls_node := ls_node src\<rparr>))"

definition Lsa_AddLinkRecord :: "link_record \<Rightarrow> lsa \<Rightarrow> lsa" where
  "Lsa_AddLinkRecord lr l = l\<lparr>ls_linkRecords := ls_linkRecords l @ [lr]\<rparr>"

definition Lsa_GetLinkRecord :: "nat \<Rightarrow> lsa \<Rightarrow> link_record res" where
  "Lsa_GetLinkRecord n l = ns_assert (n < length (ls_linkRecords l)) (Inr (ls_linkRecords l ! n))"

definition Lsa_IsEmpty :: "lsa \<Rightarrow> bool" where
  "Lsa_IsEmpty l \<longleftrightarrow> length (ls_linkRecords l) = 0"

definition Lsa_AddAttachedRouter :: "ipv4 \<Rightarrow> lsa \<Rightarrow> lsa" where
  "Lsa_AddAttachedRouter addr l = l\<lparr>ls_attachedRouters := ls_attachedRouters l @ [addr]\<rparr>"

definition Lsa_GetAttachedRouter :: "nat \<Rightarrow> lsa \<Rightarrow> ipv4 res" where
  "Lsa_GetAttachedRouter n l = ns_assert (n < length (ls_attachedRouters l)) (Inr (ls_attachedRouters l ! n))"

definition Lsa_SetStatus :: "spf_status \<Rightarrow> lsa \<Rightarrow> lsa" where
  "Lsa_SetStatus status l = l\<lparr>ls_status := status\<rparr>"

text \<open>Assigning to any advertisement gives a copy of the source.\<close>

lemma Lsa_assign_eq: "Lsa_assign src l = src\<lparr>lsa.more := lsa.more l\<rparr>"
proof -
  have "(\<lambda>r :: link_record. LinkRecord_new\<lparr>lr_linkType := lr_linkType r, lr_linkId := lr_linkId r, lr_linkData := lr_linkData r,
      lr_metric := lr_metric r\<rparr>) = id"
    by (rule ext) (simp add: LinkRecord_new_def)
  then show ?thesis by (simp add: Lsa_assign_def Lsa_CopyLinkRecords_def Lsa_ClearLinkRecords_def)
qed

section \<open>The database\<close>

text \<open>
  A map from link state ids to advertisements, in the order of its keys, and the external advertisements
  in the order of their arrival.
\<close>

record lsdb =
  db_database :: "(ipv4 \<times> lsa) list"
  db_extdatabase :: "lsa list"

definition Lsdb_new :: lsdb where
  "Lsdb_new = \<lparr>db_database = [], db_extdatabase = []\<rparr>"

definition Lsdb_Initialize :: "lsdb \<Rightarrow> lsdb" where
  "Lsdb_Initialize d = d\<lparr>db_database := map (\<lambda>(k, l). (k, Lsa_SetStatus LSA_SPF_NOT_EXPLORED l)) (db_database d)\<rparr>"

text \<open>\<open>std::map::insert\<close> leaves the map alone when the key is there.\<close>

fun map_insert :: "ipv4 \<Rightarrow> 'a \<Rightarrow> (ipv4 \<times> 'a) list \<Rightarrow> (ipv4 \<times> 'a) list" where
  "map_insert k x [] = [(k, x)]"
| "map_insert k x ((j, y) # ys) = (if k < j then (k, x) # (j, y) # ys else if k = j then (j, y) # ys else (j, y) # map_insert k x ys)"

definition Lsdb_Insert :: "ipv4 \<Rightarrow> lsa \<Rightarrow> lsdb \<Rightarrow> lsdb" where
  "Lsdb_Insert addr l d =
     (if ls_type l = ASExternalLSAs then d\<lparr>db_extdatabase := db_extdatabase d @ [l]\<rparr>
      else d\<lparr>db_database := map_insert addr l (db_database d)\<rparr>)"

definition Lsdb_GetExtLSA :: "nat \<Rightarrow> lsdb \<Rightarrow> lsa res" where
  "Lsdb_GetExtLSA index d = (if index < length (db_extdatabase d) then Inr (db_extdatabase d ! index) else Inl Fatal)"

definition Lsdb_GetLSA :: "ipv4 \<Rightarrow> lsdb \<Rightarrow> lsa option" where
  "Lsdb_GetLSA addr d = map_of (db_database d) addr"

text \<open>The first advertisement that has a transit link with the address; with its key.\<close>

definition Lsdb_GetLSAByLinkData :: "ipv4 \<Rightarrow> lsdb \<Rightarrow> (ipv4 \<times> lsa) option" where
  "Lsdb_GetLSAByLinkData addr d =
     find (\<lambda>(k, l). list_ex (\<lambda>r. lr_linkType r = TransitNetwork \<and> lr_linkData r = addr) (ls_linkRecords l)) (db_database d)"

text \<open>Setting the status of the advertisement at a key.\<close>

definition Lsdb_SetStatus :: "ipv4 \<Rightarrow> spf_status \<Rightarrow> lsdb \<Rightarrow> lsdb" where
  "Lsdb_SetStatus k status d =
     d\<lparr>db_database := map (\<lambda>(j, l). (j, if j = k then Lsa_SetStatus status l else l)) (db_database d)\<rparr>"

lemma GetLSA_SetStatus:
  "Lsdb_GetLSA j (Lsdb_SetStatus k status d) =
     map_option (\<lambda>l. if j = k then Lsa_SetStatus status l else l) (Lsdb_GetLSA j d)"
proof -
  have "map_of (map (\<lambda>(j, l). (j, if j = k then Lsa_SetStatus status l else l)) xs) j =
      map_option (\<lambda>l. if j = k then Lsa_SetStatus status l else l) (map_of xs j)" for xs :: "(ipv4 \<times> lsa) list"
    by (induction xs) auto
  then show ?thesis by (simp add: Lsdb_GetLSA_def Lsdb_SetStatus_def)
qed

lemma GetLSA_Initialize:
  "Lsdb_GetLSA j (Lsdb_Initialize d) = map_option (Lsa_SetStatus LSA_SPF_NOT_EXPLORED) (Lsdb_GetLSA j d)"
proof -
  have "map_of (map (\<lambda>(j, l). (j, Lsa_SetStatus LSA_SPF_NOT_EXPLORED l)) xs) j =
      map_option (Lsa_SetStatus LSA_SPF_NOT_EXPLORED) (map_of xs j)" for xs :: "(ipv4 \<times> lsa) list"
    by (induction xs) auto
  then show ?thesis by (simp add: Lsdb_GetLSA_def Lsdb_Initialize_def)
qed

text \<open>Inserting keeps the keys in order and adds one entry, unless the key is there.\<close>

lemma map_of_map_insert:
  "sorted_wrt (<) (map fst xs) \<Longrightarrow>
    map_of (map_insert k x xs) = (if k \<in> fst ` set xs then map_of xs else (map_of xs)(k \<mapsto> x))"
proof (induction xs)
  case (Cons y ys)
  obtain j z where y: "y = (j, z)" by (cases y)
  show ?case
  proof (cases "k < j")
    case True
    with Cons.prems y have "k \<notin> fst ` set (y # ys)" by auto
    with True y show ?thesis by (simp add: fun_eq_iff)
  next
    case False
    with Cons y show ?thesis by (auto simp: fun_eq_iff)
  qed
qed simp

lemma set_map_insert: "set (map_insert k x xs) \<subseteq> insert (k, x) (set xs)"
  by (induction xs) (auto split: if_splits)

lemma sorted_map_insert: "sorted_wrt (<) (map fst xs) \<Longrightarrow> sorted_wrt (<) (map fst (map_insert k x xs))"
proof (induction xs)
  case (Cons y ys)
  obtain j z where y: "y = (j, z)" by (cases y)
  with Cons set_map_insert [of k x ys] show ?case by (auto simp: not_less order_le_less)
qed simp

end
