(* ===== verification/Spf_Tree.thy ===== *)
theory Spf_Tree
  imports Link_State "HOL-Library.Product_Lexorder"
begin

text \<open>
  The vertices of the shortest-path computation, from \<open>internet/model/global-route-manager-impl.cc\<close>, and
  \<open>candidate-queue.cc\<close>. Vertices refer to each other by pointer, as parents and children, and are freed by
  hand; they live in a store by address, and the candidate queue is a list of addresses. A null or dangling
  pointer is undefined.
\<close>

section \<open>Vertices\<close>

datatype vertex_type = VertexUnknown | VertexRouter | VertexNetwork

type_synonym node_exit = "ipv4 \<times> u32"

text \<open>
  \<open>sv_lsa\<close> is the key of the advertisement. The interface of an exit is an \<open>int32_t\<close>, read with \<open>sint\<close>.
\<close>

record spf_vertex =
  sv_type :: vertex_type
  sv_id :: ipv4
  sv_lsa :: ipv4
  sv_distance :: u32
  sv_rootOif :: u32
  sv_nextHop :: ipv4
  sv_exits :: "node_exit list"
  sv_parents :: "nat list"
  sv_children :: "nat list"
  sv_processed :: bool

type_synonym vertex_store = "nat \<rightharpoonup> spf_vertex"

definition SPF_INFINITY :: u32 where "SPF_INFINITY = 0xffffffff"

text \<open>The constructor from an advertisement leaves the type of the vertex uninitialized for any other kind.\<close>

definition SPFVertex_of :: "ipv4 \<times> lsa \<Rightarrow> spf_vertex res" where
  "SPFVertex_of x =
     (let (k, l) = x;
          v = \<lparr>sv_type = VertexUnknown, sv_id = ls_linkStateId l, sv_lsa = k, sv_distance = SPF_INFINITY,
               sv_rootOif = SPF_INFINITY, sv_nextHop = 0, sv_exits = [], sv_parents = [], sv_children = [],
               sv_processed = False\<rparr>
      in if ls_type l = RouterLSA then Inr (v\<lparr>sv_type := VertexRouter\<rparr>)
         else if ls_type l = NetworkLSA then Inr (v\<lparr>sv_type := VertexNetwork\<rparr>)
         else Inl Undefined)"

definition SPFVertex_SetParent :: "nat \<Rightarrow> spf_vertex \<Rightarrow> spf_vertex" where
  "SPFVertex_SetParent parent v = v\<lparr>sv_parents := [parent]\<rparr>"

definition SPFVertex_GetParent :: "nat \<Rightarrow> spf_vertex \<Rightarrow> nat" where
  "SPFVertex_GetParent i v = (if length (sv_parents v) \<le> i then 0 else sv_parents v ! i)"

text \<open>\<open>sort\<close> and \<open>unique\<close> of a list; pointers are compared as addresses.\<close>

definition SPFVertex_MergeParent :: "spf_vertex \<Rightarrow> spf_vertex \<Rightarrow> spf_vertex" where
  "SPFVertex_MergeParent w v = v\<lparr>sv_parents := remdups_adj (sort (sv_parents v @ sv_parents w))\<rparr>"

definition SPFVertex_SetRootExitDirection :: "node_exit \<Rightarrow> spf_vertex \<Rightarrow> spf_vertex" where
  "SPFVertex_SetRootExitDirection e v = v\<lparr>sv_exits := [e], sv_nextHop := fst e, sv_rootOif := snd e\<rparr>"

definition SPFVertex_GetRootExitDirection_at :: "nat \<Rightarrow> spf_vertex \<Rightarrow> node_exit res" where
  "SPFVertex_GetRootExitDirection_at i v = ns_assert (i < length (sv_exits v)) (Inr (sv_exits v ! i))"

definition SPFVertex_GetRootExitDirection :: "spf_vertex \<Rightarrow> node_exit res" where
  "SPFVertex_GetRootExitDirection v = ns_assert (length (sv_exits v) \<le> 1) (SPFVertex_GetRootExitDirection_at 0 v)"

definition exit_key :: "node_exit \<Rightarrow> ipv4 \<times> int" where
  "exit_key e = (fst e, sint (snd e))"

definition SPFVertex_MergeRootExitDirections :: "spf_vertex \<Rightarrow> spf_vertex \<Rightarrow> spf_vertex" where
  "SPFVertex_MergeRootExitDirections w v = v\<lparr>sv_exits := remdups_adj (sort_key exit_key (sv_exits v @ sv_exits w))\<rparr>"

definition SPFVertex_InheritAllRootExitDirections :: "spf_vertex \<Rightarrow> spf_vertex \<Rightarrow> spf_vertex" where
  "SPFVertex_InheritAllRootExitDirections w v = v\<lparr>sv_exits := sv_exits w\<rparr>"

definition SPFVertex_AddChild :: "nat \<Rightarrow> spf_vertex \<Rightarrow> spf_vertex" where
  "SPFVertex_AddChild child v = v\<lparr>sv_children := sv_children v @ [child]\<rparr>"

section \<open>The store\<close>

definition get_vertex :: "nat \<Rightarrow> vertex_store \<Rightarrow> spf_vertex res" where
  "get_vertex a st = (case st a of None \<Rightarrow> Inl Undefined | Some v \<Rightarrow> Inr v)"

definition on_vertex :: "nat \<Rightarrow> (spf_vertex \<Rightarrow> spf_vertex) \<Rightarrow> vertex_store \<Rightarrow> vertex_store res" where
  "on_vertex a f st = bind_res (get_vertex a st) (\<lambda>v. Inr (st(a \<mapsto> f v)))"

text \<open>\<open>SPFVertexAddParent\<close>: the vertex becomes a child of each of its parents.\<close>

definition SPFVertexAddParent :: "nat \<Rightarrow> vertex_store \<Rightarrow> vertex_store res" where
  "SPFVertexAddParent a st =
     bind_res (get_vertex a st) (\<lambda>v. fold_res (\<lambda>p. on_vertex p (SPFVertex_AddChild a)) (sv_parents v) st)"

text \<open>
  The destructor takes the vertex off the lists of its parents, and then deletes the first of its children
  until there is none: a child that is deleted takes itself off the list. The fuel bounds the nested calls
  and the rounds of the loop.
\<close>

fun delete_vertex :: "nat \<Rightarrow> nat \<Rightarrow> vertex_store \<Rightarrow> vertex_store res"
  and delete_children :: "nat \<Rightarrow> nat \<Rightarrow> vertex_store \<Rightarrow> vertex_store res" where
  "delete_vertex 0 a st = Inl NoFuel"
| "delete_vertex (Suc n) a st =
     bind_res (get_vertex a st) (\<lambda>v.
     bind_res (fold_res (\<lambda>p. on_vertex p (\<lambda>w. w\<lparr>sv_children := removeAll a (sv_children w)\<rparr>)) (sv_parents v) st) (\<lambda>st1.
     bind_res (delete_children n a st1) (\<lambda>st2. Inr (st2(a := None)))))"
| "delete_children 0 a st = Inl NoFuel"
| "delete_children (Suc n) a st =
     bind_res (get_vertex a st) (\<lambda>v.
       case sv_children v of
         [] \<Rightarrow> Inr st
       | p # ps \<Rightarrow> if p = 0 then delete_children n a st
                   else bind_res (delete_vertex n p st) (delete_children n a))"

text \<open>
  The walks over the tree: a visit of the vertex, and then of every child that is not yet processed. The
  fuel bounds the depth.
\<close>

definition set_processed :: "bool \<Rightarrow> spf_vertex \<Rightarrow> spf_vertex" where
  "set_processed value v = v\<lparr>sv_processed := value\<rparr>"

fun ClearVertexProcessed :: "nat \<Rightarrow> nat \<Rightarrow> vertex_store \<Rightarrow> vertex_store res" where
  "ClearVertexProcessed 0 a st = Inl NoFuel"
| "ClearVertexProcessed (Suc n) a st =
     bind_res (get_vertex a st) (\<lambda>v.
     bind_res (fold_res (ClearVertexProcessed n) (sv_children v) st) (on_vertex a (set_processed False)))"

section \<open>The candidate queue\<close>

definition CompareSPFVertex :: "spf_vertex \<Rightarrow> spf_vertex \<Rightarrow> bool" where
  "CompareSPFVertex v1 v2 =
     (if sv_distance v1 < sv_distance v2 then True
      else if sv_distance v1 = sv_distance v2 then
        (if sv_type v1 = VertexNetwork \<and> sv_type v2 = VertexRouter then True else False)
      else False)"

text \<open>\<open>upper_bound\<close> on the ordered list is the first candidate that the new one comes before.\<close>

fun Candidate_Push :: "vertex_store \<Rightarrow> nat \<Rightarrow> nat list \<Rightarrow> nat list res" where
  "Candidate_Push st vNew [] = Inr [vNew]"
| "Candidate_Push st vNew (c # cs) =
     bind_res (get_vertex vNew st) (\<lambda>v. bind_res (get_vertex c st) (\<lambda>w.
       if CompareSPFVertex v w then Inr (vNew # c # cs)
       else bind_res (Candidate_Push st vNew cs) (\<lambda>cs'. Inr (c # cs'))))"

definition Candidate_Pop :: "nat list \<Rightarrow> nat \<times> nat list" where
  "Candidate_Pop cs = (case cs of [] \<Rightarrow> (0, []) | c # cs' \<Rightarrow> (c, cs'))"

fun Candidate_Find :: "vertex_store \<Rightarrow> ipv4 \<Rightarrow> nat list \<Rightarrow> nat res" where
  "Candidate_Find st addr [] = Inr 0"
| "Candidate_Find st addr (c # cs) =
     bind_res (get_vertex c st) (\<lambda>v. if sv_id v = addr then Inr c else Candidate_Find st addr cs)"

text \<open>\<open>std::list::sort\<close> is stable: equal candidates stay in their order.\<close>

definition Candidate_Reorder :: "vertex_store \<Rightarrow> nat list \<Rightarrow> nat list res" where
  "Candidate_Reorder st cs = fold_res (Candidate_Push st) cs []"

end
