(* ===== verification/Route_Manager.thy ===== *)
theory Route_Manager
  imports Spf_Tree Ipv4_L3
begin

text \<open>
  \<open>internet/model/global-route-manager-impl.cc\<close>: the computation of the routes of all nodes, derived from
  the shortest-path first algorithm of OSPF. One pass starts at one router, builds the tree of shortest
  paths over the link state database, and writes the routes to the table of the router at its root.
  \<open>ipv4-global-routing-helper.cc\<close> calls it for all of them. What a router advertises (\<open>DiscoverLSAs\<close>) is an
  argument; \<open>Global_Router\<close> defines it.
\<close>

section \<open>State\<close>

text \<open>
  A router of the node list with its id, the advertisements it has found, its routing protocol and the routes
  injected from outside; a node with its router and its IP layer. A missing object is \<open>None\<close>.
\<close>

record global_router =
  gr_routerId :: ipv4
  gr_LSAs :: "lsa list"
  gr_routing :: "global_routing option"
  gr_injected :: "routing_entry list"

record 'p gnode =
  gn_systemId :: u32
  gn_router :: "global_router option"
  gn_ipv4 :: "'p l3 option"

record 'p grm =
  gm_lsdb :: lsdb
  gm_store :: vertex_store
  gm_next :: nat
  gm_spfroot :: nat
  gm_nodes :: "'p gnode list"

definition get_lsa :: "ipv4 \<Rightarrow> 'p grm \<Rightarrow> lsa res" where
  "get_lsa k s = (case Lsdb_GetLSA k (gm_lsdb s) of None \<Rightarrow> Inl Undefined | Some l \<Rightarrow> Inr l)"

definition set_status :: "ipv4 \<Rightarrow> spf_status \<Rightarrow> 'p grm \<Rightarrow> 'p grm" where
  "set_status k status s = s\<lparr>gm_lsdb := Lsdb_SetStatus k status (gm_lsdb s)\<rparr>"

definition vertex :: "nat \<Rightarrow> 'p grm \<Rightarrow> spf_vertex res" where
  "vertex a s = get_vertex a (gm_store s)"

definition update_store :: "(vertex_store \<Rightarrow> vertex_store res) \<Rightarrow> 'p grm \<Rightarrow> 'p grm res" where
  "update_store f s = bind_res (f (gm_store s)) (\<lambda>st. Inr (s\<lparr>gm_store := st\<rparr>))"

definition update_vertex :: "nat \<Rightarrow> (spf_vertex \<Rightarrow> spf_vertex) \<Rightarrow> 'p grm \<Rightarrow> 'p grm res" where
  "update_vertex a f = update_store (on_vertex a f)"

definition new_vertex :: "ipv4 \<times> lsa \<Rightarrow> 'p grm \<Rightarrow> (nat \<times> 'p grm) res" where
  "new_vertex x s =
     bind_res (SPFVertex_of x) (\<lambda>v.
       Inr (gm_next s, s\<lparr>gm_store := (gm_store s)(gm_next s \<mapsto> v), gm_next := gm_next s + 1\<rparr>))"

text \<open>Rounds that are enough to delete, or to walk, what is in the store.\<close>

definition store_fuel :: "'p grm \<Rightarrow> nat" where
  "store_fuel s = 2 * gm_next s + 2"

definition delete_at :: "nat \<Rightarrow> 'p grm \<Rightarrow> 'p grm res" where
  "delete_at a s = update_store (delete_vertex (store_fuel s) a) s"

section \<open>The router at the root\<close>

definition is_router :: "ipv4 \<Rightarrow> 'p gnode \<Rightarrow> bool" where
  "is_router routerId n \<longleftrightarrow> (case gn_router n of None \<Rightarrow> False | Some r \<Rightarrow> gr_routerId r = routerId)"

definition outgoing_interface :: "nat option \<Rightarrow> u32" where
  "outgoing_interface i = (case i of None \<Rightarrow> - 1 | Some n \<Rightarrow> of_nat n)"

definition FindOutgoingInterfaceId :: "ipv4 \<Rightarrow> u32 \<Rightarrow> 'p grm \<Rightarrow> u32 res" where
  "FindOutgoingInterfaceId a amask s =
     bind_res (vertex (gm_spfroot s) s) (\<lambda>root.
       case find (is_router (sv_id root)) (gm_nodes s) of
         None \<Rightarrow> Inr (- 1)
       | Some n \<Rightarrow>
           (case gn_ipv4 n of None \<Rightarrow> Inl Assert | Some ip \<Rightarrow> Inr (outgoing_interface (L3_GetInterfaceForPrefix a amask ip))))"

text \<open>Writing to the routing protocol of a node that is a router.\<close>

definition on_routing :: "(global_routing option \<Rightarrow> global_routing option res) \<Rightarrow> 'p gnode \<Rightarrow> 'p gnode res" where
  "on_routing f n =
     (case gn_router n of
        None \<Rightarrow> Inl Assert
      | Some r \<Rightarrow> bind_res (f (gr_routing r)) (\<lambda>g. Inr (n\<lparr>gn_router := Some (r\<lparr>gr_routing := g\<rparr>)\<rparr>)))"

definition on_node :: "nat \<Rightarrow> ('p gnode \<Rightarrow> 'p gnode res) \<Rightarrow> 'p grm \<Rightarrow> 'p grm res" where
  "on_node i f s = bind_res (f (gm_nodes s ! i)) (\<lambda>n. Inr (s\<lparr>gm_nodes := (gm_nodes s)[i := n]\<rparr>))"

definition write_routes :: "(global_routing option \<Rightarrow> global_routing option res) \<Rightarrow> 'p gnode \<Rightarrow> 'p gnode res" where
  "write_routes f n = ns_assert (gn_ipv4 n \<noteq> None) (on_routing f n)"

text \<open>The loops over the nodes that stop at the router at the root.\<close>

definition on_root_router :: "(global_routing option \<Rightarrow> global_routing option res) \<Rightarrow> 'p grm \<Rightarrow> 'p grm res" where
  "on_root_router f s =
     ns_assert (gm_spfroot s \<noteq> 0)
      (bind_res (vertex (gm_spfroot s) s) (\<lambda>root.
        case first_index (is_router (sv_id root)) 0 (gm_nodes s) of
          None \<Rightarrow> Inr s
        | Some i \<Rightarrow> on_node i (write_routes f) s))"

definition with_routing :: "(global_routing \<Rightarrow> global_routing) \<Rightarrow> global_routing option \<Rightarrow> global_routing option res" where
  "with_routing f g = (case g of None \<Rightarrow> Inl Assert | Some gr \<Rightarrow> Inr (Some (f gr)))"

text \<open>The exits whose interface is not negative are used.\<close>

definition add_exits :: "(ipv4 \<Rightarrow> u32 \<Rightarrow> global_routing \<Rightarrow> global_routing) \<Rightarrow> node_exit list \<Rightarrow> global_routing \<Rightarrow> global_routing" where
  "add_exits add exits g = fold (\<lambda>(nextHop, outIf). if 0 \<le> sint outIf then add nextHop outIf else id) exits g"

definition SPFIntraAddRouter :: "nat \<Rightarrow> 'p grm \<Rightarrow> 'p grm res" where
  "SPFIntraAddRouter v s =
     bind_res (vertex v s) (\<lambda>vx. bind_res (get_lsa (sv_lsa vx) s) (\<lambda>l.
       on_root_router (\<lambda>g.
         fold_res (\<lambda>lr. if lr_linkType lr \<noteq> PointToPoint then Inr
                        else with_routing (add_exits (GlobalRouting_AddHostRouteTo (lr_linkData lr)) (sv_exits vx)))
           (ls_linkRecords l) g) s))"

text \<open>This loop does not stop: every node with the id gets the routes.\<close>

definition SPFIntraAddTransit :: "nat \<Rightarrow> 'p grm \<Rightarrow> 'p grm res" where
  "SPFIntraAddTransit v s =
     ns_assert (gm_spfroot s \<noteq> 0)
      (bind_res (vertex v s) (\<lambda>vx. bind_res (get_lsa (sv_lsa vx) s) (\<lambda>l. bind_res (vertex (gm_spfroot s) s) (\<lambda>root.
        let tempmask = ls_networkMask l; tempip = Ipv4Address_CombineMask (ls_linkStateId l) tempmask
        in fold_res (\<lambda>i s'.
             if is_router (sv_id root) (gm_nodes s' ! i)
             then on_node i (write_routes (with_routing (add_exits (GlobalRouting_AddNetworkRouteTo tempip tempmask) (sv_exits vx)))) s'
             else Inr s') [0..<length (gm_nodes s)] s))))"

definition SPFIntraAddStub :: "link_record \<Rightarrow> nat \<Rightarrow> 'p grm \<Rightarrow> 'p grm res" where
  "SPFIntraAddStub l v s =
     ns_assert (gm_spfroot s \<noteq> 0)
      (bind_res (vertex v s) (\<lambda>vx. bind_res (vertex (gm_spfroot s) s) (\<lambda>root.
        if sv_id vx = sv_id root then Inr s
        else
          let tempmask = lr_linkData l; tempip = Ipv4Address_CombineMask (lr_linkId l) tempmask
          in on_root_router (with_routing (add_exits (GlobalRouting_AddNetworkRouteTo tempip tempmask) (sv_exits vx))) s)))"

definition SPFAddASExternal :: "lsa \<Rightarrow> nat \<Rightarrow> 'p grm \<Rightarrow> 'p grm res" where
  "SPFAddASExternal extlsa v s =
     ns_assert (gm_spfroot s \<noteq> 0)
      (bind_res (vertex v s) (\<lambda>vx. bind_res (vertex (gm_spfroot s) s) (\<lambda>root.
        if sv_id vx = sv_id root then Inr s
        else
          let tempmask = ls_networkMask extlsa; tempip = Ipv4Address_CombineMask (ls_linkStateId extlsa) tempmask
          in on_root_router (with_routing (add_exits (GlobalRouting_AddASExternalRouteTo tempip tempmask) (sv_exits vx))) s)))"

section \<open>Next hops\<close>

text \<open>
  \<open>SPFGetNextLink\<close>: the records of the first vertex that lead to the second. The previous link is only a
  flag: without one the first record is returned, with one the third.
\<close>

fun next_link :: "ipv4 \<Rightarrow> bool \<Rightarrow> bool \<Rightarrow> link_record list \<Rightarrow> link_record option" where
  "next_link w skip found_prev_link [] = None"
| "next_link w skip found_prev_link (l # ls) =
     (if lr_linkId l = w then
        if \<not> found_prev_link then next_link w skip True ls
        else if \<not> skip then Some l
        else next_link w False found_prev_link ls
      else next_link w skip found_prev_link ls)"

definition SPFGetNextLink :: "nat \<Rightarrow> nat \<Rightarrow> bool \<Rightarrow> 'p grm \<Rightarrow> link_record option res" where
  "SPFGetNextLink v w prev_link s =
     bind_res (vertex v s) (\<lambda>vx. bind_res (get_lsa (sv_lsa vx) s) (\<lambda>l. bind_res (vertex w s) (\<lambda>wx.
       Inr (next_link (sv_id wx) prev_link (\<not> prev_link) (ls_linkRecords l)))))"

text \<open>The loop over the links of a router that point back to a network next to the root.\<close>

fun network_exits :: "nat \<Rightarrow> nat \<Rightarrow> nat \<Rightarrow> bool \<Rightarrow> 'p grm \<Rightarrow> 'p grm res" where
  "network_exits 0 v w linkRemote s = Inl NoFuel"
| "network_exits (Suc n) v w linkRemote s =
     bind_res (SPFGetNextLink w v linkRemote s) (\<lambda>r.
       case r of
         None \<Rightarrow> Inr s
       | Some lr \<Rightarrow>
           bind_res (vertex v s) (\<lambda>vx. bind_res (SPFVertex_GetRootExitDirection vx) (\<lambda>(nh, outIf).
           bind_res (update_vertex w (SPFVertex_SetRootExitDirection (lr_linkData lr, outIf)) s) (network_exits n v w True))))"

definition NEXT_LINKS :: nat where "NEXT_LINKS = 3"

definition finish_vertex :: "nat \<Rightarrow> u32 \<Rightarrow> spf_vertex \<Rightarrow> spf_vertex" where
  "finish_vertex v distance w = SPFVertex_SetParent v (w\<lparr>sv_distance := distance\<rparr>)"

definition SPFNexthopCalculation :: "nat \<Rightarrow> nat \<Rightarrow> link_record option \<Rightarrow> u32 \<Rightarrow> 'p grm \<Rightarrow> 'p grm res" where
  "SPFNexthopCalculation v w l distance s =
     bind_res (vertex v s) (\<lambda>vx. bind_res (vertex w s) (\<lambda>wx.
     bind_res
       (if v = gm_spfroot s then
          if sv_type wx = VertexRouter then
            (case l of
               None \<Rightarrow> Inl Assert
             | Some lr \<Rightarrow>
                 bind_res (SPFGetNextLink w v False s) (\<lambda>r.
                   case r of
                     None \<Rightarrow> Inl Undefined
                   | Some linkRemote \<Rightarrow>
                       bind_res (FindOutgoingInterfaceId (lr_linkData lr) Ipv4Mask_GetOnes s) (\<lambda>outIf.
                         update_vertex w (SPFVertex_SetRootExitDirection (lr_linkData linkRemote, outIf)) s)))
          else
            ns_assert (sv_type wx = VertexNetwork)
             (bind_res (get_lsa (sv_lsa wx) s) (\<lambda>w_lsa.
               ns_assert (ls_type w_lsa = NetworkLSA)
                (bind_res (FindOutgoingInterfaceId (ls_linkStateId w_lsa) (ls_networkMask w_lsa) s) (\<lambda>outIf.
                  update_vertex w (SPFVertex_SetRootExitDirection (0, outIf)) s))))
        else if sv_type vx = VertexNetwork then
          if SPFVertex_GetParent 0 vx = gm_spfroot s then
            ns_assert (sv_type wx = VertexRouter) (network_exits NEXT_LINKS v w False s)
          else bind_res (SPFVertex_GetRootExitDirection vx) (\<lambda>e. update_vertex w (SPFVertex_SetRootExitDirection e) s)
        else update_vertex w (SPFVertex_InheritAllRootExitDirections vx) s)
       (update_vertex w (finish_vertex v distance))))"

section \<open>The first stage: routers and transit networks\<close>

text \<open>
  One link of the vertex \<open>v\<close>, from step (c) of the comments on: \<open>w_lsa\<close> is the advertisement at its other
  end, with its key, and \<open>l\<close> the link record when \<open>v\<close> is a router.
\<close>

definition explore :: "nat \<Rightarrow> link_record option \<Rightarrow> u32 \<Rightarrow> ipv4 \<times> lsa \<Rightarrow> nat list \<times> 'p grm \<Rightarrow> (nat list \<times> 'p grm) res" where
  "explore v l distance w_lsa cs =
     (let (candidate, s) = cs in
      bind_res (new_vertex w_lsa s) (\<lambda>(w, s1).
      bind_res (SPFNexthopCalculation v w l distance s1) (\<lambda>s2.
        let s3 = set_status (fst w_lsa) LSA_SPF_CANDIDATE s2
        in bind_res (Candidate_Push (gm_store s3) w candidate) (\<lambda>candidate1. Inr (candidate1, s3)))))"

definition merge_candidate :: "nat \<Rightarrow> nat \<Rightarrow> link_record option \<Rightarrow> u32 \<Rightarrow> ipv4 \<times> lsa \<Rightarrow> 'p grm \<Rightarrow> 'p grm res" where
  "merge_candidate v cw l distance w_lsa s =
     bind_res (new_vertex w_lsa s) (\<lambda>(w, s1).
     bind_res (SPFNexthopCalculation v w l distance s1) (\<lambda>s2.
     bind_res (vertex w s2) (\<lambda>wx.
     bind_res (update_vertex cw (\<lambda>x. SPFVertex_MergeParent wx (SPFVertex_MergeRootExitDirections wx x)) s2) (\<lambda>s3.
     bind_res (update_store (SPFVertexAddParent w) s3) (delete_at w)))))"

definition improve :: "nat \<Rightarrow> link_record option \<Rightarrow> u32 \<Rightarrow> ipv4 \<times> lsa \<Rightarrow> nat list \<times> 'p grm \<Rightarrow> (nat list \<times> 'p grm) res" where
  "improve v l distance w_lsa cs =
     (let (candidate, s) = cs in
      bind_res (Candidate_Find (gm_store s) (ls_linkStateId (snd w_lsa)) candidate) (\<lambda>cw.
      bind_res (vertex cw s) (\<lambda>cwx.
        if sv_distance cwx < distance then Inr (candidate, s)
        else if sv_distance cwx = distance then
          bind_res (merge_candidate v cw l distance w_lsa s) (\<lambda>s1. Inr (candidate, s1))
        else
          bind_res (SPFNexthopCalculation v cw l distance s) (\<lambda>s1.
          bind_res (Candidate_Reorder (gm_store s1) candidate) (\<lambda>candidate1. Inr (candidate1, s1))))))"

definition relax :: "nat \<Rightarrow> link_record option \<Rightarrow> ipv4 \<times> lsa \<Rightarrow> nat list \<times> 'p grm \<Rightarrow> (nat list \<times> 'p grm) res" where
  "relax v l w_lsa cs =
     (if ls_status (snd w_lsa) = LSA_SPF_IN_SPFTREE then Inr cs
      else
        bind_res (vertex v (snd cs)) (\<lambda>vx. bind_res (get_lsa (sv_lsa vx) (snd cs)) (\<lambda>v_lsa.
        bind_res
          (if ls_type v_lsa = RouterLSA then
             (case l of None \<Rightarrow> Inl Assert | Some lr \<Rightarrow> Inr (sv_distance vx + ucast (lr_metric lr)))
           else Inr (sv_distance vx)) (\<lambda>distance.
          if ls_status (snd w_lsa) = LSA_SPF_NOT_EXPLORED then explore v l distance w_lsa cs
          else improve v l distance w_lsa cs))))"

text \<open>A link record of a router, and an attached router of a network.\<close>

definition relax_record :: "nat \<Rightarrow> link_record \<Rightarrow> nat list \<times> 'p grm \<Rightarrow> (nat list \<times> 'p grm) res" where
  "relax_record v l cs =
     (if lr_linkType l = StubNetwork then Inr cs
      else if lr_linkType l = PointToPoint \<or> lr_linkType l = TransitNetwork then
        (case Lsdb_GetLSA (lr_linkId l) (gm_lsdb (snd cs)) of
           None \<Rightarrow> Inl Assert
         | Some w_lsa \<Rightarrow> relax v (Some l) (lr_linkId l, w_lsa) cs)
      else Inl Assert)"

definition relax_attached :: "nat \<Rightarrow> ipv4 \<Rightarrow> nat list \<times> 'p grm \<Rightarrow> (nat list \<times> 'p grm) res" where
  "relax_attached v addr cs =
     (case Lsdb_GetLSAByLinkData addr (gm_lsdb (snd cs)) of
        None \<Rightarrow> Inr cs
      | Some w_lsa \<Rightarrow> relax v None w_lsa cs)"

definition SPFNext :: "nat \<Rightarrow> nat list \<times> 'p grm \<Rightarrow> (nat list \<times> 'p grm) res" where
  "SPFNext v cs =
     bind_res (vertex v (snd cs)) (\<lambda>vx. bind_res (get_lsa (sv_lsa vx) (snd cs)) (\<lambda>l.
       case sv_type vx of
         VertexRouter \<Rightarrow> fold_res (relax_record v) (ls_linkRecords l) cs
       | VertexNetwork \<Rightarrow> fold_res (relax_attached v) (ls_attachedRouters l) cs
       | VertexUnknown \<Rightarrow> Inr cs))"

section \<open>The second stage: stubs and externals\<close>

fun walk_tree :: "(nat \<Rightarrow> 'p grm \<Rightarrow> 'p grm res) \<Rightarrow> nat \<Rightarrow> nat \<Rightarrow> 'p grm \<Rightarrow> 'p grm res" where
  "walk_tree visit 0 a s = Inl NoFuel"
| "walk_tree visit (Suc n) a s =
     bind_res (visit a s) (\<lambda>s1. bind_res (vertex a s1) (\<lambda>v.
       fold_res (\<lambda>c s2. bind_res (vertex c s2) (\<lambda>cx.
           if sv_processed cx then Inr s2
           else bind_res (walk_tree visit n c s2) (update_vertex c (set_processed True)))) (sv_children v) s1))"

definition visit_stubs :: "nat \<Rightarrow> 'p grm \<Rightarrow> 'p grm res" where
  "visit_stubs a s =
     bind_res (vertex a s) (\<lambda>v.
       if sv_type v = VertexRouter then
         bind_res (get_lsa (sv_lsa v) s) (\<lambda>l.
           fold_res (\<lambda>lr. if lr_linkType lr = StubNetwork then SPFIntraAddStub lr a else Inr) (ls_linkRecords l) s)
       else Inr s)"

definition SPFProcessStubs :: "nat \<Rightarrow> nat \<Rightarrow> 'p grm \<Rightarrow> 'p grm res" where
  "SPFProcessStubs n a s = walk_tree visit_stubs n a s"

definition visit_external :: "lsa \<Rightarrow> nat \<Rightarrow> 'p grm \<Rightarrow> 'p grm res" where
  "visit_external extlsa a s =
     bind_res (vertex a s) (\<lambda>v.
       if sv_type v = VertexRouter then
         bind_res (get_lsa (sv_lsa v) s) (\<lambda>l.
           if ls_linkStateId l = ls_advertisingRtr extlsa then SPFAddASExternal extlsa a s else Inr s)
       else Inr s)"

definition ProcessASExternals :: "nat \<Rightarrow> lsa \<Rightarrow> nat \<Rightarrow> 'p grm \<Rightarrow> 'p grm res" where
  "ProcessASExternals n extlsa a s = walk_tree (visit_external extlsa) n a s"

section \<open>One pass\<close>

text \<open>\<open>CheckForStubNode\<close>: a node with one link to another router gets a default route; the links that count.\<close>

definition transit_links :: "lsa \<Rightarrow> link_record list" where
  "transit_links l = filter (\<lambda>r. lr_linkType r = TransitNetwork \<or> lr_linkType r = PointToPoint) (ls_linkRecords l)"

definition CheckForStubNode :: "ipv4 \<Rightarrow> 'p grm \<Rightarrow> (bool \<times> 'p grm) res" where
  "CheckForStubNode root s =
     bind_res (get_lsa root s) (\<lambda>rlsa.
       case transit_links rlsa of
         [] \<Rightarrow> Inr (True, s)
       | [transitLink] \<Rightarrow>
           if lr_linkType transitLink = TransitNetwork then Inr (False, s)
           else
             bind_res (get_lsa (lr_linkId transitLink) s) (\<lambda>w_lsa.
               case find (\<lambda>lr. lr_linkType lr = PointToPoint \<and> lr_linkId lr = ls_linkStateId rlsa) (ls_linkRecords w_lsa) of
                 None \<Rightarrow> Inr (False, s)
               | Some lr \<Rightarrow>
                   ns_assert (unat (ls_node rlsa) < length (gm_nodes s))
                    (bind_res (FindOutgoingInterfaceId (lr_linkData transitLink) Ipv4Mask_GetOnes s) (\<lambda>outIf.
                     bind_res (on_node (unat (ls_node rlsa))
                         (on_routing (with_routing (GlobalRouting_AddNetworkRouteTo 0 0 (lr_linkData lr) outIf))) s) (\<lambda>s1.
                       Inr (True, s1)))))
       | _ \<Rightarrow> Inr (False, s))"

text \<open>A vertex taken from the queue is put on the tree, and its routes are written.\<close>

definition add_to_tree :: "nat \<Rightarrow> 'p grm \<Rightarrow> 'p grm res" where
  "add_to_tree v s =
     bind_res (vertex v s) (\<lambda>vx.
     bind_res (update_store (SPFVertexAddParent v) (set_status (sv_lsa vx) LSA_SPF_IN_SPFTREE s)) (\<lambda>s1.
       case sv_type vx of
         VertexRouter \<Rightarrow> SPFIntraAddRouter v s1
       | VertexNetwork \<Rightarrow> SPFIntraAddTransit v s1
       | VertexUnknown \<Rightarrow> Inl Assert))"

fun SPF_loop :: "nat \<Rightarrow> nat \<Rightarrow> nat list \<times> 'p grm \<Rightarrow> 'p grm res" where
  "SPF_loop 0 v cs = Inl NoFuel"
| "SPF_loop (Suc n) v cs =
     bind_res (SPFNext v cs) (\<lambda>(candidate, s).
       if candidate = [] then Inr s
       else let (u, candidate1) = Candidate_Pop candidate
            in bind_res (add_to_tree u s) (\<lambda>s1. SPF_loop n u (candidate1, s1)))"

definition start_tree :: "ipv4 \<Rightarrow> 'p grm \<Rightarrow> (nat \<times> 'p grm) res" where
  "start_tree root s =
     (let s0 = s\<lparr>gm_lsdb := Lsdb_Initialize (gm_lsdb s)\<rparr> in
      bind_res (get_lsa root s0) (\<lambda>l.
      bind_res (new_vertex (root, l) s0) (\<lambda>(v, s1).
      bind_res (update_vertex v (\<lambda>x. x\<lparr>sv_distance := 0\<rparr>) (s1\<lparr>gm_spfroot := v\<rparr>)) (\<lambda>s2.
        Inr (v, set_status root LSA_SPF_IN_SPFTREE s2)))))"

definition second_stage :: "nat \<Rightarrow> 'p grm \<Rightarrow> 'p grm res" where
  "second_stage v s =
     bind_res (SPFProcessStubs (store_fuel s) v s) (\<lambda>s1.
       fold_res (\<lambda>extlsa s2.
           bind_res (update_store (ClearVertexProcessed (store_fuel s2) v) s2) (\<lambda>s3. ProcessASExternals (store_fuel s3) extlsa v s3))
         (db_extdatabase (gm_lsdb s1)) s1)"

definition SPFCalculate :: "ipv4 \<Rightarrow> 'p grm \<Rightarrow> 'p grm res" where
  "SPFCalculate root s =
     bind_res (start_tree root s) (\<lambda>(v, s1).
     bind_res (if gm_nodes s1 \<noteq> [] then CheckForStubNode root s1 else Inr (False, s1)) (\<lambda>(stub, s2).
       if stub then delete_at v s2
       else
         bind_res (SPF_loop (length (db_database (gm_lsdb s2))) v ([], s2)) (\<lambda>s3.
         bind_res (second_stage v s3) (\<lambda>s4.
         bind_res (delete_at v s4) (\<lambda>s5. Inr (s5\<lparr>gm_spfroot := 0\<rparr>))))))"

section \<open>All routers\<close>

definition DeleteGlobalRoutes :: "'p grm \<Rightarrow> 'p grm res" where
  "DeleteGlobalRoutes s =
     bind_res (fold_res (\<lambda>i s1.
         if gn_router (gm_nodes s1 ! i) = None then Inr s1
         else on_node i (on_routing (\<lambda>g.
                case g of
                  None \<Rightarrow> Inl Assert
                | Some gr \<Rightarrow>
                    bind_res (fold_res (\<lambda>j. GlobalRouting_RemoveRoute 0) [0..<unat (GlobalRouting_GetNRoutes gr)] gr) (\<lambda>gr'. Inr (Some gr')))) s1)
       [0..<length (gm_nodes s)] s) (\<lambda>s1. Inr (s1\<lparr>gm_lsdb := Lsdb_new\<rparr>))"

text \<open>The advertisements that the router of a node discovers are copied into the database.\<close>

definition BuildGlobalRoutingDatabase :: "(nat \<Rightarrow> 'p gnode list \<Rightarrow> lsa list res) \<Rightarrow> 'p grm \<Rightarrow> 'p grm res" where
  "BuildGlobalRoutingDatabase DiscoverLSAs s =
     fold_res (\<lambda>i s1.
         case gn_router (gm_nodes s1 ! i) of
           None \<Rightarrow> Inr s1
         | Some rtr \<Rightarrow>
             bind_res (DiscoverLSAs i (gm_nodes s1)) (\<lambda>lsas.
               Inr (s1\<lparr>gm_nodes := (gm_nodes s1)[i := (gm_nodes s1 ! i)\<lparr>gn_router := Some (rtr\<lparr>gr_LSAs := lsas\<rparr>)\<rparr>],
                       gm_lsdb := fold (\<lambda>l d. let l' = Lsa_assign l Lsa_new in Lsdb_Insert (ls_linkStateId l') l' d) lsas (gm_lsdb s1)\<rparr>)))
       [0..<length (gm_nodes s)] s"

definition InitializeRoutes :: "u32 \<Rightarrow> 'p grm \<Rightarrow> 'p grm res" where
  "InitializeRoutes systemId s =
     fold_res (\<lambda>i s1.
         if gn_systemId (gm_nodes s1 ! i) \<noteq> systemId then Inr s1
         else case gn_router (gm_nodes s1 ! i) of
                None \<Rightarrow> Inr s1
              | Some rtr \<Rightarrow> if length (gr_LSAs rtr) \<noteq> 0 then SPFCalculate (gr_routerId rtr) s1 else Inr s1)
       [0..<length (gm_nodes s)] s"

definition PopulateRoutingTables :: "(nat \<Rightarrow> 'p gnode list \<Rightarrow> lsa list res) \<Rightarrow> u32 \<Rightarrow> 'p grm \<Rightarrow> 'p grm res" where
  "PopulateRoutingTables DiscoverLSAs systemId s =
     bind_res (BuildGlobalRoutingDatabase DiscoverLSAs s) (InitializeRoutes systemId)"

definition RecomputeRoutingTables :: "(nat \<Rightarrow> 'p gnode list \<Rightarrow> lsa list res) \<Rightarrow> u32 \<Rightarrow> 'p grm \<Rightarrow> 'p grm res" where
  "RecomputeRoutingTables DiscoverLSAs systemId s =
     bind_res (DeleteGlobalRoutes s) (\<lambda>s1.
     bind_res (BuildGlobalRoutingDatabase DiscoverLSAs s1) (InitializeRoutes systemId))"

end
