(* ===== verification/Shortest_Paths.thy ===== *)
theory Shortest_Paths
  imports Link_State
begin

text \<open>
  Shortest paths over the link records of a database, without reference to the code that computes them:
  walks, distances, the links on which shortest paths begin, and the invariant of the algorithm of
  Dijkstra in a form that admits several shortest paths to a vertex. \<open>out v\<close> are the links that leave the
  router \<open>v\<close>.
\<close>

section \<open>Walks and distances\<close>

abbreviation link_cost :: "link_record \<Rightarrow> nat" where
  "link_cost l \<equiv> unat (lr_metric l)"

inductive spf_walk :: "(ipv4 \<Rightarrow> link_record set) \<Rightarrow> ipv4 \<Rightarrow> nat \<Rightarrow> ipv4 \<Rightarrow> bool" for out where
  walk_here: "spf_walk out v 0 v"
| walk_on: "spf_walk out v d w \<Longrightarrow> l \<in> out w \<Longrightarrow> spf_walk out v (d + link_cost l) (lr_linkId l)"

definition spf_dist :: "(ipv4 \<Rightarrow> link_record set) \<Rightarrow> ipv4 \<Rightarrow> nat \<Rightarrow> ipv4 \<Rightarrow> bool" where
  "spf_dist out v d w \<longleftrightarrow> spf_walk out v d w \<and> (\<forall>d'. spf_walk out v d' w \<longrightarrow> d \<le> d')"

text \<open>The links of the root on which a shortest path to the router begins.\<close>

definition first_links :: "(ipv4 \<Rightarrow> link_record set) \<Rightarrow> ipv4 \<Rightarrow> ipv4 \<Rightarrow> link_record set" where
  "first_links out root w =
     {l \<in> out root. \<exists>d d'. spf_dist out root d w \<and> spf_dist out (lr_linkId l) d' w \<and> link_cost l + d' = d}"

lemma walk_trans: "spf_walk out v d w \<Longrightarrow> spf_walk out u e v \<Longrightarrow> spf_walk out u (e + d) w"
proof (induction rule: spf_walk.induct)
  case (walk_on v d w l)
  from spf_walk.walk_on [OF walk_on.IH [OF walk_on.prems] walk_on.hyps(2)] show ?case by (simp add: add.assoc)
qed simp

lemma walk_link: "l \<in> out v \<Longrightarrow> spf_walk out v (link_cost l) (lr_linkId l)"
  using walk_on [OF walk_here] by force

lemma dist_exists:
  assumes "spf_walk out v d w"
  obtains d0 where "spf_dist out v d0 w" and "d0 \<le> d"
  using LeastI [of "\<lambda>d. spf_walk out v d w", OF assms] Least_le [of "\<lambda>d. spf_walk out v d w"] assms
  unfolding spf_dist_def by blast

lemma dist_unique: "spf_dist out v d w \<Longrightarrow> spf_dist out v d' w \<Longrightarrow> d = d'"
  unfolding spf_dist_def by (blast intro: le_antisym)

lemma dist_here [simp]: "spf_dist out v d v \<longleftrightarrow> d = 0"
  unfolding spf_dist_def by (auto intro: walk_here)

text \<open>The parts of a shortest walk are shortest.\<close>

lemma dist_prefix:
  assumes "spf_dist out u (e + d) w" "spf_walk out u e v" "spf_walk out v d w"
  shows "spf_dist out u e v"
proof -
  have "e \<le> e'" if "spf_walk out u e' v" for e'
    using assms(1) walk_trans [OF assms(3) that] unfolding spf_dist_def by fastforce
  with assms(2) show ?thesis unfolding spf_dist_def by blast
qed

lemma dist_suffix:
  assumes "spf_dist out u (e + d) w" "spf_walk out u e v" "spf_walk out v d w"
  shows "spf_dist out v d w"
proof -
  have "d \<le> d'" if "spf_walk out v d' w" for d'
    using assms(1) walk_trans [OF that assms(2)] unfolding spf_dist_def by fastforce
  with assms(3) show ?thesis unfolding spf_dist_def by blast
qed

text \<open>A walk that leaves a set of routers does so by a link, and is no shorter up to there.\<close>

lemma walk_leaves:
  assumes "spf_walk out u d w" "u \<in> T" "w \<notin> T"
  obtains v l e where "v \<in> T" "l \<in> out v" "lr_linkId l \<notin> T" "spf_walk out u e v" "e + link_cost l \<le> d"
  using assms
proof (induction arbitrary: thesis rule: spf_walk.induct)
  case (walk_on u d w l)
  show ?case
  proof (cases "w \<in> T")
    case True
    with walk_on show ?thesis by blast
  next
    case False
    from walk_on.IH [OF _ walk_on.prems(2) this] walk_on.prems(1) show ?thesis by (metis trans_le_add1)
  qed
qed simp

section \<open>How first links are inherited\<close>

definition positive :: "(ipv4 \<Rightarrow> link_record set) \<Rightarrow> bool" where
  "positive out \<longleftrightarrow> (\<forall>v. \<forall>l \<in> out v. 0 < link_cost l)"

text \<open>
  A shortest path to a router other than the root is a link from the root, or a shortest path to another
  router that is extended by a link.
\<close>

lemma first_links_inherit:
  assumes "l \<in> first_links out root v" "spf_dist out root dv v" "k \<in> out v" "lr_linkId k = w" "spf_dist out root (dv + link_cost k) w"
  shows "l \<in> first_links out root w"
proof -
  from assms(1,2) obtain d' where d': "l \<in> out root" "spf_dist out (lr_linkId l) d' v" "link_cost l + d' = dv"
    unfolding first_links_def by (auto dest: dist_unique)
  then have w: "spf_walk out (lr_linkId l) (d' + link_cost k) w"
    using walk_on [where out = out, OF _ assms(3)] assms(4) unfolding spf_dist_def by blast
  have "spf_dist out root (link_cost l + (d' + link_cost k)) w" using assms(5) by (simp add: d'(3) [symmetric] add.assoc)
  from dist_suffix [OF this walk_link [where out = out, OF d'(1)] w] have "spf_dist out (lr_linkId l) (d' + link_cost k) w" .
  moreover have "link_cost l + (d' + link_cost k) = dv + link_cost k" using d'(3) by simp
  ultimately show ?thesis using d'(1) assms(5) unfolding first_links_def by blast
qed

lemma first_links_last:
  assumes "positive out" "l \<in> first_links out root w" "spf_dist out root d w"
  shows "lr_linkId l = w \<and> link_cost l = d \<or>
    (\<exists>v k dv. v \<noteq> root \<and> k \<in> out v \<and> lr_linkId k = w \<and> spf_dist out root dv v \<and> dv + link_cost k = d \<and> l \<in> first_links out root v)"
proof -
  from assms(2,3) obtain d' where d': "l \<in> out root" "spf_dist out (lr_linkId l) d' w" "link_cost l + d' = d"
    unfolding first_links_def by (auto dest: dist_unique)
  from d'(2) have "spf_walk out (lr_linkId l) d' w" by (simp add: spf_dist_def)
  then show ?thesis
  proof (cases rule: spf_walk.cases)
    case walk_here
    with d' show ?thesis by simp
  next
    case (walk_on e v k)
    note r = walk_on
    from r have "spf_dist out (lr_linkId l) (e + link_cost k) w" using d'(2) by simp
    moreover have "spf_walk out v (link_cost k) w" using walk_link [where out = out, OF r(4)] r(2) by simp
    ultimately have x: "spf_dist out (lr_linkId l) e v" using dist_prefix r(3) by blast
    have v: "spf_walk out root (link_cost l + e) v" using walk_trans [OF r(3) walk_link [where out = out, OF d'(1)]] .
    have "spf_dist out root (link_cost l + e + link_cost k) w" using assms(3) d'(3) r(1) by (simp add: add.assoc)
    from dist_prefix [OF this v] \<open>spf_walk out v (link_cost k) w\<close> have y: "spf_dist out root (link_cost l + e) v" .
    then have "v \<noteq> root" using assms(1) d'(1) by (fastforce simp: positive_def)
    moreover have "l \<in> first_links out root v" using x y d'(1) unfolding first_links_def by blast
    moreover have "link_cost l + e + link_cost k = d" using d'(3) r(1) by simp
    ultimately show ?thesis using r(2,4) y by blast
  qed
qed

section \<open>The invariant of Dijkstra\<close>

text \<open>
  \<open>T\<close> are the routers on the tree, \<open>C\<close> the candidates, \<open>R\<close> the links that have been considered, each with the
  router it leaves; \<open>dist\<close> and \<open>exits\<close> are what the vertices hold, and \<open>ex l\<close> is the exit that belongs to a
  link of the root. A candidate holds the least distance over the links to it that were considered, and
  the exits of all links that attain it.
\<close>

definition contrib :: "ipv4 \<Rightarrow> (link_record \<Rightarrow> 'e) \<Rightarrow> (ipv4 \<Rightarrow> 'e set) \<Rightarrow> ipv4 \<Rightarrow> link_record \<Rightarrow> 'e set" where
  "contrib root ex exits v l = (if v = root then {ex l} else exits v)"

definition on_tree ::
  "(ipv4 \<Rightarrow> link_record set) \<Rightarrow> (link_record \<Rightarrow> 'e) \<Rightarrow> ipv4 \<Rightarrow> ipv4 set \<Rightarrow> (ipv4 \<Rightarrow> nat) \<Rightarrow> (ipv4 \<Rightarrow> 'e set) \<Rightarrow> bool" where
  "on_tree out ex root T dist exits \<longleftrightarrow>
     (\<forall>t \<in> T. spf_dist out root (dist t) t \<and> (t \<noteq> root \<longrightarrow> exits t = ex ` first_links out root t))"

definition estimate :: "ipv4 \<Rightarrow> (link_record \<Rightarrow> 'e) \<Rightarrow> (ipv4 \<times> link_record) set \<Rightarrow> (ipv4 \<Rightarrow> nat) \<Rightarrow> (ipv4 \<Rightarrow> 'e set) \<Rightarrow> ipv4 \<Rightarrow> bool" where
  "estimate root ex R dist exits c \<longleftrightarrow>
     (\<exists>(v, l) \<in> R. lr_linkId l = c \<and> dist c = dist v + link_cost l) \<and>
     (\<forall>(v, l) \<in> R. lr_linkId l = c \<longrightarrow> dist c \<le> dist v + link_cost l) \<and>
     exits c = (\<Union>(v, l) \<in> {(v, l) \<in> R. lr_linkId l = c \<and> dist c = dist v + link_cost l}. contrib root ex exits v l)"

definition dijkstra ::
  "(ipv4 \<Rightarrow> link_record set) \<Rightarrow> (link_record \<Rightarrow> 'e) \<Rightarrow> ipv4 \<Rightarrow> (ipv4 \<times> link_record) set \<Rightarrow> ipv4 set \<Rightarrow> ipv4 set \<Rightarrow>
   (ipv4 \<Rightarrow> nat) \<Rightarrow> (ipv4 \<Rightarrow> 'e set) \<Rightarrow> bool" where
  "dijkstra out ex root R T C dist exits \<longleftrightarrow>
     root \<in> T \<and> on_tree out ex root T dist exits \<and>
     (\<forall>(v, l) \<in> R. v \<in> T \<and> l \<in> out v) \<and>
     (\<forall>c. c \<in> C \<longleftrightarrow> c \<notin> T \<and> (\<exists>(v, l) \<in> R. lr_linkId l = c)) \<and>
     (\<forall>c \<in> C. estimate root ex R dist exits c)"

lemma dijkstra_start: "dijkstra out ex root {} {root} {} (\<lambda>w. 0) exits"
  by (simp add: dijkstra_def on_tree_def)

lemma estimate_cong:
  assumes "\<And>v l. (v, l) \<in> R \<Longrightarrow> dist' v = dist v \<and> exits' v = exits v" and "dist' c = dist c" and "exits' c = exits c"
  shows "estimate root ex R dist' exits' c = estimate root ex R dist exits c"
proof -
  have s: "{(v, l) \<in> R. lr_linkId l = c \<and> dist' c = dist' v + link_cost l} = {(v, l) \<in> R. lr_linkId l = c \<and> dist c = dist v + link_cost l}"
    (is "_ = ?S") using assms(1,2) by auto
  have u: "(\<Union>(v, l) \<in> ?S. contrib root ex exits' v l) = (\<Union>(v, l) \<in> ?S. contrib root ex exits v l)"
    by (rule SUP_cong [OF refl]) (use assms(1) in \<open>auto simp: contrib_def\<close>)
  have e: "(\<exists>(v, l) \<in> R. lr_linkId l = c \<and> dist' c = dist' v + link_cost l) = (\<exists>(v, l) \<in> R. lr_linkId l = c \<and> dist c = dist v + link_cost l)"
    by (rule bex_cong [OF refl]) (use assms(1,2) in auto)
  have a: "(\<forall>(v, l) \<in> R. lr_linkId l = c \<longrightarrow> dist' c \<le> dist' v + link_cost l) = (\<forall>(v, l) \<in> R. lr_linkId l = c \<longrightarrow> dist c \<le> dist v + link_cost l)"
    by (rule ball_cong [OF refl]) (use assms(1,2) in auto)
  show ?thesis unfolding estimate_def s u e a assms(3) ..
qed

lemma dijkstra_cong:
  assumes "dijkstra out ex root R T C dist exits" "\<forall>w \<in> T \<union> C. dist' w = dist w \<and> exits' w = exits w"
  shows "dijkstra out ex root R T C dist' exits'"
proof -
  have R: "v \<in> T" if "(v, l) \<in> R" for v l using assms(1) that by (auto simp: dijkstra_def)
  have "estimate root ex R dist' exits' c = estimate root ex R dist exits c" if "c \<in> C" for c
    by (rule estimate_cong) (use R assms(2) that in blast)+
  with assms show ?thesis unfolding dijkstra_def on_tree_def by auto
qed

section \<open>One link\<close>

lemma estimate_other: "lr_linkId l \<noteq> c \<Longrightarrow> estimate root ex (insert (v, l) R) dist exits c = estimate root ex R dist exits c"
proof -
  assume "lr_linkId l \<noteq> c"
  then have "{(x, k) \<in> insert (v, l) R. lr_linkId k = c \<and> dist c = dist x + link_cost k} =
      {(x, k) \<in> R. lr_linkId k = c \<and> dist c = dist x + link_cost k}" by auto
  with \<open>lr_linkId l \<noteq> c\<close> show ?thesis unfolding estimate_def by simp
qed

text \<open>The other candidates keep their estimate when only the vertex at the other end of the link changes.\<close>

lemma relax_others:
  assumes "dijkstra out ex root R T C dist exits" "v \<in> T" "l \<in> out v" "w = lr_linkId l" "w \<notin> T" "c \<in> C" "c \<noteq> w"
  shows "estimate root ex (insert (v, l) R) (dist(w := d)) (exits(w := e)) c"
proof -
  have "estimate root ex (insert (v, l) R) (dist(w := d)) (exits(w := e)) c = estimate root ex (insert (v, l) R) dist exits c"
    by (rule estimate_cong) (use assms in \<open>auto simp: dijkstra_def\<close>)
  also have "\<dots> = estimate root ex R dist exits c" using assms(4,7) by (intro estimate_other) simp
  finally show ?thesis using assms(1,6) by (simp add: dijkstra_def)
qed

lemma dijkstra_relaxed:
  assumes "dijkstra out ex root R T C dist exits" "v \<in> T" "l \<in> out v" "w = lr_linkId l" "w \<notin> T"
    and "estimate root ex (insert (v, l) R) (dist(w := d)) (exits(w := e)) w"
  shows "dijkstra out ex root (insert (v, l) R) T (insert w C) (dist(w := d)) (exits(w := e))"
proof -
  have "estimate root ex (insert (v, l) R) (dist(w := d)) (exits(w := e)) c" if "c \<in> insert w C" for c
    by (cases "c = w") (use that assms(6) relax_others [OF assms(1-5)] in blast)+
  moreover have "on_tree out ex root T (dist(w := d)) (exits(w := e))"
    using assms(1,5) unfolding dijkstra_def on_tree_def by auto
  moreover have "c \<in> insert w C \<longleftrightarrow> c \<notin> T \<and> (\<exists>(x, k) \<in> insert (v, l) R. lr_linkId k = c)" for c
    using assms(1,4,5) unfolding dijkstra_def by auto
  ultimately show ?thesis using assms(1-3) unfolding dijkstra_def by auto
qed

lemma dijkstra_seen:
  assumes "dijkstra out ex root R T C dist exits" "v \<in> T" "l \<in> out v" "lr_linkId l \<in> T"
  shows "dijkstra out ex root (insert (v, l) R) T C dist exits"
proof -
  have "estimate root ex (insert (v, l) R) dist exits c" if "c \<in> C" for c
  proof -
    have "lr_linkId l \<noteq> c" using assms that by (auto simp: dijkstra_def)
    then show ?thesis using assms(1) that by (simp add: estimate_other dijkstra_def)
  qed
  with assms show ?thesis unfolding dijkstra_def by auto
qed

text \<open>A vertex that was not a candidate becomes one, with the distance and the exits through the link.\<close>

lemma dijkstra_new:
  assumes "dijkstra out ex root R T C dist exits" "v \<in> T" "l \<in> out v" "w = lr_linkId l" "w \<notin> T" "w \<notin> C"
  shows "dijkstra out ex root (insert (v, l) R) T (insert w C) (dist(w := dist v + link_cost l)) (exits(w := contrib root ex exits v l))"
    (is "dijkstra _ _ _ ?R _ _ ?d ?e")
proof -
  have only: "{(x, k) \<in> ?R. lr_linkId k = w \<and> ?d w = ?d x + link_cost k} = {(v, l)}"
    using assms by (auto simp: dijkstra_def)
  have "v \<noteq> w" using assms by blast
  then have "estimate root ex ?R ?d ?e w"
    unfolding estimate_def only using assms by (auto simp: dijkstra_def contrib_def)
  then show ?thesis by (rule dijkstra_relaxed [OF assms(1-5)])
qed

text \<open>A candidate that is reached by the link: no better, equally well, or better.\<close>

lemma dijkstra_worse:
  assumes "dijkstra out ex root R T C dist exits" "v \<in> T" "l \<in> out v" "lr_linkId l \<in> C" "dist (lr_linkId l) < dist v + link_cost l"
  shows "dijkstra out ex root (insert (v, l) R) T C dist exits"
proof -
  let ?w = "lr_linkId l"
  have e: "estimate root ex R dist exits c" if "c \<in> C" for c using assms(1) that by (simp add: dijkstra_def)
  have "{(x, k) \<in> insert (v, l) R. lr_linkId k = ?w \<and> dist ?w = dist x + link_cost k} =
      {(x, k) \<in> R. lr_linkId k = ?w \<and> dist ?w = dist x + link_cost k}" using assms(5) by auto
  with e [OF assms(4)] assms(5) have w: "estimate root ex (insert (v, l) R) dist exits ?w" unfolding estimate_def by auto
  have "estimate root ex (insert (v, l) R) dist exits c" if "c \<in> C" for c
    by (cases "c = ?w") (use w e that in \<open>auto simp: estimate_other\<close>)
  with assms show ?thesis unfolding dijkstra_def by auto
qed

lemma dijkstra_equal:
  assumes "dijkstra out ex root R T C dist exits" "v \<in> T" "l \<in> out v" "w = lr_linkId l" "w \<in> C" "dist w = dist v + link_cost l"
  shows "dijkstra out ex root (insert (v, l) R) T C dist (exits(w := exits w \<union> contrib root ex exits v l))"
    (is "dijkstra _ _ _ ?R _ _ _ ?e")
proof -
  have wT: "w \<notin> T" and R: "\<And>x k. (x, k) \<in> R \<Longrightarrow> x \<in> T" using assms(1,5) by (auto simp: dijkstra_def)
  let ?S = "\<lambda>R. {(x, k) \<in> R. lr_linkId k = w \<and> dist w = dist x + link_cost k}"
  have keep: "contrib root ex ?e x k = contrib root ex exits x k" if "(x, k) \<in> ?R" for x k
    using that wT R assms(2) by (auto simp: contrib_def)
  have "?S ?R = insert (v, l) (?S R)" using assms(4,6) by auto
  moreover have "(\<Union>(x, k) \<in> ?S ?R. contrib root ex ?e x k) = (\<Union>(x, k) \<in> ?S ?R. contrib root ex exits x k)"
  proof (rule SUP_cong [OF refl])
    fix x
    assume "x \<in> ?S ?R"
    then have "(fst x, snd x) \<in> ?R" by auto
    from keep [OF this] show "(case x of (x, k) \<Rightarrow> contrib root ex ?e x k) = (case x of (x, k) \<Rightarrow> contrib root ex exits x k)"
      by (simp add: split_beta)
  qed
  ultimately have u: "(\<Union>(x, k) \<in> ?S ?R. contrib root ex ?e x k) = contrib root ex exits v l \<union> (\<Union>(x, k) \<in> ?S R. contrib root ex exits x k)"
    by simp
  have "estimate root ex R dist exits w" using assms(1,5) by (simp add: dijkstra_def)
  then have "estimate root ex ?R dist ?e w" unfolding estimate_def u using assms(4,6) by auto
  with dijkstra_relaxed [OF assms(1-4) wT, of "dist w"] assms(5) show ?thesis by (simp add: insert_absorb)
qed

lemma dijkstra_better:
  assumes "dijkstra out ex root R T C dist exits" "v \<in> T" "l \<in> out v" "w = lr_linkId l" "w \<in> C" "dist v + link_cost l < dist w"
  shows "dijkstra out ex root (insert (v, l) R) T C (dist(w := dist v + link_cost l)) (exits(w := contrib root ex exits v l))"
    (is "dijkstra _ _ _ ?R _ _ ?d ?e")
proof -
  have wT: "w \<notin> T" and R: "\<And>x k. (x, k) \<in> R \<Longrightarrow> x \<in> T" using assms(1,5) by (auto simp: dijkstra_def)
  have "estimate root ex R dist exits w" using assms(1,5) by (simp add: dijkstra_def)
  then have le: "\<And>x k. (x, k) \<in> R \<Longrightarrow> lr_linkId k = w \<Longrightarrow> dist v + link_cost l < dist x + link_cost k"
    using assms(6) unfolding estimate_def by fastforce
  have "{(x, k) \<in> ?R. lr_linkId k = w \<and> ?d w = ?d x + link_cost k} = {(v, l)}"
  proof -
    have "x \<noteq> w" "dist v + link_cost l \<noteq> dist x + link_cost k" if "(x, k) \<in> R" "lr_linkId k = w" for x k
      using that R wT le by (blast, fastforce)
    moreover have "v \<noteq> w" using assms(2) wT by blast
    ultimately show ?thesis using assms(4) by auto
  qed
  moreover have "v \<noteq> w" using assms(2) wT by blast
  ultimately have "estimate root ex ?R ?d ?e w"
    unfolding estimate_def using assms(4) R wT less_imp_le [OF le] by (auto simp: contrib_def)
  with dijkstra_relaxed [OF assms(1-4) wT] assms(5) show ?thesis by (simp add: insert_absorb)
qed

section \<open>Settling the nearest candidate\<close>

lemma nearer_on_tree:
  assumes "dijkstra out ex root R T C dist exits" "\<forall>v \<in> T. \<forall>l \<in> out v. (v, l) \<in> R" "\<forall>c \<in> C. m \<le> dist c"
    and "spf_walk out root d w" "d < m"
  shows "w \<in> T"
proof (rule ccontr)
  assume "w \<notin> T"
  have "root \<in> T" using assms(1) by (simp add: dijkstra_def)
  from walk_leaves [OF assms(4) this \<open>w \<notin> T\<close>] obtain v l e where
    v: "v \<in> T" "l \<in> out v" "lr_linkId l \<notin> T" "spf_walk out root e v" "e + link_cost l \<le> d" by blast
  have "(v, l) \<in> R" using assms(2) v by blast
  then have "lr_linkId l \<in> C" using assms(1) v by (auto simp: dijkstra_def)
  moreover from this have "dist (lr_linkId l) \<le> dist v + link_cost l"
    using assms(1) \<open>(v, l) \<in> R\<close> unfolding dijkstra_def estimate_def by blast
  moreover have "dist v \<le> e" using assms(1) v unfolding dijkstra_def on_tree_def spf_dist_def by blast
  ultimately show False using assms(3,5) v(5) by fastforce
qed

lemma settle_distance:
  assumes "dijkstra out ex root R T C dist exits" "\<forall>v \<in> T. \<forall>l \<in> out v. (v, l) \<in> R" "u \<in> C" "\<forall>c \<in> C. dist u \<le> dist c"
  shows "spf_dist out root (dist u) u"
proof -
  have "estimate root ex R dist exits u" "u \<notin> T" using assms(1,3) by (auto simp: dijkstra_def)
  then obtain v l where l: "(v, l) \<in> R" "lr_linkId l = u" "dist u = dist v + link_cost l" unfolding estimate_def by blast
  then have "spf_walk out root (dist v) v" "l \<in> out v" using assms(1) unfolding dijkstra_def on_tree_def spf_dist_def by blast+
  from walk_on [OF this] have "spf_walk out root (dist u) u" using l by simp
  moreover have "dist u \<le> d" if "spf_walk out root d u" for d
    using nearer_on_tree [OF assms(1,2,4) that] \<open>u \<notin> T\<close> by (meson not_le)
  ultimately show ?thesis unfolding spf_dist_def by blast
qed

lemma settle_exits:
  assumes "positive out" "dijkstra out ex root R T C dist exits" "\<forall>v \<in> T. \<forall>l \<in> out v. (v, l) \<in> R" "u \<in> C" "\<forall>c \<in> C. dist u \<le> dist c"
  shows "exits u = ex ` first_links out root u"
proof -
  have du: "spf_dist out root (dist u) u" by (rule settle_distance [OF assms(2-5)])
  have est: "estimate root ex R dist exits u" using assms(2,4) by (simp add: dijkstra_def)
  have RT: "v \<in> T \<and> l \<in> out v \<and> spf_dist out root (dist v) v" if "(v, l) \<in> R" for v l
    using assms(2) that unfolding dijkstra_def on_tree_def by blast
  have root0: "dist root = 0" using assms(2) by (auto simp: dijkstra_def on_tree_def)
  have tree: "exits v = ex ` first_links out root v" if "v \<in> T" "v \<noteq> root" for v
    using assms(2) that by (simp add: dijkstra_def on_tree_def)
  let ?S = "{(v, l) \<in> R. lr_linkId l = u \<and> dist u = dist v + link_cost l}"
  have sub: "contrib root ex exits v l \<subseteq> ex ` first_links out root u" if S: "(v, l) \<in> ?S" for v l
  proof (cases "v = root")
    case True
    then have "l \<in> first_links out root u" using S RT du root0 unfolding first_links_def by auto
    with True show ?thesis by (simp add: contrib_def)
  next
    case False
    have "k \<in> first_links out root u" if "k \<in> first_links out root v" for k
      using first_links_inherit [OF that, of "dist v" l u] S RT du by auto
    with False S RT tree show ?thesis by (auto simp: contrib_def)
  qed
  have sup: "ex k \<in> (\<Union>(v, l) \<in> ?S. contrib root ex exits v l)" if k: "k \<in> first_links out root u" for k
  proof -
    consider "lr_linkId k = u" "link_cost k = dist u" | v l dv where "v \<noteq> root" "l \<in> out v" "lr_linkId l = u" "spf_dist out root dv v"
        "dv + link_cost l = dist u" "k \<in> first_links out root v"
      using first_links_last [OF assms(1) k du] by blast
    then show ?thesis
    proof cases
      case 1
      have "root \<in> T" "k \<in> out root" using assms(2) k by (auto simp: dijkstra_def first_links_def)
      then have "(root, k) \<in> ?S" using assms(3) 1 root0 by auto
      then show ?thesis by (rule UN_I) (simp add: contrib_def)
    next
      case 2
      have "0 < link_cost l" using 2(2) assms(1) unfolding positive_def by blast
      then have "dv < dist u" using 2(5) by linarith
      then have "v \<in> T" using nearer_on_tree [OF assms(2,3,5)] 2(4) unfolding spf_dist_def by blast
      then have "(v, l) \<in> R" using assms(3) 2 by blast
      then have "(v, l) \<in> ?S" using 2 RT dist_unique by fastforce
      then show ?thesis by (rule UN_I) (use 2 tree \<open>v \<in> T\<close> in \<open>simp add: contrib_def\<close>)
    qed
  qed
  have "exits u = (\<Union>(v, l) \<in> ?S. contrib root ex exits v l)" using est by (simp add: estimate_def)
  with sub sup show ?thesis by (simp add: subset_antisym UN_subset_iff image_subset_iff split_beta)
qed

lemma dijkstra_settle:
  assumes "positive out" "dijkstra out ex root R T C dist exits" "\<forall>v \<in> T. \<forall>l \<in> out v. (v, l) \<in> R" "u \<in> C" "\<forall>c \<in> C. dist u \<le> dist c"
  shows "dijkstra out ex root R (insert u T) (C - {u}) dist exits"
  using settle_distance [OF assms(2-5)] settle_exits [OF assms] assms(2,4) unfolding dijkstra_def on_tree_def by auto

lemma dijkstra_end:
  assumes "dijkstra out ex root R T {} dist exits" "\<forall>v \<in> T. \<forall>l \<in> out v. (v, l) \<in> R"
  shows "w \<in> T \<longleftrightarrow> (\<exists>d. spf_walk out root d w)"
proof
  show "\<exists>d. spf_walk out root d w" if "w \<in> T" using assms(1) that unfolding dijkstra_def on_tree_def spf_dist_def by blast
  show "w \<in> T" if "\<exists>d. spf_walk out root d w"
  proof -
    from that obtain d where "spf_walk out root d w" by blast
    from nearer_on_tree [OF assms _ this, of "Suc d"] show ?thesis by simp
  qed
qed

end
