(* ===== verification/Spf_Steps.thy ===== *)
theory Spf_Steps
  imports Route_Manager Shortest_Paths
begin

text \<open>
  What the steps of the shortest-path computation do to the state, on a database of routers that are
  connected by point-to-point links: the effect of considering one link in each of its cases.
\<close>

section \<open>The database\<close>

definition with_status :: "(ipv4 \<Rightarrow> spf_status) \<Rightarrow> lsdb \<Rightarrow> lsdb" where
  "with_status f d = d\<lparr>db_database := map (\<lambda>(k, l). (k, Lsa_SetStatus (f k) l)) (db_database d)\<rparr>"

lemma Initialize_eq: "Lsdb_Initialize d = with_status (\<lambda>k. LSA_SPF_NOT_EXPLORED) d"
  by (simp add: Lsdb_Initialize_def with_status_def)

lemma SetStatus_SetStatus [simp]: "Lsa_SetStatus x (Lsa_SetStatus y l) = Lsa_SetStatus x l"
  by (simp add: Lsa_SetStatus_def)

lemma SetStatus_with_status: "Lsdb_SetStatus k x (with_status f d) = with_status (f(k := x)) d"
  by (simp add: Lsdb_SetStatus_def with_status_def split_beta)

lemma Initialize_with_status [simp]: "Lsdb_Initialize (with_status f d) = Lsdb_Initialize d"
  by (simp add: Lsdb_Initialize_def with_status_def split_beta)

lemma GetLSA_with_status: "Lsdb_GetLSA k (with_status f d) = map_option (Lsa_SetStatus (f k)) (Lsdb_GetLSA k d)"
proof -
  have "map_of (map (\<lambda>(k, l). (k, Lsa_SetStatus (f k) l)) xs) k = map_option (Lsa_SetStatus (f k)) (map_of xs k)"
    for xs :: "(ipv4 \<times> lsa) list"
    by (induction xs) auto
  then show ?thesis by (simp add: Lsdb_GetLSA_def with_status_def)
qed

lemma with_status_simps [simp]:
  "db_extdatabase (with_status f d) = db_extdatabase d" "length (db_database (with_status f d)) = length (db_database d)"
  by (simp_all add: with_status_def)

lemma SetStatus_simps [simp]:
  "ls_type (Lsa_SetStatus x l) = ls_type l" "ls_linkStateId (Lsa_SetStatus x l) = ls_linkStateId l"
  "ls_linkRecords (Lsa_SetStatus x l) = ls_linkRecords l" "ls_node (Lsa_SetStatus x l) = ls_node l"
  "ls_status (Lsa_SetStatus x l) = x"
  by (simp_all add: Lsa_SetStatus_def)

text \<open>The links of a database, and databases of routers with point-to-point links and stub networks.\<close>

definition records :: "lsdb \<Rightarrow> ipv4 \<Rightarrow> link_record list" where
  "records d v = (case Lsdb_GetLSA v d of None \<Rightarrow> [] | Some l \<Rightarrow> ls_linkRecords l)"

definition p2p_links :: "lsdb \<Rightarrow> ipv4 \<Rightarrow> link_record set" where
  "p2p_links d v = {l \<in> set (records d v). lr_linkType l = PointToPoint}"

definition back_link :: "lsdb \<Rightarrow> ipv4 \<Rightarrow> ipv4 \<Rightarrow> link_record option" where
  "back_link d w v = find (\<lambda>b. lr_linkId b = v) (records d w)"

definition router_ok :: "lsdb \<Rightarrow> ipv4 \<Rightarrow> lsa \<Rightarrow> bool" where
  "router_ok d k l \<longleftrightarrow>
     ls_linkStateId l = k \<and> ls_type l = RouterLSA \<and>
     (\<forall>r \<in> set (ls_linkRecords l). lr_linkType r = StubNetwork \<or>
        lr_linkType r = PointToPoint \<and> 0 < lr_metric r \<and> Lsdb_GetLSA (lr_linkId r) d \<noteq> None \<and>
        (\<exists>b. back_link d (lr_linkId r) k = Some b \<and> lr_linkType b = PointToPoint))"

definition p2p_database :: "lsdb \<Rightarrow> bool" where
  "p2p_database d \<longleftrightarrow>
     (\<forall>k l. Lsdb_GetLSA k d = Some l \<longrightarrow> router_ok d k l) \<and> length (db_database d) \<le> 65536 \<and> db_extdatabase d = []"

lemma p2p_link:
  assumes "p2p_database d" "l \<in> p2p_links d v"
  shows "0 < link_cost l" "Lsdb_GetLSA (lr_linkId l) d \<noteq> None" "back_link d (lr_linkId l) v \<noteq> None"
    "lr_linkType l = PointToPoint" "l \<in> set (records d v)" "lr_linkType (the (back_link d (lr_linkId l) v)) = PointToPoint"
proof -
  obtain x where x: "Lsdb_GetLSA v d = Some x" "l \<in> set (ls_linkRecords x)" "lr_linkType l = PointToPoint"
    using assms(2) by (cases "Lsdb_GetLSA v d") (auto simp: p2p_links_def records_def)
  with assms(1) have "router_ok d v x" by (simp add: p2p_database_def)
  with x show "0 < link_cost l" "Lsdb_GetLSA (lr_linkId l) d \<noteq> None" "back_link d (lr_linkId l) v \<noteq> None"
    "lr_linkType l = PointToPoint" "l \<in> set (records d v)" "lr_linkType (the (back_link d (lr_linkId l) v)) = PointToPoint"
    by (auto simp: router_ok_def records_def word_less_nat_alt)
qed

lemma p2p_positive: "p2p_database d \<Longrightarrow> positive (p2p_links d)"
  by (simp add: positive_def p2p_link)

section \<open>The router at the root\<close>

definition root_node :: "nat \<Rightarrow> ipv4 \<Rightarrow> 'p l3 \<Rightarrow> global_routing \<Rightarrow> 'p gnode list \<Rightarrow> bool" where
  "root_node i root ip g ns \<longleftrightarrow>
     first_index (is_router root) 0 ns = Some i \<and> gn_ipv4 (ns ! i) = Some ip \<and>
     (\<exists>r. gn_router (ns ! i) = Some r \<and> gr_routing r = Some g)"

definition put_routing :: "nat \<Rightarrow> global_routing \<Rightarrow> 'p gnode list \<Rightarrow> 'p gnode list" where
  "put_routing i g ns = ns[i := (ns ! i)\<lparr>gn_router := map_option (\<lambda>r. r\<lparr>gr_routing := Some g\<rparr>) (gn_router (ns ! i))\<rparr>]"

lemma first_index_Some:
  "first_index P n xs = Some i \<longleftrightarrow> n \<le> i \<and> i - n < length xs \<and> P (xs ! (i - n)) \<and> (\<forall>j < i - n. \<not> P (xs ! j))"
proof (induction xs arbitrary: n)
  case (Cons x xs)
  show ?case
  proof (cases "i \<le> n")
    case True
    then show ?thesis using Cons by (cases "i = n") auto
  next
    case False
    then obtain m where m: "i - n = Suc m" "i - Suc n = m" by (metis Suc_diff_Suc not_le)
    with False Cons show ?thesis by (auto simp: All_less_Suc2)
  qed
qed auto

lemma find_first_index: "find P xs = map_option (\<lambda>i. xs ! i) (first_index P 0 xs)"
proof -
  have "find P xs = map_option (\<lambda>i. xs ! (i - n)) (first_index P n xs)" for n
  proof (induction xs arbitrary: n)
    case (Cons x xs)
    have "(x # xs) ! (i - n) = xs ! (i - Suc n)" if "first_index P (Suc n) xs = Some i" for i
      using that by (auto simp: first_index_Some nth_Cons' intro: arg_cong [of _ _ "(!) xs"])
    then have "map_option (\<lambda>i. (x # xs) ! (i - n)) (first_index P (Suc n) xs) = map_option (\<lambda>i. xs ! (i - Suc n)) (first_index P (Suc n) xs)"
      by (cases "first_index P (Suc n) xs") simp_all
    with Cons [of "Suc n"] show ?case by simp
  qed simp
  from this [of 0] show ?thesis by simp
qed

lemma root_node_index: "root_node i root ip g ns \<Longrightarrow> i < length ns"
  by (auto simp: root_node_def first_index_Some)

lemma is_router_put: "is_router k (n\<lparr>gn_router := map_option (\<lambda>r. r\<lparr>gr_routing := g\<rparr>) (gn_router n)\<rparr>) = is_router k n"
  by (auto simp: is_router_def split: option.splits)

lemma put_routing_nth: "i < length ns \<Longrightarrow> put_routing i g ns ! j =
    (if j = i then (ns ! i)\<lparr>gn_router := map_option (\<lambda>r. r\<lparr>gr_routing := Some g\<rparr>) (gn_router (ns ! i))\<rparr> else ns ! j)"
  by (simp add: put_routing_def)

lemma first_index_put: "i < length ns \<Longrightarrow> first_index (is_router k) 0 (put_routing i g ns) = first_index (is_router k) 0 ns"
proof -
  assume i: "i < length ns"
  have "is_router k (put_routing i g ns ! j) = is_router k (ns ! j)" for j
    using i by (simp add: put_routing_nth is_router_put)
  moreover have "length (put_routing i g ns) = length ns" by (simp add: put_routing_def)
  ultimately have "first_index (is_router k) 0 (put_routing i g ns) = Some j \<longleftrightarrow> first_index (is_router k) 0 ns = Some j" for j
    by (simp add: first_index_Some)
  then show ?thesis by (metis not_Some_eq option.exhaust)
qed

lemma root_node_put: "root_node i root ip g ns \<Longrightarrow> root_node i root ip g' (put_routing i g' ns)"
  using root_node_index [of i root ip g ns]
  by (auto simp: root_node_def first_index_put put_routing_nth)

lemma put_put: "i < length ns \<Longrightarrow> put_routing i g (put_routing i g' ns) = put_routing i g ns"
  by (simp add: put_routing_def option.map_comp comp_def)

lemma put_same: "root_node i root ip g ns \<Longrightarrow> put_routing i g ns = ns"
  using root_node_index [of i root ip g ns] by (auto simp: root_node_def put_routing_def list_update_same_conv)

text \<open>Writing routes at the root.\<close>

lemma on_root_router_eq:
  assumes "gm_spfroot s \<noteq> 0" "gm_store s (gm_spfroot s) = Some x" "sv_id x = root" "root_node i root ip g (gm_nodes s)"
    and "f (Some g) = Inr (Some g')"
  shows "on_root_router f s = Inr (s\<lparr>gm_nodes := put_routing i g' (gm_nodes s)\<rparr>)"
  using assms by (auto simp: on_root_router_def vertex_def get_vertex_def root_node_def on_node_def write_routes_def on_routing_def put_routing_def)

lemma FindOutgoing_eq:
  assumes "gm_store s (gm_spfroot s) = Some x" "sv_id x = root" "root_node i root ip g (gm_nodes s)"
  shows "FindOutgoingInterfaceId a amask s = Inr (outgoing_interface (L3_GetInterfaceForPrefix a amask ip))"
  using assms by (simp add: FindOutgoingInterfaceId_def vertex_def get_vertex_def find_first_index root_node_def)

section \<open>Next hops\<close>

lemma next_link_first: "next_link w False True ls = find (\<lambda>l. lr_linkId l = w) ls"
  by (induction ls) simp_all

text \<open>The exit of a link of the root: the address at its other end, and the interface with the address at this end.\<close>

definition link_exit :: "lsdb \<Rightarrow> 'p l3 \<Rightarrow> ipv4 \<Rightarrow> link_record \<Rightarrow> node_exit" where
  "link_exit d ip root l =
     (lr_linkData (the (back_link d (lr_linkId l) root)),
      outgoing_interface (L3_GetInterfaceForPrefix (lr_linkData l) Ipv4Mask_GetOnes ip))"

definition exits_by :: "lsdb \<Rightarrow> 'p l3 \<Rightarrow> ipv4 \<Rightarrow> spf_vertex \<Rightarrow> link_record \<Rightarrow> node_exit list" where
  "exits_by d ip root vx l = (if sv_id vx = root then [link_exit d ip root l] else sv_exits vx)"

definition reached :: "nat \<Rightarrow> u32 \<Rightarrow> node_exit list \<Rightarrow> ipv4 \<Rightarrow> u32 \<Rightarrow> spf_vertex \<Rightarrow> spf_vertex" where
  "reached v dist xs nh oif wx =
     wx\<lparr>sv_exits := xs, sv_nextHop := nh, sv_rootOif := oif, sv_distance := dist, sv_parents := [v]\<rparr>"

definition at_root :: "lsdb \<Rightarrow> nat \<Rightarrow> ipv4 \<Rightarrow> 'p l3 \<Rightarrow> global_routing \<Rightarrow> 'p grm \<Rightarrow> bool" where
  "at_root d i root ip g s \<longleftrightarrow>
     gm_spfroot s \<noteq> 0 \<and> (\<exists>x. gm_store s (gm_spfroot s) = Some x \<and> sv_id x = root) \<and>
     root_node i root ip g (gm_nodes s) \<and> (\<exists>f. gm_lsdb s = with_status f d)"

text \<open>The vertices at the two ends of a link that is considered.\<close>

definition link_ends :: "lsdb \<Rightarrow> ipv4 \<Rightarrow> nat \<Rightarrow> spf_vertex \<Rightarrow> link_record \<Rightarrow> 'p grm \<Rightarrow> bool" where
  "link_ends d root v vx l s \<longleftrightarrow>
     gm_store s v = Some vx \<and> sv_type vx = VertexRouter \<and> sv_lsa vx = sv_id vx \<and> Lsdb_GetLSA (sv_id vx) d \<noteq> None \<and>
     (v = gm_spfroot s \<longleftrightarrow> sv_id vx = root) \<and> l \<in> p2p_links d (sv_id vx)"

definition router_vertex :: "ipv4 \<Rightarrow> spf_vertex" where
  "router_vertex k =
     \<lparr>sv_type = VertexRouter, sv_id = k, sv_lsa = k, sv_distance = SPF_INFINITY, sv_rootOif = SPF_INFINITY, sv_nextHop = 0,
      sv_exits = [], sv_parents = [], sv_children = [], sv_processed = False\<rparr>"

lemma get_lsa_ready: "at_root d i root ip g s \<Longrightarrow> Lsdb_GetLSA k d = Some l \<Longrightarrow> \<exists>x. get_lsa k s = Inr (Lsa_SetStatus x l)"
  by (auto simp: at_root_def get_lsa_def GetLSA_with_status)

lemma get_lsa_records:
  assumes "at_root d i root ip g s" "Lsdb_GetLSA k d \<noteq> None"
  obtains y where "get_lsa k s = Inr y" "ls_linkRecords y = records d k"
  using assms get_lsa_ready [OF assms(1)] by (fastforce simp: records_def)

lemma stored_router:
  assumes "p2p_database d" "at_root d i root ip g s" "Lsdb_GetLSA k (gm_lsdb s) = Some y"
  shows "ls_type y = RouterLSA" "ls_linkStateId y = k"
proof -
  obtain x f where "Lsdb_GetLSA k d = Some x" "y = Lsa_SetStatus (f k) x"
    using assms(2,3) by (auto simp: at_root_def GetLSA_with_status)
  moreover from this have "router_ok d k x" using assms(1) by (simp add: p2p_database_def)
  ultimately show "ls_type y = RouterLSA" "ls_linkStateId y = k" by (simp_all add: router_ok_def)
qed

lemma nexthop_p2p:
  assumes db: "p2p_database d" and rt: "at_root d i root ip g s" and v: "link_ends d root v vx l s"
    and w: "gm_store s w = Some wx" "sv_type wx = VertexRouter" "sv_lsa wx = sv_id wx" "sv_id wx = lr_linkId l"
  shows "\<exists>nh oif. SPFNexthopCalculation v w (Some l) dist s =
    Inr (s\<lparr>gm_store := (gm_store s)(w \<mapsto> reached v dist (exits_by d ip root vx l) nh oif wx)\<rparr>)"
proof -
  have l: "l \<in> p2p_links d (sv_id vx)" and vs: "gm_store s v = Some vx" "sv_type vx = VertexRouter" "v = gm_spfroot s \<longleftrightarrow> sv_id vx = root"
    using v by (simp_all add: link_ends_def)
  show ?thesis
  proof (cases "v = gm_spfroot s")
    case True
    obtain y where y: "get_lsa (lr_linkId l) s = Inr y" "ls_linkRecords y = records d (lr_linkId l)"
      using get_lsa_records [OF rt p2p_link(2) [OF db l]] .
    obtain b where b: "back_link d (lr_linkId l) root = Some b" using p2p_link(3) [OF db l] vs(3) True by auto
    have nl: "SPFGetNextLink w v False s = Inr (Some b)"
      using w y b vs True by (simp add: SPFGetNextLink_def vertex_def get_vertex_def next_link_first back_link_def)
    obtain x where x: "gm_store s (gm_spfroot s) = Some x" "sv_id x = root" "root_node i root ip g (gm_nodes s)"
      using rt by (auto simp: at_root_def)
    show ?thesis
      using True vs w nl FindOutgoing_eq [OF x] b
      by (auto simp: SPFNexthopCalculation_def vertex_def get_vertex_def update_vertex_def update_store_def on_vertex_def
          SPFVertex_SetRootExitDirection_def finish_vertex_def SPFVertex_SetParent_def reached_def exits_by_def link_exit_def)
  next
    case False
    with vs w have "SPFNexthopCalculation v w (Some l) dist s =
        Inr (s\<lparr>gm_store := (gm_store s)(w \<mapsto> reached v dist (exits_by d ip root vx l) (sv_nextHop wx) (sv_rootOif wx) wx)\<rparr>)"
      by (simp add: SPFNexthopCalculation_def vertex_def get_vertex_def update_vertex_def update_store_def on_vertex_def
          SPFVertex_InheritAllRootExitDirections_def finish_vertex_def SPFVertex_SetParent_def reached_def exits_by_def)
    then show ?thesis by blast
  qed
qed

section \<open>One link\<close>

lemma SPFVertex_of_router: "ls_type l = RouterLSA \<Longrightarrow> ls_linkStateId l = k \<Longrightarrow> SPFVertex_of (k, l) = Inr (router_vertex k)"
  by (simp add: SPFVertex_of_def router_vertex_def)

lemma fresh_ends:
  assumes "at_root d i root ip g s" "link_ends d root v vx l s" "gm_store s a = None"
  shows "a \<noteq> v" "a \<noteq> gm_spfroot s"
proof -
  have "gm_store s v \<noteq> None" using assms(2) by (simp add: link_ends_def)
  then show "a \<noteq> v" using assms(3) by metis
  have "gm_store s (gm_spfroot s) \<noteq> None" using assms(1) unfolding at_root_def by force
  then show "a \<noteq> gm_spfroot s" using assms(3) by metis
qed

lemma explore_effect:
  assumes db: "p2p_database d" and rt: "at_root d i root ip g s" and v: "link_ends d root v vx l s"
    and fresh: "gm_store s (gm_next s) = None" and w: "Lsdb_GetLSA (lr_linkId l) (gm_lsdb s) = Some y"
  shows "\<exists>nh oif. explore v (Some l) dist (lr_linkId l, y) (cs, s) =
    (let w = gm_next s;
         s' = s\<lparr>gm_next := w + 1,
               gm_store := (gm_store s)(w \<mapsto> reached v dist (exits_by d ip root vx l) nh oif (router_vertex (lr_linkId l))),
               gm_lsdb := Lsdb_SetStatus (lr_linkId l) LSA_SPF_CANDIDATE (gm_lsdb s)\<rparr>
     in bind_res (Candidate_Push (gm_store s') w cs) (\<lambda>cs'. Inr (cs', s')))"
proof -
  let ?w = "gm_next s" and ?s1 = "s\<lparr>gm_store := (gm_store s)(gm_next s \<mapsto> router_vertex (lr_linkId l)), gm_next := gm_next s + 1\<rparr>"
  have y: "ls_type y = RouterLSA" "ls_linkStateId y = lr_linkId l" by (rule stored_router [OF db rt w])+
  have nv: "new_vertex (lr_linkId l, y) s = Inr (?w, ?s1)"
    using y by (simp add: new_vertex_def SPFVertex_of_router)
  have "?w \<noteq> v" "?w \<noteq> gm_spfroot s" by (rule fresh_ends [OF rt v fresh])+
  then have r1: "at_root d i root ip g ?s1" and v1: "link_ends d root v vx l ?s1"
    using rt v by (simp_all add: at_root_def link_ends_def)
  from nexthop_p2p [OF db r1 v1, of ?w "router_vertex (lr_linkId l)" dist] obtain nh oif where
    nh: "SPFNexthopCalculation v ?w (Some l) dist ?s1 =
      Inr (?s1\<lparr>gm_store := (gm_store ?s1)(?w \<mapsto> reached v dist (exits_by d ip root vx l) nh oif (router_vertex (lr_linkId l)))\<rparr>)"
    by (auto simp: router_vertex_def)
  show ?thesis
    by (rule exI [where x = nh], rule exI [where x = oif]) (use nv nh in \<open>simp add: explore_def set_status_def Let_def\<close>)
qed

text \<open>An equally short path: the second vertex is made, merged into the candidate and deleted again.\<close>

lemma delete_leaf:
  assumes "st w = Some wx" "sv_parents wx = [v]" "sv_children wx = []" "st v = Some vx" "v \<noteq> w" "w \<notin> set (sv_children vx)"
  shows "bind_res (SPFVertexAddParent w st) (delete_vertex (Suc (Suc n)) w) = Inr (st(w := None))"
proof -
  have "SPFVertexAddParent w st = Inr (st(v \<mapsto> vx\<lparr>sv_children := sv_children vx @ [w]\<rparr>))"
    using assms by (simp add: SPFVertexAddParent_def get_vertex_def on_vertex_def SPFVertex_AddChild_def)
  moreover have "vx\<lparr>sv_children := removeAll w (sv_children vx)\<rparr> = vx" using assms(6) by simp
  ultimately show ?thesis using assms by (simp add: get_vertex_def on_vertex_def fun_upd_idem)
qed

lemma merge_effect:
  assumes db: "p2p_database d" and rt: "at_root d i root ip g s" and v: "link_ends d root v vx l s"
    and fresh: "gm_store s (gm_next s) = None" "gm_next s \<notin> set (sv_children vx)" and w: "Lsdb_GetLSA (lr_linkId l) (gm_lsdb s) = Some y"
    and cw: "gm_store s cw = Some cwx" "cw \<noteq> v"
  shows "merge_candidate v cw (Some l) dist (lr_linkId l, y) s =
    Inr (s\<lparr>gm_store := (gm_store s)(cw \<mapsto> cwx\<lparr>sv_exits := remdups_adj (sort_key exit_key (sv_exits cwx @ exits_by d ip root vx l)),
          sv_parents := remdups_adj (sort (sv_parents cwx @ [v]))\<rparr>), gm_next := gm_next s + 1\<rparr>)"
proof -
  let ?w = "gm_next s" and ?s1 = "s\<lparr>gm_store := (gm_store s)(gm_next s \<mapsto> router_vertex (lr_linkId l)), gm_next := gm_next s + 1\<rparr>"
  have y: "ls_type y = RouterLSA" "ls_linkStateId y = lr_linkId l" by (rule stored_router [OF db rt w])+
  have nv: "new_vertex (lr_linkId l, y) s = Inr (?w, ?s1)"
    using y by (simp add: new_vertex_def SPFVertex_of_router)
  have vs: "gm_store s v = Some vx" using v by (simp add: link_ends_def)
  have ne: "?w \<noteq> v" "?w \<noteq> gm_spfroot s" "?w \<noteq> cw" using fresh_ends [OF rt v fresh(1)] fresh(1) cw by auto
  then have r1: "at_root d i root ip g ?s1" and v1: "link_ends d root v vx l ?s1"
    using rt v by (simp_all add: at_root_def link_ends_def)
  from nexthop_p2p [OF db r1 v1, of ?w "router_vertex (lr_linkId l)" dist] obtain nh oif where
    nh: "SPFNexthopCalculation v ?w (Some l) dist ?s1 =
      Inr (?s1\<lparr>gm_store := (gm_store ?s1)(?w \<mapsto> reached v dist (exits_by d ip root vx l) nh oif (router_vertex (lr_linkId l)))\<rparr>)"
    by (auto simp: router_vertex_def)
  let ?wx = "reached v dist (exits_by d ip root vx l) nh oif (router_vertex (lr_linkId l))"
  let ?cwx = "cwx\<lparr>sv_exits := remdups_adj (sort_key exit_key (sv_exits cwx @ exits_by d ip root vx l)),
    sv_parents := remdups_adj (sort (sv_parents cwx @ [v]))\<rparr>"
  let ?st = "(gm_store s)(?w \<mapsto> ?wx, cw \<mapsto> ?cwx)"
  have p: "sv_parents ?wx = [v]" "sv_children ?wx = []" "sv_exits ?wx = exits_by d ip root vx l"
    by (simp_all add: reached_def router_vertex_def)
  have "bind_res (SPFVertexAddParent ?w ?st) (delete_vertex (Suc (Suc (2 * gm_next s + 2))) ?w) = Inr (?st(?w := None))"
    by (rule delete_leaf [OF _ p(1,2)]) (use ne vs cw(2) fresh(2) in auto)
  moreover have "?st(?w := None) = (gm_store s)(cw \<mapsto> ?cwx)" using fresh(1) ne(3) by (auto simp: fun_eq_iff)
  ultimately have del: "bind_res (SPFVertexAddParent ?w ?st) (delete_vertex (Suc (Suc (2 * gm_next s + 2))) ?w) = Inr ((gm_store s)(cw \<mapsto> ?cwx))"
    by simp
  then obtain st1 where st1: "SPFVertexAddParent ?w ?st = Inr st1" "delete_vertex (Suc (Suc (2 * gm_next s + 2))) ?w st1 = Inr ((gm_store s)(cw \<mapsto> ?cwx))"
    unfolding bind_res_Inr_iff by blast
  show ?thesis
    using nv nh cw(1) ne(3) p st1
    by (simp add: merge_candidate_def vertex_def get_vertex_def update_vertex_def update_store_def on_vertex_def
        SPFVertex_MergeParent_def SPFVertex_MergeRootExitDirections_def delete_at_def store_fuel_def del: delete_vertex.simps)
qed

end
