(* ===== verification/Spf_Invariant.thy ===== *)
theory Spf_Invariant
  imports Spf_Steps
begin

text \<open>
  The invariant of the loop of \<open>SPFCalculate\<close>: what the store, the candidate queue and the status of the
  advertisements have to do with the invariant of Dijkstra, and that considering a link and taking the
  nearest candidate keep it.
\<close>

section \<open>The candidate queue\<close>

abbreviation vid :: "vertex_store \<Rightarrow> nat \<Rightarrow> ipv4" where
  "vid st a \<equiv> sv_id (the (st a))"

abbreviation vdist :: "vertex_store \<Rightarrow> nat \<Rightarrow> u32" where
  "vdist st a \<equiv> sv_distance (the (st a))"

definition routers_in :: "vertex_store \<Rightarrow> nat set \<Rightarrow> bool" where
  "routers_in st A \<longleftrightarrow> (\<forall>a \<in> A. \<exists>x. st a = Some x \<and> sv_type x = VertexRouter)"

lemma push_ok:
  assumes "routers_in st (insert n (set cs))" "sorted (map (vdist st) cs)"
  shows "\<exists>cs'. Candidate_Push st n cs = Inr cs' \<and> mset cs' = add_mset n (mset cs) \<and> sorted (map (vdist st) cs')"
  using assms
proof (induction cs)
  case (Cons c cs)
  obtain x y where xy: "st n = Some x" "sv_type x = VertexRouter" "st c = Some y" "sv_type y = VertexRouter"
    using Cons.prems(1) by (auto simp: routers_in_def)
  show ?case
  proof (cases "sv_distance x < sv_distance y")
    case True
    with xy Cons.prems(2) show ?thesis by (auto simp: get_vertex_def CompareSPFVertex_def)
  next
    case False
    obtain cs' where c: "Candidate_Push st n cs = Inr cs'" "mset cs' = add_mset n (mset cs)" "sorted (map (vdist st) cs')"
      using Cons by (auto simp: routers_in_def)
    from c(2) have "set cs' = insert n (set cs)" by (metis set_mset_add_mset_insert set_mset_mset)
    with False xy c Cons.prems(2) show ?thesis by (auto simp: get_vertex_def CompareSPFVertex_def)
  qed
qed simp

lemma reorder_ok:
  assumes "routers_in st (set cs)"
  shows "\<exists>cs'. Candidate_Reorder st cs = Inr cs' \<and> mset cs' = mset cs \<and> sorted (map (vdist st) cs')"
proof -
  have "\<exists>cs'. fold_res (Candidate_Push st) cs acc = Inr cs' \<and> mset cs' = mset cs + mset acc \<and> sorted (map (vdist st) cs')"
    if "routers_in st (set cs \<union> set acc)" "sorted (map (vdist st) acc)" for acc
    using that
  proof (induction cs arbitrary: acc)
    case (Cons c cs)
    obtain a where a: "Candidate_Push st c acc = Inr a" "mset a = add_mset c (mset acc)" "sorted (map (vdist st) a)"
      using push_ok [of st c acc] Cons.prems by (auto simp: routers_in_def)
    from a(2) have "set a = insert c (set acc)" by (metis set_mset_add_mset_insert set_mset_mset)
    with Cons.IH [of a] Cons.prems(1) a show ?case by (auto simp: routers_in_def)
  qed simp
  from this [of "[]"] assms show ?thesis by (simp add: Candidate_Reorder_def)
qed

lemma find_ok:
  assumes "c \<in> set cs" "\<forall>a \<in> set cs. st a \<noteq> None" "inj_on (vid st) (set cs)"
  shows "Candidate_Find st (vid st c) cs = Inr c"
  using assms
proof (induction cs)
  case (Cons a cs)
  obtain x where x: "st a = Some x" using Cons.prems(2) by auto
  show ?case
  proof (cases "c = a")
    case False
    then have c: "c \<in> set cs" "vid st a \<noteq> vid st c" using Cons.prems(1,3) by (auto dest: inj_onD)
    with Cons have "Candidate_Find st (vid st c) cs = Inr c" by (simp add: inj_on_def)
    with c(2) x show ?thesis by (simp add: get_vertex_def)
  qed (simp add: x get_vertex_def)
qed simp

section \<open>The invariant\<close>

definition vertex_ok :: "lsdb \<Rightarrow> (ipv4 \<Rightarrow> nat) \<Rightarrow> (ipv4 \<Rightarrow> node_exit set) \<Rightarrow> spf_vertex \<Rightarrow> bool" where
  "vertex_ok d D E x \<longleftrightarrow>
     sv_type x = VertexRouter \<and> sv_lsa x = sv_id x \<and> Lsdb_GetLSA (sv_id x) d \<noteq> None \<and>
     unat (sv_distance x) = D (sv_id x) \<and> set (sv_exits x) = E (sv_id x) \<and> \<not> sv_processed x"

definition vertices_ok ::
  "lsdb \<Rightarrow> (ipv4 \<Rightarrow> nat) \<Rightarrow> (ipv4 \<Rightarrow> node_exit set) \<Rightarrow> nat list \<Rightarrow> nat list \<Rightarrow> nat \<Rightarrow> vertex_store \<Rightarrow> bool" where
  "vertices_ok d D E ts cs n st \<longleftrightarrow>
     dom st = set ts \<union> set cs \<and> distinct (ts @ cs) \<and> (\<forall>a x. st a = Some x \<longrightarrow> 0 < a \<and> a < n \<and> vertex_ok d D E x) \<and>
     inj_on (vid st) (set ts \<union> set cs)"

definition links_ok :: "nat list \<Rightarrow> nat list \<Rightarrow> vertex_store \<Rightarrow> bool" where
  "links_ok ts cs st \<longleftrightarrow>
     (\<forall>j < length ts. (sv_parents (the (st (ts ! j))) = [] \<longleftrightarrow> j = 0) \<and> set (sv_parents (the (st (ts ! j)))) \<subseteq> set (take j ts)) \<and>
     (\<forall>c \<in> set cs. sv_parents (the (st c)) \<noteq> [] \<and> set (sv_parents (the (st c))) \<subseteq> set ts \<and> sv_children (the (st c)) = []) \<and>
     (\<forall>p \<in> set ts. set (sv_children (the (st p))) = {a \<in> set ts. p \<in> set (sv_parents (the (st a)))})"

definition stat :: "ipv4 set \<Rightarrow> ipv4 set \<Rightarrow> ipv4 \<Rightarrow> spf_status" where
  "stat T C k = (if k \<in> T then LSA_SPF_IN_SPFTREE else if k \<in> C then LSA_SPF_CANDIDATE else LSA_SPF_NOT_EXPLORED)"

definition spf_inv ::
  "lsdb \<Rightarrow> nat \<Rightarrow> ipv4 \<Rightarrow> 'p l3 \<Rightarrow> global_routing \<Rightarrow> (ipv4 \<times> link_record) set \<Rightarrow> nat list \<Rightarrow> nat list \<Rightarrow>
   (ipv4 \<Rightarrow> nat) \<Rightarrow> (ipv4 \<Rightarrow> node_exit set) \<Rightarrow> 'p grm \<Rightarrow> bool" where
  "spf_inv d i root ip g R ts cs D E s \<longleftrightarrow>
     (let st = gm_store s; T = vid st ` set ts; C = vid st ` set cs in
      ts \<noteq> [] \<and> gm_spfroot s = ts ! 0 \<and> vid st (ts ! 0) = root \<and>
      vertices_ok d D E ts cs (gm_next s) st \<and> links_ok ts cs st \<and>
      gm_lsdb s = with_status (stat T C) d \<and> root_node i root ip g (gm_nodes s) \<and>
      dijkstra (p2p_links d) (link_exit d ip root) root R T C D E \<and> sorted (map (vdist st) cs) \<and>
      (\<forall>j < length ts. D (vid st (ts ! j)) \<le> j * 65535) \<and> (\<forall>c \<in> set cs. D (vid st c) \<le> length ts * 65535))"

lemma spf_invD:
  assumes "spf_inv d i root ip g R ts cs D E s"
  shows "ts \<noteq> []" "gm_spfroot s = ts ! 0" "vid (gm_store s) (ts ! 0) = root" "vertices_ok d D E ts cs (gm_next s) (gm_store s)"
    "links_ok ts cs (gm_store s)" "gm_lsdb s = with_status (stat (vid (gm_store s) ` set ts) (vid (gm_store s) ` set cs)) d"
    "root_node i root ip g (gm_nodes s)"
    "dijkstra (p2p_links d) (link_exit d ip root) root R (vid (gm_store s) ` set ts) (vid (gm_store s) ` set cs) D E"
    "sorted (map (vdist (gm_store s)) cs)" "\<And>j. j < length ts \<Longrightarrow> D (vid (gm_store s) (ts ! j)) \<le> j * 65535"
    "\<And>c. c \<in> set cs \<Longrightarrow> D (vid (gm_store s) c) \<le> length ts * 65535"
  using assms unfolding spf_inv_def Let_def by blast+

lemma spf_invI:
  assumes "ts \<noteq> []" "gm_spfroot s = ts ! 0" "vid (gm_store s) (ts ! 0) = root" "vertices_ok d D E ts cs (gm_next s) (gm_store s)"
    "links_ok ts cs (gm_store s)" "vid (gm_store s) ` set ts = T" "vid (gm_store s) ` set cs = C"
    "gm_lsdb s = with_status (stat T C) d" "root_node i root ip g (gm_nodes s)"
    "dijkstra (p2p_links d) (link_exit d ip root) root R T C D E"
    "sorted (map (vdist (gm_store s)) cs)" "\<And>j. j < length ts \<Longrightarrow> D (vid (gm_store s) (ts ! j)) \<le> j * 65535"
    "\<And>c. c \<in> set cs \<Longrightarrow> D (vid (gm_store s) c) \<le> length ts * 65535"
  shows "spf_inv d i root ip g R ts cs D E s"
  using assms unfolding spf_inv_def Let_def by blast

lemma vertices_okD:
  assumes "vertices_ok d D E ts cs n st"
  shows "dom st = set ts \<union> set cs" "distinct ts" "distinct cs" "set ts \<inter> set cs = {}" "inj_on (vid st) (set ts \<union> set cs)"
    "\<And>a x. st a = Some x \<Longrightarrow> 0 < a \<and> a < n \<and> vertex_ok d D E x" "st n = None"
  using assms unfolding vertices_ok_def by (simp_all, blast+)

lemma vertices_at:
  assumes "vertices_ok d D E ts cs n st" "a \<in> set ts \<union> set cs"
  obtains x where "st a = Some x" "vertex_ok d D E x" "0 < a" "a < n"
proof -
  from assms have "a \<in> dom st" by (simp add: vertices_ok_def)
  then obtain x where "st a = Some x" by blast
  with assms(1) show thesis using that unfolding vertices_ok_def by blast
qed

lemma vertices_routers: "vertices_ok d D E ts cs n st \<Longrightarrow> A \<subseteq> set ts \<union> set cs \<Longrightarrow> routers_in st A"
  unfolding routers_in_def by (metis subsetD vertices_at vertex_ok_def)

lemma tree_ids: "vertices_ok d D E ts cs n st \<Longrightarrow> a \<in> set ts \<Longrightarrow> c \<in> set cs \<Longrightarrow> vid st a \<noteq> vid st c"
  using vertices_okD(4,5) by (metis IntI UnI1 UnI2 empty_iff inj_onD)

text \<open>A vertex that keeps its identity; and a new one.\<close>

definition same_vertex :: "spf_vertex \<Rightarrow> spf_vertex \<Rightarrow> bool" where
  "same_vertex x y \<longleftrightarrow> sv_type y = sv_type x \<and> sv_id y = sv_id x \<and> sv_lsa y = sv_lsa x \<and> sv_processed y = sv_processed x"

lemma vid_same: "st c = Some x \<Longrightarrow> same_vertex x y \<Longrightarrow> vid (st(c \<mapsto> y)) = vid st"
  by (rule ext) (simp add: same_vertex_def)

lemma vertices_ok_update:
  assumes "vertices_ok d D E ts cs n st" "c \<in> set cs" "st c = Some x" "same_vertex x y" "n \<le> n'"
    and "unat (sv_distance y) = dy" "set (sv_exits y) = ey"
  shows "vertices_ok d (D(sv_id x := dy)) (E(sv_id x := ey)) ts cs n' (st(c \<mapsto> y))"
proof -
  let ?st = "st(c \<mapsto> y)" and ?D = "D(sv_id x := dy)" and ?E = "E(sv_id x := ey)"
  have "dom ?st = set ts \<union> set cs" using assms(1,2) by (auto simp: vertices_ok_def)
  moreover have "inj_on (vid ?st) (set ts \<union> set cs)"
    unfolding vid_same [where st = st, OF assms(3,4)] using assms(1) by (simp add: vertices_ok_def)
  moreover have "0 < a \<and> a < n' \<and> vertex_ok d ?D ?E z" if z: "?st a = Some z" for a z
  proof (cases "a = c")
    case True
    then have "z = y" using z by simp
    with True assms(4-7) vertices_okD(6) [OF assms(1,3)] show ?thesis by (auto simp: vertex_ok_def same_vertex_def)
  next
    case False
    then have "st a = Some z" using z by simp
    moreover have "sv_id z \<noteq> sv_id x"
    proof
      assume "sv_id z = sv_id x"
      then have "vid st a = vid st c" using \<open>st a = Some z\<close> assms(3) by simp
      moreover have "a \<in> set ts \<union> set cs" "c \<in> set ts \<union> set cs" using \<open>st a = Some z\<close> assms(2) vertices_okD(1) [OF assms(1)] by blast+
      ultimately show False using False inj_onD [OF vertices_okD(5) [OF assms(1)]] by blast
    qed
    ultimately show ?thesis using vertices_okD(6) [OF assms(1), of a z] assms(5) by (simp add: vertex_ok_def)
  qed
  ultimately show ?thesis using assms(1) unfolding vertices_ok_def by blast
qed

lemma vertices_ok_perm: "vertices_ok d D E ts cs n st \<Longrightarrow> mset cs' = mset cs \<Longrightarrow> vertices_ok d D E ts cs' n st"
  using mset_eq_setD [of cs' cs] mset_eq_imp_distinct_iff [of cs' cs] unfolding vertices_ok_def by simp

lemma vertices_ok_new:
  assumes "vertices_ok d D E ts cs n st" "mset cs' = add_mset n (mset cs)" "sv_id y \<notin> vid st ` (set ts \<union> set cs)" "0 < n"
    and "vertex_ok d (D(sv_id y := dy)) (E(sv_id y := ey)) y"
  shows "vertices_ok d (D(sv_id y := dy)) (E(sv_id y := ey)) ts cs' (n + 1) (st(n \<mapsto> y))"
proof -
  let ?st = "st(n \<mapsto> y)"
  note v = vertices_okD [OF assms(1)]
  have cs': "set cs' = insert n (set cs)" using assms(2) by (metis set_mset_add_mset_insert set_mset_mset)
  have nn: "n \<notin> set ts \<union> set cs" using v(1,7) by blast
  have "distinct cs'" using assms(2) nn v(3) by (metis UnI2 distinct.simps(2) mset.simps(2) mset_eq_imp_distinct_iff)
  then have "distinct (ts @ cs')" using v(2,4) nn cs' by auto
  moreover have "dom ?st = set ts \<union> set cs'" using v(1) cs' by auto
  moreover have "inj_on (vid ?st) (set ts \<union> set cs')"
  proof -
    have eq: "vid ?st a = vid st a" if "a \<in> set ts \<union> set cs" for a using nn that by auto
    have "inj_on (vid ?st) (set ts \<union> set cs) \<longleftrightarrow> inj_on (vid st) (set ts \<union> set cs)" by (rule inj_on_cong) (rule eq)
    then have "inj_on (vid ?st) (set ts \<union> set cs)" using v(5) by blast
    moreover have "vid ?st n \<notin> vid ?st ` (set ts \<union> set cs)" 
    proof -
      have "vid ?st ` (set ts \<union> set cs) = vid st ` (set ts \<union> set cs)" by (rule image_cong [OF refl eq])
      with assms(3) show ?thesis by simp
    qed
    moreover have "set ts \<union> set cs' = insert n (set ts \<union> set cs)" using cs' by blast
    ultimately show ?thesis by (simp only:) (intro inj_on_insert [THEN iffD2] conjI, assumption, blast)
  qed
  moreover have "0 < a \<and> a < n + 1 \<and> vertex_ok d (D(sv_id y := dy)) (E(sv_id y := ey)) z" if z: "?st a = Some z" for a z
  proof (cases "a = n")
    case False
    then have "st a = Some z" using z by simp
    moreover from this have "sv_id z \<noteq> sv_id y" using assms(3) v(1) by (metis domI image_eqI option.sel)
    ultimately show ?thesis using v(6) by (fastforce simp: vertex_ok_def)
  qed (use z assms in simp)
  ultimately show ?thesis unfolding vertices_ok_def by blast
qed

lemma links_candidate:
  assumes "links_ok ts cs st" "c \<in> set cs"
  shows "sv_parents (the (st c)) \<noteq> []" "set (sv_parents (the (st c))) \<subseteq> set ts" "sv_children (the (st c)) = []"
  using assms unfolding links_ok_def by blast+

lemma links_ok_candidate:
  assumes "links_ok ts cs st" "set cs' = insert c (set cs)" "c \<notin> set ts"
    and "sv_parents y \<noteq> []" "set (sv_parents y) \<subseteq> set ts" "sv_children y = []"
  shows "links_ok ts cs' (st(c \<mapsto> y))"
proof -
  have "(st(c \<mapsto> y)) a = st a" if "a \<in> set ts" for a using that assms(3) by auto
  then show ?thesis using assms unfolding links_ok_def by (auto cong: conj_cong)
qed

section \<open>Considering a link\<close>

lemma vertices_bound:
  assumes "vertices_ok d D E ts cs n st"
  shows "length ts + length cs \<le> length (db_database d)"
proof -
  note v = vertices_okD [OF assms]
  have "vid st ` (set ts \<union> set cs) \<subseteq> fst ` set (db_database d)"
  proof
    fix k
    assume "k \<in> vid st ` (set ts \<union> set cs)"
    then obtain a where a: "a \<in> set ts \<union> set cs" "k = vid st a" by blast
    from vertices_at [OF assms a(1)] obtain x where "st a = Some x" "vertex_ok d D E x" by blast
    then have "map_of (db_database d) k \<noteq> None" using a(2) by (simp add: vertex_ok_def Lsdb_GetLSA_def)
    then show "k \<in> fst ` set (db_database d)" by (simp add: map_of_eq_None_iff)
  qed
  then have "card (set ts \<union> set cs) \<le> card (fst ` set (db_database d))"
    using card_image [OF v(5)] by (metis card_mono finite_imageI List.finite_set)
  moreover have "card (set ts \<union> set cs) = length ts + length cs"
    using v(2-4) by (simp add: card_Un_disjoint distinct_card)
  ultimately show ?thesis
    by (metis card_image_le card_length le_trans List.finite_set)
qed

lemma inv_at_root: "spf_inv d i root ip g R ts cs D E s \<Longrightarrow> at_root d i root ip g s"
proof -
  assume inv: "spf_inv d i root ip g R ts cs D E s"
  note I = spf_invD [OF inv]
  have "ts ! 0 \<in> set ts \<union> set cs" using I(1) by simp
  from vertices_at [OF I(4) this] obtain x where "gm_store s (ts ! 0) = Some x" "0 < ts ! 0" by blast
  with I show ?thesis unfolding at_root_def by auto
qed

lemma inv_link_ends:
  assumes inv: "spf_inv d i root ip g R ts cs D E s" and v: "v \<in> set ts" and l: "l \<in> p2p_links d (vid (gm_store s) v)"
    and db: "p2p_database d"
  obtains vx where "gm_store s v = Some vx" "vertex_ok d D E vx" "link_ends d root v vx l s"
    "unat (sv_distance vx + ucast (lr_metric l)) = D (sv_id vx) + link_cost l" "D (sv_id vx) + link_cost l \<le> length ts * 65535"
proof -
  note I = spf_invD [OF inv]
  from v have "v \<in> set ts \<union> set cs" by simp
  from vertices_at [OF I(4) this] obtain vx where vx: "gm_store s v = Some vx" "vertex_ok d D E vx" by blast
  have "v = ts ! 0 \<longleftrightarrow> vid (gm_store s) v = vid (gm_store s) (ts ! 0)"
    using inj_onD [OF vertices_okD(5) [OF I(4)]] v I(1) by (metis UnCI length_greater_0_conv nth_mem)
  then have "link_ends d root v vx l s" using vx I(2,3) l by (simp add: link_ends_def vertex_ok_def)
  moreover obtain j where j: "j < length ts" "v = ts ! j" using v by (auto simp: in_set_conv_nth)
  then have "D (sv_id vx) \<le> j * 65535" using I(10) [OF j(1)] vx(1) by simp
  moreover have "link_cost l < 65536" using unsigned_less [of "lr_metric l"] by simp
  moreover have "j * 65535 + 65535 \<le> length ts * 65535" using j(1) by (metis Suc_leI add.commute mult_Suc mult_le_mono1)
  moreover have "length ts \<le> 65536" using vertices_bound [OF I(4)] db by (simp add: p2p_database_def)
  ultimately have le: "D (sv_id vx) + link_cost l \<le> length ts * 65535" "length ts * 65535 \<le> 65536 * 65535" by linarith+
  have "unat (sv_distance vx + ucast (lr_metric l)) = D (sv_id vx) + link_cost l"
    using le vx(2) by (subst unat_add_nowrap) (simp_all add: vertex_ok_def)
  with that vx le(1) \<open>link_ends d root v vx l s\<close> show thesis by blast
qed

lemma relax_cases:
  assumes "p2p_database d" "at_root d i root ip g s" "link_ends d root v vx l s" "Lsdb_GetLSA (lr_linkId l) (gm_lsdb s) = Some y"
  shows "relax_record v l (cs, s) =
    (if ls_status y = LSA_SPF_IN_SPFTREE then Inr (cs, s)
     else if ls_status y = LSA_SPF_NOT_EXPLORED then explore v (Some l) (sv_distance vx + ucast (lr_metric l)) (lr_linkId l, y) (cs, s)
     else improve v (Some l) (sv_distance vx + ucast (lr_metric l)) (lr_linkId l, y) (cs, s))"
proof -
  have v: "gm_store s v = Some vx" "sv_lsa vx = sv_id vx" "Lsdb_GetLSA (sv_id vx) d \<noteq> None" "l \<in> p2p_links d (sv_id vx)"
    using assms(3) by (simp_all add: link_ends_def)
  from v(3) obtain z where "Lsdb_GetLSA (sv_id vx) d = Some z" by blast
  then have "router_ok d (sv_id vx) z" using assms(1) by (simp add: p2p_database_def)
  then have "ls_type z = RouterLSA" by (simp add: router_ok_def)
  moreover obtain q where "get_lsa (sv_id vx) s = Inr (Lsa_SetStatus q z)"
    using get_lsa_ready [OF assms(2) \<open>Lsdb_GetLSA (sv_id vx) d = Some z\<close>] by blast
  ultimately show ?thesis using v assms(4) p2p_link(4) [OF assms(1) v(4)]
    by (simp add: relax_record_def relax_def vertex_def get_vertex_def)
qed

lemma exits_by_contrib:
  assumes "vertex_ok d D E vx"
  shows "set (exits_by d ip root vx l) = contrib root (link_exit d ip root) E (sv_id vx) l"
  using assms by (simp add: exits_by_def contrib_def vertex_ok_def)

text \<open>What considering a link leaves alone.\<close>

definition spf_keeps :: "nat list \<Rightarrow> 'p grm \<Rightarrow> 'p grm \<Rightarrow> bool" where
  "spf_keeps ts s s' \<longleftrightarrow> gm_nodes s' = gm_nodes s \<and> (\<forall>a \<in> set ts. gm_store s' a = gm_store s a)"

lemma spf_keeps_refl [simp]: "spf_keeps ts s s"
  by (simp add: spf_keeps_def)

lemma spf_keeps_trans: "spf_keeps ts s s' \<Longrightarrow> spf_keeps ts s' s'' \<Longrightarrow> spf_keeps ts s s''"
  by (simp add: spf_keeps_def)

lemma sorted_map_cong: "(\<And>a. a \<in> set cs \<Longrightarrow> f a = g a) \<Longrightarrow> sorted (map f cs) = sorted (map g cs)"
  by (simp cong: map_cong)

lemma explore_inv:
  assumes db: "p2p_database d" and inv: "spf_inv d i root ip g R ts cs D E s" and v: "v \<in> set ts" "l \<in> p2p_links d (vid (gm_store s) v)"
    and new: "lr_linkId l \<notin> vid (gm_store s) ` (set ts \<union> set cs)" and y: "Lsdb_GetLSA (lr_linkId l) (gm_lsdb s) = Some y"
    and vx: "gm_store s v = Some vx"
  shows "\<exists>cs' s' D' E'. explore v (Some l) (sv_distance vx + ucast (lr_metric l)) (lr_linkId l, y) (cs, s) = Inr (cs', s') \<and>
    spf_inv d i root ip g (insert (vid (gm_store s) v, l) R) ts cs' D' E' s' \<and> spf_keeps ts s s'"
proof -
  note I = spf_invD [OF inv]
  note V = vertices_okD [OF I(4)]
  let ?n = "gm_next s" and ?w = "lr_linkId l" and ?st = "gm_store s"
  from inv_link_ends [OF inv v db] vx have L: "vertex_ok d D E vx" "link_ends d root v vx l s"
      "unat (sv_distance vx + ucast (lr_metric l)) = D (sv_id vx) + link_cost l" "D (sv_id vx) + link_cost l \<le> length ts * 65535" by force+
  let ?D = "D(?w := D (sv_id vx) + link_cost l)" and ?E = "E(?w := contrib root (link_exit d ip root) E (sv_id vx) l)"
  obtain nh oif where ex: "explore v (Some l) (sv_distance vx + ucast (lr_metric l)) (?w, y) (cs, s) =
    (let w = gm_next s;
         s' = s\<lparr>gm_next := w + 1,
               gm_store := ?st(w \<mapsto> reached v (sv_distance vx + ucast (lr_metric l)) (exits_by d ip root vx l) nh oif (router_vertex ?w)),
               gm_lsdb := Lsdb_SetStatus ?w LSA_SPF_CANDIDATE (gm_lsdb s)\<rparr>
     in bind_res (Candidate_Push (gm_store s') w cs) (\<lambda>cs'. Inr (cs', s')))"
    using explore_effect [OF db inv_at_root [OF inv] L(2) V(7) y] by blast
  define wx where "wx = reached v (sv_distance vx + ucast (lr_metric l)) (exits_by d ip root vx l) nh oif (router_vertex ?w)"
  define s' where "s' = s\<lparr>gm_next := ?n + 1, gm_store := ?st(?n \<mapsto> wx), gm_lsdb := Lsdb_SetStatus ?w LSA_SPF_CANDIDATE (gm_lsdb s)\<rparr>"
  have st': "gm_store s' = ?st(?n \<mapsto> wx)" by (simp add: s'_def)
  have wx: "sv_id wx = ?w" "sv_parents wx = [v]" "sv_children wx = []" "vertex_ok d ?D ?E wx" "sv_type wx = VertexRouter"
      "unat (sv_distance wx) = ?D ?w"
    using L(3) exits_by_contrib [OF L(1), of ip root l] p2p_link(2) [OF db v(2)]
    by (simp_all add: wx_def reached_def router_vertex_def vertex_ok_def)
  have old: "gm_store s' a = ?st a" if "a \<in> set ts \<union> set cs" for a using that V(1,7) by (auto simp: st')
  have rts: "routers_in (gm_store s') (insert ?n (set cs))"
    using vertices_routers [OF I(4), of "set cs"] old wx(5) by (auto simp: routers_in_def st')
  have "sorted (map (vdist (gm_store s')) cs)" using I(9) sorted_map_cong [of cs "vdist (gm_store s')" "vdist ?st"] old by simp
  from push_ok [OF rts this] obtain cs' where cs': "Candidate_Push (gm_store s') ?n cs = Inr cs'" "mset cs' = add_mset ?n (mset cs)"
    "sorted (map (vdist (gm_store s')) cs')" by blast
  have set': "set cs' = insert ?n (set cs)" using cs'(2) by (metis set_mset_add_mset_insert set_mset_mset)
  have "explore v (Some l) (sv_distance vx + ucast (lr_metric l)) (?w, y) (cs, s) = Inr (cs', s')"
    using ex cs'(1) by (simp add: Let_def wx_def s'_def)
  moreover have "spf_inv d i root ip g (insert (vid ?st v, l) R) ts cs' ?D ?E s'"
  proof (rule spf_invI)
    show "ts \<noteq> []" "gm_spfroot s' = ts ! 0" "root_node i root ip g (gm_nodes s')" using I by (simp_all add: s'_def)
    show "vid (gm_store s') (ts ! 0) = root" using I(1,3) old [of "ts ! 0"] by simp
    have "0 < ?n" using V(6) [OF vx] by simp
    then show "vertices_ok d ?D ?E ts cs' (gm_next s') (gm_store s')"
      using vertices_ok_new [OF I(4) cs'(2), of wx] new wx(1,4) by (simp add: s'_def)
    have "?n \<notin> set ts" using V(1,7) by blast
    then show "links_ok ts cs' (gm_store s')"
      unfolding st' using links_ok_candidate [OF I(5) set'] wx v(1) by simp
    show T: "vid (gm_store s') ` set ts = vid ?st ` set ts" using old by (intro image_cong) simp_all
    have "vid (gm_store s') ` set cs = vid ?st ` set cs" using old by (intro image_cong) simp_all
    then show "vid (gm_store s') ` set cs' = insert ?w (vid ?st ` set cs)" using set' wx(1) by (simp add: st')
    show "gm_lsdb s' = with_status (stat (vid ?st ` set ts) (insert ?w (vid ?st ` set cs))) d"
    proof -
      have "(stat (vid ?st ` set ts) (vid ?st ` set cs))(?w := LSA_SPF_CANDIDATE) = stat (vid ?st ` set ts) (insert ?w (vid ?st ` set cs))"
        using new by (auto simp: stat_def fun_eq_iff)
      then show ?thesis by (simp add: s'_def I(6) SetStatus_with_status)
    qed
    have "sv_id vx = vid ?st v" using vx by simp
    then show "dijkstra (p2p_links d) (link_exit d ip root) root (insert (vid ?st v, l) R) (vid ?st ` set ts) (insert ?w (vid ?st ` set cs)) ?D ?E"
      using dijkstra_new [OF I(8) _ v(2) refl] v(1) new by (simp add: image_Un)
    show "sorted (map (vdist (gm_store s')) cs')" by (rule cs'(3))
    show "?D (vid (gm_store s') (ts ! j)) \<le> j * 65535" if "j < length ts" for j
    proof -
      have "vid ?st (ts ! j) \<noteq> ?w" using new nth_mem [OF that] by (metis UnI1 image_eqI)
      then show ?thesis using I(10) [OF that] old [of "ts ! j"] that by simp
    qed
    show "?D (vid (gm_store s') c) \<le> length ts * 65535" if "c \<in> set cs'" for c
    proof (cases "c = ?n")
      case True
      then show ?thesis using wx(1) L(4) by (simp add: st')
    next
      case False
      then have "c \<in> set cs" using that set' by simp
      moreover from this have "vid ?st c \<noteq> ?w" using new by (metis UnI2 image_eqI)
      ultimately show ?thesis using I(11) old [of c] by simp
    qed
  qed
  moreover have "spf_keeps ts s s'" using old by (simp add: spf_keeps_def s'_def)
  ultimately show ?thesis by blast
qed

text \<open>A candidate that changes, and the order of the queue.\<close>

lemma candidate_inv:
  assumes inv: "spf_inv d i root ip g R ts cs D E s" and c: "c \<in> set cs" "gm_store s c = Some cwx" "same_vertex cwx y"
    and y: "sv_parents y \<noteq> []" "set (sv_parents y) \<subseteq> set ts" "sv_children y = []"
      "unat (sv_distance y) = dy" "set (sv_exits y) = ey" "dy \<le> length ts * 65535"
    and s': "gm_store s' = (gm_store s)(c \<mapsto> y)" "gm_next s \<le> gm_next s'" "gm_lsdb s' = gm_lsdb s" "gm_nodes s' = gm_nodes s"
      "gm_spfroot s' = gm_spfroot s"
    and cs': "mset cs' = mset cs" "sorted (map (vdist (gm_store s')) cs')"
    and dj: "dijkstra (p2p_links d) (link_exit d ip root) root R' (vid (gm_store s) ` set ts) (vid (gm_store s) ` set cs)
      (D(sv_id cwx := dy)) (E(sv_id cwx := ey))"
  shows "spf_inv d i root ip g R' ts cs' (D(sv_id cwx := dy)) (E(sv_id cwx := ey)) s' \<and> spf_keeps ts s s'"
proof -
  note I = spf_invD [OF inv]
  note V = vertices_okD [OF I(4)]
  have ids: "vid (gm_store s') = vid (gm_store s)" unfolding s'(1) by (rule vid_same [where st = "gm_store s", OF c(2,3)])
  have nt: "c \<notin> set ts" using c(1) V(4) by blast
  have set': "set cs' = set cs" using cs'(1) by (rule mset_eq_setD)
  have ne: "vid (gm_store s) a \<noteq> sv_id cwx" if "a \<in> set ts" for a using tree_ids [OF I(4) that c(1)] c(2) by simp
  have "spf_inv d i root ip g R' ts cs' (D(sv_id cwx := dy)) (E(sv_id cwx := ey)) s'"
  proof (rule spf_invI [OF I(1)])
    show "gm_spfroot s' = ts ! 0" "root_node i root ip g (gm_nodes s')" using I s' by simp_all
    show "vid (gm_store s') (ts ! 0) = root" using I(3) ids by metis
    have "vertices_ok d (D(sv_id cwx := dy)) (E(sv_id cwx := ey)) ts cs (gm_next s') (gm_store s')"
      unfolding s'(1) by (rule vertices_ok_update [OF I(4) c s'(2) y(4,5)])
    then show "vertices_ok d (D(sv_id cwx := dy)) (E(sv_id cwx := ey)) ts cs' (gm_next s') (gm_store s')"
      by (rule vertices_ok_perm) (rule cs'(1))
    show "links_ok ts cs' (gm_store s')"
      unfolding s'(1) by (rule links_ok_candidate [OF I(5) _ nt y(1-3)]) (use set' c(1) in auto)
    show "vid (gm_store s') ` set ts = vid (gm_store s) ` set ts" "vid (gm_store s') ` set cs' = vid (gm_store s) ` set cs"
      unfolding ids set' by (rule refl)+
    show "gm_lsdb s' = with_status (stat (vid (gm_store s) ` set ts) (vid (gm_store s) ` set cs)) d" using I(6) s'(3) by simp
    show "(D(sv_id cwx := dy)) (vid (gm_store s') (ts ! j)) \<le> j * 65535" if "j < length ts" for j
      unfolding fun_cong [OF ids] using I(10) [OF that] ne [of "ts ! j"] that by simp
    show "(D(sv_id cwx := dy)) (vid (gm_store s') b) \<le> length ts * 65535" if "b \<in> set cs'" for b
      unfolding fun_cong [OF ids] using I(11) [of b] that set' y(6) by simp
  qed (use dj cs'(2) in simp_all)
  moreover have "spf_keeps ts s s'" using nt s' by (auto simp: spf_keeps_def)
  ultimately show ?thesis by blast
qed

lemma merge_inv:
  assumes db: "p2p_database d" and inv: "spf_inv d i root ip g R ts cs D E s" and v: "v \<in> set ts" "l \<in> p2p_links d (vid (gm_store s) v)"
    and y: "Lsdb_GetLSA (lr_linkId l) (gm_lsdb s) = Some y" and vx: "gm_store s v = Some vx"
    and c: "c \<in> set cs" "gm_store s c = Some cwx" "sv_id cwx = lr_linkId l"
    and eq: "sv_distance cwx = sv_distance vx + ucast (lr_metric l)"
  shows "\<exists>s' D' E'. merge_candidate v c (Some l) (sv_distance vx + ucast (lr_metric l)) (lr_linkId l, y) s = Inr s' \<and>
    spf_inv d i root ip g (insert (vid (gm_store s) v, l) R) ts cs D' E' s' \<and> spf_keeps ts s s'"
proof -
  note I = spf_invD [OF inv]
  note V = vertices_okD [OF I(4)]
  from inv_link_ends [OF inv v db] vx have L: "vertex_ok d D E vx" "link_ends d root v vx l s"
      "unat (sv_distance vx + ucast (lr_metric l)) = D (sv_id vx) + link_cost l" by force+
  let ?x = "cwx\<lparr>sv_exits := remdups_adj (sort_key exit_key (sv_exits cwx @ exits_by d ip root vx l)),
      sv_parents := remdups_adj (sort (sv_parents cwx @ [v]))\<rparr>"
  let ?w = "lr_linkId l" and ?s = "s\<lparr>gm_store := (gm_store s)(c \<mapsto> ?x), gm_next := gm_next s + 1\<rparr>"
  have lc: "sv_parents cwx \<noteq> []" "set (sv_parents cwx) \<subseteq> set ts" "sv_children cwx = []"
    using links_candidate [OF I(5) c(1)] c(2) by simp_all
  have "set (sv_children vx) \<subseteq> set ts" using I(5) v(1) vx by (auto simp: links_ok_def)
  then have fresh: "gm_next s \<notin> set (sv_children vx)" using V(1,7) by blast
  have "c \<noteq> v" using c(1) v(1) V(4) by blast
  from merge_effect [OF db inv_at_root [OF inv] L(2) V(7) fresh y c(2) this]
  have "merge_candidate v c (Some l) (sv_distance vx + ucast (lr_metric l)) (?w, y) s = Inr ?s" .
  moreover have ok: "vertex_ok d D E cwx" using V(6) [OF c(2)] by blast
  have "D ?w = D (sv_id vx) + link_cost l" using ok L(3) eq c(3) by (simp add: vertex_ok_def)
  then have "dijkstra (p2p_links d) (link_exit d ip root) root (insert (vid (gm_store s) v, l) R) (vid (gm_store s) ` set ts) (vid (gm_store s) ` set cs)
      D (E(?w := E ?w \<union> contrib root (link_exit d ip root) E (vid (gm_store s) v) l))"
    using dijkstra_equal [OF I(8) _ v(2) refl] v(1) vx c by force
  then have "spf_inv d i root ip g (insert (vid (gm_store s) v, l) R) ts cs (D(sv_id cwx := D (sv_id cwx)))
      (E(sv_id cwx := E ?w \<union> contrib root (link_exit d ip root) E (vid (gm_store s) v) l)) ?s \<and> spf_keeps ts s ?s"
  proof (intro candidate_inv [OF inv c(1,2), where y = ?x])
    show "same_vertex cwx ?x" by (simp add: same_vertex_def)
    have "length (sort (sv_parents cwx @ [v])) \<noteq> 0" by simp
    then show "sv_parents ?x \<noteq> []" by (simp del: length_sort)
    show "set (sv_parents ?x) \<subseteq> set ts" "sv_children ?x = []" using lc v(1) by simp_all
    show "unat (sv_distance ?x) = D (sv_id cwx)" using ok by (simp add: vertex_ok_def)
    show "set (sv_exits ?x) = E ?w \<union> contrib root (link_exit d ip root) E (vid (gm_store s) v) l"
      using ok exits_by_contrib [OF L(1), of ip root l] c(3) vx by (simp add: vertex_ok_def)
    show "D (sv_id cwx) \<le> length ts * 65535" using I(11) [OF c(1)] c(2) by simp
    show "sorted (map (vdist (gm_store ?s)) cs)"
      using I(9) sorted_map_cong [of cs "vdist (gm_store ?s)" "vdist (gm_store s)"] c(2) by simp
  qed (use c(3) in simp_all)
  ultimately show ?thesis by blast
qed

lemma better_inv:
  assumes db: "p2p_database d" and inv: "spf_inv d i root ip g R ts cs D E s" and v: "v \<in> set ts" "l \<in> p2p_links d (vid (gm_store s) v)"
    and vx: "gm_store s v = Some vx" and c: "c \<in> set cs" "gm_store s c = Some cwx" "sv_id cwx = lr_linkId l"
    and lt: "sv_distance vx + ucast (lr_metric l) < sv_distance cwx"
  shows "\<exists>s1 cs' D' E'. SPFNexthopCalculation v c (Some l) (sv_distance vx + ucast (lr_metric l)) s = Inr s1 \<and>
    Candidate_Reorder (gm_store s1) cs = Inr cs' \<and>
    spf_inv d i root ip g (insert (vid (gm_store s) v, l) R) ts cs' D' E' s1 \<and> spf_keeps ts s s1"
proof -
  note I = spf_invD [OF inv]
  note V = vertices_okD [OF I(4)]
  from inv_link_ends [OF inv v db] vx have L: "vertex_ok d D E vx" "link_ends d root v vx l s"
      "unat (sv_distance vx + ucast (lr_metric l)) = D (sv_id vx) + link_cost l" "D (sv_id vx) + link_cost l \<le> length ts * 65535" by force+
  let ?w = "lr_linkId l" and ?dist = "sv_distance vx + ucast (lr_metric l)"
  have ok: "vertex_ok d D E cwx" using V(6) [OF c(2)] by blast
  then have t: "sv_type cwx = VertexRouter" "sv_lsa cwx = sv_id cwx" by (simp_all add: vertex_ok_def)
  from nexthop_p2p [OF db inv_at_root [OF inv] L(2) c(2) t c(3)] obtain nh oif where
    nh: "SPFNexthopCalculation v c (Some l) ?dist s = Inr (s\<lparr>gm_store := (gm_store s)(c \<mapsto> reached v ?dist (exits_by d ip root vx l) nh oif cwx)\<rparr>)"
    by blast
  define x where "x = reached v ?dist (exits_by d ip root vx l) nh oif cwx"
  define s1 where "s1 = s\<lparr>gm_store := (gm_store s)(c \<mapsto> x)\<rparr>"
  have same: "same_vertex cwx x" by (simp add: same_vertex_def x_def reached_def)
  have "routers_in (gm_store s1) (set cs)"
    using vertices_routers [OF I(4), of "set cs"] same t(1) by (auto simp: routers_in_def s1_def same_vertex_def)
  from reorder_ok [OF this] obtain cs' where cs': "Candidate_Reorder (gm_store s1) cs = Inr cs'" "mset cs' = mset cs"
    "sorted (map (vdist (gm_store s1)) cs')" by blast
  have "D (sv_id vx) + link_cost l < D ?w" using ok L(3) lt c(3) by (simp add: vertex_ok_def word_less_nat_alt)
  then have "dijkstra (p2p_links d) (link_exit d ip root) root (insert (vid (gm_store s) v, l) R) (vid (gm_store s) ` set ts) (vid (gm_store s) ` set cs)
      (D(?w := D (sv_id vx) + link_cost l)) (E(?w := contrib root (link_exit d ip root) E (vid (gm_store s) v) l))"
    using dijkstra_better [OF I(8) _ v(2) refl] v(1) vx c by force
  then have "spf_inv d i root ip g (insert (vid (gm_store s) v, l) R) ts cs' (D(sv_id cwx := D (sv_id vx) + link_cost l))
      (E(sv_id cwx := contrib root (link_exit d ip root) E (vid (gm_store s) v) l)) s1 \<and> spf_keeps ts s s1"
  proof (intro candidate_inv [OF inv c(1,2) same])
    have "sv_children cwx = []" using links_candidate(3) [OF I(5) c(1)] c(2) by simp
    then show "sv_parents x \<noteq> []" "set (sv_parents x) \<subseteq> set ts" "sv_children x = []" using v(1) by (simp_all add: x_def reached_def)
    show "unat (sv_distance x) = D (sv_id vx) + link_cost l" using L(3) by (simp add: x_def reached_def)
    show "set (sv_exits x) = contrib root (link_exit d ip root) E (vid (gm_store s) v) l"
      using exits_by_contrib [OF L(1), of ip root l] vx by (simp add: x_def reached_def)
  qed (use c(3) cs' L(4) in \<open>simp_all add: s1_def\<close>)
  moreover have "SPFNexthopCalculation v c (Some l) ?dist s = Inr s1" using nh by (simp add: s1_def x_def)
  ultimately show ?thesis using cs'(1) by blast
qed

text \<open>All cases of a link, and all links of a router.\<close>

lemma relax_inv:
  assumes db: "p2p_database d" and inv: "spf_inv d i root ip g R ts cs D E s" and v: "v \<in> set ts" "l \<in> p2p_links d (vid (gm_store s) v)"
  shows "\<exists>cs' s' D' E'. relax_record v l (cs, s) = Inr (cs', s') \<and>
    spf_inv d i root ip g (insert (vid (gm_store s) v, l) R) ts cs' D' E' s' \<and> spf_keeps ts s s'"
proof -
  note I = spf_invD [OF inv]
  note V = vertices_okD [OF I(4)]
  let ?w = "lr_linkId l" and ?st = "gm_store s"
  from inv_link_ends [OF inv v db] obtain vx where L: "?st v = Some vx" "link_ends d root v vx l s" by metis
  from p2p_link(2) [OF db v(2)] obtain y0 where "Lsdb_GetLSA ?w d = Some y0" by blast
  then have y: "Lsdb_GetLSA ?w (gm_lsdb s) = Some (Lsa_SetStatus (stat (vid ?st ` set ts) (vid ?st ` set cs) ?w) y0)"
    by (simp add: I(6) GetLSA_with_status)
  note r = relax_cases [OF db inv_at_root [OF inv] L(2) y, of cs]
  show ?thesis
  proof (cases "?w \<in> vid ?st ` set ts")
    case True
    then have "relax_record v l (cs, s) = Inr (cs, s)" using r by (simp add: stat_def)
    moreover have "spf_inv d i root ip g (insert (vid ?st v, l) R) ts cs D E s"
      using I dijkstra_seen [OF I(8) _ v(2) True] v(1) unfolding spf_inv_def Let_def by blast
    ultimately show ?thesis by (metis spf_keeps_refl)
  next
    case notree: False
    show ?thesis
    proof (cases "?w \<in> vid ?st ` set cs")
      case False
      then have "?w \<notin> vid ?st ` (set ts \<union> set cs)" using notree by blast
      from explore_inv [OF db inv v this y L(1)] r notree False show ?thesis by (simp add: stat_def)
    next
      case True
      then obtain c where c1: "c \<in> set cs" "vid ?st c = ?w" by (auto simp: image_iff)
      from vertices_at [OF I(4), of c] c1(1) obtain cwx where "?st c = Some cwx" by blast
      with c1 have c: "c \<in> set cs" "?st c = Some cwx" "sv_id cwx = ?w" by simp_all
      have "\<forall>a \<in> set cs. ?st a \<noteq> None" using V(1) by blast
      moreover have "inj_on (vid ?st) (set cs)" using V(5) by (rule inj_on_subset) simp
      ultimately have find: "Candidate_Find ?st ?w cs = Inr c" using find_ok [OF c(1), of ?st] c1(2) by simp
      let ?dist = "sv_distance vx + ucast (lr_metric l)"
      note imp = improve_def [of v "Some l" ?dist] vertex_def get_vertex_def
      consider "sv_distance cwx < ?dist" | "sv_distance cwx = ?dist" | "?dist < sv_distance cwx" by (rule linorder_cases)
      then show ?thesis
      proof cases
        case 1
        have id: "ls_linkStateId y0 = ?w" using stored_router(2) [OF db inv_at_root [OF inv] y] by simp
        have "relax_record v l (cs, s) = Inr (cs, s)" using r notree True find c 1 id by (simp add: stat_def imp)
        moreover have "spf_inv d i root ip g (insert (vid ?st v, l) R) ts cs D E s"
        proof -
          from inv_link_ends [OF inv v db] L(1) have "unat ?dist = D (sv_id vx) + link_cost l" by force
          then have "D ?w < D (vid ?st v) + link_cost l" using 1 V(6) [OF c(2)] c(3) L(1) by (simp add: vertex_ok_def word_less_nat_alt)
          then have "dijkstra (p2p_links d) (link_exit d ip root) root (insert (vid ?st v, l) R) (vid ?st ` set ts) (vid ?st ` set cs) D E"
            using dijkstra_worse [OF I(8) _ v(2) True] v(1) by blast
          then show ?thesis using I unfolding spf_inv_def Let_def by blast
        qed
        ultimately show ?thesis by (metis spf_keeps_refl)
      next
        case 2
        have id: "ls_linkStateId y0 = ?w" using stored_router(2) [OF db inv_at_root [OF inv] y] by simp
        from merge_inv [OF db inv v y L(1) c 2] r notree True find c 2 id show ?thesis by (auto simp: stat_def imp)
      next
        case 3
        have id: "ls_linkStateId y0 = ?w" using stored_router(2) [OF db inv_at_root [OF inv] y] by simp
        from better_inv [OF db inv v L(1) c 3] r notree True find c 3 id show ?thesis by (auto simp: stat_def imp)
      qed
    qed
  qed
qed

lemma relax_all:
  assumes db: "p2p_database d" and inv: "spf_inv d i root ip g R ts cs D E s" and v: "v \<in> set ts" "vid (gm_store s) v = k"
    and rs: "\<forall>l \<in> set rs. lr_linkType l = StubNetwork \<or> l \<in> p2p_links d k"
  shows "\<exists>cs' s' D' E'. fold_res (relax_record v) rs (cs, s) = Inr (cs', s') \<and>
    spf_inv d i root ip g (R \<union> {(k, l) |l. l \<in> set rs \<and> lr_linkType l \<noteq> StubNetwork}) ts cs' D' E' s' \<and> spf_keeps ts s s'"
  using inv v(2) rs
proof (induction rs arbitrary: R cs D E s)
  case Nil
  have "fold_res (relax_record v) [] (cs, s) = Inr (cs, s)" "spf_keeps ts s s"
    "spf_inv d i root ip g (R \<union> {(k, l) |l. l \<in> set [] \<and> lr_linkType l \<noteq> StubNetwork}) ts cs D E s" using Nil.prems(1) by simp_all
  then show ?case by blast
next
  case (Cons l rs)
  show ?case
  proof (cases "lr_linkType l = StubNetwork")
    case True
    have "{(k, x) |x. x \<in> set (l # rs) \<and> lr_linkType x \<noteq> StubNetwork} = {(k, x) |x. x \<in> set rs \<and> lr_linkType x \<noteq> StubNetwork}"
      using True by auto
    moreover have "relax_record v l (cs, s) = Inr (cs, s)" using True by (simp add: relax_record_def)
    ultimately show ?thesis using Cons.IH [OF Cons.prems(1,2)] Cons.prems(3) by simp
  next
    case False
    then have l: "l \<in> p2p_links d (vid (gm_store s) v)" using Cons.prems(2,3) by auto
    from relax_inv [OF db Cons.prems(1) v(1) l] Cons.prems(2) obtain cs1 s1 D1 E1 where
      1: "relax_record v l (cs, s) = Inr (cs1, s1)" "spf_inv d i root ip g (insert (k, l) R) ts cs1 D1 E1 s1" "spf_keeps ts s s1" by metis
    have "vid (gm_store s1) v = k" using 1(3) v(1) Cons.prems(2) by (simp add: spf_keeps_def)
    from Cons.IH [OF 1(2) this] Cons.prems(3) obtain cs' s' D' E' where
      2: "fold_res (relax_record v) rs (cs1, s1) = Inr (cs', s')"
      "spf_inv d i root ip g (insert (k, l) R \<union> {(k, x) |x. x \<in> set rs \<and> lr_linkType x \<noteq> StubNetwork}) ts cs' D' E' s'" "spf_keeps ts s1 s'" by auto
    have fin: "fold_res (relax_record v) (l # rs) (cs, s) = Inr (cs', s')" "spf_keeps ts s s'" using 1 2 spf_keeps_trans by auto
    have "insert (k, l) R \<union> {(k, x) |x. x \<in> set rs \<and> lr_linkType x \<noteq> StubNetwork} =
        R \<union> {(k, x) |x. x \<in> set (l # rs) \<and> lr_linkType x \<noteq> StubNetwork}" using False by auto
    with 2(2) have "spf_inv d i root ip g (R \<union> {(k, x) |x. x \<in> set (l # rs) \<and> lr_linkType x \<noteq> StubNetwork}) ts cs' D' E' s'" by simp
    with fin show ?thesis by blast
  qed
qed

end
