(* ===== verification/Spf_Loop.thy ===== *)
theory Spf_Loop
  imports Spf_Invariant
begin

text \<open>
  The loop of \<open>SPFCalculate\<close>: it settles every router that can be reached, once, with its distance and all
  exits towards it, and writes the host routes as it goes.
\<close>

section \<open>Host routes\<close>

definition usable_exits :: "node_exit list \<Rightarrow> node_exit list" where
  "usable_exits es = filter (\<lambda>(nh, oif). 0 \<le> sint oif) es"

definition host_routes :: "link_record list \<Rightarrow> node_exit list \<Rightarrow> routing_entry list" where
  "host_routes rs es =
     concat (map (\<lambda>lr. map (\<lambda>(nh, oif). CreateHostRouteTo (lr_linkData lr) nh oif) (usable_exits es))
       (filter (\<lambda>lr. lr_linkType lr = PointToPoint) rs))"

definition add_hosts :: "routing_entry list \<Rightarrow> global_routing \<Rightarrow> global_routing" where
  "add_hosts hs g = g\<lparr>m_hostRoutes := m_hostRoutes g @ hs\<rparr>"

lemma add_hosts_add: "add_hosts hs' (add_hosts hs g) = add_hosts (hs @ hs') g"
  by (simp add: add_hosts_def)

lemma add_exits_hosts:
  "add_exits (GlobalRouting_AddHostRouteTo a) es g = add_hosts (map (\<lambda>(nh, oif). CreateHostRouteTo a nh oif) (usable_exits es)) g"
  by (induction es arbitrary: g)
    (auto simp: add_exits_def usable_exits_def add_hosts_def GlobalRouting_AddHostRouteTo_def split: prod.splits)

lemma host_fold:
  "fold_res (\<lambda>lr. if lr_linkType lr \<noteq> PointToPoint then Inr
      else with_routing (add_exits (GlobalRouting_AddHostRouteTo (lr_linkData lr)) es)) rs (Some g) =
    Inr (Some (add_hosts (host_routes rs es) g))"
  by (induction rs arbitrary: g) (auto simp: host_routes_def add_exits_hosts add_hosts_add with_routing_def, simp_all add: add_hosts_def)

text \<open>The host routes towards a router: one for each of its point-to-point addresses and each first link.\<close>

definition hosts_to :: "lsdb \<Rightarrow> 'p l3 \<Rightarrow> ipv4 \<Rightarrow> ipv4 \<Rightarrow> routing_entry set" where
  "hosts_to d ip root w =
     {CreateHostRouteTo (lr_linkData k) nh oif |k nh oif. k \<in> p2p_links d w \<and>
        (nh, oif) \<in> link_exit d ip root ` first_links (p2p_links d) root w \<and> 0 \<le> sint oif}"

lemma set_host_routes:
  assumes "set es = link_exit d ip root ` first_links (p2p_links d) root w"
  shows "set (host_routes (records d w) es) = hosts_to d ip root w"
  using assms by (auto simp: host_routes_def hosts_to_def usable_exits_def p2p_links_def)

section \<open>Taking a candidate\<close>

definition set_children :: "(nat \<Rightarrow> nat list) \<Rightarrow> vertex_store \<Rightarrow> vertex_store" where
  "set_children f st = (\<lambda>a. map_option (\<lambda>x. x\<lparr>sv_children := f a\<rparr>) (st a))"

lemma add_children:
  assumes "\<forall>p \<in> set ps. st p \<noteq> None"
  shows "\<exists>f. fold_res (\<lambda>p. on_vertex p (SPFVertex_AddChild u)) ps st = Inr (set_children f st) \<and>
    (\<forall>a x. st a = Some x \<longrightarrow> set (f a) = set (sv_children x) \<union> (if a \<in> set ps then {u} else {}))"
  using assms
proof (induction ps arbitrary: st)
  case Nil
  have "set_children (\<lambda>a. sv_children (the (st a))) st = st"
  proof
    show "set_children (\<lambda>a. sv_children (the (st a))) st a = st a" for a by (cases "st a") (simp_all add: set_children_def)
  qed
  then show ?case by (intro exI [of _ "\<lambda>a. sv_children (the (st a))"]) simp
next
  case (Cons p ps)
  then obtain x where x: "st p = Some x" by auto
  let ?st = "st(p \<mapsto> SPFVertex_AddChild u x)"
  have "\<forall>p \<in> set ps. ?st p \<noteq> None" using Cons.prems by simp
  from Cons.IH [OF this] obtain f where f: "fold_res (\<lambda>p. on_vertex p (SPFVertex_AddChild u)) ps ?st = Inr (set_children f ?st)"
    "\<forall>a y. ?st a = Some y \<longrightarrow> set (f a) = set (sv_children y) \<union> (if a \<in> set ps then {u} else {})" by blast
  have "set_children f ?st = set_children f st" using x by (auto simp: set_children_def SPFVertex_AddChild_def fun_eq_iff)
  with f(1) x have "fold_res (\<lambda>p. on_vertex p (SPFVertex_AddChild u)) (p # ps) st = Inr (set_children f st)"
    by (simp add: on_vertex_def get_vertex_def)
  moreover have "set (f a) = set (sv_children y) \<union> (if a \<in> set (p # ps) then {u} else {})" if "st a = Some y" for a y
    using f(2) x that by (cases "a = p") (auto simp: SPFVertex_AddChild_def)
  ultimately show ?case by blast
qed

lemma set_children_simps:
  "dom (set_children f st) = dom st" "sv_id (the (set_children f st a)) = sv_id (the (st a))"
  "sv_parents (the (set_children f st a)) = sv_parents (the (st a))" "sv_distance (the (set_children f st a)) = sv_distance (the (st a))"
  "st a = Some x \<Longrightarrow> sv_children (the (set_children f st a)) = f a"
  "set_children f st a = Some y \<Longrightarrow> \<exists>x. st a = Some x \<and> y = x\<lparr>sv_children := f a\<rparr>"
proof -
  show "sv_id (the (set_children f st a)) = sv_id (the (st a))" "sv_parents (the (set_children f st a)) = sv_parents (the (st a))"
    "sv_distance (the (set_children f st a)) = sv_distance (the (st a))"
    by (cases "st a"; simp add: set_children_def)+
qed (auto simp: set_children_def dom_def)

lemma vertices_settle:
  assumes "vertices_ok d D E ts (u # cs) n st"
  shows "vertices_ok d D E (ts @ [u]) cs n (set_children f st)"
proof -
  note V = vertices_okD [OF assms]
  have "distinct ((ts @ [u]) @ cs)" using V(2-4) by auto
  moreover have "0 < a \<and> a < n \<and> vertex_ok d D E y" if "set_children f st a = Some y" for a y
    using set_children_simps(6) [OF that] V(6) by (auto simp: vertex_ok_def)
  moreover have "vid (set_children f st) = vid st" by (simp add: set_children_simps(2))
  ultimately show ?thesis using V(1,5) by (simp add: vertices_ok_def set_children_simps(1) insert_commute)
qed

lemma links_settle:
  assumes L: "links_ok ts (u # cs) st" and V: "vertices_ok d D E ts (u # cs) n st"
    and f: "\<forall>a x. st a = Some x \<longrightarrow> set (f a) = set (sv_children x) \<union> (if a \<in> set (sv_parents (the (st u))) then {u} else {})"
    and ne: "ts \<noteq> []"
  shows "links_ok (ts @ [u]) cs (set_children f st)"
proof -
  note v = vertices_okD [OF V]
  have u: "u \<notin> set ts" "u \<notin> set cs" using v(3,4) by auto
  have up: "sv_parents (the (st u)) \<noteq> []" "set (sv_parents (the (st u))) \<subseteq> set ts" "sv_children (the (st u)) = []"
    using links_candidate [OF L, of u] by simp_all
  have ch: "set (sv_children (the (set_children f st a))) = set (sv_children (the (st a))) \<union> (if a \<in> set (sv_parents (the (st u))) then {u} else {})"
    if "a \<in> set ts \<union> set (u # cs)" for a
  proof -
    from vertices_at [OF V that] obtain x where x: "st a = Some x" by blast
    from set_children_simps(5) [where st = st, OF x] f x show ?thesis by simp
  qed
  have tp: "set (sv_parents (the (st a))) \<subseteq> set ts" if "a \<in> set ts" for a
  proof -
    obtain j where "j < length ts" "a = ts ! j" using \<open>a \<in> set ts\<close> by (auto simp: in_set_conv_nth)
    then have "set (sv_parents (the (st a))) \<subseteq> set (take j ts)" using L unfolding links_ok_def by blast
    then show ?thesis using set_take_subset by fast
  qed
  have "(sv_parents (the (st ((ts @ [u]) ! j))) = [] \<longleftrightarrow> j = 0) \<and> set (sv_parents (the (st ((ts @ [u]) ! j)))) \<subseteq> set (take j (ts @ [u]))"
    if "j < length (ts @ [u])" for j
  proof (cases "j < length ts")
    case True
    then show ?thesis using L by (simp add: links_ok_def nth_append)
  next
    case False
    then have "j = length ts" using that by simp
    then show ?thesis using up ne by simp
  qed
  moreover have "sv_parents (the (st c)) \<noteq> [] \<and> set (sv_parents (the (st c))) \<subseteq> set (ts @ [u]) \<and> sv_children (the (set_children f st c)) = []"
    if "c \<in> set cs" for c
  proof -
    have lc: "sv_parents (the (st c)) \<noteq> []" "set (sv_parents (the (st c))) \<subseteq> set ts" "sv_children (the (st c)) = []"
      using links_candidate [OF L, of c] that by simp_all
    have "c \<notin> set ts" using that v(4) by auto
    then have "set (sv_children (the (set_children f st c))) = {}" using ch [of c] lc up that by auto
    with lc show ?thesis by auto
  qed
  moreover have "set (sv_children (the (set_children f st p))) = {a \<in> set (ts @ [u]). p \<in> set (sv_parents (the (st a)))}"
    if "p \<in> set (ts @ [u])" for p
  proof (cases "p = u")
    case True
    then show ?thesis using ch [of u] up u tp by auto
  next
    case False
    then have "p \<in> set ts" using that by simp
    then have "set (sv_children (the (st p))) = {a \<in> set ts. p \<in> set (sv_parents (the (st a)))}" using L by (simp add: links_ok_def)
    then show ?thesis using ch [of p] \<open>p \<in> set ts\<close> by auto
  qed
  ultimately show ?thesis unfolding links_ok_def set_children_simps(3) by blast
qed

section \<open>The rounds of the loop\<close>

text \<open>The links that leave the routers of a set.\<close>

definition tree_links :: "lsdb \<Rightarrow> ipv4 set \<Rightarrow> (ipv4 \<times> link_record) set" where
  "tree_links d T = {(v, l). v \<in> T \<and> l \<in> p2p_links d v}"

lemma record_kinds: "p2p_database d \<Longrightarrow> l \<in> set (records d v) \<Longrightarrow> lr_linkType l = StubNetwork \<or> l \<in> p2p_links d v"
proof -
  assume "p2p_database d" and l: "l \<in> set (records d v)"
  then obtain x where x: "Lsdb_GetLSA v d = Some x" "l \<in> set (ls_linkRecords x)"
    by (cases "Lsdb_GetLSA v d") (auto simp: records_def)
  with \<open>p2p_database d\<close> have "router_ok d v x" by (simp add: p2p_database_def)
  with x l show ?thesis by (auto simp: router_ok_def p2p_links_def)
qed

lemma next_inv:
  assumes db: "p2p_database d" and v: "v \<in> set ts"
    and inv: "spf_inv d i root ip g (tree_links d (vid (gm_store s) ` set ts - {vid (gm_store s) v})) ts cs D E s"
  shows "\<exists>cs' s' D' E'. SPFNext v (cs, s) = Inr (cs', s') \<and>
    spf_inv d i root ip g (tree_links d (vid (gm_store s) ` set ts)) ts cs' D' E' s' \<and> spf_keeps ts s s'"
proof -
  let ?k = "vid (gm_store s) v" and ?T = "vid (gm_store s) ` set ts"
  from v have "v \<in> set ts \<union> set cs" by simp
  from vertices_at [OF spf_invD(4) [OF inv] this] obtain vx where vx: "gm_store s v = Some vx" "vertex_ok d D E vx" by blast
  then have x: "Lsdb_GetLSA (sv_id vx) d \<noteq> None" "sv_lsa vx = sv_id vx" "sv_type vx = VertexRouter" by (simp_all add: vertex_ok_def)
  from get_lsa_records [OF inv_at_root [OF inv] x(1)] obtain y where
    y: "get_lsa (sv_id vx) s = Inr y" "ls_linkRecords y = records d (sv_id vx)" by blast
  have "SPFNext v (cs, s) = fold_res (relax_record v) (records d ?k) (cs, s)"
    using vx x y by (simp add: SPFNext_def vertex_def get_vertex_def)
  moreover have "tree_links d (?T - {?k}) \<union> {(?k, l) |l. l \<in> set (records d ?k) \<and> lr_linkType l \<noteq> StubNetwork} = tree_links d ?T"
  proof -
    have "l \<in> set (records d ?k) \<and> lr_linkType l \<noteq> StubNetwork \<longleftrightarrow> l \<in> p2p_links d ?k" for l
      using record_kinds [OF db, of l ?k] p2p_link(4,5) [OF db, of l ?k] by auto
    then show ?thesis using v by (auto simp: tree_links_def)
  qed
  ultimately show ?thesis using relax_all [OF db inv v refl, of "records d ?k"] record_kinds [OF db] by simp
qed

lemma add_to_tree_effect:
  assumes rt: "at_root d i root ip g s" and u: "gm_store s u = Some ux" "sv_type ux = VertexRouter" "sv_lsa ux = sv_id ux" "Lsdb_GetLSA (sv_id ux) d \<noteq> None"
    and f: "fold_res (\<lambda>p. on_vertex p (SPFVertex_AddChild u)) (sv_parents ux) (gm_store s) = Inr (set_children f (gm_store s))"
  shows "add_to_tree u s =
    Inr (s\<lparr>gm_store := set_children f (gm_store s), gm_lsdb := Lsdb_SetStatus (sv_id ux) LSA_SPF_IN_SPFTREE (gm_lsdb s),
           gm_nodes := put_routing i (add_hosts (host_routes (records d (sv_id ux)) (sv_exits ux)) g) (gm_nodes s)\<rparr>)"
proof -
  let ?s1 = "s\<lparr>gm_store := set_children f (gm_store s), gm_lsdb := Lsdb_SetStatus (sv_id ux) LSA_SPF_IN_SPFTREE (gm_lsdb s)\<rparr>"
  let ?g = "add_hosts (host_routes (records d (sv_id ux)) (sv_exits ux)) g"
  have at: "set_children f (gm_store s) a = Some (x\<lparr>sv_children := f a\<rparr>)" if "gm_store s a = Some x" for a x
    using that by (simp add: set_children_def)
  obtain x h where x: "gm_spfroot s \<noteq> 0" "gm_store s (gm_spfroot s) = Some x" "sv_id x = root" "root_node i root ip g (gm_nodes s)"
    "gm_lsdb s = with_status h d" using rt by (auto simp: at_root_def)
  have rt1: "at_root d i root ip g ?s1"
    using x at [OF x(2)] SetStatus_with_status by (auto simp: at_root_def)
  from get_lsa_records [OF rt1 u(4)] obtain y where y: "get_lsa (sv_id ux) ?s1 = Inr y" "ls_linkRecords y = records d (sv_id ux)" by blast
  have "on_root_router (\<lambda>g. fold_res (\<lambda>lr. if lr_linkType lr \<noteq> PointToPoint then Inr
      else with_routing (add_exits (GlobalRouting_AddHostRouteTo (lr_linkData lr)) (sv_exits ux))) (records d (sv_id ux)) g) ?s1 =
    Inr (?s1\<lparr>gm_nodes := put_routing i ?g (gm_nodes ?s1)\<rparr>)"
    by (rule on_root_router_eq [where x = "x\<lparr>sv_children := f (gm_spfroot s)\<rparr>" and root = root and ip = ip and g = g])
      (use x at [OF x(2)] host_fold in simp_all)
  then have "SPFIntraAddRouter u ?s1 = Inr (?s1\<lparr>gm_nodes := put_routing i ?g (gm_nodes s)\<rparr>)"
    using y at [OF u(1)] u(3) by (simp add: SPFIntraAddRouter_def vertex_def get_vertex_def cong: if_cong)
  moreover have "update_store (SPFVertexAddParent u) (set_status (sv_id ux) LSA_SPF_IN_SPFTREE s) = Inr ?s1"
    using u(1) f by (simp add: update_store_def SPFVertexAddParent_def set_status_def get_vertex_def)
  ultimately show ?thesis using u by (simp add: add_to_tree_def vertex_def get_vertex_def)
qed

text \<open>The candidate at the front is nearest: it goes on the tree, and the routes to it are written.\<close>

lemma settle_inv:
  assumes db: "p2p_database d" and inv: "spf_inv d i root ip g (tree_links d (vid (gm_store s) ` set ts)) ts (u # cs) D E s"
  shows "\<exists>s' hs. add_to_tree u s = Inr s' \<and> set hs = hosts_to d ip root (vid (gm_store s) u) \<and>
    spf_inv d i root ip (add_hosts hs g) (tree_links d (vid (gm_store s) ` set ts)) (ts @ [u]) cs D E s' \<and>
    gm_nodes s' = put_routing i (add_hosts hs g) (gm_nodes s) \<and> vid (gm_store s') = vid (gm_store s)"
proof -
  note I = spf_invD [OF inv]
  note V = vertices_okD [OF I(4)]
  let ?st = "gm_store s" and ?T = "vid (gm_store s) ` set ts"
  obtain ux where ux: "?st u = Some ux" "vertex_ok d D E ux" using vertices_at [OF I(4), of u] by auto
  then have x: "Lsdb_GetLSA (sv_id ux) d \<noteq> None" "sv_lsa ux = sv_id ux" "sv_type ux = VertexRouter" by (simp_all add: vertex_ok_def)
  have up: "set (sv_parents ux) \<subseteq> set ts" "u \<notin> set ts" using links_candidate(2) [OF I(5), of u] ux(1) V(4) by simp_all
  have "\<forall>p \<in> set (sv_parents ux). ?st p \<noteq> None" using up V(1) by blast
  from add_children [OF this, of u] ux(1) obtain f where f: "fold_res (\<lambda>p. on_vertex p (SPFVertex_AddChild u)) (sv_parents ux) ?st = Inr (set_children f ?st)"
    "\<forall>a x. ?st a = Some x \<longrightarrow> set (f a) = set (sv_children x) \<union> (if a \<in> set (sv_parents (the (?st u))) then {u} else {})"
    unfolding option.sel ux(1) by blast
  have C: "insert (vid ?st u) ?T = vid ?st ` set (ts @ [u])" "vid ?st ` set (u # cs) - {vid ?st u} = vid ?st ` set cs"
    using V(3,5) by (auto simp: inj_on_def)
  have "D (vid ?st u) \<le> D c" if "c \<in> vid ?st ` set (u # cs)" for c
  proof -
    from that obtain a where a: "a \<in> set (u # cs)" "c = vid ?st a" by blast
    then have "vdist ?st u \<le> vdist ?st a" using I(9) by auto
    moreover obtain ax where "?st a = Some ax" "vertex_ok d D E ax" using vertices_at [OF I(4), of a] a(1) by auto
    ultimately show ?thesis using ux a(2) by (simp add: vertex_ok_def word_le_nat_alt)
  qed
  then have dj: "dijkstra (p2p_links d) (link_exit d ip root) root (tree_links d ?T) (vid ?st ` set (ts @ [u])) (vid ?st ` set cs) D E"
    using dijkstra_settle [OF p2p_positive [OF db] I(8), of "vid ?st u"] unfolding C by (simp add: tree_links_def)
  define hs where "hs = host_routes (records d (sv_id ux)) (sv_exits ux)"
  have E: "E (sv_id ux) = link_exit d ip root ` first_links (p2p_links d) root (sv_id ux)"
  proof -
    have "sv_id ux \<noteq> root" using tree_ids [OF I(4), of "ts ! 0" u] I(1,3) ux(1) by auto
    then show ?thesis using dj ux(1) by (simp add: dijkstra_def on_tree_def)
  qed
  then have hs: "set hs = hosts_to d ip root (sv_id ux)" unfolding hs_def using ux(2) by (intro set_host_routes) (simp add: vertex_ok_def)
  define s1 where "s1 = s\<lparr>gm_store := set_children f ?st, gm_lsdb := Lsdb_SetStatus (sv_id ux) LSA_SPF_IN_SPFTREE (gm_lsdb s)\<rparr>"
  define s' where "s' = s1\<lparr>gm_nodes := put_routing i (add_hosts hs g) (gm_nodes s)\<rparr>"
  have ids: "vid (gm_store s') = vid ?st" "vid (set_children f ?st) = vid ?st" by (simp_all add: s'_def s1_def set_children_simps(2))
  have stat: "(stat ?T (vid ?st ` set (u # cs)))(sv_id ux := LSA_SPF_IN_SPFTREE) = stat (vid ?st ` set (ts @ [u])) (vid ?st ` set cs)"
    unfolding C(1) [symmetric] using ux(1) by (auto simp: stat_def fun_eq_iff)
  have sd: "gm_lsdb s' = with_status (stat (vid ?st ` set (ts @ [u])) (vid ?st ` set cs)) d"
    using I(6) SetStatus_with_status stat by (simp add: s'_def s1_def)
  have "spf_inv d i root ip (add_hosts hs g) (tree_links d ?T) (ts @ [u]) cs D E s'"
  proof (rule spf_invI [where T = "vid ?st ` set (ts @ [u])" and C = "vid ?st ` set cs"])
    show "ts @ [u] \<noteq> []" by simp
    show "gm_spfroot s' = (ts @ [u]) ! 0" "vid (gm_store s') ((ts @ [u]) ! 0) = root"
      using I(1-3) by (simp_all add: s'_def s1_def nth_append set_children_simps(2))
    show "vertices_ok d D E (ts @ [u]) cs (gm_next s') (gm_store s')" using vertices_settle [OF I(4)] by (simp add: s'_def s1_def)
    show "links_ok (ts @ [u]) cs (gm_store s')" using links_settle [OF I(5,4) f(2) I(1)] by (simp add: s'_def s1_def)
    show "vid (gm_store s') ` set (ts @ [u]) = vid ?st ` set (ts @ [u])" "vid (gm_store s') ` set cs = vid ?st ` set cs" unfolding ids by (rule refl)+
    show "root_node i root ip (add_hosts hs g) (gm_nodes s')" using root_node_put [OF I(7)] by (simp add: s'_def)
    have "sorted (map (vdist (gm_store s')) cs) = sorted (map (vdist ?st) cs)" by (rule sorted_map_cong) (simp add: s'_def s1_def set_children_simps(4))
    then show "sorted (map (vdist (gm_store s')) cs)" using I(9) by simp
    show "D (vid (gm_store s') ((ts @ [u]) ! j)) \<le> j * 65535" if "j < length (ts @ [u])" for j
      unfolding fun_cong [OF ids(1)] using I(10) [of j] I(11) [of u] that by (cases "j = length ts") (simp_all add: nth_append)
    show "D (vid (gm_store s') c) \<le> length (ts @ [u]) * 65535" if "c \<in> set cs" for c
      unfolding fun_cong [OF ids(1)] using I(11) [of c] that by simp
  qed (use dj sd in simp_all)
  moreover have "add_to_tree u s = Inr s'"
    using add_to_tree_effect [OF inv_at_root [OF inv] ux(1) x(3,2,1) f(1)] by (simp add: s'_def s1_def hs_def)
  ultimately show ?thesis using hs ids(1) ux(1) by (intro exI [where x = s'] exI [where x = hs]) (simp add: s'_def)
qed

lemma diff_insert_split: "x \<notin> A \<Longrightarrow> insert x A \<subseteq> B \<Longrightarrow> B - A = insert x (B - insert x A)"
  by blast

text \<open>
  The loop takes at most one round for each advertisement, and ends with the tree of all routers that can be
  reached.
\<close>

lemma loop_inv:
  assumes db: "p2p_database d"
  shows "spf_inv d i root ip g (tree_links d (vid (gm_store s) ` set ts - {vid (gm_store s) v})) ts cs D E s \<Longrightarrow> v \<in> set ts \<Longrightarrow>
    length (db_database d) < length ts + n \<Longrightarrow>
    \<exists>s' ts' D' E' hs. SPF_loop n v (cs, s) = Inr s' \<and>
      spf_inv d i root ip (add_hosts hs g) (tree_links d (vid (gm_store s') ` set ts')) ts' [] D' E' s' \<and>
      gm_nodes s' = put_routing i (add_hosts hs g) (gm_nodes s) \<and> ts' ! 0 = ts ! 0 \<and>
      set hs = (\<Union>w \<in> vid (gm_store s') ` set ts' - vid (gm_store s) ` set ts. hosts_to d ip root w) \<and>
      vid (gm_store s) ` set ts \<subseteq> vid (gm_store s') ` set ts'"
proof (induction n arbitrary: g ts cs D E s v)
  case 0
  from vertices_bound [OF spf_invD(4) [OF 0(1)]] 0(3) show ?case by simp
next
  case (Suc n)
  let ?T = "vid (gm_store s) ` set ts"
  from next_inv [OF db Suc.prems(2,1)] obtain cs1 s1 D1 E1 where 1: "SPFNext v (cs, s) = Inr (cs1, s1)"
    "spf_inv d i root ip g (tree_links d ?T) ts cs1 D1 E1 s1" "spf_keeps ts s s1" by blast
  have T1: "vid (gm_store s1) ` set ts = ?T" using 1(3) by (intro image_cong) (simp_all add: spf_keeps_def)
  show ?case
  proof (cases cs1)
    case Nil
    have "gm_nodes s1 = put_routing i g (gm_nodes s)" using put_same [OF spf_invD(7) [OF Suc.prems(1)]] 1(3) by (simp add: spf_keeps_def)
    then show ?thesis using 1 T1 Nil by (intro exI [where x = s1] exI [where x = ts] exI [where x = D1] exI [where x = E1] exI [where x = "[]"])
      (simp add: add_hosts_def)
  next
    case (Cons u cs2)
    from 1(2) Cons T1 have "spf_inv d i root ip g (tree_links d (vid (gm_store s1) ` set ts)) ts (u # cs2) D1 E1 s1" by simp
    from settle_inv [OF db this] obtain s2 hs where 2: "add_to_tree u s1 = Inr s2" "set hs = hosts_to d ip root (vid (gm_store s1) u)"
      "spf_inv d i root ip (add_hosts hs g) (tree_links d ?T) (ts @ [u]) cs2 D1 E1 s2"
      "gm_nodes s2 = put_routing i (add_hosts hs g) (gm_nodes s1)" "vid (gm_store s2) = vid (gm_store s1)" unfolding T1 by blast
    let ?u = "vid (gm_store s1) u"
    have "\<forall>a \<in> set ts. ?u \<noteq> vid (gm_store s1) a" using tree_ids [OF spf_invD(4) [OF 1(2)], THEN not_sym] Cons by simp
    then have "?u \<notin> vid (gm_store s1) ` set ts" by blast
    then have u: "?u \<notin> ?T" unfolding T1 .
    have T2: "vid (gm_store s2) ` set (ts @ [u]) = insert ?u ?T" using T1 unfolding 2(5) by simp
    have "vid (gm_store s2) ` set (ts @ [u]) - {vid (gm_store s2) u} = ?T" unfolding T2 fun_cong [OF 2(5)] using u T1 by simp
    with 2(3) have "spf_inv d i root ip (add_hosts hs g) (tree_links d (vid (gm_store s2) ` set (ts @ [u]) - {vid (gm_store s2) u})) (ts @ [u]) cs2 D1 E1 s2"
      by simp
    from Suc.IH [OF this] Suc.prems(3) obtain s' ts' D' E' hs' where 3: "SPF_loop n u (cs2, s2) = Inr s'"
      "spf_inv d i root ip (add_hosts hs' (add_hosts hs g)) (tree_links d (vid (gm_store s') ` set ts')) ts' [] D' E' s'"
      "gm_nodes s' = put_routing i (add_hosts hs' (add_hosts hs g)) (gm_nodes s2)" "ts' ! 0 = (ts @ [u]) ! 0"
      "set hs' = (\<Union>w \<in> vid (gm_store s') ` set ts' - insert ?u ?T. hosts_to d ip root w)"
      "insert ?u ?T \<subseteq> vid (gm_store s') ` set ts'" unfolding T2 by (auto simp del: insert_subset)
    have "SPF_loop (Suc n) v (cs, s) = Inr s'" using 1(1) Cons 2(1) 3(1) by (simp add: Candidate_Pop_def)
    moreover have "gm_nodes s' = put_routing i (add_hosts (hs @ hs') g) (gm_nodes s)"
      using 3(3) 2(4) 1(3) put_put root_node_index [OF spf_invD(7) [OF Suc.prems(1)]] by (simp add: add_hosts_add spf_keeps_def)
    moreover have "ts' ! 0 = ts ! 0" using 3(4) spf_invD(1) [OF Suc.prems(1)] by (simp add: nth_append)
    moreover have "set (hs @ hs') = (\<Union>w \<in> vid (gm_store s') ` set ts' - ?T. hosts_to d ip root w)"
    proof -
      have "vid (gm_store s') ` set ts' - ?T = insert ?u (vid (gm_store s') ` set ts' - insert ?u ?T)"
        by (rule diff_insert_split [OF u 3(6)])
      then show ?thesis using 2(2) 3(5) by simp
    qed
    ultimately show ?thesis using 3(2,6) unfolding add_hosts_add by blast
  qed
qed

end
