(* ===== verification/Spf_Release.thy ===== *)
theory Spf_Release
  imports Spf_Tree
begin

text \<open>
  The destructor of \<open>SPFVertex\<close>: deleting the root of a tree in which vertices may have several parents
  deletes every vertex once, and no pointer is followed after its vertex is gone.
\<close>

text \<open>
  \<open>K\<close> are the vertices whose destructor has begun, and which are off the lists of their parents. \<open>P\<close> are
  the parents of a vertex; they are there as long as the vertex is.
\<close>

definition linked :: "(nat \<Rightarrow> nat list) \<Rightarrow> nat set \<Rightarrow> vertex_store \<Rightarrow> bool" where
  "linked P K st \<longleftrightarrow> K \<subseteq> dom st \<and> finite (dom st) \<and>
     (\<forall>a x. st a = Some x \<longrightarrow> 0 < a \<and> sv_parents x = P a \<and> set (P a) \<subseteq> dom st \<and>
        set (sv_children x) = {b \<in> dom st - K. a \<in> set (P b)})"

lemma linkedD:
  assumes "linked P K st"
  shows "K \<subseteq> dom st" "finite (dom st)" "\<And>a x. st a = Some x \<Longrightarrow> sv_parents x = P a" "\<And>a x. st a = Some x \<Longrightarrow> 0 < a"
    "\<And>a x. st a = Some x \<Longrightarrow> set (P a) \<subseteq> dom st" "\<And>a x. st a = Some x \<Longrightarrow> set (sv_children x) = {b \<in> dom st - K. a \<in> set (P b)}"
  using assms unfolding linked_def by blast+

text \<open>Taking a vertex off the lists of its parents.\<close>

definition unlink :: "nat \<Rightarrow> nat list \<Rightarrow> vertex_store \<Rightarrow> vertex_store" where
  "unlink a ps st = (\<lambda>b. map_option (\<lambda>x. if b \<in> set ps then x\<lparr>sv_children := removeAll a (sv_children x)\<rparr> else x) (st b))"

lemma unlink_fold:
  assumes "\<forall>p \<in> set ps. st p \<noteq> None"
  shows "fold_res (\<lambda>p. on_vertex p (\<lambda>w. w\<lparr>sv_children := removeAll a (sv_children w)\<rparr>)) ps st = Inr (unlink a ps st)"
  using assms
proof (induction ps arbitrary: st)
  case Nil
  have "unlink a [] st = st" by (simp add: unlink_def option.map_ident)
  then show ?case by simp
next
  case (Cons p ps)
  then obtain x where x: "st p = Some x" by auto
  let ?st = "st(p \<mapsto> x\<lparr>sv_children := removeAll a (sv_children x)\<rparr>)"
  have "unlink a ps ?st = unlink a (p # ps) st" using x by (auto simp: unlink_def fun_eq_iff)
  moreover have "\<forall>p \<in> set ps. ?st p \<noteq> None" using Cons.prems by simp
  with Cons.IH have "fold_res (\<lambda>p. on_vertex p (\<lambda>w. w\<lparr>sv_children := removeAll a (sv_children w)\<rparr>)) ps ?st = Inr (unlink a ps ?st)" by blast
  moreover have "on_vertex p (\<lambda>w. w\<lparr>sv_children := removeAll a (sv_children w)\<rparr>) st = Inr ?st"
    using x by (simp add: on_vertex_def get_vertex_def)
  ultimately show ?case by simp
qed

lemma dom_unlink [simp]: "dom (unlink a ps st) = dom st"
  by (auto simp: unlink_def)

lemma linked_unlink:
  assumes "linked P K st" "a \<in> dom st"
  shows "linked P (insert a K) (unlink a (P a) st)"
proof -
  note L = linkedD [OF assms(1)]
  have "0 < b \<and> sv_parents y = P b \<and> set (P b) \<subseteq> dom st \<and> set (sv_children y) = {c \<in> dom st - insert a K. b \<in> set (P c)}"
    if "unlink a (P a) st b = Some y" for b y
  proof -
    from that obtain x where x: "st b = Some x" "y = (if b \<in> set (P a) then x\<lparr>sv_children := removeAll a (sv_children x)\<rparr> else x)"
      by (auto simp: unlink_def)
    then show ?thesis using L(3-6) [OF x(1)] by auto
  qed
  then show ?thesis using L(1,2) assms(2) by (simp add: linked_def)
qed

lemma linked_free:
  assumes "linked P K st" "a \<in> K" "\<forall>b \<in> dom st. a \<notin> set (P b)"
  shows "linked P (K - {a}) (st(a := None))"
proof -
  note L = linkedD [OF assms(1)]
  have "0 < b \<and> sv_parents x = P b \<and> set (P b) \<subseteq> dom (st(a := None)) \<and>
      set (sv_children x) = {c \<in> dom (st(a := None)) - (K - {a}). b \<in> set (P c)}" if "(st(a := None)) b = Some x" for b x
  proof -
    have b: "st b = Some x" "b \<noteq> a" using that by (auto split: if_splits)
    then show ?thesis using L(3-6) [OF b(1)] assms(2,3) by auto
  qed
  then show ?thesis using L(1,2) by (auto simp: linked_def)
qed

text \<open>Parents come before their children in some order.\<close>

definition ordered_by :: "(nat \<Rightarrow> nat) \<Rightarrow> (nat \<Rightarrow> nat list) \<Rightarrow> nat set \<Rightarrow> bool" where
  "ordered_by f P A \<longleftrightarrow> (\<forall>a \<in> A. \<forall>p \<in> set (P a). f p < f a)"

definition deletes :: "(nat \<Rightarrow> nat list) \<Rightarrow> nat set \<Rightarrow> vertex_store \<Rightarrow> vertex_store \<Rightarrow> bool" where
  "deletes P K st st' \<longleftrightarrow> linked P K st' \<and> dom st' \<subseteq> dom st"

lemma delete_step:
  assumes ord: "ordered_by f P (dom st)" and L: "linked P K st" and a: "a \<in> dom st - K" "\<forall>k \<in> K. f k < f a"
    and del: "delete_children n a (unlink a (P a) st) = Inr st2" "deletes P (insert a K) (unlink a (P a) st) st2" "\<forall>b \<in> dom st2 - insert a K. a \<notin> set (P b)"
  shows "delete_vertex (Suc n) a st = Inr (st2(a := None)) \<and> deletes P K st (st2(a := None))"
proof -
  from a obtain x where x: "st a = Some x" by blast
  have "\<forall>p \<in> set (P a). st p \<noteq> None" using linkedD(5) [OF L x] by blast
  from unlink_fold [OF this, of a] have "delete_vertex (Suc n) a st = Inr (st2(a := None))"
    using x linkedD(3) [OF L x] del(1) by (simp add: get_vertex_def)
  moreover have st2: "linked P (insert a K) st2" "dom st2 \<subseteq> dom st" using del(2) by (simp_all add: deletes_def)
  have "a \<notin> set (P b)" if "b \<in> dom st2" for b
  proof (cases "b \<in> insert a K")
    case True
    then have "\<forall>p \<in> set (P b). f p < f a" using ord a that st2(2) unfolding ordered_by_def by (metis (no_types) insertE order.strict_trans subsetD)
    then show ?thesis by blast
  qed (use del(3) that in blast)
  then have "linked P (insert a K - {a}) (st2(a := None))" by (intro linked_free [OF st2(1)]) simp_all
  then have "deletes P K st (st2(a := None))" using a(1) st2(2) by (auto simp: deletes_def)
  ultimately show ?thesis by blast
qed

lemma delete_ok:
  "ordered_by f P (dom st) \<Longrightarrow> linked P K st \<Longrightarrow> a \<in> dom st - K \<Longrightarrow> \<forall>k \<in> K. f k < f a \<Longrightarrow> 2 * card (dom st - K) \<le> n \<Longrightarrow>
    \<exists>st'. delete_vertex n a st = Inr st' \<and> deletes P K st st' \<and> a \<notin> dom st'"
  "ordered_by f P (dom st) \<Longrightarrow> linked P K st \<Longrightarrow> a \<in> K \<Longrightarrow> \<forall>k \<in> K. f k \<le> f a \<Longrightarrow> 2 * card (dom st - K) < n \<Longrightarrow>
    \<exists>st'. delete_children n a st = Inr st' \<and> deletes P K st st' \<and> (\<forall>b \<in> dom st' - K. a \<notin> set (P b))"
proof (induction n a st and n a st arbitrary: K and K rule: delete_vertex_delete_children.induct)
  case (1 a st)
  have "finite (dom st - K)" using linkedD(2) [OF 1(2)] by simp
  then have "card (dom st - K) \<noteq> 0" using 1(3) by (metis card_0_eq empty_iff)
  with 1(5) show ?case by simp
next
  case (2 n a st)
  note L = linkedD [OF 2(3)]
  from 2(4) obtain x where x: "st a = Some x" by blast
  let ?st = "unlink a (P a) st"
  have fold: "fold_res (\<lambda>p. on_vertex p (\<lambda>w. w\<lparr>sv_children := removeAll a (sv_children w)\<rparr>)) (sv_parents x) st = Inr ?st"
    using unlink_fold [of "P a" st a] L(3,5) [OF x] by auto
  have "dom ?st - insert a K = dom st - K - {a}" by auto
  then have "card (dom ?st - insert a K) = card (dom st - K) - 1" using 2(4) L(2) by (simp add: card_Diff_singleton)
  moreover have "card (dom st - K) \<noteq> 0" using 2(4) L(2) by auto
  ultimately have c: "2 * card (dom ?st - insert a K) < n" using 2(6) by linarith
  have "get_vertex a st = Inr x" using x by (simp add: get_vertex_def)
  from 2(1) [OF this fold _ linked_unlink [OF 2(3)] _ _ c] 2(2,4,5) obtain st2 where
    st2: "delete_children n a ?st = Inr st2" "deletes P (insert a K) ?st st2" "\<forall>b \<in> dom st2 - insert a K. a \<notin> set (P b)"
    by (auto simp: less_imp_le)
  from delete_step [OF 2(2-5) st2] show ?case by (metis domIff fun_upd_same)
next
  case (3 a st)
  then show ?case by simp
next
  case (4 n a st)
  note L = linkedD [OF 4(5)]
  from 4(6) L(1) obtain x where x: "st a = Some x" by blast
  then have gx: "get_vertex a st = Inr x" by (simp add: get_vertex_def)
  show ?case
  proof (cases "sv_children x")
    case Nil
    then have "\<forall>b \<in> dom st - K. a \<notin> set (P b)" using L(6) [OF x] by auto
    then show ?thesis using gx Nil 4(5) by (simp add: deletes_def)
  next
    case (Cons p ps)
    then have p: "p \<in> dom st - K" "a \<in> set (P p)" using L(6) [OF x] by auto
    then have p0: "p \<noteq> 0" using L(4) by blast
    have "f a < f p" using 4(4) p by (auto simp: ordered_by_def)
    then have k: "\<forall>k \<in> K. f k < f p" using 4(7) by (meson le_less_trans)
    from 4(2) [OF gx Cons p0 4(4,5) p(1) k] 4(8) obtain st1 where
      st1: "delete_vertex n p st = Inr st1" "deletes P K st st1" "p \<notin> dom st1" by auto
    have d1: "linked P K st1" "dom st1 \<subseteq> dom st" using st1(2) by (simp_all add: deletes_def)
    have o1: "ordered_by f P (dom st1)" using 4(4) d1(2) unfolding ordered_by_def by blast
    have "card (dom st1 - K) < card (dom st - K)" using d1(2) p(1) st1(3) L(2) by (intro psubset_card_mono) auto
    then have "2 * card (dom st1 - K) < n" using 4(8) by linarith
    from 4(3) [OF gx Cons p0 st1(1) o1 d1(1) 4(6,7) this] obtain st' where
      "delete_children n a st1 = Inr st'" "deletes P K st1 st'" "\<forall>b \<in> dom st' - K. a \<notin> set (P b)" by blast
    moreover from this have "deletes P K st st'" using d1(2) unfolding deletes_def by blast
    ultimately show ?thesis using gx Cons p0 st1(1) by simp
  qed
qed

text \<open>Only the root has no parents: with it, everything is deleted.\<close>

lemma delete_all:
  assumes "ordered_by f P (dom st)" "linked P {} st" "a \<in> dom st" "2 * card (dom st) \<le> n" "\<forall>b \<in> dom st - {a}. P b \<noteq> []"
  shows "delete_vertex n a st = Inr (\<lambda>b. None)"
proof -
  from delete_ok(1) [OF assms(1,2), of a n] assms(3,4) obtain st' where
    st': "delete_vertex n a st = Inr st'" "deletes P {} st st'" "a \<notin> dom st'" by fastforce
  have "b \<notin> dom st'" for b
  proof (induction "f b" arbitrary: b rule: less_induct)
    case less
    show ?case
    proof
      assume b: "b \<in> dom st'"
      then have "b \<in> dom st - {a}" using st'(2,3) by (auto simp: deletes_def)
      then obtain p where p: "p \<in> set (P b)" using assms(5) by (metis list.set_sel(1))
      moreover have "linked P {} st'" using st'(2) by (simp add: deletes_def)
      ultimately have "p \<in> dom st'" using linkedD(5) b by fast
      moreover have "f p < f b" using assms(1) p \<open>b \<in> dom st - {a}\<close> by (auto simp: ordered_by_def)
      ultimately show False using less by blast
    qed
  qed
  then have "st' = (\<lambda>b. None)" by (auto simp: fun_eq_iff domIff)
  with st'(1) show ?thesis by simp
qed

end
