(* ===== verification/Spf_Stubs.thy ===== *)
theory Spf_Stubs
  imports Spf_Loop Spf_Release
begin

text \<open>
  The second stage of \<open>SPFCalculate\<close>: the walk over the tree visits every vertex, and the routes to the
  stub networks are written.
\<close>

section \<open>Stub routes\<close>

definition stub_route :: "link_record \<Rightarrow> node_exit \<Rightarrow> routing_entry" where
  "stub_route lr e =
     CreateNetworkRouteTo (Ipv4Address_CombineMask (lr_linkId lr) (lr_linkData lr)) (lr_linkData lr) (fst e) (snd e)"

definition stub_routes :: "ipv4 \<Rightarrow> lsdb \<Rightarrow> spf_vertex \<Rightarrow> routing_entry list" where
  "stub_routes root d x =
     (if sv_id x = root then []
      else concat (map (\<lambda>lr. map (stub_route lr) (usable_exits (sv_exits x))) (filter (\<lambda>lr. lr_linkType lr = StubNetwork) (records d (sv_id x)))))"

definition add_networks :: "routing_entry list \<Rightarrow> global_routing \<Rightarrow> global_routing" where
  "add_networks ns g = g\<lparr>m_networkRoutes := m_networkRoutes g @ ns\<rparr>"

lemma add_exits_networks:
  "add_exits (GlobalRouting_AddNetworkRouteTo (Ipv4Address_CombineMask (lr_linkId lr) (lr_linkData lr)) (lr_linkData lr)) es (add_networks ns g) =
     add_networks (ns @ map (stub_route lr) (usable_exits es)) g"
  by (induction es arbitrary: ns)
    (auto simp: add_exits_def usable_exits_def add_networks_def GlobalRouting_AddNetworkRouteTo_def stub_route_def split: prod.splits)

text \<open>The routes to the stub networks of a router that is not the root, one for each first link.\<close>

definition stubs_to :: "lsdb \<Rightarrow> 'p l3 \<Rightarrow> ipv4 \<Rightarrow> ipv4 \<Rightarrow> routing_entry set" where
  "stubs_to d ip root w =
     {stub_route k e |k e. w \<noteq> root \<and> k \<in> set (records d w) \<and> lr_linkType k = StubNetwork \<and>
        e \<in> link_exit d ip root ` first_links (p2p_links d) root w \<and> 0 \<le> sint (snd e)}"

lemma set_stub_routes:
  assumes "sv_id x \<noteq> root \<Longrightarrow> set (sv_exits x) = link_exit d ip root ` first_links (p2p_links d) root (sv_id x)"
  shows "set (stub_routes root d x) = stubs_to d ip root (sv_id x)"
proof (cases "sv_id x = root")
  case False
  have "set (usable_exits (sv_exits x)) = {e \<in> set (sv_exits x). 0 \<le> sint (snd e)}" by (auto simp: usable_exits_def)
  with False assms have "set (usable_exits (sv_exits x)) = {e \<in> link_exit d ip root ` first_links (p2p_links d) root (sv_id x). 0 \<le> sint (snd e)}"
    by simp
  then show ?thesis using False unfolding stub_routes_def stubs_to_def by (auto simp del: split_paired_Ex)
qed (simp add: stub_routes_def stubs_to_def)

section \<open>The walk\<close>

text \<open>The state on the way: some vertices are marked, and some network routes are added.\<close>

definition mark :: "nat set \<Rightarrow> vertex_store \<Rightarrow> vertex_store" where
  "mark P st = (\<lambda>a. map_option (\<lambda>x. x\<lparr>sv_processed := a \<in> P\<rparr>) (st a))"

definition walked :: "'p grm \<Rightarrow> nat \<Rightarrow> global_routing \<Rightarrow> nat set \<Rightarrow> routing_entry list \<Rightarrow> 'p grm" where
  "walked s i g P ns = s\<lparr>gm_store := mark P (gm_store s), gm_nodes := put_routing i (add_networks ns g) (gm_nodes s)\<rparr>"

lemma mark_at: "st a = Some x \<Longrightarrow> mark P st a = Some (x\<lparr>sv_processed := a \<in> P\<rparr>)"
  by (simp add: mark_def)

lemma vertex_walked: "gm_store s a = Some x \<Longrightarrow> vertex a (walked s i g P ns) = Inr (x\<lparr>sv_processed := a \<in> P\<rparr>)"
  by (simp add: vertex_def get_vertex_def walked_def mark_at)

lemma walked_at_root:
  assumes "at_root d i root ip g s"
  shows "at_root d i root ip (add_networks ns g) (walked s i g P ns)"
proof -
  obtain x f where x: "gm_spfroot s \<noteq> 0" "gm_store s (gm_spfroot s) = Some x" "sv_id x = root" "root_node i root ip g (gm_nodes s)"
    "gm_lsdb s = with_status f d" using assms by (auto simp: at_root_def)
  then show ?thesis using root_node_put [OF x(4)] mark_at [where st = "gm_store s", OF x(2)] by (auto simp: at_root_def walked_def)
qed

lemma walked_root:
  assumes "at_root d i root ip g s" "f (Some (add_networks ns g)) = Inr (Some (add_networks ns' g))"
  shows "on_root_router f (walked s i g P ns) = Inr (walked s i g P ns')"
proof -
  note r = walked_at_root [OF assms(1), of ns P]
  then obtain x where x: "gm_spfroot (walked s i g P ns) \<noteq> 0" "gm_store (walked s i g P ns) (gm_spfroot (walked s i g P ns)) = Some x"
    "sv_id x = root" "root_node i root ip (add_networks ns g) (gm_nodes (walked s i g P ns))" by (auto simp: at_root_def)
  have "i < length (gm_nodes s)" using assms(1) root_node_index by (auto simp: at_root_def)
  with on_root_router_eq [where f = f, OF x assms(2)] show ?thesis by (simp add: walked_def put_put)
qed

lemma stub_step:
  assumes rt: "at_root d i root ip g s" and a: "gm_store s a = Some x"
  shows "SPFIntraAddStub lr a (walked s i g P ns) =
    Inr (walked s i g P (ns @ (if sv_id x = root then [] else map (stub_route lr) (usable_exits (sv_exits x)))))"
proof -
  obtain y where y: "gm_spfroot s \<noteq> 0" "gm_store s (gm_spfroot s) = Some y" "sv_id y = root" using rt by (auto simp: at_root_def)
  have sp: "gm_spfroot (walked s i g P ns) = gm_spfroot s" by (simp add: walked_def)
  show ?thesis
  proof (cases "sv_id x = root")
    case False
    have "on_root_router (with_routing (add_exits (GlobalRouting_AddNetworkRouteTo (Ipv4Address_CombineMask (lr_linkId lr) (lr_linkData lr))
        (lr_linkData lr)) (sv_exits x))) (walked s i g P ns) = Inr (walked s i g P (ns @ map (stub_route lr) (usable_exits (sv_exits x))))"
      by (rule walked_root [OF rt]) (simp add: with_routing_def add_exits_networks)
    then show ?thesis using False y vertex_walked [OF a, of i g P ns] vertex_walked [OF y(2), of i g P ns] sp
      by (simp add: SPFIntraAddStub_def Let_def)
  qed (use y vertex_walked [OF a, of i g P ns] vertex_walked [OF y(2), of i g P ns] sp in \<open>simp add: SPFIntraAddStub_def\<close>)
qed

lemma visit_step:
  assumes rt: "at_root d i root ip g s" and a: "gm_store s a = Some x" and ok: "vertex_ok d D E x"
  shows "visit_stubs a (walked s i g P ns) = Inr (walked s i g P (ns @ stub_routes root d x))"
proof -
  have x: "Lsdb_GetLSA (sv_id x) d \<noteq> None" "sv_lsa x = sv_id x" "sv_type x = VertexRouter" using ok by (simp_all add: vertex_ok_def)
  from get_lsa_records [OF walked_at_root [OF rt, of ns P] x(1)] obtain y where
    y: "get_lsa (sv_id x) (walked s i g P ns) = Inr y" "ls_linkRecords y = records d (sv_id x)" by blast
  have "fold_res (\<lambda>lr. if lr_linkType lr = StubNetwork then SPFIntraAddStub lr a else Inr) rs (walked s i g P ns) =
      Inr (walked s i g P (ns @ (if sv_id x = root then [] else
        concat (map (\<lambda>lr. map (stub_route lr) (usable_exits (sv_exits x))) (filter (\<lambda>lr. lr_linkType lr = StubNetwork) rs)))))" for rs
    by (induction rs arbitrary: ns) (auto simp: stub_step [OF rt a])
  then show ?thesis using vertex_walked [OF a, of i g P ns] x y by (simp add: visit_stubs_def stub_routes_def)
qed

lemma mark_step:
  assumes "gm_store s c = Some x"
  shows "update_vertex c (set_processed True) (walked s i g P ns) = Inr (walked s i g (insert c P) ns)"
proof -
  have "(mark P (gm_store s))(c \<mapsto> x\<lparr>sv_processed := True\<rparr>) = mark (insert c P) (gm_store s)" using assms by (auto simp: mark_def fun_eq_iff)
  then show ?thesis using mark_at [where st = "gm_store s", OF assms, of P]
    by (simp add: update_vertex_def update_store_def on_vertex_def get_vertex_def walked_def set_processed_def)
qed

definition children_of :: "vertex_store \<Rightarrow> nat \<Rightarrow> nat set" where
  "children_of st a = set (sv_children (the (st a)))"

definition closed_marks :: "vertex_store \<Rightarrow> nat set \<Rightarrow> bool" where
  "closed_marks st P \<longleftrightarrow> (\<forall>p \<in> P. children_of st p \<subseteq> P)"

text \<open>
  What a walk from a vertex adds: the marks stay closed, the children of the vertex are marked, and the
  routes of the vertex and of all vertices that are marked on the way are added.
\<close>

definition walk_result :: "'p grm \<Rightarrow> nat \<Rightarrow> global_routing \<Rightarrow> (nat \<Rightarrow> routing_entry list) \<Rightarrow> nat set \<Rightarrow> nat set \<Rightarrow> nat set \<Rightarrow> nat set \<Rightarrow>
    routing_entry list \<Rightarrow> 'p grm res \<Rightarrow> bool" where
  "walk_result s i g f A B C P ns r \<longleftrightarrow>
     (\<exists>P' ns'. r = Inr (walked s i g P' (ns @ ns')) \<and> P \<subseteq> P' \<and> P' \<subseteq> A \<and> closed_marks (gm_store s) P' \<and> C \<subseteq> P' \<and>
        set ns' = (\<Union>a \<in> B \<union> (P' - P). set (f a)))"

lemma walk_resultI:
  assumes "r = Inr (walked s i g P' (ns @ ns'))" "P \<subseteq> P'" "P' \<subseteq> A" "closed_marks (gm_store s) P'" "C \<subseteq> P'"
    and "set ns' = (\<Union>a \<in> B \<union> (P' - P). set (f a))"
  shows "walk_result s i g f A B C P ns r"
  using assms unfolding walk_result_def by blast

lemma walk_resultE:
  assumes "walk_result s i g f A B C P ns r"
  obtains P' ns' where "r = Inr (walked s i g P' (ns @ ns'))" "P \<subseteq> P'" "P' \<subseteq> A" "closed_marks (gm_store s) P'" "C \<subseteq> P'"
    "set ns' = (\<Union>a \<in> B \<union> (P' - P). set (f a))"
  using assms unfolding walk_result_def by blast

text \<open>The children of a vertex, one after the other, when each walk from a child is as expected.\<close>

definition walk_child :: "(nat \<Rightarrow> 'p grm \<Rightarrow> 'p grm res) \<Rightarrow> nat \<Rightarrow> nat \<Rightarrow> 'p grm \<Rightarrow> 'p grm res" where
  "walk_child visit n c s2 =
     bind_res (vertex c s2) (\<lambda>cx. if sv_processed cx then Inr s2
       else bind_res (walk_tree visit n c s2) (update_vertex c (set_processed True)))"

lemma walk_tree_child:
  "walk_tree visit (Suc n) a s = bind_res (visit a s) (\<lambda>s1. bind_res (vertex a s1) (\<lambda>v. fold_res (walk_child visit n) (sv_children v) s1))"
  by (simp add: walk_child_def [abs_def])

lemma walk_children:
  assumes V: "dom (gm_store s) = A"
    and walk: "\<And>c P ns. c \<in> set cs \<Longrightarrow> P \<subseteq> A \<Longrightarrow> closed_marks (gm_store s) P \<Longrightarrow>
      walk_result s i g f A {c} (children_of (gm_store s) c) P ns (walk_tree visit n c (walked s i g P ns))"
    and cs: "set cs \<subseteq> A" "P \<subseteq> A" "closed_marks (gm_store s) P"
  shows "walk_result s i g f A {} (set cs) P ns (fold_res (walk_child visit n) cs (walked s i g P ns))"
  using cs walk
proof (induction cs arbitrary: P ns)
  case Nil
  then show ?case by (intro walk_resultI [where P' = P and ns' = "[]"]) simp_all
next
  case (Cons c cs)
  then obtain y where y: "gm_store s c = Some y" using V by auto
  have rest: "set cs \<subseteq> A" using Cons.prems(1) by simp
  have ih: "walk_result s i g f A {} (set cs) P ns (fold_res (walk_child visit n) cs (walked s i g P ns))"
    if "P \<subseteq> A" "closed_marks (gm_store s) P" for P ns using Cons.IH [OF rest that] Cons.prems(4) by simp
  show ?case
  proof (cases "c \<in> P")
    case True
    have "walk_child visit n c (walked s i g P ns) = Inr (walked s i g P ns)"
      using True vertex_walked [OF y, of i g P ns] by (simp add: walk_child_def)
    moreover obtain P' ns' where r: "fold_res (walk_child visit n) cs (walked s i g P ns) = Inr (walked s i g P' (ns @ ns'))" "P \<subseteq> P'" "P' \<subseteq> A"
      "closed_marks (gm_store s) P'" "set cs \<subseteq> P'" "set ns' = (\<Union>a \<in> {} \<union> (P' - P). set (f a))"
      by (rule walk_resultE [OF ih [OF Cons.prems(2,3)]])
    moreover have "set (c # cs) \<subseteq> P'" using r(2,5) True by auto
    ultimately show ?thesis by (intro walk_resultI [where P' = P' and ns' = ns']) simp_all
  next
    case False
    have c: "c \<in> set (c # cs)" by simp
    obtain P1 ns1 where
      1: "walk_tree visit n c (walked s i g P ns) = Inr (walked s i g P1 (ns @ ns1))" "P \<subseteq> P1" "P1 \<subseteq> A"
        "closed_marks (gm_store s) P1" "children_of (gm_store s) c \<subseteq> P1" "set ns1 = (\<Union>a \<in> {c} \<union> (P1 - P). set (f a))"
      by (rule walk_resultE [OF Cons.prems(4) [OF c Cons.prems(2,3)]])
    have P1: "insert c P1 \<subseteq> A" "closed_marks (gm_store s) (insert c P1)" using 1 Cons.prems(1) by (auto simp: closed_marks_def)
    obtain P2 ns2 where
      2: "fold_res (walk_child visit n) cs (walked s i g (insert c P1) (ns @ ns1)) = Inr (walked s i g P2 ((ns @ ns1) @ ns2))" "insert c P1 \<subseteq> P2"
        "P2 \<subseteq> A" "closed_marks (gm_store s) P2" "set cs \<subseteq> P2" "set ns2 = (\<Union>a \<in> {} \<union> (P2 - insert c P1). set (f a))"
      by (rule walk_resultE [OF ih [OF P1, of "ns @ ns1"]])
    have "walk_child visit n c (walked s i g P ns) = Inr (walked s i g (insert c P1) (ns @ ns1))"
      using False vertex_walked [OF y, of i g P ns] 1(1) mark_step [OF y, of i g P1 "ns @ ns1"] by (simp add: walk_child_def)
    then have "fold_res (walk_child visit n) (c # cs) (walked s i g P ns) = Inr (walked s i g P2 (ns @ (ns1 @ ns2)))" using 2(1) by simp
    moreover have "set (ns1 @ ns2) = (\<Union>a \<in> {} \<union> (P2 - P). set (f a))" using 1(2,6) 2(2,6) False by auto
    moreover have "P \<subseteq> P2" "set (c # cs) \<subseteq> P2" using 1(2) 2(2,5) by auto
    ultimately show ?thesis using 2(3,4) by (intro walk_resultI [where P' = P2 and ns' = "ns1 @ ns2"]) (simp only:)+
  qed
qed

lemma walk_ok:
  assumes V: "dom (gm_store s) = set ts" and visit: "\<And>a P ns. a \<in> set ts \<Longrightarrow> visit a (walked s i g P ns) = Inr (walked s i g P (ns @ f a))"
    and down: "\<And>j. j < length ts \<Longrightarrow> children_of (gm_store s) (ts ! j) \<subseteq> set (drop (Suc j) ts)"
  shows "j < length ts \<Longrightarrow> length ts \<le> j + n \<Longrightarrow> P \<subseteq> set ts \<Longrightarrow> closed_marks (gm_store s) P \<Longrightarrow>
    walk_result s i g f (set ts) {ts ! j} (children_of (gm_store s) (ts ! j)) P ns (walk_tree visit n (ts ! j) (walked s i g P ns))"
proof (induction n arbitrary: j P ns)
  case 0
  then show ?case by simp
next
  case (Suc n)
  let ?a = "ts ! j"
  have "?a \<in> set ts" using Suc.prems(1) by simp
  then obtain x where x: "gm_store s ?a = Some x" using V by blast
  have sub: "set (sv_children x) \<subseteq> set (drop (Suc j) ts)" "children_of (gm_store s) ?a = set (sv_children x)"
    using down [OF Suc.prems(1)] x by (simp_all add: children_of_def)
  have child: "walk_result s i g f (set ts) {c} (children_of (gm_store s) c) P ns (walk_tree visit n c (walked s i g P ns))"
    if c: "c \<in> set (sv_children x)" "P \<subseteq> set ts" "closed_marks (gm_store s) P" for c P ns
  proof -
    from c(1) sub(1) have "c \<in> set (drop (Suc j) ts)" by blast
    then obtain k where k: "c = ts ! k" "k < length ts" "j < k" by (auto simp: in_set_conv_nth)
    then have "length ts \<le> k + n" using Suc.prems(2) by simp
    from Suc.IH [OF k(2) this c(2,3)] show ?thesis unfolding k(1) .
  qed
  have "set (sv_children x) \<subseteq> set ts" using sub(1) set_drop_subset by fast
  then have w: "walk_result s i g f (set ts) {} (set (sv_children x)) P (ns @ f ?a) (fold_res (walk_child visit n) (sv_children x) (walked s i g P (ns @ f ?a)))"
    by (intro walk_children [OF V child _ Suc.prems(3,4)]) simp_all
  obtain P' ns' where
    "fold_res (walk_child visit n) (sv_children x) (walked s i g P (ns @ f ?a)) = Inr (walked s i g P' ((ns @ f ?a) @ ns'))" "P \<subseteq> P'"
      "P' \<subseteq> set ts" "closed_marks (gm_store s) P'" "set (sv_children x) \<subseteq> P'" "set ns' = (\<Union>a \<in> {} \<union> (P' - P). set (f a))"
    by (rule walk_resultE [OF w])
  moreover have "walk_tree visit (Suc n) ?a (walked s i g P ns) = fold_res (walk_child visit n) (sv_children x) (walked s i g P (ns @ f ?a))"
    using visit [OF \<open>?a \<in> set ts\<close>, of P ns] vertex_walked [OF x] unfolding walk_tree_child by simp
  ultimately show ?case by (intro walk_resultI [where P' = P' and ns' = "f ?a @ ns'"]) (simp_all add: sub(2))
qed

section \<open>The whole stage\<close>

lemma links_down:
  assumes "links_ok ts [] st" "distinct ts" "j < length ts"
  shows "children_of st (ts ! j) \<subseteq> set (drop (Suc j) ts)"
proof
  fix c
  assume "c \<in> children_of st (ts ! j)"
  then have c: "c \<in> set ts" "ts ! j \<in> set (sv_parents (the (st c)))" using assms(1,3) by (auto simp: links_ok_def children_of_def)
  then obtain k where k: "k < length ts" "c = ts ! k" by (auto simp: in_set_conv_nth)
  then have "ts ! j \<in> set (take k ts)" using assms(1) c(2) by (auto simp: links_ok_def)
  then obtain m where "m < k" "ts ! j = ts ! m" by (auto simp: in_set_conv_nth)
  then have "j < k" using assms(2,3) k(1) by (simp add: nth_eq_iff_index_eq)
  then show "c \<in> set (drop (Suc j) ts)" using k by (auto simp: in_set_conv_nth intro!: exI [where x = "k - Suc j"])
qed

lemma all_marked:
  assumes L: "links_ok ts [] st" and P: "closed_marks st P" "children_of st (ts ! 0) \<subseteq> P"
  shows "0 < j \<Longrightarrow> j < length ts \<Longrightarrow> ts ! j \<in> P"
proof (induction j rule: less_induct)
  case (less j)
  then have "sv_parents (the (st (ts ! j))) \<noteq> []" "set (sv_parents (the (st (ts ! j)))) \<subseteq> set (take j ts)" using L by (auto simp: links_ok_def)
  then obtain p where p: "p \<in> set (sv_parents (the (st (ts ! j))))" "p \<in> set (take j ts)" by (metis list.set_sel(1) subsetD)
  then obtain k where k: "k < j" "p = ts ! k" by (auto simp: in_set_conv_nth)
  have "p \<in> set ts" "ts ! j \<in> set ts" using k less.prems(2) by auto
  then have "ts ! j \<in> children_of st p" using L p(1) by (auto simp: links_ok_def children_of_def)
  moreover have "children_of st p \<subseteq> P"
  proof (cases "k = 0")
    case False
    then have "p \<in> P" using less.IH [OF k(1)] k less.prems(2) by simp
    then show ?thesis using P(1) by (simp add: closed_marks_def)
  qed (use P(2) k in simp)
  ultimately show ?case by blast
qed

lemma tree_size:
  assumes "spf_inv d i root ip g R ts [] D E s"
  shows "length ts < gm_next s" "card (dom (gm_store s)) = length ts"
proof -
  note I = spf_invD [OF assms]
  note V = vertices_okD [OF I(4)]
  have "set ts \<subseteq> {0<..<gm_next s}" using V(1,6) by fastforce
  then have "card (set ts) \<le> gm_next s - 1" using card_mono [of "{0<..<gm_next s}" "set ts"] by simp
  moreover have "0 < gm_next s" using I(1) \<open>set ts \<subseteq> {0<..<gm_next s}\<close> by (cases ts) auto
  ultimately show "length ts < gm_next s" using V(2) by (simp add: distinct_card)
  show "card (dom (gm_store s)) = length ts" using V(1,2) by (simp add: distinct_card)
qed

lemma second_stage_ok:
  assumes db: "p2p_database d" and inv: "spf_inv d i root ip g R ts [] D E s"
  shows "\<exists>P ns. second_stage (ts ! 0) s = Inr (walked s i g P ns) \<and> set ns = (\<Union>w \<in> vid (gm_store s) ` set ts. stubs_to d ip root w)"
proof -
  note I = spf_invD [OF inv]
  note V = vertices_okD [OF I(4)]
  let ?st = "gm_store s" and ?f = "\<lambda>a. stub_routes root d (the (gm_store s a))"
  have dom: "dom ?st = set ts" using V(1) by simp
  have visit: "visit_stubs a (walked s i g P ns) = Inr (walked s i g P (ns @ ?f a))" if a: "a \<in> set ts" for a P ns
  proof -
    from a dom obtain x where x: "?st a = Some x" by blast
    then show ?thesis using visit_step [OF inv_at_root [OF inv] x, of D E] V(6) [OF x] by simp
  qed
  have "mark {} ?st a = ?st a" for a using V(6) [of a] by (cases "?st a") (auto simp: mark_def vertex_ok_def)
  then have start: "walked s i g {} [] = s" using put_same [OF I(7)] by (simp add: walked_def add_networks_def fun_eq_iff)
  have "walk_result s i g ?f (set ts) {ts ! 0} (children_of ?st (ts ! 0)) {} [] (walk_tree visit_stubs (store_fuel s) (ts ! 0) (walked s i g {} []))"
  proof (rule walk_ok [OF dom])
    show "visit_stubs a (walked s i g P ns) = Inr (walked s i g P (ns @ ?f a))" if "a \<in> set ts" for a P ns by (rule visit [OF that])
    show "children_of ?st (ts ! j) \<subseteq> set (drop (Suc j) ts)" if "j < length ts" for j by (rule links_down [OF I(5) V(2) that])
  qed (use I(1) tree_size(1) [OF inv] in \<open>simp_all add: store_fuel_def closed_marks_def\<close>)
  then obtain P ns where w: "walk_tree visit_stubs (store_fuel s) (ts ! 0) s = Inr (walked s i g P ns)" "P \<subseteq> set ts" "closed_marks ?st P"
      "children_of ?st (ts ! 0) \<subseteq> P" "set ns = (\<Union>a \<in> {ts ! 0} \<union> (P - {}). set (?f a))"
    unfolding start by (auto elim!: walk_resultE)
  have "a \<in> P" if "a \<in> set ts" "a \<noteq> ts ! 0" for a
    using all_marked [OF I(5) w(3,4)] that by (metis in_set_conv_nth neq0_conv)
  then have "{ts ! 0} \<union> (P - {}) = set ts" using w(2) I(1) by auto
  moreover have "set (?f a) = stubs_to d ip root (vid ?st a)" if "a \<in> set ts" for a
  proof (rule set_stub_routes)
    from that dom obtain x where x: "?st a = Some x" by blast
    show "set (sv_exits (the (?st a))) = link_exit d ip root ` first_links (p2p_links d) root (vid ?st a)" if "vid ?st a \<noteq> root"
      using I(8) V(6) [OF x] x that \<open>a \<in> set ts\<close> by (auto simp: dijkstra_def on_tree_def vertex_ok_def)
  qed
  ultimately have "set ns = (\<Union>w \<in> vid ?st ` set ts. stubs_to d ip root w)" using w(5) by simp
  moreover have "second_stage (ts ! 0) s = Inr (walked s i g P ns)"
  proof -
    have "db_extdatabase (gm_lsdb (walked s i g P ns)) = []" using I(6) db by (simp add: walked_def p2p_database_def)
    then show ?thesis using w(1) by (simp add: second_stage_def SPFProcessStubs_def)
  qed
  ultimately show ?thesis by blast
qed

text \<open>After both stages everything is freed.\<close>

lemma release_ok:
  assumes inv: "spf_inv d i root ip g R ts [] D E s"
  shows "delete_at (ts ! 0) (walked s i g P ns) = Inr ((walked s i g P ns)\<lparr>gm_store := (\<lambda>a. None)\<rparr>)"
proof -
  note I = spf_invD [OF inv]
  note V = vertices_okD [OF I(4)]
  let ?st = "gm_store s" and ?P = "\<lambda>a. sv_parents (the (gm_store s a))" and ?f = "\<lambda>a. length (takeWhile ((\<noteq>) a) ts)"
  have "dom (mark P ?st) = dom ?st" by (auto simp: mark_def)
  then have dom: "dom ?st = set ts" "dom (mark P ?st) = set ts" using V(1) by simp_all
  have idx: "?f (ts ! j) = j" if "j < length ts" for j
  proof -
    have "takeWhile ((\<noteq>) (ts ! j)) ts = take j ts"
      using that V(2) by (intro takeWhile_eq_take_P_nth) (auto simp: nth_eq_iff_index_eq)
    then show ?thesis using that by simp
  qed
  have par: "set (?P a) \<subseteq> set ts \<and> (\<forall>p \<in> set (?P a). ?f p < ?f a) \<and> (a \<noteq> ts ! 0 \<longrightarrow> ?P a \<noteq> [])" if "a \<in> set ts" for a
  proof -
    from that obtain j where j: "j < length ts" "a = ts ! j" by (auto simp: in_set_conv_nth)
    then have p: "set (?P a) \<subseteq> set (take j ts)" "?P a = [] \<longleftrightarrow> j = 0" using I(5) by (auto simp: links_ok_def)
    have "?f p < ?f a" if "p \<in> set (?P a)" for p
    proof -
      from that p(1) have "p \<in> set (take j ts)" by blast
      then obtain k where "k < j" "p = ts ! k" by (auto simp: in_set_conv_nth)
      then show ?thesis using idx j by simp
    qed
    then show ?thesis using p j set_take_subset by fast
  qed
  have "linked ?P {} (mark P ?st)"
    unfolding linked_def dom
  proof (intro conjI allI impI)
    fix a x
    assume "mark P ?st a = Some x"
    then obtain y where y: "?st a = Some y" "x = y\<lparr>sv_processed := a \<in> P\<rparr>" by (auto simp: mark_def)
    then have a: "a \<in> set ts" using dom(1) by blast
    show "0 < a" "sv_parents x = ?P a" "set (?P a) \<subseteq> set ts" using y V(6) [OF y(1)] par [OF a] by simp_all
    have "set (sv_children (the (?st a))) = {b \<in> set ts. a \<in> set (?P b)}" using I(5) a by (simp add: links_ok_def)
    then show "set (sv_children x) = {b \<in> set ts - {}. a \<in> set (?P b)}" using y by simp
  qed simp_all
  moreover have "ordered_by ?f ?P (dom (mark P ?st))" unfolding dom using par by (simp add: ordered_by_def)
  moreover have "2 * card (dom (mark P ?st)) \<le> store_fuel (walked s i g P ns)"
    using tree_size [OF inv] dom by (simp add: store_fuel_def walked_def)
  ultimately have "delete_vertex (store_fuel (walked s i g P ns)) (ts ! 0) (mark P ?st) = Inr (\<lambda>b. None)"
    using par I(1) unfolding dom by (intro delete_all [where f = ?f and P = ?P]) (auto simp: dom)
  then show ?thesis by (simp add: delete_at_def update_store_def walked_def)
qed

end
