(* ===== verification/Global_Routes.thy ===== *)
theory Global_Routes
  imports Spf_Stubs
begin

text \<open>
  What \<open>SPFCalculate\<close> and \<open>InitializeRoutes\<close> do as a whole, on networks of routers that are connected by
  point-to-point links: the tables they write, that they return and free what they allocate, and that
  packets that follow the tables arrive.
\<close>

section \<open>The routes of one router\<close>

definition p2p_list :: "lsdb \<Rightarrow> ipv4 \<Rightarrow> link_record list" where
  "p2p_list d v = filter (\<lambda>l. lr_linkType l = PointToPoint) (records d v)"

definition reachable :: "lsdb \<Rightarrow> ipv4 \<Rightarrow> ipv4 set" where
  "reachable d root = {w. \<exists>e. spf_walk (p2p_links d) root e w}"

definition default_route :: "node_exit \<Rightarrow> routing_entry" where
  "default_route e = CreateNetworkRouteTo 0 0 (fst e) (snd e)"

text \<open>
  A router with no link gets no route, a router with one link a default route, and any other router host
  and network routes along all shortest paths.
\<close>

definition routes_for :: "lsdb \<Rightarrow> 'p l3 \<Rightarrow> ipv4 \<Rightarrow> global_routing \<Rightarrow> global_routing \<Rightarrow> bool" where
  "routes_for d ip root g g' \<longleftrightarrow>
     (case p2p_list d root of
        [] \<Rightarrow> g' = g
      | [l] \<Rightarrow> g' = add_networks [default_route (link_exit d ip root l)] g
      | _ \<Rightarrow> \<exists>hs ns. g' = add_networks ns (add_hosts hs g) \<and>
               set hs = (\<Union>w \<in> reachable d root - {root}. hosts_to d ip root w) \<and>
               set ns = (\<Union>w \<in> reachable d root. stubs_to d ip root w))"

text \<open>Before a pass: nothing is allocated, and the router at the root is known and is the node of its advertisement.\<close>

definition pass_ready :: "lsdb \<Rightarrow> nat \<Rightarrow> ipv4 \<Rightarrow> 'p l3 \<Rightarrow> global_routing \<Rightarrow> 'p grm \<Rightarrow> bool" where
  "pass_ready d i root ip g s \<longleftrightarrow>
     gm_store s = (\<lambda>a. None) \<and> 0 < gm_next s \<and> Lsdb_Initialize (gm_lsdb s) = Lsdb_Initialize d \<and>
     (case Lsdb_GetLSA root d of None \<Rightarrow> False | Some l \<Rightarrow> unat (ls_node l) = i) \<and> root_node i root ip g (gm_nodes s)"

lemma start_tree_inv:
  assumes db: "p2p_database d" and r: "pass_ready d i root ip g s"
  shows "\<exists>s'. start_tree root s = Inr (gm_next s, s') \<and>
    spf_inv d i root ip g {} [gm_next s] [] (\<lambda>w. 0) (\<lambda>w. {}) s' \<and> gm_nodes s' = gm_nodes s"
proof -
  let ?a = "gm_next s" and ?x = "(router_vertex root)\<lparr>sv_distance := 0\<rparr>"
  let ?s = "s\<lparr>gm_lsdb := with_status (stat {root} {}) d, gm_store := [?a \<mapsto> ?x], gm_next := ?a + 1, gm_spfroot := ?a\<rparr>"
  from r obtain l where l: "Lsdb_GetLSA root d = Some l" by (auto simp: pass_ready_def split: option.splits)
  then have "router_ok d root l" using db by (simp add: p2p_database_def)
  then have l2: "ls_type l = RouterLSA" "ls_linkStateId l = root" by (simp_all add: router_ok_def)
  have ini: "Lsdb_Initialize (gm_lsdb s) = with_status (\<lambda>k. LSA_SPF_NOT_EXPLORED) d" using r by (simp add: pass_ready_def Initialize_eq)
  have st: "(\<lambda>k. LSA_SPF_NOT_EXPLORED)(root := LSA_SPF_IN_SPFTREE) = stat {root} {}" by (auto simp: stat_def)
  have "start_tree root s = Inr (?a, ?s)"
    using r l l2 SetStatus_with_status [of root LSA_SPF_IN_SPFTREE "\<lambda>k. LSA_SPF_NOT_EXPLORED" d]
    unfolding st
    by (simp add: start_tree_def Let_def ini Initialize_eq get_lsa_def GetLSA_with_status new_vertex_def SPFVertex_of_router pass_ready_def
        update_vertex_def update_store_def on_vertex_def get_vertex_def set_status_def)
  moreover have "spf_inv d i root ip g {} [?a] [] (\<lambda>w. 0) (\<lambda>w. {}) ?s"
  proof (rule spf_invI [where T = "{root}" and C = "{}"])
    show "dijkstra (p2p_links d) (link_exit d ip root) root {} {root} {} (\<lambda>w. 0) (\<lambda>w. {})" by (rule dijkstra_start)
    show "vertices_ok d (\<lambda>w. 0) (\<lambda>w. {}) [?a] [] (gm_next ?s) (gm_store ?s)"
      using r l by (simp add: vertices_ok_def vertex_ok_def router_vertex_def pass_ready_def)
  qed (use r in \<open>simp_all add: router_vertex_def links_ok_def pass_ready_def\<close>)
  ultimately show ?thesis by (intro exI [where x = ?s]) simp
qed

lemma find_conj: "find Q xs = Some b \<Longrightarrow> P b \<Longrightarrow> find (\<lambda>x. P x \<and> Q x) xs = Some b"
  by (induction xs) (auto split: if_splits)

lemma transit_links_p2p:
  assumes "p2p_database d" "ls_linkRecords y = records d v"
  shows "transit_links y = p2p_list d v"
  unfolding transit_links_def p2p_list_def assms(2)
  by (rule filter_cong [OF refl]) (use record_kinds [OF assms(1)] p2p_link(4) [OF assms(1)] in fastforce)

lemma set_p2p_list [simp]: "set (p2p_list d v) = p2p_links d v"
  by (auto simp: p2p_list_def p2p_links_def)

lemma check_stub:
  assumes db: "p2p_database d" and rt: "at_root d i root ip g s" and l: "Lsdb_GetLSA root d = Some l" "unat (ls_node l) = i"
  shows "CheckForStubNode root s =
    (case p2p_list d root of
       [] \<Rightarrow> Inr (True, s)
     | [k] \<Rightarrow> Inr (True, s\<lparr>gm_nodes := put_routing i (add_networks [default_route (link_exit d ip root k)] g) (gm_nodes s)\<rparr>)
     | _ \<Rightarrow> Inr (False, s))"
proof -
  from get_lsa_ready [OF rt l(1)] obtain x where "get_lsa root s = Inr (Lsa_SetStatus x l)" by blast
  moreover define y where "y = Lsa_SetStatus x l"
  ultimately have y: "get_lsa root s = Inr y" "ls_linkStateId y = root" "ls_node y = ls_node l" "ls_linkRecords y = records d root"
    using stored_router(2) [OF db rt, of root y] l(1) by (auto simp: get_lsa_def records_def split: option.splits)
  note t = transit_links_p2p [OF db y(4)]
  show ?thesis
  proof (cases "p2p_list d root")
    case (Cons k ks)
    show ?thesis
    proof (cases ks)
      case Nil
      then have k: "k \<in> p2p_links d root" using Cons by (metis list.set_intros(1) set_p2p_list)
      obtain b where b: "back_link d (lr_linkId k) root = Some b" using p2p_link(3) [OF db k] by blast
      have "find (\<lambda>lr. lr_linkType lr = PointToPoint \<and> lr_linkId lr = root) (records d (lr_linkId k)) = Some b"
        using b p2p_link(6) [OF db k] by (intro find_conj) (simp_all add: back_link_def)
      moreover obtain z where "get_lsa (lr_linkId k) s = Inr z" "ls_linkRecords z = records d (lr_linkId k)"
        using get_lsa_records [OF rt p2p_link(2) [OF db k]] by blast
      moreover obtain r where r: "root_node i root ip g (gm_nodes s)" "gm_store s (gm_spfroot s) = Some r" "sv_id r = root"
        using rt by (auto simp: at_root_def)
      moreover have "on_node i (on_routing (with_routing (GlobalRouting_AddNetworkRouteTo 0 0 (lr_linkData b) oif))) s =
          Inr (s\<lparr>gm_nodes := put_routing i (add_networks [default_route (lr_linkData b, oif)] g) (gm_nodes s)\<rparr>)" for oif
        using r(1) by (auto simp: on_node_def on_routing_def with_routing_def root_node_def put_routing_def add_networks_def
            default_route_def GlobalRouting_AddNetworkRouteTo_def)
      ultimately show ?thesis
        using y t Cons Nil p2p_link(4) [OF db k] l(2) root_node_index [OF r(1)] FindOutgoing_eq [OF r(2,3,1)] b
        by (simp add: CheckForStubNode_def link_exit_def)
    qed (use y t Cons in \<open>simp add: CheckForStubNode_def\<close>)
  qed (use y t in \<open>simp add: CheckForStubNode_def\<close>)
qed

section \<open>One pass\<close>

definition pass_done :: "lsdb \<Rightarrow> nat \<Rightarrow> global_routing \<Rightarrow> 'p grm \<Rightarrow> 'p grm \<Rightarrow> bool" where
  "pass_done d i g' s s' \<longleftrightarrow>
     gm_store s' = (\<lambda>a. None) \<and> 0 < gm_next s' \<and> Lsdb_Initialize (gm_lsdb s') = Lsdb_Initialize d \<and>
     gm_nodes s' = put_routing i g' (gm_nodes s)"

lemma walked_plain:
  assumes inv: "spf_inv d i root ip g R ts [] D E s"
  shows "walked s i g {} ns = s\<lparr>gm_nodes := put_routing i (add_networks ns g) (gm_nodes s)\<rparr>"
proof -
  note V = vertices_okD [OF spf_invD(4) [OF inv]]
  have "mark {} (gm_store s) a = gm_store s a" for a using V(6) [of a] by (cases "gm_store s a") (auto simp: mark_def vertex_ok_def)
  then show ?thesis by (simp add: walked_def fun_eq_iff)
qed

lemma release_done:
  assumes inv: "spf_inv d i root ip g R ts [] D E s"
  shows "\<exists>s'. delete_at (ts ! 0) (walked s i g P ns) = Inr s' \<and> pass_done d i (add_networks ns g) s s'"
  using release_ok [OF inv, of P ns] tree_size(1) [OF inv] spf_invD(6) [OF inv] by (auto simp: pass_done_def walked_def)

lemma stub_pass:
  assumes inv: "spf_inv d i root ip g {} [v] [] D E s1"
  shows "\<exists>s'. delete_at v (s1\<lparr>gm_nodes := put_routing i (add_networks ns g) (gm_nodes s1)\<rparr>) = Inr s' \<and> pass_done d i (add_networks ns g) s1 s'"
  using release_done [OF inv, of "{}" ns] unfolding walked_plain [OF inv] by simp

lemma full_pass:
  assumes db: "p2p_database d" and inv: "spf_inv d i root ip g {} [v] [] D E s1"
  shows "\<exists>s' hs ns. bind_res (SPF_loop (length (db_database (gm_lsdb s1))) v ([], s1)) (\<lambda>s3.
      bind_res (second_stage v s3) (\<lambda>s4. bind_res (delete_at v s4) (\<lambda>s5. Inr (s5\<lparr>gm_spfroot := 0\<rparr>)))) = Inr s' \<and>
    pass_done d i (add_networks ns (add_hosts hs g)) s1 s' \<and>
    set hs = (\<Union>w \<in> reachable d root - {root}. hosts_to d ip root w) \<and> set ns = (\<Union>w \<in> reachable d root. stubs_to d ip root w)"
proof -
  note I = spf_invD [OF inv]
  have T: "vid (gm_store s1) ` set [v] = {root}" using I(3) by simp
  have "tree_links d (vid (gm_store s1) ` set [v] - {vid (gm_store s1) v}) = {}" by (simp add: tree_links_def)
  with inv have "spf_inv d i root ip g (tree_links d (vid (gm_store s1) ` set [v] - {vid (gm_store s1) v})) [v] [] D E s1" by simp
  from loop_inv [OF db this, of "length (db_database d)"] obtain s3 ts D' E' hs where
    loop: "SPF_loop (length (db_database d)) v ([], s1) = Inr s3"
      "spf_inv d i root ip (add_hosts hs g) (tree_links d (vid (gm_store s3) ` set ts)) ts [] D' E' s3"
      "gm_nodes s3 = put_routing i (add_hosts hs g) (gm_nodes s1)" "ts ! 0 = v"
      "set hs = (\<Union>w \<in> vid (gm_store s3) ` set ts - {root}. hosts_to d ip root w)" unfolding T by auto
  let ?T = "vid (gm_store s3) ` set ts"
  have "dijkstra (p2p_links d) (link_exit d ip root) root (tree_links d ?T) ?T {} D' E'" using spf_invD(8) [OF loop(2)] by simp
  from dijkstra_end [OF this] have reach: "?T = reachable d root" by (auto simp: tree_links_def reachable_def)
  from second_stage_ok [OF db loop(2)] obtain P ns where
    ss: "second_stage v s3 = Inr (walked s3 i (add_hosts hs g) P ns)" "set ns = (\<Union>w \<in> ?T. stubs_to d ip root w)" using loop(4) by blast
  from release_done [OF loop(2), of P ns] obtain s5 where
    s5: "delete_at v (walked s3 i (add_hosts hs g) P ns) = Inr s5" "pass_done d i (add_networks ns (add_hosts hs g)) s3 s5" using loop(4) by blast
  have "pass_done d i (add_networks ns (add_hosts hs g)) s1 (s5\<lparr>gm_spfroot := 0\<rparr>)"
    using s5(2) loop(3) put_put [OF root_node_index [OF I(7)]] by (simp add: pass_done_def)
  moreover have "length (db_database (gm_lsdb s1)) = length (db_database d)" using I(6) by simp
  ultimately show ?thesis using loop(1,5) ss s5(1) unfolding reach by auto
qed

lemma pass:
  assumes db: "p2p_database d" and r: "pass_ready d i root ip g s"
  shows "\<exists>s' g'. SPFCalculate root s = Inr s' \<and> routes_for d ip root g g' \<and> pass_done d i g' s s'"
proof -
  from start_tree_inv [OF db r] obtain s1 where s1: "start_tree root s = Inr (gm_next s, s1)"
    "spf_inv d i root ip g {} [gm_next s] [] (\<lambda>w. 0) (\<lambda>w. {}) s1" "gm_nodes s1 = gm_nodes s" by blast
  from r obtain l where l: "Lsdb_GetLSA root d = Some l" "unat (ls_node l) = i" by (auto simp: pass_ready_def split: option.splits)
  have "gm_nodes s1 \<noteq> []" using r s1(3) root_node_index by (fastforce simp: pass_ready_def)
  note calc = SPFCalculate_def [of root s] s1(1) this check_stub [OF db inv_at_root [OF s1(2)] l]
  have same: "pass_done d i g' s1 s' = pass_done d i g' s s'" for g' and s' :: "'a grm" using s1(3) by (simp add: pass_done_def)
  show ?thesis
  proof (cases "p2p_list d root")
    case Nil
    from stub_pass [OF s1(2), of "[]"] have "\<exists>s'. delete_at (gm_next s) s1 = Inr s' \<and> pass_done d i g s1 s'"
      using put_same [OF spf_invD(7) [OF s1(2)]] by (simp add: add_networks_def)
    with Nil show ?thesis by (auto simp: calc routes_for_def same)
  next
    case (Cons k ks)
    show ?thesis
    proof (cases ks)
      case Nil
      with stub_pass [OF s1(2), of "[default_route (link_exit d ip root k)]"] Cons show ?thesis by (auto simp: calc routes_for_def same)
    next
      case (Cons k2 ks2)
      from full_pass [OF db s1(2)] obtain s' hs ns where
        f: "bind_res (SPF_loop (length (db_database (gm_lsdb s1))) (gm_next s) ([], s1)) (\<lambda>s3.
          bind_res (second_stage (gm_next s) s3) (\<lambda>s4. bind_res (delete_at (gm_next s) s4) (\<lambda>s5. Inr (s5\<lparr>gm_spfroot := 0\<rparr>)))) = Inr s'"
        "pass_done d i (add_networks ns (add_hosts hs g)) s s'"
        "set hs = (\<Union>w \<in> reachable d root - {root}. hosts_to d ip root w)" "set ns = (\<Union>w \<in> reachable d root. stubs_to d ip root w)"
        unfolding same by blast
      have "SPFCalculate root s = Inr s'" using f(1) Cons \<open>p2p_list d root = k # ks\<close> by (simp add: calc)
      moreover have "routes_for d ip root g (add_networks ns (add_hosts hs g))"
        using f(3,4) Cons \<open>p2p_list d root = k # ks\<close> by (auto simp: routes_for_def)
      ultimately show ?thesis using f(2) by blast
    qed
  qed
qed

end
