(* ===== verification/Route_Delivery.thy ===== *)
theory Route_Delivery
  imports Global_Routes
begin

text \<open>
  All routers together: \<open>InitializeRoutes\<close> makes one pass for each, and the tables it leaves lead along the
  links to every router, whichever of several equal routes is drawn at each router on the way.
\<close>

section \<open>Following the tables\<close>

text \<open>
  A table leads to an address when it is the table of the router that has it, or when every route that the
  lookup may draw is the exit of one of the router's links, and the table at the other end of that link leads there.
\<close>

inductive leads :: "lsdb \<Rightarrow> (ipv4 \<Rightarrow> 'p l3) \<Rightarrow> (ipv4 \<Rightarrow> global_routing) \<Rightarrow> ipv4 \<Rightarrow> ipv4 \<Rightarrow> bool" for d ip tbl a where
  here: "k \<in> p2p_links d u \<Longrightarrow> lr_linkData k = a \<Longrightarrow> leads d ip tbl a u"
| onward: "(\<And>stk. GlobalRouting_candidates stk a 0 (tbl u) = Inr rs) \<Longrightarrow> rs \<noteq> [] \<Longrightarrow>
     (\<And>r. r \<in> set rs \<Longrightarrow> \<exists>l \<in> p2p_links d u. (re_gateway r, re_interface r) = link_exit d (ip u) u l \<and> leads d ip tbl a (lr_linkId l)) \<Longrightarrow>
     leads d ip tbl a u"

definition unique_addresses :: "lsdb \<Rightarrow> bool" where
  "unique_addresses d \<longleftrightarrow>
     (\<forall>(v, _) \<in> set (db_database d). \<forall>(w, _) \<in> set (db_database d). \<forall>k \<in> set (p2p_list d v). \<forall>j \<in> set (p2p_list d w).
        lr_linkData k = lr_linkData j \<longrightarrow> v = w)"

definition exits_usable :: "lsdb \<Rightarrow> 'p l3 \<Rightarrow> ipv4 \<Rightarrow> bool" where
  "exits_usable d ip u \<longleftrightarrow> (\<forall>l \<in> set (p2p_list d u). 0 \<le> sint (snd (link_exit d ip u l)))"

lemma p2p_links_stored: "k \<in> p2p_links d v \<Longrightarrow> \<exists>l. (v, l) \<in> set (db_database d)"
  by (cases "Lsdb_GetLSA v d") (auto simp: p2p_links_def records_def Lsdb_GetLSA_def dest: map_of_SomeD)

lemma unique_owner: "unique_addresses d \<Longrightarrow> k \<in> p2p_links d v \<Longrightarrow> j \<in> p2p_links d w \<Longrightarrow> lr_linkData k = lr_linkData j \<Longrightarrow> v = w"
  using p2p_links_stored [of k d v] p2p_links_stored [of j d w] unfolding unique_addresses_def by fastforce

lemma walk_begins:
  assumes "spf_walk out u e w"
  shows "u = w \<and> e = 0 \<or> (\<exists>l \<in> out u. \<exists>e'. spf_walk out (lr_linkId l) e' w \<and> link_cost l + e' = e)"
  using assms
proof (induction rule: spf_walk.induct)
  case (walk_on v e w l)
  then consider "v = w" "e = 0" | k e' where "k \<in> out v" "spf_walk out (lr_linkId k) e' w" "link_cost k + e' = e" by blast
  then show ?case
  proof cases
    case 1
    then show ?thesis using walk_on.hyps(2) spf_walk.walk_here [of out "lr_linkId l"] by force
  next
    case 2
    have "spf_walk out (lr_linkId k) (e' + link_cost l) (lr_linkId l)" using spf_walk.walk_on [OF 2(2) walk_on.hyps(2)] .
    then show ?thesis using 2 by force
  qed
qed simp

lemma first_links_nonempty:
  assumes "spf_dist out u e w" "u \<noteq> w"
  obtains l where "l \<in> first_links out u w"
proof -
  from assms walk_begins [of out u e w] obtain l e' where l: "l \<in> out u" "spf_walk out (lr_linkId l) e' w" "link_cost l + e' = e"
    unfolding spf_dist_def by blast
  then have "spf_dist out u (link_cost l + e') w" using assms(1) by simp
  from dist_suffix [OF this walk_link [where out = out, OF l(1)] l(2)] have "spf_dist out (lr_linkId l) e' w" .
  then show thesis using that l assms(1) unfolding first_links_def by blast
qed

text \<open>The address that the exit of a link gives is the one of the neighbour on the link back.\<close>

lemma exit_neighbour:
  assumes "p2p_database d" "l \<in> p2p_links d u"
  obtains b where "b \<in> p2p_links d (lr_linkId l)" "lr_linkId b = u" "lr_linkData b = fst (link_exit d ip u l)"
proof -
  from p2p_link(3) [OF assms] obtain b where b: "back_link d (lr_linkId l) u = Some b" by blast
  then have "b \<in> set (records d (lr_linkId l))" "lr_linkId b = u" by (auto simp: back_link_def find_Some_iff)
  then show thesis using that b p2p_link(6) [OF assms] by (simp add: p2p_links_def link_exit_def)
qed

section \<open>The routes that may be drawn\<close>

lemma host_lookup:
  assumes "list_all Entry_IsHost (m_hostRoutes g)"
  shows "GlobalRouting_candidates stk a 0 g =
    Inr (let hosts = filter (\<lambda>r. re_dest r = a) (m_hostRoutes g); nets = filter (\<lambda>r. Ipv4Mask_IsMatch (re_mask r) a (re_dest r)) (m_networkRoutes g);
             exts = filter (\<lambda>r. Ipv4Mask_IsMatch (re_mask r) a (re_dest r)) (m_ASexternalRoutes g)
         in if hosts \<noteq> [] then hosts else if nets \<noteq> [] then nets else take 1 exts)"
  using assms by (simp add: GlobalRouting_candidates_def host_candidates_def on_device_def entry_matches_def [abs_def] Let_def)

lemma single_link:
  assumes "p2p_list d u = [l]" "k \<in> first_links (p2p_links d) u w"
  shows "k = l"
  using assms by (auto simp: first_links_def simp flip: set_p2p_list)

lemma candidates_closer:
  assumes db: "p2p_database d" "unique_addresses d" "exits_usable d ip u" and r: "routes_for d ip u GlobalRouting_new g"
    and w: "spf_dist (p2p_links d) u e w" "u \<noteq> w" "k \<in> p2p_links d w"
  shows "\<exists>rs. (\<forall>stk. GlobalRouting_candidates stk (lr_linkData k) 0 g = Inr rs) \<and> rs \<noteq> [] \<and>
    (\<forall>r \<in> set rs. \<exists>l \<in> first_links (p2p_links d) u w. (re_gateway r, re_interface r) = link_exit d ip u l)"
proof -
  obtain l where l: "l \<in> first_links (p2p_links d) u w" using first_links_nonempty [OF w(1,2)] by blast
  then have lu: "l \<in> p2p_links d u" by (simp add: first_links_def)
  consider "p2p_list d u = [l]" | x y ys where "p2p_list d u = x # y # ys"
    using lu l single_link [of d u] by (cases "p2p_list d u" rule: remdups_adj.cases) (auto simp flip: set_p2p_list)
  then show ?thesis
  proof cases
    case 1
    then have g: "g = add_networks [default_route (link_exit d ip u l)] GlobalRouting_new" using r by (simp add: routes_for_def)
    have "GlobalRouting_candidates stk (lr_linkData k) 0 g = Inr [default_route (link_exit d ip u l)]" for stk
      by (simp add: g host_lookup add_networks_def GlobalRouting_new_def default_route_def CreateNetworkRouteTo_def Ipv4Mask_IsMatch_def Let_def)
    moreover have "(re_gateway (default_route e), re_interface (default_route e)) = e" for e
      by (simp add: default_route_def CreateNetworkRouteTo_def)
    ultimately show ?thesis using l by (intro exI [of _ "[default_route (link_exit d ip u l)]"]) auto
  next
    case 2
    then obtain hs ns where g: "g = add_networks ns (add_hosts hs GlobalRouting_new)"
      "set hs = (\<Union>w \<in> reachable d u - {u}. hosts_to d ip u w)" using r by (auto simp: routes_for_def)
    have hosts: "m_hostRoutes g = hs" by (simp add: g(1) add_networks_def add_hosts_def GlobalRouting_new_def)
    have "list_all Entry_IsHost hs"
      unfolding list_all_iff g(2) by (auto simp: hosts_to_def CreateHostRouteTo_def Entry_IsHost_def)
    moreover have "CreateHostRouteTo (lr_linkData k) (fst (link_exit d ip u l)) (snd (link_exit d ip u l)) \<in> set hs"
    proof -
      have "w \<in> reachable d u - {u}" using w(1,2) by (auto simp: reachable_def spf_dist_def)
      moreover have "0 \<le> sint (snd (link_exit d ip u l))" using db(3) lu by (simp add: exits_usable_def)
      then have "CreateHostRouteTo (lr_linkData k) (fst (link_exit d ip u l)) (snd (link_exit d ip u l)) \<in> hosts_to d ip u w"
        using w(3) l unfolding hosts_to_def by force
      ultimately show ?thesis unfolding g(2) by blast
    qed
    moreover have "re_dest (CreateHostRouteTo (lr_linkData k) nh oif) = lr_linkData k" for nh oif by (simp add: CreateHostRouteTo_def)
    ultimately have "list_all Entry_IsHost hs" "filter (\<lambda>r. re_dest r = lr_linkData k) hs \<noteq> []"
      unfolding filter_empty_conv by blast+
    moreover have "\<exists>l \<in> first_links (p2p_links d) u w. (re_gateway r, re_interface r) = link_exit d ip u l" if "r \<in> set hs" "re_dest r = lr_linkData k" for r
    proof -
      from that(1) g(2) obtain w' j nh oif m where h: "r = CreateHostRouteTo (lr_linkData j) nh oif" "j \<in> p2p_links d w'"
        "m \<in> first_links (p2p_links d) u w'" "(nh, oif) = link_exit d ip u m" unfolding hosts_to_def by blast
      then have "w' = w" using unique_owner [OF db(2) h(2) w(3)] that(2) by (simp add: CreateHostRouteTo_def)
      then show ?thesis using h(1,3,4) by (auto simp: CreateHostRouteTo_def)
    qed
    ultimately show ?thesis using host_lookup [of g _ "lr_linkData k"] hosts
      by (intro exI [of _ "filter (\<lambda>r. re_dest r = lr_linkData k) hs"]) (simp add: Let_def)
  qed
qed

lemma tables_lead:
  assumes db: "p2p_database d" "unique_addresses d"
    and r: "\<And>u. Lsdb_GetLSA u d \<noteq> None \<Longrightarrow> exits_usable d (ip u) u \<and> routes_for d (ip u) u GlobalRouting_new (tbl u)"
    and k: "k \<in> p2p_links d w"
  shows "spf_dist (p2p_links d) u e w \<Longrightarrow> Lsdb_GetLSA u d \<noteq> None \<Longrightarrow> leads d ip tbl (lr_linkData k) u"
proof (induction e arbitrary: u rule: less_induct)
  case (less e)
  show ?case
  proof (cases "u = w")
    case True
    then show ?thesis using k leads.here by blast
  next
    case False
    from candidates_closer [OF db _ _ less.prems(1) False k, of "ip u" "tbl u"] r [OF less.prems(2)] obtain rs where
      rs: "\<And>stk. GlobalRouting_candidates stk (lr_linkData k) 0 (tbl u) = Inr rs" "rs \<noteq> []"
        "\<And>r. r \<in> set rs \<Longrightarrow> \<exists>l \<in> first_links (p2p_links d) u w. (re_gateway r, re_interface r) = link_exit d (ip u) u l" by blast
    show ?thesis
    proof (rule leads.onward [where tbl = tbl and rs = rs, OF _ rs(2)], rule rs(1))
      fix r assume "r \<in> set rs"
      from rs(3) [OF this] obtain l where
        l: "l \<in> first_links (p2p_links d) u w" "(re_gateway r, re_interface r) = link_exit d (ip u) u l" by blast
      then obtain e' where e': "l \<in> p2p_links d u" "spf_dist (p2p_links d) (lr_linkId l) e' w" "link_cost l + e' = e"
        using less.prems(1) by (auto simp: first_links_def dest: dist_unique)
      have "leads d ip tbl (lr_linkData k) (lr_linkId l)"
        by (rule less.IH [OF _ e'(2) p2p_link(2) [OF db(1) e'(1)]]) (use e'(3) p2p_link(1) [OF db(1) e'(1)] in simp)
      with l(2) e'(1) show "\<exists>l \<in> p2p_links d u. (re_gateway r, re_interface r) = link_exit d (ip u) u l \<and> leads d ip tbl (lr_linkData k) (lr_linkId l)"
        by blast
    qed
  qed
qed

section \<open>All routers\<close>

definition active :: "u32 \<Rightarrow> 'p gnode \<Rightarrow> bool" where
  "active systemId n \<longleftrightarrow> gn_systemId n = systemId \<and> (case gn_router n of None \<Rightarrow> False | Some r \<Rightarrow> gr_LSAs r \<noteq> [])"

definition router_id :: "'p gnode \<Rightarrow> ipv4" where
  "router_id n = (case gn_router n of None \<Rightarrow> 0 | Some r \<Rightarrow> gr_routerId r)"

definition with_table :: "global_routing \<Rightarrow> 'p gnode \<Rightarrow> 'p gnode" where
  "with_table g n = n\<lparr>gn_router := map_option (\<lambda>r. r\<lparr>gr_routing := Some g\<rparr>) (gn_router n)\<rparr>"

text \<open>What the pass of each node leaves.\<close>

definition node_done :: "lsdb \<Rightarrow> u32 \<Rightarrow> 'p gnode list \<Rightarrow> 'p gnode list \<Rightarrow> nat \<Rightarrow> bool" where
  "node_done d systemId ns ns' i \<longleftrightarrow>
     (if active systemId (ns ! i)
      then \<exists>ip g g'. root_node i (router_id (ns ! i)) ip g ns \<and> routes_for d ip (router_id (ns ! i)) g g' \<and> ns' ! i = with_table g' (ns ! i)
      else ns' ! i = ns ! i)"

definition no_vertices :: "lsdb \<Rightarrow> 'p grm \<Rightarrow> bool" where
  "no_vertices d s \<longleftrightarrow> gm_store s = (\<lambda>a. None) \<and> 0 < gm_next s \<and> Lsdb_Initialize (gm_lsdb s) = Lsdb_Initialize d"

definition advertised :: "lsdb \<Rightarrow> 'p gnode list \<Rightarrow> nat \<Rightarrow> bool" where
  "advertised d ns i \<longleftrightarrow>
     (case Lsdb_GetLSA (router_id (ns ! i)) d of None \<Rightarrow> False | Some l \<Rightarrow> unat (ls_node l) = i) \<and>
     (\<exists>ip g. root_node i (router_id (ns ! i)) ip g ns)"

lemma root_node_other:
  assumes "i < length ns" "j \<noteq> i"
  shows "root_node j root ip g (put_routing i g' ns) = root_node j root ip g ns"
  using assms by (simp add: root_node_def first_index_put put_routing_nth)

lemma put_routing_table: "i < length ns \<Longrightarrow> put_routing i g ns = ns[i := with_table g (ns ! i)]"
  by (simp add: put_routing_def with_table_def)

definition init_node :: "u32 \<Rightarrow> nat \<Rightarrow> 'p grm \<Rightarrow> 'p grm res" where
  "init_node systemId i s1 =
     (if gn_systemId (gm_nodes s1 ! i) \<noteq> systemId then Inr s1
      else case gn_router (gm_nodes s1 ! i) of
             None \<Rightarrow> Inr s1
           | Some rtr \<Rightarrow> if length (gr_LSAs rtr) \<noteq> 0 then SPFCalculate (gr_routerId rtr) s1 else Inr s1)"

lemma InitializeRoutes_nodes: "InitializeRoutes systemId s = fold_res (init_node systemId) [0..<length (gm_nodes s)] s"
  by (simp add: InitializeRoutes_def init_node_def [abs_def])

lemma init_node_eq:
  "init_node systemId i s = (if active systemId (gm_nodes s ! i) then SPFCalculate (router_id (gm_nodes s ! i)) s else Inr s)"
  by (auto simp: init_node_def active_def router_id_def split: option.splits)

lemma init_fold:
  assumes db: "p2p_database d"
  shows "no_vertices d s \<Longrightarrow> distinct is \<Longrightarrow> \<forall>i \<in> set is. i < length (gm_nodes s) \<Longrightarrow>
    \<forall>i \<in> set is. active systemId (gm_nodes s ! i) \<longrightarrow> advertised d (gm_nodes s) i \<Longrightarrow>
    \<exists>s'. fold_res (init_node systemId) is s = Inr s' \<and> no_vertices d s' \<and> length (gm_nodes s') = length (gm_nodes s) \<and>
      (\<forall>j. j \<notin> set is \<longrightarrow> gm_nodes s' ! j = gm_nodes s ! j) \<and> (\<forall>i \<in> set is. node_done d systemId (gm_nodes s) (gm_nodes s') i)"
proof (induction "is" arbitrary: s)
  case (Cons i "is")
  let ?ns = "gm_nodes s"
  have i: "i < length ?ns" "i \<notin> set is" "distinct is" using Cons.prems(2,3) by simp_all
  show ?case
  proof (cases "active systemId (?ns ! i)")
    case False
    then have "fold_res (init_node systemId) (i # is) s = fold_res (init_node systemId) is s" by (simp add: init_node_eq)
    moreover from Cons.IH [OF Cons.prems(1) i(3)] Cons.prems(3,4) obtain s' where
      s': "fold_res (init_node systemId) is s = Inr s'" "no_vertices d s'" "length (gm_nodes s') = length ?ns"
        "\<forall>j. j \<notin> set is \<longrightarrow> gm_nodes s' ! j = ?ns ! j" "\<forall>i \<in> set is. node_done d systemId ?ns (gm_nodes s') i" by auto
    moreover have "node_done d systemId ?ns (gm_nodes s') i" using False s'(4) i(2) by (simp add: node_done_def)
    ultimately show ?thesis by (intro exI [where x = s']) simp
  next
    case True
    then obtain ip g where a: "pass_ready d i (router_id (?ns ! i)) ip g s"
      using Cons.prems(1,4) by (auto simp: advertised_def pass_ready_def no_vertices_def)
    then have rn: "root_node i (router_id (?ns ! i)) ip g ?ns" by (simp add: pass_ready_def)
    from pass [OF db a] obtain s1 g' where s1: "SPFCalculate (router_id (?ns ! i)) s = Inr s1" "routes_for d ip (router_id (?ns ! i)) g g'"
      "pass_done d i g' s s1" by blast
    have n1: "no_vertices d s1" "gm_nodes s1 = put_routing i g' ?ns" using s1(3) by (simp_all add: pass_done_def no_vertices_def)
    have same: "gm_nodes s1 ! j = ?ns ! j" if "j \<noteq> i" for j using i(1) that by (simp add: n1(2) put_routing_nth)
    have root: "root_node j root ip g (gm_nodes s1) = root_node j root ip g ?ns" if "j \<noteq> i" for j root ip g
      unfolding n1(2) by (rule root_node_other [OF i(1) that])
    have adv: "advertised d (gm_nodes s1) j = advertised d ?ns j" if "j \<noteq> i" for j
      using root [OF that] same [OF that] by (simp add: advertised_def)
    have len: "length (gm_nodes s1) = length ?ns" by (simp add: n1(2) put_routing_def)
    have "\<forall>j \<in> set is. j < length (gm_nodes s1)" using Cons.prems(3) len by simp
    moreover have "\<forall>j \<in> set is. active systemId (gm_nodes s1 ! j) \<longrightarrow> advertised d (gm_nodes s1) j"
      using Cons.prems(4) i(2) adv same by (metis list.set_intros(2))
    ultimately obtain s' where s': "fold_res (init_node systemId) is s1 = Inr s'" "no_vertices d s'" "length (gm_nodes s') = length ?ns"
        "\<forall>j. j \<notin> set is \<longrightarrow> gm_nodes s' ! j = gm_nodes s1 ! j" "\<forall>i \<in> set is. node_done d systemId (gm_nodes s1) (gm_nodes s') i"
      using Cons.IH [OF n1(1) i(3)] len by auto
    have "node_done d systemId ?ns (gm_nodes s') j" if "j \<in> set is" for j
    proof -
      have "j \<noteq> i" using that i(2) by blast
      moreover have "node_done d systemId (gm_nodes s1) (gm_nodes s') j" using s'(5) that by blast
      ultimately show ?thesis using root [of j] same [of j] by (simp add: node_done_def cong: if_cong)
    qed
    moreover have "node_done d systemId ?ns (gm_nodes s') i"
      using True rn s1(2) s'(4) i by (auto simp: node_done_def n1(2) put_routing_table)
    moreover have "fold_res (init_node systemId) (i # is) s = Inr s'" using True s1(1) s'(1) by (simp add: init_node_eq)
    ultimately show ?thesis using s'(2-4) same by (intro exI [where x = s']) simp
  qed
qed simp

lemma init_all:
  assumes "p2p_database d" "no_vertices d s" "\<forall>i < length (gm_nodes s). active systemId (gm_nodes s ! i) \<longrightarrow> advertised d (gm_nodes s) i"
  obtains s' where "InitializeRoutes systemId s = Inr s'" "no_vertices d s'" "length (gm_nodes s') = length (gm_nodes s)"
    "\<And>i. i < length (gm_nodes s) \<Longrightarrow> node_done d systemId (gm_nodes s) (gm_nodes s') i"
  using init_fold [OF assms(1,2), of "[0..<length (gm_nodes s)]" systemId] assms(3) unfolding InitializeRoutes_nodes by auto

text \<open>The table of a node, and the node of a router.\<close>

definition node_table :: "'p gnode \<Rightarrow> global_routing" where
  "node_table n =
     (case gn_router n of None \<Rightarrow> GlobalRouting_new | Some r \<Rightarrow> (case gr_routing r of None \<Rightarrow> GlobalRouting_new | Some g \<Rightarrow> g))"

definition node_of :: "lsdb \<Rightarrow> ipv4 \<Rightarrow> nat" where
  "node_of d u = (case Lsdb_GetLSA u d of None \<Rightarrow> 0 | Some l \<Rightarrow> unat (ls_node l))"

lemma root_node_id: "root_node i u ip g ns \<Longrightarrow> router_id (ns ! i) = u"
  by (auto simp: root_node_def first_index_Some is_router_def router_id_def)

lemma table_done:
  assumes r: "root_node i u ip g ns" "active systemId (ns ! i)" and i: "node_done d systemId ns ns' i"
  shows "routes_for d ip u g (node_table (ns' ! i))"
proof -
  from i r(2) root_node_id [OF r(1)] obtain ip' g0 g' where
    n: "root_node i u ip' g0 ns" "routes_for d ip' u g0 g'" "ns' ! i = with_table g' (ns ! i)" by (auto simp: node_done_def)
  from n(1) r(1) have "ip' = ip" "g0 = g" by (auto simp: root_node_def)
  moreover have "node_table (ns' ! i) = g'" using n(3) r(1) by (auto simp: node_table_def root_node_def with_table_def)
  ultimately show ?thesis using n(2) by simp
qed

lemma ipv4_done: "node_done d systemId ns ns' i \<Longrightarrow> gn_ipv4 (ns' ! i) = gn_ipv4 (ns ! i)"
  by (auto simp: node_done_def with_table_def split: if_splits)

text \<open>
  Every router of the database is the node that its advertisement names, is computed by this process, has an
  empty table and an interface for each of its links.
\<close>

definition router_ready :: "lsdb \<Rightarrow> u32 \<Rightarrow> 'p gnode list \<Rightarrow> ipv4 \<times> lsa \<Rightarrow> bool" where
  "router_ready d systemId ns x \<longleftrightarrow>
     (let i = unat (ls_node (snd x)) in
      \<exists>ip. root_node i (fst x) ip GlobalRouting_new ns \<and> exits_usable d ip (fst x) \<and> active systemId (ns ! i))"

definition network_ready :: "lsdb \<Rightarrow> u32 \<Rightarrow> 'p grm \<Rightarrow> bool" where
  "network_ready d systemId s \<longleftrightarrow>
     p2p_database d \<and> unique_addresses d \<and> no_vertices d s \<and> list_all (router_ready d systemId (gm_nodes s)) (db_database d) \<and>
     (\<forall>i < length (gm_nodes s). active systemId (gm_nodes s ! i) \<longrightarrow> advertised d (gm_nodes s) i)"

lemma routes_lead:
  assumes r: "network_ready d systemId (s :: 'p grm)"
  shows "\<exists>s'. InitializeRoutes systemId s = Inr s' \<and> no_vertices d s' \<and> length (gm_nodes s') = length (gm_nodes s) \<and>
    (\<forall>i < length (gm_nodes s). gn_ipv4 (gm_nodes s' ! i) = gn_ipv4 (gm_nodes s ! i)) \<and>
    (\<forall>u w. \<forall>k \<in> p2p_links d w. Lsdb_GetLSA u d \<noteq> None \<longrightarrow> w \<in> reachable d u \<longrightarrow>
       leads d (\<lambda>u. the (gn_ipv4 (gm_nodes s ! node_of d u))) (\<lambda>u. node_table (gm_nodes s' ! node_of d u)) (lr_linkData k) u)"
proof -
  have db: "p2p_database d" "unique_addresses d" "no_vertices d s"
    "\<forall>i < length (gm_nodes s). active systemId (gm_nodes s ! i) \<longrightarrow> advertised d (gm_nodes s) i" using r by (simp_all add: network_ready_def)
  obtain s' where s': "InitializeRoutes systemId s = Inr s'" "no_vertices d s'" "length (gm_nodes s') = length (gm_nodes s)"
    "\<And>i. i < length (gm_nodes s) \<Longrightarrow> node_done d systemId (gm_nodes s) (gm_nodes s') i" using init_all [OF db(1,3,4)] by blast
  let ?ip = "\<lambda>u. the (gn_ipv4 (gm_nodes s ! node_of d u))" and ?tbl = "\<lambda>u. node_table (gm_nodes s' ! node_of d u)"
  have tbl: "exits_usable d (?ip u) u \<and> routes_for d (?ip u) u GlobalRouting_new (?tbl u)" if u: "Lsdb_GetLSA u d \<noteq> None" for u
  proof -
    from u obtain l where l: "Lsdb_GetLSA u d = Some l" by blast
    then have "(u, l) \<in> set (db_database d)" by (auto simp: Lsdb_GetLSA_def dest: map_of_SomeD)
    then have "router_ready d systemId (gm_nodes s) (u, l)" using r by (auto simp: network_ready_def list_all_iff)
    then obtain ip where ip: "root_node (node_of d u) u ip GlobalRouting_new (gm_nodes s)" "exits_usable d ip u"
      "active systemId (gm_nodes s ! node_of d u)" by (auto simp: router_ready_def Let_def node_of_def l)
    then have "gn_ipv4 (gm_nodes s ! node_of d u) = Some ip" by (simp add: root_node_def)
    with table_done [OF ip(1,3) s'(4) [OF root_node_index [OF ip(1)]]] ip(2) show ?thesis by simp
  qed
  have "leads d ?ip ?tbl (lr_linkData k) u"
    if k: "k \<in> p2p_links d w" "Lsdb_GetLSA u d \<noteq> None" "w \<in> reachable d u" for u w k
  proof -
    from k(3) obtain e where "spf_dist (p2p_links d) u e w" unfolding reachable_def by (blast elim: dist_exists)
    from tables_lead [OF db(1,2) tbl k(1) this k(2)] show ?thesis .
  qed
  with s'(1-3) ipv4_done [OF s'(4)] show ?thesis by blast
qed

end
