(* ===== verification/Global_Router.thy ===== *)
theory Global_Router
  imports Route_Manager
begin

text \<open>
  \<open>GlobalRouter\<close> of \<open>internet/model/global-router-interface.cc\<close>: a router looks at the devices of its node and
  at what is on the other side of their channels, and advertises its links, the networks for which it is
  the designated router, and the routes injected into it.
\<close>

section \<open>Nodes, devices and channels\<close>

text \<open>
  What the code reads of the devices: the node they are on, the channel, if there is one, and the answers of
  the virtual functions \<open>IsBroadcast\<close>, \<open>IsPointToPoint\<close> and \<open>IsBridge\<close>; a bridge with its ports. Devices
  are named by address; a topology gives the devices at the addresses below \<open>gt_brk\<close>, those of each channel and
  those of each node.
\<close>

record gdevice =
  gd_node :: nat
  gd_channel :: "nat option"
  gd_loopback :: bool
  gd_broadcast :: bool
  gd_p2p :: bool
  gd_bridge :: bool
  gd_ports :: "nat list"

record gtopology =
  gt_device :: "nat \<rightharpoonup> gdevice"
  gt_channel :: "nat \<Rightarrow> nat list"
  gt_nodes :: "nat \<Rightarrow> nat list"
  gt_brk :: nat

definition device_at :: "gtopology \<Rightarrow> nat \<Rightarrow> gdevice res" where
  "device_at t nd = (case gt_device t nd of None \<Rightarrow> Inl Undefined | Some x \<Rightarrow> Inr x)"

definition node_at :: "'p gnode list \<Rightarrow> nat \<Rightarrow> 'p gnode res" where
  "node_at ns i = (if i < length ns then Inr (ns ! i) else Inl Undefined)"

text \<open>The channel of a device, dereferenced; and a test over devices that stops at the first success.\<close>

definition channel_devices :: "gtopology \<Rightarrow> nat option \<Rightarrow> nat list res" where
  "channel_devices t ch = (case ch of None \<Rightarrow> Inl Assert | Some c \<Rightarrow> Inr (gt_channel t c))"

section \<open>Routers\<close>

definition AllocateRouterId :: "u32 \<Rightarrow> u32 \<times> u32" where
  "AllocateRouterId routerId = (routerId, routerId + 1)"

definition GlobalRouter_new :: "u32 \<Rightarrow> global_router \<times> u32" where
  "GlobalRouter_new counter =
     (let (routerId, counter1) = AllocateRouterId counter
      in (\<lparr>gr_routerId = routerId, gr_LSAs = [], gr_routing = None, gr_injected = []\<rparr>, counter1))"

text \<open>\<open>Ipv4GlobalRoutingHelper::Create\<close>: a node gets a router with an empty table.\<close>

definition GlobalRoutingHelper_Create :: "u32 \<Rightarrow> 'p gnode \<Rightarrow> 'p gnode \<times> u32" where
  "GlobalRoutingHelper_Create counter n =
     (let (r, counter1) = GlobalRouter_new counter in (n\<lparr>gn_router := Some (r\<lparr>gr_routing := Some GlobalRouting_new\<rparr>)\<rparr>, counter1))"

definition GlobalRouter_DoDispose :: "global_router \<Rightarrow> global_router" where
  "GlobalRouter_DoDispose r = r\<lparr>gr_routing := None, gr_injected := []\<rparr>"

definition GlobalRouter_ClearLSAs :: "global_router \<Rightarrow> global_router" where
  "GlobalRouter_ClearLSAs r = r\<lparr>gr_LSAs := []\<rparr>"

definition GlobalRouter_GetLSA :: "nat \<Rightarrow> lsa \<Rightarrow> global_router \<Rightarrow> (bool \<times> lsa) res" where
  "GlobalRouter_GetLSA n l r =
     ns_assert (Lsa_IsEmpty l) (Inr (if n < length (gr_LSAs r) then (True, Lsa_assign (gr_LSAs r ! n) l) else (False, l)))"

definition GlobalRouter_InjectRoute :: "ipv4 \<Rightarrow> u32 \<Rightarrow> global_router \<Rightarrow> global_router" where
  "GlobalRouter_InjectRoute network networkMask r =
     r\<lparr>gr_injected := gr_injected r @ [CreateNetworkRouteTo_direct network networkMask 1]\<rparr>"

definition GlobalRouter_GetInjectedRoute :: "nat \<Rightarrow> global_router \<Rightarrow> routing_entry res" where
  "GlobalRouter_GetInjectedRoute index r = ns_assert (index < length (gr_injected r)) (Inr (gr_injected r ! index))"

definition GlobalRouter_RemoveInjectedRoute :: "nat \<Rightarrow> global_router \<Rightarrow> global_router res" where
  "GlobalRouter_RemoveInjectedRoute index r =
     ns_assert (index < length (gr_injected r)) (Inr (r\<lparr>gr_injected := erase_at index (gr_injected r)\<rparr>))"

fun withdraw :: "ipv4 \<Rightarrow> u32 \<Rightarrow> routing_entry list \<Rightarrow> (routing_entry list) option" where
  "withdraw network networkMask [] = None"
| "withdraw network networkMask (e # es) =
     (if re_dest e = network \<and> re_mask e = networkMask then Some es else map_option ((#) e) (withdraw network networkMask es))"

definition GlobalRouter_WithdrawRoute :: "ipv4 \<Rightarrow> u32 \<Rightarrow> global_router \<Rightarrow> bool \<times> global_router" where
  "GlobalRouter_WithdrawRoute network networkMask r =
     (case withdraw network networkMask (gr_injected r) of
        None \<Rightarrow> (False, r)
      | Some es \<Rightarrow> (True, r\<lparr>gr_injected := es\<rparr>))"

section \<open>What is on a link\<close>

definition GetAdjacent :: "nat \<Rightarrow> nat list \<Rightarrow> nat res" where
  "GetAdjacent nd ch =
     (case ch of
        [nd1, nd2] \<Rightarrow> if nd1 = nd then Inr nd2 else if nd2 = nd then Inr nd1 else Inl Assert
      | _ \<Rightarrow> Inl Assert)"

text \<open>\<open>FindInterfaceForDevice\<close>; the index it finds stands for the interface.\<close>

definition FindInterfaceForDevice :: "'p gnode \<Rightarrow> nat \<Rightarrow> ipv4_interface option" where
  "FindInterfaceForDevice n nd =
     (case gn_ipv4 n of None \<Rightarrow> None | Some ip \<Rightarrow> find (\<lambda>i. if_device i = nd) (l3_interfaces ip))"

fun first_bridge :: "gtopology \<Rightarrow> nat \<Rightarrow> nat list \<Rightarrow> nat option res" where
  "first_bridge t nd [] = Inr None"
| "first_bridge t nd (b # bs) =
     bind_res (device_at t b) (\<lambda>x. if gd_bridge x \<and> nd \<in> set (gd_ports x) then Inr (Some b) else first_bridge t nd bs)"

definition NetDeviceIsBridged :: "gtopology \<Rightarrow> nat \<Rightarrow> nat option res" where
  "NetDeviceIsBridged t nd = bind_res (device_at t nd) (\<lambda>x. first_bridge t nd (gt_nodes t (gd_node x)))"

text \<open>
  \<open>AnotherRouterOnLink\<close>, with the bridges that have been visited: the loop over the ports of a bridge, the loop over the
  devices of a channel, for which the answer for the first bridged device is final, and the function that
  calls itself through them. The fuel bounds the bridges on the way.
\<close>

fun another_router_ports :: "(nat \<Rightarrow> nat list \<Rightarrow> (bool \<times> nat list) res) \<Rightarrow> nat \<Rightarrow> nat list \<Rightarrow> nat list \<Rightarrow> (bool \<times> nat list) res" where
  "another_router_ports another ndOther [] visited = Inr (False, visited)"
| "another_router_ports another ndOther (ndBridged # ports) visited =
     (if ndBridged = ndOther then another_router_ports another ndOther ports visited
      else
        bind_res (another ndBridged visited) (\<lambda>(found, visited1).
          if found then Inr (True, visited1) else another_router_ports another ndOther ports visited1))"

fun another_router_loop ::
  "gtopology \<Rightarrow> 'p gnode list \<Rightarrow> (nat \<Rightarrow> nat list \<Rightarrow> (bool \<times> nat list) res) \<Rightarrow> nat \<Rightarrow> nat list \<Rightarrow> nat list \<Rightarrow> (bool \<times> nat list) res" where
  "another_router_loop t ns another nd [] visited = Inr (False, visited)"
| "another_router_loop t ns another nd (ndOther # others) visited =
     (if ndOther = nd then another_router_loop t ns another nd others visited
      else
        bind_res (NetDeviceIsBridged t ndOther) (\<lambda>bnd.
          case bnd of
            Some b \<Rightarrow>
              if b \<in> set visited then Inl Fatal
              else bind_res (device_at t b) (\<lambda>bx. another_router_ports another ndOther (gd_ports bx) (b # visited))
          | None \<Rightarrow>
              bind_res (device_at t ndOther) (\<lambda>x. bind_res (node_at ns (gd_node x)) (\<lambda>nodeTemp.
                if gn_router nodeTemp \<noteq> None then Inr (True, visited) else another_router_loop t ns another nd others visited))))"

primrec AnotherRouterOnLink :: "nat \<Rightarrow> gtopology \<Rightarrow> 'p gnode list \<Rightarrow> nat \<Rightarrow> nat list \<Rightarrow> (bool \<times> nat list) res" where
  "AnotherRouterOnLink 0 t ns nd visited = Inl NoFuel"
| "AnotherRouterOnLink (Suc n) t ns nd visited =
     bind_res (device_at t nd) (\<lambda>x.
       case gd_channel x of
         None \<Rightarrow> Inr (False, visited)
       | Some c \<Rightarrow> ns_assert (gt_channel t c \<noteq> []) (another_router_loop t ns (AnotherRouterOnLink n t ns) nd (gt_channel t c) visited))"

text \<open>
  The address a device has if it can be a designated router: its node has a router and the interface of the
  device is up; and no address at all when the interface is down, for which the code goes on to the next
  device.
\<close>

datatype router_address = NoRouter | RouterDown | RouterAt ipv4

definition router_on :: "'p gnode \<Rightarrow> nat \<Rightarrow> router_address res" where
  "router_on nodeOther nd =
     (if gn_router nodeOther = None then Inr NoRouter
      else case FindInterfaceForDevice nodeOther nd of
             None \<Rightarrow> Inr NoRouter
           | Some i \<Rightarrow>
               if \<not> if_up i then Inr RouterDown
               else bind_res (Interface_GetAddress 0 i) (\<lambda>a. Inr (RouterAt (ia_local a))))"

definition designated :: "router_address \<Rightarrow> ipv4 \<Rightarrow> ipv4" where
  "designated r desigRtr = (case r of RouterAt addrOther \<Rightarrow> if addrOther < desigRtr then addrOther else desigRtr | _ \<Rightarrow> desigRtr)"

fun designated_ports :: "(nat \<Rightarrow> nat list \<Rightarrow> (ipv4 \<times> nat list) res) \<Rightarrow> nat \<Rightarrow> nat list \<Rightarrow> ipv4 \<Rightarrow> nat list \<Rightarrow> (ipv4 \<times> nat list) res" where
  "designated_ports search ndOther [] desigRtr visited = Inr (desigRtr, visited)"
| "designated_ports search ndOther (ndBridged # ports) desigRtr visited =
     (if ndBridged = ndOther then designated_ports search ndOther ports desigRtr visited
      else
        bind_res (search ndBridged visited) (\<lambda>(addrOther, visited1).
          designated_ports search ndOther ports (if addrOther < desigRtr then addrOther else desigRtr) visited1))"

fun designated_loop ::
  "gtopology \<Rightarrow> 'p gnode list \<Rightarrow> (nat \<Rightarrow> nat list \<Rightarrow> (ipv4 \<times> nat list) res) \<Rightarrow> nat \<Rightarrow> nat list \<Rightarrow> ipv4 \<Rightarrow> nat list \<Rightarrow> (ipv4 \<times> nat list) res" where
  "designated_loop t ns search ndLocal [] desigRtr visited = Inr (desigRtr, visited)"
| "designated_loop t ns search ndLocal (ndOther # others) desigRtr visited =
     bind_res (device_at t ndOther) (\<lambda>x. bind_res (node_at ns (gd_node x)) (\<lambda>nodeOther.
     bind_res (NetDeviceIsBridged t ndOther) (\<lambda>bnd.
       case bnd of
         Some b \<Rightarrow>
           if ndLocal = ndOther then designated_loop t ns search ndLocal others desigRtr visited
           else
             bind_res (router_on nodeOther b) (\<lambda>r.
               if r = RouterDown then designated_loop t ns search ndLocal others desigRtr visited
               else if b \<in> set visited then Inl Fatal
               else
                 bind_res (device_at t b) (\<lambda>bx.
                 bind_res (designated_ports search ndOther (gd_ports bx) (designated r desigRtr) (b # visited)) (\<lambda>(desigRtr1, visited1).
                   designated_loop t ns search ndLocal others desigRtr1 visited1)))
       | None \<Rightarrow>
           bind_res (router_on nodeOther ndOther) (\<lambda>r. designated_loop t ns search ndLocal others (designated r desigRtr) visited))))"

primrec FindDesignatedRouterForLink :: "nat \<Rightarrow> gtopology \<Rightarrow> 'p gnode list \<Rightarrow> nat \<Rightarrow> nat list \<Rightarrow> (ipv4 \<times> nat list) res" where
  "FindDesignatedRouterForLink 0 t ns ndLocal visited = Inl NoFuel"
| "FindDesignatedRouterForLink (Suc n) t ns ndLocal visited =
     bind_res (device_at t ndLocal) (\<lambda>x. bind_res (channel_devices t (gd_channel x)) (\<lambda>ds.
       ns_assert (ds \<noteq> []) (designated_loop t ns (FindDesignatedRouterForLink n t ns) ndLocal ds 0xffffffff visited)))"

text \<open>A bridge that has been visited counts as a device that is not bridged.\<close>

fun non_bridged_ports ::
  "gtopology \<Rightarrow> (nat option \<Rightarrow> nat list \<Rightarrow> (nat list \<times> nat list) res) \<Rightarrow> nat option \<Rightarrow> nat list \<Rightarrow> nat list \<Rightarrow> (nat list \<times> nat list) res" where
  "non_bridged_ports t search ch [] visited = Inr ([], visited)"
| "non_bridged_ports t search ch (bridgedDevice # ports) visited =
     bind_res (device_at t bridgedDevice) (\<lambda>x.
     bind_res (if gd_channel x = ch then Inr ([], visited) else search (gd_channel x) visited) (\<lambda>(c, visited1).
       bind_res (non_bridged_ports t search ch ports visited1) (\<lambda>(c1, visited2). Inr (c @ c1, visited2))))"

fun non_bridged_loop ::
  "gtopology \<Rightarrow> (nat option \<Rightarrow> nat list \<Rightarrow> (nat list \<times> nat list) res) \<Rightarrow> nat option \<Rightarrow> nat list \<Rightarrow> nat list \<Rightarrow> (nat list \<times> nat list) res" where
  "non_bridged_loop t search ch [] visited = Inr ([], visited)"
| "non_bridged_loop t search ch (nd # nds) visited =
     bind_res (NetDeviceIsBridged t nd) (\<lambda>bnd.
     bind_res
       (case bnd of
          Some b \<Rightarrow>
            if b \<notin> set visited then bind_res (device_at t b) (\<lambda>bx. non_bridged_ports t search ch (gd_ports bx) (b # visited))
            else Inr ([nd], visited)
        | None \<Rightarrow> Inr ([nd], visited)) (\<lambda>(c, visited1).
       bind_res (non_bridged_loop t search ch nds visited1) (\<lambda>(c1, visited2). Inr (c @ c1, visited2))))"

primrec FindAllNonBridgedDevicesOnLink :: "nat \<Rightarrow> gtopology \<Rightarrow> nat option \<Rightarrow> nat list \<Rightarrow> (nat list \<times> nat list) res" where
  "FindAllNonBridgedDevicesOnLink 0 t ch visited = Inl NoFuel"
| "FindAllNonBridgedDevicesOnLink (Suc n) t ch visited =
     bind_res (channel_devices t ch) (\<lambda>ds. non_bridged_loop t (FindAllNonBridgedDevicesOnLink n t) ch ds visited)"

definition link_fuel :: "gtopology \<Rightarrow> nat" where
  "link_fuel t = gt_brk t + 1"

section \<open>Link records\<close>

text \<open>The interface of a device with its first address, or the abort of the code when there is none.\<close>

definition interface_of :: "'p gnode \<Rightarrow> nat \<Rightarrow> (ipv4_interface \<times> iface_addr) res" where
  "interface_of n nd =
     (if gn_ipv4 n = None then Inl Fatal
      else case FindInterfaceForDevice n nd of
             None \<Rightarrow> Inl Fatal
           | Some i \<Rightarrow> bind_res (Interface_GetAddress 0 i) (\<lambda>a. Inr (i, a)))"

definition ProcessSingleBroadcastLink ::
  "gtopology \<Rightarrow> 'p gnode list \<Rightarrow> nat \<Rightarrow> lsa \<times> nat list \<Rightarrow> (lsa \<times> nat list) res" where
  "ProcessSingleBroadcastLink t ns nd s =
     (let (pLSA, c) = s in
      bind_res (device_at t nd) (\<lambda>x. bind_res (node_at ns (gd_node x)) (\<lambda>node. bind_res (interface_of node nd) (\<lambda>(i, a).
      bind_res (AnotherRouterOnLink (link_fuel t) t ns nd []) (\<lambda>(another, visited).
        if \<not> another then
          Inr (Lsa_AddLinkRecord (LinkRecord_new\<lparr>lr_linkType := StubNetwork, lr_linkId := Ipv4Address_CombineMask (ia_local a) (ia_mask a),
                 lr_linkData := ia_mask a, lr_metric := if_metric i\<rparr>) pLSA, c)
        else
          bind_res (FindDesignatedRouterForLink (link_fuel t) t ns nd []) (\<lambda>(desigRtr, visited1).
            if desigRtr \<noteq> 0xffffffff \<and> Ipv4Address_CombineMask (ia_local a) (ia_mask a) \<noteq> Ipv4Address_CombineMask desigRtr (ia_mask a)
            then Inl Fatal
            else
              Inr (Lsa_AddLinkRecord (LinkRecord_new\<lparr>lr_linkType := TransitNetwork, lr_linkId := desigRtr, lr_linkData := ia_local a,
                     lr_metric := if_metric i\<rparr>) pLSA,
                   if desigRtr = ia_local a then c @ [nd] else c)))))))"

text \<open>For a bridge the code is disabled.\<close>

definition ProcessBroadcastLink :: "gtopology \<Rightarrow> 'p gnode list \<Rightarrow> nat \<Rightarrow> lsa \<times> nat list \<Rightarrow> (lsa \<times> nat list) res" where
  "ProcessBroadcastLink t ns nd s =
     bind_res (device_at t nd) (\<lambda>x. if gd_bridge x then Inr s else ProcessSingleBroadcastLink t ns nd s)"

definition ProcessPointToPointLink :: "gtopology \<Rightarrow> 'p gnode list \<Rightarrow> nat \<Rightarrow> lsa \<Rightarrow> lsa res" where
  "ProcessPointToPointLink t ns ndLocal pLSA =
     bind_res (device_at t ndLocal) (\<lambda>x. bind_res (node_at ns (gd_node x)) (\<lambda>nodeLocal. bind_res (interface_of nodeLocal ndLocal) (\<lambda>(i, a).
     bind_res (channel_devices t (gd_channel x)) (\<lambda>ch. bind_res (GetAdjacent ndLocal ch) (\<lambda>ndRemote.
     bind_res (device_at t ndRemote) (\<lambda>y. bind_res (node_at ns (gd_node y)) (\<lambda>nodeRemote.
       if gn_ipv4 nodeRemote = None then Inl Fatal
       else case gn_router nodeRemote of
              None \<Rightarrow> Inr pLSA
            | Some rtrRemote \<Rightarrow>
                bind_res (interface_of nodeRemote ndRemote) (\<lambda>(j, b).
                  let pLSA1 =
                        (if if_up j
                         then Lsa_AddLinkRecord (LinkRecord_new\<lparr>lr_linkType := PointToPoint, lr_linkId := gr_routerId rtrRemote,
                                lr_linkData := ia_local a, lr_metric := if_metric i\<rparr>) pLSA
                         else pLSA)
                  in Inr (Lsa_AddLinkRecord (LinkRecord_new\<lparr>lr_linkType := StubNetwork, lr_linkId := ia_local b,
                            lr_linkData := ia_mask b, lr_metric := if_metric i\<rparr>) pLSA1)))))))))"

section \<open>Advertisements\<close>

definition attached_router :: "gtopology \<Rightarrow> 'p gnode list \<Rightarrow> nat \<Rightarrow> ipv4 \<Rightarrow> nat \<Rightarrow> lsa \<Rightarrow> lsa res" where
  "attached_router t ns ndLocal addrLocal tempNd pLSA =
     (if tempNd = ndLocal then Inr (Lsa_AddAttachedRouter addrLocal pLSA)
      else
        bind_res (device_at t tempNd) (\<lambda>x. bind_res (node_at ns (gd_node x)) (\<lambda>tempNode.
        bind_res (router_on tempNode tempNd) (\<lambda>r.
          Inr (case r of RouterAt tempAddr \<Rightarrow> Lsa_AddAttachedRouter tempAddr pLSA | _ \<Rightarrow> pLSA)))))"

definition BuildNetworkLSAs :: "gtopology \<Rightarrow> 'p gnode list \<Rightarrow> ipv4 \<Rightarrow> nat list \<Rightarrow> lsa list \<Rightarrow> lsa list res" where
  "BuildNetworkLSAs t ns routerId c LSAs =
     fold_res (\<lambda>ndLocal ls.
         bind_res (device_at t ndLocal) (\<lambda>x. bind_res (node_at ns (gd_node x)) (\<lambda>node. bind_res (interface_of node ndLocal) (\<lambda>(i, a).
         let pLSA = Lsa_new\<lparr>ls_type := NetworkLSA, ls_linkStateId := ia_local a, ls_advertisingRtr := routerId, ls_networkMask := ia_mask a,
                      ls_status := LSA_SPF_NOT_EXPLORED, ls_node := of_nat (gd_node x)\<rparr>
         in bind_res (channel_devices t (gd_channel x)) (\<lambda>ds.
            ns_assert (ds \<noteq> [])
             (bind_res (FindAllNonBridgedDevicesOnLink (link_fuel t) t (gd_channel x) []) (\<lambda>(deviceList, visited).
              bind_res (fold_res (attached_router t ns ndLocal (ia_local a)) deviceList pLSA) (\<lambda>l. Inr (ls @ [l]))))))))) c LSAs"

definition is_forwarding :: "'p l3 \<Rightarrow> nat \<Rightarrow> bool" where
  "is_forwarding ip nd \<longleftrightarrow> list_ex (\<lambda>i. if_device i = nd \<and> if_up i \<and> if_forwarding i) (l3_interfaces ip)"

definition discover_device :: "gtopology \<Rightarrow> 'p gnode list \<Rightarrow> 'p gnode \<Rightarrow> 'p l3 \<Rightarrow> nat \<Rightarrow> lsa \<times> nat list \<Rightarrow> (lsa \<times> nat list) res" where
  "discover_device t ns node ip nd s =
     bind_res (device_at t nd) (\<lambda>x.
       if gd_loopback x then Inr s
       else
         bind_res (NetDeviceIsBridged t nd) (\<lambda>bnd.
           if bnd \<noteq> None \<and> FindInterfaceForDevice node nd \<noteq> None then Inl Fatal
           else if \<not> is_forwarding ip nd then Inr s
           else if gd_broadcast x \<and> \<not> gd_p2p x then ProcessBroadcastLink t ns nd s
           else if gd_p2p x then bind_res (ProcessPointToPointLink t ns nd (fst s)) (\<lambda>pLSA. Inr (pLSA, snd s))
           else Inl Assert))"

definition external_lsa :: "ipv4 \<Rightarrow> routing_entry \<Rightarrow> lsa" where
  "external_lsa routerId e =
     Lsa_new\<lparr>ls_type := ASExternalLSAs, ls_linkStateId := re_dest e, ls_advertisingRtr := routerId, ls_networkMask := re_mask e,
       ls_status := LSA_SPF_NOT_EXPLORED\<rparr>"

definition DiscoverLSAs :: "gtopology \<Rightarrow> nat \<Rightarrow> 'p gnode list \<Rightarrow> lsa list res" where
  "DiscoverLSAs t i ns =
     bind_res (node_at ns i) (\<lambda>node.
       case gn_router node of
         None \<Rightarrow> Inl Undefined
       | Some r \<Rightarrow>
           (case gn_ipv4 node of
              None \<Rightarrow> Inl Fatal
            | Some ip \<Rightarrow>
                bind_res (fold_res (discover_device t ns node ip) (gt_nodes t i)
                   (Lsa_new\<lparr>ls_type := RouterLSA, ls_linkStateId := gr_routerId r, ls_advertisingRtr := gr_routerId r,
                      ls_status := LSA_SPF_NOT_EXPLORED, ls_node := of_nat i\<rparr>, [])) (\<lambda>(pLSA, c).
                bind_res (BuildNetworkLSAs t ns (gr_routerId r) c [pLSA]) (\<lambda>ls.
                  Inr (ls @ map (external_lsa (gr_routerId r)) (gr_injected r))))))"

text \<open>The helper's entry points, on the routers of a topology.\<close>

definition PopulateRoutingTables_on :: "gtopology \<Rightarrow> u32 \<Rightarrow> 'p grm \<Rightarrow> 'p grm res" where
  "PopulateRoutingTables_on t = PopulateRoutingTables (DiscoverLSAs t)"

end
