(* ===== verification/Network_Routes.thy ===== *)
theory Network_Routes
  imports Route_Delivery Global_Router
begin

text \<open>
  From the devices and channels of a network to its routing tables: on a network of point-to-point links,
  what the routers discover is a database to which the theorems on shortest paths apply.
\<close>

section \<open>Networks of point-to-point links\<close>

definition p2p_devices :: "gtopology \<Rightarrow> nat \<Rightarrow> nat list" where
  "p2p_devices t i = filter (\<lambda>nd. case gt_device t nd of None \<Rightarrow> False | Some x \<Rightarrow> \<not> gd_loopback x) (gt_nodes t i)"

text \<open>The device at the other end of a link, its node, and the interface of a device on a node.\<close>

definition peer :: "gtopology \<Rightarrow> nat \<Rightarrow> nat" where
  "peer t nd = (let ds = gt_channel t (the (gd_channel (the (gt_device t nd)))) in if ds ! 0 = nd then ds ! 1 else ds ! 0)"

abbreviation dev_node :: "gtopology \<Rightarrow> nat \<Rightarrow> nat" where
  "dev_node t nd \<equiv> gd_node (the (gt_device t nd))"

definition iface :: "'p gnode \<Rightarrow> nat \<Rightarrow> ipv4_interface" where
  "iface n nd = the (FindInterfaceForDevice n nd)"

definition dev_addr :: "'p gnode \<Rightarrow> nat \<Rightarrow> iface_addr" where
  "dev_addr n nd = if_addrs (iface n nd) ! 0"

text \<open>An interface of the device, with an address that no interface of the node has for another device.\<close>

definition sole_owner :: "'p gnode \<Rightarrow> nat \<Rightarrow> ipv4 \<Rightarrow> bool" where
  "sole_owner n nd a \<longleftrightarrow>
     (case gn_ipv4 n of
        None \<Rightarrow> False
      | Some ip \<Rightarrow> list_all (\<lambda>j. list_ex (\<lambda>x. ia_local x = a) (if_addrs j) \<longrightarrow> if_device j = nd) (l3_interfaces ip))"

definition interface_ok :: "'p gnode \<Rightarrow> nat \<Rightarrow> bool" where
  "interface_ok n nd \<longleftrightarrow>
     (case FindInterfaceForDevice n nd of
        None \<Rightarrow> False
      | Some i \<Rightarrow> if_addrs i \<noteq> [] \<and> 0 < if_metric i \<and> if_up i \<and> if_forwarding i \<and> sole_owner n nd (ia_local (if_addrs i ! 0)))"

definition link_ok :: "gtopology \<Rightarrow> nat \<Rightarrow> nat \<Rightarrow> gdevice \<Rightarrow> bool" where
  "link_ok t m nd x \<longleftrightarrow>
     (case gd_channel x of
        None \<Rightarrow> False
      | Some c \<Rightarrow>
          (gt_channel t c = [nd, peer t nd] \<or> gt_channel t c = [peer t nd, nd]) \<and> peer t nd \<noteq> nd \<and>
          (case gt_device t (peer t nd) of
             None \<Rightarrow> False
           | Some y \<Rightarrow> gd_node y < m \<and> peer t nd \<in> set (gt_nodes t (gd_node y)) \<and> \<not> gd_loopback y \<and> gd_channel y = Some c))"

definition device_ok :: "gtopology \<Rightarrow> 'p gnode list \<Rightarrow> nat \<Rightarrow> nat \<Rightarrow> bool" where
  "device_ok t ns i nd \<longleftrightarrow>
     (case gt_device t nd of
        None \<Rightarrow> False
      | Some x \<Rightarrow>
          gd_node x = i \<and> \<not> gd_bridge x \<and> (\<not> gd_loopback x \<longrightarrow> gd_p2p x \<and> link_ok t (length ns) nd x \<and> interface_ok (ns ! i) nd))"

definition node_ok :: "gtopology \<Rightarrow> 'p gnode list \<Rightarrow> nat \<Rightarrow> bool" where
  "node_ok t ns i \<longleftrightarrow>
     (case gn_router (ns ! i) of None \<Rightarrow> False | Some r \<Rightarrow> gr_injected r = [] \<and> gr_routing r = Some GlobalRouting_new) \<and>
     (case gn_ipv4 (ns ! i) of None \<Rightarrow> False | Some ip \<Rightarrow> length (l3_interfaces ip) < 2 ^ 31) \<and>
     (\<forall>nd \<in> set (gt_nodes t i). device_ok t ns i nd)"

text \<open>
  No two routers have an id, and no two nodes a link address, in common, and no address is the id of a router.
\<close>

definition addresses_ok :: "gtopology \<Rightarrow> 'p gnode list \<Rightarrow> bool" where
  "addresses_ok t ns \<longleftrightarrow>
     distinct (map router_id ns) \<and>
     (\<forall>i < length ns. \<forall>nd \<in> set (p2p_devices t i). \<forall>j < length ns.
        ia_local (dev_addr (ns ! i) nd) \<noteq> router_id (ns ! j) \<and>
        (\<forall>e \<in> set (p2p_devices t j). ia_local (dev_addr (ns ! i) nd) = ia_local (dev_addr (ns ! j) e) \<longrightarrow> i = j))"

definition p2p_network :: "gtopology \<Rightarrow> 'p gnode list \<Rightarrow> bool" where
  "p2p_network t ns \<longleftrightarrow> length ns \<le> 65536 \<and> (\<forall>i < length ns. node_ok t ns i) \<and> addresses_ok t ns"

lemma p2p_device:
  assumes "node_ok t ns i" "nd \<in> set (p2p_devices t i)"
  obtains x c where "gt_device t nd = Some x" "gd_node x = i" "\<not> gd_bridge x" "\<not> gd_loopback x" "gd_p2p x" "gd_channel x = Some c"
    "gt_channel t c = [nd, peer t nd] \<or> gt_channel t c = [peer t nd, nd]" "interface_ok (ns ! i) nd" "nd \<in> set (gt_nodes t i)"
proof -
  have nd: "nd \<in> set (gt_nodes t i)" using assms(2) by (simp add: p2p_devices_def)
  then have "device_ok t ns i nd" using assms(1) by (simp add: node_ok_def)
  with assms(2) nd that show thesis
    by (auto simp: p2p_devices_def device_ok_def link_ok_def split: option.splits)
qed

lemma p2p_peer:
  assumes "node_ok t ns i" "nd \<in> set (p2p_devices t i)"
  shows "peer t nd \<noteq> nd" "dev_node t (peer t nd) < length ns" "peer t nd \<in> set (p2p_devices t (dev_node t (peer t nd)))"
    "peer t (peer t nd) = nd" "gt_device t (peer t nd) \<noteq> None"
proof -
  have nd: "nd \<in> set (gt_nodes t i)" using assms(2) by (simp add: p2p_devices_def)
  then have "device_ok t ns i nd" using assms(1) by (simp add: node_ok_def)
  with assms(2) obtain x c y where x: "gt_device t nd = Some x" "gd_channel x = Some c" "gt_device t (peer t nd) = Some y" "peer t nd \<noteq> nd"
      "gt_channel t c = [nd, peer t nd] \<or> gt_channel t c = [peer t nd, nd]" "gd_node y < length ns"
      "peer t nd \<in> set (gt_nodes t (gd_node y))" "\<not> gd_loopback y" "gd_channel y = Some c"
    by (auto simp: p2p_devices_def device_ok_def link_ok_def split: option.splits)
  then show "peer t nd \<noteq> nd" "dev_node t (peer t nd) < length ns" "peer t nd \<in> set (p2p_devices t (dev_node t (peer t nd)))"
    "gt_device t (peer t nd) \<noteq> None" by (simp_all add: p2p_devices_def)
  show "peer t (peer t nd) = nd" using x by (auto simp: peer_def [of t "peer t nd"] Let_def)
qed

section \<open>What a router discovers\<close>

definition link_pair :: "gtopology \<Rightarrow> 'p gnode list \<Rightarrow> nat \<Rightarrow> nat \<Rightarrow> link_record list" where
  "link_pair t ns i nd =
     (let o' = peer t nd; m = ns ! dev_node t o'; metric = if_metric (iface (ns ! i) nd) in
      [\<lparr>lr_linkId = router_id m, lr_linkData = ia_local (dev_addr (ns ! i) nd), lr_linkType = PointToPoint, lr_metric = metric\<rparr>,
       \<lparr>lr_linkId = ia_local (dev_addr m o'), lr_linkData = ia_mask (dev_addr m o'), lr_linkType = StubNetwork, lr_metric = metric\<rparr>])"

definition router_lsa :: "gtopology \<Rightarrow> 'p gnode list \<Rightarrow> nat \<Rightarrow> lsa" where
  "router_lsa t ns i =
     Lsa_new\<lparr>ls_type := RouterLSA, ls_linkStateId := router_id (ns ! i), ls_advertisingRtr := router_id (ns ! i), ls_node := of_nat i,
       ls_linkRecords := concat (map (link_pair t ns i) (p2p_devices t i))\<rparr>"

lemma interface_of_ok: "interface_ok n nd \<Longrightarrow> interface_of n nd = Inr (iface n nd, dev_addr n nd)"
  by (auto simp: interface_ok_def interface_of_def iface_def dev_addr_def Interface_GetAddress_def FindInterfaceForDevice_def split: option.splits)

lemma iface_ok: "interface_ok n nd \<Longrightarrow> FindInterfaceForDevice n nd = Some (iface n nd)"
  "interface_ok n nd \<Longrightarrow> if_addrs (iface n nd) \<noteq> []" "interface_ok n nd \<Longrightarrow> 0 < if_metric (iface n nd)" "interface_ok n nd \<Longrightarrow> if_up (iface n nd)"
  "interface_ok n nd \<Longrightarrow> if_forwarding (iface n nd)" "interface_ok n nd \<Longrightarrow> sole_owner n nd (ia_local (dev_addr n nd))"
  unfolding dev_addr_def by (auto simp: interface_ok_def iface_def split: option.splits)

lemma forwarding_ok:
  assumes "interface_ok n nd" "gn_ipv4 n = Some ip"
  shows "is_forwarding ip nd"
proof -
  have "find (\<lambda>i. if_device i = nd) (l3_interfaces ip) = Some (iface n nd)" using iface_ok(1) [OF assms(1)] assms(2) by (simp add: FindInterfaceForDevice_def)
  then have "iface n nd \<in> set (l3_interfaces ip)" "if_device (iface n nd) = nd" by (auto simp: find_Some_iff)
  with iface_ok(4,5) [OF assms(1)] show ?thesis by (auto simp: is_forwarding_def list_ex_iff)
qed

lemma not_bridged:
  assumes "node_ok t ns i" "gt_device t nd = Some x" "gd_node x = i"
  shows "NetDeviceIsBridged t nd = Inr None"
proof -
  have "first_bridge t nd bs = Inr None" if "set bs \<subseteq> set (gt_nodes t i)" for bs
    using that
  proof (induction bs)
    case (Cons b bs)
    then have "device_ok t ns i b" using assms(1) by (simp add: node_ok_def)
    with Cons show ?case by (auto simp: device_ok_def device_at_def split: option.splits)
  qed simp
  from this [of "gt_nodes t i"] show ?thesis using assms(2,3) by (simp add: NetDeviceIsBridged_def device_at_def)
qed

lemma p2p_link_step:
  assumes all: "\<forall>i < length ns. node_ok t ns i" and i: "i < length ns" and nd: "nd \<in> set (p2p_devices t i)"
  shows "ProcessPointToPointLink t ns nd l = Inr (l\<lparr>ls_linkRecords := ls_linkRecords l @ link_pair t ns i nd\<rparr>)"
proof -
  have ok: "node_ok t ns i" using all i by blast
  obtain x c where x: "gt_device t nd = Some x" "gd_node x = i" "gd_channel x = Some c"
    "gt_channel t c = [nd, peer t nd] \<or> gt_channel t c = [peer t nd, nd]" "interface_ok (ns ! i) nd" using p2p_device [OF ok nd] by metis
  let ?o = "peer t nd" and ?j = "dev_node t (peer t nd)"
  note p = p2p_peer [OF ok nd]
  from all p(2) have okj: "node_ok t ns ?j" by blast
  obtain y where y: "gt_device t ?o = Some y" using p(5) by blast
  have io: "interface_ok (ns ! ?j) ?o" using p2p_device [OF okj p(3)] by metis
  obtain r ip where r: "gn_router (ns ! ?j) = Some r" "gn_ipv4 (ns ! ?j) = Some ip" using okj by (auto simp: node_ok_def split: option.splits)
  have "GetAdjacent nd (gt_channel t c) = Inr ?o" using x(4) p(1) by (auto simp: GetAdjacent_def)
  then show ?thesis
    using x y p i r interface_of_ok [OF x(5)] interface_of_ok [OF io] iface_ok(4) [OF io]
    by (simp add: ProcessPointToPointLink_def device_at_def node_at_def channel_devices_def Let_def Lsa_AddLinkRecord_def link_pair_def
        LinkRecord_new_def router_id_def)
qed

lemma discover_step:
  assumes all: "\<forall>i < length ns. node_ok t ns i" and i: "i < length ns" "gn_ipv4 (ns ! i) = Some ip"
    and nd: "set nds \<subseteq> set (gt_nodes t i)"
  shows "fold_res (discover_device t ns (ns ! i) ip) nds (l, []) =
    Inr (l\<lparr>ls_linkRecords := ls_linkRecords l @ concat (map (link_pair t ns i)
      (filter (\<lambda>nd. case gt_device t nd of None \<Rightarrow> False | Some x \<Rightarrow> \<not> gd_loopback x) nds))\<rparr>, [])"
  using nd
proof (induction nds arbitrary: l)
  case (Cons nd nds)
  have ok: "node_ok t ns i" using all i(1) by blast
  then have "device_ok t ns i nd" using Cons.prems by (simp add: node_ok_def)
  then obtain x where x: "gt_device t nd = Some x" "gd_node x = i" by (auto simp: device_ok_def split: option.splits)
  show ?case
  proof (cases "gd_loopback x")
    case True
    then show ?thesis using Cons x by (simp add: discover_device_def device_at_def)
  next
    case False
    then have p: "nd \<in> set (p2p_devices t i)" using x Cons.prems by (simp add: p2p_devices_def)
    obtain "gd_p2p x" "interface_ok (ns ! i) nd" using p2p_device [OF ok p] x(1) by (metis option.inject)
    then have "discover_device t ns (ns ! i) ip nd (l, []) = Inr (l\<lparr>ls_linkRecords := ls_linkRecords l @ link_pair t ns i nd\<rparr>, [])"
      using x False not_bridged [OF ok x] forwarding_ok [OF _ i(2)] p2p_link_step [OF all i(1) p]
      by (simp add: discover_device_def device_at_def)
    then show ?thesis using Cons x False by simp
  qed
qed simp

lemma discover_p2p:
  assumes "p2p_network t ns" "i < length ns"
  shows "DiscoverLSAs t i ns = Inr [router_lsa t ns i]"
proof -
  have all: "\<forall>i < length ns. node_ok t ns i" using assms(1) by (simp add: p2p_network_def)
  then have "node_ok t ns i" using assms(2) by blast
  then obtain r ip where r: "gn_router (ns ! i) = Some r" "gr_injected r = []" "gn_ipv4 (ns ! i) = Some ip"
    by (auto simp: node_ok_def split: option.splits)
  show ?thesis
    using r assms(2) discover_step [OF all assms(2) r(3), of "gt_nodes t i"]
    by (simp add: DiscoverLSAs_def node_at_def BuildNetworkLSAs_def router_lsa_def p2p_devices_def router_id_def Lsa_new_def)
qed

section \<open>The database of a network\<close>

text \<open>The advertisements of the routers are stored with them, and change nothing that others look at.\<close>

definition with_lsas :: "lsa list \<Rightarrow> 'p gnode \<Rightarrow> 'p gnode" where
  "with_lsas ls n = n\<lparr>gn_router := map_option (\<lambda>r. r\<lparr>gr_LSAs := ls\<rparr>) (gn_router n)\<rparr>"

lemma with_lsas_simps [simp]:
  "gn_ipv4 (with_lsas ls n) = gn_ipv4 n" "router_id (with_lsas ls n) = router_id n" "gn_systemId (with_lsas ls n) = gn_systemId n"
  "FindInterfaceForDevice (with_lsas ls n) nd = FindInterfaceForDevice n nd" "sole_owner (with_lsas ls n) nd a = sole_owner n nd a"
  by (simp_all add: with_lsas_def router_id_def FindInterfaceForDevice_def sole_owner_def split: option.split)

definition found_until :: "gtopology \<Rightarrow> 'p gnode list \<Rightarrow> nat \<Rightarrow> 'p gnode list" where
  "found_until t ns m = map (\<lambda>i. if i < m then with_lsas [router_lsa t ns i] (ns ! i) else ns ! i) [0..<length ns]"

lemma found_until_simps [simp]: "length (found_until t ns m) = length ns" "found_until t ns 0 = ns"
  by (simp_all add: found_until_def map_nth)

lemma found_until_nth: "i < length ns \<Longrightarrow> found_until t ns m ! i = (if i < m then with_lsas [router_lsa t ns i] (ns ! i) else ns ! i)"
  by (simp add: found_until_def)

lemma found_until_Suc: "m < length ns \<Longrightarrow> (found_until t ns m)[m := with_lsas [router_lsa t ns m] (ns ! m)] = found_until t ns (Suc m)"
  by (rule nth_equalityI) (auto simp: found_until_nth nth_list_update less_Suc_eq)

lemma found_same:
  assumes "i < length ns"
  shows "router_id (found_until t ns m ! i) = router_id (ns ! i)" "FindInterfaceForDevice (found_until t ns m ! i) nd = FindInterfaceForDevice (ns ! i) nd"
    "gn_ipv4 (found_until t ns m ! i) = gn_ipv4 (ns ! i)" "gn_systemId (found_until t ns m ! i) = gn_systemId (ns ! i)"
    "iface (found_until t ns m ! i) nd = iface (ns ! i) nd" "dev_addr (found_until t ns m ! i) nd = dev_addr (ns ! i) nd"
    "interface_ok (found_until t ns m ! i) nd = interface_ok (ns ! i) nd"
  using assms by (simp_all add: found_until_nth iface_def dev_addr_def interface_ok_def cong: option.case_cong)

lemma found_node_ok:
  assumes "i < length ns"
  shows "node_ok t (found_until t ns m) i = node_ok t ns i"
proof -
  have "device_ok t (found_until t ns m) i nd = device_ok t ns i nd" for nd
    using found_same(7) [OF assms, of t m nd] by (cases "gt_device t nd") (simp_all add: device_ok_def)
  then show ?thesis using assms found_same(3) [OF assms, of t m]
    by (simp add: node_ok_def) (auto simp: found_until_nth with_lsas_def split: option.splits)
qed

lemma found_network: "p2p_network t ns \<Longrightarrow> p2p_network t (found_until t ns m)"
proof -
  assume n: "p2p_network t ns"
  have "map router_id (found_until t ns m) = map router_id ns" by (rule nth_equalityI) (simp_all add: found_same)
  then show ?thesis using n by (simp add: p2p_network_def addresses_ok_def found_node_ok found_same)
qed

lemma found_lsa:
  assumes "p2p_network t ns" "i < length ns"
  shows "router_lsa t (found_until t ns m) i = router_lsa t ns i"
proof -
  have ok: "node_ok t ns i" using assms by (simp add: p2p_network_def)
  have "link_pair t (found_until t ns m) i nd = link_pair t ns i nd" if "nd \<in> set (p2p_devices t i)" for nd
    using p2p_peer(2) [OF ok that] assms(2) by (simp add: link_pair_def Let_def found_same)
  then have eq: "map (link_pair t (found_until t ns m) i) (p2p_devices t i) = map (link_pair t ns i) (p2p_devices t i)" by simp
  show ?thesis unfolding router_lsa_def eq found_same(1) [OF assms(2)] ..
qed

text \<open>The database after some nodes.\<close>

definition stores :: "gtopology \<Rightarrow> 'p gnode list \<Rightarrow> nat \<Rightarrow> lsdb \<Rightarrow> bool" where
  "stores t ns m d \<longleftrightarrow>
     sorted_wrt (<) (map fst (db_database d)) \<and> db_extdatabase d = [] \<and> length (db_database d) = m \<and>
     set (db_database d) = (\<lambda>i. (router_id (ns ! i), router_lsa t ns i)) ` {..<m}"

lemma length_map_insert: "k \<notin> fst ` set xs \<Longrightarrow> length (map_insert k x xs) = Suc (length xs)"
  by (induction xs) auto

lemma set_map_insert_new: "k \<notin> fst ` set xs \<Longrightarrow> set (map_insert k x xs) = insert (k, x) (set xs)"
  by (induction xs) (auto split: if_splits)

lemma stores_insert:
  assumes "stores t ns m d" "m < length ns" "distinct (map router_id ns)"
  shows "stores t ns (Suc m) (Lsdb_Insert (router_id (ns ! m)) (router_lsa t ns m) d)"
proof -
  have "router_id (ns ! i) \<noteq> router_id (ns ! m)" if "i < m" for i
    using assms(2,3) that by (simp add: distinct_conv_nth)
  then have "router_id (ns ! m) \<notin> fst ` set (db_database d)" using assms(1) by (force simp: stores_def)
  from length_map_insert [OF this] set_map_insert_new [OF this] show ?thesis
    using assms(1) by (simp add: stores_def Lsdb_Insert_def router_lsa_def sorted_map_insert lessThan_Suc)
qed

definition build_node :: "gtopology \<Rightarrow> nat \<Rightarrow> 'p grm \<Rightarrow> 'p grm res" where
  "build_node t i s1 =
     (case gn_router (gm_nodes s1 ! i) of
        None \<Rightarrow> Inr s1
      | Some rtr \<Rightarrow>
          bind_res (DiscoverLSAs t i (gm_nodes s1)) (\<lambda>lsas.
            Inr (s1\<lparr>gm_nodes := (gm_nodes s1)[i := (gm_nodes s1 ! i)\<lparr>gn_router := Some (rtr\<lparr>gr_LSAs := lsas\<rparr>)\<rparr>],
                    gm_lsdb := fold (\<lambda>l d. let l' = Lsa_assign l Lsa_new in Lsdb_Insert (ls_linkStateId l') l' d) lsas (gm_lsdb s1)\<rparr>)))"

lemma build_nodes: "BuildGlobalRoutingDatabase (DiscoverLSAs t) s = fold_res (build_node t) [0..<length (gm_nodes s)] s"
  by (simp add: BuildGlobalRoutingDatabase_def build_node_def [abs_def])

lemma build_until:
  assumes n: "p2p_network t ns" and s: "gm_nodes s = ns" "gm_lsdb s = Lsdb_new"
  shows "m \<le> length ns \<Longrightarrow> \<exists>d. fold_res (build_node t) [0..<m] s = Inr (s\<lparr>gm_nodes := found_until t ns m, gm_lsdb := d\<rparr>) \<and> stores t ns m d"
proof (induction m)
  case 0
  show ?case using s by (intro exI [where x = Lsdb_new]) (simp add: stores_def Lsdb_new_def)
next
  case (Suc m)
  then obtain d where d: "fold_res (build_node t) [0..<m] s = Inr (s\<lparr>gm_nodes := found_until t ns m, gm_lsdb := d\<rparr>)" "stores t ns m d" by auto
  have m: "m < length ns" using Suc.prems by simp
  then have "node_ok t ns m" using n by (simp add: p2p_network_def)
  then obtain r where r: "gn_router (ns ! m) = Some r" by (auto simp: node_ok_def split: option.splits)
  have disc: "DiscoverLSAs t m (found_until t ns m) = Inr [router_lsa t ns m]"
    using discover_p2p [OF found_network [OF n], of m m] found_lsa [OF n m, of m] m by simp
  have "(found_until t ns m)[m := (ns ! m)\<lparr>gn_router := Some (r\<lparr>gr_LSAs := [router_lsa t ns m]\<rparr>)\<rparr>] = found_until t ns (Suc m)"
    using found_until_Suc [OF m, of t] r by (simp add: with_lsas_def)
  moreover have st: "stores t ns (Suc m) (Lsdb_Insert (router_id (ns ! m)) (router_lsa t ns m) d)"
    using stores_insert [OF d(2) m] n by (simp add: p2p_network_def addresses_ok_def)
  moreover have "Lsa_assign (router_lsa t ns m) Lsa_new = router_lsa t ns m" by (simp add: Lsa_assign_eq)
  moreover have "ls_linkStateId (router_lsa t ns m) = router_id (ns ! m)" by (simp add: router_lsa_def)
  ultimately have "build_node t m (s\<lparr>gm_nodes := found_until t ns m, gm_lsdb := d\<rparr>) =
      Inr (s\<lparr>gm_nodes := found_until t ns (Suc m), gm_lsdb := Lsdb_Insert (router_id (ns ! m)) (router_lsa t ns m) d\<rparr>)"
    using disc r m by (simp add: found_until_nth Let_def build_node_def)
  with d(1) have "fold_res (build_node t) [0..<Suc m] s =
      Inr (s\<lparr>gm_nodes := found_until t ns (Suc m), gm_lsdb := Lsdb_Insert (router_id (ns ! m)) (router_lsa t ns m) d\<rparr>)"
    by (simp add: fold_res_append)
  with st show ?case by blast
qed

lemma build_p2p:
  assumes "p2p_network t (gm_nodes s)" "gm_lsdb s = Lsdb_new"
  obtains d where "BuildGlobalRoutingDatabase (DiscoverLSAs t) s = Inr (s\<lparr>gm_nodes := found_until t (gm_nodes s) (length (gm_nodes s)), gm_lsdb := d\<rparr>)"
    "stores t (gm_nodes s) (length (gm_nodes s)) d"
  using build_until [OF assms(1) refl assms(2), of "length (gm_nodes s)"] unfolding build_nodes by auto

section \<open>The database fits\<close>

lemma stores_get:
  assumes "stores t ns m d" "i < m"
  shows "Lsdb_GetLSA (router_id (ns ! i)) d = Some (router_lsa t ns i)"
proof -
  have "distinct (map fst (db_database d))" using assms(1) by (auto simp: stores_def strict_sorted_iff)
  moreover have "(router_id (ns ! i), router_lsa t ns i) \<in> set (db_database d)" using assms by (auto simp: stores_def)
  ultimately show ?thesis by (simp add: Lsdb_GetLSA_def)
qed

lemma stores_only: "stores t ns m d \<Longrightarrow> Lsdb_GetLSA k d = Some l \<Longrightarrow> \<exists>i < m. k = router_id (ns ! i) \<and> l = router_lsa t ns i"
  by (auto simp: stores_def Lsdb_GetLSA_def dest!: map_of_SomeD)

lemma router_records: "stores t ns m d \<Longrightarrow> i < m \<Longrightarrow> records d (router_id (ns ! i)) = concat (map (link_pair t ns i) (p2p_devices t i))"
  by (simp add: records_def stores_get) (simp add: router_lsa_def)

text \<open>The link records of a router, one for each device.\<close>

definition link_of :: "gtopology \<Rightarrow> 'p gnode list \<Rightarrow> nat \<Rightarrow> nat \<Rightarrow> link_record" where
  "link_of t ns i nd = link_pair t ns i nd ! 0"

lemma link_of_simps [simp]:
  "lr_linkId (link_of t ns i nd) = router_id (ns ! dev_node t (peer t nd))" "lr_linkData (link_of t ns i nd) = ia_local (dev_addr (ns ! i) nd)"
  "lr_linkType (link_of t ns i nd) = PointToPoint" "lr_metric (link_of t ns i nd) = if_metric (iface (ns ! i) nd)"
  by (simp_all add: link_of_def link_pair_def Let_def)

lemma link_pair_set: "set (link_pair t ns i nd) = {link_of t ns i nd, link_pair t ns i nd ! 1}"
  "lr_linkType (link_pair t ns i nd ! 1) = StubNetwork"
  "lr_linkId (link_pair t ns i nd ! 1) = ia_local (dev_addr (ns ! dev_node t (peer t nd)) (peer t nd))"
  by (auto simp: link_of_def link_pair_def Let_def)

lemma p2p_links_network:
  assumes "stores t ns m d" "i < m"
  shows "p2p_links d (router_id (ns ! i)) = link_of t ns i ` set (p2p_devices t i)"
  unfolding p2p_links_def router_records [OF assms] using link_pair_set(2) [of t ns i] by (auto simp: link_pair_set(1))

lemma network_router_ok:
  assumes n: "p2p_network t ns" and s: "stores t ns (length ns) d" and i: "i < length ns"
  shows "router_ok d (router_id (ns ! i)) (router_lsa t ns i)"
proof -
  have ok: "node_ok t ns i" using n i by (simp add: p2p_network_def)
  have "lr_linkType r = StubNetwork \<or> lr_linkType r = PointToPoint \<and> 0 < lr_metric r \<and> Lsdb_GetLSA (lr_linkId r) d \<noteq> None \<and>
      (\<exists>b. back_link d (lr_linkId r) (router_id (ns ! i)) = Some b \<and> lr_linkType b = PointToPoint)"
    if "r \<in> set (ls_linkRecords (router_lsa t ns i))" for r
  proof (cases "lr_linkType r = StubNetwork")
    case False
    from that obtain nd where nd: "nd \<in> set (p2p_devices t i)" "r \<in> set (link_pair t ns i nd)" by (auto simp: router_lsa_def)
    then have r: "r = link_of t ns i nd" using False link_pair_set(1) [of t ns i nd] link_pair_set(2) [of t ns i nd] by auto
    let ?o = "peer t nd" and ?j = "dev_node t (peer t nd)"
    note p = p2p_peer [OF ok nd(1)]
    have bk: "link_of t ns ?j ?o \<in> set (records d (router_id (ns ! ?j)))"
      using p(3) link_pair_set(1) [of t ns ?j ?o] unfolding router_records [OF s p(2)] by auto
    have "lr_linkId (link_of t ns ?j ?o) = router_id (ns ! i)"
    proof -
      obtain x where "gt_device t nd = Some x" "gd_node x = i" using p2p_device [OF ok nd(1)] by metis
      then show ?thesis using p(4) by simp
    qed
    then have "back_link d (router_id (ns ! ?j)) (router_id (ns ! i)) \<noteq> None" using bk by (auto simp: back_link_def find_None_iff)
    then obtain b where b: "back_link d (router_id (ns ! ?j)) (router_id (ns ! i)) = Some b" by blast
    then have "b \<in> set (records d (router_id (ns ! ?j)))" "lr_linkId b = router_id (ns ! i)" by (auto simp: back_link_def find_Some_iff)
    then obtain e where e: "e \<in> set (p2p_devices t ?j)" "b \<in> set (link_pair t ns ?j e)" unfolding router_records [OF s p(2)] by auto
    have "b = link_of t ns ?j e"
    proof (rule ccontr)
      assume "b \<noteq> link_of t ns ?j e"
      then have "b = link_pair t ns ?j e ! 1" using e(2) link_pair_set(1) [of t ns ?j e] by auto
      then have "ia_local (dev_addr (ns ! dev_node t (peer t e)) (peer t e)) = router_id (ns ! i)"
        using \<open>lr_linkId b = router_id (ns ! i)\<close> link_pair_set(3) [of t ns ?j e] by simp
      moreover have okj: "node_ok t ns ?j" using n p(2) by (simp add: p2p_network_def)
      ultimately show False using p2p_peer(2,3) [OF okj e(1)] n i unfolding p2p_network_def addresses_ok_def by blast
    qed
    moreover have "interface_ok (ns ! i) nd" using p2p_device [OF ok nd(1)] by metis
    ultimately show ?thesis using r b stores_get [OF s p(2)] iface_ok(3) by simp
  qed simp
  then show ?thesis by (simp add: router_ok_def) (simp add: router_lsa_def)
qed

lemma network_database:
  assumes n: "p2p_network t ns" and s: "stores t ns (length ns) d"
  shows "p2p_database d" "unique_addresses d"
proof -
  have "router_ok d k l" if "Lsdb_GetLSA k d = Some l" for k l
    using stores_only [OF s that] network_router_ok [OF n s] by blast
  then show "p2p_database d" using n s by (simp add: p2p_database_def stores_def p2p_network_def)
  have "v = w" if "(v, x) \<in> set (db_database d)" "(w, y) \<in> set (db_database d)" "k \<in> p2p_links d v" "j \<in> p2p_links d w" "lr_linkData k = lr_linkData j"
    for v w x y k j
  proof -
    from that(1,2) s obtain a b where ab: "a < length ns" "v = router_id (ns ! a)" "b < length ns" "w = router_id (ns ! b)" by (auto simp: stores_def)
    with that(3-5) obtain c e where "c \<in> set (p2p_devices t a)" "e \<in> set (p2p_devices t b)" "ia_local (dev_addr (ns ! a) c) = ia_local (dev_addr (ns ! b) e)"
      by (auto simp: p2p_links_network [OF s])
    then have "a = b" using n ab(1,3) unfolding p2p_network_def addresses_ok_def by blast
    then show ?thesis using ab by simp
  qed
  then show "unique_addresses d" unfolding unique_addresses_def set_p2p_list by blast
qed

lemma mask_ones: "b AND 0xffffffff = (b :: u32)"
proof -
  have "(0xffffffff :: u32) = - 1" by simp
  then show ?thesis by (simp only: and.right_neutral)
qed

text \<open>The interface that is found for the address of a link is the one of its device.\<close>

lemma outgoing_found:
  assumes "interface_ok n nd" "gn_ipv4 n = Some ip" "length (l3_interfaces ip) < 2 ^ 31"
  shows "0 \<le> sint (outgoing_interface (L3_GetInterfaceForPrefix (ia_local (dev_addr n nd)) Ipv4Mask_GetOnes ip))"
    and "GetNetDevice (stack_of ip) (outgoing_interface (L3_GetInterfaceForPrefix (ia_local (dev_addr n nd)) Ipv4Mask_GetOnes ip)) = nd"
proof -
  let ?a = "ia_local (dev_addr n nd)"
  let ?P = "\<lambda>i. list_ex (\<lambda>a. Ipv4Address_CombineMask (ia_local a) Ipv4Mask_GetOnes = Ipv4Address_CombineMask ?a Ipv4Mask_GetOnes) (if_addrs i)"
  have "find (\<lambda>i. if_device i = nd) (l3_interfaces ip) = Some (iface n nd)" using iface_ok(1) [OF assms(1)] assms(2) by (simp add: FindInterfaceForDevice_def)
  then have "iface n nd \<in> set (l3_interfaces ip)" by (auto simp: find_Some_iff)
  moreover have "?P (iface n nd)" using iface_ok(2) [OF assms(1)] unfolding list_ex_iff dev_addr_def by (intro bexI [where x = "if_addrs (iface n nd) ! 0"]) simp_all
  ultimately have "find ?P (l3_interfaces ip) \<noteq> None" by (auto simp: find_None_iff)
  then obtain j where j: "first_index ?P 0 (l3_interfaces ip) = Some j" by (auto simp: find_first_index)
  then have l: "j < length (l3_interfaces ip)" "?P (l3_interfaces ip ! j)" by (simp_all add: first_index_Some)
  have b: "j < 2 ^ 31" using l(1) assms(3) by simp
  then show "0 \<le> sint (outgoing_interface (L3_GetInterfaceForPrefix ?a Ipv4Mask_GetOnes ip))"
    unfolding L3_GetInterfaceForPrefix_def j by (simp add: outgoing_interface_def signed_of_nat signed_take_bit_int_eq_self)
  have "Ipv4Address_CombineMask b Ipv4Mask_GetOnes = b" for b
    by (simp add: Ipv4Address_CombineMask_def Ipv4Mask_GetOnes_def mask_ones)
  then have "list_ex (\<lambda>x. ia_local x = ?a) (if_addrs (l3_interfaces ip ! j))" using l(2) by simp
  then have "if_device (l3_interfaces ip ! j) = nd"
    using iface_ok(6) [OF assms(1)] l(1) assms(2) by (simp add: sole_owner_def list_all_length)
  moreover have "unat (of_nat j :: u32) = j" using b by (simp add: unsigned_of_nat take_bit_nat_eq_self)
  ultimately show "GetNetDevice (stack_of ip) (outgoing_interface (L3_GetInterfaceForPrefix ?a Ipv4Mask_GetOnes ip)) = nd"
    unfolding L3_GetInterfaceForPrefix_def j using l(1) by (simp add: outgoing_interface_def stack_of_def L3_interface_def)
qed

section \<open>All tables\<close>

lemma is_router_id: "is_router k n \<longleftrightarrow> gn_router n \<noteq> None \<and> router_id n = k"
  by (simp add: is_router_def router_id_def split: option.split)

lemma found_root:
  assumes n: "p2p_network t ns" and i: "i < length ns" and ip: "gn_ipv4 (ns ! i) = Some ip"
  shows "root_node i (router_id (ns ! i)) ip GlobalRouting_new (found_until t ns (length ns))"
proof -
  let ?ns = "found_until t ns (length ns)"
  obtain r where r: "gn_router (ns ! i) = Some r" "gr_routing r = Some GlobalRouting_new"
    using n i by (fastforce simp: p2p_network_def node_ok_def split: option.splits)
  then have r': "gn_router (?ns ! i) = Some (r\<lparr>gr_LSAs := [router_lsa t ns i]\<rparr>)" using i by (simp add: found_until_nth with_lsas_def)
  have "router_id (ns ! j) \<noteq> router_id (ns ! i)" if "j < i" for j
    using n i that by (simp add: p2p_network_def addresses_ok_def distinct_conv_nth)
  then have "first_index (is_router (router_id (ns ! i))) 0 ?ns = Some i"
    using i r' found_same(1) [of _ ns t "length ns"] by (simp add: first_index_Some is_router_id)
  then show ?thesis using r r' ip found_same(3) [OF i, of t "length ns"] by (simp add: root_node_def)
qed

lemma found_active: "p2p_network t ns \<Longrightarrow> i < length ns \<Longrightarrow> gn_systemId (ns ! i) = systemId \<Longrightarrow> active systemId (found_until t ns (length ns) ! i)"
  by (fastforce simp: active_def found_until_nth with_lsas_def p2p_network_def node_ok_def split: option.splits)

lemma found_usable:
  assumes n: "p2p_network t ns" and s: "stores t ns (length ns) d" and i: "i < length ns" "gn_ipv4 (ns ! i) = Some ip"
  shows "exits_usable d ip (router_id (ns ! i))"
proof -
  have ok: "node_ok t ns i" using n i by (simp add: p2p_network_def)
  have "0 \<le> sint (snd (link_exit d ip (router_id (ns ! i)) (link_of t ns i nd)))" if "nd \<in> set (p2p_devices t i)" for nd
  proof -
    have "interface_ok (ns ! i) nd" using p2p_device [OF ok that] by metis
    then show ?thesis using outgoing_found(1) [of "ns ! i" nd ip] ok i(2) by (simp add: node_ok_def link_exit_def)
  qed
  then show ?thesis unfolding exits_usable_def set_p2p_list p2p_links_network [OF s i(1)] by blast
qed

text \<open>The state before the first computation.\<close>

definition fresh_manager :: "gtopology \<Rightarrow> u32 \<Rightarrow> 'p grm \<Rightarrow> bool" where
  "fresh_manager t systemId s \<longleftrightarrow>
     p2p_network t (gm_nodes s) \<and> gm_lsdb s = Lsdb_new \<and> gm_store s = (\<lambda>a. None) \<and> 0 < gm_next s \<and>
     list_all (\<lambda>n. gn_systemId n = systemId) (gm_nodes s)"

lemma network_found:
  assumes f: "fresh_manager t systemId s" and d: "stores t (gm_nodes s) (length (gm_nodes s)) d"
  shows "network_ready d systemId (s\<lparr>gm_nodes := found_until t (gm_nodes s) (length (gm_nodes s)), gm_lsdb := d\<rparr>)"
proof -
  let ?ns = "gm_nodes s" and ?m = "found_until t (gm_nodes s) (length (gm_nodes s))"
  have n: "p2p_network t ?ns" using f by (simp add: fresh_manager_def)
  have sys: "gn_systemId (?ns ! i) = systemId" if "i < length ?ns" for i using f that by (simp add: fresh_manager_def list_all_length)
  have small: "unat (of_nat i :: u32) = i" if "i < length ?ns" for i
    using n that by (simp add: p2p_network_def unat_of_nat)
  have ip: "\<exists>ip. gn_ipv4 (?ns ! i) = Some ip" if "i < length ?ns" for i
    using n that by (fastforce simp: p2p_network_def node_ok_def split: option.splits)
  have rdy: "router_ready d systemId ?m (router_id (?ns ! i), router_lsa t ?ns i)" if i: "i < length ?ns" for i
  proof -
    from ip [OF i] obtain ip where "gn_ipv4 (?ns ! i) = Some ip" by blast
    then have "root_node i (router_id (?ns ! i)) ip GlobalRouting_new ?m" "exits_usable d ip (router_id (?ns ! i))"
      using found_root [OF n i] found_usable [OF n d i] by blast+
    moreover have "unat (ls_node (router_lsa t ?ns i)) = i" using small [OF i] by (simp add: router_lsa_def)
    ultimately show ?thesis using found_active [OF n i sys [OF i]] by (auto simp: router_ready_def Let_def)
  qed
  have adv: "advertised d ?m i" if i: "i < length ?ns" for i
  proof -
    from ip [OF i] obtain ip where "gn_ipv4 (?ns ! i) = Some ip" by blast
    moreover have "unat (ls_node (router_lsa t ?ns i)) = i" using small [OF i] by (simp add: router_lsa_def)
    ultimately show ?thesis using found_root [OF n i] found_same(1) [OF i, of t "length ?ns"] stores_get [OF d i] by (auto simp: advertised_def)
  qed
  have "list_all (router_ready d systemId ?m) (db_database d)" using d rdy by (auto simp: list_all_iff stores_def)
  moreover have "no_vertices d (s\<lparr>gm_nodes := ?m, gm_lsdb := d\<rparr>)" using f by (simp add: no_vertices_def fresh_manager_def)
  ultimately show ?thesis using network_database [OF n d] adv by (simp add: network_ready_def)
qed

text \<open>Nodes that are connected by links.\<close>

inductive connected :: "gtopology \<Rightarrow> nat \<Rightarrow> nat \<Rightarrow> bool" for t i where
  same_node: "connected t i i"
| along_link: "connected t i j \<Longrightarrow> nd \<in> set (p2p_devices t j) \<Longrightarrow> connected t i (dev_node t (peer t nd))"

lemma connected_reachable:
  assumes n: "p2p_network t ns" and d: "stores t ns (length ns) d" and i: "i < length ns"
  shows "connected t i j \<Longrightarrow> j < length ns \<and> router_id (ns ! j) \<in> reachable d (router_id (ns ! i))"
proof (induction rule: connected.induct)
  case same_node
  show ?case using i by (auto simp: reachable_def intro: walk_here)
next
  case (along_link j nd)
  then have j: "j < length ns" "router_id (ns ! j) \<in> reachable d (router_id (ns ! i))" by simp_all
  then have "node_ok t ns j" using n by (simp add: p2p_network_def)
  from p2p_peer(2) [OF this along_link.hyps(2)] have "dev_node t (peer t nd) < length ns" .
  moreover have "link_of t ns j nd \<in> p2p_links d (router_id (ns ! j))" using p2p_links_network [OF d j(1)] along_link.hyps(2) by blast
  from walk_on [where out = "p2p_links d", OF _ this] j(2) have "router_id (ns ! dev_node t (peer t nd)) \<in> reachable d (router_id (ns ! i))"
    unfolding reachable_def by fastforce
  ultimately show ?case by blast
qed

text \<open>
  A packet is delivered when it is at a node that has the address; or when every route that the lookup in the
  node's table may draw has the device of one of the node's links, with an address of the node at the other
  end of that link as the gateway, and from that node the packet is delivered. Where the packet goes is decided by the
  device, as on the links: what a device sends, the other device of its channel receives.
\<close>

definition gateway_on :: "gtopology \<Rightarrow> 'p gnode list \<Rightarrow> nat \<Rightarrow> nat \<Rightarrow> ipv4 \<Rightarrow> bool" where
  "gateway_on t ns i j a \<longleftrightarrow> list_ex (\<lambda>e. dev_node t (peer t e) = i \<and> ia_local (dev_addr (ns ! j) e) = a) (p2p_devices t j)"

inductive delivers :: "gtopology \<Rightarrow> 'p gnode list \<Rightarrow> ipv4 \<Rightarrow> nat \<Rightarrow> bool" for t ns a where
  arrived: "nd \<in> set (p2p_devices t i) \<Longrightarrow> ia_local (dev_addr (ns ! i) nd) = a \<Longrightarrow> delivers t ns a i"
| hop: "gn_ipv4 (ns ! i) = Some ip \<Longrightarrow>
     (\<And>GetInteger. \<forall>m. GetInteger 0 m \<le> m \<Longrightarrow>
       \<exists>rt j. GlobalRouting_LookupGlobal GetInteger (stack_of ip) a 0 (node_table (ns ! i)) = Inr (Some rt) \<and>
         rt_device rt \<in> set (p2p_devices t i) \<and> j = dev_node t (peer t (rt_device rt)) \<and>
         gateway_on t ns i j (rt_gateway rt) \<and> delivers t ns a j) \<Longrightarrow> delivers t ns a i"

lemma drawn_route:
  assumes "GlobalRouting_candidates stk a 0 g = Inr rs" "rs \<noteq> []" "\<forall>m. GetInteger 0 m \<le> m"
  obtains r where "r \<in> set rs" "GlobalRouting_LookupGlobal GetInteger stk a 0 g = Inr (Some (route_via stk r))"
proof -
  define n where "n = (if m_randomEcmpRouting g then GetInteger 0 (length rs - 1) else 0)"
  have "n < length rs" using assms(3) [rule_format, of "length rs - 1"] assms(2) by (cases rs) (auto simp: n_def)
  then show thesis using assms(1,2) that [of "rs ! n"] by (simp add: GlobalRouting_LookupGlobal_def n_def)
qed

lemma exit_on_network:
  assumes n: "p2p_network t ns" and d: "stores t ns (length ns) d" and i: "i < length ns" "gn_ipv4 (ns ! i) = Some ip"
    and nd: "nd \<in> set (p2p_devices t i)"
  shows "GetNetDevice (stack_of ip) (snd (link_exit d ip (router_id (ns ! i)) (link_of t ns i nd))) = nd"
    and "gateway_on t ns i (dev_node t (peer t nd)) (fst (link_exit d ip (router_id (ns ! i)) (link_of t ns i nd)))"
proof -
  let ?l = "link_of t ns i nd" and ?j = "dev_node t (peer t nd)"
  have ok: "node_ok t ns i" using n i(1) by (simp add: p2p_network_def)
  have "interface_ok (ns ! i) nd" using p2p_device [OF ok nd] by metis
  then show "GetNetDevice (stack_of ip) (snd (link_exit d ip (router_id (ns ! i)) ?l)) = nd"
    using outgoing_found(2) [of "ns ! i" nd ip] ok i(2) by (simp add: node_ok_def link_exit_def)
  have j: "?j < length ns" by (rule p2p_peer(2) [OF ok nd])
  have l: "?l \<in> p2p_links d (router_id (ns ! i))" using p2p_links_network [OF d i(1)] nd by blast
  from exit_neighbour [OF network_database(1) [OF n d] l, of ip] obtain b where
    b: "b \<in> p2p_links d (router_id (ns ! ?j))" "lr_linkId b = router_id (ns ! i)"
      "lr_linkData b = fst (link_exit d ip (router_id (ns ! i)) ?l)" by (metis link_of_simps(1))
  from b(1) obtain e where e: "e \<in> set (p2p_devices t ?j)" "b = link_of t ns ?j e" unfolding p2p_links_network [OF d j] by blast
  have "node_ok t ns ?j" using n j by (simp add: p2p_network_def)
  from p2p_peer(2) [OF this e(1)] have "dev_node t (peer t e) = i"
    using b(2) n i(1) by (simp add: e(2) p2p_network_def addresses_ok_def distinct_conv_nth) metis
  then show "gateway_on t ns i ?j (fst (link_exit d ip (router_id (ns ! i)) ?l))"
    using e b(3) by (auto simp: gateway_on_def list_ex_iff)
qed

lemma same_addresses:
  assumes "gn_ipv4 m = gn_ipv4 n"
  shows "dev_addr m nd = dev_addr n nd"
  using assms by (simp add: dev_addr_def iface_def FindInterfaceForDevice_def)

lemma leads_delivers:
  assumes n: "p2p_network t ns" and d: "stores t ns (length ns) d"
    and ip: "\<And>i. i < length ns \<Longrightarrow> gn_ipv4 (ns' ! i) = gn_ipv4 (ns ! i)" "\<And>i. i < length ns \<Longrightarrow> gn_ipv4 (ns ! i) = Some (ipf (router_id (ns ! i)))"
    and tbl: "\<And>i. i < length ns \<Longrightarrow> tbl (router_id (ns ! i)) = node_table (ns' ! i)"
  shows "leads d ipf tbl a u \<Longrightarrow> i < length ns \<Longrightarrow> u = router_id (ns ! i) \<Longrightarrow> delivers t ns' a i"
proof (induction arbitrary: i rule: leads.induct)
  case (here k u)
  then obtain nd where "nd \<in> set (p2p_devices t i)" "k = link_of t ns i nd" using p2p_links_network [OF d here.prems(1)] by blast
  then show ?case using here same_addresses [OF ip(1) [OF here.prems(1)]] by (auto intro!: delivers.arrived)
next
  case (onward u rs)
  have addr: "dev_addr (ns' ! j) e = dev_addr (ns ! j) e" if "j < length ns" for j e using same_addresses [OF ip(1) [OF that]] .
  have ok: "node_ok t ns i" using n onward.prems(1) by (simp add: p2p_network_def)
  have ip4: "gn_ipv4 (ns' ! i) = Some (ipf u)" "gn_ipv4 (ns ! i) = Some (ipf u)"
    using ip onward.prems by simp_all
  show ?case
  proof (rule delivers.hop [where ip = "ipf u", OF ip4(1)])
    fix GetInteger :: "nat \<Rightarrow> nat \<Rightarrow> nat"
    assume draw: "\<forall>m. GetInteger 0 m \<le> m"
    have "GlobalRouting_candidates (stack_of (ipf u)) a 0 (node_table (ns' ! i)) = Inr rs"
      using onward.hyps(1) [of "stack_of (ipf u)"] tbl [OF onward.prems(1)] onward.prems(2) by simp
    from drawn_route [where GetInteger = GetInteger, OF this onward.hyps(2) draw] obtain r where r: "r \<in> set rs"
        "GlobalRouting_LookupGlobal GetInteger (stack_of (ipf u)) a 0 (node_table (ns' ! i)) = Inr (Some (route_via (stack_of (ipf u)) r))" .
    from onward.IH [OF r(1)] obtain l where l: "l \<in> p2p_links d u" "(re_gateway r, re_interface r) = link_exit d (ipf u) u l"
        "\<And>i. i < length ns \<Longrightarrow> lr_linkId l = router_id (ns ! i) \<Longrightarrow> delivers t ns' a i" by blast
    from l(1) obtain nd where nd: "nd \<in> set (p2p_devices t i)" "l = link_of t ns i nd"
      unfolding onward.prems(2) p2p_links_network [OF d onward.prems(1)] by blast
    let ?j = "dev_node t (peer t nd)"
    have j: "?j < length ns" by (rule p2p_peer(2) [OF ok nd(1)])
    have x: "fst (link_exit d (ipf u) u l) = re_gateway r" "snd (link_exit d (ipf u) u l) = re_interface r" by (simp_all flip: l(2))
    note e = exit_on_network [OF n d onward.prems(1) ip4(2) nd(1), folded onward.prems(2) nd(2), unfolded x]
    have g: "gateway_on t ns' i ?j (re_gateway r)" using e(2) addr [OF j] by (simp add: gateway_on_def)
    have "delivers t ns' a ?j" by (rule l(3) [OF j]) (simp add: nd(2))
    with r(2) e(1) g nd(1) show "\<exists>rt j. GlobalRouting_LookupGlobal GetInteger (stack_of (ipf u)) a 0 (node_table (ns' ! i)) = Inr (Some rt) \<and>
        rt_device rt \<in> set (p2p_devices t i) \<and> j = dev_node t (peer t (rt_device rt)) \<and>
        gateway_on t ns' i j (rt_gateway rt) \<and> delivers t ns' a j"
      by (intro exI [of _ "route_via (stack_of (ipf u)) r"] exI [of _ ?j]) (simp add: route_via_def)
  qed
qed

lemma populate_delivers:
  assumes f: "fresh_manager t systemId s"
  shows "\<exists>s'. PopulateRoutingTables (DiscoverLSAs t) systemId s = Inr s' \<and> gm_store s' = (\<lambda>a. None) \<and>
    (\<forall>i j nd. i < length (gm_nodes s) \<longrightarrow> connected t i j \<longrightarrow> nd \<in> set (p2p_devices t j) \<longrightarrow>
       delivers t (gm_nodes s') (ia_local (dev_addr (gm_nodes s ! j) nd)) i)"
proof -
  let ?ns = "gm_nodes s"
  have n: "p2p_network t ?ns" "gm_lsdb s = Lsdb_new" using f by (simp_all add: fresh_manager_def)
  obtain d where d: "BuildGlobalRoutingDatabase (DiscoverLSAs t) s = Inr (s\<lparr>gm_nodes := found_until t ?ns (length ?ns), gm_lsdb := d\<rparr>)"
    "stores t ?ns (length ?ns) d" using build_p2p [OF n] .
  let ?ms = "found_until t ?ns (length ?ns)"
  let ?s1 = "s\<lparr>gm_nodes := ?ms, gm_lsdb := d\<rparr>"
  from routes_lead [OF network_found [OF f d(2)]] obtain s' where s': "InitializeRoutes systemId ?s1 = Inr s'" "no_vertices d s'"
    "\<forall>i < length ?ns. gn_ipv4 (gm_nodes s' ! i) = gn_ipv4 (?ms ! i)"
    "\<forall>u w. \<forall>k \<in> p2p_links d w. Lsdb_GetLSA u d \<noteq> None \<longrightarrow> w \<in> reachable d u \<longrightarrow>
       leads d (\<lambda>u. the (gn_ipv4 (?ms ! node_of d u))) (\<lambda>u. node_table (gm_nodes s' ! node_of d u)) (lr_linkData k) u"
    by auto
  have small: "node_of d (router_id (?ns ! i)) = i" if "i < length ?ns" for i
    using n(1) that stores_get [OF d(2) that] by (simp add: node_of_def router_lsa_def p2p_network_def unat_of_nat)
  have ip: "gn_ipv4 (gm_nodes s' ! i) = gn_ipv4 (?ns ! i)" "gn_ipv4 (?ms ! i) = gn_ipv4 (?ns ! i)" if "i < length ?ns" for i
    using s'(3) that found_same(3) [OF that] by simp_all
  have some: "gn_ipv4 (?ns ! i) \<noteq> None" if "i < length ?ns" for i
    using n(1) that by (auto simp: p2p_network_def node_ok_def split: option.splits)
  have "delivers t (gm_nodes s') (ia_local (dev_addr (?ns ! j) nd)) i"
    if i: "i < length ?ns" and c: "connected t i j" "nd \<in> set (p2p_devices t j)" for i j nd
  proof -
    from connected_reachable [OF n(1) d(2) i c(1)] have j: "j < length ?ns" "router_id (?ns ! j) \<in> reachable d (router_id (?ns ! i))" by simp_all
    have "link_of t ?ns j nd \<in> p2p_links d (router_id (?ns ! j))" using p2p_links_network [OF d(2) j(1)] c(2) by blast
    then have "leads d (\<lambda>u. the (gn_ipv4 (?ms ! node_of d u))) (\<lambda>u. node_table (gm_nodes s' ! node_of d u))
        (lr_linkData (link_of t ?ns j nd)) (router_id (?ns ! i))"
      using s'(4) j(2) stores_get [OF d(2) i] by blast
    from leads_delivers [OF n(1) d(2) ip(1) _ _ this i refl] show ?thesis using small ip(2) some by simp
  qed
  moreover have "PopulateRoutingTables (DiscoverLSAs t) systemId s = Inr s'" using d(1) s'(1) by (simp add: PopulateRoutingTables_def)
  ultimately show ?thesis using s'(2) by (auto simp: no_vertices_def)
qed

end
