(* ===== verification/Link_Discovery.thy ===== *)
theory Link_Discovery
  imports Global_Router
begin

text \<open>
  The searches of \<open>GlobalRouter\<close> through bridged networks end: every call that goes deeper has marked another
  bridge, so the fuel that \<open>DiscoverLSAs\<close> gives them is enough. And one of them ends too early.
\<close>

definition devices_below :: "gtopology \<Rightarrow> bool" where
  "devices_below t \<longleftrightarrow> (\<forall>nd \<in> dom (gt_device t). nd < gt_brk t)"

text \<open>The bridges that may still be visited are fewer than the rounds that are left.\<close>

definition enough :: "gtopology \<Rightarrow> nat \<Rightarrow> nat list \<Rightarrow> bool" where
  "enough t n visited \<longleftrightarrow> card ({..<gt_brk t} - set visited) < n"

definition ends :: "('a \<times> nat list) res \<Rightarrow> nat list \<Rightarrow> bool" where
  "ends r visited \<longleftrightarrow> r \<noteq> Inl NoFuel \<and> (\<forall>x v. r = Inr (x, v) \<longrightarrow> set visited \<subseteq> set v)"

lemma enough_more: "enough t n visited \<Longrightarrow> set visited \<subseteq> set v \<Longrightarrow> enough t n v"
  unfolding enough_def by (rule le_less_trans [OF card_mono]) auto

lemma enough_mark: "enough t (Suc n) visited \<Longrightarrow> b \<notin> set visited \<Longrightarrow> b < gt_brk t \<Longrightarrow> enough t n (b # visited)"
proof -
  assume *: "enough t (Suc n) visited" "b \<notin> set visited" "b < gt_brk t"
  have "{..<gt_brk t} - set (b # visited) = ({..<gt_brk t} - set visited) - {b}" by auto
  moreover have "0 < card ({..<gt_brk t} - set visited)" using *(2,3) by (auto simp: card_gt_0_iff)
  ultimately show ?thesis using * by (simp add: enough_def card_Diff_singleton)
qed

lemma enough_start: "enough t (link_fuel t) []"
  by (simp add: enough_def link_fuel_def)

lemma ends_Inr [simp]: "ends (Inr (x, v)) visited \<longleftrightarrow> set visited \<subseteq> set v"
  by (auto simp: ends_def)

lemma ends_Inl [simp]: "ends (Inl e) visited \<longleftrightarrow> e \<noteq> NoFuel"
  by (auto simp: ends_def)

lemma ends_bind:
  assumes "ends r visited" "\<And>x v. r = Inr (x, v) \<Longrightarrow> set visited \<subseteq> set v \<Longrightarrow> ends (f (x, v)) v"
  shows "ends (bind_res r f) visited"
proof (cases r)
  case (Inr y)
  obtain x v where y: "y = (x, v)" by (cases y)
  with assms Inr have "set visited \<subseteq> set v" "ends (f (x, v)) v" by simp_all
  then have "ends (f (x, v)) visited" by (auto simp: ends_def)
  with Inr y show ?thesis by simp
qed (use assms(1) in auto)

lemma ends_plain: "r \<noteq> Inl NoFuel \<Longrightarrow> (\<And>x. r = Inr x \<Longrightarrow> ends (f x) visited) \<Longrightarrow> ends (bind_res r f) visited"
  by (cases r) auto

lemma device_at_ends [simp]: "device_at t nd \<noteq> Inl NoFuel" "device_at t nd = Inr x \<longleftrightarrow> gt_device t nd = Some x"
  by (simp_all add: device_at_def split: option.split)

lemma node_at_ends [simp]: "node_at ns i \<noteq> Inl NoFuel"
  by (simp add: node_at_def)

lemma channel_ends [simp]: "channel_devices t ch \<noteq> Inl NoFuel"
  by (simp add: channel_devices_def split: option.split)

lemma first_bridge_ends: "first_bridge t nd bs \<noteq> Inl NoFuel"
  by (induction bs) (auto simp: device_at_def split: option.split)

lemma bridged_ends [simp]: "NetDeviceIsBridged t nd \<noteq> Inl NoFuel"
  by (auto simp: NetDeviceIsBridged_def device_at_def first_bridge_ends split: option.split)

lemma router_on_ends [simp]: "router_on n nd \<noteq> Inl NoFuel"
  by (auto simp: router_on_def Interface_GetAddress_def split: option.split)

lemma below: "devices_below t \<Longrightarrow> gt_device t b = Some x \<Longrightarrow> b < gt_brk t"
  by (auto simp: devices_below_def)

lemmas ends_parts = ends_plain [OF device_at_ends(1)] ends_plain [OF node_at_ends] ends_plain [OF bridged_ends] ends_plain [OF router_on_ends]

section \<open>Each search\<close>

lemma another_ports_end:
  assumes "\<And>nd v. enough t n v \<Longrightarrow> ends (another nd v) v"
  shows "enough t n v \<Longrightarrow> ends (another_router_ports another ndOther ps v) v"
proof (induction ps arbitrary: v)
  case (Cons p ps)
  show ?case
  proof (cases "p = ndOther")
    case False
    then show ?thesis using assms [OF Cons.prems] Cons by (auto intro!: ends_bind simp: enough_more)
  qed (use Cons in simp)
qed simp

lemma another_loop_end:
  assumes t: "devices_below t" and rec: "\<And>nd v. enough t n v \<Longrightarrow> ends (another nd v) v" and v: "enough t (Suc n) v"
  shows "ends (another_router_loop t ns another nd ds v) v"
proof (induction ds)
  case (Cons x xs)
  show ?case
  proof (cases "x = nd")
    case False
    have "ends (another_router_ports another x ps (b # v)) v" if "b \<notin> set v" "gt_device t b = Some bx" for b bx ps
      using another_ports_end [OF rec enough_mark [OF v that(1) below [OF t that(2)]]] by (fastforce simp: ends_def)
    then show ?thesis using False Cons by (auto intro!: ends_plain split: option.split)
  qed (use Cons in simp)
qed simp

lemma another_ends:
  assumes "devices_below t"
  shows "enough t n v \<Longrightarrow> ends (AnotherRouterOnLink n t ns nd v) v"
proof (induction n arbitrary: nd v)
  case (Suc n)
  from another_loop_end [OF assms Suc.IH Suc.prems] show ?case
    by (auto intro!: ends_plain simp: ns_assert_def split: option.split)
qed (simp add: enough_def)

lemma designated_ports_end:
  assumes "\<And>nd v. enough t n v \<Longrightarrow> ends (search nd v) v"
  shows "enough t n v \<Longrightarrow> ends (designated_ports search ndOther ps r v) v"
proof (induction ps arbitrary: r v)
  case (Cons p ps)
  show ?case
  proof (cases "p = ndOther")
    case False
    then show ?thesis using assms [OF Cons.prems] Cons by (auto intro!: ends_bind simp: enough_more)
  qed (use Cons in simp)
qed simp

lemma designated_loop_end:
  assumes t: "devices_below t" and rec: "\<And>nd v. enough t n v \<Longrightarrow> ends (search nd v) v"
  shows "enough t (Suc n) v \<Longrightarrow> ends (designated_loop t ns search nd ds r v) v"
proof (induction ds arbitrary: r v)
  case (Cons x xs)
  have "ends (bind_res (designated_ports search x ps r' (b # v)) (\<lambda>(r1, v1). designated_loop t ns search nd xs r1 v1)) v"
    if "b \<notin> set v" "gt_device t b = Some bx" for b bx ps r'
  proof -
    have e: "ends (designated_ports search x ps r' (b # v)) (b # v)"
      by (rule designated_ports_end [OF rec enough_mark [OF Cons.prems that(1) below [OF t that(2)]]])
    then have "ends (designated_ports search x ps r' (b # v)) v" by (auto simp: ends_def)
    then show ?thesis using Cons by (auto intro!: ends_bind simp: enough_more)
  qed
  then show ?case using Cons by (auto intro!: ends_parts split: option.split)
qed simp

lemma designated_ends:
  assumes "devices_below t"
  shows "enough t n v \<Longrightarrow> ends (FindDesignatedRouterForLink n t ns nd v) v"
proof (induction n arbitrary: nd v)
  case (Suc n)
  from designated_loop_end [OF assms Suc.IH Suc.prems] show ?case
    by (auto intro!: ends_plain simp: ns_assert_def)
qed (simp add: enough_def)

lemma non_bridged_ports_end:
  assumes "\<And>ch v. enough t n v \<Longrightarrow> ends (search ch v) v"
  shows "enough t n v \<Longrightarrow> ends (non_bridged_ports t search ch ps v) v"
proof (induction ps arbitrary: v)
  case (Cons p ps)
  have rest: "ends (bind_res (non_bridged_ports t search ch ps v1) (\<lambda>(c1, v2). Inr (c @ c1, v2))) v1" if "enough t n v1" for c v1
    by (rule ends_bind [OF Cons.IH [OF that]]) simp
  have "ends (bind_res (if gd_channel x = ch then Inr ([], v) else search (gd_channel x) v)
      (\<lambda>(c, v1). bind_res (non_bridged_ports t search ch ps v1) (\<lambda>(c1, v2). Inr (c @ c1, v2)))) v" for x
    by (rule ends_bind) (use assms [OF Cons.prems] rest enough_more [OF Cons.prems] in auto)
  note step = this
  show ?case unfolding non_bridged_ports.simps by (rule ends_plain [OF device_at_ends(1)]) (rule step)
qed simp

lemma non_bridged_loop_end:
  assumes t: "devices_below t" and rec: "\<And>ch v. enough t n v \<Longrightarrow> ends (search ch v) v"
  shows "enough t (Suc n) v \<Longrightarrow> ends (non_bridged_loop t search ch ds v) v"
proof (induction ds arbitrary: v)
  case (Cons x xs)
  have rest: "ends (bind_res (non_bridged_loop t search ch xs v1) (\<lambda>(c1, v2). Inr (c @ c1, v2))) v1" if "enough t (Suc n) v1" for c v1
    by (rule ends_bind [OF Cons.IH [OF that]]) simp
  have ports: "ends (non_bridged_ports t search ch ps (b # v)) v" if "b \<notin> set v" "gt_device t b = Some bx" for b bx ps
    using non_bridged_ports_end [OF rec enough_mark [OF Cons.prems that(1) below [OF t that(2)]]] by (fastforce simp: ends_def)
  have "ends (bind_res (case bnd of Some b \<Rightarrow> if b \<notin> set v then bind_res (device_at t b) (\<lambda>bx. non_bridged_ports t search ch (gd_ports bx) (b # v))
      else Inr ([x], v) | None \<Rightarrow> Inr ([x], v))
      (\<lambda>(c, v1). bind_res (non_bridged_loop t search ch xs v1) (\<lambda>(c1, v2). Inr (c @ c1, v2)))) v" for bnd
    by (rule ends_bind) (use ports rest enough_more [OF Cons.prems] in \<open>auto intro!: ends_plain split: option.split\<close>)
  note step = this
  show ?case unfolding non_bridged_loop.simps by (rule ends_plain [OF bridged_ends]) (rule step)
qed simp

lemma non_bridged_ends:
  assumes "devices_below t"
  shows "enough t n v \<Longrightarrow> ends (FindAllNonBridgedDevicesOnLink n t ch v) v"
proof (induction n arbitrary: ch v)
  case (Suc n)
  from non_bridged_loop_end [OF assms Suc.IH Suc.prems] show ?case by (auto intro!: ends_plain)
qed (simp add: enough_def)

section \<open>Discovery\<close>

text \<open>A computation has fuel if it ends for another reason than running out of it.\<close>

definition fueled :: "'a res \<Rightarrow> bool" where
  "fueled r \<longleftrightarrow> r \<noteq> Inl NoFuel"

lemma fueled_simps [simp]: "fueled (Inr x)" "e \<noteq> NoFuel \<Longrightarrow> fueled (Inl e)"
  by (auto simp: fueled_def)

lemma fueled_bind: "fueled r \<Longrightarrow> (\<And>x. r = Inr x \<Longrightarrow> fueled (f x)) \<Longrightarrow> fueled (bind_res r f)"
  by (cases r) (auto simp: fueled_def)

lemma fueled_fold: "(\<And>x s. fueled (f x s)) \<Longrightarrow> fueled (fold_res f xs s)"
  by (induction xs arbitrary: s) (simp_all add: fueled_bind)

lemma fueled_parts [simp]:
  "fueled (device_at t nd)" "fueled (node_at ns i)" "fueled (channel_devices t c)" "fueled (NetDeviceIsBridged t nd)"
  "fueled (interface_of n nd)" "fueled (router_on n nd)" "fueled (GetAdjacent nd ds)"
  using device_at_ends [of t nd] bridged_ends [of t nd]
  by (auto simp: fueled_def interface_of_def router_on_def GetAdjacent_def Interface_GetAddress_def node_at_def channel_devices_def
      split: option.split list.split if_splits)

lemma searches_fueled:
  assumes "devices_below t"
  shows "fueled (AnotherRouterOnLink (link_fuel t) t ns nd [])" "fueled (FindDesignatedRouterForLink (link_fuel t) t ns nd [])"
    "fueled (FindAllNonBridgedDevicesOnLink (link_fuel t) t ch [])"
  using another_ends [OF assms enough_start] designated_ends [OF assms enough_start] non_bridged_ends [OF assms enough_start]
  by (auto simp: ends_def fueled_def)

lemma broadcast_fueled: "devices_below t \<Longrightarrow> fueled (ProcessBroadcastLink t ns nd s)"
  unfolding ProcessBroadcastLink_def ProcessSingleBroadcastLink_def
  by (cases s) (auto intro!: fueled_bind simp: searches_fueled)

lemma p2p_fueled: "fueled (ProcessPointToPointLink t ns nd l)"
  unfolding ProcessPointToPointLink_def Let_def
  by (auto intro!: fueled_bind split: option.split)

lemma device_fueled: "devices_below t \<Longrightarrow> fueled (discover_device t ns n ip nd s)"
  unfolding discover_device_def by (auto intro!: fueled_bind simp: broadcast_fueled p2p_fueled)

lemma network_lsas_fueled:
  assumes "devices_below t"
  shows "fueled (BuildNetworkLSAs t ns k c ls)"
proof -
  have a: "fueled (fold_res (attached_router t ns nd k) ds l)" for nd k ds l
    by (rule fueled_fold) (auto intro!: fueled_bind simp: attached_router_def)
  show ?thesis unfolding BuildNetworkLSAs_def Let_def ns_assert_def
    by (rule fueled_fold) (auto intro!: fueled_bind simp: searches_fueled [OF assms] a)
qed

text \<open>Discovery does not run out of fuel, whatever the devices, bridges and channels.\<close>

lemma discovery_fueled:
  assumes "devices_below t"
  shows "fueled (DiscoverLSAs t i ns)"
proof -
  have d: "fueled (fold_res (discover_device t ns n ip) nds s)" for n ip nds s
    by (rule fueled_fold) (rule device_fueled [OF assms])
  show ?thesis unfolding DiscoverLSAs_def
    by (auto intro!: fueled_bind simp: d network_lsas_fueled [OF assms] split: option.split)
qed

text \<open>
  A bridged device hides the routers behind it in the list of the channel: the search gives up after the
  first bridge, also when that bridge leads nowhere.
\<close>

lemma bridge_hides_routers:
  assumes "ndOther \<noteq> nd" "NetDeviceIsBridged t ndOther = Inr (Some b)" "gt_device t b = Some bx" "gd_ports bx = [ndOther]"
  shows "another_router_loop t ns another nd (ndOther # others) [] = Inr (False, [b])"
  using assms by (simp add: device_at_def)

end
