(* ===== verification/Route_Properties.thy ===== *)
theory Route_Properties
  imports Network_Routes Link_Discovery
begin

text \<open>
  The properties of the computation of global routes, a small network on which they are tried, and two
  lemmas on the search for further links between a router and a network.
\<close>

section \<open>Three routers in a line\<close>

text \<open>Routers 1, 2 and 3 with links between 1 and 2, and 2 and 3, each advertised as a link and as a stub network.\<close>

definition line_lsa :: "ipv4 \<Rightarrow> u32 \<Rightarrow> (ipv4 \<times> ipv4) list \<Rightarrow> lsa" where
  "line_lsa k n ls =
     Lsa_new\<lparr>ls_type := RouterLSA, ls_linkStateId := k, ls_advertisingRtr := k, ls_node := n,
       ls_linkRecords := concat (map (\<lambda>(w, a). [LinkRecord_of PointToPoint w a 1,
         LinkRecord_of StubNetwork (Ipv4Address_CombineMask a 0xffffff00) 0xffffff00 1]) ls)\<rparr>"

definition line_db :: lsdb where
  "line_db =
     Lsdb_new\<lparr>db_database := [(1, line_lsa 1 0 [(2, 0x0a010101)]), (2, line_lsa 2 1 [(1, 0x0a010102), (3, 0x0a010201)]),
       (3, line_lsa 3 2 [(2, 0x0a010202)])]\<rparr>"

definition line_l3 :: "ipv4 list \<Rightarrow> nat l3" where
  "line_l3 as =
     \<lparr>l3_node = 1, l3_ipForward = True, l3_weakEsModel = True, l3_protocols = Map.empty,
      l3_interfaces = map (\<lambda>a. Interface_new\<lparr>if_addrs := [InterfaceAddress_of a 0xffffff00]\<rparr>) as, l3_reverse = Map.empty, l3_defaultTtl = 64,
      l3_identification = (\<lambda>k. 0), l3_sockets = [], l3_routing = True, l3_reassembly = reassembly_new 30, l3_enableDpd = False, l3_dups = [],
      l3_expire = 1, l3_purge = 1, l3_cleanDpd = False\<rparr>"

definition line_node :: "ipv4 \<times> lsa \<Rightarrow> ipv4 list \<Rightarrow> nat gnode" where
  "line_node x as =
     \<lparr>gn_systemId = 0, gn_router = Some \<lparr>gr_routerId = fst x, gr_LSAs = [snd x], gr_routing = Some GlobalRouting_new, gr_injected = []\<rparr>, gn_ipv4 = Some (line_l3 as)\<rparr>"

definition line_state :: "nat grm" where
  "line_state =
     \<lparr>gm_lsdb = line_db, gm_store = (\<lambda>a. None), gm_next = 1, gm_spfroot = 0,
      gm_nodes = [line_node (1, line_lsa 1 0 [(2, 0x0a010101)]) [0x0a010101],
                  line_node (2, line_lsa 2 1 [(1, 0x0a010102), (3, 0x0a010201)]) [0x0a010102, 0x0a010201],
                  line_node (3, line_lsa 3 2 [(2, 0x0a010202)]) [0x0a010202]]\<rparr>"

lemma line_GetLSA:
  "Lsdb_GetLSA k line_db =
     (if k = 1 then Some (line_lsa 1 0 [(2, 0x0a010101)])
      else if k = 2 then Some (line_lsa 2 1 [(1, 0x0a010102), (3, 0x0a010201)])
      else if k = 3 then Some (line_lsa 3 2 [(2, 0x0a010202)]) else None)"
  by (simp add: Lsdb_GetLSA_def line_db_def)

lemma line_records:
  "records line_db 1 = ls_linkRecords (line_lsa 1 0 [(2, 0x0a010101)])"
  "records line_db 2 = ls_linkRecords (line_lsa 2 1 [(1, 0x0a010102), (3, 0x0a010201)])"
  "records line_db 3 = ls_linkRecords (line_lsa 3 2 [(2, 0x0a010202)])"
  by (simp_all add: records_def line_GetLSA)

lemma line_router:
  "router_ok line_db 1 (line_lsa 1 0 [(2, 0x0a010101)])"
  "router_ok line_db 2 (line_lsa 2 1 [(1, 0x0a010102), (3, 0x0a010201)])"
  "router_ok line_db 3 (line_lsa 3 2 [(2, 0x0a010202)])"
  by (simp_all add: router_ok_def line_GetLSA back_link_def line_records)
    (simp_all add: line_lsa_def LinkRecord_of_def Lsa_new_def Ipv4Address_CombineMask_def)

lemma line_p2p: "p2p_database line_db"
  unfolding p2p_database_def
proof (intro conjI allI impI)
  show "router_ok line_db k l" if "Lsdb_GetLSA k line_db = Some l" for k l
    using that line_router by (auto simp: line_GetLSA split: if_splits)
qed (simp_all add: line_db_def Lsdb_new_def)

lemma line_p2p_list:
  "p2p_list line_db 1 = [LinkRecord_of PointToPoint 2 0x0a010101 1]"
  "p2p_list line_db 2 = [LinkRecord_of PointToPoint 1 0x0a010102 1, LinkRecord_of PointToPoint 3 0x0a010201 1]"
  "p2p_list line_db 3 = [LinkRecord_of PointToPoint 2 0x0a010202 1]"
  by (simp_all add: p2p_list_def line_records) (simp_all add: line_lsa_def LinkRecord_of_def)

lemma line_root: "root_node 1 2 (line_l3 [0x0a010102, 0x0a010201]) GlobalRouting_new (gm_nodes line_state)"
  by (simp add: root_node_def line_state_def line_node_def is_router_def)

lemma line_pass: "pass_ready line_db 1 2 (line_l3 [0x0a010102, 0x0a010201]) GlobalRouting_new line_state"
  unfolding pass_ready_def using line_root by (simp add: line_GetLSA) (simp add: line_state_def line_lsa_def)


















section \<open>Properties\<close>

text \<open>
  C38. On a network of routers with point-to-point links and stub networks, one pass of \<open>SPFCalculate\<close>
  returns, and what it adds to the table of the router at the root is exactly: nothing for a router
  without links; one default route for a router with one link; and for any other router, a host route for every
  link address of every other router that can be reached, and a network route for each of their stub
  networks, for every link of the root on which a shortest path to that router begins, through the neighbour on that
  link. How often a route is entered is not said.
\<close>

theorem pass_writes_shortest_paths:
  assumes "p2p_database d" and "pass_ready d i root ip g s"
  shows "\<exists>s' g'. SPFCalculate root s = Inr s' \<and> gm_nodes s' = put_routing i g' (gm_nodes s) \<and> routes_for d ip root g g'"
  using pass [OF assms] by (auto simp: pass_done_def)

theorem pass_writes_shortest_paths_witness:
  "\<exists>s' hs ns. SPFCalculate 2 line_state = Inr s' \<and>
     gm_nodes s' = put_routing 1 (add_networks ns (add_hosts hs GlobalRouting_new)) (gm_nodes line_state) \<and>
     set hs = (\<Union>w \<in> reachable line_db 2 - {2}. hosts_to line_db (line_l3 [0x0a010102, 0x0a010201]) 2 w)"
  using pass_writes_shortest_paths [OF line_p2p line_pass] by (auto simp: routes_for_def line_p2p_list)

text \<open>
  C39. A pass of \<open>SPFCalculate\<close> follows no pointer to a vertex that is gone, deletes every vertex that it made
  exactly once, and leaves the database as it was but for the exploration status of the advertisements.
\<close>

theorem pass_frees_vertices:
  assumes "p2p_database d" and "pass_ready d i root ip g s"
  shows "\<exists>s'. SPFCalculate root s = Inr s' \<and> gm_store s' = (\<lambda>a. None) \<and> Lsdb_Initialize (gm_lsdb s') = Lsdb_Initialize (gm_lsdb s)"
  using pass [OF assms] assms(2) by (auto simp: pass_done_def pass_ready_def)

theorem pass_frees_vertices_witness:
  "\<exists>s'. SPFCalculate 2 line_state = Inr s' \<and> gm_store s' = (\<lambda>a. None) \<and> Lsdb_Initialize (gm_lsdb s') = Lsdb_Initialize line_db"
  using pass_frees_vertices [OF line_p2p line_pass] by (simp add: line_state_def)



section \<open>The search for further links\<close>

lemma find_filter: "find P ls = (case filter P ls of [] \<Rightarrow> None | c # rest \<Rightarrow> Some c)"
  by (induction ls) simp_all

text \<open>With a previous link, \<open>SPFGetNextLink\<close> returns the third matching record; the comment promises the second.\<close>

lemma next_link_third:
  "next_link w True False ls = (case filter (\<lambda>l. lr_linkId l = w) ls of a # b # c # rest \<Rightarrow> Some c | _ \<Rightarrow> None)"
proof -
  have 2: "next_link w True True ls = (case filter (\<lambda>l. lr_linkId l = w) ls of b # c # rest \<Rightarrow> Some c | _ \<Rightarrow> None)" for ls
  proof (induction ls)
    case (Cons l ls)
    then show ?case by (simp add: next_link_first find_filter split: list.splits)
  qed simp
  show ?thesis by (induction ls) (simp_all add: 2 split: list.splits)
qed

text \<open>
  A router with three links to a network next to the root makes the loop of \<open>SPFNexthopCalculation\<close> run
  forever: no number of rounds is enough.
\<close>

lemma network_exits_diverge:
  assumes "gm_store s v = Some vx" "sv_exits vx = [e]" "gm_store s w = Some wx" "v \<noteq> w" "Lsdb_GetLSA (sv_lsa wx) (gm_lsdb s) = Some y"
    and "filter (\<lambda>l. lr_linkId l = sv_id vx) (ls_linkRecords y) = a # b # c # rest"
  shows "network_exits n v w linkRemote s = Inl NoFuel"
  using assms
proof (induction n arbitrary: s wx linkRemote)
  case (Suc n)
  let ?k = "sv_id vx"
  have "next_link ?k linkRemote (\<not> linkRemote) (ls_linkRecords y) = Some (if linkRemote then c else a)"
    using Suc.prems(6) by (simp add: next_link_first next_link_third find_filter)
  then have nl: "SPFGetNextLink w v linkRemote s = Inr (Some (if linkRemote then c else a))"
    using Suc.prems by (simp add: SPFGetNextLink_def vertex_def get_vertex_def get_lsa_def)
  let ?x = "SPFVertex_SetRootExitDirection (lr_linkData (if linkRemote then c else a), snd e) wx"
  let ?s = "s\<lparr>gm_store := (gm_store s)(w \<mapsto> ?x)\<rparr>"
  have "network_exits n v w True ?s = Inl NoFuel"
    by (rule Suc.IH [where wx = ?x]) (use Suc.prems in \<open>simp_all add: SPFVertex_SetRootExitDirection_def\<close>)
  then show ?case using nl Suc.prems
    by (cases e; cases linkRemote) (simp_all add: vertex_def get_vertex_def SPFVertex_GetRootExitDirection_def SPFVertex_GetRootExitDirection_at_def update_vertex_def
        update_store_def on_vertex_def)
qed simp

end
