(* ===== verification/Spec2Isabelle.thy ===== *)
theory Spec2Isabelle
  imports Event_Core Load_Balancer Udp_Behaviour Ipv4_Configuration Route_Properties
begin

text \<open>
  A verification library for the spine-leaf load balancer and for the part of the ns-3 network
  simulator that runs it. The load balancer is the program of \<open>src/scratch/loadbalancer\<close>; the simulator
  is under \<open>src/src\<close>, and the paths below that start with a module name (\<open>core\<close>, \<open>network\<close>, \<open>internet\<close>,
  \<open>point-to-point\<close>) are relative to it.

  \<^bold>\<open>The program and its parts.\<close> A run of the program builds a network of spine and leaf switches with
  servers at the leaves, gives every link a subnet, lets a reinforcement-learning agent choose how a
  leaf spreads its traffic over the spines, and shows the agent, once a second, how many packets each
  queue dropped, how long it is and how busy its device was. Below it, the simulator keeps a queue of
  events and calls them in the order of their time stamps; devices transmit packets from drop-tail
  queues over point-to-point channels; the IP layer of each node adds and checks headers, splits a datagram
  that a device cannot carry and puts its pieces together again, and forwards packets by asking a list of
  routing protocols; the tables of one of them, global routing, are computed before the run from what every
  router advertises, by a search for shortest paths from every router; UDP finds the socket of a datagram by
  its ports and addresses, and sockets queue what arrives until their owner reads it.

  \<^bold>\<open>Effects and errors.\<close> An operation of the code is a function on the record of its object's state.
  Its result type is \<open>error + 'a\<close>: \<open>Assert\<close> is a failed \<open>NS_ASSERT\<close> (also the one inside a null smart
  pointer), \<open>Fatal\<close> an \<open>NS_FATAL_ERROR\<close> or exit, \<open>Undefined\<close> what the C++ standard leaves undefined,
  and \<open>NoFuel\<close> a loop bounded by a number of rounds that was not enough. Integers keep their widths.
  Objects that are shared live in a store by address, with address 0 the null pointer; trace sources
  and scheduled events are lists of effects.

  \<^bold>\<open>Theories, from the bottom up.\<close>

  \<^item> \<open>Ns3_Prelude\<close>: widths, the error type with its bind, guards and folds, the simplification
    collections, and the lemmas on lists and words that several components use.

  \<^item> \<open>Event_Scheduler\<close>: event keys (\<open>core/model/scheduler.h\<close>) with their order, the record of the operations of
    a \<open>Scheduler\<close>, and the locale that states what a scheduler promises, as operations on a set of events.
    \<open>List_Scheduler\<close>, \<open>Map_Scheduler\<close> and \<open>Heap_Scheduler\<close> model \<open>list-scheduler.cc\<close>, \<open>map-scheduler.cc\<close> and
    \<open>heap-scheduler.cc\<close> operation by operation and interpret the locale. The heap does so without \<open>Remove\<close>,
    which breaks its order.

  \<^item> \<open>Simulator\<close>: \<open>core/model/default-simulator-impl.cc\<close> with \<open>event-impl.cc\<close>, \<open>event-id.cc\<close> and the parts of \<open>nstime\<close>
    they use. What the functions bound to events do is a parameter; it may schedule, cancel and remove
    through the simulator. Executions are an inductive step relation, and the invariant of reachable
    states is proved by rule induction. \<open>Event_Core\<close> has the properties of the event core.

  \<^item> \<open>Packet_Queue\<close>: \<open>network/utils/queue.{h,cc}\<close>, \<open>queue-size.{h,cc}\<close> and \<open>drop-tail-queue.h\<close>, with the counters,
    the capacity test and the traces, and the locale of a bounded first-in first-out queue.

  \<^item> \<open>Packet\<close>: a packet as bytes, tags and id (\<open>network/model/packet.cc\<close>, \<open>buffer.h\<close>).

  \<^item> \<open>Point_To_Point\<close>: \<open>point-to-point/model\<close>: the PPP header, the channel, and the device with its transmitter
    state machine and the busy-time history added for the load balancer, over any queue of the locale.

  \<^item> \<open>Ipv4_Address\<close>, \<open>Ipv4_Header\<close>: \<open>network/utils/ipv4-address.cc\<close>; \<open>internet/model/ipv4-header.cc\<close> with the Internet
    checksum of \<open>buffer.cc\<close>.

  \<^item> \<open>Ipv4_Allocation\<close>: \<open>internet/model/ipv4-address-generator.cc\<close> and \<open>internet/helper/ipv4-address-helper.cc\<close>.

  \<^item> \<open>Ipv4_Routing\<close>: routing entries, \<open>ipv4-static-routing.cc\<close> and \<open>ipv4-global-routing.cc\<close>.

  \<^item> \<open>Rl_Routing\<close>: the load balancer's protocol \<open>internet/model/aarl-ipv4-routing.{h,cpp}\<close> with its packet tag, the list
    protocol \<open>ipv4-list-routing.cc\<close>, the locale of a list member that handles a packet by one callback or
    leaves it alone, and the lists that \<open>internet-stack-helper.cc\<close> installs.

  \<^item> \<open>Ipv4_Fragmentation\<close>, \<open>Ipv4_Fragment_Timeouts\<close>, \<open>Fragment_Arrivals\<close>: the part of \<open>internet/model/ipv4-l3-protocol.cc\<close> that splits a
    datagram, collects the fragments of one and gives up on those that stay incomplete. The second theory
    follows the list of timers through an inductive step relation; the third mixes the arrivals of fragments
    with calls of the timeout handler in one list of events.

  \<^item> \<open>Ipv4_Interface\<close>, \<open>Ipv4_L3\<close>: \<open>ipv4-interface-address.cc\<close>, \<open>ipv4-interface.cc\<close> and the rest of \<open>ipv4-l3-protocol.cc\<close>:
    the interfaces of a node and the paths of a packet that is sent, received, forwarded, delivered or
    reported as an error. The state is the record \<open>l3\<close>; what the layer calls is the record \<open>l3_env\<close>, and what
    it hands to devices, sockets and ICMP is a list of effects.

  \<^item> \<open>Ipv4_Hops\<close>, \<open>Ipv4_Delivery\<close>, \<open>Ipv4_Sending\<close>, \<open>Ipv4_Configuration\<close>: properties of that layer. A packet on
    its way from router to router; a datagram from the sender through the fragments to the socket of the
    receiver; the identification numbers and the duplicate check; the table of interfaces under any
    sequence of configuration calls.

  \<^item> \<open>Link_State\<close>, \<open>Spf_Tree\<close>, \<open>Route_Manager\<close>, \<open>Global_Router\<close>: the computation of the global routes,
    \<open>global-route-manager-impl.cc\<close>, \<open>candidate-queue.cc\<close>, \<open>global-router-interface.cc\<close> and
    \<open>ipv4-global-routing-helper.cc\<close>: the advertisements and their database; the vertices of the tree, in a
    store by address, with the queue of candidates; the passes that build the tree and write routes; and
    what a router advertises of its devices. The state is the record \<open>grm\<close> with the nodes in it.

  \<^item> \<open>Shortest_Paths\<close>, \<open>Spf_Steps\<close>, \<open>Spf_Invariant\<close>, \<open>Spf_Loop\<close>, \<open>Spf_Release\<close>, \<open>Spf_Stubs\<close>, \<open>Global_Routes\<close>: the
    refinement of a pass. Walks, distances and first links of shortest walks are defined on any graph; the
    invariant relates the store, the candidates and the table to them; then come the loop, the release of
    the tree, the stub networks, and one pass as a whole.

  \<^item> \<open>Route_Delivery\<close>, \<open>Network_Routes\<close>, \<open>Link_Discovery\<close>, \<open>Route_Properties\<close>: the tables of all routers, and where
    their routes lead on the links; the advertisements of a network of point-to-point links, and packets that follow the
    devices of the routes from node to node; the ends of the searches through bridges; and
    the properties, with a small network.

  \<^item> \<open>Udp_Header\<close>, \<open>End_Points\<close>, \<open>Udp_Socket\<close>: \<open>internet/model/udp-header.cc\<close>; \<open>ipv4-end-point.cc\<close> and
    \<open>ipv4-end-point-demux.cc\<close>; \<open>udp-l4-protocol.cc\<close> and \<open>udp-socket-impl.cc\<close> over IPv4. The state is the record
    \<open>udp\<close>, with the end points and a store of sockets that refer to each other by address.

  \<^item> \<open>Udp_Delivery\<close>, \<open>Udp_Behaviour\<close>: properties of UDP. A datagram from socket to socket through UDP and the
    IP layers of two nodes; the receive queue; and the references between sockets and end points under
    any sequence of calls, by an inductive step relation.

  \<^item> \<open>Topology\<close>: \<open>TopologyBuilder::BuildTopology\<close> with the helpers that create nodes, devices and links.

  \<^item> \<open>Load_Balancer\<close>: \<open>globals.h\<close>, \<open>StateActionManager\<close> in \<open>spine-leaf.{h,cc}\<close>, \<open>InitRLRouting\<close> and \<open>GetStats\<close> in
    \<open>topology-builder.h\<close>, and the environment \<open>mygym.cc\<close>.

  \<^bold>\<open>What is shown.\<close> C1 to C6: events run in causal order, the loop makes progress, never trips an
  assertion and ends; removing an event does what its id promises; heap and map deliver the same sequence.
  C7 to C12: the queue is a bounded first-in first-out queue whose counters, those of its drops too, are exact;
  the device sends every accepted packet once and in order, never trips an assertion, has one completion
  pending exactly while it is busy, and reports its busy time exactly; what a device sends, the channel brings to the
  other device, on time and unchanged. C13 to C15: addresses handed out are fresh and inside
  their subnet; static lookup is longest-prefix match and the three lists
  of global routes behave as one. C16 to C18: how the list of protocols treats a packet, and the packet
  that the load balancer makes it forward twice. C19 and C20: headers survive the wire and corrupted
  ones are rejected. C21 to C23: the tables of the topology are wired as the load balancer reads them;
  what \<open>GetData\<close> reports and resets is stated exactly while it stays inside its matrices, which the default
  configuration does not. C24 to C27: fragments fit the device and carry every byte once; in whatever order they arrive
  the datagram comes back; an incomplete one is given up on time; overlapping fragments never invent
  bytes. C28 to C31: a datagram that is sent is delivered to the transport protocol of the receiver if no
  fragment comes later than the expiration time after the first, whatever the timeout handler does meanwhile; a
  packet is forwarded at most as often as its TTL allows; the interface table stays consistent;
  identification numbers do not repeat within a period. C32 to C37: a UDP datagram is read back intact
  or rejected; the lookup finds the most specific end point; an ephemeral port is found whenever there
  is one; what is written to a socket is read from the other; the receive buffer is a bounded first-in
  first-out queue; references between sockets and end points stay right. C38 to C40: a pass of the route
  manager writes exactly the routes along the shortest paths, follows no dangling pointer and frees what it
  made; and the tables that all passes leave deliver every packet to a router that is connected, by the output
  devices of their routes.

  C38 to C40 are about point-to-point links, as in the program. Transit networks, external routes and
  bridges are modelled in full, without theorems on whole passes over them.

  The theories also prove, as lemmas, where the code does not do what it means to: removal from the heap
  breaks its order (\<open>heap_remove_breaks_order\<close>), an observation repeats drops (\<open>observation_repeats_drops\<close>), an
  overlapping fragment hides the end of a datagram (\<open>overlap_hides_last\<close>), two sockets on one port abort the
  run (\<open>unbound_after_bound_aborts\<close>), sending on a closed socket takes a port (\<open>closed_socket_takes_port\<close>), a
  router with three links to a network makes a pass loop forever (\<open>network_exits_diverge\<close>, with
  \<open>next_link_third\<close>), and a bridge hides the routers listed after it (\<open>bridge_hides_routers\<close>).

  \<^bold>\<open>Fuel.\<close> The loops that end only because of their data take a number of rounds: \<open>Simulator_Run\<close> the number
  of events it may process (C4 shows that the number of pending events is enough when events schedule
  nothing), \<open>Queue_Flush\<close> the number of packets (\<open>flush_empties\<close> shows that this is enough), the loop of
  \<open>DoFragmentation\<close> one round more than the payload has bytes (C24 shows that it always returns), the loop of
  \<open>SPFCalculate\<close> and its walks over the tree what \<open>Route_Manager\<close> says (C38 shows that they return), and the
  searches through bridges one round more than there are addresses of devices (\<open>discovery_fueled\<close> shows that
  this is enough). For the search for several links to a network no number is enough, as said above. All other
  loops are structural or have a measure.

  \<^bold>\<open>Parameters.\<close> The functions bound to events; the random variable of equal-cost routing, of which only
  the range is used; the floating-point product of a busy time and a bit rate; the node and interface
  index of a device as the routing protocol sees them. For the IP layer: the answers of the routing
  protocol, the transport protocols and the address resolution, the hash function of the duplicate check,
  and the MTU, addresses and state of the devices. For the global routes: the devices of the nodes and the
  channels between them. For UDP: the route that the routing protocol gives a
  socket, the index of a device, and the answer of the IPv6 half for a datagram without IPv4 end point.

  \<^bold>\<open>Not modelled.\<close> The object system, attributes, logging and tracing infrastructure, and the wall-clock
  simulator; traffic generation and flow
  statistics of the program (floating-point draws and files); the link to the agent (sockets and
  generated serialization); copy-on-write and byte tags of buffers; queue disciplines, which are
  not installed because the topology disables flow control; address resolution, which point-to-point devices do not need;
  TCP, IPv6 (also in UDP and its sockets) and the other network technologies and routing protocols of ns-3, which the program does not use.
\<close>

end
